(* ===== verification/Prelude.thy ===== *)
theory Prelude
  imports "HOL-Library.Word"
begin

text \<open>
  Shared vocabulary of the development: the machine types of the C++ code, the
  results of operations that may throw, C string and buffer helpers, the C rule
  for integer division, and the generic facts on lists and words the component
  theories use.
\<close>

unbundle bit_operations_syntax

subsection \<open>Machine types\<close>

text \<open>
  \<open>unsigned char\<close> is \<open>8 word\<close>, \<open>unsigned int\<close> (and \<open>unsigned long\<close> of the 32 and
  64 bit Windows builds) is \<open>32 word\<close>, \<open>uint64_t\<close> is \<open>64 word\<close>.  A
  \<open>std::string\<close>, a \<open>char *\<close> with a length and a memory buffer are lists of bytes.
\<close>

type_synonym byte = "8 word"
type_synonym u16 = "16 word"
type_synonym u32 = "32 word"
type_synonym u64 = "64 word"
type_synonym bytes = "8 word list"

text \<open>String literals of the source, as the bytes the compiler stores.\<close>

definition lit :: "string \<Rightarrow> bytes" where
  "lit s = map of_char s"

text \<open>The part of a buffer that a \<open>const char *\<close> consumer sees: up to the first NUL.\<close>

definition cstr :: "bytes \<Rightarrow> bytes" where
  "cstr b = takeWhile (\<lambda>x. x \<noteq> 0) b"

subsection \<open>Results of operations that may throw\<close>

text \<open>
  The exceptions of the code are \<open>rlog::Error\<close>, one constructor per message, and those of
  the archives of Boost (\<open>ArchiveError\<close>).
  \<open>AssertFailed\<close> is the error a failing \<open>rAssert\<close> throws.  \<open>Diverges\<close> marks
  the places where the source would loop without progress (a zero increment), and in the
  set-up of a volume those where it follows a null pointer: nothing catches it.
\<close>

datatype rerror =
    AssertFailed
  | NameTooSmall
  | InvalidPadding
  | ChecksumMismatch
  | BadDataSize
  | MacMismatch
  | RandomFailed
  | NameChangeFailed
  | OutOfRange
  | ArchiveError
  | Diverges

type_synonym 'a res = "rerror + 'a"

definition rAssert :: "bool \<Rightarrow> unit res" where
  "rAssert c = (if c then Inr () else Inl AssertFailed)"

fun rbind :: "'a res \<Rightarrow> ('a \<Rightarrow> 'b res) \<Rightarrow> 'b res" where
  "rbind (Inl e) f = Inl e"
| "rbind (Inr x) f = f x"

named_theorems res_simps

lemma rAssert_True [simp, res_simps]: "rAssert True = Inr ()"
  by (simp add: rAssert_def)

lemma rAssert_False [simp, res_simps]: "rAssert False = Inl AssertFailed"
  by (simp add: rAssert_def)

lemma rbind_Inr_iff: "rbind m f = Inr y \<longleftrightarrow> (\<exists>x. m = Inr x \<and> f x = Inr y)"
  by (cases m) auto

lemma rAssert_Inr_iff [simp]: "rAssert c = Inr u \<longleftrightarrow> c"
  by (simp add: rAssert_def)

subsection \<open>C integer division\<close>

text \<open>Division and remainder of C round towards zero.\<close>

definition cdiv :: "int \<Rightarrow> int \<Rightarrow> int" where
  "cdiv a b = sgn a * sgn b * (\<bar>a\<bar> div \<bar>b\<bar>)"

definition cmod :: "int \<Rightarrow> int \<Rightarrow> int" where
  "cmod a b = a - cdiv a b * b"

lemma cdiv_int [simp]: "cdiv (int a) (int b) = int (a div b)"
  by (cases "a = 0"; cases "b = 0") (simp_all add: cdiv_def zdiv_int)

lemma cmod_int [simp]: "cmod (int a) (int b) = int (a mod b)"
proof -
  have "int a = int (a div b) * int b + int (a mod b)"
    by (metis div_mult_mod_eq of_nat_add of_nat_mult)
  then show ?thesis unfolding cmod_def cdiv_int by linarith
qed

lemma cdiv_nonneg: "0 \<le> a \<Longrightarrow> 0 < b \<Longrightarrow> cdiv a b = a div b"
  by (cases "a = 0") (simp_all add: cdiv_def)

lemma cmod_nonneg: "0 \<le> a \<Longrightarrow> 0 < b \<Longrightarrow> cmod a b = a mod b"
  by (simp add: cmod_def cdiv_nonneg minus_div_mult_eq_mod)

subsection \<open>Buffers\<close>

text \<open>\<open>memcpy (buf + o, d, n)\<close> where \<open>d\<close> holds the \<open>n\<close> bytes.\<close>

definition overlay :: "nat \<Rightarrow> 'a list \<Rightarrow> 'a list \<Rightarrow> 'a list" where
  "overlay k d buf = take k buf @ d @ drop (k + length d) buf"

lemma length_overlay [simp]:
  "k + length d \<le> length buf \<Longrightarrow> length (overlay k d buf) = length buf"
  by (simp add: overlay_def)

lemma overlay_0 [simp]: "overlay 0 d buf = d @ drop (length d) buf"
  by (simp add: overlay_def)

lemma take_overlay_0 [simp]: "take (length d) (overlay 0 d buf) = d"
  by (simp add: overlay_def)

subsection \<open>Word and byte facts\<close>

lemma unat_lt_256 [simp]: "unat (b :: byte) < 256"
  using unsigned_less [of b] by simp

lemma unat_or_push_bit:
  fixes w :: u32 and b :: byte
  assumes "unat w < 2 ^ n" and "n + 8 \<le> 32"
  shows "unat (w OR push_bit n (ucast b)) = unat w + 2 ^ n * unat b"
proof -
  have small: "2 ^ n * unat b < 2 ^ 32"
  proof -
    have "2 ^ n * unat b < 2 ^ n * 2 ^ 8"
      using unat_lt_256 [of b] by simp
    also have "\<dots> = (2 :: nat) ^ (n + 8)" by (simp add: power_add)
    also have "\<dots> \<le> 2 ^ 32" using assms(2) by (intro power_increasing) auto
    finally show ?thesis .
  qed
  have pb: "unat (push_bit n (ucast b) :: u32) = 2 ^ n * unat b"
    using small less_trans [OF unat_lt_256 [of b]]
    by (simp only: unsigned_push_bit_eq unsigned_ucast_eq)
       (simp add: push_bit_eq_mult take_bit_eq_mod mult.commute)
  have disj: "bit (unat w) k \<Longrightarrow> \<not> bit (2 ^ n * unat b) k" for k
  proof -
    assume "bit (unat w) k"
    then have "k < n"
      using assms(1) by (metis bit_take_bit_iff take_bit_nat_eq_self)
    moreover have "2 ^ n * unat b = push_bit n (unat b)"
      by (simp add: push_bit_eq_mult)
    ultimately show ?thesis by (simp add: bit_push_bit_iff)
  qed
  have "unat w OR 2 ^ n * unat b = unat w + 2 ^ n * unat b"
    by (rule sym, rule disjunctive_add_eq_or) (use disj in \<open>auto simp: bit_eq_iff bit_simps\<close>)
  then show ?thesis
    by (simp add: unsigned_or_eq pb)
qed

end
