(* ===== verification/Base64.thy ===== *)
theory Base64
  imports Prelude
begin

text \<open>
  The base conversion of \<open>encfs/base64.cpp\<close> and \<open>encfs/base64.h\<close>: lists of
  values of a power-of-two base are regrouped into values of another one, low bits
  first, and base-64 values are mapped to a file-name-safe alphabet.  Encoding a
  byte string to base 64 and decoding it again gives the byte string back.
\<close>

subsection \<open>Sizes\<close>

definition B64ToB256Bytes :: "int \<Rightarrow> int" where
  "B64ToB256Bytes numB64Bytes = cdiv (numB64Bytes * 6) 8"

definition B256ToB64Bytes :: "int \<Rightarrow> int" where
  "B256ToB64Bytes numB256Bytes = cdiv (numB256Bytes * 8 + 5) 6"

lemma B64ToB256Bytes_int [simp]: "B64ToB256Bytes (int n) = int (n * 6 div 8)"
  using cdiv_int [of "n * 6" 8] by (simp add: B64ToB256Bytes_def)

lemma B256ToB64Bytes_int [simp]: "B256ToB64Bytes (int n) = int ((n * 8 + 5) div 6)"
  using cdiv_int [of "n * 8 + 5" 6] by (simp add: B256ToB64Bytes_def)

lemma b64_size_roundtrip: "(n * 8 + 5) div 6 * 6 div 8 = (n :: nat)"
  by presburger

subsection \<open>The conversion into a second buffer\<close>

text \<open>
  \<open>work\<close> holds the bits read and not yet written, \<open>workBits\<close> their number.  A
  conversion to base \<open>2 ^ 0\<close> would never leave the loop; no caller asks for it, and
  the guard \<open>0 < dst2Pow\<close> makes the recursion total.
\<close>

definition outMask :: "nat \<Rightarrow> u32" where
  "outMask p = push_bit p 1 - 1"

fun cb2_emit :: "nat \<Rightarrow> u32 \<Rightarrow> nat \<Rightarrow> bytes \<Rightarrow> u32 \<times> nat \<times> bytes" where
  "cb2_emit dst2Pow work workBits out =
     (if 0 < dst2Pow \<and> dst2Pow \<le> workBits
      then cb2_emit dst2Pow (drop_bit dst2Pow work) (workBits - dst2Pow)
             (out @ [ucast (work AND outMask dst2Pow)])
      else (work, workBits, out))"

declare cb2_emit.simps [simp del]

fun cb2_loop :: "nat \<Rightarrow> nat \<Rightarrow> bytes \<Rightarrow> u32 \<Rightarrow> nat \<Rightarrow> bytes \<Rightarrow> u32 \<times> nat \<times> bytes" where
  "cb2_loop src2Pow dst2Pow [] work workBits out = (work, workBits, out)"
| "cb2_loop src2Pow dst2Pow (x # src) work workBits out =
     (case cb2_emit dst2Pow (work OR push_bit workBits (ucast x)) (workBits + src2Pow) out of
        (work', workBits', out') \<Rightarrow> cb2_loop src2Pow dst2Pow src work' workBits' out')"

text \<open>The bytes written to \<open>dst\<close>, in order.\<close>

definition changeBase2 :: "bytes \<Rightarrow> nat \<Rightarrow> nat \<Rightarrow> nat \<Rightarrow> bytes" where
  "changeBase2 src src2Pow dstLen dst2Pow =
     (case cb2_loop src2Pow dst2Pow src 0 0 [] of
        (work, workBits, out) \<Rightarrow>
          if workBits \<noteq> 0 \<and> length out < dstLen
          then out @ [ucast (work AND outMask dst2Pow)] else out)"

subsection \<open>The conversion in place\<close>

text \<open>
  The recursion reads ahead and writes on the way back, so every read precedes the
  write of its cell: the result is the list of values written from the start of the
  buffer.  \<open>workBits\<close> is an \<open>int\<close>, as in the source: it becomes negative when the
  last value is cut short.
\<close>

fun cb2i_fill :: "nat \<Rightarrow> nat \<Rightarrow> bytes \<Rightarrow> u32 \<Rightarrow> int \<Rightarrow> bytes \<times> u32 \<times> int" where
  "cb2i_fill src2Pow dst2Pow [] work workBits = ([], work, workBits)"
| "cb2i_fill src2Pow dst2Pow (x # src) work workBits =
     (if workBits < int dst2Pow
      then cb2i_fill src2Pow dst2Pow src
             (work OR push_bit (nat workBits) (ucast x)) (workBits + int src2Pow)
      else (x # src, work, workBits))"

lemma cb2i_fill_length: "length (fst (cb2i_fill sp dp src w wb)) \<le> length src"
  by (induction sp dp src w wb rule: cb2i_fill.induct) auto

lemma cb2i_fill_stop:
  "fst (cb2i_fill sp dp src w wb) \<noteq> [] \<Longrightarrow> int dp \<le> snd (snd (cb2i_fill sp dp src w wb))"
  by (induction sp dp src w wb rule: cb2i_fill.induct) (auto split: if_splits)

lemma cb2i_fill_progress:
  "length (fst (cb2i_fill sp dp src w wb)) = length src \<Longrightarrow> src \<noteq> [] \<Longrightarrow>
     cb2i_fill sp dp src w wb = (src, w, wb)"
proof (cases src)
  case (Cons x xs)
  assume "length (fst (cb2i_fill sp dp src w wb)) = length src"
  then show ?thesis
    using Cons cb2i_fill_length [of sp dp xs "w OR push_bit (nat wb) (ucast x)" "wb + int sp"]
    by (auto split: if_splits)
qed simp

lemma cb2i_fill_measure:
  assumes "(src', work', wb') = cb2i_fill sp dp src work wb" and "src' \<noteq> []" and "0 < dp"
  shows "length src' < length src \<or> length src' = length src \<and> wb' - int dp < wb \<and> 0 < wb"
proof (cases "length src' = length src")
  case True
  have "int dp \<le> wb'"
    using cb2i_fill_stop [of sp dp src work wb] assms(2) unfolding assms(1) [symmetric] by simp
  moreover have "wb' = wb"
    using cb2i_fill_progress [of sp dp src work wb] True assms(2)
    unfolding assms(1) [symmetric] by fastforce
  ultimately show ?thesis using True assms(3) by simp
next
  case False
  then show ?thesis
    using cb2i_fill_length [of sp dp src work wb] unfolding assms(1) [symmetric] by simp
qed

function cb2i_rec :: "nat \<Rightarrow> nat \<Rightarrow> bool \<Rightarrow> bytes \<Rightarrow> u32 \<Rightarrow> int \<Rightarrow> bytes" where
  "cb2i_rec src2Pow dst2Pow outputPartialLastByte src work workBits =
     (case cb2i_fill src2Pow dst2Pow src work workBits of
        (src', work', workBits') \<Rightarrow>
          (let outVal = ucast (work' AND outMask dst2Pow);
               work'' = drop_bit dst2Pow work';
               workBits'' = workBits' - int dst2Pow
           in if src' \<noteq> [] \<and> 0 < dst2Pow
              then outVal # cb2i_rec src2Pow dst2Pow outputPartialLastByte src' work'' workBits''
              else outVal #
                (if workBits'' \<noteq> 0 \<and> outputPartialLastByte
                 then [ucast (work'' AND outMask dst2Pow)] else [])))"
  by pat_completeness auto
termination
  by (relation "measures [\<lambda>(sp, dp, p, src, w, wb). length src,
                          \<lambda>(sp, dp, p, src, w, wb). nat wb]")
     (auto dest: cb2i_fill_measure)

declare cb2i_rec.simps [simp del]

definition changeBase2Inline :: "bytes \<Rightarrow> nat \<Rightarrow> nat \<Rightarrow> bool \<Rightarrow> bytes" where
  "changeBase2Inline src src2Pow dst2Pow outputPartialLastByte =
     cb2i_rec src2Pow dst2Pow outputPartialLastByte src 0 0"

text \<open>The buffer after the conversion: the values written over its first cells.\<close>

definition changeBase2Buf :: "bytes \<Rightarrow> nat \<Rightarrow> nat \<Rightarrow> nat \<Rightarrow> bool \<Rightarrow> bytes" where
  "changeBase2Buf buf srcLen src2Pow dst2Pow outputPartialLastByte =
     overlay 0 (changeBase2Inline (take srcLen buf) src2Pow dst2Pow outputPartialLastByte) buf"

subsection \<open>The alphabet\<close>

definition B642AsciiTable :: bytes where
  "B642AsciiTable = lit '',-0123456789''"

definition b64ToAscii1 :: "byte \<Rightarrow> byte" where
  "b64ToAscii1 b =
     (let ch = uint b
      in if ch > 11 then
           (if ch > 37 then word_of_int (ch + (97 - 38)) else word_of_int (ch + (65 - 12)))
         else B642AsciiTable ! nat ch)"

definition B64ToAscii :: "bytes \<Rightarrow> nat \<Rightarrow> bytes" where
  "B64ToAscii buf len = map b64ToAscii1 (take len buf) @ drop len buf"

definition Ascii2B64Table :: bytes where
  "Ascii2B64Table =
     lit ''                                            01  23456789:;       ''"

definition asciiToB64_1 :: "byte \<Rightarrow> byte" where
  "asciiToB64_1 ch =
     (if 65 \<le> ch then (if 97 \<le> ch then ch + (38 - 97) else ch + (12 - 65))
      else Ascii2B64Table ! unat ch - 48)"

definition AsciiToB64 :: "bytes \<Rightarrow> nat \<Rightarrow> bytes" where
  "AsciiToB64 src len = map asciiToB64_1 (take len src)"

subsection \<open>What a base conversion computes\<close>

text \<open>
  A list of base \<open>2 ^ k\<close> values is the number it denotes, low value first; the
  conversion writes the digits of that number in the other base.
\<close>

fun le_val :: "nat \<Rightarrow> bytes \<Rightarrow> nat" where
  "le_val k [] = 0"
| "le_val k (x # xs) = unat x + 2 ^ k * le_val k xs"

fun le_digits :: "nat \<Rightarrow> nat \<Rightarrow> nat \<Rightarrow> bytes" where
  "le_digits k 0 N = []"
| "le_digits k (Suc n) N = of_nat (N mod 2 ^ k) # le_digits k n (N div 2 ^ k)"

lemma length_le_digits [simp]: "length (le_digits k n N) = n"
  by (induction k n N rule: le_digits.induct) auto

lemma take_le_digits: "j \<le> n \<Longrightarrow> take j (le_digits k n N) = le_digits k j N"
proof (induction k n N arbitrary: j rule: le_digits.induct)
  case (2 k n N)
  then show ?case by (cases j) auto
qed simp

lemma le_digits_le_val:
  "k \<le> 8 \<Longrightarrow> \<forall>x\<in>set xs. unat x < 2 ^ k \<Longrightarrow> le_digits k (length xs) (le_val k xs) = xs"
  by (induction xs) auto

lemma le_val_le_digits:
  "k \<le> 8 \<Longrightarrow> le_val k (le_digits k n N) = N mod 2 ^ (k * n)"
proof (induction k n N rule: le_digits.induct)
  case (2 k n N)
  have "N mod 2 ^ k < 2 ^ k" by simp
  also have "(2 :: nat) ^ k \<le> 2 ^ 8" using 2(2) by (intro power_increasing) auto
  finally have "unat (of_nat (N mod 2 ^ k) :: byte) = N mod 2 ^ k"
    by (simp add: unat_of_nat)
  then have "le_val k (le_digits k (Suc n) N)
      = N mod 2 ^ k + 2 ^ k * (N div 2 ^ k mod 2 ^ (k * n))"
    using 2 by simp
  also have "\<dots> = N mod (2 ^ k * 2 ^ (k * n))"
    by (simp add: mod_mult2_eq)
  finally show ?case by (simp add: power_add)
qed simp

lemma le_val_bound: "\<forall>x\<in>set xs. unat x < 2 ^ k \<Longrightarrow> le_val k xs < 2 ^ (k * length xs)"
proof (induction xs)
  case (Cons x xs)
  then have "le_val k xs + 1 \<le> 2 ^ (k * length xs)" and "unat x < 2 ^ k" by auto
  then have "2 ^ k * (le_val k xs + 1) \<le> 2 ^ k * 2 ^ (k * length xs)"
    by (intro mult_le_mono) auto
  then show ?case using \<open>unat x < 2 ^ k\<close> by (simp add: power_add)
qed simp

lemma outMask_and: "p \<le> 8 \<Longrightarrow> ucast ((w :: u32) AND outMask p) = (of_nat (unat w mod 2 ^ p) :: byte)"
proof -
  assume p: "p \<le> 8"
  have m: "outMask p = mask p"
    by (simp add: outMask_def mask_eq_decr_exp)
  have "unat (w AND mask p) = unat w mod 2 ^ p"
    by (metis take_bit_eq_mask take_bit_eq_mod unsigned_take_bit_eq)
  then show ?thesis
    by (metis m of_nat_unat)
qed

lemma unat_drop_bit32: "unat (drop_bit p (w :: u32)) = unat w div 2 ^ p"
  by (subst unat_drop_bit_eq) (simp only: drop_bit_eq_div)

lemma drop_bit_bound:
  assumes "unat (w :: u32) < 2 ^ n" and "d \<le> n"
  shows "unat (drop_bit d w) < 2 ^ (n - d)"
proof -
  have "(2::nat) ^ n = 2 ^ (n - d) * 2 ^ d" using assms(2) by (simp flip: power_add)
  then show ?thesis
    using assms(1) by (simp only: unat_drop_bit32 less_mult_imp_div_less)
qed

text \<open>The bits already read and the values still to come, as one number.\<close>

definition pending :: "nat \<Rightarrow> bytes \<Rightarrow> u32 \<Rightarrow> nat \<Rightarrow> nat" where
  "pending sp src work wb = unat work + 2 ^ wb * le_val sp src"

lemma cb2i_fill_pending:
  assumes "unat work < 2 ^ wb" and "wb < dp + sp" and "sp \<le> 8" and "dp \<le> 8"
    and "\<forall>x\<in>set src. unat x < 2 ^ sp"
    and "cb2i_fill sp dp src work (int wb) = (src', work', wb')"
  shows "\<exists>n. wb' = int n \<and> unat work' < 2 ^ n \<and> n < dp + sp \<and>
           pending sp src' work' n = pending sp src work wb \<and>
           n + sp * length src' = wb + sp * length src \<and>
           set src' \<subseteq> set src \<and> (src' \<noteq> [] \<longrightarrow> dp \<le> n)"
  using assms
proof (induction sp dp src work "int wb" arbitrary: wb rule: cb2i_fill.induct)
  case (2 sp dp x src work)
  show ?case
  proof (cases "wb < dp")
    case True
    have or: "unat (work OR push_bit wb (ucast x)) = unat work + 2 ^ wb * unat x"
      using 2 True by (intro unat_or_push_bit) auto
    have "unat work + 2 ^ wb * unat x < 2 ^ (wb + sp)"
    proof -
      have "2 ^ wb * (unat x + 1) \<le> 2 ^ wb * 2 ^ sp"
        using 2 by (intro mult_le_mono) (auto simp: Suc_le_eq)
      then show ?thesis using 2 by (simp add: power_add)
    qed
    then show ?thesis
      using 2(1) [of "wb + sp"] 2 True or
      by (auto simp: pending_def power_add algebra_simps)
  next
    case False
    with 2 show ?thesis by auto
  qed
qed auto

lemma cb2i_rec_digits:
  assumes "unat work < 2 ^ wb" and "wb < dp + sp" and "sp \<le> 8" and "0 < dp" and "dp \<le> 8"
    and "\<forall>x\<in>set src. unat x < 2 ^ sp"
  shows "cb2i_rec sp dp part src work (int wb)
       = le_digits dp (length (cb2i_rec sp dp part src work (int wb))) (pending sp src work wb)"
  using assms
proof (induction sp dp part src work "int wb" arbitrary: wb rule: cb2i_rec.induct)
  case (1 sp dp part src work)
  obtain src' work' wb' where fill: "cb2i_fill sp dp src work (int wb) = (src', work', wb')"
    by (cases "cb2i_fill sp dp src work (int wb)") auto
  then obtain n where n: "wb' = int n" "unat work' < 2 ^ n" "n < dp + sp"
      "pending sp src' work' n = pending sp src work wb" "set src' \<subseteq> set src"
      "src' \<noteq> [] \<longrightarrow> dp \<le> n"
    using cb2i_fill_pending [OF 1(2,3,4,6,7) fill] by blast
  let ?N = "pending sp src work wb"
  show ?case
  proof (cases "src' = []")
    case True
    then have N: "?N = unat work'" using n by (simp add: pending_def)
    have "unat (drop_bit dp work') mod 2 ^ dp = ?N div 2 ^ dp mod 2 ^ dp"
      by (simp add: N unat_drop_bit32)
    then show ?thesis
      using True 1(6) N by (subst (1 2) cb2i_rec.simps) (simp add: fill Let_def outMask_and)
  next
    case False
    then have dn: "dp \<le> n" using n by simp
    have split: "(2::nat) ^ n = 2 ^ dp * 2 ^ (n - dp)" using dn by (simp flip: power_add)
    have N: "?N = unat work' + 2 ^ dp * (2 ^ (n - dp) * le_val sp src')"
      unfolding n(4) [symmetric] by (simp add: pending_def split mult.assoc)
    have m: "?N mod 2 ^ dp = unat work' mod 2 ^ dp"
      unfolding N by simp
    have d: "?N div 2 ^ dp = pending sp src' (drop_bit dp work') (n - dp)"
      unfolding N by (simp add: pending_def unat_drop_bit32)
    have "unat (drop_bit dp work') < 2 ^ (n - dp)"
      using n(2) dn by (rule drop_bit_bound)
    then have IH: "cb2i_rec sp dp part src' (drop_bit dp work') (int (n - dp))
        = le_digits dp (length (cb2i_rec sp dp part src' (drop_bit dp work') (int (n - dp))))
            (?N div 2 ^ dp)"
      unfolding d using fill 1 n False dn
      by (intro 1(1)) (auto simp: of_nat_diff)
    have eq: "cb2i_rec sp dp part src work (int wb)
        = of_nat (?N mod 2 ^ dp) # cb2i_rec sp dp part src' (drop_bit dp work') (int (n - dp))"
      using False 1(5,6) n dn
      by (subst cb2i_rec.simps) (simp add: fill Let_def outMask_and m of_nat_diff)
    show ?thesis unfolding eq using IH by simp
  qed
qed

subsection \<open>Sizes of the results\<close>

lemma length_cb2i_encode:
  assumes "unat work < 2 ^ wb" and "wb < 14" and "even wb" and "src \<noteq> []" and "p"
  shows "length (cb2i_rec 8 6 p src work (int wb)) = (wb + 8 * length src + 5) div 6"
  using assms
proof (induction "8::nat" "6::nat" p src work "int wb" arbitrary: wb rule: cb2i_rec.induct)
  case (1 p src work)
  obtain src' work' wb' where fill: "cb2i_fill 8 6 src work (int wb) = (src', work', wb')"
    by (cases "cb2i_fill 8 6 src work (int wb)") auto
  then obtain n where n: "wb' = int n" "unat work' < 2 ^ n" "n < 14"
      "n + 8 * length src' = wb + 8 * length src" "src' \<noteq> [] \<longrightarrow> 6 \<le> n"
    using cb2i_fill_pending [of work wb 6 8 src src' work' wb'] 1 by auto
  have ev: "even n" using n(4) 1(4) by presburger
  show ?case
  proof (cases "src' = []")
    case True
    then have N: "n = wb + 8 * length src" using n by simp
    moreover have "8 \<le> n" using N 1(5) by (cases src) auto
    moreover have "n \<noteq> 13" using ev by auto
    ultimately show ?thesis
      using True n(1,3) 1(6) by (subst cb2i_rec.simps) (auto simp: fill Let_def)
  next
    case False
    have "unat (drop_bit 6 work') < 2 ^ (n - 6)"
      using n False by (intro drop_bit_bound) auto
    then have "length (cb2i_rec 8 6 p src' (drop_bit 6 work') (int (n - 6)))
        = (n - 6 + 8 * length src' + 5) div 6"
      using fill False n ev 1(6) by (intro 1(1)) (auto simp: of_nat_diff)
    then show ?thesis
      using False n by (subst cb2i_rec.simps) (simp add: fill Let_def of_nat_diff)
  qed
qed

lemma length_cb2i_decode:
  assumes "unat work < 2 ^ wb" and "wb < 14" and "\<forall>x\<in>set src. unat x < 2 ^ 6" and "\<not> p"
  shows "(wb + 6 * length src) div 8 \<le> length (cb2i_rec 6 8 p src work (int wb)) \<and>
         (wb < 8 \<longrightarrow> src \<noteq> [] \<longrightarrow> length (cb2i_rec 6 8 p src work (int wb)) \<le> length src)"
  using assms
proof (induction "6::nat" "8::nat" p src work "int wb" arbitrary: wb rule: cb2i_rec.induct)
  case (1 p src work)
  obtain src' work' wb' where fill: "cb2i_fill 6 8 src work (int wb) = (src', work', wb')"
    by (cases "cb2i_fill 6 8 src work (int wb)") auto
  then obtain n where n: "wb' = int n" "unat work' < 2 ^ n" "n < 14" "set src' \<subseteq> set src"
      "n + 6 * length src' = wb + 6 * length src" "src' \<noteq> [] \<longrightarrow> 8 \<le> n"
    using cb2i_fill_pending [of work wb 8 6 src src' work' wb'] 1 by auto
  show ?case
  proof (cases "src' = []")
    case True
    then show ?thesis
      using n 1(5) by (subst (1 2) cb2i_rec.simps) (auto simp: fill Let_def neq_Nil_conv)
  next
    case False
    have "unat (drop_bit 8 work') < 2 ^ (n - 8)"
      using n False by (intro drop_bit_bound) auto
    then have IH: "(n - 8 + 6 * length src') div 8
          \<le> length (cb2i_rec 6 8 p src' (drop_bit 8 work') (int (n - 8))) \<and>
        (n - 8 < 8 \<longrightarrow> src' \<noteq> [] \<longrightarrow>
          length (cb2i_rec 6 8 p src' (drop_bit 8 work') (int (n - 8))) \<le> length src')"
      using fill False n 1(4,5) by (intro 1(1)) (auto simp: of_nat_diff)
    have "wb < 8 \<Longrightarrow> length src' < length src"
      using n(5,6) False by auto
    then show ?thesis
      using IH False n by (subst (1 2) cb2i_rec.simps) (auto simp: fill Let_def of_nat_diff)
  qed
qed

subsection \<open>The two conversions agree with the digits and with each other\<close>

lemma encode_is_digits:
  "src \<noteq> [] \<Longrightarrow> changeBase2Inline src 8 6 True
     = le_digits 6 ((length src * 8 + 5) div 6) (le_val 8 src)"
  using cb2i_rec_digits [of 0 0 6 8 src True] length_cb2i_encode [of 0 0 src True]
  by (simp add: changeBase2Inline_def pending_def mult.commute)

lemma decode_is_digits:
  assumes "\<forall>x\<in>set src. unat x < 2 ^ 6"
  shows "take (length src * 6 div 8) (changeBase2Inline src 6 8 False)
       = le_digits 8 (length src * 6 div 8) (le_val 6 src)"
proof -
  have "changeBase2Inline src 6 8 False
      = le_digits 8 (length (changeBase2Inline src 6 8 False)) (le_val 6 src)"
    using cb2i_rec_digits [of 0 0 8 6 src False] assms
    by (simp add: changeBase2Inline_def pending_def)
  moreover have "length src * 6 div 8 \<le> length (changeBase2Inline src 6 8 False)"
    using length_cb2i_decode [of 0 0 src False] assms
    by (simp add: changeBase2Inline_def mult.commute)
  ultimately show ?thesis by (metis take_le_digits)
qed

lemma length_encode: "src \<noteq> [] \<Longrightarrow> length (changeBase2Inline src 8 6 True) = (length src * 8 + 5) div 6"
  by (simp add: encode_is_digits)

lemma encode_values: "src \<noteq> [] \<Longrightarrow> \<forall>x\<in>set (changeBase2Inline src 8 6 True). unat x < 64"
proof -
  have "\<forall>x\<in>set (le_digits 6 n N). unat x < 64" for n N
  proof (induction "6::nat" n N rule: le_digits.induct)
    case (2 n N)
    have "unat (of_nat (N mod 64) :: byte) < 64" by (simp add: unat_of_nat)
    then show ?case using 2 by simp
  qed simp
  then show "src \<noteq> [] \<Longrightarrow> ?thesis" by (simp add: encode_is_digits)
qed

lemma base_roundtrip:
  assumes "src \<noteq> []"
  shows "take (length src) (changeBase2Inline (changeBase2Inline src 8 6 True) 6 8 False) = src"
proof -
  let ?e = "changeBase2Inline src 8 6 True"
  let ?n = "length src"
  have "le_val 8 src < 2 ^ (8 * ?n)"
    by (rule le_val_bound) (use unat_lt_256 in \<open>simp add: numeral_eq_Suc\<close>)
  also have "(2::nat) ^ (8 * ?n) \<le> 2 ^ (6 * ((?n * 8 + 5) div 6))"
    by (intro power_increasing) auto
  finally have val: "le_val 6 ?e = le_val 8 src"
    using assms by (simp add: encode_is_digits le_val_le_digits)
  have "take ?n (changeBase2Inline ?e 6 8 False) = le_digits 8 ?n (le_val 6 ?e)"
    using decode_is_digits [of ?e] encode_values [OF assms] length_encode [OF assms]
    by (simp add: b64_size_roundtrip)
  then show ?thesis
    using le_digits_le_val [of 8 src] unat_lt_256 by (simp add: val)
qed

lemma le_digits_append:
  "le_digits k (a + b) N = le_digits k a N @ le_digits k b (N div 2 ^ (k * a))"
  by (induction k a N rule: le_digits.induct) (auto simp: power_add div_mult2_eq)

lemma cb2_emit_digits:
  assumes "0 < dp" and "dp \<le> 8"
  shows "\<exists>w'. cb2_emit dp work wb out
               = (w', wb mod dp, out @ le_digits dp (wb div dp) (unat work)) \<and>
             unat w' = unat work div 2 ^ (dp * (wb div dp))"
  using assms
proof (induction dp work wb out rule: cb2_emit.induct)
  case (1 dp work wb out)
  show ?case
  proof (cases "dp \<le> wb")
    case True
    have "wb div dp = Suc ((wb - dp) div dp)" and "wb mod dp = (wb - dp) mod dp"
      using True 1(2) by (simp_all add: le_div_geq le_mod_geq)
    then show ?thesis
      using 1 True
      by (subst cb2_emit.simps)
         (auto simp: unat_drop_bit32 outMask_and power_add div_mult2_eq)
  next
    case False
    then show ?thesis using 1 by (subst cb2_emit.simps) auto
  qed
qed

lemma le_digits_mod: "le_digits k n (M + 2 ^ (k * n) * R) = le_digits k n M"
proof (induction n arbitrary: M)
  case (Suc n)
  have "(M + 2 ^ (k * Suc n) * R) div 2 ^ k = M div 2 ^ k + 2 ^ (k * n) * R"
    and "(M + 2 ^ (k * Suc n) * R) mod 2 ^ k = M mod 2 ^ k"
    by (simp_all add: power_add mult.assoc)
  then show ?case using Suc by (simp only: le_digits.simps)
qed simp

lemma split_div:
  "0 < (d :: nat) \<Longrightarrow> (w + s * length (x # xs)) div d
     = (w + s) div d + ((w + s) mod d + s * length xs) div d"
proof -
  assume "0 < d"
  have "w + s * length (x # xs) = (w + s) div d * d + ((w + s) mod d + s * length xs)"
    by simp
  then show ?thesis using \<open>0 < d\<close> by (metis div_mult_self3 not_less_zero)
qed

lemma split_mod:
  "0 < (d :: nat) \<Longrightarrow> (w + s * length (x # xs)) mod d = ((w + s) mod d + s * length xs) mod d"
proof -
  have "w + s * length (x # xs) = (w + s) div d * d + ((w + s) mod d + s * length xs)"
    by simp
  then show ?thesis by (metis mod_mult_self3)
qed

lemma cb2_loop_digits:
  assumes "0 < dp" and "dp \<le> 8" and "sp \<le> 8" and "wb < dp" and "unat work < 2 ^ wb"
    and "\<forall>x\<in>set src. unat x < 2 ^ sp"
  shows "\<exists>w'. cb2_loop sp dp src work wb out
               = (w', (wb + sp * length src) mod dp,
                  out @ le_digits dp ((wb + sp * length src) div dp) (pending sp src work wb)) \<and>
             unat w' = pending sp src work wb div 2 ^ (dp * ((wb + sp * length src) div dp))"
  using assms
proof (induction src arbitrary: work wb out)
  case Nil
  then show ?case by (simp add: pending_def)
next
  case (Cons x src)
  let ?w = "work OR push_bit wb (ucast x)" and ?b = "wb + sp"
  let ?q = "?b div dp" and ?r = "?b mod dp"
  have w: "unat ?w = unat work + 2 ^ wb * unat x"
    using Cons by (intro unat_or_push_bit) auto
  have wlt: "unat ?w < 2 ^ ?b"
  proof -
    have "2 ^ wb * (unat x + 1) \<le> 2 ^ wb * 2 ^ sp"
      using Cons by (intro mult_le_mono) (auto simp: Suc_le_eq)
    then show ?thesis using Cons w by (simp add: power_add)
  qed
  obtain w' where em: "cb2_emit dp ?w ?b out = (w', ?r, out @ le_digits dp ?q (unat ?w))"
      and w': "unat w' = unat ?w div 2 ^ (dp * ?q)"
    using cb2_emit_digits Cons by blast
  have exps: "?b = dp * ?q + ?r" by simp
  have pe: "(2::nat) ^ ?b = 2 ^ (dp * ?q) * 2 ^ ?r"
    by (metis exps power_add)
  have w'lt: "unat w' < 2 ^ ?r"
    unfolding w' using wlt by (intro less_mult_imp_div_less) (simp add: pe mult.commute)
  let ?N = "pending sp (x # src) work wb"
  have N: "?N = unat ?w + 2 ^ (dp * ?q) * (2 ^ ?r * le_val sp src)"
    by (simp add: pending_def w algebra_simps flip: power_add)
  have rest: "?N div 2 ^ (dp * ?q) = pending sp src w' ?r"
    unfolding N by (simp add: w' pending_def)
  have split: "(wb + sp * length (x # src)) div dp = ?q + (?r + sp * length src) div dp"
      and mods: "(wb + sp * length (x # src)) mod dp = (?r + sp * length src) mod dp"
    by (rule split_div [OF Cons(2)], rule split_mod [OF Cons(2)])
  have digs: "le_digits dp ?q (unat ?w) = le_digits dp ?q ?N"
    unfolding N by (simp only: le_digits_mod)
  obtain w2 where IH: "cb2_loop sp dp src w' ?r (out @ le_digits dp ?q (unat ?w))
        = (w2, (?r + sp * length src) mod dp, (out @ le_digits dp ?q (unat ?w)) @
             le_digits dp ((?r + sp * length src) div dp) (pending sp src w' ?r))"
      and w2: "unat w2 = pending sp src w' ?r div 2 ^ (dp * ((?r + sp * length src) div dp))"
    using Cons(1) [of ?r w' "out @ le_digits dp ?q (unat ?w)"] Cons w'lt by auto
  show ?case
    unfolding split mods cb2_loop.simps em prod.case
    using IH w2 by (simp add: digs le_digits_append rest power_add distrib_left div_mult2_eq)
qed

lemma changeBase2_is_inline:
  assumes "src \<noteq> []" and "(length src * 8 + 5) div 6 \<le> dstLen"
  shows "changeBase2 src 8 dstLen 6 = changeBase2Inline src 8 6 True"
proof -
  let ?q = "8 * length src div 6" and ?r = "8 * length src mod 6" and ?N = "le_val 8 src"
  obtain w' where loop: "cb2_loop 8 6 src 0 0 [] = (w', ?r, le_digits 6 ?q ?N)"
      and w': "unat w' = ?N div 2 ^ (6 * ?q)"
    using cb2_loop_digits [of 6 8 0 0 src "[]"] by (auto simp: pending_def)
  show ?thesis
  proof (cases "?r = 0")
    case True
    then have "(length src * 8 + 5) div 6 = ?q" by presburger
    then show ?thesis
      by (simp add: changeBase2_def loop True encode_is_digits [OF assms(1)])
  next
    case False
    then have q: "(length src * 8 + 5) div 6 = ?q + 1" by presburger
    then have "le_digits 6 ((length src * 8 + 5) div 6) ?N
        = le_digits 6 ?q ?N @ [of_nat (unat w' mod 2 ^ 6)]"
      by (simp only: le_digits_append w') simp
    moreover have "?q < dstLen" using q assms(2) by simp
    ultimately show ?thesis
      using False by (simp add: changeBase2_def loop encode_is_digits [OF assms(1)] outMask_and)
  qed
qed

subsection \<open>The alphabet\<close>

lemma alphabet_table:
  "\<forall>n\<in>set [0..<64]. asciiToB64_1 (b64ToAscii1 (of_nat n)) = of_nat n \<and>
      (let c = uint (b64ToAscii1 (of_nat n :: byte))
       in 44 \<le> c \<and> c \<le> 45 \<or> 48 \<le> c \<and> c \<le> 57 \<or> 65 \<le> c \<and> c \<le> 90 \<or> 97 \<le> c \<and> c \<le> 122)"
  by code_simp

lemma alphabet_inverse: "unat b < 64 \<Longrightarrow> asciiToB64_1 (b64ToAscii1 b) = b"
  using alphabet_table by (auto dest!: bspec [of _ _ "unat b"])

lemma alphabet_safe:
  "unat b < 64 \<Longrightarrow> b64ToAscii1 b \<noteq> 0 \<and> b64ToAscii1 b \<noteq> 46 \<and> b64ToAscii1 b \<noteq> 47"
  using alphabet_table by (auto dest!: bspec [of _ _ "unat b"] simp: Let_def)

lemma asciiToB64_B64ToAscii:
  "\<forall>x\<in>set vs. unat x < 64 \<Longrightarrow> AsciiToB64 (B64ToAscii vs (length vs)) (length vs) = vs"
  by (induction vs) (auto simp: AsciiToB64_def B64ToAscii_def alphabet_inverse)

lemma length_B64ToAscii [simp]: "length (B64ToAscii vs n) = length vs"
  by (simp add: B64ToAscii_def)

text \<open>
  C29: base-64 encoding a byte string (regrouping to 6-bit values and mapping them to
  the file-name alphabet) and decoding it gives the byte string back: the decoder's
  first \<open>B64ToB256Bytes\<close> cells are exactly the encoded bytes.
\<close>
theorem base64_roundtrip:
  assumes "src \<noteq> []"
  shows "let enc = B64ToAscii (changeBase2Inline src 8 6 True) ((length src * 8 + 5) div 6)
         in int (length enc) = B256ToB64Bytes (int (length src)) \<and>
            take (nat (B64ToB256Bytes (int (length enc))))
              (changeBase2Inline (AsciiToB64 enc (length enc)) 6 8 False) = src"
proof -
  let ?e = "changeBase2Inline src 8 6 True"
  have dec: "AsciiToB64 (B64ToAscii ?e (length ?e)) (length ?e) = ?e"
    using encode_values [OF assms] by (rule asciiToB64_B64ToAscii)
  have size: "length ?e * 6 div 8 = length src"
    by (simp only: length_encode [OF assms] b64_size_roundtrip)
  have "int (length ?e) = B256ToB64Bytes (int (length src))"
    by (simp only: length_encode [OF assms] B256ToB64Bytes_int)
  then show ?thesis
    unfolding Let_def length_encode [OF assms, symmetric] length_B64ToAscii dec
      B64ToB256Bytes_int nat_int size
    using base_roundtrip [OF assms] by simp
qed

theorem base64_roundtrip_witness:
  "let enc = B64ToAscii (changeBase2Inline [255, 0, 7] 8 6 True) ((length [255, 0, 7 :: byte] * 8 + 5) div 6)
   in int (length enc) = B256ToB64Bytes (int (length [255, 0, 7 :: byte])) \<and>
      take (nat (B64ToB256Bytes (int (length enc))))
        (changeBase2Inline (AsciiToB64 enc (length enc)) 6 8 False) = [255, 0, 7]"
  by (rule base64_roundtrip) simp

text \<open>
  an encoded name consists of file-name-safe characters only: no NUL, no dot and no
  slash, so it is never a special directory name and never splits a path.
\<close>
theorem base64_alphabet_safe:
  assumes "src \<noteq> []"
  shows "\<forall>c\<in>set (B64ToAscii (changeBase2Inline src 8 6 True) ((length src * 8 + 5) div 6)).
           c \<notin> set (lit [CHR 0x00, CHR ''.'', CHR ''/''])"
  using encode_values [OF assms] length_encode [OF assms] alphabet_safe
  by (auto simp: B64ToAscii_def lit_def)

theorem base64_alphabet_safe_witness:
  "hd (B64ToAscii (changeBase2Inline [1, 2] 8 6 True) ((length [1, 2 :: byte] * 8 + 5) div 6))
     \<notin> set (lit [CHR 0x00, CHR ''.'', CHR ''/''])"
proof -
  have "length (changeBase2Inline [1, 2] 8 6 True) = 3" by (simp add: length_encode)
  then have "B64ToAscii (changeBase2Inline [1, 2] 8 6 True) ((length [1, 2 :: byte] * 8 + 5) div 6) \<noteq> []"
    by (auto simp: B64ToAscii_def)
  then show ?thesis
    using base64_alphabet_safe [of "[1, 2]"] hd_in_set by blast
qed

text \<open>
  the in-place conversion computes the same values as the two-buffer conversion
  when the second buffer has room, so a key printed with one can be read like a name
  written with the other.
\<close>
theorem inline_equals_two_buffer:
  assumes "src \<noteq> []" and "B256ToB64Bytes (int (length src)) \<le> int dstLen"
  shows "changeBase2 src 8 dstLen 6 = changeBase2Inline src 8 6 True"
  using assms by (intro changeBase2_is_inline) auto

theorem inline_equals_two_buffer_witness:
  "changeBase2 [200, 100] 8 3 6 = changeBase2Inline [200, 100] 8 6 True"
  by (rule inline_equals_two_buffer) (simp_all add: B256ToB64Bytes_def cdiv_def)

end
