(* ===== verification/ConfigVar.thy ===== *)
theory ConfigVar
  imports Prelude
begin

text \<open>
  The serialisation buffer of \<open>encfs/ConfigVar.cpp\<close>: a byte string with a read/write
  offset, BER-style variable length integers and length-prefixed strings.  Everything
  written is read back, negative integers excepted: they are written, and reading them
  fails.
\<close>

subsection \<open>The buffer\<close>

record config_var =
  cv_buffer :: bytes
  cv_offset :: int

definition ConfigVar_new :: config_var where
  "ConfigVar_new = \<lparr>cv_buffer = [], cv_offset = 0\<rparr>"

definition ConfigVar_of :: "bytes \<Rightarrow> config_var" where
  "ConfigVar_of buf = \<lparr>cv_buffer = buf, cv_offset = 0\<rparr>"

definition resetOffset :: "config_var \<Rightarrow> config_var" where
  "resetOffset v = v\<lparr>cv_offset := 0\<rparr>"

definition cv_size :: "config_var \<Rightarrow> int" where
  "cv_size v = int (length (cv_buffer v))"

text \<open>\<open>read\<close> copies at most \<open>n\<close> bytes; the number copied is the length of the result
  (a negative count copies nothing but still moves the offset).\<close>

definition cv_read :: "int \<Rightarrow> config_var \<Rightarrow> (bytes \<times> int) \<times> config_var" where
  "cv_read n v =
     (let toCopy = min n (cv_size v - cv_offset v);
          out = (if toCopy > 0 then take (nat toCopy) (drop (nat (cv_offset v)) (cv_buffer v)) else [])
      in ((out, toCopy), v\<lparr>cv_offset := cv_offset v + toCopy\<rparr>))"

text \<open>\<open>write\<close> appends at the end and inserts elsewhere; \<open>std::string::insert\<close>
  refuses a position past the end.\<close>

definition cv_write :: "bytes \<Rightarrow> config_var \<Rightarrow> config_var res" where
  "cv_write data v =
     (if cv_size v = cv_offset v
      then Inr (v\<lparr>cv_buffer := cv_buffer v @ data, cv_offset := cv_offset v + int (length data)\<rparr>)
      else if 0 \<le> cv_offset v \<and> cv_offset v \<le> cv_size v
      then Inr (v\<lparr>cv_buffer := take (nat (cv_offset v)) (cv_buffer v) @ data
                                @ drop (nat (cv_offset v)) (cv_buffer v),
                   cv_offset := cv_offset v + int (length data)\<rparr>)
      else Inl OutOfRange)"

subsection \<open>Integers\<close>

definition intDigits :: "u32 \<Rightarrow> bytes" where
  "intDigits val =
     [0x80 OR ucast (drop_bit 28 (val AND 0xf0000000)),
      0x80 OR ucast (drop_bit 21 (val AND 0x0fe00000)),
      0x80 OR ucast (drop_bit 14 (val AND 0x001fc000)),
      0x80 OR ucast (drop_bit 7 (val AND 0x00003f80)),
      ucast (val AND 0x0000007f)]"

definition encodeInt :: "u32 \<Rightarrow> bytes" where
  "encodeInt val = dropWhile (\<lambda>d. d = 0x80) (intDigits val)"

definition writeInt :: "u32 \<Rightarrow> config_var \<Rightarrow> config_var res" where
  "writeInt val v = cv_write (encodeInt val) v"

definition writeString :: "bytes \<Rightarrow> config_var \<Rightarrow> config_var res" where
  "writeString data v = rbind (writeInt (of_nat (length data)) v) (cv_write data)"

text \<open>The loop of \<open>readInt\<close> over the bytes from the offset on: the value and the
  number of bytes consumed.  The buffer is known to hold a byte.\<close>

fun readIntLoop :: "bytes \<Rightarrow> u32 \<Rightarrow> nat \<Rightarrow> u32 \<times> nat" where
  "readIntLoop [] val n = (val, n)"
| "readIntLoop (tmp # rest) val n =
     (let val' = push_bit 7 val OR ucast (tmp AND 0x7f)
      in if tmp AND 0x80 \<noteq> 0 \<and> rest \<noteq> []
         then readIntLoop rest val' (Suc n) else (val', Suc n))"

definition readInt :: "config_var \<Rightarrow> u32 res \<times> config_var" where
  "readInt v =
     (if \<not> cv_offset v < cv_size v then (Inl AssertFailed, v)
      else (case readIntLoop (drop (nat (cv_offset v)) (cv_buffer v)) 0 0 of
              (val, n) \<Rightarrow>
                let v' = v\<lparr>cv_offset := cv_offset v + int n\<rparr>
                in if 0 \<le> sint val then (Inr val, v') else (Inl AssertFailed, v')))"

definition readIntDefault :: "u32 \<Rightarrow> config_var \<Rightarrow> u32 res \<times> config_var" where
  "readIntDefault d v = (if cv_offset v \<ge> cv_size v then (Inr d, v) else readInt v)"

definition readBool :: "bool \<Rightarrow> config_var \<Rightarrow> bool res \<times> config_var" where
  "readBool d v =
     (case readIntDefault (if d then 1 else 0) v of
        (r, v') \<Rightarrow> (rbind r (\<lambda>tmp. Inr (tmp \<noteq> 0)), v'))"

subsection \<open>Stream operators\<close>

definition putBool :: "bool \<Rightarrow> config_var \<Rightarrow> config_var res" where
  "putBool b v = writeInt (if b then 1 else 0) v"

definition putInt :: "int \<Rightarrow> config_var \<Rightarrow> config_var res" where
  "putInt i v = writeInt (word_of_int i) v"

definition putString :: "bytes \<Rightarrow> config_var \<Rightarrow> config_var res" where
  "putString str v = writeString str v"

definition getBool :: "config_var \<Rightarrow> bool res \<times> config_var" where
  "getBool v = (case readInt v of (r, v') \<Rightarrow> (rbind r (\<lambda>tmp. Inr (tmp \<noteq> 0)), v'))"

definition getInt :: "config_var \<Rightarrow> int res \<times> config_var" where
  "getInt v = (case readInt v of (r, v') \<Rightarrow> (rbind r (\<lambda>x. Inr (sint x)), v'))"

definition getString :: "config_var \<Rightarrow> bytes res \<times> config_var" where
  "getString v =
     (case readInt v of
        (Inl e, v') \<Rightarrow> (Inl e, v')
      | (Inr len, v') \<Rightarrow>
          (case cv_read (sint len) v' of
             ((out, readLen), v'') \<Rightarrow>
               if readLen = sint len then (Inr out, v'') else (Inl AssertFailed, v'')))"

subsection \<open>Integers are read back\<close>

definition septet :: "u32 \<Rightarrow> byte" where
  "septet w = ucast (take_bit 7 w)"

fun berDigits :: "nat \<Rightarrow> u32 \<Rightarrow> bytes" where
  "berDigits 0 val = [septet val]"
| "berDigits (Suc k) val = (0x80 OR septet (drop_bit (7 * Suc k) val)) # berDigits k val"

lemma join_septet: "push_bit 7 (drop_bit 7 w) OR take_bit 7 w = (w :: u32)"
  by (rule bit_word_eqI) (auto simp: bit_simps)

lemma septet_low: "ucast (septet w AND 0x7f) = take_bit 7 w"
proof -
  have m: "(0x7f :: byte) = mask 7" by (simp add: mask_eq_decr_exp)
  show ?thesis unfolding septet_def m
    by (rule bit_word_eqI) (auto simp: bit_simps)
qed

lemma bit_0x80: "bit (0x80 :: int) n \<longleftrightarrow> n = 7"
proof -
  have "(0x80 :: int) = 2 ^ 7" by simp
  then show ?thesis by (simp only: bit_exp_iff) auto
qed

lemma septet_flag: "septet w AND 0x80 = 0"
  unfolding septet_def by (rule bit_word_eqI) (auto simp: bit_simps bit_0x80)

lemma flagged_low: "(0x80 OR b) AND 0x7f = (b AND 0x7f :: byte)"
proof -
  have m: "(0x7f :: byte) = mask 7"
    by (simp add: mask_eq_decr_exp)
  show ?thesis unfolding m by (rule bit_word_eqI) (auto simp: bit_simps bit_0x80)
qed

lemma flagged_flag: "(0x80 OR b) AND (0x80 :: byte) \<noteq> 0"
proof -
  have "(0x80 OR b) AND (0x80 :: byte) = 0x80"
    by (rule bit_word_eqI) (auto simp: bit_simps bit_0x80)
  then show ?thesis by simp
qed

lemma flagged_is_0x80: "(0x80 OR septet w = 0x80) \<longleftrightarrow> take_bit 7 w = 0"
proof
  assume "0x80 OR septet w = 0x80"
  then have "(0x80 OR septet w) AND 0x7f = 0" by simp
  then have "septet w AND 0x7f = 0" by (simp only: flagged_low)
  then have "ucast (septet w AND 0x7f) = (0 :: u32)" by simp
  then show "take_bit 7 w = 0" by (simp only: septet_low)
qed (simp add: septet_def)

lemma septet_not_0x80: "septet w \<noteq> 0x80"
proof
  assume "septet w = 0x80"
  with septet_flag [of w] show False by simp
qed

lemma berDigits_ne [simp]: "berDigits k val \<noteq> []"
  by (cases k) auto

lemma length_berDigits [simp]: "length (berDigits k val) = Suc k"
  by (induction k) auto

lemma intDigits_ber: "intDigits val = berDigits 4 val"
proof -
  have m: "(0x7f :: u32) = mask 7" "(0x3f80 :: u32) = push_bit 7 (mask 7)"
    "(0x001fc000 :: u32) = push_bit 14 (mask 7)" "(0x0fe00000 :: u32) = push_bit 21 (mask 7)"
    "(0xf0000000 :: u32) = push_bit 28 (mask 4)"
    by (simp_all add: mask_eq_decr_exp)
  have "drop_bit 28 (val AND push_bit 28 (mask 4)) = take_bit 7 (drop_bit 28 val)"
    "drop_bit 21 (val AND push_bit 21 (mask 7)) = take_bit 7 (drop_bit 21 val)"
    "drop_bit 14 (val AND push_bit 14 (mask 7)) = take_bit 7 (drop_bit 14 val)"
    "drop_bit 7 (val AND push_bit 7 (mask 7)) = take_bit 7 (drop_bit 7 val)"
    "val AND mask 7 = take_bit 7 val"
    by (rule bit_word_eqI, auto simp: bit_simps dest: bit_imp_le_length)+
  then show ?thesis
    unfolding intDigits_def m by (simp add: numeral_eq_Suc septet_def)
qed

lemma readIntLoop_ber:
  "readIntLoop (berDigits k val @ rest) (drop_bit (7 * Suc k) val) n = (val, n + Suc k)"
proof (induction k arbitrary: n)
  case 0
  show ?case by (simp add: Let_def septet_low septet_flag join_septet del: drop_bit_word_numeral)
next
  case (Suc k)
  have "push_bit 7 (drop_bit (7 * Suc (Suc k)) val) OR take_bit 7 (drop_bit (7 * Suc k) val)
      = drop_bit (7 * Suc k) val"
    using join_septet [of "drop_bit (7 * Suc k) val"] by (simp add: drop_bit_drop_bit)
  then show ?case
    using Suc by (simp add: Let_def flagged_low flagged_flag septet_low)
qed

lemma dropWhile_ber:
  "drop_bit (7 * Suc k) val = 0 \<Longrightarrow>
     \<exists>j \<le> k. dropWhile (\<lambda>d. d = 0x80) (berDigits k val) = berDigits j val \<and>
            drop_bit (7 * Suc j) val = 0"
proof (induction k)
  case 0
  then show ?case by (auto simp: septet_not_0x80)
next
  case (Suc k)
  show ?case
  proof (cases "take_bit 7 (drop_bit (7 * Suc k) val) = 0")
    case True
    have "drop_bit (7 * Suc k) val = 0"
      using join_septet [of "drop_bit (7 * Suc k) val"] Suc(2) True
      by (simp add: drop_bit_drop_bit)
    then obtain j where "j \<le> k" "dropWhile (\<lambda>d. d = 0x80) (berDigits k val) = berDigits j val"
        "drop_bit (7 * Suc j) val = 0"
      using Suc(1) by blast
    then show ?thesis using True by (auto simp: flagged_is_0x80 intro!: exI [of _ j])
  next
    case False
    then show ?thesis using Suc(2) by (intro exI [of _ "Suc k"]) (simp add: flagged_is_0x80)
  qed
qed

lemma encodeInt_ber: "\<exists>j \<le> 4. encodeInt val = berDigits j val \<and> drop_bit (7 * Suc j) val = 0"
proof -
  have "drop_bit (7 * Suc 4) val = 0"
    by (rule bit_word_eqI) (auto simp: bit_simps dest: bit_imp_le_length)
  then show ?thesis
    using dropWhile_ber [of 4 val] by (simp add: encodeInt_def intDigits_ber)
qed

lemma length_encodeInt: "0 < length (encodeInt val)" "length (encodeInt val) \<le> 5"
  using encodeInt_ber [of val] by (auto simp: eq_commute [of "[]"])

lemma readIntLoop_encodeInt:
  "readIntLoop (encodeInt val @ rest) 0 0 = (val, length (encodeInt val))"
proof -
  obtain j where "encodeInt val = berDigits j val" and "drop_bit (7 * Suc j) val = 0"
    using encodeInt_ber by blast
  then show ?thesis using readIntLoop_ber [of j val rest 0] by simp
qed

subsection \<open>Reading and writing at a position\<close>

text \<open>The buffer \<open>pre @ rest\<close> with the offset after \<open>pre\<close>.\<close>

definition cv_at :: "bytes \<Rightarrow> bytes \<Rightarrow> config_var" where
  "cv_at pre rest = \<lparr>cv_buffer = pre @ rest, cv_offset = int (length pre)\<rparr>"

named_theorems cv_simps

lemma ConfigVar_new_at [cv_simps]: "ConfigVar_new = cv_at [] []"
  by (simp add: ConfigVar_new_def cv_at_def)

lemma ConfigVar_of_at [cv_simps]: "ConfigVar_of buf = cv_at [] buf"
  by (simp add: ConfigVar_of_def cv_at_def)

lemma resetOffset_at [cv_simps]: "resetOffset (cv_at pre rest) = cv_at [] (pre @ rest)"
  by (simp add: resetOffset_def cv_at_def)

lemma cv_buffer_at [cv_simps]: "cv_buffer (cv_at pre rest) = pre @ rest"
  by (simp add: cv_at_def)

lemma cv_write_at [cv_simps]: "cv_write data (cv_at pre rest) = Inr (cv_at (pre @ data) rest)"
  by (cases rest) (auto simp: cv_write_def cv_at_def cv_size_def)

lemma writeInt_at [cv_simps]: "writeInt val (cv_at pre rest) = Inr (cv_at (pre @ encodeInt val) rest)"
  by (simp add: writeInt_def cv_write_at)

lemma writeString_at [cv_simps]:
  "writeString str (cv_at pre rest)
     = Inr (cv_at (pre @ encodeInt (of_nat (length str)) @ str) rest)"
  by (simp add: writeString_def cv_simps)

lemma cv_read_at:
  "length d = n \<Longrightarrow> cv_read (int n) (cv_at pre (d @ rest)) = ((d, int n), cv_at (pre @ d) rest)"
  by (auto simp: cv_read_def cv_at_def cv_size_def Let_def)

lemma readInt_at:
  "readInt (cv_at pre (encodeInt val @ rest))
     = (if 0 \<le> sint val then Inr val else Inl AssertFailed, cv_at (pre @ encodeInt val) rest)"
  using length_encodeInt(1) [of val]
  by (auto simp: readInt_def cv_at_def cv_size_def readIntLoop_encodeInt Let_def
      simp flip: of_nat_add)

lemma readInt_at_end: "readInt (cv_at pre []) = (Inl AssertFailed, cv_at pre [])"
  by (simp add: readInt_def cv_at_def cv_size_def)

lemma sint_of_int32:
  "- (2 ^ 31) \<le> i \<Longrightarrow> i < 2 ^ 31 \<Longrightarrow> sint (word_of_int i :: u32) = i"
  by (simp add: sint_sbintrunc' signed_take_bit_int_eq_self)

lemma sint_of_int_small: "0 \<le> i \<Longrightarrow> i < 2 ^ 31 \<Longrightarrow> sint (word_of_int i :: u32) = i"
  by (rule sint_of_int32) auto

lemma getInt_at:
  "0 \<le> i \<Longrightarrow> i < 2 ^ 31 \<Longrightarrow>
     getInt (cv_at pre (encodeInt (word_of_int i) @ rest))
       = (Inr i, cv_at (pre @ encodeInt (word_of_int i)) rest)"
  by (simp add: getInt_def readInt_at sint_of_int_small)

lemma getBool_at:
  "getBool (cv_at pre (encodeInt (if b then 1 else 0) @ rest))
     = (Inr b, cv_at (pre @ encodeInt (if b then 1 else 0)) rest)"
  by (simp add: getBool_def readInt_at)

lemma getString_at:
  assumes "length str < 2 ^ 31"
  shows "getString (cv_at pre (encodeInt (of_nat (length str)) @ str @ rest))
       = (Inr str, cv_at (pre @ encodeInt (of_nat (length str)) @ str) rest)"
proof -
  have "sint (of_nat (length str) :: u32) = int (length str)"
    using sint_of_int_small [of "int (length str)"] assms by simp
  then show ?thesis
    by (simp add: getString_def readInt_at cv_read_at)
qed

subsection \<open>Sequences of values\<close>

datatype cv_item = ItemInt int | ItemBool bool | ItemString bytes

fun putItem :: "cv_item \<Rightarrow> config_var \<Rightarrow> config_var res" where
  "putItem (ItemInt i) v = putInt i v"
| "putItem (ItemBool b) v = putBool b v"
| "putItem (ItemString x) v = putString x v"

fun putItems :: "cv_item list \<Rightarrow> config_var \<Rightarrow> config_var res" where
  "putItems [] v = Inr v"
| "putItems (x # xs) v = rbind (putItem x v) (putItems xs)"

text \<open>Reading with the extraction operator of each value's type.\<close>

fun getItemLike :: "cv_item \<Rightarrow> config_var \<Rightarrow> cv_item res \<times> config_var" where
  "getItemLike (ItemInt _) v = (case getInt v of (r, v') \<Rightarrow> (rbind r (\<lambda>x. Inr (ItemInt x)), v'))"
| "getItemLike (ItemBool _) v = (case getBool v of (r, v') \<Rightarrow> (rbind r (\<lambda>x. Inr (ItemBool x)), v'))"
| "getItemLike (ItemString _) v =
     (case getString v of (r, v') \<Rightarrow> (rbind r (\<lambda>x. Inr (ItemString x)), v'))"

fun getItemsLike :: "cv_item list \<Rightarrow> config_var \<Rightarrow> cv_item list res \<times> config_var" where
  "getItemsLike [] v = (Inr [], v)"
| "getItemsLike (x # xs) v =
     (case getItemLike x v of
        (Inl e, v') \<Rightarrow> (Inl e, v')
      | (Inr y, v') \<Rightarrow>
          (case getItemsLike xs v' of (r, v'') \<Rightarrow> (rbind r (\<lambda>ys. Inr (y # ys)), v'')))"

fun itemOk :: "cv_item \<Rightarrow> bool" where
  "itemOk (ItemInt i) = (0 \<le> i \<and> i < 2 ^ 31)"
| "itemOk (ItemBool b) = True"
| "itemOk (ItemString x) = (length x < 2 ^ 31)"

fun encodeItem :: "cv_item \<Rightarrow> bytes" where
  "encodeItem (ItemInt i) = encodeInt (word_of_int i)"
| "encodeItem (ItemBool b) = encodeInt (if b then 1 else 0)"
| "encodeItem (ItemString x) = encodeInt (of_nat (length x)) @ x"

lemma putItem_at [cv_simps]: "putItem x (cv_at pre rest) = Inr (cv_at (pre @ encodeItem x) rest)"
  by (cases x) (simp_all add: putInt_def putBool_def putString_def cv_simps)

lemma putItems_at [cv_simps]:
  "putItems xs (cv_at pre rest) = Inr (cv_at (pre @ concat (map encodeItem xs)) rest)"
  by (induction xs arbitrary: pre) (simp_all add: cv_simps)

lemma getItemLike_at:
  "itemOk x \<Longrightarrow> getItemLike x (cv_at pre (encodeItem x @ rest))
     = (Inr x, cv_at (pre @ encodeItem x) rest)"
  by (cases x) (simp_all add: getInt_at getBool_at getString_at del: if_split)

lemma getItemsLike_at:
  "\<forall>x\<in>set xs. itemOk x \<Longrightarrow> getItemsLike xs (cv_at pre (concat (map encodeItem xs) @ rest))
     = (Inr xs, cv_at (pre @ concat (map encodeItem xs)) rest)"
  by (induction xs arbitrary: pre) (simp_all add: getItemLike_at)

text \<open>
  any sequence of integers, booleans and strings written to a buffer is read back
  unchanged after the offset is reset, by the extraction operators of the same types;
  the reader ends exactly at the end of the buffer.
\<close>
theorem configvar_roundtrip:
  assumes "\<forall>x\<in>set xs. itemOk x"
  shows "\<exists>v. putItems xs ConfigVar_new = Inr v \<and>
             getItemsLike xs (resetOffset v) = (Inr xs, v) \<and> cv_offset v = cv_size v"
  using getItemsLike_at [OF assms, of "[]" "[]"]
  by (simp add: cv_simps) (simp add: cv_at_def cv_size_def)

theorem configvar_roundtrip_witness:
  "\<exists>v. putItems [ItemInt 20040813, ItemBool True, ItemString (lit ''key'')] ConfigVar_new = Inr v \<and>
       getItemsLike [ItemInt 20040813, ItemBool True, ItemString (lit ''key'')] (resetOffset v)
         = (Inr [ItemInt 20040813, ItemBool True, ItemString (lit ''key'')], v) \<and>
       cv_offset v = cv_size v"
  by (rule configvar_roundtrip) (simp add: lit_def)

text \<open>
  a negative integer is written without an error (in five bytes) and can never be read
  back: the reader's assertion on the sign throws, with the offset already moved.
\<close>
theorem negative_int_unreadable:
  assumes "i < 0" and "- (2 ^ 31) \<le> i"
  shows "\<exists>v. putInt i ConfigVar_new = Inr v \<and> cv_size v = 5 \<and>
             readInt (resetOffset v) = (Inl AssertFailed, v)"
proof -
  let ?w = "word_of_int i :: u32"
  have s: "sint ?w = i"
    using assms by (intro sint_of_int32) auto
  obtain j where j: "j \<le> 4" "encodeInt ?w = berDigits j ?w" "drop_bit (7 * Suc j) ?w = 0"
    using encodeInt_ber by blast
  have "bit ?w 31" using bit_last_iff [of ?w] s assms(1) by simp
  have "\<not> 7 * Suc j \<le> 31"
  proof
    assume "7 * Suc j \<le> 31"
    then have "bit (drop_bit (7 * Suc j) ?w) (31 - 7 * Suc j)"
      using \<open>bit ?w 31\<close> by (simp only: bit_drop_bit_eq comp_def le_add_diff_inverse)
    with j(3) show False by (simp only: bit_0_eq bot_apply bot_bool_def)
  qed
  then have "length (encodeInt ?w) = 5" using j by simp
  then show ?thesis
    using readInt_at [of "[]" ?w "[]"] s assms(1)
    by (simp add: putInt_def cv_simps) (simp add: cv_at_def cv_size_def)
qed

theorem negative_int_unreadable_witness:
  "\<exists>v. putInt (-1) ConfigVar_new = Inr v \<and> cv_size v = 5 \<and>
       readInt (resetOffset v) = (Inl AssertFailed, v)"
  by (rule negative_int_unreadable) simp_all

end
