(* ===== verification/ConfigReader.thy ===== *)
theory ConfigReader
  imports ConfigVar "HOL-Library.List_Lexorder"
begin

text \<open>
  The named variables of \<open>encfs/ConfigReader.cpp\<close>: a \<open>std::map\<close> from keys to
  buffers, its on-disk form and its parser.  The map is a list of pairs in the
  ascending (byte-wise lexicographic) key order in which \<open>std::map\<close> iterates.
\<close>

subsection \<open>The map\<close>

type_synonym cfg_vars = "(bytes \<times> config_var) list"

text \<open>\<open>vars.insert\<close>: an existing key keeps its value.\<close>

fun vars_insert :: "bytes \<Rightarrow> config_var \<Rightarrow> cfg_vars \<Rightarrow> cfg_vars" where
  "vars_insert k v [] = [(k, v)]"
| "vars_insert k v ((k', v') # xs) =
     (if k < k' then (k, v) # (k', v') # xs
      else if k = k' then (k', v') # xs
      else (k', v') # vars_insert k v xs)"

text \<open>Assignment through the reference that \<open>operator []\<close> returns.\<close>

fun vars_put :: "bytes \<Rightarrow> config_var \<Rightarrow> cfg_vars \<Rightarrow> cfg_vars" where
  "vars_put k v [] = [(k, v)]"
| "vars_put k v ((k', v') # xs) =
     (if k < k' then (k, v) # (k', v') # xs
      else if k = k' then (k, v) # xs
      else (k', v') # vars_put k v xs)"

text \<open>\<open>operator [] const\<close>: a missing key reads as an empty variable.\<close>

definition vars_get :: "bytes \<Rightarrow> cfg_vars \<Rightarrow> config_var" where
  "vars_get k xs = (case map_of xs k of None \<Rightarrow> ConfigVar_new | Some v \<Rightarrow> v)"

text \<open>\<open>operator []\<close> of a mutable reader inserts an empty variable for a missing key.\<close>

definition vars_index :: "bytes \<Rightarrow> cfg_vars \<Rightarrow> config_var \<times> cfg_vars" where
  "vars_index k xs = (vars_get k xs, vars_insert k ConfigVar_new xs)"

definition vars_ok :: "cfg_vars \<Rightarrow> bool" where
  "vars_ok xs \<longleftrightarrow> sorted_wrt (<) (map fst xs)"

subsection \<open>Writing\<close>

fun toVar_loop :: "cfg_vars \<Rightarrow> config_var \<Rightarrow> config_var res" where
  "toVar_loop [] out = Inr out"
| "toVar_loop ((k, v) # it) out =
     rbind (writeInt (of_nat (length k)) out) (\<lambda>out.
     rbind (cv_write k out) (\<lambda>out.
     rbind (writeInt (word_of_int (cv_size v)) out) (\<lambda>out.
     rbind (cv_write (cv_buffer v) out) (\<lambda>out.
     toVar_loop it out))))"

definition toVar :: "cfg_vars \<Rightarrow> config_var res" where
  "toVar vars = rbind (writeInt (of_nat (length vars)) ConfigVar_new) (toVar_loop vars)"

subsection \<open>Parsing\<close>

text \<open>
  \<open>numEntries\<close> rounds of the loop.  The variables read before an error stay in the
  reader; \<open>Inr False\<close> is the early return on an empty key.
\<close>

fun load_loop :: "nat \<Rightarrow> config_var \<Rightarrow> cfg_vars \<Rightarrow> bool res \<times> cfg_vars" where
  "load_loop 0 v vars = (Inr True, vars)"
| "load_loop (Suc n) v vars =
     (case getString v of
        (Inl e, _) \<Rightarrow> (Inl e, vars)
      | (Inr key, v) \<Rightarrow>
          (case getString v of
             (Inl e, _) \<Rightarrow> (Inl e, vars)
           | (Inr val, v) \<Rightarrow>
               if length key = 0 then (Inr False, vars)
               else load_loop n v (vars_insert key (ConfigVar_of val) vars)))"

definition loadFromVar :: "config_var \<Rightarrow> cfg_vars \<Rightarrow> bool res \<times> cfg_vars" where
  "loadFromVar v vars =
     (case readInt (resetOffset v) of
        (Inl e, _) \<Rightarrow> (Inl e, vars)
      | (Inr numEntries, v) \<Rightarrow> load_loop (unat numEntries) v vars)"

text \<open>
  \<open>load\<close> and \<open>save\<close> around them.  \<open>contents\<close> is what \<open>lstat\<close>, \<open>open\<close> and
  \<open>read\<close> deliver of the file, \<open>None\<close> when one of them fails or the read is short;
  \<open>save\<close> returns the bytes handed to \<open>write\<close>.
\<close>

definition cfg_load :: "bytes option \<Rightarrow> cfg_vars \<Rightarrow> bool res \<times> cfg_vars" where
  "cfg_load contents vars =
     (case contents of
        None \<Rightarrow> (Inr False, vars)
      | Some buf \<Rightarrow>
          (case cv_write buf ConfigVar_new of
             Inl e \<Rightarrow> (Inl e, vars)
           | Inr v \<Rightarrow> loadFromVar v vars))"

definition cfg_save :: "cfg_vars \<Rightarrow> bytes res" where
  "cfg_save vars = rbind (toVar vars) (\<lambda>out. Inr (cv_buffer out))"

subsection \<open>Facts about the map\<close>

lemma vars_insert_keys: "fst ` set (vars_insert k v xs) = insert k (fst ` set xs)"
  by (induction k v xs rule: vars_insert.induct) auto

lemma vars_put_keys: "fst ` set (vars_put k v xs) = insert k (fst ` set xs)"
  by (induction k v xs rule: vars_put.induct) auto

lemma vars_insert_ok: "vars_ok xs \<Longrightarrow> vars_ok (vars_insert k v xs)"
  unfolding vars_ok_def
  by (induction k v xs rule: vars_insert.induct)
     (auto dest!: vars_insert_keys [THEN equalityD1, THEN subsetD, OF imageI])

lemma vars_put_ok: "vars_ok xs \<Longrightarrow> vars_ok (vars_put k v xs)"
  unfolding vars_ok_def
  by (induction k v xs rule: vars_put.induct)
     (auto dest!: vars_put_keys [THEN equalityD1, THEN subsetD, OF imageI])

lemma map_of_Some_key: "map_of xs k = Some v \<Longrightarrow> k \<in> fst ` set xs"
  by (force dest: map_of_SomeD)

lemma vars_get_insert:
  "vars_ok xs \<Longrightarrow> map_of (vars_insert k v xs) k'
     = (if k' = k then Some (case map_of xs k of None \<Rightarrow> v | Some w \<Rightarrow> w) else map_of xs k')"
  unfolding vars_ok_def
  by (induction k v xs rule: vars_insert.induct)
     (auto simp: map_of_eq_None_iff split: option.splits dest: map_of_Some_key less_asym)

lemma vars_get_put:
  "vars_ok xs \<Longrightarrow> map_of (vars_put k v xs) k' = (if k' = k then Some v else map_of xs k')"
  unfolding vars_ok_def
  by (induction k v xs rule: vars_put.induct) auto

lemma vars_insert_last:
  "\<forall>x\<in>set xs. fst x < k \<Longrightarrow> vars_insert k v xs = xs @ [(k, v)]"
  by (induction k v xs rule: vars_insert.induct) (auto dest: less_asym)

subsection \<open>Saving and loading\<close>

fun encodeEntry :: "bytes \<times> config_var \<Rightarrow> bytes" where
  "encodeEntry (k, v) =
     encodeInt (of_nat (length k)) @ k
     @ encodeInt (of_nat (length (cv_buffer v))) @ cv_buffer v"

lemma toVar_loop_at:
  "toVar_loop it (cv_at pre rest) = Inr (cv_at (pre @ concat (map encodeEntry it)) rest)"
  by (induction it arbitrary: pre) (auto simp: cv_simps cv_size_def)

lemma toVar_bytes:
  "toVar vars = Inr (cv_at (encodeInt (of_nat (length vars)) @ concat (map encodeEntry vars)) [])"
  by (simp add: toVar_def cv_simps toVar_loop_at)

definition entryOk :: "bytes \<times> config_var \<Rightarrow> bool" where
  "entryOk kv \<longleftrightarrow> fst kv \<noteq> [] \<and> length (fst kv) < 2 ^ 31 \<and> length (cv_buffer (snd kv)) < 2 ^ 31"

text \<open>Loading forgets the offsets: every variable starts at its beginning.\<close>

definition rewound :: "cfg_vars \<Rightarrow> cfg_vars" where
  "rewound vars = map (\<lambda>(k, v). (k, resetOffset v)) vars"

lemma load_loop_at:
  assumes "\<forall>kv\<in>set it. entryOk kv" and "sorted_wrt (<) (map fst (acc @ it))"
  shows "load_loop (length it) (cv_at pre (concat (map encodeEntry it) @ rest)) acc
       = (Inr True, acc @ rewound it)"
  using assms
proof (induction it arbitrary: pre acc)
  case (Cons kv it)
  obtain k v where kv: "kv = (k, v)" by (cases kv)
  have ok: "k \<noteq> []" "length k < 2 ^ 31" "length (cv_buffer v) < 2 ^ 31"
    using Cons(2) by (simp_all add: kv entryOk_def)
  have ins: "vars_insert k (ConfigVar_of (cv_buffer v)) acc = acc @ [(k, resetOffset v)]"
    using Cons(3) vars_insert_last [of acc k]
    by (simp add: kv sorted_wrt_append ConfigVar_of_def resetOffset_def)
  show ?case
    using Cons(1) [of "acc @ [(k, resetOffset v)]"] Cons(2,3) ok
    by (simp add: kv getString_at [OF ok(2)] getString_at [OF ok(3)] ins rewound_def)
qed (simp add: rewound_def)

text \<open>What follows the written bytes in the file does not matter.\<close>

lemma saved_loads:
  assumes "vars_ok vars" and "\<forall>kv\<in>set vars. entryOk kv" and "length vars < 2 ^ 31"
  shows "\<exists>file. cfg_save vars = Inr file \<and> (\<forall>rest. cfg_load (Some (file @ rest)) [] = (Inr True, rewound vars))"
proof -
  have n: "sint (of_nat (length vars) :: u32) = int (length vars)"
    using sint_of_int_small [of "int (length vars)"] assms(3) by simp
  have u: "unat (of_nat (length vars) :: u32) = length vars"
    using assms(3) by (simp add: unat_of_nat)
  have "load_loop (length vars)
          (cv_at (encodeInt (of_nat (length vars))) (concat (map encodeEntry vars) @ rest)) []
      = (Inr True, [] @ rewound vars)" for rest
    using assms(1,2) by (intro load_loop_at) (auto simp: vars_ok_def)
  then show ?thesis
    by (simp add: cfg_save_def cfg_load_def toVar_bytes cv_simps loadFromVar_def readInt_at n u)
qed

text \<open>
  C28: saving the variables of a reader and loading the saved bytes into an empty reader
  gives the same keys in the same order with the same contents (the read offsets are
  reset), for non-empty keys and sizes that fit an \<open>int\<close>.
\<close>
theorem config_file_roundtrip:
  assumes "vars_ok vars" and "\<forall>kv\<in>set vars. entryOk kv" and "length vars < 2 ^ 31"
  shows "\<exists>file. cfg_save vars = Inr file \<and> cfg_load (Some file) [] = (Inr True, rewound vars)"
  using saved_loads [OF assms] by (metis append_Nil2)

theorem config_file_roundtrip_witness:
  "\<exists>file. cfg_save [([1], ConfigVar_of [7, 8]), ([1, 2], ConfigVar_of [])] = Inr file \<and>
     cfg_load (Some file) [] = (Inr True, rewound [([1], ConfigVar_of [7, 8]), ([1, 2], ConfigVar_of [])])"
  by (rule config_file_roundtrip) (simp_all add: vars_ok_def entryOk_def ConfigVar_of_def)

end
