(* ===== verification/Interface.thy ===== *)
theory Interface
  imports ConfigVar "HOL-Library.List_Lexorder"
begin

text \<open>
  The versioned interface descriptions of \<open>encfs/Interface.cpp\<close>
  (libtool's current:revision:age), their comparison operators, the compatibility
  check \<open>implements\<close> and their serialisation.  The operators \<open><\<close> and \<open><=\<close> are
  a linear order, which the instance below proves; \<open>>\<close> and \<open>>=\<close> are not its
  converses when the names differ.
\<close>

subsection \<open>The class\<close>

datatype interface =
  Interface (iface_name: bytes) (iface_current: int) (iface_revision: int) (iface_age: int)

definition iface_eq :: "interface \<Rightarrow> interface \<Rightarrow> bool" where
  "iface_eq A B \<longleftrightarrow>
     iface_name A = iface_name B \<and> iface_current A = iface_current B \<and>
     iface_revision A = iface_revision B \<and> iface_age A = iface_age B"

definition iface_neq :: "interface \<Rightarrow> interface \<Rightarrow> bool" where
  "iface_neq A B \<longleftrightarrow>
     iface_name A \<noteq> iface_name B \<or> iface_current A \<noteq> iface_current B \<or>
     iface_revision A \<noteq> iface_revision B \<or> iface_age A \<noteq> iface_age B"

definition iface_sign :: "int \<Rightarrow> int \<Rightarrow> int" where
  "iface_sign a b = (if a < b then 0 else if a = b then 1 else 2)"

definition diffSum :: "interface \<Rightarrow> interface \<Rightarrow> int" where
  "diffSum A B =
     (let cS = iface_sign (iface_current A) (iface_current B);
          aS = iface_sign (iface_age A) (iface_age B);
          rS = iface_sign (iface_revision A) (iface_revision B)
      in (cS * 3 + aS) * 3 + rS)"

definition EqualVersion :: int where
  "EqualVersion = (1 * 3 + 1) * 3 + 1"

definition iface_implements :: "interface \<Rightarrow> interface \<Rightarrow> bool" where
  "iface_implements A B =
     (if iface_name A \<noteq> iface_name B then False
      else let currentDiff = iface_current A - iface_current B
           in 0 \<le> currentDiff \<and> currentDiff \<le> iface_age A)"

definition iface_lt :: "interface \<Rightarrow> interface \<Rightarrow> bool" where
  "iface_lt A B =
     (if iface_name A = iface_name B then diffSum A B < EqualVersion
      else iface_name A < iface_name B)"

definition iface_gt :: "interface \<Rightarrow> interface \<Rightarrow> bool" where
  "iface_gt A B =
     (if iface_name A = iface_name B then diffSum A B > EqualVersion
      else iface_name A < iface_name B)"

definition iface_le :: "interface \<Rightarrow> interface \<Rightarrow> bool" where
  "iface_le A B =
     (if iface_name A = iface_name B then diffSum A B \<le> EqualVersion
      else iface_name A < iface_name B)"

definition iface_ge :: "interface \<Rightarrow> interface \<Rightarrow> bool" where
  "iface_ge A B =
     (if iface_name A = iface_name B then diffSum A B \<ge> EqualVersion
      else iface_name A < iface_name B)"

definition putInterface :: "interface \<Rightarrow> config_var \<Rightarrow> config_var res" where
  "putInterface i dst =
     rbind (putString (iface_name i) dst) (\<lambda>dst.
     rbind (putInt (iface_current i) dst) (\<lambda>dst.
     rbind (putInt (iface_revision i) dst) (\<lambda>dst.
     putInt (iface_age i) dst)))"

definition getInterface :: "config_var \<Rightarrow> interface res \<times> config_var" where
  "getInterface src =
     (case getString src of
        (Inl e, src) \<Rightarrow> (Inl e, src)
      | (Inr n, src) \<Rightarrow>
          (case getInt src of
             (Inl e, src) \<Rightarrow> (Inl e, src)
           | (Inr c, src) \<Rightarrow>
               (case getInt src of
                  (Inl e, src) \<Rightarrow> (Inl e, src)
                | (Inr r, src) \<Rightarrow>
                    (case getInt src of
                       (Inl e, src) \<Rightarrow> (Inl e, src)
                     | (Inr a, src) \<Rightarrow> (Inr (Interface n c r a), src)))))"

subsection \<open>The order\<close>

lemma iface_lt_lex:
  "iface_lt A B \<longleftrightarrow>
     iface_name A < iface_name B \<or> iface_name A = iface_name B \<and>
       (iface_current A < iface_current B \<or> iface_current A = iface_current B \<and>
         (iface_age A < iface_age B \<or> iface_age A = iface_age B \<and>
            iface_revision A < iface_revision B))"
  by (auto simp: iface_lt_def diffSum_def iface_sign_def EqualVersion_def Let_def)

lemma iface_le_lex: "iface_le A B \<longleftrightarrow> iface_lt A B \<or> A = B"
  by (cases A; cases B)
     (auto simp: iface_lt_lex iface_le_def diffSum_def iface_sign_def EqualVersion_def Let_def)

lemma iface_eq_iff [simp]: "iface_eq A B \<longleftrightarrow> A = B"
  by (cases A; cases B) (auto simp: iface_eq_def)

lemma iface_neq_iff [simp]: "iface_neq A B \<longleftrightarrow> A \<noteq> B"
  by (cases A; cases B) (auto simp: iface_neq_def)

text \<open>The code's \<open><\<close> and \<open><=\<close> make the class a linear order.\<close>

instantiation interface :: linorder
begin

definition less_interface :: "interface \<Rightarrow> interface \<Rightarrow> bool" where
  "less_interface A B = iface_lt A B"

definition less_eq_interface :: "interface \<Rightarrow> interface \<Rightarrow> bool" where
  "less_eq_interface A B = iface_le A B"

instance
proof
  fix A B C :: interface
  show "(A < B) = (A \<le> B \<and> \<not> B \<le> A)"
    unfolding less_interface_def less_eq_interface_def iface_le_lex by (auto simp: iface_lt_lex)
  show "A \<le> A"
    by (simp add: less_eq_interface_def iface_le_lex)
  show "A \<le> B \<Longrightarrow> B \<le> C \<Longrightarrow> A \<le> C"
    unfolding less_eq_interface_def iface_le_lex by (auto simp: iface_lt_lex)
  show "A \<le> B \<Longrightarrow> B \<le> A \<Longrightarrow> A = B"
    unfolding less_eq_interface_def iface_le_lex by (auto simp: iface_lt_lex)
  show "A \<le> B \<or> B \<le> A"
    unfolding less_eq_interface_def iface_le_lex
    by (cases A; cases B) (auto simp: iface_lt_lex)
qed

end

lemma iface_gt_same_name: "iface_name A = iface_name B \<Longrightarrow> iface_gt A B \<longleftrightarrow> B < A"
  unfolding less_interface_def iface_lt_lex
  by (auto simp: iface_gt_def diffSum_def iface_sign_def EqualVersion_def Let_def)

lemma iface_ge_same_name: "iface_name A = iface_name B \<Longrightarrow> iface_ge A B \<longleftrightarrow> B \<le> A"
  unfolding less_eq_interface_def iface_le_lex
  by (cases A; cases B)
     (auto simp: iface_lt_lex iface_ge_def diffSum_def iface_sign_def EqualVersion_def Let_def)

text \<open>
  C33: the comparison operators of interfaces: exactly one of \<open>A < B\<close>, \<open>A == B\<close> and
  \<open>B < A\<close> holds, \<open><=\<close> is \<open><\<close> or equality, and \<open><\<close> is transitive, with versions
  compared by current, then age, then revision.
\<close>
theorem interface_order:
  "(iface_lt A B \<longleftrightarrow> \<not> iface_eq A B \<and> \<not> iface_lt B A) \<and>
   (iface_le A B \<longleftrightarrow> iface_lt A B \<or> iface_eq A B) \<and>
   \<not> (iface_lt A B \<and> iface_lt B C \<and> \<not> iface_lt A C)"
  unfolding less_interface_def [symmetric] less_eq_interface_def [symmetric] iface_eq_iff
  by (auto simp: not_less_iff_gr_or_eq less_le)

text \<open>
  C34: for interfaces of different names the operators \<open>>\<close> and \<open>>=\<close> answer what
  \<open><\<close> answers, so \<open>A > B\<close> holds exactly when \<open>A < B\<close> does, and \<open>A >= B\<close> is the
  negation of \<open>B <= A\<close>.
\<close>
theorem interface_gt_inverted:
  assumes "iface_name A \<noteq> iface_name B"
  shows "iface_gt A B = iface_lt A B \<and> iface_ge A B = iface_lt A B \<and>
         iface_ge A B = (\<not> iface_le B A)"
  using assms by (auto simp: iface_gt_def iface_ge_def iface_lt_def iface_le_def)

theorem interface_gt_inverted_witness:
  "iface_lt (Interface [1] 1 0 0) (Interface [2] 1 0 0) \<and>
   iface_gt (Interface [1] 1 0 0) (Interface [2] 1 0 0)"
proof -
  have n: "iface_name (Interface [1] 1 0 0) \<noteq> iface_name (Interface [2] 1 0 0)" by simp
  have "iface_lt (Interface [1] 1 0 0) (Interface [2] 1 0 0)" by (simp add: iface_lt_def)
  then show ?thesis using interface_gt_inverted [OF n] by simp
qed

subsection \<open>Compatibility\<close>

text \<open>The major versions an interface serves.\<close>

lemma implements_range:
  "iface_implements A B \<longleftrightarrow> iface_name A = iface_name B \<and>
     iface_current B \<in> {iface_current A - iface_age A .. iface_current A}"
  by (auto simp: iface_implements_def Let_def)

lemma implements_refl: "0 \<le> iface_age A \<Longrightarrow> iface_implements A A"
  by (simp add: implements_range)

subsection \<open>Serialisation\<close>

definition ifaceOk :: "interface \<Rightarrow> bool" where
  "ifaceOk i \<longleftrightarrow> length (iface_name i) < 2 ^ 31 \<and>
     0 \<le> iface_current i \<and> iface_current i < 2 ^ 31 \<and>
     0 \<le> iface_revision i \<and> iface_revision i < 2 ^ 31 \<and> 0 \<le> iface_age i \<and> iface_age i < 2 ^ 31"

definition encodeInterface :: "interface \<Rightarrow> bytes" where
  "encodeInterface i =
     encodeInt (of_nat (length (iface_name i))) @ iface_name i
     @ encodeInt (word_of_int (iface_current i)) @ encodeInt (word_of_int (iface_revision i))
     @ encodeInt (word_of_int (iface_age i))"

lemma putInterface_at [cv_simps]:
  "putInterface i (cv_at pre rest) = Inr (cv_at (pre @ encodeInterface i) rest)"
  by (simp add: putInterface_def encodeInterface_def putString_def putInt_def cv_simps)

lemma getInterface_at:
  "ifaceOk i \<Longrightarrow> getInterface (cv_at pre (encodeInterface i @ rest))
     = (Inr i, cv_at (pre @ encodeInterface i) rest)"
  by (simp add: getInterface_def encodeInterface_def ifaceOk_def getString_at getInt_at)

end
