(* ===== verification/Range.thy ===== *)
theory Range
  imports Prelude
begin

text \<open>
  The integer ranges with an increment of \<open>encfs/Range.h\<close>, which describe the key
  lengths and block sizes a cipher accepts.  \<open>closest\<close> calls itself without a
  bound, so it is a partial function: \<open>None\<close> is the recursion that never returns.
\<close>

record range =
  minVal :: int
  maxVal :: int
  increment :: int

definition Range_default :: range where
  "Range_default = \<lparr>minVal = -1, maxVal = -1, increment = 1\<rparr>"

definition Range_single :: "int \<Rightarrow> range" where
  "Range_single minMax = \<lparr>minVal = minMax, maxVal = minMax, increment = 1\<rparr>"

definition Range_new :: "int \<Rightarrow> int \<Rightarrow> int \<Rightarrow> range" where
  "Range_new mi ma inc =
     \<lparr>minVal = mi, maxVal = ma, increment = (if inc = 0 then 1 else inc)\<rparr>"

definition range_allowed :: "range \<Rightarrow> int \<Rightarrow> bool" where
  "range_allowed r v =
     (if v \<ge> minVal r \<and> v \<le> maxVal r
      then (let tmp = v - minVal r in cmod tmp (increment r) = 0)
      else False)"

text \<open>Where a value between two steps is sent next: the rounded distance to the minimum
  is added to the value itself.\<close>

definition range_next :: "range \<Rightarrow> int \<Rightarrow> int" where
  "range_next r v =
     (let tmp = v - minVal r;
          tmp = tmp + increment r div 2;
          tmp = tmp - cmod tmp (increment r)
      in v + tmp)"

partial_function (option) range_closest :: "range \<Rightarrow> int \<Rightarrow> int option" where
  "range_closest r v =
     (if range_allowed r v then Some v
      else if v < minVal r then Some (minVal r)
      else if v > maxVal r then Some (maxVal r)
      else range_closest r (range_next r v))"

definition range_ok :: "range \<Rightarrow> bool" where
  "range_ok r \<longleftrightarrow> minVal r \<le> maxVal r \<and> 0 < increment r \<and> increment r dvd maxVal r - minVal r"

subsection \<open>What is returned\<close>

lemma range_allowed_iff:
  "0 < increment r \<Longrightarrow> range_allowed r v \<longleftrightarrow>
     minVal r \<le> v \<and> v \<le> maxVal r \<and> increment r dvd v - minVal r"
  by (auto simp: range_allowed_def cmod_nonneg Let_def dvd_eq_mod_eq_0)

lemma closest_returns_allowed:
  assumes "range_closest r v = Some y"
  shows "range_ok r \<longrightarrow> range_allowed r y"
proof (rule range_closest.raw_induct [where P = "\<lambda>r v y. range_ok r \<longrightarrow> range_allowed r y", OF _ assms])
  fix f r v y
  assume IH: "\<And>r v y. f r v = Some y \<Longrightarrow> range_ok r \<longrightarrow> range_allowed r y"
    and eq: "(if range_allowed r v then Some v else if v < minVal r then Some (minVal r)
       else if v > maxVal r then Some (maxVal r) else f r (range_next r v)) = Some y"
  show "range_ok r \<longrightarrow> range_allowed r y"
    using eq IH [of r "range_next r v" y]
    by (auto simp: range_ok_def range_allowed_iff split: if_splits)
qed

subsection \<open>When the recursion ends\<close>

text \<open>A value less than half a step above the minimum is sent to itself.\<close>

definition range_stuck :: "range \<Rightarrow> int \<Rightarrow> bool" where
  "range_stuck r v \<longleftrightarrow> minVal r < v \<and> v \<le> maxVal r \<and>
     v - minVal r + increment r div 2 < increment r"

lemma stuck_next:
  assumes "range_stuck r v"
  shows "range_next r v = v \<and> \<not> range_allowed r v"
proof -
  have "0 < v - minVal r" and "v - minVal r + increment r div 2 < increment r"
    using assms by (auto simp: range_stuck_def)
  moreover from this have pos: "0 < increment r" by linarith
  ultimately show ?thesis
    using zdvd_not_zless [of "v - minVal r" "increment r"]
    by (auto simp: range_next_def range_allowed_iff cmod_nonneg Let_def)
qed

lemma closest_stuck:
  assumes "range_stuck r v"
  shows "range_closest r v = None"
proof -
  have "\<not> range_stuck r v" if "range_closest r v = Some y" for y
  proof (rule range_closest.raw_induct [where P = "\<lambda>r v y. \<not> range_stuck r v", OF _ that])
    fix f r v y
    assume IH: "\<And>r v y. f r v = Some y \<Longrightarrow> \<not> range_stuck r v"
      and eq: "(if range_allowed r v then Some v else if v < minVal r then Some (minVal r)
         else if v > maxVal r then Some (maxVal r) else f r (range_next r v)) = Some y"
    show "\<not> range_stuck r v"
      using eq IH [of r v y] stuck_next [of r v] by (auto simp: range_stuck_def split: if_splits)
  qed
  then show ?thesis using assms by (cases "range_closest r v") auto
qed

text \<open>Every other value climbs by at least a step until it is allowed or above the maximum.\<close>

lemma next_above:
  assumes "0 < increment r" and "minVal r < v" and "\<not> range_stuck r v" and "v \<le> maxVal r"
  shows "v + increment r \<le> range_next r v"
proof -
  let ?i = "increment r" and ?t = "v - minVal r + increment r div 2"
  have t: "?i \<le> ?t" using assms by (auto simp: range_stuck_def)
  have "range_next r v = v + ?i * (?t div ?i)"
    using assms(1) t by (simp add: range_next_def Let_def cmod_nonneg minus_mod_eq_mult_div)
  moreover have "1 \<le> ?t div ?i"
    using zdiv_mono1 [OF t assms(1)] assms(1) by simp
  then have "?i * 1 \<le> ?i * (?t div ?i)"
    using assms(1) by (intro mult_left_mono) auto
  ultimately show ?thesis by simp
qed

lemma not_stuck_above: "range_stuck r v \<Longrightarrow> v < minVal r + increment r"
  by (auto simp: range_stuck_def)

lemma closest_returns:
  assumes "0 < increment r" and "\<not> range_stuck r v"
  shows "\<exists>y. range_closest r v = Some y"
  using assms
proof (induction "nat (maxVal r + 1 - v)" arbitrary: v rule: less_induct)
  case less
  show ?case
  proof (cases "range_allowed r v \<or> v < minVal r \<or> v > maxVal r")
    case True
    then show ?thesis by (subst range_closest.simps) auto
  next
    case False
    then have "v \<noteq> minVal r"
      using less(2) by (auto simp: range_allowed_iff)
    with False have v: "minVal r < v" "v \<le> maxVal r" by auto
    have up: "v + increment r \<le> range_next r v"
      using next_above less v by blast
    have "\<not> range_stuck r (range_next r v)"
      using up v not_stuck_above by fastforce
    then have "\<exists>y. range_closest r (range_next r v) = Some y"
      using less(1,2) up v by simp
    then show ?thesis using False by (subst range_closest.simps) auto
  qed
qed

text \<open>
  C33: \<open>closest\<close> returns exactly for the values that are not less than half an increment
  above the minimum, and what it returns is then an allowed value (for a range whose
  maximum is a whole number of increments above its minimum); for the others the
  recursion never ends.
\<close>
theorem range_closest_spec:
  assumes "range_ok r"
  shows "case range_closest r v of
           Some y \<Rightarrow> range_allowed r y \<and> \<not> range_stuck r v
         | None \<Rightarrow> range_stuck r v"
proof (cases "range_stuck r v")
  case True
  then show ?thesis by (simp add: closest_stuck)
next
  case False
  obtain y where "range_closest r v = Some y"
    using closest_returns [of r v] assms False by (auto simp: range_ok_def)
  then show ?thesis using closest_returns_allowed [of r v y] assms False by simp
qed

theorem range_closest_spec_witness:
  "range_closest (Range_new 128 256 64) 150 = None \<and>
   (\<exists>y. range_closest (Range_new 128 256 64) 200 = Some y)"
proof -
  have ok: "range_ok (Range_new 128 256 64)" by (simp add: range_ok_def Range_new_def)
  have "range_stuck (Range_new 128 256 64) 150" "\<not> range_stuck (Range_new 128 256 64) 200"
    by (simp_all add: range_stuck_def Range_new_def)
  then show ?thesis
    using range_closest_spec [OF ok, of 150] range_closest_spec [OF ok, of 200]
    by (auto split: option.splits)
qed

lemma next_ge:
  assumes "0 < increment r" and "minVal r \<le> v"
  shows "v \<le> range_next r v"
proof -
  let ?t = "v - minVal r + increment r div 2"
  have "0 \<le> ?t" using assms by simp
  then have "?t mod increment r \<le> ?t" by (rule zmod_le_nonneg_dividend)
  moreover have "range_next r v = v + (?t - ?t mod increment r)"
    using assms(1) \<open>0 \<le> ?t\<close> by (simp only: range_next_def Let_def cmod_nonneg)
  ultimately show ?thesis by linarith
qed

lemma closest_above:
  assumes "range_closest r v = Some y"
  shows "0 < increment r \<longrightarrow> minVal r \<le> v \<longrightarrow> v \<le> y \<or> y = maxVal r"
proof (rule range_closest.raw_induct
    [where P = "\<lambda>r v y. 0 < increment r \<longrightarrow> minVal r \<le> v \<longrightarrow> v \<le> y \<or> y = maxVal r", OF _ assms])
  fix f r v y
  assume IH: "\<And>r v y. f r v = Some y \<Longrightarrow> 0 < increment r \<longrightarrow> minVal r \<le> v \<longrightarrow> v \<le> y \<or> y = maxVal r"
    and eq: "(if range_allowed r v then Some v else if v < minVal r then Some (minVal r)
       else if v > maxVal r then Some (maxVal r) else f r (range_next r v)) = Some y"
  show "0 < increment r \<longrightarrow> minVal r \<le> v \<longrightarrow> v \<le> y \<or> y = maxVal r"
    using eq IH [of r "range_next r v" y] next_ge [of r v] by (auto split: if_splits)
qed

text \<open>
  \<open>closest\<close> is not the nearest allowed value: a value in the range that is not
  allowed and for which it returns is always sent at least one increment upwards (or to
  the maximum).  With the AES key range, 200 becomes 256 although 192 is nearer.
\<close>
theorem range_closest_overshoots:
  assumes "range_ok r" and "minVal r < v" and "v < maxVal r" and "\<not> range_allowed r v"
    and "range_closest r v = Some y"
  shows "v + increment r \<le> y \<or> y = maxVal r"
proof -
  have inc: "0 < increment r" using assms(1) by (simp add: range_ok_def)
  have "\<not> range_stuck r v" using closest_stuck [of r v] assms(5) by auto
  then have "v + increment r \<le> range_next r v"
    using next_above inc assms(2,3) by simp
  moreover have "range_closest r (range_next r v) = Some y"
    using assms by (subst (asm) range_closest.simps) auto
  ultimately show ?thesis
    using closest_above [of r "range_next r v" y] inc assms(2) by auto
qed

theorem range_closest_overshoots_witness:
  "range_closest (Range_new 128 256 64) 200 = Some 256 \<and>
   (200 + 64 \<le> (256 :: int) \<or> 256 = maxVal (Range_new 128 256 64))"
proof -
  have c: "range_closest (Range_new 128 256 64) 200 = Some 256"
    by (subst range_closest.simps, subst range_closest.simps)
       (simp add: range_allowed_def range_next_def Range_new_def cmod_def cdiv_def)
  show ?thesis
    using range_closest_overshoots [OF _ _ _ _ c] c
    by (simp add: range_ok_def Range_new_def range_allowed_def cmod_def cdiv_def)
qed

end
