(* ===== verification/MemoryPool.thy ===== *)
theory MemoryPool
  imports Prelude
begin

text \<open>
  The pool of reusable buffers of \<open>encfs/MemoryPool.cpp\<close>: \<open>allocate\<close> unlinks the first
  free block that is large enough, \<open>release\<close> wipes the block and puts it in front.  A
  block is owned either by the pool or by one client; the traces of the pool with its
  clients are a step relation, and the invariant is by induction on it.
\<close>

subsection \<open>Blocks and the free list\<close>

text \<open>The identity of a block stands for its address.\<close>

record mem_block =
  mb_id :: nat
  mb_size :: nat
  mb_data :: bytes

record mpool =
  gMemPool :: "mem_block list"
  mp_next :: nat

definition mpool_init :: mpool where
  "mpool_init = \<lparr>gMemPool = [], mp_next = 0\<rparr>"

text \<open>\<open>allocBlock\<close>: a block at a new address; what the allocator left in it is given.\<close>

definition allocBlock :: "nat \<Rightarrow> bytes \<Rightarrow> mpool \<Rightarrow> mem_block \<times> mpool" where
  "allocBlock sz fresh p =
     (\<lparr>mb_id = mp_next p, mb_size = sz, mb_data = fresh\<rparr>, p\<lparr>mp_next := Suc (mp_next p)\<rparr>)"

text \<open>The search loop with its trailing \<open>parent\<close>, and the unlinking.\<close>

fun unlinkFit :: "nat \<Rightarrow> mem_block list \<Rightarrow> (mem_block \<times> mem_block list) option" where
  "unlinkFit sz [] = None"
| "unlinkFit sz (block # rest) =
     (if mb_size block < sz
      then (case unlinkFit sz rest of
              None \<Rightarrow> None
            | Some (b, rest') \<Rightarrow> Some (b, block # rest'))
      else Some (block, rest))"

definition allocate :: "nat \<Rightarrow> bytes \<Rightarrow> mpool \<Rightarrow> mem_block \<times> mpool" where
  "allocate sz fresh p =
     (case unlinkFit sz (gMemPool p) of
        Some (block, rest) \<Rightarrow> (block, p\<lparr>gMemPool := rest\<rparr>)
      | None \<Rightarrow> allocBlock sz fresh p)"

definition release :: "mem_block \<Rightarrow> mpool \<Rightarrow> mpool" where
  "release mb p =
     (let block = mb\<lparr>mb_data := replicate (mb_size mb) 0\<rparr>
      in p\<lparr>gMemPool := block # gMemPool p\<rparr>)"

definition destroyAll :: "mpool \<Rightarrow> mpool" where
  "destroyAll p = p\<lparr>gMemPool := []\<rparr>"

subsection \<open>The pool and its clients\<close>

definition writeBlock :: "nat \<Rightarrow> bytes \<Rightarrow> mem_block list \<Rightarrow> mem_block list" where
  "writeBlock i d = map (\<lambda>b. if mb_id b = i then b\<lparr>mb_data := d\<rparr> else b)"

inductive mp_step :: "mpool \<times> mem_block list \<Rightarrow> mpool \<times> mem_block list \<Rightarrow> bool" where
  mp_allocate: "length fresh = sz \<Longrightarrow> allocate sz fresh p = (b, p') \<Longrightarrow>
     mp_step (p, owned) (p', b # owned)"
| mp_write: "b \<in> set owned \<Longrightarrow> length d = mb_size b \<Longrightarrow>
     mp_step (p, owned) (p, writeBlock (mb_id b) d owned)"
| mp_release: "b \<in> set owned \<Longrightarrow> mp_step (p, owned) (release b p, remove1 b owned)"
| mp_destroy: "mp_step (p, owned) (destroyAll p, owned)"

inductive mp_reach :: "mpool \<times> mem_block list \<Rightarrow> bool" where
  mp_start: "mp_reach (mpool_init, [])"
| mp_next_step: "mp_reach s \<Longrightarrow> mp_step s s' \<Longrightarrow> mp_reach s'"

inductive_cases mp_stepE: "mp_step (p, owned) s'"

definition block_zero :: "mem_block \<Rightarrow> bool" where
  "block_zero b \<longleftrightarrow> mb_data b = replicate (mb_size b) 0"

definition mp_inv :: "mpool \<times> mem_block list \<Rightarrow> bool" where
  "mp_inv s \<longleftrightarrow> (case s of (p, owned) \<Rightarrow>
     distinct (map mb_id (gMemPool p @ owned)) \<and>
     (\<forall>b \<in> set (gMemPool p @ owned). mb_id b < mp_next p \<and> length (mb_data b) = mb_size b) \<and>
     (\<forall>b \<in> set (gMemPool p). block_zero b))"

lemma unlinkFit_Some:
  "unlinkFit sz pool = Some (b, rest) \<Longrightarrow>
     \<exists>pre post. pool = pre @ b # post \<and> rest = pre @ post \<and> sz \<le> mb_size b \<and>
                (\<forall>x \<in> set pre. mb_size x < sz)"
proof (induction pool arbitrary: rest)
  case (Cons x xs)
  show ?case
  proof (cases "mb_size x < sz")
    case True
    then obtain rest' where "unlinkFit sz xs = Some (b, rest')" and r: "rest = x # rest'"
      using Cons(2) by (auto split: option.splits)
    from Cons(1) [OF this(1)] obtain pre post where
      "xs = pre @ b # post" "rest' = pre @ post" "sz \<le> mb_size b" "\<forall>y \<in> set pre. mb_size y < sz"
      by blast
    then show ?thesis using True r by (intro exI [of _ "x # pre"] exI [of _ post]) auto
  next
    case False
    then have "x = b" "xs = rest" using Cons(2) by auto
    then show ?thesis using False by (intro exI [of _ "[]"] exI [of _ rest]) auto
  qed
qed simp

lemma unlinkFit_None: "unlinkFit sz pool = None \<longleftrightarrow> (\<forall>b \<in> set pool. mb_size b < sz)"
  by (induction pool) (auto split: option.splits)

lemma mp_inv_allocate:
  assumes "mp_inv (p, owned)" and "length fresh = sz" and "allocate sz fresh p = (b, p')"
  shows "mp_inv (p', b # owned)"
proof (cases "unlinkFit sz (gMemPool p)")
  case None
  then have "b = \<lparr>mb_id = mp_next p, mb_size = sz, mb_data = fresh\<rparr>"
      "p' = p\<lparr>mp_next := Suc (mp_next p)\<rparr>"
    using assms(3) by (auto simp: allocate_def allocBlock_def)
  moreover have "mp_next p \<notin> mb_id ` set (gMemPool p @ owned)"
    using assms(1) by (auto simp: mp_inv_def)
  ultimately show ?thesis
    using assms(1,2) by (simp add: mp_inv_def less_Suc_eq image_Un)
next
  case (Some x)
  then obtain rest where u: "unlinkFit sz (gMemPool p) = Some (b, rest)"
      and p': "p' = p\<lparr>gMemPool := rest\<rparr>"
    using assms(3) by (cases x) (auto simp: allocate_def)
  from unlinkFit_Some [OF u] obtain pre post where
    "gMemPool p = pre @ b # post" "rest = pre @ post" by blast
  then show ?thesis using assms(1) p' by (auto simp: mp_inv_def)
qed

lemma map_id_writeBlock [simp]: "map mb_id (writeBlock i d bs) = map mb_id bs"
  by (auto simp: writeBlock_def)

lemma same_block:
  "distinct (map mb_id bs) \<Longrightarrow> b \<in> set bs \<Longrightarrow> b' \<in> set bs \<Longrightarrow> mb_id b = mb_id b' \<Longrightarrow> b = b'"
  by (metis distinct_map inj_onD)

lemma mp_inv_write:
  assumes inv: "mp_inv (p, owned)" and b: "b \<in> set owned" and d: "length d = mb_size b"
  shows "mp_inv (p, writeBlock (mb_id b) d owned)"
proof -
  have dist: "distinct (map mb_id owned)" using inv by (auto simp: mp_inv_def)
  have "mb_id x < mp_next p \<and> length (mb_data x) = mb_size x"
    if w: "x \<in> set (writeBlock (mb_id b) d owned)" for x
  proof -
    obtain y where y: "y \<in> set owned" "x = (if mb_id y = mb_id b then y\<lparr>mb_data := d\<rparr> else y)"
      using w unfolding writeBlock_def by auto
    have "mb_id y = mb_id b \<Longrightarrow> y = b" using same_block [OF dist y(1) b] by simp
    then show ?thesis using y inv d by (auto simp: mp_inv_def)
  qed
  then show ?thesis
    using inv by (auto simp: mp_inv_def map_id_writeBlock simp flip: set_map)
qed

lemma mp_inv_release:
  assumes inv: "mp_inv (p, owned)" and b: "b \<in> set owned"
  shows "mp_inv (release b p, remove1 b owned)"
proof -
  obtain pre post where o: "owned = pre @ b # post" "b \<notin> set pre"
    using split_list_first [OF b] by blast
  then have "remove1 b owned = pre @ post" by (simp add: remove1_append)
  then show ?thesis
    using inv o by (auto simp: mp_inv_def release_def Let_def block_zero_def)
qed

lemma mp_inv_step: "mp_step s s' \<Longrightarrow> mp_inv s \<Longrightarrow> mp_inv s'"
proof (induction rule: mp_step.induct)
  case (mp_destroy p owned)
  then show ?case by (auto simp: mp_inv_def destroyAll_def)
qed (auto intro: mp_inv_allocate mp_inv_write mp_inv_release)

lemma mp_reach_inv: "mp_reach s \<Longrightarrow> mp_inv s"
proof (induction rule: mp_reach.induct)
  case mp_start
  then show ?case by (simp add: mp_inv_def mpool_init_def)
qed (rule mp_inv_step)

text \<open>
  C30: in every state the clients of the pool can reach, no block is handed out twice or
  both free and in use, every buffer has the length it says, and every free block is
  wiped: what one client left in a buffer is never seen by the next.
\<close>
theorem mpool_safe:
  assumes "mp_reach (p, owned)"
  shows "distinct (map mb_id (gMemPool p @ owned)) \<and>
         (\<forall>b \<in> set (gMemPool p @ owned). length (mb_data b) = mb_size b) \<and>
         (\<forall>b \<in> set (gMemPool p). mb_data b = replicate (mb_size b) 0)"
  using mp_reach_inv [OF assms] by (auto simp: mp_inv_def block_zero_def)

theorem mpool_safe_witness:
  "distinct (map mb_id (gMemPool (release \<lparr>mb_id = 0, mb_size = 2, mb_data = [7, 7]\<rparr>
      \<lparr>gMemPool = [], mp_next = 1\<rparr>) @ []))"
proof -
  let ?b = "\<lparr>mb_id = 0, mb_size = 2, mb_data = [7, 7]\<rparr>"
  have "mp_step (mpool_init, []) (\<lparr>gMemPool = [], mp_next = 1\<rparr>, [?b])"
    by (rule mp_allocate [where fresh = "[7, 7]" and sz = 2])
       (simp_all add: allocate_def allocBlock_def mpool_init_def)
  then have "mp_reach (\<lparr>gMemPool = [], mp_next = 1\<rparr>, [?b])"
    by (rule mp_next_step [OF mp_start])
  moreover have "mp_step (\<lparr>gMemPool = [], mp_next = 1\<rparr>, [?b])
      (release ?b \<lparr>gMemPool = [], mp_next = 1\<rparr>, remove1 ?b [?b])"
    by (rule mp_release) simp
  ultimately have "mp_reach (release ?b \<lparr>gMemPool = [], mp_next = 1\<rparr>, [])"
    using mp_next_step by fastforce
  from mpool_safe [OF this] show ?thesis by blast
qed

text \<open>
  an allocation always returns a block of at least the requested sz that no client
  holds; it reuses the first free block that is large enough, all zero, and takes new
  memory only when no free block is large enough.
\<close>
theorem mpool_allocate_spec:
  assumes "mp_reach (p, owned)" and "allocate sz fresh p = (b, p')"
  shows "sz \<le> mb_size b \<and> mb_id b \<notin> mb_id ` set owned \<and>
         (if \<exists>x \<in> set (gMemPool p). sz \<le> mb_size x
          then mp_next p' = mp_next p \<and> mb_data b = replicate (mb_size b) 0 \<and>
               (\<exists>pre post. gMemPool p = pre @ b # post \<and> gMemPool p' = pre @ post \<and>
                           (\<forall>x \<in> set pre. mb_size x < sz))
          else mb_size b = sz \<and> mb_data b = fresh \<and> gMemPool p' = gMemPool p)"
proof (cases "unlinkFit sz (gMemPool p)")
  case None
  moreover have "mp_next p \<notin> mb_id ` set owned"
    using mp_reach_inv [OF assms(1)] by (auto simp: mp_inv_def)
  moreover have "b = \<lparr>mb_id = mp_next p, mb_size = sz, mb_data = fresh\<rparr>"
      "gMemPool p' = gMemPool p"
    using assms(2) None by (auto simp: allocate_def allocBlock_def)
  ultimately show ?thesis
    unfolding unlinkFit_None by (auto simp flip: not_less)
next
  case (Some x)
  then obtain rest where u: "unlinkFit sz (gMemPool p) = Some (b, rest)"
      and p': "p' = p\<lparr>gMemPool := rest\<rparr>"
    using assms(2) by (cases x) (auto simp: allocate_def)
  from unlinkFit_Some [OF u] obtain pre post where f:
    "gMemPool p = pre @ b # post" "rest = pre @ post" "sz \<le> mb_size b"
    "\<forall>x \<in> set pre. mb_size x < sz" by blast
  have "mb_id b \<notin> mb_id ` set owned" "mb_data b = replicate (mb_size b) 0"
    using mp_reach_inv [OF assms(1)] f(1) by (auto simp: mp_inv_def block_zero_def)
  then show ?thesis using f p' by auto
qed

theorem mpool_allocate_spec_witness:
  "allocate 3 [1, 2, 3] mpool_init
     = (\<lparr>mb_id = 0, mb_size = 3, mb_data = [1, 2, 3]\<rparr>, \<lparr>gMemPool = [], mp_next = 1\<rparr>) \<and>
   3 \<le> mb_size \<lparr>mb_id = 0, mb_size = 3, mb_data = [1, 2, 3 :: byte]\<rparr>"
proof -
  have a: "allocate 3 [1, 2, 3] mpool_init
     = (\<lparr>mb_id = 0, mb_size = 3, mb_data = [1, 2, 3]\<rparr>, \<lparr>gMemPool = [], mp_next = 1\<rparr>)"
    by (simp add: allocate_def allocBlock_def mpool_init_def)
  from mpool_allocate_spec [OF mp_start a] a show ?thesis by blast
qed

end
