(* ===== verification/Cipher.thy ===== *)
theory Cipher
  imports Base64 Interface Range
begin

text \<open>
  The cipher interface of \<open>encfs/Cipher.h\<close> and \<open>encfs/Cipher.cpp\<close>: the registry of
  implementations, the checksums folded from the 64-bit MAC, the name coding and the
  printed key, over a virtual function table; the contract the callers rely on (locale
  \<open>cipher_laws\<close>); and the non-encrypting cipher of \<open>encfs/NullCipher.cpp\<close>.
\<close>

subsection \<open>Registries\<close>

text \<open>
  A \<open>std::multimap\<close> keyed by \<open>std::string\<close>: pairs in ascending key order, an
  inserted pair after the pairs with its key; \<open>find\<close> gives the first one.
\<close>

fun mm_insert :: "bytes \<Rightarrow> 'v \<Rightarrow> (bytes \<times> 'v) list \<Rightarrow> (bytes \<times> 'v) list" where
  "mm_insert k v [] = [(k, v)]"
| "mm_insert k v ((k', v') # xs) =
     (if k < k' then (k, v) # (k', v') # xs else (k', v') # mm_insert k v xs)"

definition mm_find :: "bytes \<Rightarrow> (bytes \<times> 'v) list \<Rightarrow> 'v option" where
  "mm_find k xs = map_of xs k"

lemma set_mm_insert [simp]: "set (mm_insert k v xs) = insert (k, v) (set xs)"
  by (induction k v xs rule: mm_insert.induct) (auto split: if_splits)

lemma sorted_mm_insert: "sorted (map fst xs) \<Longrightarrow> sorted (map fst (mm_insert k v xs))"
  by (induction k v xs rule: mm_insert.induct) (auto simp: not_less split: if_splits)

lemma map_of_mm_insert:
  "sorted (map fst xs) \<Longrightarrow> map_of (mm_insert k v xs) = (map_of [(k, v)] ++ map_of xs)"
proof (induction xs)
  case (Cons x xs)
  obtain k' v' where x: "x = (k', v')" by (cases x)
  have "map_of xs k = None" if "k < k'"
    using that Cons(2) x by (auto simp: map_of_eq_None_iff)
  then show ?case
    using Cons x by (auto simp: fun_eq_iff map_add_def split: option.splits)
qed simp

text \<open>\<open>CipherAlg\<close>: a registered implementation; \<open>'f\<close> is the constructor.\<close>

record 'f cipher_alg =
  ca_hidden :: bool
  ca_constructor :: 'f
  ca_description :: bytes
  ca_iface :: interface
  ca_keyLength :: range
  ca_blockSize :: range

record cipher_algorithm =
  alg_name :: bytes
  alg_description :: bytes
  alg_iface :: interface
  alg_keyLength :: range
  alg_blockSize :: range

type_synonym 'f cipher_map = "(bytes \<times> 'f cipher_alg) list"

definition Cipher_GetAlgorithmList :: "'f cipher_map \<Rightarrow> bool \<Rightarrow> cipher_algorithm list" where
  "Cipher_GetAlgorithmList m includeHidden =
     map (\<lambda>(k, ca). \<lparr>alg_name = k, alg_description = ca_description ca, alg_iface = ca_iface ca,
                       alg_keyLength = ca_keyLength ca, alg_blockSize = ca_blockSize ca\<rparr>)
       (filter (\<lambda>(k, ca). includeHidden \<or> \<not> ca_hidden ca) m)"

definition Cipher_Register ::
  "bytes \<Rightarrow> bytes \<Rightarrow> interface \<Rightarrow> range \<Rightarrow> range \<Rightarrow> 'f \<Rightarrow> bool \<Rightarrow> 'f cipher_map \<Rightarrow> 'f cipher_map" where
  "Cipher_Register name description iface keyLength blockSize fn hidden m =
     mm_insert name \<lparr>ca_hidden = hidden, ca_constructor = fn, ca_description = description,
       ca_iface = iface, ca_keyLength = keyLength, ca_blockSize = blockSize\<rparr> m"

definition Cipher_Register0 ::
  "bytes \<Rightarrow> bytes \<Rightarrow> interface \<Rightarrow> 'f \<Rightarrow> bool \<Rightarrow> 'f cipher_map \<Rightarrow> 'f cipher_map" where
  "Cipher_Register0 name description iface fn hidden m =
     Cipher_Register name description iface (Range_new (-1) (-1) 1) (Range_new (-1) (-1) 1) fn hidden m"

text \<open>The null pointer is \<open>None\<close>; a constructor may also throw.\<close>

definition Cipher_New_name ::
  "(interface \<Rightarrow> int \<Rightarrow> 'c res) cipher_map \<Rightarrow> bytes \<Rightarrow> int \<Rightarrow> 'c option res" where
  "Cipher_New_name m name keyLen =
     (case mm_find name m of
        None \<Rightarrow> Inr None
      | Some ca \<Rightarrow> rbind (ca_constructor ca (ca_iface ca) keyLen) (\<lambda>r. Inr (Some r)))"

definition Cipher_New_iface ::
  "(interface \<Rightarrow> int \<Rightarrow> 'c res) cipher_map \<Rightarrow> interface \<Rightarrow> int \<Rightarrow> 'c option res" where
  "Cipher_New_iface m iface keyLen =
     (case find (\<lambda>(k, ca). iface_implements (ca_iface ca) iface) m of
        None \<Rightarrow> Inr None
      | Some (k, ca) \<Rightarrow> rbind (ca_constructor ca iface keyLen) (\<lambda>r. Inr (Some r)))"

subsection \<open>The virtual functions\<close>

text \<open>
  \<open>'k\<close> is the type of keys.  A \<open>chainedIV\<close> pointer is an option, returned with the
  value the callee stored through it; the coding functions return their \<open>bool\<close> and the
  buffer.  \<open>randomize\<close> takes the number of the call, which the callers count, and
  returns its \<open>bool\<close> and the buffer.
\<close>

record 'k cipher =
  vt_Interface :: interface
  vt_newKey :: "bytes \<Rightarrow> int \<Rightarrow> int \<Rightarrow> bytes \<Rightarrow> ('k option \<times> int) res"
  vt_newKey_old :: "bytes \<Rightarrow> 'k option res"
  vt_newRandomKey :: "nat \<Rightarrow> 'k option res"
  vt_readKey :: "bytes \<Rightarrow> 'k \<Rightarrow> bool \<Rightarrow> 'k option res"
  vt_writeKey :: "'k \<Rightarrow> bytes \<Rightarrow> 'k \<Rightarrow> bytes res"
  vt_compareKey :: "'k \<Rightarrow> 'k \<Rightarrow> bool res"
  vt_keySize :: nat
  vt_encodedKeySize :: nat
  vt_cipherBlockSize :: nat
  vt_randomize :: "nat \<Rightarrow> bool \<Rightarrow> nat \<Rightarrow> bool \<times> bytes"
  vt_MAC_64 :: "bytes \<Rightarrow> 'k \<Rightarrow> u64 option \<Rightarrow> (u64 \<times> u64 option) res"
  vt_streamEncode :: "bytes \<Rightarrow> u64 \<Rightarrow> 'k \<Rightarrow> (bool \<times> bytes) res"
  vt_streamDecode :: "bytes \<Rightarrow> u64 \<Rightarrow> 'k \<Rightarrow> (bool \<times> bytes) res"
  vt_blockEncode :: "bytes \<Rightarrow> u64 \<Rightarrow> 'k \<Rightarrow> (bool \<times> bytes) res"
  vt_blockDecode :: "bytes \<Rightarrow> u64 \<Rightarrow> 'k \<Rightarrow> (bool \<times> bytes) res"

definition mac32_of :: "u64 \<Rightarrow> u32" where
  "mac32_of mac64 = ucast ((drop_bit 32 mac64 AND 0xffffffff) XOR (mac64 AND 0xffffffff))"

definition mac16_of :: "u64 \<Rightarrow> u32" where
  "mac16_of mac64 =
     (let mac32 = mac32_of mac64 in (drop_bit 16 mac32 AND 0xffff) XOR (mac32 AND 0xffff))"

definition MAC_32 :: "'k cipher \<Rightarrow> bytes \<Rightarrow> 'k \<Rightarrow> u64 option \<Rightarrow> (u32 \<times> u64 option) res" where
  "MAC_32 c src key chainedIV =
     rbind (vt_MAC_64 c src key chainedIV) (\<lambda>(mac64, iv). Inr (mac32_of mac64, iv))"

definition MAC_16 :: "'k cipher \<Rightarrow> bytes \<Rightarrow> 'k \<Rightarrow> u64 option \<Rightarrow> (u32 \<times> u64 option) res" where
  "MAC_16 c src key chainedIV =
     rbind (vt_MAC_64 c src key chainedIV) (\<lambda>(mac64, iv). Inr (mac16_of mac64, iv))"

definition nameEncode :: "'k cipher \<Rightarrow> bytes \<Rightarrow> u64 \<Rightarrow> 'k \<Rightarrow> (bool \<times> bytes) res" where
  "nameEncode c data iv64 key = vt_streamEncode c data iv64 key"

definition nameDecode :: "'k cipher \<Rightarrow> bytes \<Rightarrow> u64 \<Rightarrow> 'k \<Rightarrow> (bool \<times> bytes) res" where
  "nameDecode c data iv64 key = vt_streamDecode c data iv64 key"

text \<open>
  The printed key.  \<open>keyBuf\<close> is what \<open>new\<close> left in the buffer.  The terminator is
  stored at index \<open>b64Len - 1\<close>, which for a zero-length key is before the buffer.
\<close>

definition encodeAsString :: "'k cipher \<Rightarrow> bytes \<Rightarrow> 'k \<Rightarrow> 'k \<Rightarrow> bytes res" where
  "encodeAsString c keyBuf key encodingKey =
     (let encodedKeySize = vt_encodedKeySize c in
      rbind (vt_writeKey c key keyBuf key) (\<lambda>keyBuf.
      let b64Len = B256ToB64Bytes (int encodedKeySize);
          b64Key = changeBase2 (take encodedKeySize keyBuf) 8 (nat b64Len) 6;
          b64Key = B64ToAscii b64Key (nat b64Len)
      in if b64Len < 1 then Inl OutOfRange
         else Inr (cstr (b64Key[nat (b64Len - 1) := 0]))))"

subsection \<open>The contract of a cipher\<close>

text \<open>
  What the name and file coding layers rely on, for the keys \<open>ok\<close> of the cipher:
  coding succeeds on non-empty data (block coding on whole blocks), keeps the length and
  is undone by the decoder with the same IV; a MAC exists and stores through the IV
  pointer only when there is one.
\<close>

locale cipher_laws =
  fixes c :: "'k cipher" and ok :: "'k \<Rightarrow> bool"
  assumes bs_pos: "0 < vt_cipherBlockSize c"
    and mac_total: "ok k \<Longrightarrow> d \<noteq> [] \<Longrightarrow> \<exists>m iv'. vt_MAC_64 c d k iv = Inr (m, iv')"
    and mac_iv: "vt_MAC_64 c d k iv = Inr (m, iv') \<Longrightarrow> (iv' = None) = (iv = None)"
    and stream_enc: "ok k \<Longrightarrow> d \<noteq> [] \<Longrightarrow>
      \<exists>e. vt_streamEncode c d iv64 k = Inr (True, e) \<and> length e = length d \<and>
          vt_streamDecode c e iv64 k = Inr (True, d)"
    and stream_dec: "ok k \<Longrightarrow> e \<noteq> [] \<Longrightarrow>
      \<exists>d. vt_streamDecode c e iv64 k = Inr (True, d) \<and> length d = length e"
    and block_enc: "ok k \<Longrightarrow> d \<noteq> [] \<Longrightarrow> vt_cipherBlockSize c dvd length d \<Longrightarrow>
      \<exists>e. vt_blockEncode c d iv64 k = Inr (True, e) \<and> length e = length d \<and>
          vt_blockDecode c e iv64 k = Inr (True, d)"
    and block_dec: "ok k \<Longrightarrow> e \<noteq> [] \<Longrightarrow> vt_cipherBlockSize c dvd length e \<Longrightarrow>
      \<exists>d. vt_blockDecode c e iv64 k = Inr (True, d) \<and> length d = length e"
    and randomize_length: "length (snd (vt_randomize c n strong i)) = n"
begin

lemma mac16_total: "ok k \<Longrightarrow> d \<noteq> [] \<Longrightarrow> \<exists>m iv'. MAC_16 c d k iv = Inr (m, iv')"
  using mac_total [of k d iv] by (auto simp: MAC_16_def)

lemma mac32_total: "ok k \<Longrightarrow> d \<noteq> [] \<Longrightarrow> \<exists>m iv'. MAC_32 c d k iv = Inr (m, iv')"
  using mac_total [of k d iv] by (auto simp: MAC_32_def)

lemma mac16_iv: "MAC_16 c d k iv = Inr (m, iv') \<Longrightarrow> (iv' = None) = (iv = None)"
  by (auto simp: MAC_16_def rbind_Inr_iff dest: mac_iv)

lemma stream_enc_inj:
  assumes "ok k" and "d \<noteq> []" and "d' \<noteq> []"
    and "vt_streamEncode c d iv64 k = vt_streamEncode c d' iv64 k"
  shows "d = d'"
  using stream_enc [OF assms(1,2), of iv64] stream_enc [OF assms(1,3), of iv64] assms(4) by auto

end

subsection \<open>Facts on the checksums\<close>

lemma mac16_bound: "unat (mac16_of m) < 2 ^ 16"
proof -
  have "mac16_of m = take_bit 16 (mac16_of m)"
  proof -
    have "(0xffff :: u32) = mask 16" by (simp add: mask_eq_decr_exp)
    then show ?thesis
      by (simp only: mac16_of_def Let_def flip: take_bit_eq_mask) simp
  qed
  then show ?thesis
    by (metis take_bit_nat_less_exp unsigned_take_bit_eq)
qed

text \<open>The two bytes that store a 16-bit checksum give it back.\<close>

lemma mac16_bytes:
  assumes "unat (m :: u32) < 2 ^ 16"
  shows "push_bit 8 (ucast (ucast (drop_bit 8 m AND 0xff) :: byte))
           OR ucast (ucast (m AND 0xff) :: byte) = (m :: u32)"
proof -
  have m16: "take_bit 16 m = m"
  proof -
    have "unat (take_bit 16 m) = unat m"
      using assms by (simp add: unsigned_take_bit_eq take_bit_nat_eq_self)
    then show ?thesis using word_unat_eq_iff by blast
  qed
  have ff: "(0xff :: u32) = mask 8" by (simp add: mask_eq_decr_exp)
  have "bit ((push_bit 8 (ucast (ucast (drop_bit 8 m AND 0xff) :: byte))
           OR ucast (ucast (m AND 0xff) :: byte)) :: u32) n = bit (take_bit 16 m) n" if "n < 32" for n
    unfolding ff using that by (auto simp: bit_simps)
  then have "push_bit 8 (ucast (ucast (drop_bit 8 m AND 0xff) :: byte))
           OR ucast (ucast (m AND 0xff) :: byte) = (take_bit 16 m :: u32)"
    by (intro bit_word_eqI) simp
  then show ?thesis using m16 by simp
qed

subsection \<open>The null cipher\<close>

text \<open>There is a single key object, \<open>gNullKey\<close>.\<close>

definition NullInterface :: interface where
  "NullInterface = Interface (lit ''nullCipher'') 1 0 0"

definition NullKeyRange :: range where
  "NullKeyRange = Range_single 0"

definition NullBlockRange :: range where
  "NullBlockRange = Range_new 1 4096 1"

definition NullCipher :: "interface \<Rightarrow> unit cipher" where
  "NullCipher iface =
     \<lparr>vt_Interface = iface,
      vt_newKey = (\<lambda>password iterationCount duration salt. Inr (Some (), iterationCount)),
      vt_newKey_old = (\<lambda>password. Inr (Some ())),
      vt_newRandomKey = (\<lambda>i. Inr (Some ())),
      vt_readKey = (\<lambda>data masterKey checkKey. Inr (Some ())),
      vt_writeKey = (\<lambda>key data masterKey. Inr data),
      vt_compareKey = (\<lambda>A B. Inr (A = B)),
      vt_keySize = 0,
      vt_encodedKeySize = 0,
      vt_cipherBlockSize = 1,
      vt_randomize = (\<lambda>len strong i. (True, replicate len 0)),
      vt_MAC_64 = (\<lambda>src key chainedIV. Inr (0, chainedIV)),
      vt_streamEncode = (\<lambda>data iv64 key. Inr (True, data)),
      vt_streamDecode = (\<lambda>data iv64 key. Inr (True, data)),
      vt_blockEncode = (\<lambda>data iv64 key. Inr (True, data)),
      vt_blockDecode = (\<lambda>data iv64 key. Inr (True, data))\<rparr>"

definition NewNullCipher :: "interface \<Rightarrow> int \<Rightarrow> unit cipher res" where
  "NewNullCipher iface keyLen = Inr (NullCipher iface)"

lemma NullCipher_laws: "cipher_laws (NullCipher iface) (\<lambda>_. True)"
  by unfold_locales (auto simp: NullCipher_def)

interpretation nullcipher: cipher_laws "NullCipher iface" "\<lambda>_. True" for iface
  by (rule NullCipher_laws)

subsection \<open>Properties\<close>

lemma find_mm:
  "case find P m of
     None \<Rightarrow> \<forall>x \<in> set m. \<not> P x
   | Some x \<Rightarrow> x \<in> set m \<and> P x"
  by (induction m) (auto split: option.splits)

text \<open>
  asking the registry for an interface constructs, with the requested interface, an
  implementation registered as compatible with it, and gives the null pointer only when
  none is; registering keeps the registry ordered, and an implementation registered under
  a new name is the one its name gives, constructed with the interface it registered.
\<close>
theorem cipher_registry_spec:
  "(case Cipher_New_iface m iface keyLen of
      Inr None \<Rightarrow> \<forall>(k, ca) \<in> set m. \<not> iface_implements (ca_iface ca) iface
    | r \<Rightarrow> \<exists>(k, ca) \<in> set m. iface_implements (ca_iface ca) iface \<and>
           r = rbind (ca_constructor ca iface keyLen) (\<lambda>x. Inr (Some x))) \<and>
   (sorted (map fst m) \<longrightarrow>
      sorted (map fst (Cipher_Register name d i kl bl fn hidden m)) \<and>
      (name \<notin> fst ` set m \<longrightarrow>
         Cipher_New_name (Cipher_Register name d i kl bl fn hidden m) name keyLen
           = rbind (fn i keyLen) (\<lambda>x. Inr (Some x))))"
proof (intro conjI impI)
  let ?P = "\<lambda>(k, ca). iface_implements (ca_iface ca) iface"
  show "case Cipher_New_iface m iface keyLen of
      Inr None \<Rightarrow> \<forall>(k, ca) \<in> set m. \<not> iface_implements (ca_iface ca) iface
    | r \<Rightarrow> \<exists>(k, ca) \<in> set m. iface_implements (ca_iface ca) iface \<and>
           r = rbind (ca_constructor ca iface keyLen) (\<lambda>x. Inr (Some x))"
  proof (cases "find ?P m")
    case None
    then show ?thesis using find_mm [where P = ?P and m = m] by (auto simp: Cipher_New_iface_def)
  next
    case (Some x)
    obtain k ca where "x = (k, ca)" by (cases x)
    then show ?thesis
      using find_mm [where P = ?P and m = m] Some
      by (cases "ca_constructor ca iface keyLen") (auto simp: Cipher_New_iface_def intro!: bexI [of _ x])
  qed
next
  assume "sorted (map fst m)"
  then show "sorted (map fst (Cipher_Register name d i kl bl fn hidden m))"
    unfolding Cipher_Register_def by (rule sorted_mm_insert)
next
  assume "sorted (map fst m)" and "name \<notin> fst ` set m"
  moreover from this have "map_of m name = None" by (simp add: map_of_eq_None_iff)
  ultimately show "Cipher_New_name (Cipher_Register name d i kl bl fn hidden m) name keyLen
           = rbind (fn i keyLen) (\<lambda>x. Inr (Some x))"
    by (simp add: Cipher_New_name_def Cipher_Register_def mm_find_def map_of_mm_insert map_add_def)
qed

theorem cipher_registry_spec_witness:
  "Cipher_New_name (Cipher_Register (lit ''Null'') [] NullInterface NullKeyRange NullBlockRange
       NewNullCipher True []) (lit ''Null'') 0 = Inr (Some (NullCipher NullInterface))"
  using cipher_registry_spec [of "[]" NullInterface 0 "lit ''Null''" "[]" NullInterface NullKeyRange
      NullBlockRange NewNullCipher True]
  by (simp add: NewNullCipher_def)

lemma cstr_stop: "\<forall>x \<in> set pre. x \<noteq> 0 \<Longrightarrow> cstr (pre @ 0 # post) = pre"
  by (induction pre) (auto simp: cstr_def)

text \<open>
  the printed key lacks the last base-64 digit: the terminator is stored over it, so
  the string is the encoding without its last character.
\<close>
theorem encodeAsString_truncates:
  assumes "vt_writeKey c key keyBuf key = Inr buf" and "length buf = vt_encodedKeySize c"
    and "buf \<noteq> []"
  shows "encodeAsString c keyBuf key encodingKey
       = Inr (butlast (B64ToAscii (changeBase2Inline buf 8 6 True) ((length buf * 8 + 5) div 6)))"
proof -
  let ?n = "(length buf * 8 + 5) div 6"
  let ?e = "changeBase2Inline buf 8 6 True"
  let ?a = "B64ToAscii ?e ?n"
  have len: "length ?e = ?n" using assms(3) by (rule length_encode)
  have n: "0 < ?n" using assms(3) by (cases buf) auto
  have cb: "changeBase2 buf 8 ?n 6 = ?e" using assms(3) by (intro changeBase2_is_inline) auto
  have "\<forall>x \<in> set ?a. x \<noteq> 0"
    using encode_values [OF assms(3)] alphabet_safe len by (auto simp: B64ToAscii_def)
  moreover have "?a[?n - 1 := 0] = butlast ?a @ [0]"
  proof (cases ?a rule: rev_cases)
    case (snoc ys y)
    then have "?n = Suc (length ys)" using len length_B64ToAscii [of ?e ?n] by simp
    then show ?thesis using snoc by simp
  qed (use n len length_B64ToAscii [of ?e ?n] in simp)
  ultimately have "cstr (?a[?n - 1 := 0]) = butlast ?a"
    by (simp add: cstr_stop in_set_butlastD)
  moreover have "B256ToB64Bytes (int (vt_encodedKeySize c)) = int ?n"
    using assms(2) by simp
  moreover have "nat (int ?n - 1) = ?n - 1" using n by simp
  ultimately show ?thesis
    using assms n cb by (simp add: encodeAsString_def Let_def)
qed

theorem encodeAsString_truncates_witness:
  "let c = (NullCipher NullInterface)\<lparr>vt_encodedKeySize := 3\<rparr> in
   encodeAsString c [1, 2, 3] () ()
     = Inr (butlast (B64ToAscii (changeBase2Inline [1, 2, 3] 8 6 True) 4))"
  using encodeAsString_truncates [of "(NullCipher NullInterface)\<lparr>vt_encodedKeySize := 3\<rparr>" "()" "[1, 2, 3]" "[1, 2, 3]" "()"]
  by (simp add: NullCipher_def)

end
