(* ===== verification/SSL_Cipher.thy ===== *)
theory SSL_Cipher
  imports Cipher
begin

text \<open>
  The OpenSSL based cipher of \<open>encfs/SSL_Cipher.cpp\<close>: password and random keys, the
  64-bit MAC, the IV derivations, the two-pass stream coding with byte shuffling, block
  coding, and the encrypted storage of keys.  OpenSSL itself is a parameter (the record
  \<open>evp\<close>); \<open>evp_ok\<close> states the documented behaviour the code relies on.
\<close>

subsection \<open>OpenSSL\<close>

text \<open>The \<open>EVP_CIPHER\<close> objects the code names.\<close>

datatype evp_cipher =
    EVP_bf_cbc | EVP_bf_cfb
  | EVP_aes_128_cbc | EVP_aes_128_cfb
  | EVP_aes_192_cbc | EVP_aes_192_cfb
  | EVP_aes_256_cbc | EVP_aes_256_cfb

text \<open>
  \<open>evp_encrypt c key iv data\<close> is \<open>EncryptInit_ex\<close> with the IV, \<open>EncryptUpdate\<close> and
  \<open>EncryptFinal_ex\<close> on a context with that cipher and key and without padding.
  \<open>evp_rand strong len i\<close> is the result code and the buffer of the \<open>i\<close>-th request for
  random bytes, \<open>evp_time i\<close> the \<open>i\<close>-th \<open>gettimeofday\<close> of a timed run (seconds and
  microseconds).
\<close>

record evp =
  evp_iv_length :: "evp_cipher \<Rightarrow> nat"
  evp_block_size :: "evp_cipher \<Rightarrow> nat"
  evp_encrypt :: "evp_cipher \<Rightarrow> bytes \<Rightarrow> bytes \<Rightarrow> bytes \<Rightarrow> bytes"
  evp_decrypt :: "evp_cipher \<Rightarrow> bytes \<Rightarrow> bytes \<Rightarrow> bytes \<Rightarrow> bytes"
  evp_sha1 :: "bytes \<Rightarrow> bytes"
  evp_hmac_sha1 :: "bytes \<Rightarrow> bytes \<Rightarrow> bytes"
  evp_pbkdf2 :: "bytes \<Rightarrow> bytes \<Rightarrow> int \<Rightarrow> nat \<Rightarrow> bytes option"
  evp_BytesToKey :: "evp_cipher \<Rightarrow> bytes \<Rightarrow> nat \<Rightarrow> bytes \<times> bytes"
  evp_rand :: "bool \<Rightarrow> nat \<Rightarrow> nat \<Rightarrow> int \<times> bytes"
  evp_time :: "nat \<Rightarrow> int \<times> int"

definition evp_stream :: "evp_cipher \<Rightarrow> bool" where
  "evp_stream c \<longleftrightarrow> c \<in> {EVP_bf_cfb, EVP_aes_128_cfb, EVP_aes_192_cfb, EVP_aes_256_cfb}"

definition evp_ok :: "evp \<Rightarrow> bool" where
  "evp_ok e \<longleftrightarrow>
     (\<forall>c. evp_iv_length e c = 8 \<or> evp_iv_length e c = 16) \<and>
     (\<forall>c. 0 < evp_block_size e c) \<and>
     (\<forall>c key iv d. evp_stream c \<or> evp_block_size e c dvd length d \<longrightarrow>
        length (evp_encrypt e c key iv d) = length d \<and>
        length (evp_decrypt e c key iv d) = length d \<and>
        evp_decrypt e c key iv (evp_encrypt e c key iv d) = d) \<and>
     (\<forall>d. length (evp_sha1 e d) = 20) \<and>
     (\<forall>k d. length (evp_hmac_sha1 e k d) = 20) \<and>
     (\<forall>p s i n k. evp_pbkdf2 e p s i n = Some k \<longrightarrow> length k = n) \<and>
     (\<forall>s n i. length (snd (evp_rand e s n i)) = n)"

subsection \<open>Keys from passwords\<close>

text \<open>
  \<open>BytesToKey\<close> with both outputs requested.  \<open>addmd\<close> is the digest of the previous
  round, if any; with a digest of no bytes the loop would not end, hence the partial
  function.
\<close>

partial_function (option) btk_loop ::
  "(bytes \<Rightarrow> bytes) \<Rightarrow> bytes \<Rightarrow> nat \<Rightarrow> bytes \<Rightarrow> nat \<Rightarrow> nat \<Rightarrow> bytes \<Rightarrow> bytes \<Rightarrow> (bytes \<times> bytes) option" where
  "btk_loop md dat rounds mdBuf nkey niv key iv =
     (let mdBuf = (md ^^ (rounds - 1)) (md (mdBuf @ dat));
          offset = 0;
          toCopy = min nkey (length mdBuf - offset);
          key = key @ take toCopy (drop offset mdBuf);
          nkey = nkey - toCopy;
          offset = offset + toCopy;
          toCopy = min niv (length mdBuf - offset);
          iv = iv @ take toCopy (drop offset mdBuf);
          niv = niv - toCopy
      in if nkey = 0 \<and> niv = 0 then Some (key, iv)
         else btk_loop md dat rounds mdBuf nkey niv key iv)"

text \<open>The number returned with the two buffers; an empty password leaves them alone.\<close>

definition BytesToKey ::
  "nat \<Rightarrow> nat \<Rightarrow> (bytes \<Rightarrow> bytes) \<Rightarrow> bytes \<Rightarrow> nat \<Rightarrow> bytes \<Rightarrow> bytes \<Rightarrow> (nat \<times> bytes \<times> bytes) option" where
  "BytesToKey keyLen ivLen md dat rounds key iv =
     (if dat = [] then Some (0, key, iv)
      else (case btk_loop md dat rounds [] keyLen ivLen [] [] of
              None \<Rightarrow> None
            | Some (key, iv) \<Rightarrow> Some (keyLen, key, iv)))"

definition time_diff :: "int \<times> int \<Rightarrow> int \<times> int \<Rightarrow> int" where
  "time_diff end start = (fst end - fst start) * 1000 * 1000 + (snd end - snd start)"

text \<open>
  \<open>TimedPBKDF2\<close>, from the \<open>n\<close>-th reading of the clock: \<open>Some None\<close> is the failure
  code \<open>-1\<close>.  The estimate is computed in \<open>double\<close>; below \<open>2 ^ 53\<close> it is the quotient
  rounded towards zero, which \<open>cdiv\<close> is.
\<close>

partial_function (option) TimedPBKDF2_loop ::
  "evp \<Rightarrow> bytes \<Rightarrow> bytes \<Rightarrow> nat \<Rightarrow> int \<Rightarrow> nat \<Rightarrow> int \<Rightarrow> (int \<times> bytes) option option" where
  "TimedPBKDF2_loop e pass salt keylen desiredPDFTime n iter =
     (case evp_pbkdf2 e pass salt iter keylen of
        None \<Rightarrow> Some None
      | Some out \<Rightarrow>
          (let delta = time_diff (evp_time e (n + 1)) (evp_time e n)
           in if delta < cdiv desiredPDFTime 8
              then TimedPBKDF2_loop e pass salt keylen desiredPDFTime (n + 2) (iter * 4)
              else if delta < cdiv (5 * desiredPDFTime) 6
              then TimedPBKDF2_loop e pass salt keylen desiredPDFTime (n + 2)
                     (cdiv (iter * desiredPDFTime) delta)
              else Some (Some (iter, out))))"

definition TimedPBKDF2 ::
  "evp \<Rightarrow> bytes \<Rightarrow> bytes \<Rightarrow> nat \<Rightarrow> int \<Rightarrow> (int \<times> bytes) option option" where
  "TimedPBKDF2 e pass salt keylen desiredPDFTime =
     TimedPBKDF2_loop e pass salt keylen desiredPDFTime 0 1000"

subsection \<open>Keys and ciphers\<close>

text \<open>
  \<open>SSLKey\<close>: the buffer holds the key followed by the IV; the contexts hold what
  \<open>initKey\<close> put into them: the cipher and the key bytes, and the HMAC key.
\<close>

record sslkey =
  sk_keySize :: nat
  sk_ivLength :: nat
  sk_buffer :: bytes
  sk_block :: "(evp_cipher \<times> bytes) option"
  sk_stream :: "(evp_cipher \<times> bytes) option"
  sk_mac :: bytes

definition SSLKey_new :: "nat \<Rightarrow> nat \<Rightarrow> sslkey" where
  "SSLKey_new keySize ivLength =
     \<lparr>sk_keySize = keySize, sk_ivLength = ivLength, sk_buffer = replicate (keySize + ivLength) 0,
      sk_block = None, sk_stream = None, sk_mac = []\<rparr>"

definition IVData :: "sslkey \<Rightarrow> bytes" where
  "IVData key = drop (sk_keySize key) (sk_buffer key)"

definition initKey :: "sslkey \<Rightarrow> evp_cipher \<Rightarrow> evp_cipher \<Rightarrow> nat \<Rightarrow> sslkey" where
  "initKey key blockCipher streamCipher keySize =
     key\<lparr>sk_block := Some (blockCipher, take keySize (sk_buffer key)),
         sk_stream := Some (streamCipher, take keySize (sk_buffer key)),
         sk_mac := take keySize (sk_buffer key)\<rparr>"

record sslcipher =
  sc_iface :: interface
  sc_realIface :: interface
  sc_blockCipher :: evp_cipher
  sc_streamCipher :: evp_cipher
  sc_keySize :: nat
  sc_ivLength :: nat

definition SSL_Cipher_new ::
  "evp \<Rightarrow> interface \<Rightarrow> interface \<Rightarrow> evp_cipher \<Rightarrow> evp_cipher \<Rightarrow> nat \<Rightarrow> sslcipher res" where
  "SSL_Cipher_new e iface realIface blockCipher streamCipher keySize =
     (let ivLength = evp_iv_length e blockCipher in
      rbind (rAssert (ivLength = 8 \<or> ivLength = 16)) (\<lambda>_.
      Inr \<lparr>sc_iface = iface, sc_realIface = realIface, sc_blockCipher = blockCipher,
           sc_streamCipher = streamCipher, sc_keySize = keySize, sc_ivLength = ivLength\<rparr>))"

definition BlowfishInterface :: interface where
  "BlowfishInterface = Interface (lit ''ssl/blowfish'') 3 0 2"

definition AESInterface :: interface where
  "AESInterface = Interface (lit ''ssl/aes'') 3 0 2"

definition BFKeyRange :: range where "BFKeyRange = Range_new 128 256 32"
definition BFBlockRange :: range where "BFBlockRange = Range_new 64 4096 8"
definition AESKeyRange :: range where "AESKeyRange = Range_new 128 256 64"
definition AESBlockRange :: range where "AESBlockRange = Range_new 64 4096 16"

definition NewBFCipher :: "evp \<Rightarrow> interface \<Rightarrow> int \<Rightarrow> sslcipher res" where
  "NewBFCipher e iface keyLen =
     (let keyLen = (if keyLen \<le> 0 then 160 else keyLen)
      in case range_closest BFKeyRange keyLen of
           None \<Rightarrow> Inl Diverges
         | Some keyLen \<Rightarrow>
             SSL_Cipher_new e iface BlowfishInterface EVP_bf_cbc EVP_bf_cfb (nat (cdiv keyLen 8)))"

definition NewAESCipher :: "evp \<Rightarrow> interface \<Rightarrow> int \<Rightarrow> sslcipher res" where
  "NewAESCipher e iface keyLen =
     (let keyLen = (if keyLen \<le> 0 then 192 else keyLen)
      in case range_closest AESKeyRange keyLen of
           None \<Rightarrow> Inl Diverges
         | Some keyLen \<Rightarrow>
             (let (blockCipher, streamCipher) =
                (if keyLen = 128 then (EVP_aes_128_cbc, EVP_aes_128_cfb)
                 else if keyLen = 192 then (EVP_aes_192_cbc, EVP_aes_192_cfb)
                 else (EVP_aes_256_cbc, EVP_aes_256_cfb))
              in SSL_Cipher_new e iface AESInterface blockCipher streamCipher (nat (cdiv keyLen 8))))"

text \<open>\<open>newKey\<close> with PBKDF2: the iteration count is an in/out argument.\<close>

definition ssl_newKey ::
  "evp \<Rightarrow> sslcipher \<Rightarrow> bytes \<Rightarrow> int \<Rightarrow> int \<Rightarrow> bytes \<Rightarrow> (sslkey option \<times> int) res" where
  "ssl_newKey e sc password iterationCount desiredDuration salt =
     (let key = SSLKey_new (sc_keySize sc) (sc_ivLength sc);
          n = sc_keySize sc + sc_ivLength sc;
          done = (\<lambda>k. initKey (key\<lparr>sk_buffer := k\<rparr>) (sc_blockCipher sc) (sc_streamCipher sc) (sc_keySize sc))
      in if iterationCount = 0
         then (case TimedPBKDF2 e password salt n (1000 * desiredDuration) of
                 None \<Rightarrow> Inl Diverges
               | Some None \<Rightarrow> Inr (None, iterationCount)
               | Some (Some (res, k)) \<Rightarrow>
                   if res \<le> 0 then Inr (None, iterationCount) else Inr (Some (done k), res))
         else (case evp_pbkdf2 e password salt iterationCount n of
                 None \<Rightarrow> Inr (None, iterationCount)
               | Some k \<Rightarrow> Inr (Some (done k), iterationCount)))"

definition ssl_newKey_old :: "evp \<Rightarrow> sslcipher \<Rightarrow> bytes \<Rightarrow> sslkey option res" where
  "ssl_newKey_old e sc password =
     (let key = SSLKey_new (sc_keySize sc) (sc_ivLength sc);
          done = (\<lambda>k iv. initKey (key\<lparr>sk_buffer := overlay (sc_keySize sc) iv (overlay 0 k (sk_buffer key))\<rparr>)
                           (sc_blockCipher sc) (sc_streamCipher sc) (sc_keySize sc))
      in if iface_current (sc_iface sc) > 1
         then (case BytesToKey (sc_keySize sc) (sc_ivLength sc) (evp_sha1 e) password 16
                      (take (sc_keySize sc) (sk_buffer key)) (IVData key) of
                 None \<Rightarrow> Inl Diverges
               | Some (bytes, k, iv) \<Rightarrow> Inr (Some (done k iv)))
         else (case evp_BytesToKey e (sc_blockCipher sc) password 16 of
                 (k, iv) \<Rightarrow> Inr (Some (done k iv))))"

definition ssl_randomize :: "evp \<Rightarrow> nat \<Rightarrow> bool \<Rightarrow> nat \<Rightarrow> bool \<times> bytes" where
  "ssl_randomize e len strongRandom i =
     (case evp_rand e strongRandom len i of (result, buf) \<Rightarrow> (result = 1, buf))"

definition ssl_newRandomKey :: "evp \<Rightarrow> sslcipher \<Rightarrow> nat \<Rightarrow> sslkey option res" where
  "ssl_newRandomKey e sc i =
     (case (ssl_randomize e 32 True i, ssl_randomize e 20 True (i + 1)) of
        ((ok1, tmpBuf), (ok2, saltBuf)) \<Rightarrow>
          if \<not> ok1 \<or> \<not> ok2 then Inr None
          else (case evp_pbkdf2 e tmpBuf saltBuf 1000 (sc_keySize sc + sc_ivLength sc) of
                  None \<Rightarrow> Inr None
                | Some k \<Rightarrow>
                    Inr (Some (initKey ((SSLKey_new (sc_keySize sc) (sc_ivLength sc))\<lparr>sk_buffer := k\<rparr>)
                                 (sc_blockCipher sc) (sc_streamCipher sc) (sc_keySize sc)))))"

subsection \<open>The MAC\<close>

text \<open>The eight bytes of a 64-bit value, low byte first.\<close>

definition le_bytes64 :: "u64 \<Rightarrow> bytes" where
  "le_bytes64 v = map (\<lambda>i. ucast (drop_bit (8 * i) v)) [0..<8]"

definition fold_md :: "bytes \<Rightarrow> bytes" where
  "fold_md md = fold (\<lambda>i h. h[i mod 8 := h ! (i mod 8) XOR md ! i]) [0..<length md - 1] (replicate 8 0)"

definition be_value64 :: "bytes \<Rightarrow> u64" where
  "be_value64 h = fold (\<lambda>x value. push_bit 8 value OR ucast x) (tl h) (ucast (h ! 0))"

definition checksum_64 :: "evp \<Rightarrow> sslkey \<Rightarrow> bytes \<Rightarrow> u64 option \<Rightarrow> u64 res" where
  "checksum_64 e key dat chainedIV =
     rbind (rAssert (length dat > 0)) (\<lambda>_.
     let md = evp_hmac_sha1 e (sk_mac key)
                (dat @ (case chainedIV of None \<Rightarrow> [] | Some tmp \<Rightarrow> le_bytes64 tmp))
     in rbind (rAssert (length md \<ge> 8)) (\<lambda>_. Inr (be_value64 (fold_md md))))"

definition ssl_MAC_64 :: "evp \<Rightarrow> bytes \<Rightarrow> sslkey \<Rightarrow> u64 option \<Rightarrow> (u64 \<times> u64 option) res" where
  "ssl_MAC_64 e dat key chainedIV =
     rbind (checksum_64 e key dat chainedIV) (\<lambda>tmp.
     Inr (tmp, case chainedIV of None \<Rightarrow> None | Some _ \<Rightarrow> Some tmp))"

subsection \<open>Initialisation vectors\<close>

definition setIVec_old :: "sslcipher \<Rightarrow> u32 \<Rightarrow> sslkey \<Rightarrow> bytes" where
  "setIVec_old sc seed key =
     (let var1 = 0x060a4011 * seed;
          var2 = 0x0221040d * (seed XOR 0xD3FEA11C);
          b = (\<lambda>(v :: u32) s. ucast (drop_bit s v AND 0xff) :: byte);
          ivec = take (sc_ivLength sc) (IVData key);
          x = [b var1 24, b var2 16, b var1 8, b var2 0, b var2 24, b var1 16, b var2 8, b var1 0]
              @ (if sc_ivLength sc > 8
                 then [b var1 0, b var2 8, b var1 16, b var2 24, b var1 24, b var2 16, b var1 8, b var2 0]
                 else [])
      in map2 (XOR) ivec x)"

definition setIVec :: "evp \<Rightarrow> sslcipher \<Rightarrow> u64 \<Rightarrow> sslkey \<Rightarrow> bytes res" where
  "setIVec e sc seed key =
     (if iface_current (sc_iface sc) \<ge> 3
      then (let ivec = take (sc_ivLength sc) (IVData key);
                md = evp_hmac_sha1 e (sk_mac key) (ivec @ le_bytes64 seed)
            in rbind (rAssert (length md \<ge> sc_ivLength sc)) (\<lambda>_. Inr (take (sc_ivLength sc) md)))
      else Inr (setIVec_old sc (ucast seed) key))"

subsection \<open>Stream and block coding\<close>

function flipBytes :: "bytes \<Rightarrow> bytes" where
  "flipBytes buf =
     (if buf = [] then []
      else (let toFlip = min 64 (length buf)
            in rev (take toFlip buf) @ flipBytes (drop toFlip buf)))"
  by pat_completeness auto
termination by (relation "measure length") auto

declare flipBytes.simps [simp del]

definition shuffleBytes :: "bytes \<Rightarrow> bytes" where
  "shuffleBytes buf = fold (\<lambda>i buf. buf[i + 1 := buf ! (i + 1) XOR buf ! i]) [0..<length buf - 1] buf"

definition unshuffleBytes :: "bytes \<Rightarrow> bytes" where
  "unshuffleBytes buf = fold (\<lambda>i buf. buf[i := buf ! i XOR buf ! (i - 1)]) (rev [1..<length buf]) buf"

definition ssl_checkKey :: "sslcipher \<Rightarrow> sslkey \<Rightarrow> unit res" where
  "ssl_checkKey sc key =
     rbind (rAssert (sk_keySize key = sc_keySize sc)) (\<lambda>_. rAssert (sk_ivLength key = sc_ivLength sc))"

definition ctx_encrypt :: "evp \<Rightarrow> (evp_cipher \<times> bytes) option \<Rightarrow> bytes \<Rightarrow> bytes \<Rightarrow> bytes" where
  "ctx_encrypt e ctx ivec buf =
     (case ctx of None \<Rightarrow> buf | Some (c, k) \<Rightarrow> evp_encrypt e c k ivec buf)"

definition ctx_decrypt :: "evp \<Rightarrow> (evp_cipher \<times> bytes) option \<Rightarrow> bytes \<Rightarrow> bytes \<Rightarrow> bytes" where
  "ctx_decrypt e ctx ivec buf =
     (case ctx of None \<Rightarrow> buf | Some (c, k) \<Rightarrow> evp_decrypt e c k ivec buf)"

definition ssl_streamEncode ::
  "evp \<Rightarrow> sslcipher \<Rightarrow> bytes \<Rightarrow> u64 \<Rightarrow> sslkey \<Rightarrow> (bool \<times> bytes) res" where
  "ssl_streamEncode e sc buf iv64 key =
     rbind (rAssert (length buf > 0)) (\<lambda>_.
     rbind (ssl_checkKey sc key) (\<lambda>_.
     let buf = shuffleBytes buf in
     rbind (setIVec e sc iv64 key) (\<lambda>ivec.
     let buf = ctx_encrypt e (sk_stream key) ivec buf;
         buf = flipBytes buf;
         buf = shuffleBytes buf in
     rbind (setIVec e sc (iv64 + 1) key) (\<lambda>ivec.
     let buf = ctx_encrypt e (sk_stream key) ivec buf in
     Inr (True, buf)))))"

definition ssl_streamDecode ::
  "evp \<Rightarrow> sslcipher \<Rightarrow> bytes \<Rightarrow> u64 \<Rightarrow> sslkey \<Rightarrow> (bool \<times> bytes) res" where
  "ssl_streamDecode e sc buf iv64 key =
     rbind (rAssert (length buf > 0)) (\<lambda>_.
     rbind (ssl_checkKey sc key) (\<lambda>_.
     rbind (setIVec e sc (iv64 + 1) key) (\<lambda>ivec.
     let buf = ctx_decrypt e (sk_stream key) ivec buf;
         buf = unshuffleBytes buf;
         buf = flipBytes buf in
     rbind (setIVec e sc iv64 key) (\<lambda>ivec.
     let buf = ctx_decrypt e (sk_stream key) ivec buf;
         buf = unshuffleBytes buf in
     Inr (True, buf)))))"

definition ctx_block_size :: "evp \<Rightarrow> (evp_cipher \<times> bytes) option \<Rightarrow> nat" where
  "ctx_block_size e ctx = (case ctx of None \<Rightarrow> 1 | Some (c, k) \<Rightarrow> evp_block_size e c)"

definition ssl_blockEncode ::
  "evp \<Rightarrow> sslcipher \<Rightarrow> bytes \<Rightarrow> u64 \<Rightarrow> sslkey \<Rightarrow> (bool \<times> bytes) res" where
  "ssl_blockEncode e sc buf iv64 key =
     rbind (rAssert (length buf > 0)) (\<lambda>_.
     rbind (ssl_checkKey sc key) (\<lambda>_.
     if length buf mod ctx_block_size e (sk_block key) \<noteq> 0 then Inl BadDataSize
     else rbind (setIVec e sc iv64 key) (\<lambda>ivec.
          Inr (True, ctx_encrypt e (sk_block key) ivec buf))))"

definition ssl_blockDecode ::
  "evp \<Rightarrow> sslcipher \<Rightarrow> bytes \<Rightarrow> u64 \<Rightarrow> sslkey \<Rightarrow> (bool \<times> bytes) res" where
  "ssl_blockDecode e sc buf iv64 key =
     rbind (rAssert (length buf > 0)) (\<lambda>_.
     rbind (ssl_checkKey sc key) (\<lambda>_.
     if length buf mod ctx_block_size e (sk_block key) \<noteq> 0 then Inl BadDataSize
     else rbind (setIVec e sc iv64 key) (\<lambda>ivec.
          Inr (True, ctx_decrypt e (sk_block key) ivec buf))))"

subsection \<open>Storing keys\<close>

definition ssl_mac32 :: "evp \<Rightarrow> bytes \<Rightarrow> sslkey \<Rightarrow> u32 res" where
  "ssl_mac32 e dat key = rbind (ssl_MAC_64 e dat key None) (\<lambda>(m, _). Inr (mac32_of m))"

definition ssl_readKey ::
  "evp \<Rightarrow> sslcipher \<Rightarrow> bytes \<Rightarrow> sslkey \<Rightarrow> bool \<Rightarrow> sslkey option res" where
  "ssl_readKey e sc dat masterKey checkKey =
     rbind (rAssert (sk_keySize masterKey = sc_keySize sc)) (\<lambda>_.
     let n = sc_keySize sc + sc_ivLength sc;
         checksum = fold (\<lambda>x checksum. push_bit 8 checksum OR ucast x) (take 4 dat) (0 :: u32);
         tmpBuf = take n (drop 4 dat) in
     rbind (ssl_streamDecode e sc tmpBuf (ucast checksum) masterKey) (\<lambda>(_, tmpBuf).
     rbind (ssl_mac32 e tmpBuf masterKey) (\<lambda>checksum2.
     if checksum2 \<noteq> checksum \<and> checkKey then Inr None
     else Inr (Some (initKey ((SSLKey_new (sc_keySize sc) (sc_ivLength sc))\<lparr>sk_buffer := tmpBuf\<rparr>)
                       (sc_blockCipher sc) (sc_streamCipher sc) (sc_keySize sc))))))"

definition ssl_writeKey :: "evp \<Rightarrow> sslcipher \<Rightarrow> sslkey \<Rightarrow> bytes \<Rightarrow> sslkey \<Rightarrow> bytes res" where
  "ssl_writeKey e sc key dat masterKey =
     rbind (ssl_checkKey sc key) (\<lambda>_.
     rbind (ssl_checkKey sc masterKey) (\<lambda>_.
     let bufLen = sc_keySize sc + sc_ivLength sc;
         tmpBuf = take bufLen (sk_buffer key) in
     rbind (ssl_mac32 e tmpBuf masterKey) (\<lambda>checksum.
     rbind (ssl_streamEncode e sc tmpBuf (ucast checksum) masterKey) (\<lambda>(_, tmpBuf).
     let dat = overlay 4 tmpBuf dat in
     Inr (overlay 0 [ucast (drop_bit 24 checksum AND 0xff), ucast (drop_bit 16 checksum AND 0xff),
                     ucast (drop_bit 8 checksum AND 0xff), ucast (checksum AND 0xff)] dat)))))"

definition ssl_compareKey :: "sslcipher \<Rightarrow> sslkey \<Rightarrow> sslkey \<Rightarrow> bool res" where
  "ssl_compareKey sc key1 key2 =
     rbind (rAssert (sk_keySize key1 = sc_keySize sc)) (\<lambda>_.
     rbind (rAssert (sk_keySize key2 = sc_keySize sc)) (\<lambda>_.
     let n = sc_keySize sc + sc_ivLength sc
     in Inr (take n (sk_buffer key1) = take n (sk_buffer key2))))"

definition SSL_Cipher :: "evp \<Rightarrow> sslcipher \<Rightarrow> sslkey cipher" where
  "SSL_Cipher e sc =
     \<lparr>vt_Interface = sc_realIface sc,
      vt_newKey = ssl_newKey e sc,
      vt_newKey_old = ssl_newKey_old e sc,
      vt_newRandomKey = ssl_newRandomKey e sc,
      vt_readKey = ssl_readKey e sc,
      vt_writeKey = ssl_writeKey e sc,
      vt_compareKey = ssl_compareKey sc,
      vt_keySize = sc_keySize sc,
      vt_encodedKeySize = sc_keySize sc + sc_ivLength sc + 4,
      vt_cipherBlockSize = evp_block_size e (sc_blockCipher sc),
      vt_randomize = ssl_randomize e,
      vt_MAC_64 = ssl_MAC_64 e,
      vt_streamEncode = ssl_streamEncode e sc,
      vt_streamDecode = ssl_streamDecode e sc,
      vt_blockEncode = ssl_blockEncode e sc,
      vt_blockDecode = ssl_blockDecode e sc\<rparr>"

subsection \<open>Shuffling and flipping\<close>

lemma fold_inverse:
  assumes "\<And>i b. i \<in> set xs \<Longrightarrow> length b = n \<Longrightarrow> length (f i b) = n \<and> g i (f i b) = b"
    and "length b = n"
  shows "fold g (rev xs) (fold f xs b) = b \<and> length (fold f xs b) = n"
  using assms
proof (induction xs arbitrary: b)
  case (Cons x xs)
  then have "fold g (rev xs) (fold f xs (f x b)) = f x b \<and> length (fold f xs (f x b)) = n" by simp
  then show ?case using Cons(2) [of x b] Cons(3) by simp
qed simp

lemma unshuffle_steps:
  "unshuffleBytes buf = fold (\<lambda>i buf. buf[i + 1 := buf ! (i + 1) XOR buf ! i]) (rev [0..<length buf - 1]) buf"
proof -
  have "[1..<length buf] = map Suc [0..<length buf - 1]"
    by (cases "length buf") (simp_all add: map_Suc_upt)
  then show ?thesis by (simp add: unshuffleBytes_def rev_map fold_map comp_def)
qed

lemma shuffle_step_inverse:
  fixes b :: bytes
  shows "i + 1 < length b \<Longrightarrow>
     (b[i + 1 := b ! (i + 1) XOR b ! i])
       [i + 1 := (b[i + 1 := b ! (i + 1) XOR b ! i]) ! (i + 1) XOR (b[i + 1 := b ! (i + 1) XOR b ! i]) ! i] = b"
  by (rule nth_equalityI) (auto simp: nth_list_update xor.assoc)

lemma length_shuffleBytes [simp]: "length (shuffleBytes buf) = length buf"
  unfolding shuffleBytes_def
  by (rule fold_invariant [where P = "\<lambda>b. length b = length buf" and Q = "\<lambda>_. True"]) auto

lemma length_unshuffleBytes [simp]: "length (unshuffleBytes buf) = length buf"
  unfolding unshuffleBytes_def
  by (rule fold_invariant [where P = "\<lambda>b. length b = length buf" and Q = "\<lambda>_. True"]) auto

lemma unshuffle_shuffle [simp]: "unshuffleBytes (shuffleBytes buf) = buf"
proof -
  let ?f = "\<lambda>i (buf :: bytes). buf[i + 1 := buf ! (i + 1) XOR buf ! i]"
  have "fold ?f (rev [0..<length buf - 1]) (fold ?f [0..<length buf - 1] buf) = buf \<and>
        length (fold ?f [0..<length buf - 1] buf) = length buf"
    by (rule fold_inverse) (use shuffle_step_inverse in simp_all)
  then show ?thesis
    unfolding unshuffle_steps length_shuffleBytes unfolding shuffleBytes_def by (rule conjunct1)
qed

lemma length_flipBytes [simp]: "length (flipBytes buf) = length buf"
  by (induction buf rule: flipBytes.induct) (subst flipBytes.simps, simp add: Let_def)

lemma flip_flip [simp]: "flipBytes (flipBytes buf) = buf"
proof (induction buf rule: flipBytes.induct)
  case (1 buf)
  show ?case
  proof (cases "buf = []")
    case False
    let ?n = "min 64 (length buf)"
    let ?r = "rev (take ?n buf)" and ?s = "flipBytes (drop ?n buf)"
    have f: "flipBytes buf = ?r @ ?s" using False by (subst flipBytes.simps) (simp add: Let_def)
    have n: "min 64 (length (?r @ ?s)) = ?n" "?r @ ?s \<noteq> []" using False by auto
    have "flipBytes (?r @ ?s) = rev (take ?n (?r @ ?s)) @ flipBytes (drop ?n (?r @ ?s))"
      using n by (subst flipBytes.simps) (simp only: Let_def if_False)
    also have "\<dots> = take ?n buf @ flipBytes ?s" by simp
    also have "flipBytes ?s = drop ?n buf" using 1 [OF False refl] by simp
    finally show ?thesis by (simp add: f)
  qed (simp add: flipBytes.simps)
qed

subsection \<open>The contract holds\<close>

definition ssl_ok :: "evp \<Rightarrow> sslcipher \<Rightarrow> bool" where
  "ssl_ok e sc \<longleftrightarrow> sc_ivLength sc \<le> 16 \<and> evp_stream (sc_streamCipher sc)"

definition ssl_key_ok :: "sslcipher \<Rightarrow> sslkey \<Rightarrow> bool" where
  "ssl_key_ok sc key \<longleftrightarrow>
     sk_keySize key = sc_keySize sc \<and> sk_ivLength key = sc_ivLength sc \<and>
     length (sk_buffer key) = sc_keySize sc + sc_ivLength sc \<and>
     (\<exists>k. sk_stream key = Some (sc_streamCipher sc, k)) \<and>
     (\<exists>k. sk_block key = Some (sc_blockCipher sc, k))"

lemma initKey_ok:
  "length buf = sc_keySize sc + sc_ivLength sc \<Longrightarrow>
     ssl_key_ok sc (initKey ((SSLKey_new (sc_keySize sc) (sc_ivLength sc))\<lparr>sk_buffer := buf\<rparr>)
       (sc_blockCipher sc) (sc_streamCipher sc) (sc_keySize sc))"
  by (simp add: ssl_key_ok_def initKey_def SSLKey_new_def)

lemma ssl_checkKey_ok [simp]: "ssl_key_ok sc key \<Longrightarrow> ssl_checkKey sc key = Inr ()"
  by (simp add: ssl_checkKey_def ssl_key_ok_def)

lemma setIVec_total: "evp_ok e \<Longrightarrow> ssl_ok e sc \<Longrightarrow> \<exists>iv. setIVec e sc seed key = Inr iv"
  by (auto simp: setIVec_def ssl_ok_def evp_ok_def Let_def)

lemma stream_ctx:
  assumes "evp_ok e" and "ssl_ok e sc" and "ssl_key_ok sc key"
  shows "length (ctx_encrypt e (sk_stream key) iv d) = length d"
    and "length (ctx_decrypt e (sk_stream key) iv d) = length d"
    and "ctx_decrypt e (sk_stream key) iv (ctx_encrypt e (sk_stream key) iv d) = d"
  using assms by (auto simp: ctx_encrypt_def ctx_decrypt_def evp_ok_def ssl_ok_def ssl_key_ok_def)

lemma block_ctx:
  assumes "evp_ok e" and "ssl_key_ok sc key" and "evp_block_size e (sc_blockCipher sc) dvd length d"
  shows "length (ctx_encrypt e (sk_block key) iv d) = length d"
    and "length (ctx_decrypt e (sk_block key) iv d) = length d"
    and "ctx_decrypt e (sk_block key) iv (ctx_encrypt e (sk_block key) iv d) = d"
  using assms by (auto simp: ctx_encrypt_def ctx_decrypt_def evp_ok_def ssl_key_ok_def)

lemma ctx_block_size_ok: "ssl_key_ok sc key \<Longrightarrow> ctx_block_size e (sk_block key) = evp_block_size e (sc_blockCipher sc)"
  by (auto simp: ctx_block_size_def ssl_key_ok_def)

lemma ssl_stream_enc:
  assumes ok: "evp_ok e" "ssl_ok e sc" "ssl_key_ok sc key" and d: "d \<noteq> []"
  shows "\<exists>x. ssl_streamEncode e sc d iv64 key = Inr (True, x) \<and> length x = length d \<and>
             ssl_streamDecode e sc x iv64 key = Inr (True, d)"
proof -
  obtain iv1 iv2 where iv: "setIVec e sc iv64 key = Inr iv1" "setIVec e sc (iv64 + 1) key = Inr iv2"
    using setIVec_total [OF ok(1,2)] by blast
  let ?a = "ctx_encrypt e (sk_stream key) iv1 (shuffleBytes d)"
  let ?x = "ctx_encrypt e (sk_stream key) iv2 (shuffleBytes (flipBytes ?a))"
  have "ssl_streamEncode e sc d iv64 key = Inr (True, ?x)"
    using d ok(3) iv by (simp add: ssl_streamEncode_def Let_def)
  moreover have len: "length ?x = length d" by (simp add: stream_ctx(1) [OF ok])
  moreover have "ssl_streamDecode e sc ?x iv64 key = Inr (True, d)"
    using d ok(3) iv len
    by (auto simp: ssl_streamDecode_def Let_def stream_ctx(3) [OF ok])
  ultimately show ?thesis by blast
qed

lemma ssl_stream_dec:
  assumes ok: "evp_ok e" "ssl_ok e sc" "ssl_key_ok sc key" and d: "x \<noteq> []"
  shows "\<exists>d. ssl_streamDecode e sc x iv64 key = Inr (True, d) \<and> length d = length x"
proof -
  obtain iv1 iv2 where iv: "setIVec e sc iv64 key = Inr iv1" "setIVec e sc (iv64 + 1) key = Inr iv2"
    using setIVec_total [OF ok(1,2)] by blast
  then show ?thesis
    using d ok(3) by (simp add: ssl_streamDecode_def Let_def stream_ctx(2) [OF ok])
qed

lemma ssl_mac_total:
  "evp_ok e \<Longrightarrow> d \<noteq> [] \<Longrightarrow> \<exists>m. ssl_MAC_64 e d key iv = Inr (m, map_option (\<lambda>_. m) iv)"
  by (cases iv) (auto simp: ssl_MAC_64_def checksum_64_def Let_def evp_ok_def)

lemma ssl_mac_cases: "ssl_MAC_64 e d key iv = Inr (m, iv') \<Longrightarrow> iv' = map_option (\<lambda>_. m) iv"
  by (cases iv) (auto simp: ssl_MAC_64_def rbind_Inr_iff)

text \<open>The OpenSSL cipher satisfies the contract of the name and file layers.\<close>

lemma SSL_Cipher_laws:
  assumes ok: "evp_ok e" "ssl_ok e sc"
  shows "cipher_laws (SSL_Cipher e sc) (ssl_key_ok sc)"
proof
  show "0 < vt_cipherBlockSize (SSL_Cipher e sc)"
    using ok by (simp add: SSL_Cipher_def evp_ok_def)
  show "\<exists>m iv'. vt_MAC_64 (SSL_Cipher e sc) d k iv = Inr (m, iv')"
    if "d \<noteq> []" for k d iv
    using ssl_mac_total [OF ok(1) that, of k iv] by (auto simp: SSL_Cipher_def)
  show "(iv' = None) = (iv = None)"
    if "vt_MAC_64 (SSL_Cipher e sc) d k iv = Inr (m, iv')" for d k iv m iv'
    using ssl_mac_cases [of e d k iv m iv'] that by (simp add: SSL_Cipher_def)
  show "\<exists>x. vt_streamEncode (SSL_Cipher e sc) d iv64 k = Inr (True, x) \<and> length x = length d \<and>
      vt_streamDecode (SSL_Cipher e sc) x iv64 k = Inr (True, d)"
    if "ssl_key_ok sc k" "d \<noteq> []" for k d iv64
    using ssl_stream_enc [OF ok that] by (simp add: SSL_Cipher_def)
  show "\<exists>d. vt_streamDecode (SSL_Cipher e sc) x iv64 k = Inr (True, d) \<and> length d = length x"
    if "ssl_key_ok sc k" "x \<noteq> []" for k x iv64
    using ssl_stream_dec [OF ok that] by (simp add: SSL_Cipher_def)
  show "\<exists>x. vt_blockEncode (SSL_Cipher e sc) d iv64 k = Inr (True, x) \<and> length x = length d \<and>
      vt_blockDecode (SSL_Cipher e sc) x iv64 k = Inr (True, d)"
    if "ssl_key_ok sc k" "d \<noteq> []" "vt_cipherBlockSize (SSL_Cipher e sc) dvd length d" for k d iv64
  proof -
    obtain iv where iv: "setIVec e sc iv64 k = Inr iv" using setIVec_total [OF ok] by blast
    have bs: "evp_block_size e (sc_blockCipher sc) dvd length d" using that(3) by (simp add: SSL_Cipher_def)
    note c = block_ctx [OF ok(1) that(1) bs]
    have "ctx_encrypt e (sk_block k) iv d \<noteq> []" using c(1) [of iv] that(2) by auto
    then show ?thesis
      using that bs iv by (simp add: SSL_Cipher_def ssl_blockEncode_def ssl_blockDecode_def
          ctx_block_size_ok [OF that(1)] c dvd_eq_mod_eq_0)
  qed
  show "\<exists>d. vt_blockDecode (SSL_Cipher e sc) x iv64 k = Inr (True, d) \<and> length d = length x"
    if "ssl_key_ok sc k" "x \<noteq> []" "vt_cipherBlockSize (SSL_Cipher e sc) dvd length x" for k x iv64
  proof -
    obtain iv where iv: "setIVec e sc iv64 k = Inr iv" using setIVec_total [OF ok] by blast
    have bs: "evp_block_size e (sc_blockCipher sc) dvd length x" using that(3) by (simp add: SSL_Cipher_def)
    show ?thesis
      using that bs iv by (simp add: SSL_Cipher_def ssl_blockDecode_def
          ctx_block_size_ok [OF that(1)] block_ctx(2) [OF ok(1) that(1) bs] dvd_eq_mod_eq_0)
  qed
  show "length (snd (vt_randomize (SSL_Cipher e sc) n strong i)) = n" for n strong i
    using ok(1) by (simp add: SSL_Cipher_def ssl_randomize_def evp_ok_def split: prod.splits)
      (metis snd_conv)
qed

subsection \<open>A sample instance of the OpenSSL functions\<close>

text \<open>Used to evaluate the theorems on concrete inputs.\<close>

definition sample_evp :: evp where
  "sample_evp =
     \<lparr>evp_iv_length = (\<lambda>_. 8), evp_block_size = (\<lambda>_. 8),
      evp_encrypt = (\<lambda>c k iv d. map (\<lambda>x. x + hd (iv @ [0]) + 1) d),
      evp_decrypt = (\<lambda>c k iv d. map (\<lambda>x. x - (hd (iv @ [0]) + 1)) d),
      evp_sha1 = (\<lambda>d. replicate 20 (sum_list d)),
      evp_hmac_sha1 = (\<lambda>k d. replicate 20 (sum_list (k @ d))),
      evp_pbkdf2 = (\<lambda>p s i n. Some (replicate n (sum_list (p @ s)))),
      evp_BytesToKey = (\<lambda>c d r. ([], [])),
      evp_rand = (\<lambda>s n i. (1, replicate n (of_nat i))),
      evp_time = (\<lambda>i. (0, int i))\<rparr>"

definition sample_sc :: sslcipher where
  "sample_sc = \<lparr>sc_iface = AESInterface, sc_realIface = AESInterface, sc_blockCipher = EVP_aes_128_cbc,
     sc_streamCipher = EVP_aes_128_cfb, sc_keySize = 16, sc_ivLength = 8\<rparr>"

definition sample_key :: "byte \<Rightarrow> sslkey" where
  "sample_key b = initKey ((SSLKey_new 16 8)\<lparr>sk_buffer := replicate 24 b\<rparr>) EVP_aes_128_cbc EVP_aes_128_cfb 16"

lemma sample_ok: "evp_ok sample_evp" "ssl_ok sample_evp sample_sc" "ssl_key_ok sample_sc (sample_key b)"
  by (simp_all add: evp_ok_def sample_evp_def ssl_ok_def sample_sc_def evp_stream_def ssl_key_ok_def
      sample_key_def initKey_def SSLKey_new_def comp_def)

subsection \<open>Properties\<close>

text \<open>
  C26: with OpenSSL as documented, stream coding of any non-empty data and block coding of
  whole blocks never fail, keep the length and are undone by the decoders with the same
  IV and key; block coding of anything else throws.
\<close>
theorem ssl_coding_roundtrip:
  assumes "evp_ok e" and "ssl_ok e sc" and "ssl_key_ok sc key" and "d \<noteq> []"
  shows "(\<exists>x. ssl_streamEncode e sc d iv64 key = Inr (True, x) \<and> length x = length d \<and>
              ssl_streamDecode e sc x iv64 key = Inr (True, d)) \<and>
         (if evp_block_size e (sc_blockCipher sc) dvd length d
          then \<exists>x. ssl_blockEncode e sc d iv64 key = Inr (True, x) \<and> length x = length d \<and>
                   ssl_blockDecode e sc x iv64 key = Inr (True, d)
          else ssl_blockEncode e sc d iv64 key = Inl BadDataSize \<and>
               ssl_blockDecode e sc d iv64 key = Inl BadDataSize)"
proof (cases "evp_block_size e (sc_blockCipher sc) dvd length d")
  case True
  then show ?thesis
    using cipher_laws.block_enc [OF SSL_Cipher_laws [OF assms(1,2)] assms(3,4), of iv64]
      ssl_stream_enc [OF assms] by (simp add: SSL_Cipher_def)
next
  case False
  then show ?thesis
    using ssl_stream_enc [OF assms] assms(3,4)
    by (simp add: ssl_blockEncode_def ssl_blockDecode_def ctx_block_size_ok dvd_eq_mod_eq_0)
qed

theorem ssl_coding_roundtrip_witness:
  "\<exists>x. ssl_streamEncode sample_evp sample_sc [1, 2, 3] 5 (sample_key 7) = Inr (True, x) \<and> length x = 3 \<and>
       ssl_streamDecode sample_evp sample_sc x 5 (sample_key 7) = Inr (True, [1, 2, 3])"
  using ssl_coding_roundtrip [OF sample_ok(1,2,3), of "[1, 2, 3]" 5 7, THEN conjunct1] by (simp add: numeral_3_eq_3)

text \<open>
  the byte passes of the stream coding are inverse to each other: unshuffling undoes
  shuffling, and flipping (in chunks of 64 bytes) is its own inverse.
\<close>
theorem shuffle_flip_inverse:
  "unshuffleBytes (shuffleBytes buf) = buf \<and> flipBytes (flipBytes buf) = buf \<and>
   length (shuffleBytes buf) = length buf \<and> length (flipBytes buf) = length buf"
  by simp

lemma be_bytes32:
  "fold (\<lambda>x checksum. push_bit 8 checksum OR ucast x)
     [ucast (drop_bit 24 w AND 0xff) :: byte, ucast (drop_bit 16 w AND 0xff),
      ucast (drop_bit 8 w AND 0xff), ucast (w AND 0xff)] 0 = (w :: u32)"
proof -
  have ff: "(0xff :: u32) = mask 8" by (simp add: mask_eq_decr_exp)
  show ?thesis unfolding ff
  proof (rule bit_word_eqI, goal_cases)
    case (1 n)
    then show ?case by (cases "n < 16"; cases "n < 24") (auto simp: bit_simps)
  qed
qed

lemma ssl_mac32_total: "evp_ok e \<Longrightarrow> d \<noteq> [] \<Longrightarrow> \<exists>m. ssl_mac32 e d key = Inr m"
  using ssl_mac_total [of e d key None] by (auto simp: ssl_mac32_def)

lemma ssl_key_stored:
  assumes "evp_ok e" and "ssl_ok e sc" and "ssl_key_ok sc key" and "ssl_key_ok sc masterKey"
    and "0 < sc_keySize sc" and "length dat = vt_encodedKeySize (SSL_Cipher e sc)"
  shows "\<exists>out. ssl_writeKey e sc key dat masterKey = Inr out \<and> length out = length dat \<and>
           ssl_readKey e sc out masterKey check =
             Inr (Some (initKey ((SSLKey_new (sc_keySize sc) (sc_ivLength sc))\<lparr>sk_buffer := sk_buffer key\<rparr>)
               (sc_blockCipher sc) (sc_streamCipher sc) (sc_keySize sc)))"
proof -
  let ?n = "sc_keySize sc + sc_ivLength sc"
  let ?t = "sk_buffer key"
  have t: "take ?n ?t = ?t" "?t \<noteq> []" "length ?t = ?n"
    using assms(3,5) by (auto simp: ssl_key_ok_def)
  obtain m where m: "ssl_mac32 e ?t masterKey = Inr m"
    using ssl_mac32_total [OF assms(1) t(2)] by blast
  obtain x where x: "ssl_streamEncode e sc ?t (ucast m) masterKey = Inr (True, x)" "length x = ?n"
      "ssl_streamDecode e sc x (ucast m) masterKey = Inr (True, ?t)"
    using ssl_stream_enc [OF assms(1,2,4) t(2), of "ucast m"] t(3) by auto
  let ?h = "[ucast (drop_bit 24 m AND 0xff) :: byte, ucast (drop_bit 16 m AND 0xff),
      ucast (drop_bit 8 m AND 0xff), ucast (m AND 0xff)]"
  have dat: "length dat = 4 + ?n" using assms(6) by (simp add: SSL_Cipher_def)
  have out: "overlay 0 ?h (overlay 4 x dat) = ?h @ x"
    using dat x(2) by (simp add: overlay_def)
  have "ssl_writeKey e sc key dat masterKey = Inr (?h @ x)"
    using assms(3,4) t(1) m x(1) out by (simp add: ssl_writeKey_def Let_def)
  moreover let ?key' = "initKey ((SSLKey_new (sc_keySize sc) (sc_ivLength sc))\<lparr>sk_buffer := ?t\<rparr>)
      (sc_blockCipher sc) (sc_streamCipher sc) (sc_keySize sc)"
  have "ssl_readKey e sc (?h @ x) masterKey check = Inr (Some ?key')"
  proof -
    have "take 4 (?h @ x) = ?h" "take ?n (drop 4 (?h @ x)) = x"
      using x(2) by simp_all
    moreover have "sk_keySize masterKey = sc_keySize sc" using assms(4) by (simp add: ssl_key_ok_def)
    ultimately show ?thesis
      unfolding ssl_readKey_def Let_def by (simp only: be_bytes32 x(3)) (simp add: m)
  qed
  ultimately show ?thesis using dat x(2) by auto
qed

text \<open>
  C25: a key stored under a master key is read back from the stored bytes: the same key
  and IV bytes, with working contexts, equal to the original for \<open>compareKey\<close>; the
  buffer keeps its length and the check on the stored checksum passes.
\<close>
theorem ssl_key_roundtrip:
  assumes "evp_ok e" and "ssl_ok e sc" and "ssl_key_ok sc key" and "ssl_key_ok sc masterKey"
    and "0 < sc_keySize sc" and "length dat = vt_encodedKeySize (SSL_Cipher e sc)"
  shows "\<exists>out key'. ssl_writeKey e sc key dat masterKey = Inr out \<and> length out = length dat \<and>
           ssl_readKey e sc out masterKey check = Inr (Some key') \<and>
           sk_buffer key' = sk_buffer key \<and> ssl_key_ok sc key' \<and>
           ssl_compareKey sc key key' = Inr True"
proof -
  let ?key' = "initKey ((SSLKey_new (sc_keySize sc) (sc_ivLength sc))\<lparr>sk_buffer := sk_buffer key\<rparr>)
      (sc_blockCipher sc) (sc_streamCipher sc) (sc_keySize sc)"
  have "ssl_key_ok sc ?key'" using assms(3) by (intro initKey_ok) (simp add: ssl_key_ok_def)
  moreover have "ssl_compareKey sc key ?key' = Inr True"
    using assms(3) by (simp add: ssl_compareKey_def ssl_key_ok_def initKey_def SSLKey_new_def Let_def)
  ultimately show ?thesis
    using ssl_key_stored [OF assms, of check] by (auto simp: initKey_def)
qed

theorem ssl_key_roundtrip_witness:
  "\<exists>out key'. ssl_writeKey sample_evp sample_sc (sample_key 3) (replicate 28 0) (sample_key 9) = Inr out \<and>
     length out = length (replicate 28 (0 :: byte)) \<and>
     ssl_readKey sample_evp sample_sc out (sample_key 9) True = Inr (Some key') \<and>
     sk_buffer key' = sk_buffer (sample_key 3) \<and> ssl_key_ok sample_sc key' \<and>
     ssl_compareKey sample_sc (sample_key 3) key' = Inr True"
  by (rule ssl_key_roundtrip) (simp_all add: sample_ok SSL_Cipher_def, simp_all add: sample_sc_def)

text \<open>
  C28: a stored key is accepted only when the checksum in its first four bytes is the MAC,
  under the master key, of the bytes it decrypts to; any other stored key gives the null
  key (a wrong password), unless the check is switched off.
\<close>
theorem ssl_readKey_checks:
  assumes "evp_ok e" and "ssl_ok e sc" and "ssl_key_ok sc masterKey"
    and "0 < sc_keySize sc" and "length dat = vt_encodedKeySize (SSL_Cipher e sc)"
  shows "\<exists>plain mac. let stored = fold (\<lambda>x v. push_bit 8 v OR ucast x) (take 4 dat) (0 :: u32) in
           ssl_streamDecode e sc (drop 4 dat) (ucast stored) masterKey = Inr (True, plain) \<and>
           ssl_mac32 e plain masterKey = Inr mac \<and>
           (if mac = stored \<or> \<not> check
            then \<exists>key. ssl_readKey e sc dat masterKey check = Inr (Some key) \<and>
                       sk_buffer key = plain \<and> ssl_key_ok sc key
            else ssl_readKey e sc dat masterKey check = Inr None)"
proof -
  let ?n = "sc_keySize sc + sc_ivLength sc"
  let ?s = "fold (\<lambda>x v. push_bit 8 v OR ucast x) (take 4 dat) (0 :: u32)"
  have dat: "length dat = 4 + ?n" using assms(5) by (simp add: SSL_Cipher_def)
  then have d4: "take ?n (drop 4 dat) = drop 4 dat" "drop 4 dat \<noteq> []" using assms(4) by auto
  obtain plain where p: "ssl_streamDecode e sc (drop 4 dat) (ucast ?s) masterKey = Inr (True, plain)"
      "length plain = ?n"
    using ssl_stream_dec [OF assms(1-3) d4(2), of "ucast ?s"] dat by auto
  then have "plain \<noteq> []" using assms(4) by auto
  then obtain mac where m: "ssl_mac32 e plain masterKey = Inr mac"
    using ssl_mac32_total [OF assms(1)] by blast
  have ks: "sk_keySize masterKey = sc_keySize sc" using assms(3) by (simp add: ssl_key_ok_def)
  have eq: "ssl_readKey e sc dat masterKey check =
      (if mac \<noteq> ?s \<and> check then Inr None
       else Inr (Some (initKey ((SSLKey_new (sc_keySize sc) (sc_ivLength sc))\<lparr>sk_buffer := plain\<rparr>)
                       (sc_blockCipher sc) (sc_streamCipher sc) (sc_keySize sc))))"
    unfolding ssl_readKey_def Let_def d4(1) by (simp add: ks p(1) m)
  show ?thesis
    unfolding Let_def eq using p m initKey_ok [of plain sc]
    by (intro exI [of _ plain] exI [of _ mac]) (auto simp: initKey_def)
qed

theorem ssl_readKey_checks_witness:
  "\<exists>plain mac. let stored = fold (\<lambda>x v. push_bit 8 v OR ucast x) (take 4 (replicate 28 1 :: bytes)) (0 :: u32) in
     ssl_streamDecode sample_evp sample_sc (drop 4 (replicate 28 1)) (ucast stored) (sample_key 9) = Inr (True, plain) \<and>
     ssl_mac32 sample_evp plain (sample_key 9) = Inr mac \<and>
     (if mac = stored \<or> \<not> True
      then \<exists>key. ssl_readKey sample_evp sample_sc (replicate 28 1) (sample_key 9) True = Inr (Some key) \<and>
                 sk_buffer key = plain \<and> ssl_key_ok sample_sc key
      else ssl_readKey sample_evp sample_sc (replicate 28 1) (sample_key 9) True = Inr None)"
  by (rule ssl_readKey_checks) (simp_all add: sample_ok SSL_Cipher_def, simp_all add: sample_sc_def)

text \<open>The chain of digests from which \<open>BytesToKey\<close> takes its bytes.\<close>

fun btk_chain :: "(bytes \<Rightarrow> bytes) \<Rightarrow> bytes \<Rightarrow> nat \<Rightarrow> bytes \<Rightarrow> nat \<Rightarrow> bytes" where
  "btk_chain md dat rounds prev 0 = []"
| "btk_chain md dat rounds prev (Suc n) =
     (let d = (md ^^ rounds) (prev @ dat) in d @ btk_chain md dat rounds d n)"

lemma length_md_pow:
  fixes md :: "bytes \<Rightarrow> bytes"
  shows "(\<And>d. length (md d) = L) \<Longrightarrow> 0 < n \<Longrightarrow> length ((md ^^ n) d) = L"
  by (cases n) auto

lemma btk_loop_chain:
  assumes L: "\<And>d. length (md d) = L" and r: "0 < rounds"
    and n: "nkey + niv \<le> Suc n * L"
  shows "btk_loop md dat rounds prev nkey niv key iv =
     (let S = btk_chain md dat rounds prev (Suc n)
      in Some (key @ take nkey S, iv @ take niv (drop nkey S)))"
  using n
proof (induction n arbitrary: prev nkey niv key iv)
  case 0
  let ?d = "(md ^^ rounds) (prev @ dat)"
  have d: "(md ^^ (rounds - Suc 0)) (md (prev @ dat)) = ?d" "length ?d = L"
    using r L length_md_pow [of md L rounds] by (cases rounds; simp add: funpow_swap1)+
  then show ?case
    using 0 by (subst btk_loop.simps) (auto simp: Let_def min_absorb1)
next
  case (Suc n)
  let ?d = "(md ^^ rounds) (prev @ dat)"
  let ?S = "btk_chain md dat rounds ?d (Suc n)"
  let ?k = "min nkey L" and ?i = "min niv (L - min nkey L)"
  have d: "(md ^^ (rounds - Suc 0)) (md (prev @ dat)) = ?d" "length ?d = L"
    using r L length_md_pow [of md L rounds] by (cases rounds; simp add: funpow_swap1)+
  have c: "btk_chain md dat rounds prev (Suc (Suc n)) = ?d @ ?S" by (simp add: Let_def)
  have "nkey - ?k + (niv - ?i) \<le> Suc n * L" using Suc(2) by auto
  note IH = Suc(1) [OF this]
  have k: "take nkey (?d @ ?S) = take ?k ?d @ take (nkey - ?k) ?S"
    using d(2) by (auto simp: min_def)
  have i: "take niv (drop nkey (?d @ ?S)) = take ?i (drop ?k ?d) @ take (niv - ?i) (drop (nkey - ?k) ?S)"
    using d(2) by (auto simp: min_def)
  show ?case
  proof (cases "nkey - ?k = 0 \<and> niv - ?i = 0")
    case True
    then have "nkey \<le> L" "niv \<le> L - nkey" by auto
    then show ?thesis
      unfolding Let_def c k i by (subst btk_loop.simps) (simp add: Let_def d)
  next
    case False
    then have "nkey \<le> L \<Longrightarrow> \<not> niv \<le> L - nkey" by auto
    then show ?thesis
      unfolding Let_def c k i by (subst btk_loop.simps) (auto simp: Let_def d IH min_absorb1)
  qed
qed

text \<open>
  C29: \<open>BytesToKey\<close> always returns for a non-empty password, with the requested number of
  key and IV bytes: the first bytes and the following ones of the chain of iterated
  digests.
\<close>
theorem bytes_to_key_spec:
  assumes "\<And>d. length (md d) = L" and "0 < L" and "0 < rounds" and "dat \<noteq> []"
  shows "let S = btk_chain md dat rounds [] (keyLen + ivLen + 1) in
         keyLen + ivLen \<le> length S \<and>
         BytesToKey keyLen ivLen md dat rounds k0 iv0
           = Some (keyLen, take keyLen S, take ivLen (drop keyLen S))"
proof -
  have len: "length (btk_chain md dat rounds prev n) = n * L" for prev n
    using length_md_pow [of md L rounds, OF assms(1,3)]
    by (induction n arbitrary: prev) (simp_all add: Let_def)
  have "keyLen + ivLen \<le> Suc (keyLen + ivLen) * L" using assms(2) by (cases L) auto
  then show ?thesis
    using btk_loop_chain [where md = md and L = L and n = "keyLen + ivLen", OF assms(1,3)] assms(4)
    by (simp add: BytesToKey_def Let_def len del: btk_chain.simps)
qed

theorem bytes_to_key_spec_witness:
  "let S = btk_chain (evp_sha1 sample_evp) [1] 16 [] (16 + 8 + 1) in
   16 + 8 \<le> length S \<and>
   BytesToKey 16 8 (evp_sha1 sample_evp) [1] 16 [] [] = Some (16, take 16 S, take 8 (drop 16 S))"
  by (rule bytes_to_key_spec [where L = 20]) (simp_all add: sample_evp_def)

text \<open>
  constructing the AES cipher with a key length strictly between 128 and 160 bits
  never returns (the range search recurses for ever); with every other length it gives a
  cipher with a 16, 24 or 32 byte key, 24 when none is asked for.
\<close>
theorem aes_key_length:
  assumes "evp_ok e"
  shows "if 128 < keyLen \<and> keyLen < 160 then NewAESCipher e iface keyLen = Inl Diverges
         else \<exists>sc. NewAESCipher e iface keyLen = Inr sc \<and> ssl_ok e sc \<and>
                   sc_keySize sc \<in> {16, 24, 32} \<and> (keyLen \<le> 0 \<longrightarrow> sc_keySize sc = 24)"
proof -
  let ?k = "if keyLen \<le> 0 then 192 else keyLen"
  have ok: "range_ok AESKeyRange" by (simp add: range_ok_def AESKeyRange_def Range_new_def)
  have stuck: "range_stuck AESKeyRange ?k \<longleftrightarrow> 128 < keyLen \<and> keyLen < 160"
    by (auto simp: range_stuck_def AESKeyRange_def Range_new_def)
  show ?thesis
  proof (cases "128 < keyLen \<and> keyLen < 160")
    case True
    then have "range_closest AESKeyRange ?k = None" using stuck closest_stuck by blast
    then show ?thesis using True by (simp add: NewAESCipher_def Let_def)
  next
    case False
    then have "\<not> range_stuck AESKeyRange ?k" using stuck by blast
    then obtain y where y: "range_closest AESKeyRange ?k = Some y"
      using closest_returns [of AESKeyRange ?k] ok by (auto simp: range_ok_def)
    then have al: "range_allowed AESKeyRange y" using closest_returns_allowed ok by blast
    have "y \<in> {128, 192, 256}"
    proof -
      have "64 dvd y - 128" "128 \<le> y" "y \<le> 256"
        using al by (auto simp: range_allowed_iff AESKeyRange_def Range_new_def)
      then show ?thesis by auto presburger
    qed
    moreover have "keyLen \<le> 0 \<Longrightarrow> y = 192"
      using y by (subst (asm) range_closest.simps)
        (simp add: range_allowed_def AESKeyRange_def Range_new_def cmod_def cdiv_def)
    moreover have iv: "evp_iv_length e c = 8 \<or> evp_iv_length e c = 16" for c
      using assms by (simp add: evp_ok_def)
    moreover have "evp_iv_length e c \<le> 16" for c using iv [of c] by auto
    ultimately show ?thesis
      using False y iv [of EVP_aes_128_cbc] iv [of EVP_aes_192_cbc] iv [of EVP_aes_256_cbc]
      by (auto simp: NewAESCipher_def Let_def SSL_Cipher_new_def ssl_ok_def evp_stream_def cdiv_def)
  qed
qed

theorem aes_key_length_witness:
  "NewAESCipher sample_evp AESInterface 150 = Inl Diverges \<and>
   (\<exists>sc. NewAESCipher sample_evp AESInterface 0 = Inr sc \<and> sc_keySize sc = 24)"
  using aes_key_length [OF sample_ok(1), of 150 AESInterface]
    aes_key_length [OF sample_ok(1), of 0 AESInterface] by auto

end
