(* ===== verification/NameIO.thy ===== *)
theory NameIO
  imports Cipher
begin

text \<open>
  File name coding: the interface of \<open>encfs/NameIO.h\<close> with the path recoding of
  \<open>encfs/NameIO.cpp\<close>, and the block, stream and null codings of
  \<open>encfs/BlockNameIO.cpp\<close>, \<open>encfs/StreamNameIO.cpp\<close> and \<open>encfs/NullNameIO.cpp\<close>.
  The locale \<open>name_coder\<close> is what the path functions need of a coding; each coding
  provides it over every cipher that keeps its contract.
\<close>

subsection \<open>The interface\<close>

text \<open>
  A coding function takes the name, the IV pointer and the zeroed buffer, and returns
  its length, the IV afterwards and the buffer.
\<close>

type_synonym name_code = "bytes \<Rightarrow> u64 option \<Rightarrow> bytes \<Rightarrow> (int \<times> u64 option \<times> bytes) res"

record nameio =
  ni_Interface :: interface
  ni_maxEncodedNameLen :: "int \<Rightarrow> int"
  ni_maxDecodedNameLen :: "int \<Rightarrow> int"
  ni_encodeName :: name_code
  ni_decodeName :: name_code
  ni_chainedNameIV :: bool
  ni_reverseEncryption :: bool

definition setChainedNameIV :: "bool \<Rightarrow> nameio \<Rightarrow> nameio" where
  "setChainedNameIV enable n = n\<lparr>ni_chainedNameIV := enable\<rparr>"

definition setReverseEncryption :: "bool \<Rightarrow> nameio \<Rightarrow> nameio" where
  "setReverseEncryption enable n = n\<lparr>ni_reverseEncryption := enable\<rparr>"

text \<open>
  One component, through a buffer of the estimated length and a terminator: the coding,
  the two assertions, and the C string that is appended.
\<close>

definition codeComponent ::
  "int \<Rightarrow> name_code \<Rightarrow> bytes \<Rightarrow> u64 option \<Rightarrow> (bytes \<times> u64 option) res" where
  "codeComponent approxLen code name iv =
     rbind (code name iv (replicate (nat approxLen + 1) 0)) (\<lambda>(codedLen, iv, codeBuf).
     rbind (rAssert (codedLen \<le> approxLen)) (\<lambda>_.
     rbind (rAssert (codeBuf ! nat codedLen = 0)) (\<lambda>_.
     Inr (cstr codeBuf, iv))))"

text \<open>The loop of \<open>recodePath\<close>; \<open>output\<close> is the string built so far.\<close>

function recodePath ::
  "(int \<Rightarrow> int) \<Rightarrow> name_code \<Rightarrow> bytes \<Rightarrow> u64 option \<Rightarrow> bytes \<Rightarrow> (bytes \<times> u64 option) res" where
  "recodePath lengthOf code [] iv output = Inr (output, iv)"
| "recodePath lengthOf code (p # path) iv output =
     (if p = 47
      then recodePath lengthOf code path iv (if output \<noteq> [] then output @ [47] else output)
      else (let name = takeWhile (\<lambda>x. x \<noteq> 47) (p # path);
                len = length name;
                rest = drop len (p # path)
            in if p = 46 \<and> last name = 46 \<and> len \<le> 2
               then recodePath lengthOf code rest iv (output @ replicate len 46)
               else (let approxLen = lengthOf (int len)
                     in if approxLen \<le> 0 then Inl NameTooSmall
                        else (case codeComponent approxLen code name iv of
                                Inl e \<Rightarrow> Inl e
                              | Inr (coded, iv) \<Rightarrow>
                                  recodePath lengthOf code rest iv (output @ coded)))))"
  by pat_completeness auto
termination by (relation "measure (\<lambda>(l, c, path, iv, out). length path)") auto

definition encodePath_raw :: "nameio \<Rightarrow> bytes \<Rightarrow> u64 \<Rightarrow> (bytes \<times> u64) res" where
  "encodePath_raw n plaintextPath iv =
     rbind (recodePath (ni_maxEncodedNameLen n) (ni_encodeName n) plaintextPath
              (if ni_chainedNameIV n then Some iv else None) [])
       (\<lambda>(out, iv'). Inr (out, case iv' of None \<Rightarrow> iv | Some v \<Rightarrow> v))"

definition decodePath_raw :: "nameio \<Rightarrow> bytes \<Rightarrow> u64 \<Rightarrow> (bytes \<times> u64) res" where
  "decodePath_raw n cipherPath iv =
     rbind (recodePath (ni_maxDecodedNameLen n) (ni_decodeName n) cipherPath
              (if ni_chainedNameIV n then Some iv else None) [])
       (\<lambda>(out, iv'). Inr (out, case iv' of None \<Rightarrow> iv | Some v \<Rightarrow> v))"

definition encodePath_iv :: "nameio \<Rightarrow> bytes \<Rightarrow> u64 \<Rightarrow> (bytes \<times> u64) res" where
  "encodePath_iv n path iv =
     (if ni_reverseEncryption n then decodePath_raw n path iv else encodePath_raw n path iv)"

definition decodePath_iv :: "nameio \<Rightarrow> bytes \<Rightarrow> u64 \<Rightarrow> (bytes \<times> u64) res" where
  "decodePath_iv n path iv =
     (if ni_reverseEncryption n then encodePath_raw n path iv else decodePath_raw n path iv)"

definition encodePath :: "nameio \<Rightarrow> bytes \<Rightarrow> bytes res" where
  "encodePath n path = rbind (encodePath_iv n path 0) (\<lambda>(out, _). Inr out)"

definition decodePath :: "nameio \<Rightarrow> bytes \<Rightarrow> bytes res" where
  "decodePath n path = rbind (decodePath_iv n path 0) (\<lambda>(out, _). Inr out)"

definition encodeName_raw :: "nameio \<Rightarrow> bytes \<Rightarrow> bytes res" where
  "encodeName_raw n name =
     rbind (codeComponent (ni_maxEncodedNameLen n (int (length name))) (ni_encodeName n) name None)
       (\<lambda>(out, _). Inr out)"

definition decodeName_raw :: "nameio \<Rightarrow> bytes \<Rightarrow> bytes res" where
  "decodeName_raw n name =
     rbind (codeComponent (ni_maxDecodedNameLen n (int (length name))) (ni_decodeName n) name None)
       (\<lambda>(out, _). Inr out)"

definition encodeName :: "nameio \<Rightarrow> bytes \<Rightarrow> bytes res" where
  "encodeName n name = (if ni_reverseEncryption n then decodeName_raw n name else encodeName_raw n name)"

definition decodeName :: "nameio \<Rightarrow> bytes \<Rightarrow> bytes res" where
  "decodeName n name = (if ni_reverseEncryption n then encodeName_raw n name else decodeName_raw n name)"

subsection \<open>The registry\<close>

record 'f nameio_alg =
  na_hidden :: bool
  na_constructor :: 'f
  na_description :: bytes
  na_iface :: interface

type_synonym 'f nameio_map = "(bytes \<times> 'f nameio_alg) list"

definition NameIO_GetAlgorithmList :: "'f nameio_map \<Rightarrow> bool \<Rightarrow> (bytes \<times> bytes \<times> interface) list" where
  "NameIO_GetAlgorithmList m includeHidden =
     map (\<lambda>(k, a). (k, na_description a, na_iface a))
       (filter (\<lambda>(k, a). includeHidden \<or> \<not> na_hidden a) m)"

definition NameIO_Register ::
  "bytes \<Rightarrow> bytes \<Rightarrow> interface \<Rightarrow> 'f \<Rightarrow> bool \<Rightarrow> 'f nameio_map \<Rightarrow> 'f nameio_map" where
  "NameIO_Register name description iface constructor hidden m =
     mm_insert name \<lparr>na_hidden = hidden, na_constructor = constructor,
       na_description = description, na_iface = iface\<rparr> m"

definition NameIO_New_name ::
  "(interface \<Rightarrow> 'k cipher \<Rightarrow> 'k \<Rightarrow> nameio res) nameio_map \<Rightarrow> bytes \<Rightarrow> 'k cipher \<Rightarrow> 'k \<Rightarrow> nameio option res" where
  "NameIO_New_name m name cipher key =
     (case mm_find name m of
        None \<Rightarrow> Inr None
      | Some a \<Rightarrow> rbind (na_constructor a (na_iface a) cipher key) (\<lambda>r. Inr (Some r)))"

definition NameIO_New_iface ::
  "(interface \<Rightarrow> 'k cipher \<Rightarrow> 'k \<Rightarrow> nameio res) nameio_map \<Rightarrow> interface \<Rightarrow> 'k cipher \<Rightarrow> 'k \<Rightarrow> nameio option res" where
  "NameIO_New_iface m iface cipher key =
     (case find (\<lambda>(k, a). iface_implements (na_iface a) iface) m of
        None \<Rightarrow> Inr None
      | Some (k, a) \<Rightarrow> rbind (na_constructor a iface cipher key) (\<lambda>r. Inr (Some r)))"

subsection \<open>What the path functions need of a coding\<close>

text \<open>The names a directory can hold: not empty, no NUL, no slash, not \<open>.\<close> or \<open>..\<close>.\<close>

definition goodName :: "bytes \<Rightarrow> bool" where
  "goodName x \<longleftrightarrow> x \<noteq> [] \<and> 0 \<notin> set x \<and> 47 \<notin> set x \<and> x \<noteq> [46] \<and> x \<noteq> [46, 46]"

lemma goodName_not_special:
  "goodName (p # ps) \<Longrightarrow> \<not> (p = 46 \<and> last (p # ps) = 46 \<and> length (p # ps) \<le> 2)"
  by (cases ps) (auto simp: goodName_def)

definition specialName :: "bytes \<Rightarrow> bool" where
  "specialName x \<longleftrightarrow> x = [46] \<or> x = [46, 46]"

definition endsName :: "bytes \<Rightarrow> bool" where
  "endsName rest \<longleftrightarrow> rest = [] \<or> hd rest = 47"

text \<open>The three steps of the recursion.\<close>

lemma take_name:
  "47 \<notin> set name \<Longrightarrow> endsName rest \<Longrightarrow>
     takeWhile (\<lambda>x. x \<noteq> 47) (name @ rest) = name \<and> drop (length name) (name @ rest) = rest"
  by (cases rest) (auto simp: endsName_def takeWhile_append2 takeWhile_tail)

lemma recode_slash:
  "recodePath l code (47 # path) iv out = recodePath l code path iv (if out \<noteq> [] then out @ [47] else out)"
  by simp

lemma recode_special:
  assumes "specialName name" and "endsName rest"
  shows "recodePath l code (name @ rest) iv out = recodePath l code rest iv (out @ name)"
proof -
  have "47 \<notin> set name" using assms(1) by (auto simp: specialName_def)
  note t = take_name [OF this assms(2)]
  obtain m ms where n: "name = m # ms" using assms(1) by (auto simp: specialName_def)
  have "m = 46" "last name = 46" "length name \<le> 2" "replicate (length name) 46 = name"
    using assms(1) n by (auto simp: specialName_def)
  then show ?thesis
    using t unfolding n append_Cons recodePath.simps(2) by (simp only: Let_def) simp
qed

lemma recode_component:
  assumes "goodName name" and "endsName rest" and "0 < l (int (length name))"
    and "codeComponent (l (int (length name))) code name iv = Inr (e, iv1)"
  shows "recodePath l code (name @ rest) iv out = recodePath l code rest iv1 (out @ e)"
proof -
  have "47 \<notin> set name" using assms(1) by (auto simp: goodName_def)
  note t = take_name [OF this assms(2)]
  obtain m ms where n: "name = m # ms" using assms(1) by (cases name) (auto simp: goodName_def)
  have "m \<noteq> 47" "\<not> (m = 46 \<and> last name = 46 \<and> length name \<le> 2)"
    using assms(1) goodName_not_special [of m ms] n by (auto simp: goodName_def)
  then show ?thesis
    using t assms(3,4) unfolding n append_Cons recodePath.simps(2)
    by (simp only: Let_def if_False) (simp only: if_False not_le [symmetric] sum.case prod.case)
qed

lemma path_cases:
  obtains (empty) "path = []"
  | (slash) ps where "path = 47 # ps"
  | (name) name rest where "path = name @ rest" "name \<noteq> []" "47 \<notin> set name" "endsName rest"
proof (cases path)
  case (Cons p ps)
  let ?name = "takeWhile (\<lambda>x. x \<noteq> 47) path" and ?rest = "dropWhile (\<lambda>x. x \<noteq> 47) path"
  have "endsName ?rest" using hd_dropWhile [of "\<lambda>x. x \<noteq> 47" path] by (auto simp: endsName_def)
  moreover have "47 \<notin> set ?name" by (auto dest: set_takeWhileD)
  moreover have "path = ?name @ ?rest" by simp
  moreover have "p \<noteq> 47 \<Longrightarrow> ?name \<noteq> []" using Cons by simp
  ultimately show ?thesis using Cons slash name by metis
qed (rule empty)

declare recodePath.simps(2) [simp del]

locale name_coder =
  fixes n :: nameio
  assumes code: "goodName name \<Longrightarrow>
    \<exists>e iv'. 0 < ni_maxEncodedNameLen n (int (length name)) \<and>
        codeComponent (ni_maxEncodedNameLen n (int (length name))) (ni_encodeName n) name iv = Inr (e, iv') \<and>
        goodName e \<and> (iv' = None) = (iv = None) \<and>
        0 < ni_maxDecodedNameLen n (int (length e)) \<and>
        codeComponent (ni_maxDecodedNameLen n (int (length e))) (ni_decodeName n) e iv = Inr (name, iv')"
begin

lemma name_roundtrip:
  "goodName name \<Longrightarrow> \<exists>e. encodeName_raw n name = Inr e \<and> goodName e \<and> decodeName_raw n e = Inr name"
  using code [of name None] by (auto simp: encodeName_raw_def decodeName_raw_def)

text \<open>
  Along the recursion the two outputs are empty together; the encoded path has a slash
  exactly where the path has one.
\<close>

lemma recode_roundtrip:
  assumes "\<forall>x \<in> set path. x \<noteq> 0"
  shows "\<exists>q iv'. recodePath (ni_maxEncodedNameLen n) (ni_encodeName n) path iv out = Inr (out @ q, iv') \<and>
      (iv' = None) = (iv = None) \<and> (out \<noteq> [] \<longrightarrow> endsName path \<longrightarrow> endsName q) \<and>
      (\<forall>out2. (out2 = []) = (out = []) \<longrightarrow>
         recodePath (ni_maxDecodedNameLen n) (ni_decodeName n) q iv out2
           = Inr (out2 @ (if out = [] then dropWhile (\<lambda>x. x = 47) path else path), iv'))"
  using assms
proof (induction "length path" arbitrary: path iv out rule: less_induct)
  case less
  let ?E = "recodePath (ni_maxEncodedNameLen n) (ni_encodeName n)"
  let ?D = "recodePath (ni_maxDecodedNameLen n) (ni_decodeName n)"
  show ?case
  proof (cases path rule: path_cases)
    case empty
    then show ?thesis by (auto simp: endsName_def)
  next
    case (slash ps)
    let ?o = "if out \<noteq> [] then out @ [47] else out"
    obtain q iv' where IH: "?E ps iv ?o = Inr (?o @ q, iv')" "(iv' = None) = (iv = None)"
      "\<forall>out2. (out2 = []) = (?o = []) \<longrightarrow>
         ?D q iv out2 = Inr (out2 @ (if ?o = [] then dropWhile (\<lambda>x. x = 47) ps else ps), iv')"
      using less(1) [of ps iv ?o] less(2) slash by auto
    show ?thesis
    proof (cases "out = []")
      case True
      then show ?thesis using IH slash
        by (intro exI [of _ q] exI [of _ iv']) (simp add: recode_slash)
    next
      case False
      then have "?D (47 # q) iv out2 = Inr (out2 @ path, iv')" if "out2 \<noteq> []" for out2
        using IH(3) [rule_format, of "out2 @ [47]"] that slash by (simp add: recode_slash)
      then show ?thesis
        using IH(1,2) slash False
        by (intro exI [of _ "47 # q"] exI [of _ iv']) (simp add: recode_slash endsName_def)
    qed
  next
    case (name name rest)
    have dw: "dropWhile (\<lambda>x. x = 47) path = path" "\<not> endsName path"
      using name by (cases name; simp add: endsName_def)+
    have step: ?thesis
      if enc: "?E path iv out = ?E rest iv1 (out @ e)"
        and dec: "\<And>q out2. endsName q \<Longrightarrow> ?D (e @ q) iv out2 = ?D q iv1 (out2 @ name)"
        and e: "e \<noteq> []" and iv: "(iv1 = None) = (iv = None)" for e iv1
    proof -
      have "length rest < length path" using name by simp
      then obtain q iv' where IH: "?E rest iv1 (out @ e) = Inr ((out @ e) @ q, iv')"
        "(iv' = None) = (iv1 = None)" "endsName q"
        "\<forall>out2. out2 \<noteq> [] \<longrightarrow> ?D q iv1 out2 = Inr (out2 @ rest, iv')"
        using less(1) [of rest iv1 "out @ e"] less(2) name e by auto
      have "?D (e @ q) iv out2 = Inr (out2 @ path, iv')" for out2
        using dec [OF IH(3)] IH(4) name by simp
      then show ?thesis
        using enc IH(1,2) iv dw by (intro exI [of _ "e @ q"] exI [of _ iv']) simp
    qed
    show ?thesis
    proof (cases "specialName name")
      case True
      show ?thesis
        by (rule step [of iv name]) (use name True recode_special in auto)
    next
      case False
      have good: "goodName name"
        using name False less(2) by (auto simp: goodName_def specialName_def)
      obtain e iv1 where c: "0 < ni_maxEncodedNameLen n (int (length name))"
        "codeComponent (ni_maxEncodedNameLen n (int (length name))) (ni_encodeName n) name iv = Inr (e, iv1)"
        "goodName e" "(iv1 = None) = (iv = None)"
        "0 < ni_maxDecodedNameLen n (int (length e))"
        "codeComponent (ni_maxDecodedNameLen n (int (length e))) (ni_decodeName n) e iv = Inr (name, iv1)"
        using code [OF good, of iv] by blast
      have "e \<noteq> []" using c(3) by (auto simp: goodName_def)
      then show ?thesis
        using recode_component [where l = "ni_maxEncodedNameLen n", OF good name(4) c(1,2)]
          recode_component [where l = "ni_maxDecodedNameLen n", OF c(3) _ c(5,6)] c(4) name(1)
        by (intro step [of iv1 e]) auto
    qed
  qed
qed

lemma path_roundtrip:
  assumes "\<forall>x \<in> set path. x \<noteq> 0"
  shows "\<exists>q iv'. encodePath_raw n path iv = Inr (q, iv') \<and>
           decodePath_raw n q iv = Inr (dropWhile (\<lambda>x. x = 47) path, iv')"
  using recode_roundtrip [OF assms, of "if ni_chainedNameIV n then Some iv else None" "[]"]
  by (auto simp: encodePath_raw_def decodePath_raw_def)

text \<open>The public functions, which swap their roles for a reverse file system.\<close>

lemma public_path_roundtrip:
  assumes "\<forall>x \<in> set path. x \<noteq> 0"
  shows "\<exists>q iv'. if ni_reverseEncryption n
      then decodePath_iv n path iv = Inr (q, iv') \<and>
           encodePath_iv n q iv = Inr (dropWhile (\<lambda>x. x = 47) path, iv')
      else encodePath_iv n path iv = Inr (q, iv') \<and>
           decodePath_iv n q iv = Inr (dropWhile (\<lambda>x. x = 47) path, iv')"
  using path_roundtrip [OF assms, of iv] by (simp add: encodePath_iv_def decodePath_iv_def)

end

subsection \<open>Base-64 names\<close>

text \<open>
  The common end of the encoders and start of the decoders: the first bytes of the buffer
  become a base-64 string in place, and a name becomes a temporary buffer of bytes.
\<close>

definition toBase64Name :: "nat \<Rightarrow> bytes \<Rightarrow> int \<times> bytes" where
  "toBase64Name encodedStreamLen buf =
     (let encLen64 = B256ToB64Bytes (int encodedStreamLen);
          buf = changeBase2Buf buf encodedStreamLen 8 6 True
      in (encLen64, B64ToAscii buf (nat encLen64)))"

definition fromBase64Name :: "bytes \<Rightarrow> bytes" where
  "fromBase64Name name =
     (let tmpBuf = overlay 0 (AsciiToB64 name (length name)) (replicate (length name) 0)
      in changeBase2Buf tmpBuf (length name) 6 8 False)"

definition b64name :: "bytes \<Rightarrow> bytes" where
  "b64name dat = B64ToAscii (changeBase2Inline dat 8 6 True) ((length dat * 8 + 5) div 6)"

lemma length_b64name: "dat \<noteq> [] \<Longrightarrow> length (b64name dat) = (length dat * 8 + 5) div 6"
  by (simp add: b64name_def length_encode)

lemma b64name_safe: "dat \<noteq> [] \<Longrightarrow> \<forall>x \<in> set (b64name dat). x \<noteq> 0 \<and> x \<noteq> 46 \<and> x \<noteq> 47"
  using encode_values [of dat] length_encode [of dat] alphabet_safe
  by (auto simp: b64name_def B64ToAscii_def)

lemma goodName_b64name: "dat \<noteq> [] \<Longrightarrow> goodName (b64name dat)"
  using b64name_safe [of dat] length_b64name [of dat]
  by (cases "b64name dat"; cases dat) (auto simp: goodName_def)

lemma toBase64Name_zeros:
  assumes "dat \<noteq> []" and "(length dat * 8 + 5) div 6 \<le> length dat + m"
  shows "toBase64Name (length dat) (dat @ replicate m 0)
       = (int (length (b64name dat)), b64name dat @ replicate (length dat + m - length (b64name dat)) 0)"
proof -
  have len: "length (changeBase2Inline dat 8 6 True) = (length dat * 8 + 5) div 6"
    using assms(1) by (rule length_encode)
  have "length dat \<le> (length dat * 8 + 5) div 6" by presburger
  then have "changeBase2Buf (dat @ replicate m 0) (length dat) 8 6 True
      = changeBase2Inline dat 8 6 True @ replicate (length dat + m - (length dat * 8 + 5) div 6) 0"
    using len by (simp add: changeBase2Buf_def)
  then show ?thesis
    using len assms(2) by (simp add: toBase64Name_def b64name_def B64ToAscii_def Let_def)
qed

lemma fromBase64Name_b64name:
  assumes "dat \<noteq> []"
  shows "length (fromBase64Name (b64name dat)) = length (b64name dat)"
    and "take (length dat) (fromBase64Name (b64name dat)) = dat"
proof -
  let ?e = "changeBase2Inline dat 8 6 True"
  have v: "\<forall>x \<in> set ?e. unat x < 64" using assms by (rule encode_values)
  have a: "AsciiToB64 (b64name dat) (length (b64name dat)) = ?e"
    using asciiToB64_B64ToAscii [OF v] length_encode [OF assms] by (simp add: b64name_def)
  have le: "length ?e = length (b64name dat)"
    using length_encode [OF assms] by (simp add: b64name_def)
  have ne: "?e \<noteq> []" using length_encode [OF assms] assms by (cases dat) auto
  let ?d = "changeBase2Inline ?e 6 8 False"
  have d: "length ?d \<le> length ?e"
    using length_cb2i_decode [of 0 0 ?e False] v ne by (simp add: changeBase2Inline_def)
  have f: "fromBase64Name (b64name dat) = overlay 0 ?d ?e"
    unfolding fromBase64Name_def Let_def a unfolding le [symmetric]
    by (simp add: changeBase2Buf_def)
  show "length (fromBase64Name (b64name dat)) = length (b64name dat)"
    using d le unfolding f by simp
  have "take (length dat) ?d = dat" using assms by (rule base_roundtrip)
  moreover from this have "length dat \<le> length ?d" by (metis length_take min.bounded_iff order_refl)
  ultimately show "take (length dat) (fromBase64Name (b64name dat)) = dat"
    unfolding f by (simp only: overlay_0 take_append) simp
qed

lemma cstr_zeros: "0 \<notin> set e \<Longrightarrow> 0 < m \<Longrightarrow> cstr (e @ replicate m 0) = e"
  using cstr_stop [of e "replicate (m - 1) 0"] by (cases m) auto

text \<open>A coder that leaves its result in front of zeros passes the component.\<close>

lemma codeComponent_zeros:
  assumes "code name iv (replicate (nat approxLen + 1) 0) = Inr (int (length e), iv', e @ replicate m 0)"
    and "0 \<notin> set e" and "0 < m" and "int (length e) \<le> approxLen"
  shows "codeComponent approxLen code name iv = Inr (e, iv')"
  using assms cstr_zeros [of e m] by (simp add: codeComponent_def nth_append)

lemma overlay_zeros:
  "length pre = k \<Longrightarrow> length d \<le> m \<Longrightarrow>
     overlay k d (pre @ replicate m 0) = (pre @ d) @ replicate (m - length d) 0"
  by (simp add: overlay_def)

lemma overlay_append:
  "length pre = k \<Longrightarrow> length d = length old \<Longrightarrow> overlay k d (pre @ old @ post) = pre @ d @ post"
  by (simp add: overlay_def)

text \<open>The checksum bytes of a name, most significant first.\<close>

definition macBytes :: "u32 \<Rightarrow> bytes" where
  "macBytes mac = [ucast (drop_bit 8 mac AND 0xff), ucast (mac AND 0xff)]"

definition macOf :: "bytes \<Rightarrow> u32" where
  "macOf b = push_bit 8 (ucast (b ! 0)) OR ucast (b ! 1)"

lemma macOf_macBytes: "unat m < 2 ^ 16 \<Longrightarrow> macOf (macBytes m @ rest) = m"
  using mac16_bytes [of m] by (simp add: macOf_def macBytes_def)

lemma length_macBytes [simp]: "length (macBytes m) = 2"
  by (simp add: macBytes_def)

lemma MAC_16_bound: "MAC_16 c d k iv = Inr (m, iv') \<Longrightarrow> unat m < 2 ^ 16"
  using mac16_bound by (auto simp: MAC_16_def rbind_Inr_iff)

definition ivOr0 :: "bool \<Rightarrow> u64 option \<Rightarrow> u64" where
  "ivOr0 use iv = (case iv of Some v \<Rightarrow> if use then v else 0 | None \<Rightarrow> 0)"

end
