(* ===== verification/NullNameIO.thy ===== *)
theory NullNameIO
  imports NameIO
begin

text \<open>The name coding of \<open>encfs/NullNameIO.cpp\<close>, which keeps names as they are.\<close>

definition NNIOIface :: interface where
  "NNIOIface = Interface (lit ''nameio/null'') 1 0 0"

definition null_codeName :: name_code where
  "null_codeName name iv buf = Inr (int (length name), iv, overlay 0 name buf)"

definition NullNameIO :: nameio where
  "NullNameIO =
     \<lparr>ni_Interface = NNIOIface, ni_maxEncodedNameLen = (\<lambda>l. l), ni_maxDecodedNameLen = (\<lambda>l. l),
      ni_encodeName = null_codeName, ni_decodeName = null_codeName,
      ni_chainedNameIV = False, ni_reverseEncryption = False\<rparr>"

definition NewNNIO :: "interface \<Rightarrow> 'k cipher \<Rightarrow> 'k \<Rightarrow> nameio res" where
  "NewNNIO iface cipher key = Inr NullNameIO"

lemma null_component:
  "goodName name \<Longrightarrow> codeComponent (int (length name)) null_codeName name iv = Inr (name, iv)"
  by (rule codeComponent_zeros [where m = 1])
     (auto simp: null_codeName_def goodName_def replicate_append_same [symmetric])

interpretation nullname: name_coder NullNameIO
proof
  fix name iv
  assume "goodName name"
  then show "\<exists>e iv'. 0 < ni_maxEncodedNameLen NullNameIO (int (length name)) \<and>
      codeComponent (ni_maxEncodedNameLen NullNameIO (int (length name))) (ni_encodeName NullNameIO) name iv
        = Inr (e, iv') \<and> goodName e \<and> (iv' = None) = (iv = None) \<and>
      0 < ni_maxDecodedNameLen NullNameIO (int (length e)) \<and>
      codeComponent (ni_maxDecodedNameLen NullNameIO (int (length e))) (ni_decodeName NullNameIO) e iv
        = Inr (name, iv')"
    using null_component [of name iv] by (auto simp: NullNameIO_def goodName_def)
qed

lemma recode_null:
  assumes "\<forall>x \<in> set path. x \<noteq> 0"
  shows "recodePath (\<lambda>l. l) null_codeName path iv out
       = Inr (out @ (if out = [] then dropWhile (\<lambda>x. x = 47) path else path), iv)"
  using assms
proof (induction "length path" arbitrary: path out rule: less_induct)
  case less
  show ?case
  proof (cases path rule: path_cases)
    case (slash ps)
    then show ?thesis using less by (simp add: recode_slash)
  next
    case (name name rest)
    have dw: "dropWhile (\<lambda>x. x = 47) path = path"
      using name by (cases name) simp_all
    have "recodePath (\<lambda>l. l) null_codeName path iv out = recodePath (\<lambda>l. l) null_codeName rest iv (out @ name)"
    proof (cases "specialName name")
      case True
      then show ?thesis using name recode_special by simp
    next
      case False
      then have "goodName name" using name less(2) by (auto simp: goodName_def specialName_def)
      then show ?thesis
        using recode_component [where l = "\<lambda>l. l", OF _ name(4) _ null_component] name(1,2) by simp
    qed
    then show ?thesis using less name dw by simp
  qed simp
qed

text \<open>
  with the null coding a path is coded to itself, without its leading slashes, in both
  directions.
\<close>
theorem null_path_identity:
  assumes "\<forall>x \<in> set path. x \<noteq> 0"
  shows "encodePath NullNameIO path = Inr (dropWhile (\<lambda>x. x = 47) path) \<and>
         decodePath NullNameIO path = Inr (dropWhile (\<lambda>x. x = 47) path)"
  using recode_null [OF assms, of None "[]"]
  by (simp add: encodePath_def decodePath_def encodePath_iv_def decodePath_iv_def
      encodePath_raw_def decodePath_raw_def NullNameIO_def)

theorem null_path_identity_witness:
  "encodePath NullNameIO (lit ''/a/../b'') = Inr (lit ''a/../b'')"
  using null_path_identity [of "lit ''/a/../b''"] by (simp add: lit_def)

end
