(* ===== verification/BlockNameIO.thy ===== *)
theory BlockNameIO
  imports NameIO NullNameIO
begin

text \<open>
  The block name coding of \<open>encfs/BlockNameIO.cpp\<close>: the name is padded to whole cipher
  blocks, encrypted with its checksum in the IV, prefixed with the checksum and written
  in base 64.
\<close>

definition BlockNameIO_CurrentInterface :: interface where
  "BlockNameIO_CurrentInterface = Interface (lit ''nameio/block'') 3 0 1"

definition block_maxEncodedNameLen :: "int \<Rightarrow> int \<Rightarrow> int" where
  "block_maxEncodedNameLen bs plaintextNameLen =
     (let numBlocks = cdiv (plaintextNameLen + bs) bs;
          encodedNameLen = numBlocks * bs + 2
      in B256ToB64Bytes encodedNameLen)"

definition block_maxDecodedNameLen :: "int \<Rightarrow> int" where
  "block_maxDecodedNameLen encodedNameLen =
     (let decLen256 = B64ToB256Bytes encodedNameLen in decLen256 - 2)"

text \<open>\<open>version\<close> is the major number of the interface the coding was created with.\<close>

definition block_encodeName :: "int \<Rightarrow> nat \<Rightarrow> 'k cipher \<Rightarrow> 'k \<Rightarrow> name_code" where
  "block_encodeName version bs cipher key plaintextName iv encodedName =
     (let len = length plaintextName;
          encodedName = overlay 2 plaintextName encodedName;
          padding = bs - len mod bs;
          padding = (if padding = 0 then bs else padding);
          encodedName = overlay (len + 2) (replicate padding (of_nat padding)) encodedName;
          tmpIV = ivOr0 (version \<ge> 3) iv in
      rbind (MAC_16 cipher (take (len + padding) (drop 2 encodedName)) key iv) (\<lambda>(mac, iv).
      let encodedName = overlay 0 (macBytes mac) encodedName in
      rbind (vt_blockEncode cipher (take (len + padding) (drop 2 encodedName))
               (ucast mac XOR tmpIV) key) (\<lambda>(_, enc).
      let encodedName = overlay 2 enc encodedName;
          (encLen64, encodedName) = toBase64Name (len + 2 + padding) encodedName
      in Inr (encLen64, iv, encodedName))))"

definition block_decodeName :: "int \<Rightarrow> nat \<Rightarrow> 'k cipher \<Rightarrow> 'k \<Rightarrow> name_code" where
  "block_decodeName version bs cipher key encodedName iv plaintextName =
     (let decLen256 = B64ToB256Bytes (int (length encodedName));
          decodedStreamLen = decLen256 - 2;
          dsl = nat decodedStreamLen in
      if decodedStreamLen < int bs then Inl NameTooSmall
      else
     (let tmpBuf = fromBase64Name encodedName;
          mac = macOf tmpBuf;
          tmpIV = ivOr0 (version \<ge> 3) iv in
      rbind (vt_blockDecode cipher (take dsl (drop 2 tmpBuf)) (ucast mac XOR tmpIV) key) (\<lambda>(_, dec).
      let tmpBuf = overlay 2 dec tmpBuf;
          padding = uint (tmpBuf ! (2 + dsl - 1));
          finalSize = decodedStreamLen - padding in
      if padding > int bs \<or> finalSize < 0 then Inl InvalidPadding
      else
     (let plaintextName = overlay 0 (take (nat finalSize) (drop 2 tmpBuf)) plaintextName;
          plaintextName = plaintextName[nat finalSize := 0] in
      rbind (MAC_16 cipher (take dsl (drop 2 tmpBuf)) key iv) (\<lambda>(mac2, iv).
      if mac2 \<noteq> mac then Inl ChecksumMismatch
      else Inr (finalSize, iv, plaintextName))))))"

definition BlockNameIO :: "interface \<Rightarrow> 'k cipher \<Rightarrow> 'k \<Rightarrow> nat \<Rightarrow> nameio res" where
  "BlockNameIO iface cipher key blockSize =
     rbind (rAssert (blockSize < 128)) (\<lambda>_.
     Inr \<lparr>ni_Interface = BlockNameIO_CurrentInterface,
          ni_maxEncodedNameLen = block_maxEncodedNameLen (int blockSize),
          ni_maxDecodedNameLen = block_maxDecodedNameLen,
          ni_encodeName = block_encodeName (iface_current iface) blockSize cipher key,
          ni_decodeName = block_decodeName (iface_current iface) blockSize cipher key,
          ni_chainedNameIV = False, ni_reverseEncryption = False\<rparr>)"

text \<open>The factory; there is always a cipher, so its block size is used.\<close>

definition NewBlockNameIO :: "interface \<Rightarrow> 'k cipher \<Rightarrow> 'k \<Rightarrow> nameio res" where
  "NewBlockNameIO iface cipher key = BlockNameIO iface cipher key (vt_cipherBlockSize cipher)"

subsection \<open>Padding\<close>

definition padded :: "nat \<Rightarrow> bytes \<Rightarrow> bytes" where
  "padded bs name = (let padding = bs - length name mod bs in name @ replicate padding (of_nat padding))"

lemma padded_facts:
  assumes "0 < bs"
  shows "bs dvd length (padded bs name)" and "padded bs name \<noteq> []"
    and "length (padded bs name) = length name + (bs - length name mod bs)"
    and "0 < bs - length name mod bs" and "bs - length name mod bs \<le> bs"
proof -
  have m: "length name mod bs < bs" using assms by simp
  show "length (padded bs name) = length name + (bs - length name mod bs)"
    by (simp add: padded_def Let_def)
  have "length name + (bs - length name mod bs) = bs * (length name div bs + 1)"
  proof -
    have "length name = length name div bs * bs + length name mod bs" by simp
    moreover have "bs * (length name div bs + 1) = length name div bs * bs + bs" by simp
    ultimately show ?thesis using m by linarith
  qed
  then show "bs dvd length (padded bs name)"
    by (simp add: padded_def Let_def)
  show "padded bs name \<noteq> []" "0 < bs - length name mod bs" "bs - length name mod bs \<le> bs"
    using m by (auto simp: padded_def Let_def)
qed

lemma block_max_exact:
  assumes "0 < bs"
  shows "block_maxEncodedNameLen (int bs) (int (length name))
       = int (((length (padded bs name) + 2) * 8 + 5) div 6)"
proof -
  have "(length name + bs) div bs * bs = length (padded bs name)"
  proof -
    have "length name = length name div bs * bs + length name mod bs" by simp
    moreover have "(length name + bs) div bs = length name div bs + 1"
      using assms by (simp add: div_add_self2)
    moreover have "length name mod bs < bs" using assms by simp
    ultimately show ?thesis
      unfolding padded_facts(3) [OF assms] by (simp only: add_mult_distrib)
  qed
  then have "cdiv (int (length name) + int bs) (int bs) * int bs + 2 = int (length (padded bs name) + 2)"
    using cdiv_int [of "length name + bs" bs] by (simp flip: of_nat_mult)
  then show ?thesis
    by (simp only: block_maxEncodedNameLen_def Let_def B256ToB64Bytes_int)
qed

subsection \<open>What the encoder produces\<close>

definition block_stream :: "u32 \<Rightarrow> bytes \<Rightarrow> bytes" where
  "block_stream mac enc = macBytes mac @ enc"

lemma block_encode_eq:
  assumes bs: "0 < bs"
    and mac: "MAC_16 c (padded bs name) key iv = Inr (mac, iv')"
    and enc: "vt_blockEncode c (padded bs name) (ucast mac XOR ivOr0 (version \<ge> 3) iv) key = Inr (ok, enc)"
    and len: "length enc = length (padded bs name)"
    and a: "a = ((length (padded bs name) + 2) * 8 + 5) div 6"
  shows "block_encodeName version bs c key name iv (replicate (Suc a) 0)
       = Inr (int a, iv', b64name (block_stream mac enc) @ [0])"
proof -
  define P where "P = padded bs name"
  define pad where "pad = bs - length name mod bs"
  define m where "m = Suc a - (length P + 2)"
  have P: "P = name @ replicate pad (of_nat pad)" by (simp add: P_def pad_def padded_def Let_def)
  have pl: "length P = length name + pad" "0 < pad"
    using padded_facts [OF bs] by (auto simp: P_def pad_def)
  have an: "length P + 2 \<le> a" unfolding a P_def by presburger
  have z: "replicate (Suc a) 0 = [0, 0] @ replicate (Suc a - 2) (0 :: byte)"
  proof -
    obtain k where "a = Suc k" using an by (cases a) auto
    then show ?thesis by simp
  qed
  have b1: "overlay 2 name (replicate (Suc a) 0) = ([0, 0] @ name) @ replicate (Suc a - 2 - length name) 0"
    unfolding z using an pl by (subst overlay_zeros) auto
  have b2: "overlay (length name + 2) (replicate pad (of_nat pad)) (overlay 2 name (replicate (Suc a) 0))
      = [0, 0] @ P @ replicate m 0"
    unfolding b1 using an pl by (subst overlay_zeros) (auto simp: P m_def)
  have b3: "overlay 0 (macBytes mac) ([0, 0] @ P @ replicate m 0) = macBytes mac @ P @ replicate m 0"
    by (simp add: overlay_def)
  have b4: "overlay 2 enc (macBytes mac @ P @ replicate m 0) = block_stream mac enc @ replicate m 0"
    using len by (simp add: overlay_append block_stream_def P_def)
  have s: "length (block_stream mac enc) = length P + 2" using len by (simp add: block_stream_def P_def)
  have ne: "block_stream mac enc \<noteq> []" by (simp add: block_stream_def macBytes_def)
  have le: "length (b64name (block_stream mac enc)) = a"
    using length_b64name [OF ne] s by (simp add: a P_def)
  have "(length (block_stream mac enc) * 8 + 5) div 6 \<le> length (block_stream mac enc) + m"
    using le length_b64name [OF ne] an s by (simp add: m_def)
  moreover have "length (block_stream mac enc) + m - a = 1"
    using an s by (simp add: m_def)
  ultimately have b5: "toBase64Name (length P + 2) (block_stream mac enc @ replicate m 0)
      = (int a, b64name (block_stream mac enc) @ [0])"
    using toBase64Name_zeros [OF ne, of m] le s by simp
  have t: "take (length P) (drop 2 ([0, 0] @ P @ replicate m 0)) = P"
      "take (length P) (drop 2 (macBytes mac @ P @ replicate m 0)) = P"
    by simp_all
  have p0: "(if pad = 0 then bs else pad) = pad" using pl(2) by simp
  have n: "length name + pad = length P" "length name + 2 + pad = length P + 2" using pl(1) by auto
  show ?thesis
    unfolding block_encodeName_def Let_def pad_def [symmetric] p0 b2 n t b3 mac [folded P_def]
    unfolding rbind.simps prod.case b3 t enc [folded P_def]
    unfolding rbind.simps prod.case b4 b5 by (rule refl)
qed

subsection \<open>What the decoder makes of it\<close>

lemma block_decode_eq:
  assumes bs: "0 < bs" "bs < 128"
    and mac: "MAC_16 c (padded bs name) key iv = Inr (mac, iv')"
    and dec: "vt_blockDecode c enc (ucast mac XOR ivOr0 (version \<ge> 3) iv) key = Inr (ok, padded bs name)"
    and len: "length enc = length (padded bs name)"
  shows "block_decodeName version bs c key (b64name (block_stream mac enc)) iv
            (replicate (length (padded bs name) + 1) 0)
       = Inr (int (length name), iv', name @ replicate (length (padded bs name) + 1 - length name) 0)"
proof -
  let ?P = "padded bs name" and ?s = "block_stream mac enc"
  define pad where "pad = bs - length name mod bs"
  let ?t = "fromBase64Name (b64name ?s)"
  have P: "?P = name @ replicate pad (of_nat pad)" by (simp add: padded_def Let_def pad_def)
  have pl: "length ?P = length name + pad" "0 < pad" "pad \<le> bs"
    using padded_facts [OF bs(1)] by (auto simp: pad_def)
  have s: "length ?s = length ?P + 2" "?s \<noteq> []" using len by (auto simp: block_stream_def macBytes_def)
  have dl: "B64ToB256Bytes (int (length (b64name ?s))) = int (length ?P) + 2"
    unfolding B64ToB256Bytes_int length_b64name [OF s(2)] b64_size_roundtrip s(1) by simp
  obtain junk where t: "?t = macBytes mac @ enc @ junk"
    using fromBase64Name_b64name(2) [OF s(2)] append_take_drop_id [of "length ?s" ?t]
    by (metis append.assoc block_stream_def)
  have d: "take (length ?P) (drop 2 ?t) = enc" using len by (simp add: t)
  have m: "macOf ?t = mac" unfolding t using MAC_16_bound [OF mac] by (rule macOf_macBytes)
  have o: "overlay 2 ?P ?t = macBytes mac @ ?P @ junk"
    unfolding t using len by (simp add: overlay_append)
  have bsP: "\<not> int (length ?P) < int bs"
    using padded_facts(1,2) [OF bs(1), of name] by (auto dest: dvd_imp_le)
  have "uint (of_nat pad :: byte) = int pad"
    using pl(3) bs(2) by (simp add: unsigned_of_nat take_bit_nat_eq_self)
  moreover have "(macBytes mac @ ?P @ junk) ! (2 + length ?P - 1) = of_nat pad"
    using pl 
  proof -
    obtain k where "pad = Suc k" using pl(2) by (cases pad) auto
    then have "2 + length ?P - 1 = length (macBytes mac @ name) + k"
      "(replicate pad (of_nat pad :: byte) @ junk) ! k = of_nat pad"
      using pl(1) by (simp_all add: nth_append del: replicate_Suc)
    moreover have "macBytes mac @ ?P @ junk = (macBytes mac @ name) @ replicate pad (of_nat pad) @ junk"
      by (simp add: P)
    ultimately show ?thesis by (simp only: nth_append_length_plus)
  qed
  ultimately have pad: "uint ((macBytes mac @ ?P @ junk) ! (2 + length ?P - 1)) = int pad" by simp
  have fin: "int (length ?P) - int pad = int (length name)" using pl(1) by simp
  have P2: "take (length ?P) (drop 2 (macBytes mac @ ?P @ junk)) = ?P"
      "take (length name) (drop 2 (macBytes mac @ ?P @ junk)) = name" by (simp_all add: P)
  have out: "(overlay 0 name (replicate (length ?P + 1) 0))[length name := 0]
      = name @ replicate (length ?P + 1 - length name) (0 :: byte)"
  proof -
    obtain k where k: "length ?P + 1 - length name = Suc k" using pl by (cases "length ?P + 1 - length name") auto
    have "overlay 0 name (replicate (length ?P + 1) 0) = name @ replicate (Suc k) (0 :: byte)"
      unfolding k [symmetric] by (simp only: overlay_0 drop_replicate)
    then show ?thesis unfolding k by (simp only:) (simp add: list_update_append)
  qed
  have dsl: "int (length ?P) + 2 - 2 = int (length ?P)" by simp
  have guard: "(int bs < int pad \<or> int (length name) < 0) = False" using pl(3) by simp
  have same: "(mac \<noteq> mac) = False" by simp
  show ?thesis
    by (simp only: block_decodeName_def Let_def dl dsl nat_int d m bsP if_False dec rbind.simps
        prod.case o pad fin guard P2 mac out same)
qed

lemma block_name_coder:
  assumes laws: "cipher_laws c ok" and key: "ok key"
    and n: "BlockNameIO iface c key (vt_cipherBlockSize c) = Inr n0"
  shows "name_coder (n0\<lparr>ni_chainedNameIV := ch, ni_reverseEncryption := rv\<rparr>)"
proof
  let ?n = "n0\<lparr>ni_chainedNameIV := ch, ni_reverseEncryption := rv\<rparr>"
  let ?bs = "vt_cipherBlockSize c"
  let ?v = "iface_current iface"
  have bs: "0 < ?bs" "?bs < 128"
    using cipher_laws.bs_pos [OF laws] n by (auto simp: BlockNameIO_def rbind_Inr_iff)
  have n0: "ni_maxEncodedNameLen ?n = block_maxEncodedNameLen (int ?bs)"
      "ni_maxDecodedNameLen ?n = block_maxDecodedNameLen"
      "ni_encodeName ?n = block_encodeName ?v ?bs c key"
      "ni_decodeName ?n = block_decodeName ?v ?bs c key"
    using n by (auto simp: BlockNameIO_def rbind_Inr_iff)
  fix name iv
  assume good: "goodName name"
  let ?P = "padded ?bs name"
  note P = padded_facts [OF bs(1), of name]
  obtain mac iv' where mac: "MAC_16 c ?P key iv = Inr (mac, iv')"
    using cipher_laws.mac16_total [OF laws key P(2)] by blast
  obtain enc where enc: "vt_blockEncode c ?P (ucast mac XOR ivOr0 (?v \<ge> 3) iv) key = Inr (True, enc)"
      "length enc = length ?P" "vt_blockDecode c enc (ucast mac XOR ivOr0 (?v \<ge> 3) iv) key = Inr (True, ?P)"
    using cipher_laws.block_enc [OF laws key P(2,1)] by blast
  let ?s = "block_stream mac enc"
  define a where "a = ((length ?P + 2) * 8 + 5) div 6"
  have s: "?s \<noteq> []" "length ?s = length ?P + 2" using enc(2) by (auto simp: block_stream_def macBytes_def)
  have le: "length (b64name ?s) = a" using length_b64name [OF s(1)] s(2) by (simp add: a_def)
  have me: "block_maxEncodedNameLen (int ?bs) (int (length name)) = int a"
    unfolding a_def by (rule block_max_exact [OF bs(1)])
  have md: "block_maxDecodedNameLen (int a) = int (length ?P)"
    unfolding block_maxDecodedNameLen_def Let_def B64ToB256Bytes_int a_def b64_size_roundtrip by simp
  have "codeComponent (int a) (block_encodeName ?v ?bs c key) name iv = Inr (b64name ?s, iv')"
  proof (rule codeComponent_zeros [where m = 1])
    show "block_encodeName ?v ?bs c key name iv (replicate (nat (int a) + 1) 0)
        = Inr (int (length (b64name ?s)), iv', b64name ?s @ replicate 1 0)"
      using block_encode_eq [OF bs(1) mac enc(1,2) a_def] le by simp
    show "0 \<notin> set (b64name ?s)" using b64name_safe [OF s(1)] by auto
  qed (simp_all add: le)
  moreover have "codeComponent (int (length ?P)) (block_decodeName ?v ?bs c key) (b64name ?s) iv = Inr (name, iv')"
  proof (rule codeComponent_zeros [where m = "length ?P + 1 - length name"])
    show "block_decodeName ?v ?bs c key (b64name ?s) iv (replicate (nat (int (length ?P)) + 1) 0)
        = Inr (int (length name), iv', name @ replicate (length ?P + 1 - length name) 0)"
      using block_decode_eq [OF bs mac enc(3,2)] by simp
    show "0 \<notin> set name" using good by (simp add: goodName_def)
  qed (use P(3) in simp_all)
  moreover have "0 < a" "0 < length ?P" using P(2) by (auto simp: a_def)
  ultimately show "\<exists>e iv'. 0 < ni_maxEncodedNameLen ?n (int (length name)) \<and>
      codeComponent (ni_maxEncodedNameLen ?n (int (length name))) (ni_encodeName ?n) name iv = Inr (e, iv') \<and>
      goodName e \<and> (iv' = None) = (iv = None) \<and>
      0 < ni_maxDecodedNameLen ?n (int (length e)) \<and>
      codeComponent (ni_maxDecodedNameLen ?n (int (length e))) (ni_decodeName ?n) e iv = Inr (name, iv')"
    unfolding n0 me
    by (intro exI [of _ "b64name ?s"] exI [of _ iv'])
       (simp add: le md goodName_b64name [OF s(1)] cipher_laws.mac16_iv [OF laws mac])
qed

subsection \<open>Properties\<close>

lemma null_block_name_coder:
  "name_coder (projr (NewBlockNameIO iface (NullCipher i) ()))"
  using block_name_coder [OF NullCipher_laws, where key = "()" and iface = iface and ch = False and rv = False]
  by (simp add: NewBlockNameIO_def BlockNameIO_def NullCipher_def)

interpretation blockname: name_coder "projr (NewBlockNameIO iface (NullCipher i) ())" for iface i
  by (rule null_block_name_coder)

text \<open>
  C7: block name coding is reversible: over every cipher that keeps its contract, with or
  without IV chaining, for every interface version, encoding a path and decoding the
  result with the same starting IV gives the path back (without leading slashes), and
  both leave the same IV for the names below it; with reverse encryption the two
  functions swap roles.
\<close>
theorem block_path_roundtrip:
  assumes "cipher_laws c ok" and "ok key" and "NewBlockNameIO iface c key = Inr n0"
    and "\<forall>x \<in> set path. x \<noteq> 0"
  shows "let n = setReverseEncryption rv (setChainedNameIV ch n0) in
     \<exists>q iv'. if rv
       then decodePath_iv n path iv = Inr (q, iv') \<and>
            encodePath_iv n q iv = Inr (dropWhile (\<lambda>x. x = 47) path, iv')
       else encodePath_iv n path iv = Inr (q, iv') \<and>
            decodePath_iv n q iv = Inr (dropWhile (\<lambda>x. x = 47) path, iv')"
proof -
  let ?n = "n0\<lparr>ni_chainedNameIV := ch, ni_reverseEncryption := rv\<rparr>"
  have "name_coder ?n"
    using block_name_coder [OF assms(1,2)] assms(3) unfolding NewBlockNameIO_def by blast
  from name_coder.public_path_roundtrip [OF this assms(4), of iv] show ?thesis
    by (simp add: setReverseEncryption_def setChainedNameIV_def Let_def)
qed

theorem block_path_roundtrip_witness:
  "let n = setReverseEncryption False (setChainedNameIV True
             (projr (NewBlockNameIO BlockNameIO_CurrentInterface (NullCipher NullInterface) ()))) in
     \<exists>q iv'. if False
       then decodePath_iv n (lit ''/d/name'') 0 = Inr (q, iv') \<and>
            encodePath_iv n q 0 = Inr (dropWhile (\<lambda>x. x = 47) (lit ''/d/name''), iv')
       else encodePath_iv n (lit ''/d/name'') 0 = Inr (q, iv') \<and>
            decodePath_iv n q 0 = Inr (dropWhile (\<lambda>x. x = 47) (lit ''/d/name''), iv')"
  by (rule block_path_roundtrip [OF NullCipher_laws])
     (simp_all add: NewBlockNameIO_def BlockNameIO_def NullCipher_def lit_def)

text \<open>
  an encoded block name has exactly the estimated length, which depends only on the
  number of cipher blocks the name needs, and no character of it is NUL, dot or slash.
\<close>
theorem block_name_shape:
  assumes "cipher_laws c ok" and "ok key" and "NewBlockNameIO iface c key = Inr n0"
  shows "\<exists>e. encodeName n0 name = Inr e \<and>
             int (length e) = ni_maxEncodedNameLen n0 (int (length name)) \<and>
             length e = ((vt_cipherBlockSize c * (length name div vt_cipherBlockSize c + 1) + 2) * 8 + 5) div 6 \<and>
             (\<forall>x \<in> set e. x \<noteq> 0 \<and> x \<noteq> 46 \<and> x \<noteq> 47)"
proof -
  let ?bs = "vt_cipherBlockSize c" and ?v = "iface_current iface"
  let ?P = "padded ?bs name"
  have bs: "0 < ?bs" using cipher_laws.bs_pos [OF assms(1)] .
  have n0: "ni_maxEncodedNameLen n0 = block_maxEncodedNameLen (int ?bs)"
      "ni_encodeName n0 = block_encodeName ?v ?bs c key" "ni_reverseEncryption n0 = False"
    using assms(3) by (auto simp: NewBlockNameIO_def BlockNameIO_def rbind_Inr_iff)
  note P = padded_facts [OF bs, of name]
  obtain mac iv' where mac: "MAC_16 c ?P key None = Inr (mac, iv')"
    using cipher_laws.mac16_total [OF assms(1,2) P(2)] by blast
  obtain enc where enc: "vt_blockEncode c ?P (ucast mac XOR ivOr0 (?v \<ge> 3) None) key = Inr (True, enc)"
      "length enc = length ?P"
    using cipher_laws.block_enc [OF assms(1,2) P(2,1)] by blast
  let ?s = "block_stream mac enc"
  define a where "a = ((length ?P + 2) * 8 + 5) div 6"
  have s: "?s \<noteq> []" "length ?s = length ?P + 2" using enc(2) by (auto simp: block_stream_def macBytes_def)
  have le: "length (b64name ?s) = a" using length_b64name [OF s(1)] s(2) by (simp add: a_def)
  have me: "ni_maxEncodedNameLen n0 (int (length name)) = int a"
    unfolding n0 a_def by (rule block_max_exact [OF bs])
  have "codeComponent (int a) (block_encodeName ?v ?bs c key) name None = Inr (b64name ?s, iv')"
  proof (rule codeComponent_zeros [where m = 1])
    show "block_encodeName ?v ?bs c key name None (replicate (nat (int a) + 1) 0)
        = Inr (int (length (b64name ?s)), iv', b64name ?s @ replicate 1 0)"
      using block_encode_eq [OF bs mac enc(1,2) a_def] le by simp
    show "0 \<notin> set (b64name ?s)" using b64name_safe [OF s(1)] by auto
  qed (simp_all add: le)
  then have "encodeName n0 name = Inr (b64name ?s)"
    by (simp add: encodeName_def encodeName_raw_def me n0(2,3))
  moreover have "length ?P = ?bs * (length name div ?bs + 1)"
  proof -
    have "length name = length name div ?bs * ?bs + length name mod ?bs" by simp
    moreover have "?bs * (length name div ?bs + 1) = length name div ?bs * ?bs + ?bs" by simp
    moreover have "length name mod ?bs < ?bs" using bs by simp
    ultimately show ?thesis using P(3) by linarith
  qed
  ultimately show ?thesis
    using me le b64name_safe [OF s(1)] by (auto simp: a_def)
qed

theorem block_name_shape_witness:
  "\<exists>e. encodeName (projr (NewBlockNameIO BlockNameIO_CurrentInterface (NullCipher NullInterface) ())) (lit ''abc'') = Inr e \<and>
     length e = 8"
proof -
  let ?r = "NewBlockNameIO BlockNameIO_CurrentInterface (NullCipher NullInterface) ()"
  have r: "?r = Inr (projr ?r)" and bs: "vt_cipherBlockSize (NullCipher NullInterface) = 1"
    by (simp_all add: NewBlockNameIO_def BlockNameIO_def NullCipher_def)
  obtain e where "encodeName (projr ?r) (lit ''abc'') = Inr e"
      "length e = ((1 * (length (lit ''abc'') div 1 + 1) + 2) * 8 + 5) div 6"
    using block_name_shape [OF NullCipher_laws _ r, of "lit ''abc''", unfolded bs] by auto
  then show ?thesis by (auto simp: lit_def)
qed

text \<open>
  C29: a block name is accepted only when its first two bytes are the checksum, under the
  key and the chained IV, of everything it decrypts to; the name returned is that text
  without its padding, and the padding is not larger than a block.
\<close>
theorem block_decode_checked:
  assumes "block_decodeName version bs c key e iv buf = Inr (len, iv', out)"
  shows "\<exists>ok dec. let tmp = fromBase64Name e; n = nat (B64ToB256Bytes (int (length e)) - 2) in
           int bs \<le> B64ToB256Bytes (int (length e)) - 2 \<and>
           vt_blockDecode c (take n (drop 2 tmp)) (ucast (macOf tmp) XOR ivOr0 (version \<ge> 3) iv) key = Inr (ok, dec) \<and>
           MAC_16 c (take n (drop 2 (overlay 2 dec tmp))) key iv = Inr (macOf tmp, iv') \<and>
           0 \<le> len \<and> int n - int bs \<le> len \<and> len \<le> int n \<and>
           out = (overlay 0 (take (nat len) (drop 2 (overlay 2 dec tmp))) buf)[nat len := 0]"
proof -
  let ?t = "fromBase64Name e" and ?n = "nat (B64ToB256Bytes (int (length e)) - 2)"
  have small: "\<not> B64ToB256Bytes (int (length e)) - 2 < int bs"
    using assms by (auto simp: block_decodeName_def Let_def split: if_splits)
  then obtain ok dec where d: "vt_blockDecode c (take ?n (drop 2 ?t))
      (ucast (macOf ?t) XOR ivOr0 (version \<ge> 3) iv) key = Inr (ok, dec)"
    using assms by (auto simp: block_decodeName_def Let_def rbind_Inr_iff)
  let ?u = "overlay 2 dec ?t"
  let ?pad = "uint (?u ! (2 + ?n - 1))"
  have fs: "\<not> (?pad > int bs \<or> B64ToB256Bytes (int (length e)) - 2 - ?pad < 0)"
    using assms small d by (auto simp: block_decodeName_def Let_def split: if_splits)
  obtain mac2 where m: "MAC_16 c (take ?n (drop 2 ?u)) key iv = Inr (mac2, iv')" "mac2 = macOf ?t"
      "len = B64ToB256Bytes (int (length e)) - 2 - ?pad"
      "out = (overlay 0 (take (nat len) (drop 2 ?u)) buf)[nat len := 0]"
    using assms small d fs
    by (auto simp: block_decodeName_def Let_def rbind_Inr_iff split: if_splits)
  have "0 \<le> ?pad" by simp
  then show ?thesis
    unfolding Let_def using d m small fs
    by (intro exI [of _ ok] exI [of _ dec]) auto
qed

theorem block_decode_checked_witness:
  "\<exists>ok dec. let tmp = fromBase64Name (b64name [0, 0, 97, 1]);
        n = nat (B64ToB256Bytes (int (length (b64name [0, 0, 97, 1]))) - 2) in
     int 1 \<le> B64ToB256Bytes (int (length (b64name [0, 0, 97, 1]))) - 2 \<and>
     vt_blockDecode (NullCipher NullInterface) (take n (drop 2 tmp))
       (ucast (macOf tmp) XOR ivOr0 ((3 :: int) \<ge> 3) None) () = Inr (ok, dec) \<and>
     MAC_16 (NullCipher NullInterface) (take n (drop 2 (overlay 2 dec tmp))) () None = Inr (macOf tmp, None) \<and>
     0 \<le> (1 :: int) \<and> int n - int 1 \<le> 1 \<and> 1 \<le> int n \<and>
     [97, 0, 0] = (overlay 0 (take (nat 1) (drop 2 (overlay 2 dec tmp))) [0, 0, 0])[nat 1 := 0]"
proof (rule block_decode_checked)
  have p: "padded 1 [97] = [97, 1]" "padded (Suc 0) [97] = [97, 1]" by (simp_all add: padded_def)
  have "block_decodeName 3 1 (NullCipher NullInterface) () (b64name (block_stream 0 [97, 1])) None
      (replicate (length (padded 1 [97]) + 1) 0)
    = Inr (int (length [97 :: byte]), None, [97] @ replicate (length (padded 1 [97]) + 1 - length [97 :: byte]) 0)"
    by (rule block_decode_eq [where ok = True])
       (simp_all add: p NullCipher_def MAC_16_def mac16_of_def mac32_of_def)
  then show "block_decodeName 3 1 (NullCipher NullInterface) () (b64name [0, 0, 97, 1]) None [0, 0, 0]
    = Inr (1, None, [97, 0, 0])"
    by (simp add: p block_stream_def macBytes_def numeral_2_eq_2 numeral_3_eq_3)
qed

end
