(* ===== verification/StreamNameIO.thy ===== *)
theory StreamNameIO
  imports NameIO NullNameIO
begin

text \<open>
  The stream name coding of \<open>encfs/StreamNameIO.cpp\<close>, which keeps names short: the
  checksum of the name is stored before it (after it in version 0) and is the IV of its
  stream encryption.
\<close>

definition StreamNameIO_CurrentInterface :: interface where
  "StreamNameIO_CurrentInterface = Interface (lit ''nameio/stream'') 2 1 2"

definition stream_maxEncodedNameLen :: "int \<Rightarrow> int" where
  "stream_maxEncodedNameLen plaintextStreamLen =
     (let encodedStreamLen = 2 + plaintextStreamLen in B256ToB64Bytes encodedStreamLen)"

definition stream_maxDecodedNameLen :: "int \<Rightarrow> int" where
  "stream_maxDecodedNameLen encodedStreamLen =
     (let decLen256 = B64ToB256Bytes encodedStreamLen in decLen256 - 2)"

definition stream_encodeName :: "int \<Rightarrow> 'k cipher \<Rightarrow> 'k \<Rightarrow> name_code" where
  "stream_encodeName version cipher key plaintextName iv encodedName =
     (let len = length plaintextName;
          tmpIV = ivOr0 (version \<ge> 2) iv in
      rbind (MAC_16 cipher plaintextName key iv) (\<lambda>(mac, iv).
      let (encodedName, encodeBegin) =
            (if version \<ge> 1 then (overlay 0 (macBytes mac) encodedName, 2)
             else (overlay len (macBytes mac) encodedName, 0));
          encodedName = overlay encodeBegin plaintextName encodedName in
      rbind (nameEncode cipher (take len (drop encodeBegin encodedName)) (ucast mac XOR tmpIV) key) (\<lambda>(_, enc).
      let encodedName = overlay encodeBegin enc encodedName;
          (encLen64, encodedName) = toBase64Name (len + 2) encodedName
      in Inr (encLen64, iv, encodedName))))"

definition stream_decodeName :: "int \<Rightarrow> 'k cipher \<Rightarrow> 'k \<Rightarrow> name_code" where
  "stream_decodeName version cipher key encodedName iv plaintextName =
     rbind (rAssert (length encodedName > 2)) (\<lambda>_.
     let decLen256 = B64ToB256Bytes (int (length encodedName));
         decodedStreamLen = decLen256 - 2;
         dsl = nat decodedStreamLen in
     if decodedStreamLen \<le> 0 then Inl NameTooSmall
     else
    (let tmpBuf = fromBase64Name encodedName;
         (mac, tmpIV, plaintextName) =
           (if version \<ge> 1
            then (macOf tmpBuf, ivOr0 (version \<ge> 2) iv,
                  overlay 0 (take dsl (drop 2 tmpBuf)) plaintextName)
            else (macOf (drop dsl tmpBuf), 0, overlay 0 (take dsl tmpBuf) plaintextName)) in
     rbind (nameDecode cipher (take dsl plaintextName) (ucast mac XOR tmpIV) key) (\<lambda>(_, dec).
     let plaintextName = overlay 0 dec plaintextName in
     rbind (MAC_16 cipher (take dsl plaintextName) key iv) (\<lambda>(mac2, iv).
     if mac2 \<noteq> mac then Inl ChecksumMismatch
     else Inr (decodedStreamLen, iv, plaintextName)))))"

definition StreamNameIO :: "interface \<Rightarrow> 'k cipher \<Rightarrow> 'k \<Rightarrow> nameio" where
  "StreamNameIO iface cipher key =
     \<lparr>ni_Interface = StreamNameIO_CurrentInterface,
      ni_maxEncodedNameLen = stream_maxEncodedNameLen,
      ni_maxDecodedNameLen = stream_maxDecodedNameLen,
      ni_encodeName = stream_encodeName (iface_current iface) cipher key,
      ni_decodeName = stream_decodeName (iface_current iface) cipher key,
      ni_chainedNameIV = False, ni_reverseEncryption = False\<rparr>"

definition NewStreamNameIO :: "interface \<Rightarrow> 'k cipher \<Rightarrow> 'k \<Rightarrow> nameio res" where
  "NewStreamNameIO iface cipher key = Inr (StreamNameIO iface cipher key)"

subsection \<open>What the encoder produces\<close>

definition stream_bytes :: "int \<Rightarrow> u32 \<Rightarrow> bytes \<Rightarrow> bytes" where
  "stream_bytes version mac enc = (if version \<ge> 1 then macBytes mac @ enc else enc @ macBytes mac)"

lemma length_stream_bytes [simp]: "length (stream_bytes version mac enc) = length enc + 2"
  by (simp add: stream_bytes_def)

lemma stream_bytes_ne [simp]: "stream_bytes version mac enc \<noteq> []"
  by (metis length_stream_bytes add_is_0 list.size(3) numeral_2_eq_2 nat.distinct(1))

text \<open>Version 0 was written without IV chaining: its IV argument is the null pointer.\<close>

lemma ivOr0_version: "(version :: int) < 1 \<Longrightarrow> ivOr0 (version \<ge> 2) iv = 0"
  by (cases iv) (simp_all add: ivOr0_def)

lemma stream_encode_eq:
  assumes mac: "MAC_16 c name key iv = Inr (mac, iv')"
    and enc: "nameEncode c name (ucast mac XOR ivOr0 (version \<ge> 2) iv) key = Inr (ok, enc)"
    and len: "length enc = length name" and a: "a = ((length name + 2) * 8 + 5) div 6"
  shows "stream_encodeName version c key name iv (replicate (Suc a) 0)
       = Inr (int a, iv', b64name (stream_bytes version mac enc) @ [0])"
proof -
  define m where "m = Suc a - (length name + 2)"
  define s where "s = stream_bytes version mac enc"
  have an: "length name + 2 \<le> a" unfolding a by presburger
  have z: "replicate (Suc a) (0 :: byte) = replicate k 0 @ replicate j 0" if "k + j = Suc a" for k j
    using that by (simp flip: replicate_add del: replicate_Suc)
  let ?b = "if version \<ge> 1 then (overlay 0 (macBytes mac) (replicate (Suc a) 0), 2)
             else (overlay (length name) (macBytes mac) (replicate (Suc a) 0), 0 :: nat)"
  have b1: "overlay 2 name (overlay 0 (macBytes mac) (replicate (Suc a) 0))
        = macBytes mac @ name @ replicate m 0"
    using an by (subst z [of 2 "Suc a - 2"]; simp add: overlay_def m_def del: replicate_Suc)
  have b2: "overlay 0 name (overlay (length name) (macBytes mac) (replicate (Suc a) 0))
        = name @ macBytes mac @ replicate m 0"
    using an by (subst z [of "length name" "Suc a - length name"]; simp add: overlay_def m_def del: replicate_Suc)
  have le: "length (b64name s) = a"
    using length_b64name [of s] len by (simp add: a s_def)
  have "(length s * 8 + 5) div 6 \<le> length s + m" "length s + m - a = 1"
    using an len by (auto simp: m_def a s_def)
  then have b5: "toBase64Name (length name + 2) (s @ replicate m 0) = (int a, b64name s @ [0])"
    using toBase64Name_zeros [of s m] le len by (simp add: s_def)
  show ?thesis
  proof (cases "version \<ge> 1")
    case True
    have "overlay 2 enc (macBytes mac @ name @ replicate m 0) = s @ replicate m 0"
      using True len by (simp add: overlay_append s_def stream_bytes_def)
    moreover have "take (length name) (drop 2 (macBytes mac @ name @ replicate m 0)) = name" by simp
    ultimately show ?thesis
      using b5 True by (simp only: stream_encodeName_def Let_def mac rbind.simps prod.case if_True b1 enc s_def)
  next
    case False
    have "overlay 0 enc (name @ macBytes mac @ replicate m 0) = s @ replicate m 0"
      using False len by (simp add: s_def stream_bytes_def)
    moreover have "take (length name) (drop 0 (name @ macBytes mac @ replicate m 0)) = name" by simp
    ultimately show ?thesis
      using b5 False by (simp only: stream_encodeName_def Let_def mac rbind.simps prod.case if_False b2 enc s_def)
  qed
qed

subsection \<open>What the decoder makes of it\<close>

lemma stream_decode_eq:
  assumes mac: "MAC_16 c name key iv = Inr (mac, iv')"
    and dec: "nameDecode c enc (ucast mac XOR ivOr0 (version \<ge> 2) iv) key = Inr (ok, name)"
    and len: "length enc = length name" and ne: "name \<noteq> []"
  shows "stream_decodeName version c key (b64name (stream_bytes version mac enc)) iv
            (replicate (length name + 1) 0)
       = Inr (int (length name), iv', name @ [0])"
proof -
  define s where "s = stream_bytes version mac enc"
  define t where "t = fromBase64Name (b64name s)"
  have sl: "length s = length name + 2" "s \<noteq> []" using len by (simp_all add: s_def)
  have dl: "B64ToB256Bytes (int (length (b64name s))) = int (length name) + 2"
    unfolding B64ToB256Bytes_int length_b64name [OF sl(2)] b64_size_roundtrip sl(1) by simp
  have l2: "(2 < length (b64name s)) = True"
    using length_b64name [OF sl(2)] sl(1) ne by (cases name) auto
  obtain junk where t: "t = s @ junk"
    using fromBase64Name_b64name(2) [OF sl(2)] append_take_drop_id [of "length s" t]
    unfolding t_def by metis
  have mb: "unat mac < 2 ^ 16" using MAC_16_bound [OF mac] .
  have dsl: "int (length name) + 2 - 2 = int (length name)" by simp
  have pos: "(int (length name) \<le> 0) = False" using ne by simp
  have r: "replicate (length name + 1) (0 :: byte) = replicate (length name) 0 @ [0]"
    by (simp add: replicate_append_same)
  have o: "overlay 0 enc (replicate (length name + 1) 0) = enc @ [0]"
    "overlay 0 name (enc @ [0]) = name @ [0]"
    using len unfolding r by simp_all
  have tk: "take (length name) (enc @ [0]) = enc" "take (length name) (name @ [0]) = name"
    using len by simp_all
  have same: "(mac \<noteq> mac) = False" by simp
  show ?thesis
  proof (cases "version \<ge> 1")
    case True
    have "macOf t = mac" using mb True unfolding t s_def stream_bytes_def by (simp add: macOf_macBytes)
    moreover have "take (length name) (drop 2 t) = enc"
      using True len unfolding t s_def stream_bytes_def by simp
    ultimately show ?thesis
      using True unfolding s_def [symmetric]
      by (simp only: stream_decodeName_def Let_def dl dsl nat_int pos l2 rAssert_True if_True if_False
          t_def [symmetric] rbind.simps prod.case o tk dec mac same)
  next
    case False
    have "macOf (drop (length name) t) = mac"
      using mb False len unfolding t s_def stream_bytes_def by (simp add: macOf_macBytes)
    moreover have "take (length name) t = enc"
      using False len unfolding t s_def stream_bytes_def by simp
    moreover have "nameDecode c enc (ucast mac XOR 0) key = Inr (ok, name)"
      using dec ivOr0_version [of version iv] False by simp
    ultimately show ?thesis
      using False unfolding s_def [symmetric]
      by (simp only: stream_decodeName_def Let_def dl dsl nat_int pos l2 rAssert_True if_True if_False
          t_def [symmetric] rbind.simps prod.case o tk mac same)
  qed
qed

lemma stream_name_coder:
  assumes laws: "cipher_laws c ok" and key: "ok key"
  shows "name_coder ((StreamNameIO iface c key)\<lparr>ni_chainedNameIV := ch, ni_reverseEncryption := rv\<rparr>)"
proof
  let ?n = "(StreamNameIO iface c key)\<lparr>ni_chainedNameIV := ch, ni_reverseEncryption := rv\<rparr>"
  let ?v = "iface_current iface"
  have n: "ni_maxEncodedNameLen ?n = stream_maxEncodedNameLen"
      "ni_maxDecodedNameLen ?n = stream_maxDecodedNameLen"
      "ni_encodeName ?n = stream_encodeName ?v c key"
      "ni_decodeName ?n = stream_decodeName ?v c key"
    by (simp_all add: StreamNameIO_def)
  fix name iv
  assume good: "goodName name"
  then have ne: "name \<noteq> []" by (simp add: goodName_def)
  obtain mac iv' where mac: "MAC_16 c name key iv = Inr (mac, iv')"
    using cipher_laws.mac16_total [OF laws key ne] by blast
  obtain enc where enc: "nameEncode c name (ucast mac XOR ivOr0 (?v \<ge> 2) iv) key = Inr (True, enc)"
      "length enc = length name"
      "nameDecode c enc (ucast mac XOR ivOr0 (?v \<ge> 2) iv) key = Inr (True, name)"
    using cipher_laws.stream_enc [OF laws key ne] unfolding nameEncode_def nameDecode_def by blast
  let ?s = "stream_bytes ?v mac enc"
  define a where "a = ((length name + 2) * 8 + 5) div 6"
  have le: "length (b64name ?s) = a" using length_b64name [of ?s] enc(2) by (simp add: a_def)
  have me: "stream_maxEncodedNameLen (int (length name)) = int a"
    using B256ToB64Bytes_int [of "length name + 2"] by (simp add: stream_maxEncodedNameLen_def a_def add.commute)
  have md: "stream_maxDecodedNameLen (int a) = int (length name)"
    unfolding stream_maxDecodedNameLen_def Let_def B64ToB256Bytes_int a_def b64_size_roundtrip by simp
  have "codeComponent (int a) (stream_encodeName ?v c key) name iv = Inr (b64name ?s, iv')"
  proof (rule codeComponent_zeros [where m = 1])
    show "stream_encodeName ?v c key name iv (replicate (nat (int a) + 1) 0)
        = Inr (int (length (b64name ?s)), iv', b64name ?s @ replicate 1 0)"
      using stream_encode_eq [OF mac enc(1,2) a_def] le by simp
    show "0 \<notin> set (b64name ?s)" using b64name_safe [of ?s] by auto
  qed (simp_all add: le)
  moreover have "codeComponent (int (length name)) (stream_decodeName ?v c key) (b64name ?s) iv = Inr (name, iv')"
  proof (rule codeComponent_zeros [where m = 1])
    show "stream_decodeName ?v c key (b64name ?s) iv (replicate (nat (int (length name)) + 1) 0)
        = Inr (int (length name), iv', name @ replicate 1 0)"
      using stream_decode_eq [OF mac enc(3,2) ne] by simp
    show "0 \<notin> set name" using good by (simp add: goodName_def)
  qed simp_all
  moreover have "0 < a" "0 < length name" using ne by (auto simp: a_def)
  ultimately show "\<exists>e iv'. 0 < ni_maxEncodedNameLen ?n (int (length name)) \<and>
      codeComponent (ni_maxEncodedNameLen ?n (int (length name))) (ni_encodeName ?n) name iv = Inr (e, iv') \<and>
      goodName e \<and> (iv' = None) = (iv = None) \<and>
      0 < ni_maxDecodedNameLen ?n (int (length e)) \<and>
      codeComponent (ni_maxDecodedNameLen ?n (int (length e))) (ni_decodeName ?n) e iv = Inr (name, iv')"
    unfolding n me
    by (intro exI [of _ "b64name ?s"] exI [of _ iv'])
       (simp add: le md goodName_b64name cipher_laws.mac16_iv [OF laws mac])
qed

interpretation streamname: name_coder
    "(StreamNameIO iface (NullCipher i) ())\<lparr>ni_chainedNameIV := ch, ni_reverseEncryption := rv\<rparr>"
  for iface i ch rv
  by (rule stream_name_coder [OF NullCipher_laws]) simp

subsection \<open>Properties\<close>

text \<open>
  C8: stream name coding is reversible in each of its three layouts (checksum at the end
  in version 0, at the start from version 1, full IV chaining from version 2), over every
  cipher that keeps its contract: encoding a path and decoding the result with the same
  starting IV gives the path back, and both leave the same IV.
\<close>
theorem stream_path_roundtrip:
  assumes "cipher_laws c ok" and "ok key" and "\<forall>x \<in> set path. x \<noteq> 0"
  shows "let n = setReverseEncryption rv (setChainedNameIV ch (StreamNameIO iface c key)) in
     \<exists>q iv'. if rv
       then decodePath_iv n path iv = Inr (q, iv') \<and>
            encodePath_iv n q iv = Inr (dropWhile (\<lambda>x. x = 47) path, iv')
       else encodePath_iv n path iv = Inr (q, iv') \<and>
            decodePath_iv n q iv = Inr (dropWhile (\<lambda>x. x = 47) path, iv')"
  using name_coder.public_path_roundtrip
      [OF stream_name_coder [OF assms(1,2), where iface = iface and ch = ch and rv = rv] assms(3), of iv]
  by (simp add: setReverseEncryption_def setChainedNameIV_def Let_def)

theorem stream_path_roundtrip_witness:
  "let n = setReverseEncryption True (setChainedNameIV True
             (StreamNameIO StreamNameIO_CurrentInterface (NullCipher NullInterface) ())) in
     \<exists>q iv'. if True
       then decodePath_iv n (lit ''../x/yz'') 7 = Inr (q, iv') \<and>
            encodePath_iv n q 7 = Inr (dropWhile (\<lambda>x. x = 47) (lit ''../x/yz''), iv')
       else encodePath_iv n (lit ''../x/yz'') 7 = Inr (q, iv') \<and>
            decodePath_iv n q 7 = Inr (dropWhile (\<lambda>x. x = 47) (lit ''../x/yz''), iv')"
  by (rule stream_path_roundtrip [OF NullCipher_laws]) (simp_all add: lit_def)

text \<open>
  a stream-coded name of two characters or fewer is refused by an assertion and a
  longer one is accepted only when the stored checksum is the MAC, under the key and the
  chained IV, of the text returned.
\<close>
theorem stream_decode_checked:
  assumes "cipher_laws c ok" and "ok key"
    and "stream_decodeName version c key e iv (replicate (nat (stream_maxDecodedNameLen (int (length e))) + 1) 0)
           = Inr (len, iv', out)"
  shows "2 < length e \<and> len = stream_maxDecodedNameLen (int (length e)) \<and> 0 < len \<and>
         length out = nat len + 1 \<and>
         (let tmp = fromBase64Name e;
              mac = macOf (if version \<ge> 1 then tmp else drop (nat len) tmp)
          in MAC_16 c (take (nat len) out) key iv = Inr (mac, iv'))"
proof -
  let ?d = "stream_maxDecodedNameLen (int (length e))"
  let ?t = "fromBase64Name e"
  let ?z = "replicate (nat ?d + 1) (0 :: byte)"
  let ?x = "if version \<ge> 1 then take (nat ?d) (drop 2 ?t) else take (nat ?d) ?t"
  let ?m = "macOf (if version \<ge> 1 then ?t else drop (nat ?d) ?t)"
  let ?iv = "if version \<ge> 1 then ivOr0 (version \<ge> 2) iv else 0"
  have d: "B64ToB256Bytes (int (length e)) - 2 = ?d" by (simp add: stream_maxDecodedNameLen_def Let_def)
  have l: "2 < length e" "0 < ?d"
    using assms(3) unfolding stream_decodeName_def Let_def d
    by (cases "2 < length e"; cases "?d \<le> 0"; simp)+
  have lx: "length ?x \<le> nat ?d" by simp
  have eq: "rbind (nameDecode c (take (nat ?d) (overlay 0 ?x ?z)) (ucast ?m XOR ?iv) key) (\<lambda>(_, dec).
     let plaintextName = overlay 0 dec (overlay 0 ?x ?z) in
     rbind (MAC_16 c (take (nat ?d) plaintextName) key iv) (\<lambda>(mac2, iv).
     if mac2 \<noteq> ?m then Inl ChecksumMismatch else Inr (?d, iv, plaintextName))) = Inr (len, iv', out)"
    using assms(3) l unfolding stream_decodeName_def Let_def d
    by (cases "version \<ge> 1") (simp_all only: if_True if_False rAssert_True rbind.simps prod.case not_le [symmetric] not_False_eq_True)
  have lo: "length (overlay 0 ?x ?z) = nat ?d + 1" using lx by (simp del: overlay_0)
  then have ne: "take (nat ?d) (overlay 0 ?x ?z) \<noteq> []" using l(2) by auto
  obtain dec where dec: "nameDecode c (take (nat ?d) (overlay 0 ?x ?z)) (ucast ?m XOR ?iv) key = Inr (True, dec)"
      "length dec = nat ?d"
  proof -
    have "length (take (nat ?d) (overlay 0 ?x ?z)) = nat ?d" using lo by (simp del: overlay_0)
    then show thesis
      using cipher_laws.stream_dec [OF assms(1,2) ne, of "ucast ?m XOR ?iv"] that
      unfolding nameDecode_def by metis
  qed
  note eq' = eq [unfolded dec(1) rbind.simps prod.case Let_def]
  define o2 where "o2 = overlay 0 dec (overlay 0 ?x ?z)"
  obtain mac2 iv2 where mc: "MAC_16 c (take (nat ?d) o2) key iv = Inr (mac2, iv2)"
    using eq' unfolding o2_def [symmetric] by (cases "MAC_16 c (take (nat ?d) o2) key iv") auto
  have "(if mac2 \<noteq> ?m then Inl ChecksumMismatch else Inr (?d, iv2, o2)) = Inr (len, iv', out)"
    using eq' unfolding o2_def [symmetric] mc rbind.simps prod.case by assumption
  then have "len = ?d" "out = o2" "mac2 = ?m" "iv2 = iv'"
    by (simp_all split: if_split_asm)
  then have m: "MAC_16 c (take (nat ?d) out) key iv = Inr (?m, iv')" using mc by (simp only:)
  have "length o2 = nat ?d + 1" using lo dec(2) unfolding o2_def by (simp del: overlay_0)
  then show ?thesis
    unfolding Let_def \<open>len = ?d\<close> using l m \<open>out = o2\<close> by (intro conjI) (simp_all only:)
qed

theorem stream_decode_checked_witness:
  "2 < length (b64name [0, 0, 97]) \<and>
   (let tmp = fromBase64Name (b64name [0, 0, 97])
    in MAC_16 (NullCipher NullInterface) (take 1 [97, 0]) () None = Inr (macOf tmp, None))"
proof -
  have "stream_decodeName 2 (NullCipher NullInterface) () (b64name (stream_bytes 2 0 [97])) None
      (replicate (length [97 :: byte] + 1) 0) = Inr (int (length [97 :: byte]), None, [97] @ [0])"
    by (rule stream_decode_eq [where ok = True])
       (simp_all add: NullCipher_def MAC_16_def mac16_of_def mac32_of_def nameDecode_def)
  moreover have l: "length (b64name [0, 0, 97]) = 4" by (simp add: length_b64name)
  moreover have m: "stream_maxDecodedNameLen (int (length (b64name [0, 0, 97]))) = 1"
    unfolding l using B64ToB256Bytes_int [of 4] by (simp add: stream_maxDecodedNameLen_def)
  ultimately have "stream_decodeName 2 (NullCipher NullInterface) () (b64name [0, 0, 97]) None
      (replicate (nat (stream_maxDecodedNameLen (int (length (b64name [0, 0, 97])))) + 1) 0)
      = Inr (1, None, [97, 0])"
    unfolding m by (simp add: stream_bytes_def macBytes_def)
  from stream_decode_checked [OF NullCipher_laws _ this] show ?thesis by (simp add: Let_def)
qed

end
