(* ===== verification/FSConfig.thy ===== *)
theory FSConfig
  imports NameIO
begin

text \<open>
  The configuration of a volume and of a mount: \<open>encfs/FSConfig.h\<close> and the options of
  \<open>encfs/FileUtils.h\<close>.
\<close>

datatype ConfigType =
    Config_None
  | Config_Prehistoric
  | Config_V3
  | Config_V4
  | Config_V5
  | Config_V6

datatype ConfigMode = Config_Prompt | Config_Standard | Config_Paranoia

text \<open>The fields keep their names, with a prefix.\<close>

record EncFSConfig =
  c_cfgType :: ConfigType
  c_creator :: bytes
  c_subVersion :: int
  c_cipherIface :: interface
  c_nameIface :: interface
  c_keySize :: int
  c_blockSize :: int
  c_keyData :: bytes
  c_salt :: bytes
  c_kdfIterations :: int
  c_desiredKDFDuration :: int
  c_blockMACBytes :: int
  c_blockMACRandBytes :: int
  c_uniqueIV :: bool
  c_externalIVChaining :: bool
  c_chainedNameIV :: bool
  c_allowHoles :: bool

text \<open>
  The constructor; \<open>keySize\<close> and \<open>blockSize\<close> are not initialised and are parameters.
\<close>

definition EncFSConfig_new :: "int \<Rightarrow> int \<Rightarrow> EncFSConfig" where
  "EncFSConfig_new keySize blockSize =
     \<lparr>c_cfgType = Config_None, c_creator = [], c_subVersion = 0, c_cipherIface = Interface [] 0 0 0,
      c_nameIface = Interface [] 0 0 0, c_keySize = keySize, c_blockSize = blockSize, c_keyData = [],
      c_salt = [], c_kdfIterations = 0, c_desiredKDFDuration = 500, c_blockMACBytes = 0,
      c_blockMACRandBytes = 0, c_uniqueIV = False, c_externalIVChaining = False,
      c_chainedNameIV = False, c_allowHoles = False\<rparr>"

record EncFS_Opts =
  o_rootDir :: bytes
  o_createIfNotFound :: bool
  o_idleTracking :: bool
  o_mountOnDemand :: bool
  o_checkKey :: bool
  o_forceDecode :: bool
  o_passwordProgram :: bytes
  o_useStdin :: bool
  o_ownerCreate :: bool
  o_reverseEncryption :: bool
  o_configMode :: ConfigMode

definition EncFS_Opts_new :: EncFS_Opts where
  "EncFS_Opts_new =
     \<lparr>o_rootDir = [], o_createIfNotFound = True, o_idleTracking = False, o_mountOnDemand = False,
      o_checkKey = True, o_forceDecode = False, o_passwordProgram = [], o_useStdin = False,
      o_ownerCreate = False, o_reverseEncryption = False, o_configMode = Config_Prompt\<rparr>"

record 'k FSConfig =
  fs_config :: EncFSConfig
  fs_opts :: EncFS_Opts
  fs_cipher :: "'k cipher"
  fs_key :: 'k
  fs_nameCoding :: nameio
  fs_forceDecode :: bool
  fs_reverseEncryption :: bool
  fs_idleTracking :: bool

end
