(* ===== verification/FileIO.thy ===== *)
theory FileIO
  imports Prelude
begin

text \<open>
  The file interface of \<open>encfs/FileIO.h\<close> as a table of virtual functions over an
  explicit state, the combinators that thread the state and the exceptions, and the
  contract of a file as a string of bytes (locale \<open>byte_file\<close>), which every layer of the
  file stack provides to the layer above it.
\<close>

subsection \<open>State and exceptions\<close>

text \<open>A method changes the object, also when it throws.\<close>

type_synonym ('s, 'a) sm = "'s \<Rightarrow> 'a res \<times> 's"

definition sret :: "'a \<Rightarrow> ('s, 'a) sm" where
  "sret x s = (Inr x, s)"

definition sthrow :: "rerror \<Rightarrow> ('s, 'a) sm" where
  "sthrow e s = (Inl e, s)"

definition sbind :: "('s, 'a) sm \<Rightarrow> ('a \<Rightarrow> ('s, 'b) sm) \<Rightarrow> ('s, 'b) sm" where
  "sbind m f s = (case m s of (Inl e, s') \<Rightarrow> (Inl e, s') | (Inr x, s') \<Rightarrow> f x s')"

definition sres :: "'a res \<Rightarrow> ('s, 'a) sm" where
  "sres r s = (r, s)"

definition sget :: "('s \<Rightarrow> 'a) \<Rightarrow> ('s, 'a) sm" where
  "sget g s = (Inr (g s), s)"

definition smod :: "('s \<Rightarrow> 's) \<Rightarrow> ('s, unit) sm" where
  "smod u s = (Inr (), u s)"

text \<open>A method of a part of the object: the second component, or the field of a record.\<close>

definition onSnd :: "('s, 'a) sm \<Rightarrow> ('c \<times> 's, 'a) sm" where
  "onSnd m cs = (case m (snd cs) of (r, s') \<Rightarrow> (r, (fst cs, s')))"

lemma sbind_assoc: "sbind (sbind m f) g = sbind m (\<lambda>x. sbind (f x) g)"
  by (auto simp: sbind_def fun_eq_iff split: sum.splits prod.splits)

text \<open>The method returns normally and its result and the new state satisfy \<open>P\<close>.\<close>

definition returns :: "('s, 'a) sm \<Rightarrow> 's \<Rightarrow> ('a \<Rightarrow> 's \<Rightarrow> bool) \<Rightarrow> bool" where
  "returns m s P \<longleftrightarrow> (case m s of (Inl e, s') \<Rightarrow> False | (Inr x, s') \<Rightarrow> P x s')"

named_theorems wp

lemma returns_sret [wp, simp]: "returns (sret x) s P = P x s"
  by (simp add: returns_def sret_def)

lemma returns_sbind [wp]: "returns (sbind m f) s P = returns m s (\<lambda>x s'. returns (f x) s' P)"
  by (auto simp: returns_def sbind_def split: sum.splits prod.splits)

lemma returns_sget [wp, simp]: "returns (sget g) s P = P (g s) s"
  by (simp add: returns_def sget_def)

lemma returns_smod [wp, simp]: "returns (smod u) s P = P () (u s)"
  by (simp add: returns_def smod_def)

lemma returns_sres [wp]: "returns (sres r) s P = (case r of Inl e \<Rightarrow> False | Inr x \<Rightarrow> P x s)"
  by (simp add: returns_def sres_def split: sum.splits)

lemma returns_onSnd [wp]: "returns (onSnd m) (c, s) P = returns m s (\<lambda>x s'. P x (c, s'))"
  by (auto simp: returns_def onSnd_def split: sum.splits prod.splits)

lemma returns_step: "m s = (Inr x, s') \<Longrightarrow> returns m s P = P x s'"
  by (simp add: returns_def)

lemma returns_mono:
  "returns m s P \<Longrightarrow> (\<And>x s'. P x s' \<Longrightarrow> Q x s') \<Longrightarrow> returns m s Q"
  by (auto simp: returns_def split: sum.splits prod.splits)

lemma returns_iff: "returns m s P \<longleftrightarrow> (\<exists>x s'. m s = (Inr x, s') \<and> P x s')"
  by (cases "m s"; cases "fst (m s)") (auto simp: returns_def)

subsection \<open>The interface\<close>

text \<open>
  \<open>struct stat\<close> as far as the program looks at it; the open flags and the error numbers
  are those of the Microsoft C library.
\<close>

record stat =
  st_mode :: u32
  st_size :: int

definition S_ISREG :: "u32 \<Rightarrow> bool" where
  "S_ISREG mode \<longleftrightarrow> mode AND 0xf000 = 0x8000"

definition S_ISDIR :: "u32 \<Rightarrow> bool" where
  "S_ISDIR mode \<longleftrightarrow> mode AND 0xf000 = 0x4000"

definition EACCES :: int where "EACCES = 13"
definition EISDIR :: int where "EISDIR = 21"
definition EIO :: int where "EIO = 5"
definition ENOSYS :: int where "ENOSYS = 40"

definition O_RDONLY :: int where "O_RDONLY = 0"
definition O_WRONLY :: int where "O_WRONLY = 1"
definition O_RDWR :: int where "O_RDWR = 2"

text \<open>
  A read returns the bytes read, or \<open>None\<close> for a negative count.  Offsets of requests
  are not negative; sizes are, when the file cannot be examined.
\<close>

record 's fileio =
  fio_blockSize :: nat
  fio_setFileName :: "bytes \<Rightarrow> ('s, unit) sm"
  fio_getFileName :: "'s \<Rightarrow> bytes"
  fio_setIV :: "u64 \<Rightarrow> ('s, bool) sm"
  fio_open :: "int \<Rightarrow> ('s, int) sm"
  fio_getAttr :: "('s, int \<times> stat) sm"
  fio_getSize :: "('s, int) sm"
  fio_read :: "nat \<Rightarrow> nat \<Rightarrow> ('s, bytes option) sm"
  fio_write :: "nat \<Rightarrow> bytes \<Rightarrow> ('s, bool) sm"
  fio_truncate :: "nat \<Rightarrow> ('s, int) sm"
  fio_isWritable :: "'s \<Rightarrow> bool"

text \<open>The defaults of the base class.\<close>

definition FileIO_blockSize :: nat where
  "FileIO_blockSize = 1"

definition FileIO_setIV :: "u64 \<Rightarrow> ('s, bool) sm" where
  "FileIO_setIV iv = sret True"

subsection \<open>Files as byte strings\<close>

text \<open>What writing does to the contents: a gap is filled with zeros.\<close>

definition put :: "nat \<Rightarrow> bytes \<Rightarrow> bytes \<Rightarrow> bytes" where
  "put off d x = take off (x @ replicate (off - length x) 0) @ d @ drop (off + length d) x"

definition resize :: "nat \<Rightarrow> bytes \<Rightarrow> bytes" where
  "resize n x = take n (x @ replicate (n - length x) 0)"

lemma length_put [simp]: "length (put off d x) = max (length x) (off + length d)"
  by (auto simp: put_def)

lemma nth_put:
  "i < length (put off d x) \<Longrightarrow> put off d x ! i =
     (if i < off then (if i < length x then x ! i else 0)
      else if i < off + length d then d ! (i - off) else x ! i)"
  by (auto simp: put_def nth_append min_def not_less)

lemma length_resize [simp]: "length (resize n x) = n"
  by (simp add: resize_def)

lemma nth_resize: "i < n \<Longrightarrow> resize n x ! i = (if i < length x then x ! i else 0)"
  by (simp add: resize_def nth_append)

lemma put_put:
  "length d = a \<Longrightarrow> put (off + a) d2 (put off d x) = put off (d @ d2) x"
  by (rule nth_equalityI) (auto simp: nth_put nth_append)

lemma put_Nil: "off \<le> length x \<Longrightarrow> put off [] x = x"
  by (simp add: put_def)

lemma put_resize: "length x \<le> n \<Longrightarrow> n \<le> off \<Longrightarrow> put off d (resize n x) = put off d x"
  by (rule nth_equalityI) (auto simp: nth_put nth_resize)

lemma put_zeros: "put n (replicate m 0) (resize n x) = resize (n + m) (take n x)"
  by (rule nth_equalityI) (auto simp: nth_put nth_resize)

lemma resize_same [simp]: "resize (length x) x = x"
  by (simp add: resize_def)

lemma resize_resize: "length x \<le> n \<Longrightarrow> n \<le> m \<Longrightarrow> resize m (resize n x) = resize m x"
  by (rule nth_equalityI) (auto simp: nth_resize)

locale byte_file =
  fixes f :: "'s fileio" and inv :: "'s \<Rightarrow> bool" and content :: "'s \<Rightarrow> bytes"
  assumes getSize_ok: "inv s \<Longrightarrow> returns (fio_getSize f) s
      (\<lambda>n s'. n = int (length (content s)) \<and> inv s' \<and> content s' = content s)"
    and read_ok: "inv s \<Longrightarrow> returns (fio_read f off len) s
      (\<lambda>r s'. r = Some (take len (drop off (content s))) \<and> inv s' \<and> content s' = content s)"
    and write_ok: "inv s \<Longrightarrow> d \<noteq> [] \<Longrightarrow> returns (fio_write f off d) s
      (\<lambda>ok s'. ok \<and> inv s' \<and> content s' = put off d (content s))"
    and writable: "inv s \<Longrightarrow> fio_isWritable f s"
    and open_ok: "inv s \<Longrightarrow> returns (fio_open f flags) s
      (\<lambda>r s'. 0 \<le> r \<and> inv s' \<and> content s' = content s)"
begin

text \<open>What was written is read back, and the rest of the file is untouched.\<close>

lemma write_read:
  assumes "inv s" and "d \<noteq> []"
  shows "returns (sbind (fio_write f off d) (\<lambda>_. fio_read f off (length d))) s (\<lambda>r s'. r = Some d)"
  unfolding returns_sbind
proof (rule returns_mono [OF write_ok [OF assms, of off]])
  fix ok s'
  assume w: "ok \<and> inv s' \<and> content s' = put off d (content s)"
  then have "take (length d) (drop off (content s')) = d"
    by (simp add: put_def)
  then show "returns (fio_read f off (length d)) s' (\<lambda>r s'. r = Some d)"
    using read_ok [of s' off "length d"] w by (auto elim: returns_mono)
qed

end

text \<open>
  A file that can also be cut or extended to the lengths \<open>safe\<close> allows; new bytes are zero.
\<close>

locale trunc_file = byte_file +
  fixes safe :: "'a \<Rightarrow> nat \<Rightarrow> bool"
  assumes truncate_ok: "inv s \<Longrightarrow> safe s n \<Longrightarrow> returns (fio_truncate f n) s
      (\<lambda>r s'. r = 0 \<and> inv s' \<and> content s' = resize n (content s))"

end
