(* ===== verification/Blocks.thy ===== *)
theory Blocks
  imports FileIO
begin

text \<open>
  Byte strings coded block by block: the stored blocks have \<open>B\<close> bytes, the last one may
  be shorter, and the data of the \<open>k\<close>-th block is a function \<open>f k\<close> of its bytes.  The
  encrypted files (\<open>CipherFileIO\<close>) and the files with block headers (\<open>MACFileIO\<close>) are
  read this way; the locale \<open>block_coding\<close> is what the two have in common.
\<close>

function mapBlocks :: "nat \<Rightarrow> (nat \<Rightarrow> bytes \<Rightarrow> bytes) \<Rightarrow> nat \<Rightarrow> bytes \<Rightarrow> bytes" where
  "mapBlocks B f k raw =
     (if raw = [] \<or> B = 0 then [] else f k (take B raw) @ mapBlocks B f (k + 1) (drop B raw))"
  by pat_completeness auto
termination by (relation "measure (\<lambda>(B, f, k, raw). length raw)") auto

declare mapBlocks.simps [simp del]

lemma mapBlocks_Nil [simp]: "mapBlocks B f k [] = []"
  by (simp add: mapBlocks.simps)

lemma mapBlocks_block: "0 < B \<Longrightarrow> length x = B \<Longrightarrow> mapBlocks B f k (x @ xs) = f k x @ mapBlocks B f (k + 1) xs"
  by (subst mapBlocks.simps) auto

lemma mapBlocks_last: "x \<noteq> [] \<Longrightarrow> length x \<le> B \<Longrightarrow> mapBlocks B f k x = f k x"
  by (subst mapBlocks.simps) auto

text \<open>The property \<open>P\<close> holds of every block.\<close>

function allBlocks :: "nat \<Rightarrow> (nat \<Rightarrow> bytes \<Rightarrow> bool) \<Rightarrow> nat \<Rightarrow> bytes \<Rightarrow> bool" where
  "allBlocks B P k raw \<longleftrightarrow>
     (if raw = [] \<or> B = 0 then True else P k (take B raw) \<and> allBlocks B P (k + 1) (drop B raw))"
  by pat_completeness auto
termination by (relation "measure (\<lambda>(B, P, k, raw). length raw)") auto

declare allBlocks.simps [simp del]

lemma allBlocks_Nil [simp]: "allBlocks B P k []"
  by (subst allBlocks.simps) simp

lemma allBlocks_block:
  "0 < B \<Longrightarrow> length x = B \<Longrightarrow> allBlocks B P k (x @ xs) = (P k x \<and> allBlocks B P (k + 1) xs)"
  by (subst allBlocks.simps) auto

lemma allBlocks_last: "x \<noteq> [] \<Longrightarrow> length x \<le> B \<Longrightarrow> 0 < B \<Longrightarrow> allBlocks B P k x = P k x"
  by (subst allBlocks.simps) auto

lemma allBlocks_nth:
  "allBlocks B P k raw \<Longrightarrow> 0 < B \<Longrightarrow> j * B < length raw \<Longrightarrow> P (k + j) (take B (drop (j * B) raw))"
proof (induction j arbitrary: k raw)
  case 0
  then show ?case by (subst (asm) allBlocks.simps) auto
next
  case (Suc j)
  have "allBlocks B P (k + 1) (drop B raw)" using Suc(2,3,4) by (subst (asm) allBlocks.simps) (auto split: if_splits)
  moreover have "j * B < length (drop B raw)" using Suc(4) by simp
  ultimately have "P (k + 1 + j) (take B (drop (j * B) (drop B raw)))" using Suc(1,3) by blast
  then show ?case by (simp add: add.commute)
qed

lemma put_append: "off = length x + m \<Longrightarrow> put off d (x @ xs) = x @ put m d xs"
  by (simp add: put_def)

lemma split_block: "B \<le> length raw \<Longrightarrow> \<exists>x xs. raw = x @ xs \<and> length x = B"
  by (rule exI [of _ "take B raw"], rule exI [of _ "drop B raw"]) simp

text \<open>Replacing or appending a block keeps the property of every block.\<close>

lemma allBlocks_put:
  assumes "allBlocks B P k raw" and "0 < B" and "j * B \<le> length raw" and "e \<noteq> []" and "length e \<le> B"
    and "length e = B \<or> length raw \<le> j * B + length e" and "P (k + j) e"
  shows "allBlocks B P k (put (j * B) e raw)"
  using assms(1,3,6,7)
proof (induction j arbitrary: k raw)
  case 0
  show ?case
  proof (cases "B < length raw")
    case True
    then have "length e = B" using 0(3) assms(5) by auto
    then show ?thesis
      using 0(1,4) True assms(2)
        by (subst (asm) allBlocks.simps) (auto simp: put_def allBlocks_block split: if_splits)
  next
    case False
    then have "put 0 e raw = e" using 0(3) by (auto simp: put_def)
    then show ?thesis using 0(4) allBlocks_last [OF assms(4,5,2)] by simp
  qed
next
  case (Suc j)
  obtain x xs where x: "raw = x @ xs" "length x = B" using split_block [of B raw] Suc(3) by auto
  have "put (Suc j * B) e raw = x @ put (j * B) e xs"
    unfolding x(1) by (rule put_append) (simp add: x(2))
  moreover have "allBlocks B P (k + 1) (put (j * B) e xs)"
    using Suc(2-5) x assms(2) by (intro Suc(1)) (auto simp: allBlocks_block)
  moreover have "P k x" using Suc(2) x assms(2) by (simp add: allBlocks_block)
  ultimately show ?case using x(2) assms(2) by (simp add: allBlocks_block)
qed

lemma allBlocks_take:
  "allBlocks B P k raw \<Longrightarrow> 0 < B \<Longrightarrow> j * B \<le> length raw \<Longrightarrow> allBlocks B P k (take (j * B) raw)"
proof (induction j arbitrary: k raw)
  case (Suc j)
  obtain x xs where x: "raw = x @ xs" "length x = B" using split_block [of B raw] Suc(4) by auto
  then show ?case using Suc(1) [of "k + 1" xs] Suc(2-4) by (simp add: allBlocks_block)
qed simp

text \<open>\<open>g\<close> gives the length of the data of a stored block.\<close>

locale block_coding =
  fixes B b :: nat and f :: "nat \<Rightarrow> bytes \<Rightarrow> bytes" and g :: "nat \<Rightarrow> nat"
  assumes b_pos: "0 < b" and b_le: "b \<le> B" and g_full: "g B = b" and g_0: "g 0 = 0"
    and g_mono: "i \<le> j \<Longrightarrow> g i \<le> g j"
    and f_length: "x \<noteq> [] \<Longrightarrow> length x \<le> B \<Longrightarrow> length (f k x) = g (length x)"
begin

lemma B_pos: "0 < B"
  using b_pos b_le by simp

lemma length_map: "length (mapBlocks B f k raw) = length raw div B * b + g (length raw mod B)"
proof (induction "length raw" arbitrary: k raw rule: less_induct)
  case less
  show ?case
  proof (cases "B \<le> length raw")
    case True
    obtain x xs where x: "raw = x @ xs" "length x = B" using split_block [OF True] by blast
    have "x \<noteq> []" using x(2) B_pos by auto
    then have fx: "length (f k x) = b" using f_length [of x k] x(2) g_full by simp
    have "length xs < length raw" using x B_pos by simp
    then show ?thesis
      using less [of xs "k + 1"] x fx B_pos by (simp add: mapBlocks_block div_add1_eq)
  next
    case False
    then show ?thesis
      using mapBlocks_last [of raw B f k] f_length [of raw k] g_0 by (cases "raw = []") auto
  qed
qed

lemma block_map:
  "take b (drop (j * b) (mapBlocks B f k raw)) =
     (if j * B < length raw then f (k + j) (take B (drop (j * B) raw)) else [])"
proof (induction j arbitrary: k raw)
  case 0
  show ?case
  proof (cases "raw = []")
    case False
    have "length (f k (take B raw)) \<le> b"
      using False B_pos f_length [of "take B raw" k] g_mono [of "length (take B raw)" B] g_full by simp
    moreover have "B < length raw \<Longrightarrow> length (f k (take B raw)) = b"
      using False B_pos f_length [of "take B raw" k] g_full by (simp add: min_absorb2)
    ultimately show ?thesis
      using False B_pos by (subst mapBlocks.simps) (cases "B < length raw"; simp)
  qed simp
next
  case (Suc j)
  show ?case
  proof (cases "B < length raw")
    case True
    obtain x xs where x: "raw = x @ xs" "length x = B" using split_block [of B raw] True by auto
    have "x \<noteq> []" using x(2) B_pos by auto
    then have fx: "length (f k x) = b" using f_length [of x k] x(2) g_full by simp
    show ?thesis
      using Suc [of "k + 1" xs] x fx B_pos by (simp add: mapBlocks_block)
  next
    case False
    have "length (mapBlocks B f k raw) \<le> b"
    proof (cases "raw = []")
      case ne: False
      then show ?thesis
        using False mapBlocks_last [of raw B f k] f_length [of raw k] g_mono [of "length raw" B] g_full by simp
    qed simp
    then show ?thesis using False by simp
  qed
qed

lemma map_put:
  assumes "j * B \<le> length raw" and "e \<noteq> []" and "length e \<le> B"
    and "length e = B \<or> length raw \<le> j * B + length e"
  shows "mapBlocks B f k (put (j * B) e raw) = put (j * b) (f (k + j) e) (mapBlocks B f k raw)"
  using assms(1,4)
proof (induction j arbitrary: k raw)
  case 0
  show ?case
  proof (cases "B < length raw")
    case True
    then have e: "length e = B" using 0(2) assms(3) by auto
    obtain x xs where x: "raw = x @ xs" "length x = B" using split_block [of B raw] True by auto
    then have "x \<noteq> []" using B_pos by auto
    then have "length (f k x) = b" "length (f k e) = b"
      using f_length x(2) e g_full assms(2) by auto
    then show ?thesis using x e B_pos by (simp add: put_def mapBlocks_block)
  next
    case False
    then have "put 0 e raw = e" using 0(2) by (auto simp: put_def)
    moreover have "length (mapBlocks B f k raw) \<le> length (f k e)"
    proof (cases "raw = []")
      case ne: False
      have "length raw \<le> length e" using 0(2) False by auto
      then show ?thesis
        using ne False mapBlocks_last [of raw B f k] f_length [of raw k] f_length [OF assms(2,3), of k] g_mono
        by simp
    qed simp
    ultimately show ?thesis using mapBlocks_last [OF assms(2,3)] by (simp add: put_def)
  qed
next
  case (Suc j)
  obtain x xs where x: "raw = x @ xs" "length x = B" using split_block [of B raw] Suc(2) by auto
  have "x \<noteq> []" using x(2) B_pos by auto
  then have fx: "length (f k x) = b" using f_length [of x k] x(2) g_full by simp
  have "put (Suc j * B) e raw = x @ put (j * B) e xs"
    unfolding x(1) by (rule put_append) (simp add: x(2))
  moreover have "put (Suc j * b) (f (k + Suc j) e) (f k x @ mapBlocks B f (k + 1) xs)
      = f k x @ put (j * b) (f (k + Suc j) e) (mapBlocks B f (k + 1) xs)"
    by (rule put_append) (simp add: fx)
  moreover have "mapBlocks B f (k + 1) (put (j * B) e xs)
      = put (j * b) (f (k + 1 + j) e) (mapBlocks B f (k + 1) xs)"
    using Suc(2,3) x by (intro Suc(1)) auto
  ultimately show ?case using x B_pos by (simp add: mapBlocks_block)
qed

lemma map_take:
  "j * B \<le> length raw \<Longrightarrow> mapBlocks B f k (take (j * B) raw) = take (j * b) (mapBlocks B f k raw)"
proof (induction j arbitrary: k raw)
  case (Suc j)
  obtain x xs where x: "raw = x @ xs" "length x = B" using split_block [of B raw] Suc(2) by auto
  have "x \<noteq> []" using x(2) B_pos by auto
  then have "length (f k x) = b" using f_length [of x k] x(2) g_full by simp
  then show ?case using Suc(1) [of xs "k + 1"] Suc(2) x B_pos by (simp add: mapBlocks_block)
qed simp

end

end
