(* ===== verification/BlockFileIO.thy ===== *)
theory BlockFileIO
  imports FileIO
begin

text \<open>
  Block oriented files (\<open>encfs/BlockFileIO.cpp\<close>): reads and writes of any size over
  the two virtual one-block functions of a derived class, with a cache of the last
  block, padding of files written past their end, and truncation.  The locale
  \<open>block_layer\<close> is what the class needs of a derived class; under it, \<open>read\<close> and
  \<open>write\<close> implement a plain byte string.
\<close>

subsection \<open>The object\<close>

text \<open>
  A request with its data; \<open>dataLen\<close> is the length of the data.  The state of an object
  is the cached request and the members of the derived class.
\<close>

record iorequest =
  req_offset :: nat
  req_data :: bytes

record 's block_file =
  bf_blockSize :: nat
  bf_allowHoles :: bool
  bf_getSize :: "('s, int) sm"
  bf_readOneBlock :: "nat \<Rightarrow> nat \<Rightarrow> ('s, bytes option) sm"
  bf_writeOneBlock :: "nat \<Rightarrow> bytes \<Rightarrow> ('s, bool) sm"

type_synonym ('s, 'a) bm = "(iorequest \<times> 's, 'a) sm"

definition clearCache :: "iorequest \<Rightarrow> iorequest" where
  "clearCache req = req\<lparr>req_data := []\<rparr>"

definition BlockFileIO_cache :: iorequest where
  "BlockFileIO_cache = \<lparr>req_offset = 0, req_data = []\<rparr>"

definition BlockFileIO_check :: "nat \<Rightarrow> unit res" where
  "BlockFileIO_check blockSize = rAssert (blockSize > 1)"

definition cacheReadOneBlock :: "'s block_file \<Rightarrow> nat \<Rightarrow> nat \<Rightarrow> ('s, bytes option) bm" where
  "cacheReadOneBlock b offset dataLen =
     (\<lambda>(cache, s).
       if offset = req_offset cache \<and> length (req_data cache) \<noteq> 0
       then (Inr (Some (take (min dataLen (length (req_data cache))) (req_data cache))), (cache, s))
       else (let cache = (if length (req_data cache) > 0 then clearCache cache else cache)
             in case bf_readOneBlock b offset (bf_blockSize b) s of
                  (Inl e, s) \<Rightarrow> (Inl e, (cache, s))
                | (Inr None, s) \<Rightarrow> (Inr None, (cache, s))
                | (Inr (Some d), s) \<Rightarrow>
                    if length d > 0
                    then (Inr (Some (take (min dataLen (length d)) d)),
                          (\<lparr>req_offset = offset, req_data = d\<rparr>, s))
                    else (Inr (Some []), (cache, s))))"

definition cacheWriteOneBlock :: "'s block_file \<Rightarrow> nat \<Rightarrow> bytes \<Rightarrow> ('s, bool) bm" where
  "cacheWriteOneBlock b offset dat =
     (\<lambda>(cache, s).
       let cache = \<lparr>req_offset = offset, req_data = dat\<rparr>
       in case bf_writeOneBlock b offset dat s of
            (Inl e, s) \<Rightarrow> (Inl e, (cache, s))
          | (Inr ok, s) \<Rightarrow> (Inr ok, (if ok then cache else clearCache cache, s)))"

subsection \<open>Reading\<close>

text \<open>
  The loop over the blocks of a request; \<open>out\<close> is what has been copied.  A block that is
  not read (also for an error) ends the loop.
\<close>

function readLoop :: "'s block_file \<Rightarrow> nat \<Rightarrow> nat \<Rightarrow> nat \<Rightarrow> bytes \<Rightarrow> ('s, bytes option) bm" where
  "readLoop b blockNum partialOffset sz out =
     (if sz = 0 then sret (Some out)
      else sbind (cacheReadOneBlock b (blockNum * bf_blockSize b) (bf_blockSize b)) (\<lambda>blk.
        case blk of
          None \<Rightarrow> sret (Some out)
        | Some d \<Rightarrow>
            (let readSize = length d in
             if readSize \<le> partialOffset then sret (Some out)
             else (let cpySize = min (readSize - partialOffset) sz;
                       out = out @ take cpySize (drop partialOffset d)
                   in if readSize < bf_blockSize b then sret (Some out)
                      else readLoop b (blockNum + 1) 0 (sz - cpySize) out))))"
  by pat_completeness auto
termination by (relation "measure (\<lambda>(b, k, po, sz, out). sz)") auto

declare readLoop.simps [simp del]

definition block_read :: "'s block_file \<Rightarrow> nat \<Rightarrow> nat \<Rightarrow> ('s, bytes option) bm" where
  "block_read b offset dataLen =
     sbind (sres (rAssert (bf_blockSize b \<noteq> 0))) (\<lambda>_.
     let partialOffset = offset mod bf_blockSize b;
         blockNum = offset div bf_blockSize b
     in if partialOffset = 0 \<and> dataLen \<le> bf_blockSize b
        then cacheReadOneBlock b offset dataLen
        else readLoop b blockNum partialOffset dataLen [])"

subsection \<open>Padding\<close>

text \<open>A buffer from the pool is all zero.\<close>

fun padBlocks :: "'s block_file \<Rightarrow> nat \<Rightarrow> nat \<Rightarrow> ('s, unit) bm" where
  "padBlocks b blockNum 0 = sret ()"
| "padBlocks b blockNum (Suc n) =
     sbind (cacheWriteOneBlock b (blockNum * bf_blockSize b) (replicate (bf_blockSize b) 0)) (\<lambda>_.
     padBlocks b (blockNum + 1) n)"

definition padFile :: "'s block_file \<Rightarrow> nat \<Rightarrow> nat \<Rightarrow> bool \<Rightarrow> ('s, unit) bm" where
  "padFile b oldSize newSize forceWrite =
     (let bs = bf_blockSize b;
          oldLastBlock = oldSize div bs;
          newLastBlock = newSize div bs;
          newBlockSize = newSize mod bs
      in if oldLastBlock = newLastBlock
         then (if forceWrite
               then (let outSize = newSize mod bs in
                     if outSize \<noteq> 0
                     then sbind (cacheReadOneBlock b (oldLastBlock * bs) (oldSize mod bs)) (\<lambda>r.
                          let dat = overlay 0 (case r of None \<Rightarrow> [] | Some d \<Rightarrow> d) (replicate outSize 0)
                          in sbind (cacheWriteOneBlock b (oldLastBlock * bs) dat) (\<lambda>_. sret ()))
                     else sret ())
               else sret ())
         else sbind (if oldSize mod bs \<noteq> 0
                     then sbind (cacheReadOneBlock b (oldLastBlock * bs) (oldSize mod bs)) (\<lambda>r.
                          let dat = overlay 0 (case r of None \<Rightarrow> [] | Some d \<Rightarrow> d) (replicate bs 0)
                          in sbind (cacheWriteOneBlock b (oldLastBlock * bs) dat) (\<lambda>_.
                             sret (oldLastBlock + 1)))
                     else sret oldLastBlock) (\<lambda>oldLastBlock.
              sbind (if \<not> bf_allowHoles b then padBlocks b oldLastBlock (newLastBlock - oldLastBlock)
                     else sret ()) (\<lambda>_.
              if forceWrite \<and> newBlockSize \<noteq> 0
              then sbind (cacheWriteOneBlock b (newLastBlock * bs) (replicate newBlockSize 0)) (\<lambda>_. sret ())
              else sret ())))"

subsection \<open>Writing\<close>

text \<open>
  The loop over the blocks of a request.  \<open>lastNonEmptyBlock\<close> is \<open>-1\<close> for an empty file.
  A failed read of a block to merge with leaves the zeroed buffer.
\<close>

function writeLoop :: "'s block_file \<Rightarrow> int \<Rightarrow> int \<Rightarrow> nat \<Rightarrow> nat \<Rightarrow> bytes \<Rightarrow> ('s, bool) bm" where
  "writeLoop b fileSize lastNonEmptyBlock blockNum partialOffset inp =
     (if inp = [] then sret True
      else (let bs = bf_blockSize b;
                offset = blockNum * bs;
                toCopy = min (bs - partialOffset) (length inp);
                piece = take toCopy inp
      in if toCopy = 0 then sthrow Diverges
         else sbind
          (if toCopy = bs \<or> partialOffset = 0 \<and> int (offset + toCopy) \<ge> fileSize
           then sret piece
           else (let zeros = replicate bs 0 in
            if int blockNum > lastNonEmptyBlock
            then sret (take (toCopy + partialOffset) (overlay partialOffset piece zeros))
            else sbind (cacheReadOneBlock b offset bs) (\<lambda>r.
              let old = (case r of None \<Rightarrow> [] | Some d \<Rightarrow> d);
                  dataLen = (case r of None \<Rightarrow> -1 | Some d \<Rightarrow> int (length d));
                  dataLen = (if int (partialOffset + toCopy) > dataLen then int (partialOffset + toCopy) else dataLen)
              in sret (take (nat dataLen) (overlay partialOffset piece (overlay 0 old zeros)))))) (\<lambda>dat.
          sbind (cacheWriteOneBlock b offset dat) (\<lambda>ok.
          if \<not> ok then sret False
          else writeLoop b fileSize lastNonEmptyBlock (blockNum + 1) 0 (drop toCopy inp)))))"
  by pat_completeness auto
termination by (relation "measure (\<lambda>(b, f, l, k, po, inp). length inp)") auto

declare writeLoop.simps [simp del]

definition block_write :: "'s block_file \<Rightarrow> nat \<Rightarrow> bytes \<Rightarrow> ('s, bool) bm" where
  "block_write b offset dat =
     sbind (sres (rAssert (bf_blockSize b \<noteq> 0))) (\<lambda>_.
     sbind (onSnd (bf_getSize b)) (\<lambda>fileSize.
     let bs = bf_blockSize b;
         blockNum = offset div bs;
         partialOffset = offset mod bs;
         lastFileBlock = cdiv fileSize (int bs);
         lastBlockSize = cmod fileSize (int bs);
         lastNonEmptyBlock = (if lastBlockSize = 0 then lastFileBlock - 1 else lastFileBlock)
     in sbind (if int offset > fileSize then padFile b (nat fileSize) offset False else sret ()) (\<lambda>_.
        if partialOffset = 0 \<and> length dat \<le> bs \<and>
           (length dat = bs \<or> int blockNum = lastFileBlock \<and> int (length dat) \<ge> lastBlockSize)
        then cacheWriteOneBlock b offset dat
        else writeLoop b fileSize lastNonEmptyBlock blockNum partialOffset dat)))"

subsection \<open>Truncation\<close>

text \<open>
  \<open>base\<close> is the truncation of the file below, when the derived class passes it.  The
  block that stays partial is read before and written after the cut.
\<close>

definition block_truncate :: "'s block_file \<Rightarrow> nat \<Rightarrow> (nat \<Rightarrow> ('s, int) sm) option \<Rightarrow> ('s, int) bm" where
  "block_truncate b newSize base =
     (let bs = bf_blockSize b;
          partialBlock = newSize mod bs;
          baseTruncate = (case base of None \<Rightarrow> sret 0 | Some t \<Rightarrow> onSnd (t newSize))
      in sbind (onSnd (bf_getSize b)) (\<lambda>oldSize.
      if int newSize > oldSize
      then sbind baseTruncate (\<lambda>_. sbind (padFile b (nat oldSize) newSize True) (\<lambda>_. sret 0))
      else if int newSize = oldSize then sret 0
      else if partialBlock \<noteq> 0
      then sbind (cacheReadOneBlock b (newSize div bs * bs) bs) (\<lambda>r.
           sbind baseTruncate (\<lambda>res.
           let dat = take partialBlock (overlay 0 (case r of None \<Rightarrow> [] | Some d \<Rightarrow> d) (replicate bs 0))
           in sbind (cacheWriteOneBlock b (newSize div bs * bs) dat) (\<lambda>_. sret res)))
      else baseTruncate))"

subsection \<open>The contract of a derived class\<close>

lemma take_min_length [simp]: "take (min n (length xs)) xs = take n xs"
  by (cases "n \<le> length xs") (simp_all add: min_def)

text \<open>A block lies past the last non-empty block exactly when it starts at or past the end.\<close>

lemma past_last_block:
  assumes "0 < (c :: nat)"
  shows "(if F mod c = 0 then int (F div c) - 1 else int (F div c)) < int k \<longleftrightarrow> F \<le> k * c"
proof -
  have F: "F = F div c * c + F mod c" and m: "F mod c < c" using assms by simp_all
  show ?thesis
  proof (cases "F div c < k")
    case True
    then have "(F div c + 1) * c \<le> k * c" by (intro mult_le_mono1) simp
    moreover have "(F div c + 1) * c = F div c * c + c" by simp
    ultimately have "F \<le> k * c" using F m by linarith
    then show ?thesis using True by auto
  next
    case False
    then have k: "k * c \<le> F div c * c" by simp
    show ?thesis
    proof (cases "F mod c = 0")
      case True
      have "F \<le> k * c \<longleftrightarrow> F div c \<le> k" using True F assms by (metis add.right_neutral mult_le_cancel2)
      then show ?thesis using True False by auto
    next
      case False
      then have "\<not> F \<le> k * c" using k F by linarith
      then show ?thesis using False \<open>\<not> F div c < k\<close> by simp
    qed
  qed
qed

definition block_of :: "nat \<Rightarrow> nat \<Rightarrow> bytes \<Rightarrow> bytes" where
  "block_of bs off x = take bs (drop off x)"

text \<open>The cache holds a block of the file, or nothing.\<close>

definition cache_holds :: "nat \<Rightarrow> iorequest \<Rightarrow> bytes \<Rightarrow> bool" where
  "cache_holds bs cache x \<longleftrightarrow> (req_data cache \<noteq> [] \<longrightarrow>
     bs dvd req_offset cache \<and> req_data cache = block_of bs (req_offset cache) x)"

definition block_inv :: "nat \<Rightarrow> ('s \<Rightarrow> bool) \<Rightarrow> ('s \<Rightarrow> bytes) \<Rightarrow> iorequest \<times> 's \<Rightarrow> bool" where
  "block_inv bs I cont cs \<longleftrightarrow> I (snd cs) \<and> cache_holds bs (fst cs) (cont (snd cs))"

definition block_content :: "('s \<Rightarrow> bytes) \<Rightarrow> iorequest \<times> 's \<Rightarrow> bytes" where
  "block_content cont cs = cont (snd cs)"

locale block_layer =
  fixes b :: "'s block_file" and inv :: "'s \<Rightarrow> bool" and content :: "'s \<Rightarrow> bytes"
  assumes bs_pos: "1 < bf_blockSize b"
    and noHoles: "\<not> bf_allowHoles b"
    and getSize_ok: "inv s \<Longrightarrow> returns (bf_getSize b) s
      (\<lambda>n s'. n = int (length (content s)) \<and> inv s' \<and> content s' = content s)"
    and readOne_ok: "inv s \<Longrightarrow> bf_blockSize b dvd off \<Longrightarrow>
      returns (bf_readOneBlock b off (bf_blockSize b)) s
        (\<lambda>r s'. r = Some (take (bf_blockSize b) (drop off (content s))) \<and> inv s' \<and> content s' = content s)"
    and writeOne_ok: "inv s \<Longrightarrow> bf_blockSize b dvd off \<Longrightarrow> off \<le> length (content s) \<Longrightarrow>
      d \<noteq> [] \<Longrightarrow> length d \<le> bf_blockSize b \<Longrightarrow>
      length d = bf_blockSize b \<or> length (content s) \<le> off + length d \<Longrightarrow>
      returns (bf_writeOneBlock b off d) s
        (\<lambda>ok s'. ok \<and> inv s' \<and> content s' = put off d (content s))"
begin

abbreviation bs :: nat where "bs \<equiv> bf_blockSize b"

abbreviation blk :: "nat \<Rightarrow> bytes \<Rightarrow> bytes" where "blk \<equiv> block_of bs"

abbreviation cache_ok :: "iorequest \<Rightarrow> bytes \<Rightarrow> bool" where "cache_ok \<equiv> cache_holds bs"

abbreviation binv :: "iorequest \<times> 's \<Rightarrow> bool" where "binv \<equiv> block_inv bs inv content"

abbreviation bcontent :: "iorequest \<times> 's \<Rightarrow> bytes" where "bcontent \<equiv> block_content content"

lemma cacheRead_ok:
  assumes "binv cs" and "bs dvd off"
  shows "returns (cacheReadOneBlock b off n) cs
      (\<lambda>r cs'. r = Some (take n (blk off (bcontent cs))) \<and> binv cs' \<and> bcontent cs' = bcontent cs)"
proof -
  obtain c s where cs: "cs = (c, s)" by (cases cs)
  have i: "inv s" "cache_ok c (content s)" using assms(1) by (auto simp: block_inv_def cs)
  obtain s' where rd: "bf_readOneBlock b off bs s = (Inr (Some (blk off (content s))), s')"
      "inv s'" "content s' = content s"
    using readOne_ok [OF i(1) assms(2)] unfolding block_of_def returns_iff by blast
  show ?thesis
  proof (cases "off = req_offset c \<and> length (req_data c) \<noteq> 0")
    case True
    then have "req_data c = blk off (content s)" using i(2) by (auto simp: cache_holds_def)
    then show ?thesis
      using True i by (simp add: returns_iff cacheReadOneBlock_def cs block_inv_def block_content_def)
  next
    case False
    then show ?thesis
      using rd i assms(2)
      by (auto simp: returns_iff cacheReadOneBlock_def cs block_inv_def block_content_def Let_def
          cache_holds_def clearCache_def)
  qed
qed

lemma cacheWrite_ok:
  assumes "binv cs" and "bs dvd off" and "off \<le> length (bcontent cs)"
    and "d \<noteq> []" and "length d \<le> bs"
    and "length d = bs \<or> length (bcontent cs) \<le> off + length d"
  shows "returns (cacheWriteOneBlock b off d) cs
      (\<lambda>ok cs'. ok \<and> binv cs' \<and> bcontent cs' = put off d (bcontent cs))"
proof -
  obtain c s where cs: "cs = (c, s)" by (cases cs)
  have i: "inv s" using assms(1) by (auto simp: block_inv_def cs)
  obtain s' where wr: "bf_writeOneBlock b off d s = (Inr True, s')" "inv s'"
      "content s' = put off d (content s)"
    using writeOne_ok [OF i assms(2) _ assms(4,5)] assms(3,6)
    by (auto simp: returns_iff block_content_def cs)
  have "blk off (put off d (content s)) = d"
    using assms(3,5,6) by (auto simp: block_of_def put_def block_content_def cs)
  then show ?thesis
    using wr assms(2) by (simp add: returns_iff cacheWriteOneBlock_def cs block_inv_def block_content_def
        cache_holds_def Let_def ex_bool_eq)
qed

subsection \<open>Reading under the contract\<close>

lemma readLoop_ok:
  assumes "binv cs" and "po < bs" and "X = bcontent cs"
  shows "returns (readLoop b k po n out) cs
      (\<lambda>r cs'. r = Some (out @ take n (drop (k * bs + po) X)) \<and> binv cs' \<and> bcontent cs' = X)"
  using assms
proof (induction n arbitrary: k po out cs rule: less_induct)
  case (less n)
  show ?case
  proof (cases "n = 0")
    case True
    then show ?thesis using less by (subst readLoop.simps) (simp add: wp)
  next
    case False
    let ?Y = "drop (k * bs + po) X" and ?d = "blk (k * bs) X"
    have dY: "drop po ?d = take (bs - po) ?Y" and ld: "length ?d = min bs (length X - k * bs)"
      using less(3) by (simp_all add: block_of_def drop_take add.commute)
    have step: "returns (cacheReadOneBlock b (k * bs) bs) cs
        (\<lambda>r cs'. r = Some ?d \<and> binv cs' \<and> bcontent cs' = X)"
      using cacheRead_ok [OF less(2), of "k * bs" bs] less(4) by (simp add: block_of_def)
    show ?thesis
    proof (subst readLoop.simps, simp only: False if_False returns_sbind, rule returns_mono [OF step], clarify)
      fix c s
      assume c: "binv (c, s)" "X = bcontent (c, s)"
      show "returns (case Some (blk (k * bs) (bcontent (c, s))) of None \<Rightarrow> sret (Some out)
          | Some d \<Rightarrow> let readSize = length d in
             if readSize \<le> po then sret (Some out)
             else let cpySize = min (readSize - po) n; out = out @ take cpySize (drop po d)
                  in if readSize < bs then sret (Some out)
                     else readLoop b (k + 1) 0 (n - cpySize) out) (c, s)
          (\<lambda>r cs'. r = Some (out @ take n (drop (k * bs + po) (bcontent (c, s)))) \<and> binv cs' \<and>
             bcontent cs' = bcontent (c, s))"
        unfolding c(2) [symmetric] option.case Let_def
      proof (cases "length ?d \<le> po"; cases "length ?d < bs")
        assume "length ?d \<le> po" "length ?d < bs"
        then have "?Y = []" using ld less(3) by simp
        then show "returns (if length ?d \<le> po then sret (Some out)
            else if length ?d < bs then sret (Some (out @ take (min (length ?d - po) n) (drop po ?d)))
            else readLoop b (k + 1) 0 (n - min (length ?d - po) n) (out @ take (min (length ?d - po) n) (drop po ?d)))
           (c, s) (\<lambda>r cs'. r = Some (out @ take n ?Y) \<and> binv cs' \<and> bcontent cs' = X)"
          using \<open>length ?d \<le> po\<close> c by simp
      next
        assume "length ?d \<le> po" "\<not> length ?d < bs"
        then show "returns (if length ?d \<le> po then sret (Some out)
            else if length ?d < bs then sret (Some (out @ take (min (length ?d - po) n) (drop po ?d)))
            else readLoop b (k + 1) 0 (n - min (length ?d - po) n) (out @ take (min (length ?d - po) n) (drop po ?d)))
           (c, s) (\<lambda>r cs'. r = Some (out @ take n ?Y) \<and> binv cs' \<and> bcontent cs' = X)"
          using less(3) by simp
      next
        assume a: "\<not> length ?d \<le> po" "length ?d < bs"
        then have "length ?d - po = length ?Y" "length ?Y \<le> bs - po" using ld by auto
        then have "take (min (length ?d - po) n) (drop po ?d) = take n ?Y"
          unfolding dY by (simp only: take_all min.commute [of _ n] take_min_length)
        then show "returns (if length ?d \<le> po then sret (Some out)
            else if length ?d < bs then sret (Some (out @ take (min (length ?d - po) n) (drop po ?d)))
            else readLoop b (k + 1) 0 (n - min (length ?d - po) n) (out @ take (min (length ?d - po) n) (drop po ?d)))
           (c, s) (\<lambda>r cs'. r = Some (out @ take n ?Y) \<and> binv cs' \<and> bcontent cs' = X)"
          using a c by simp
      next
        assume a: "\<not> length ?d \<le> po" "\<not> length ?d < bs"
        then have l: "length ?d = bs" using ld by simp
        let ?c = "min (bs - po) n"
        have "0 < ?c" using False less(3) by simp
        then have IH: "returns (readLoop b (k + 1) 0 (n - ?c) (out @ take ?c ?Y)) (c, s)
            (\<lambda>r cs'. r = Some ((out @ take ?c ?Y) @ take (n - ?c) (drop ((k + 1) * bs + 0) X)) \<and>
               binv cs' \<and> bcontent cs' = X)"
          using less(3) c False by (intro less(1)) auto
        have "(k + 1) * bs + 0 = (bs - po) + (k * bs + po)" using less(3) by simp
        then have "drop ((k + 1) * bs + 0) X = drop (bs - po) ?Y" by (simp only: drop_drop)
        then have "take ?c ?Y @ take (n - ?c) (drop ((k + 1) * bs + 0) X) = take n ?Y"
          using take_add [of "bs - po" "n - (bs - po)" ?Y]
          by (cases "bs - po \<le> n") (simp_all only: min_absorb1 min_absorb2 le_add_diff_inverse
              nle_le diff_self_eq_0 take_0 append_Nil2)
        moreover have "take ?c (drop po ?d) = take ?c ?Y" unfolding dY by simp
        ultimately show "returns (if length ?d \<le> po then sret (Some out)
            else if length ?d < bs then sret (Some (out @ take (min (length ?d - po) n) (drop po ?d)))
            else readLoop b (k + 1) 0 (n - min (length ?d - po) n) (out @ take (min (length ?d - po) n) (drop po ?d)))
           (c, s) (\<lambda>r cs'. r = Some (out @ take n ?Y) \<and> binv cs' \<and> bcontent cs' = X)"
          using IH a l by simp
      qed
    qed
  qed
qed

lemma read_ok:
  assumes "binv cs"
  shows "returns (block_read b off n) cs
      (\<lambda>r cs'. r = Some (take n (drop off (bcontent cs))) \<and> binv cs' \<and> bcontent cs' = bcontent cs)"
proof (cases "off mod bs = 0 \<and> n \<le> bs")
  case True
  then have "bs dvd off" by auto
  moreover have "take n (blk off (bcontent cs)) = take n (drop off (bcontent cs))"
    using True by (simp add: block_of_def min_absorb1)
  ultimately show ?thesis
    using cacheRead_ok [OF assms, of off n] bs_pos True by (simp add: block_read_def wp Let_def)
next
  case False
  have "off mod bs < bs" using bs_pos by simp
  then show ?thesis
    using readLoop_ok [OF assms _ refl, of "off mod bs" "off div bs" n "[]"] bs_pos
    by (simp only: block_read_def returns_sbind returns_sres Let_def if_not_P [OF False]) simp
qed

subsection \<open>Padding and writing under the contract\<close>

lemma padBlocks_ok:
  assumes "binv cs" and "length (bcontent cs) = k * bs"
  shows "returns (padBlocks b k n) cs
      (\<lambda>_ cs'. binv cs' \<and> bcontent cs' = resize ((k + n) * bs) (bcontent cs))"
  using assms
proof (induction n arbitrary: k cs)
  case 0
  then show ?case by (simp flip: 0(2))
next
  case (Suc n)
  have "returns (cacheWriteOneBlock b (k * bs) (replicate bs 0)) cs
      (\<lambda>ok cs'. ok \<and> binv cs' \<and> bcontent cs' = put (k * bs) (replicate bs 0) (bcontent cs))"
    using bs_pos Suc by (intro cacheWrite_ok) auto
  moreover have "put (k * bs) (replicate bs 0) (bcontent cs) = resize ((k + 1) * bs) (bcontent cs)"
    by (rule nth_equalityI) (use Suc(3) in \<open>auto simp: nth_put nth_resize\<close>)
  ultimately have w: "returns (cacheWriteOneBlock b (k * bs) (replicate bs 0)) cs
      (\<lambda>ok cs'. ok \<and> binv cs' \<and> bcontent cs' = resize ((k + 1) * bs) (bcontent cs))"
    by simp
  show ?case
    unfolding padBlocks.simps returns_sbind
  proof (rule returns_mono [OF w])
    fix ok cs'
    assume a: "ok \<and> binv cs' \<and> bcontent cs' = resize ((k + 1) * bs) (bcontent cs)"
    have "returns (padBlocks b (k + 1) n) cs'
        (\<lambda>_ cs''. binv cs'' \<and> bcontent cs'' = resize ((k + 1 + n) * bs) (bcontent cs'))"
      using a by (intro Suc(1)) auto
    moreover have "resize ((k + 1 + n) * bs) (bcontent cs') = resize ((k + Suc n) * bs) (bcontent cs)"
      using a Suc(3) resize_resize [of "bcontent cs" "(k + 1) * bs" "(k + 1 + n) * bs"] by simp
    ultimately show "returns (padBlocks b (k + 1) n) cs'
        (\<lambda>_ cs''. binv cs'' \<and> bcontent cs'' = resize ((k + Suc n) * bs) (bcontent cs))"
      by simp
  qed
qed

text \<open>Extending the last, partial block with zeros.\<close>

lemma extend_last_ok:
  assumes "binv cs" and X: "length (bcontent cs) = k * bs + m" and m: "m < out" "out \<le> bs"
    and G: "\<And>ok cs'. binv cs' \<Longrightarrow> bcontent cs' = resize (k * bs + out) (bcontent cs) \<Longrightarrow> returns (g ok) cs' P"
  shows "returns (sbind (cacheReadOneBlock b (k * bs) m) (\<lambda>r.
           let dat = overlay 0 (case r of None \<Rightarrow> [] | Some d \<Rightarrow> d) (replicate out 0)
           in sbind (cacheWriteOneBlock b (k * bs) dat) g)) cs P"
proof -
  define x where "x = bcontent cs"
  have lx: "length x = k * bs + m" using X by (simp add: x_def)
  define dat where "dat = drop (k * bs) x @ replicate (out - m) 0"
  have ld: "length dat = out" using lx m by (simp add: dat_def)
  have old: "take m (blk (k * bs) x) = drop (k * bs) x"
    using lx m by (simp add: block_of_def min_absorb1)
  have ov: "overlay 0 (drop (k * bs) x) (replicate out 0) = dat" using lx m by (simp add: dat_def)
  have "put (k * bs) dat x = resize (k * bs + out) x"
  proof (rule nth_equalityI)
    show "length (put (k * bs) dat x) = length (resize (k * bs + out) x)" using lx ld m by simp
    fix i
    assume "i < length (put (k * bs) dat x)"
    then have i: "i < k * bs + out" using lx ld m by simp
    show "put (k * bs) dat x ! i = resize (k * bs + out) x ! i"
    proof (cases "i < k * bs")
      case True
      then show ?thesis using i lx ld by (simp add: nth_put nth_resize)
    next
      case False
      then have "put (k * bs) dat x ! i = dat ! (i - k * bs)" using i lx ld by (simp add: nth_put)
      also have "\<dots> = (if i < length x then x ! i else 0)"
        using False i lx m by (simp add: dat_def nth_append) linarith
      finally show ?thesis using i by (simp add: nth_resize)
    qed
  qed
  then have w: "returns (cacheWriteOneBlock b (k * bs) dat) cs'
      (\<lambda>ok cs''. ok \<and> binv cs'' \<and> bcontent cs'' = resize (k * bs + out) x)"
    if "binv cs'" "bcontent cs' = x" for cs'
    using cacheWrite_ok [OF that(1), of "k * bs" dat] that(2) ld lx m by force
  show ?thesis
    unfolding returns_sbind Let_def
  proof (rule returns_mono [OF cacheRead_ok [OF assms(1), of "k * bs" m]])
    fix r cs'
    assume "r = Some (take m (blk (k * bs) (bcontent cs))) \<and> binv cs' \<and> bcontent cs' = bcontent cs"
    then have a: "r = Some (drop (k * bs) x)" "binv cs'" "bcontent cs' = x" using old by (simp_all add: x_def)
    show "returns (cacheWriteOneBlock b (k * bs) (overlay 0 (case r of None \<Rightarrow> [] | Some d \<Rightarrow> d) (replicate out 0))) cs'
        (\<lambda>x s'. returns (g x) s' P)"
      unfolding a(1) option.case ov
      by (rule returns_mono [OF w [OF a(2,3)]]) (auto intro: G simp: x_def)
  qed simp
qed

lemma padFile_ok:
  assumes "binv cs" and "F = length (bcontent cs)" and "F < n"
  shows "returns (padFile b F n force) cs (\<lambda>_ cs'. binv cs' \<and> bcontent cs' =
      (if force then resize n (bcontent cs)
       else if F div bs = n div bs then bcontent cs else resize (n div bs * bs) (bcontent cs)))"
proof (cases "F div bs = n div bs")
  case True
  have nF: "n = F div bs * bs + n mod bs" "F = F div bs * bs + F mod bs"
    using div_mult_mod_eq [of n bs] div_mult_mod_eq [of F bs] True by metis+
  then have lt: "F mod bs < n mod bs" using assms(3) by linarith
  show ?thesis
  proof (cases force)
    case False
    then show ?thesis using True assms by (simp add: padFile_def Let_def)
  next
    case f: True
    have nz: "n mod bs \<noteq> 0" using lt by simp
    have "resize (F div bs * bs + n mod bs) (bcontent cs) = resize n (bcontent cs)"
      using nF(1) by simp
    then have "returns (sbind (cacheReadOneBlock b (F div bs * bs) (F mod bs)) (\<lambda>r.
        let dat = overlay 0 (case r of None \<Rightarrow> [] | Some d \<Rightarrow> d) (replicate (n mod bs) 0)
        in sbind (cacheWriteOneBlock b (F div bs * bs) dat) (\<lambda>_. sret ()))) cs
        (\<lambda>_ cs'. binv cs' \<and> bcontent cs' = resize n (bcontent cs))"
      using nF(2) assms(2) bs_pos by (intro extend_last_ok [OF assms(1) _ lt]) simp_all
    then show ?thesis using True nz f by (simp add: padFile_def Let_def)
  qed
next
  case False
  let ?X = "bcontent cs" and ?k = "F div bs" and ?m = "n div bs"
  have km: "?k < ?m" using False assms(3) by (simp add: div_le_mono less_le)
  let ?k1 = "if F mod bs \<noteq> 0 then ?k + 1 else ?k"
  have F: "F = ?k * bs + F mod bs" by simp
  have n: "n = ?m * bs + n mod bs" by simp
  have Fk: "F \<le> ?k1 * bs"
  proof -
    have "F mod bs < bs" using bs_pos by simp
    then have "F \<le> ?k * bs + bs" using F by linarith
    then show ?thesis using F by (cases "F mod bs = 0") (simp_all add: add.commute)
  qed
  have k1: "?k1 \<le> ?m" using km by auto
  have first: "returns (if F mod bs \<noteq> 0
        then sbind (cacheReadOneBlock b (?k * bs) (F mod bs)) (\<lambda>r.
             let dat = overlay 0 (case r of None \<Rightarrow> [] | Some d \<Rightarrow> d) (replicate bs 0)
             in sbind (cacheWriteOneBlock b (?k * bs) dat) (\<lambda>_. sret (?k + 1)))
        else sret ?k) cs (\<lambda>r cs'. r = ?k1 \<and> binv cs' \<and> bcontent cs' = resize (?k1 * bs) ?X)"
  proof (cases "F mod bs = 0")
    case True
    then have "F = ?k1 * bs" using F by simp
    then have "resize (?k1 * bs) ?X = ?X" using assms(2) resize_same [of ?X] by metis
    then show ?thesis using True assms(1) by simp
  next
    case r: False
    have "F mod bs < bs" using bs_pos by simp
    then have "returns (sbind (cacheReadOneBlock b (?k * bs) (F mod bs)) (\<lambda>r.
        let dat = overlay 0 (case r of None \<Rightarrow> [] | Some d \<Rightarrow> d) (replicate bs 0)
        in sbind (cacheWriteOneBlock b (?k * bs) dat) (\<lambda>_. sret (?k + 1)))) cs
        (\<lambda>r cs'. r = ?k + 1 \<and> binv cs' \<and> bcontent cs' = resize ((?k + 1) * bs) ?X)"
      using assms(2) by (intro extend_last_ok [OF assms(1)]) (simp_all add: add.commute)
    then show ?thesis using r by simp
  qed
  have second: "returns (padBlocks b ?k1 (?m - ?k1)) cs' (\<lambda>_ cs''. binv cs'' \<and> bcontent cs'' = resize (?m * bs) ?X)"
    if "binv cs'" "bcontent cs' = resize (?k1 * bs) ?X" for cs'
  proof -
    have "resize (?m * bs) (resize (?k1 * bs) ?X) = resize (?m * bs) ?X"
      using Fk assms(2) k1 by (intro resize_resize) auto
    then show ?thesis
      using padBlocks_ok [OF that(1), of ?k1 "?m - ?k1"] that(2) k1 by simp
  qed
  have third: "returns (if force \<and> n mod bs \<noteq> 0
        then sbind (cacheWriteOneBlock b (?m * bs) (replicate (n mod bs) 0)) (\<lambda>_. sret ())
        else sret ()) cs' (\<lambda>_ cs''. binv cs'' \<and> bcontent cs'' = (if force then resize n ?X else resize (?m * bs) ?X))"
    if "binv cs'" "bcontent cs' = resize (?m * bs) ?X" for cs'
  proof (cases "force \<and> n mod bs \<noteq> 0")
    case True
    have "returns (cacheWriteOneBlock b (?m * bs) (replicate (n mod bs) 0)) cs'
      (\<lambda>ok cs''. ok \<and> binv cs'' \<and> bcontent cs'' = put (?m * bs) (replicate (n mod bs) 0) (bcontent cs'))"
      using True bs_pos that by (intro cacheWrite_ok) (auto intro: less_imp_le)
    moreover have "put (?m * bs) (replicate (n mod bs) 0) (resize (?m * bs) ?X) = resize n ?X"
    proof -
      have "length ?X \<le> ?m * bs" using Fk k1 assms(2) by (metis le_trans mult_le_mono1)
      then show ?thesis using put_zeros [of "?m * bs" "n mod bs" ?X] n by simp
    qed
    ultimately show ?thesis using True that by (auto simp: returns_sbind elim: returns_mono)
  next
    case False
    then have "force \<Longrightarrow> n = ?m * bs" using n by auto
    then show ?thesis using False that by auto
  qed
  show ?thesis
    unfolding padFile_def Let_def using False noHoles
    apply (simp only: if_False returns_sbind not_False_eq_True if_True)
    apply (rule returns_mono [OF first [unfolded Let_def]])
    apply clarify
    apply (rule returns_mono [OF second])
      apply simp
     apply simp
    apply clarify
    apply (rule returns_mono [OF third [unfolded returns_sbind]])
      apply simp
     apply simp
    apply simp
    done
qed

text \<open>
  One block of a write: the bytes to store, given the contents \<open>x\<close> with the file's old
  length \<open>F\<close>, and that storing them puts the piece in its place.
\<close>

definition merged :: "bytes \<Rightarrow> nat \<Rightarrow> nat \<Rightarrow> bytes \<Rightarrow> bytes" where
  "merged x k po piece = put po piece (blk (k * bs) x)"

lemma put_merged:
  assumes "k * bs \<le> length x" and "po + length piece \<le> bs"
  shows "put (k * bs) (merged x k po piece) x = put (k * bs + po) piece x"
proof (rule nth_equalityI)
  have lb: "length (blk (k * bs) x) = min bs (length x - k * bs)" by (simp add: block_of_def)
  show "length (put (k * bs) (merged x k po piece) x) = length (put (k * bs + po) piece x)"
    using assms by (simp add: merged_def lb)
  fix i
  assume i0: "i < length (put (k * bs) (merged x k po piece) x)"
  then have i: "i < max (length x) (k * bs + po + length piece)"
    using assms by (simp add: merged_def lb)
  have lm: "length (merged x k po piece) = max (min bs (length x - k * bs)) (po + length piece)"
    by (simp add: merged_def lb)
  have r: "put (k * bs + po) piece x ! i =
      (if i < k * bs + po then (if i < length x then x ! i else 0)
       else if i < k * bs + po + length piece then piece ! (i - (k * bs + po)) else x ! i)"
    using i by (simp add: nth_put)
  have l: "put (k * bs) (merged x k po piece) x ! i =
      (if i < k * bs then (if i < length x then x ! i else 0)
       else if i < k * bs + length (merged x k po piece) then merged x k po piece ! (i - k * bs) else x ! i)"
    using nth_put [OF i0] by simp
  have m: "merged x k po piece ! (i - k * bs) =
      (if i - k * bs < po then (if i < length x then x ! i else 0)
       else if i - k * bs < po + length piece then piece ! (i - k * bs - po) else x ! i)"
    if "\<not> i < k * bs" "i < k * bs + length (merged x k po piece)"
  proof -
    have b: "blk (k * bs) x ! (i - k * bs) = x ! i" if "i < length x" "i - k * bs < bs"
      using that \<open>\<not> i < k * bs\<close> by (simp add: block_of_def)
    have "i - k * bs < length (put po piece (blk (k * bs) x))"
      using that by (simp add: merged_def)
    then show ?thesis
      unfolding merged_def using that(1) b assms(2) i
      by (subst nth_put) (auto simp: lb not_less split: if_splits)
  qed
  show "put (k * bs) (merged x k po piece) x ! i = put (k * bs + po) piece x ! i"
  proof (cases "i < k * bs")
    case True
    then show ?thesis using l r by simp
  next
    case False
    show ?thesis
    proof (cases "i < k * bs + length (merged x k po piece)")
      case True
      then show ?thesis using l r m False by (auto simp: not_less)
    next
      case False
      then show ?thesis using l r lm by (auto simp: not_less)
    qed
  qed
qed

lemma length_merged:
  "length (merged x k po piece) = max (min bs (length x - k * bs)) (po + length piece)"
  by (simp add: merged_def block_of_def)

lemma merged_direct:
  assumes "length piece = bs \<or> length x \<le> k * bs + length piece"
  shows "merged x k 0 piece = piece"
  using assms by (auto simp: merged_def put_def block_of_def)

lemma merged_pad:
  assumes "length x \<le> k * bs" and "po + length piece \<le> bs"
  shows "merged x k po piece = take (length piece + po) (overlay po piece (replicate bs 0))"
  using assms by (simp add: merged_def put_def block_of_def overlay_def min_absorb1)

lemma merged_read:
  assumes "po + length piece \<le> bs"
  shows "merged x k po piece = take (max (length (blk (k * bs) x)) (po + length piece))
      (overlay po piece (overlay 0 (blk (k * bs) x) (replicate bs 0)))"
proof -
  let ?b = "blk (k * bs) x"
  have lb: "length ?b \<le> bs" by (simp add: block_of_def)
  have "overlay 0 ?b (replicate bs 0) = ?b @ replicate (bs - length ?b) 0" by simp
  moreover have "take po (?b @ replicate (bs - length ?b) 0) = take po (?b @ replicate (po - length ?b) 0)"
    using assms by (simp add: take_replicate min_def)
  moreover have "take (max (length ?b) (po + length piece) - (po + length piece))
      (drop (po + length piece) (?b @ replicate (bs - length ?b) 0)) = drop (po + length piece) ?b"
    by (auto simp: max_def)
  moreover have "length (take po (?b @ replicate (po - length ?b) 0)) = po" by auto
  ultimately show ?thesis
    unfolding merged_def put_def overlay_def by (simp add: take_Cons' max_def)
qed

lemma cacheWrite_merged:
  assumes "binv cs" and "k * bs \<le> length (bcontent cs)" and "piece \<noteq> []" and "po + length piece \<le> bs"
  shows "returns (cacheWriteOneBlock b (k * bs) (merged (bcontent cs) k po piece)) cs
      (\<lambda>ok cs'. ok \<and> binv cs' \<and> bcontent cs' = put (k * bs + po) piece (bcontent cs))"
proof -
  let ?x = "bcontent cs" and ?m = "merged (bcontent cs) k po piece"
  have lm: "length ?m = max (min bs (length ?x - k * bs)) (po + length piece)" by (rule length_merged)
  have "0 < length piece" using assms(3) by simp
  then have "?m \<noteq> []" using lm by (auto simp del: length_greater_0_conv)
  moreover have "length ?m \<le> bs" using lm assms(4) by simp
  moreover have "length ?m = bs \<or> length ?x \<le> k * bs + length ?m"
    using lm assms(4) by auto
  ultimately have "returns (cacheWriteOneBlock b (k * bs) ?m) cs
      (\<lambda>ok cs'. ok \<and> binv cs' \<and> bcontent cs' = put (k * bs) ?m ?x)"
    using assms(1,2) by (intro cacheWrite_ok) simp_all
  then show ?thesis using put_merged [OF assms(2,4)] by simp
qed

lemma writeLoop_ok:
  assumes "binv cs" and "po < bs" and "length (bcontent cs) = max F (k * bs)"
  shows "returns (writeLoop b (int F)
            (if F mod bs = 0 then int (F div bs) - 1 else int (F div bs)) k po inp) cs
      (\<lambda>ok cs'. ok \<and> binv cs' \<and>
         bcontent cs' = (if inp = [] then bcontent cs else put (k * bs + po) inp (bcontent cs)))"
  using assms
proof (induction "length inp" arbitrary: k po inp cs rule: less_induct)
  case less
  let ?last = "if F mod bs = 0 then int (F div bs) - 1 else int (F div bs)"
  show ?case
  proof (cases "inp = []")
    case True
    then show ?thesis using less by (subst writeLoop.simps) simp
  next
    case ne: False
    define x where "x = bcontent cs"
    define c where "c = min (bs - po) (length inp)"
    define piece where "piece = take c inp"
    have c: "0 < c" "c \<le> bs - po" "c \<le> length inp" using ne less(3) by (auto simp: c_def)
    have pl: "length piece = c" "piece \<noteq> []" "po + length piece \<le> bs"
      using c ne less(3) by (auto simp: piece_def)
    have lx: "length x = max F (k * bs)" using less(4) by (simp add: x_def)
    have past: "?last < int k \<longleftrightarrow> F \<le> k * bs" using past_last_block bs_pos by simp
    have dat: "returns (if c = bs \<or> po = 0 \<and> int (k * bs + c) \<ge> int F then sret piece
         else (let zeros = replicate bs 0 in
            if int k > ?last then sret (take (c + po) (overlay po piece zeros))
            else sbind (cacheReadOneBlock b (k * bs) bs) (\<lambda>r.
              let old = (case r of None \<Rightarrow> [] | Some d \<Rightarrow> d);
                  dataLen = (case r of None \<Rightarrow> -1 | Some d \<Rightarrow> int (length d));
                  dataLen = (if int (po + c) > dataLen then int (po + c) else dataLen)
              in sret (take (nat dataLen) (overlay po piece (overlay 0 old zeros)))))) cs
        (\<lambda>d cs'. d = merged x k po piece \<and> binv cs' \<and> bcontent cs' = x)"
    proof (cases "c = bs \<or> po = 0 \<and> F \<le> k * bs + c")
      case True
      then have "po = 0" using c by auto
      moreover from this have "merged x k 0 piece = piece"
        using True lx pl(1) by (intro merged_direct) auto
      moreover have "c = bs \<or> po = 0 \<and> int F \<le> int (k * bs + c)"
        using True by (simp only: of_nat_le_iff)
      ultimately show ?thesis using less(2) by (simp only: if_P returns_sret x_def simp_thms)
    next
      case False
      show ?thesis
      proof (cases "?last < int k")
        case True
        then have "merged x k po piece = take (c + po) (overlay po piece (replicate bs 0))"
          using merged_pad [of x k po piece] past lx pl by simp
        moreover have nf: "\<not> (c = bs \<or> po = 0 \<and> int F \<le> int (k * bs + c))"
          using False by (simp only: of_nat_le_iff not_False_eq_True)
        ultimately show ?thesis
          using less(2) by (simp only: if_not_P [OF nf] if_P [OF True] if_False if_True Let_def returns_sret x_def simp_thms)
      next
        case nlast: False
        have "take bs (blk (k * bs) x) = blk (k * bs) x" by (simp add: block_of_def)
        then have rd: "returns (cacheReadOneBlock b (k * bs) bs) cs
            (\<lambda>r cs'. r = Some (blk (k * bs) x) \<and> binv cs' \<and> bcontent cs' = x)"
          using cacheRead_ok [OF less(2), of "k * bs" bs] by (simp add: x_def)
        have len: "nat (if int (po + c) > int (length (blk (k * bs) x)) then int (po + c)
            else int (length (blk (k * bs) x))) = max (length (blk (k * bs) x)) (po + length piece)"
          using pl(1) by auto
        show ?thesis
          unfolding Let_def using False nlast
          by (simp only: of_nat_le_iff if_False returns_sbind)
             (rule returns_mono [OF rd], simp add: len merged_read [OF pl(3)] pl(1) nat_add_distrib)
      qed
    qed
    have wr: "returns (cacheWriteOneBlock b (k * bs) (merged x k po piece)) cs'
        (\<lambda>ok cs''. ok \<and> binv cs'' \<and> bcontent cs'' = put (k * bs + po) piece x)"
      if "binv cs'" "bcontent cs' = x" for cs'
      using cacheWrite_merged [OF that(1), of k piece po] that(2) lx pl by simp
    have rest: "returns (writeLoop b (int F) ?last (k + 1) 0 (drop c inp)) cs'
        (\<lambda>ok cs''. ok \<and> binv cs'' \<and> bcontent cs'' = put (k * bs + po) inp x)"
      if "binv cs'" "bcontent cs' = put (k * bs + po) piece x" for cs'
    proof (cases "drop c inp = []")
      case True
      then have "piece = inp" by (simp add: piece_def)
      then show ?thesis using True that by (subst writeLoop.simps) simp
    next
      case False
      then have full: "c = bs - po" by (auto simp: c_def min_def split: if_splits)
      then have "length (bcontent cs') = max F ((k + 1) * bs)"
        using that(2) lx pl(1) less(3) by simp
      moreover have "length (drop c inp) < length inp" using c ne by simp
      ultimately have "returns (writeLoop b (int F) ?last (k + 1) 0 (drop c inp)) cs'
          (\<lambda>ok cs''. ok \<and> binv cs'' \<and> bcontent cs'' =
             (if drop c inp = [] then bcontent cs' else put ((k + 1) * bs + 0) (drop c inp) (bcontent cs')))"
        using that bs_pos by (intro less(1)) auto
      moreover have "put ((k + 1) * bs + 0) (drop c inp) (bcontent cs') = put (k * bs + po) inp x"
      proof -
        have e: "(k + 1) * bs + 0 = (k * bs + po) + c" using full less(3) by simp
        have "piece @ drop c inp = inp" by (simp add: piece_def)
        then show ?thesis
          using put_put [OF pl(1), of "k * bs + po" "drop c inp" x] by (simp only: e that(2))
      qed
      ultimately show ?thesis using False by simp
    qed
    have c0: "c \<noteq> 0" using c(1) by simp
    show ?thesis
      apply (subst writeLoop.simps)
      apply (simp only: ne if_False Let_def c_def [symmetric] piece_def [symmetric] c0 returns_sbind)
      apply (rule returns_mono [OF dat [unfolded Let_def]])
      apply (elim conjE)
      apply (simp only:)
      apply (rule returns_mono [OF wr])
        apply assumption
       apply assumption
      apply (elim conjE)
      apply (simp only: not_True_eq_False if_False)
      apply (rule returns_mono [OF rest])
        apply assumption
       apply assumption
      apply (simp only: x_def)
      done
  qed
qed

lemma write_ok:
  assumes "binv cs" and "d \<noteq> []"
  shows "returns (block_write b off d) cs
      (\<lambda>ok cs'. ok \<and> binv cs' \<and> bcontent cs' = put off d (bcontent cs))"
proof -
  define x where "x = bcontent cs"
  define F where "F = length x"
  define k where "k = off div bs"
  define po where "po = off mod bs"
  have off: "off = k * bs + po" "po < bs" using bs_pos by (simp_all add: k_def po_def)
  let ?last = "if F mod bs = 0 then int (F div bs) - 1 else int (F div bs)"
  let ?x1 = "if F < off \<and> F div bs \<noteq> k then resize (k * bs) x else x"
  have kb: "F div bs \<noteq> k \<Longrightarrow> F < off \<Longrightarrow> F \<le> k * bs"
  proof -
    assume a: "F div bs \<noteq> k" "F < off"
    then have "F div bs \<le> k" unfolding k_def by (intro div_le_mono) simp
    with a(1) have "F div bs < k" by simp
    then have "F < k * bs" using bs_pos by (metis div_less_iff_less_mult less_trans zero_less_one)
    then show "F \<le> k * bs" by simp
  qed
  have kF: "F div bs = k \<Longrightarrow> k * bs \<le> F" using div_times_less_eq_dividend [of F bs] by (simp add: mult.commute)
  have kF': "off \<le> F \<Longrightarrow> k * bs \<le> F" using off by simp
  have lx1: "length ?x1 = max F (k * bs)"
  proof (cases "F < off \<and> F div bs \<noteq> k")
    case True
    then show ?thesis using kb by simp
  next
    case False
    then have "k * bs \<le> F" using kF kF' by (cases "off \<le> F") auto
    then show ?thesis unfolding if_not_P [OF False] by (simp add: F_def)
  qed
  have putx1: "put off d ?x1 = put off d x"
    using put_resize [of x "k * bs" off d] kb off F_def by auto
  have size: "returns (onSnd (bf_getSize b)) cs (\<lambda>n cs'. n = int F \<and> binv cs' \<and> bcontent cs' = x)"
  proof -
    obtain c s where cs: "cs = (c, s)" by (cases cs)
    then have i: "inv s" "cache_ok c (content s)" using assms(1) by (auto simp: block_inv_def)
    show ?thesis
      unfolding cs returns_onSnd
      by (rule returns_mono [OF getSize_ok [OF i(1)]])
         (use i in \<open>auto simp: block_inv_def block_content_def F_def x_def cs\<close>)
  qed
  have pad: "returns (if int off > int F then padFile b (nat (int F)) off False else sret ()) cs'
      (\<lambda>_ cs''. binv cs'' \<and> bcontent cs'' = ?x1)" if "binv cs'" "bcontent cs' = x" for cs'
  proof (cases "F < off")
    case True
    then show ?thesis
      using padFile_ok [OF that(1), of F off False] that(2) F_def k_def
      by (cases "F div bs = k") simp_all
  next
    case False
    then show ?thesis using that by simp
  qed
  have fin: "returns (if po = 0 \<and> length d \<le> bs \<and>
           (length d = bs \<or> int k = cdiv (int F) (int bs) \<and> int (length d) \<ge> cmod (int F) (int bs))
        then cacheWriteOneBlock b off d
        else writeLoop b (int F) ?last k po d) cs'
      (\<lambda>ok cs''. ok \<and> binv cs'' \<and> bcontent cs'' = put off d x)"
    if "binv cs'" "bcontent cs' = ?x1" for cs'
  proof (cases "po = 0 \<and> length d \<le> bs \<and> (length d = bs \<or> k = F div bs \<and> F mod bs \<le> length d)")
    case True
    have "length d = bs \<or> length (bcontent cs') \<le> off + length d"
    proof (cases "length d = bs")
      case False
      then have "k = F div bs" "F mod bs \<le> length d" using True by auto
      moreover have "off = F div bs * bs" using True off(1) calculation(1) by simp
      moreover have "F = F div bs * bs + F mod bs" by simp
      ultimately have "F \<le> off + length d" by linarith
      moreover have "k * bs \<le> off + length d" using off by simp
      ultimately show ?thesis using that(2) lx1 by simp
    qed simp
    then have "returns (cacheWriteOneBlock b off d) cs'
      (\<lambda>ok cs''. ok \<and> binv cs'' \<and> bcontent cs'' = put off d (bcontent cs'))"
      using that assms(2) True off lx1 by (intro cacheWrite_ok) auto
    then show ?thesis using True that(2) putx1 by simp
  next
    case False
    have "returns (writeLoop b (int F) ?last k po d) cs'
      (\<lambda>ok cs''. ok \<and> binv cs'' \<and> bcontent cs'' = (if d = [] then bcontent cs' else put (k * bs + po) d (bcontent cs')))"
      using that lx1 off(2) by (intro writeLoop_ok) simp_all
    then show ?thesis using False that(2) putx1 off(1) assms(2) by auto
  qed
  have lastI: "(if cmod (int F) (int bs) = 0 then cdiv (int F) (int bs) - 1 else cdiv (int F) (int bs)) = ?last"
    by simp
  have nz: "bs \<noteq> 0" using bs_pos by simp
  show ?thesis
    unfolding block_write_def Let_def k_def [symmetric] po_def [symmetric]
    apply (simp only: nz returns_sbind returns_sres rAssert_True sum.case not_False_eq_True)
    apply (rule returns_mono [OF size])
    apply (elim conjE)
    apply (simp only:)
    apply (rule returns_mono [OF pad])
      apply assumption
     apply assumption
    apply (elim conjE)
    apply (simp only: lastI)
    apply (rule returns_mono [OF fin])
      apply assumption
     apply assumption
    apply (simp only: x_def)
    done
qed

end

subsection \<open>Truncation under the contract\<close>

text \<open>
  A derived class cuts the file below itself, after \<open>block_truncate\<close>: writing a partial
  block and cutting the file behind it replaces the tail of the file.
\<close>

definition truncate_and_cut :: "'s block_file \<Rightarrow> (nat \<Rightarrow> ('s, int) sm) \<Rightarrow> nat \<Rightarrow> ('s, int) bm" where
  "truncate_and_cut b bcut n =
     sbind (block_truncate b n None) (\<lambda>res.
     if res = 0 then sbind (onSnd (bcut n)) (\<lambda>_. sret res) else sret res)"

locale block_trunc = block_layer +
  fixes bcut :: "nat \<Rightarrow> ('a, int) sm"
  assumes cut_same: "inv s \<Longrightarrow> returns (bcut (length (content s))) s
      (\<lambda>_ s'. inv s' \<and> content s' = content s)"
    and write_cut: "inv s \<Longrightarrow> bf_blockSize b dvd off \<Longrightarrow> d \<noteq> [] \<Longrightarrow> length d < bf_blockSize b \<Longrightarrow>
      off + length d < length (content s) \<Longrightarrow>
      returns (sbind (bf_writeOneBlock b off d) (\<lambda>ok. sbind (bcut (off + length d)) (\<lambda>_. sret ok))) s
        (\<lambda>ok s'. ok \<and> inv s' \<and> content s' = take off (content s) @ d)"
begin

lemma size_ok:
  assumes "binv cs"
  shows "returns (onSnd (bf_getSize b)) cs
    (\<lambda>n cs'. n = int (length (bcontent cs)) \<and> binv cs' \<and> bcontent cs' = bcontent cs)"
proof -
  obtain c s where cs: "cs = (c, s)" by (cases cs)
  then have i: "inv s" "cache_ok c (content s)" using assms by (auto simp: block_inv_def)
  show ?thesis
    unfolding cs returns_onSnd
    by (rule returns_mono [OF getSize_ok [OF i(1)]]) (use i in \<open>auto simp: block_inv_def block_content_def\<close>)
qed

lemma cut_same_ok:
  assumes "binv cs" and "n = length (bcontent cs)"
  shows "returns (sbind (onSnd (bcut n)) (\<lambda>_. sret r)) cs
    (\<lambda>r' cs'. r' = r \<and> binv cs' \<and> bcontent cs' = bcontent cs)"
proof -
  obtain c s where cs: "cs = (c, s)" by (cases cs)
  then have i: "inv s" "cache_ok c (content s)" using assms by (auto simp: block_inv_def)
  show ?thesis
    unfolding cs assms(2) returns_sbind returns_onSnd block_content_def snd_conv
    by (rule returns_mono [OF cut_same [OF i(1)]]) (use i in \<open>auto simp: block_inv_def block_content_def\<close>)
qed

lemma write_cut_ok:
  assumes "binv cs" and "bs dvd off" and "d \<noteq> []" and "length d < bs" and "off + length d < length (bcontent cs)"
  shows "returns (sbind (cacheWriteOneBlock b off d) (\<lambda>_. sbind (onSnd (bcut (off + length d))) (\<lambda>_. sret r))) cs
    (\<lambda>r' cs'. r' = r \<and> binv cs' \<and> bcontent cs' = take off (bcontent cs) @ d)"
proof -
  obtain c s where cs: "cs = (c, s)" by (cases cs)
  have i: "inv s" using assms(1) by (auto simp: block_inv_def cs)
  obtain s1 r1 s2 where "bf_writeOneBlock b off d s = (Inr True, s1)"
      "bcut (off + length d) s1 = (Inr r1, s2)" "inv s2" "content s2 = take off (content s) @ d"
    using write_cut [OF i assms(2-4)] assms(5)
    by (auto simp: returns_iff sbind_def sret_def block_content_def cs split: prod.splits sum.splits)
  moreover have "take bs (drop off (take off (content s) @ d)) = d"
    using assms(4,5) by (simp add: block_content_def cs)
  ultimately show ?thesis
    using assms(2) by (simp add: returns_iff cacheWriteOneBlock_def sbind_def onSnd_def sret_def cs
        block_inv_def block_content_def cache_holds_def block_of_def Let_def)
qed

text \<open>Extending a file, and cutting it inside a block.\<close>

lemma truncate_and_cut_ok:
  assumes "binv cs" and "length (bcontent cs) \<le> n \<or> \<not> bs dvd n"
  shows "returns (truncate_and_cut b bcut n) cs
    (\<lambda>r cs'. r = 0 \<and> binv cs' \<and> bcontent cs' = resize n (bcontent cs))"
proof -
  define x where "x = bcontent cs"
  define F where "F = length x"
  have size: "returns (onSnd (bf_getSize b)) cs (\<lambda>m cs'. m = int F \<and> binv cs' \<and> bcontent cs' = x)"
    using size_ok [OF assms(1)] by (simp add: x_def F_def)
  have grow: "returns (sbind (padFile b F n True) (\<lambda>_. sbind (onSnd (bcut n)) (\<lambda>_. sret 0))) cs'
      (\<lambda>r cs'. r = 0 \<and> binv cs' \<and> bcontent cs' = resize n x)"
    if "F < n" "binv cs'" "bcontent cs' = x" for cs'
  proof -
    have p: "returns (padFile b F n True) cs' (\<lambda>_ cs''. binv cs'' \<and> bcontent cs'' = resize n x)"
      using padFile_ok [OF that(2) _ that(1), of True] that(3) by (simp add: F_def)
    show ?thesis
      unfolding returns_sbind [of "padFile b F n True"]
    proof (rule returns_mono [OF p])
      fix u cs'' assume "binv cs'' \<and> bcontent cs'' = resize n x"
      then show "returns (sbind (onSnd (bcut n)) (\<lambda>_. sret 0)) cs''
          (\<lambda>r cs'. r = 0 \<and> binv cs' \<and> bcontent cs' = resize n x)"
        using cut_same_ok [of cs'' n 0] by simp
    qed
  qed
  have shrink: "returns (sbind (cacheReadOneBlock b (n div bs * bs) bs) (\<lambda>r.
        let dat = take (n mod bs) (overlay 0 (case r of None \<Rightarrow> [] | Some d \<Rightarrow> d) (replicate bs 0))
        in sbind (cacheWriteOneBlock b (n div bs * bs) dat) (\<lambda>_. sbind (onSnd (bcut n)) (\<lambda>_. sret 0)))) cs'
      (\<lambda>r cs'. r = 0 \<and> binv cs' \<and> bcontent cs' = resize n x)"
    if "n < F" "n mod bs \<noteq> 0" "binv cs'" "bcontent cs' = x" for cs'
  proof -
    define off where "off = n div bs * bs"
    define p where "p = n mod bs"
    have n: "n = off + p" "0 < p" "p < bs" "bs dvd off"
      using that(2) bs_pos by (simp_all add: off_def p_def)
    define d where "d = take p (drop off x)"
    have d: "length d = p" "take p (overlay 0 (blk off x) (replicate bs 0)) = d"
      using n that(1) by (auto simp: d_def block_of_def F_def)
    have rd: "returns (cacheReadOneBlock b off bs) cs'
        (\<lambda>r cs''. r = Some (blk off x) \<and> binv cs'' \<and> bcontent cs'' = x)"
      using cacheRead_ok [OF that(3) n(4), of bs] that(4) by (simp add: block_of_def)
    have res: "take off x @ d = resize n x"
      using n(1) that(1) by (simp add: d_def resize_def F_def take_add)
    show ?thesis
      unfolding off_def [symmetric] p_def [symmetric] returns_sbind [of "cacheReadOneBlock b off bs"]
    proof (rule returns_mono [OF rd], elim conjE)
      fix r cs'' assume c: "r = Some (blk off x)" "binv cs''" "bcontent cs'' = x"
      have "returns (sbind (cacheWriteOneBlock b off d) (\<lambda>_. sbind (onSnd (bcut (off + length d))) (\<lambda>_. sret 0))) cs''
          (\<lambda>r' cs'. r' = 0 \<and> binv cs' \<and> bcontent cs' = take off (bcontent cs'') @ d)"
        using c(2,3) n d that(1) F_def by (intro write_cut_ok) auto
      then show "returns (let dat = take p (overlay 0 (case r of None \<Rightarrow> [] | Some d \<Rightarrow> d) (replicate bs 0))
          in sbind (cacheWriteOneBlock b off dat) (\<lambda>_. sbind (onSnd (bcut n)) (\<lambda>_. sret 0))) cs''
          (\<lambda>r cs'. r = 0 \<and> binv cs' \<and> bcontent cs' = resize n x)"
        unfolding c(1,3) option.case d(2) Let_def d(1) n(1) [symmetric] res .
    qed
  qed
  show ?thesis
    unfolding truncate_and_cut_def block_truncate_def Let_def
    unfolding returns_sbind [of "sbind (onSnd (bf_getSize b)) _"] returns_sbind [of "onSnd (bf_getSize b)"]
  proof (rule returns_mono [OF size], elim conjE)
    fix m cs' assume m: "m = int F" and c: "binv cs'" "bcontent cs' = x"
    consider "F < n" | "n = F" | "n < F" "n mod bs \<noteq> 0"
      using assms(2) by (metis F_def dvd_eq_mod_eq_0 leD linorder_neqE_nat x_def)
    then show "returns (if m < int n then sbind (case None of None \<Rightarrow> sret 0 | Some t \<Rightarrow> onSnd (t n))
          (\<lambda>_. sbind (padFile b (nat m) n True) (\<lambda>_. sret 0))
        else if int n = m then sret 0
        else if n mod bs \<noteq> 0
        then sbind (cacheReadOneBlock b (n div bs * bs) bs) (\<lambda>r.
             sbind (case None of None \<Rightarrow> sret 0 | Some t \<Rightarrow> onSnd (t n)) (\<lambda>res.
             sbind (cacheWriteOneBlock b (n div bs * bs)
               (take (n mod bs) (overlay 0 (case r of None \<Rightarrow> [] | Some d \<Rightarrow> d) (replicate bs 0)))) (\<lambda>_. sret res)))
        else (case None of None \<Rightarrow> sret 0 | Some t \<Rightarrow> onSnd (t n))) cs'
      (\<lambda>x' s'. returns (if x' = 0 then sbind (onSnd (bcut n)) (\<lambda>_. sret x') else sret x') s'
         (\<lambda>r cs'. r = 0 \<and> binv cs' \<and> bcontent cs' = resize n (bcontent cs)))"
    proof cases
      case 1
      then show ?thesis
        using grow [OF 1 c] by (simp add: m x_def [symmetric] returns_sbind)
    next
      case 2
      then show ?thesis
        using cut_same_ok [OF c(1), of n 0] c(2) by (simp add: m x_def [symmetric] F_def)
    next
      case 3
      then show ?thesis
        using shrink [OF 3 c] by (simp add: m x_def [symmetric] returns_sbind Let_def)
    qed
  qed
qed

end

end
