(* ===== verification/RawFileIO.thy ===== *)
theory RawFileIO
  imports FileIO Interface
begin

text \<open>
  Files of the underlying file system (\<open>encfs/RawFileIO.cpp\<close>): descriptors, the cached
  size, writes with retries, truncation.  The \<open>unix::\<close> functions are a record over the
  state of the operating system (locale \<open>unix_file\<close> is what they promise for one open
  file); the theory \<open>CompatWin\<close> has their Windows implementation.
\<close>

subsection \<open>The operating system\<close>

text \<open>
  \<open>ux_errno\<close> reads \<open>errno\<close>.  \<open>ux_open\<close> is \<open>my_open\<close> on an existing file,
  \<open>ux_creat\<close> the \<open>unix::open\<close> with a mode.  A read is \<open>None\<close> when it returns a negative
  count; the other functions give their result code.
\<close>

record 'o unix =
  ux_errno :: "'o \<Rightarrow> int"
  ux_open :: "bytes \<Rightarrow> int \<Rightarrow> 'o \<Rightarrow> int \<times> 'o"
  ux_creat :: "bytes \<Rightarrow> int \<Rightarrow> u32 \<Rightarrow> 'o \<Rightarrow> int \<times> 'o"
  ux_close :: "int \<Rightarrow> 'o \<Rightarrow> int \<times> 'o"
  ux_lstat :: "bytes \<Rightarrow> 'o \<Rightarrow> (int \<times> stat) \<times> 'o"
  ux_chmod :: "bytes \<Rightarrow> u32 \<Rightarrow> 'o \<Rightarrow> int \<times> 'o"
  ux_pread :: "int \<Rightarrow> nat \<Rightarrow> nat \<Rightarrow> 'o \<Rightarrow> bytes option \<times> 'o"
  ux_pwrite :: "int \<Rightarrow> bytes \<Rightarrow> nat \<Rightarrow> 'o \<Rightarrow> int \<times> 'o"
  ux_ftruncate :: "int \<Rightarrow> nat \<Rightarrow> 'o \<Rightarrow> int \<times> 'o"
  ux_truncate :: "bytes \<Rightarrow> nat \<Rightarrow> 'o \<Rightarrow> int \<times> 'o"
  ux_fdatasync :: "int \<Rightarrow> 'o \<Rightarrow> int \<times> 'o"
  ux_fsync :: "int \<Rightarrow> 'o \<Rightarrow> int \<times> 'o"

subsection \<open>The object\<close>

record rawfile =
  rf_name :: bytes
  rf_knownSize :: bool
  rf_fileSize :: int
  rf_fd :: int
  rf_oldfd :: int
  rf_canWrite :: bool

type_synonym ('o, 'a) rm = "(rawfile \<times> 'o, 'a) sm"

definition RawFileIO_iface :: interface where
  "RawFileIO_iface = Interface (lit ''FileIO/Raw'') 1 0 0"

definition RawFileIO_new :: "bytes \<Rightarrow> rawfile" where
  "RawFileIO_new fileName =
     \<lparr>rf_name = fileName, rf_knownSize = False, rf_fileSize = 0, rf_fd = -1, rf_oldfd = -1,
      rf_canWrite = False\<rparr>"

text \<open>A system call, which does not touch the object.\<close>

definition sys :: "('o \<Rightarrow> 'a \<times> 'o) \<Rightarrow> ('o, 'a) rm" where
  "sys f = (\<lambda>(rf, w). case f w of (r, w') \<Rightarrow> (Inr r, (rf, w')))"

definition raw_destroy :: "'o unix \<Rightarrow> ('o, unit) rm" where
  "raw_destroy u =
     sbind (sget fst) (\<lambda>rf.
     sbind (smod (apfst (\<lambda>rf. rf\<lparr>rf_fd := -1, rf_oldfd := -1\<rparr>))) (\<lambda>_.
     sbind (if rf_oldfd rf \<noteq> -1 then sys (ux_close u (rf_oldfd rf)) else sret 0) (\<lambda>_.
     sbind (if rf_fd rf \<noteq> -1 then sys (ux_close u (rf_fd rf)) else sret 0) (\<lambda>_. sret ()))))"

definition open_readonly_workaround :: "'o unix \<Rightarrow> bytes \<Rightarrow> int \<Rightarrow> ('o, int) rm" where
  "open_readonly_workaround u path flags =
     sbind (sys (ux_lstat u path)) (\<lambda>(res, stbuf).
     if res \<noteq> -1
     then sbind (sys (ux_chmod u path (st_mode stbuf OR 0x180))) (\<lambda>_.
          sbind (sys (ux_open u path flags)) (\<lambda>fd.
          sbind (sys (ux_chmod u path (st_mode stbuf))) (\<lambda>_. sret fd)))
     else sret (-1))"

definition raw_open :: "'o unix \<Rightarrow> int \<Rightarrow> ('o, int) rm" where
  "raw_open u flags =
     (let requestWrite = (flags AND O_RDWR \<noteq> 0 \<or> flags AND O_WRONLY \<noteq> 0) in
      sbind (sget fst) (\<lambda>rf.
      if rf_fd rf \<ge> 0 \<and> (rf_canWrite rf \<or> \<not> requestWrite) then sret (rf_fd rf)
      else (let finalFlags = (if requestWrite then O_RDWR else O_RDONLY) in
        sbind (sys (ux_open u (rf_name rf) finalFlags)) (\<lambda>newFd.
        sbind (sget (ux_errno u \<circ> snd)) (\<lambda>errno.
        sbind (if newFd = -1 \<and> errno = EACCES
               then open_readonly_workaround u (rf_name rf) finalFlags else sret newFd) (\<lambda>newFd.
        if newFd \<ge> 0
        then sbind (smod (apfst (\<lambda>rf. rf\<lparr>rf_canWrite := requestWrite, rf_oldfd := rf_fd rf,
                                         rf_fd := newFd\<rparr>))) (\<lambda>_. sret newFd)
        else sbind (sget (ux_errno u \<circ> snd)) (\<lambda>errno. sret (- errno))))))))"

definition raw_getAttr :: "'o unix \<Rightarrow> ('o, int \<times> stat) rm" where
  "raw_getAttr u =
     sbind (sget fst) (\<lambda>rf.
     sbind (sys (ux_lstat u (rf_name rf))) (\<lambda>(res, stbuf).
     sbind (sget (ux_errno u \<circ> snd)) (\<lambda>eno.
     sret (if res < 0 then - eno else 0, stbuf))))"

definition raw_getSize :: "'o unix \<Rightarrow> ('o, int) rm" where
  "raw_getSize u =
     sbind (sget fst) (\<lambda>rf.
     if \<not> rf_knownSize rf
     then sbind (sys (ux_lstat u (rf_name rf))) (\<lambda>(res, stbuf).
          if res = 0
          then sbind (smod (apfst (\<lambda>rf. rf\<lparr>rf_fileSize := st_size stbuf, rf_knownSize := True\<rparr>))) (\<lambda>_.
               sret (st_size stbuf))
          else sret (-1))
     else sret (rf_fileSize rf))"

definition raw_read :: "'o unix \<Rightarrow> nat \<Rightarrow> nat \<Rightarrow> ('o, bytes option) rm" where
  "raw_read u offset dataLen =
     sbind (sget fst) (\<lambda>rf.
     sbind (sres (rAssert (rf_fd rf \<ge> 0))) (\<lambda>_.
     sys (ux_pread u (rf_fd rf) dataLen offset)))"

text \<open>The retry loop: \<open>None\<close> after an error, otherwise the bytes that remain.\<close>

fun raw_writeLoop :: "'o unix \<Rightarrow> int \<Rightarrow> nat \<Rightarrow> nat \<Rightarrow> bytes \<Rightarrow> ('o, bytes option) rm" where
  "raw_writeLoop u fd 0 offset buf = sret (Some buf)"
| "raw_writeLoop u fd (Suc retrys) offset buf =
     (if buf = [] then sret (Some [])
      else sbind (sys (ux_pwrite u fd buf offset)) (\<lambda>writeSize.
           if writeSize < 0
           then sbind (smod (apfst (\<lambda>rf. rf\<lparr>rf_knownSize := False\<rparr>))) (\<lambda>_. sret None)
           else raw_writeLoop u fd retrys (offset + nat writeSize) (drop (nat writeSize) buf)))"

definition raw_write :: "'o unix \<Rightarrow> nat \<Rightarrow> bytes \<Rightarrow> ('o, bool) rm" where
  "raw_write u offset dat =
     sbind (sget fst) (\<lambda>rf.
     sbind (sres (rAssert (rf_fd rf \<ge> 0))) (\<lambda>_.
     sbind (sres (rAssert (rf_canWrite rf))) (\<lambda>_.
     sbind (raw_writeLoop u (rf_fd rf) 10 offset dat) (\<lambda>r.
     case r of
       None \<Rightarrow> sret False
     | Some rest \<Rightarrow>
         if rest \<noteq> []
         then sbind (smod (apfst (\<lambda>rf. rf\<lparr>rf_knownSize := False\<rparr>))) (\<lambda>_. sret False)
         else sbind (smod (apfst (\<lambda>rf.
                let last = int (offset + length dat) in
                if rf_knownSize rf \<and> last > rf_fileSize rf then rf\<lparr>rf_fileSize := last\<rparr> else rf))) (\<lambda>_.
              sret True)))))"

definition raw_truncate :: "'o unix \<Rightarrow> nat \<Rightarrow> ('o, int) rm" where
  "raw_truncate u sz =
     sbind (sget fst) (\<lambda>rf.
     sbind (if rf_fd rf \<ge> 0 \<and> rf_canWrite rf
            then sbind (sys (ux_ftruncate u (rf_fd rf) sz)) (\<lambda>res.
                 sbind (sys (ux_fdatasync u (rf_fd rf))) (\<lambda>_. sret res))
            else sys (ux_truncate u (rf_name rf) sz)) (\<lambda>res.
     if res < 0
     then sbind (sget (ux_errno u \<circ> snd)) (\<lambda>eno.
          sbind (smod (apfst (\<lambda>rf. rf\<lparr>rf_knownSize := False\<rparr>))) (\<lambda>_. sret (- eno)))
     else sbind (smod (apfst (\<lambda>rf. rf\<lparr>rf_fileSize := int sz, rf_knownSize := True\<rparr>))) (\<lambda>_. sret 0)))"

definition RawFileIO :: "'o unix \<Rightarrow> (rawfile \<times> 'o) fileio" where
  "RawFileIO u =
     \<lparr>fio_blockSize = FileIO_blockSize,
      fio_setFileName = (\<lambda>fileName. smod (apfst (\<lambda>rf. rf\<lparr>rf_name := fileName\<rparr>))),
      fio_getFileName = (\<lambda>(rf, w). rf_name rf),
      fio_setIV = FileIO_setIV,
      fio_open = raw_open u,
      fio_getAttr = raw_getAttr u,
      fio_getSize = raw_getSize u,
      fio_read = raw_read u,
      fio_write = raw_write u,
      fio_truncate = raw_truncate u,
      fio_isWritable = (\<lambda>(rf, w). rf_canWrite rf)\<rparr>"

subsection \<open>What the system promises for an open file\<close>

text \<open>
  \<open>good\<close> says that the descriptor \<open>fd\<close> is open for reading and writing on the regular
  file called \<open>name\<close>, whose bytes are \<open>data\<close>.  A write may be short; when it fails,
  nothing is known about the bytes.  Cutting a file to length zero is left out: see
  \<open>CompatWin\<close>.
\<close>

locale unix_file =
  fixes u :: "'o unix" and name :: bytes and fd :: int
    and good :: "'o \<Rightarrow> bool" and data :: "'o \<Rightarrow> bytes"
  assumes fd_ok: "0 \<le> fd"
    and lstat_file: "good w \<Longrightarrow> \<exists>st w'. ux_lstat u name w = ((0, st), w') \<and> S_ISREG (st_mode st) \<and>
      st_size st = int (length (data w)) \<and> good w' \<and> data w' = data w"
    and pread_file: "good w \<Longrightarrow> \<exists>w'. ux_pread u fd n off w = (Some (take n (drop off (data w))), w') \<and>
      good w' \<and> data w' = data w"
    and pwrite_file: "good w \<Longrightarrow> d \<noteq> [] \<Longrightarrow> ux_pwrite u fd d off w = (cnt, w') \<Longrightarrow>
      good w' \<and> cnt \<le> int (length d) \<and> (cnt = 0 \<longrightarrow> data w' = data w) \<and>
      (0 < cnt \<longrightarrow> data w' = put off (take (nat cnt) d) (data w))"
    and ftruncate_file: "good w \<Longrightarrow> 0 < n \<Longrightarrow> \<exists>r w'. ux_ftruncate u fd n w = (r, w') \<and> 0 \<le> r \<and>
      good w' \<and> data w' = resize n (data w)"
    and fdatasync_file: "good w \<Longrightarrow> \<exists>r w'. ux_fdatasync u fd w = (r, w') \<and> good w' \<and> data w' = data w"

text \<open>A disk that is neither full nor failing writes everything at once.\<close>

locale unix_disk = unix_file +
  assumes pwrite_all: "good w \<Longrightarrow> d \<noteq> [] \<Longrightarrow> fst (ux_pwrite u fd d off w) = int (length d)"

lemma returns_sys [wp, simp]: "returns (sys f) (rf, w) P = (case f w of (r, w') \<Rightarrow> P r (rf, w'))"
  by (simp add: returns_def sys_def split: prod.splits)

text \<open>An object opened for writing; a size it has remembered is right.\<close>

definition raw_inv :: "bytes \<Rightarrow> int \<Rightarrow> ('o \<Rightarrow> bool) \<Rightarrow> ('o \<Rightarrow> bytes) \<Rightarrow> rawfile \<times> 'o \<Rightarrow> bool" where
  "raw_inv name fd good data = (\<lambda>(rf, w).
     good w \<and> rf_name rf = name \<and> rf_fd rf = fd \<and> rf_canWrite rf \<and>
     (rf_knownSize rf \<longrightarrow> rf_fileSize rf = int (length (data w))))"

context unix_file
begin

lemma raw_getSize_ok:
  assumes "raw_inv name fd good data s"
  shows "returns (raw_getSize u) s (\<lambda>n s'. n = int (length (data (snd s))) \<and>
    raw_inv name fd good data s' \<and> data (snd s') = data (snd s))"
proof -
  obtain rf w where s: "s = (rf, w)" by (cases s)
  then show ?thesis
    using assms lstat_file [of w] by (auto simp: raw_getSize_def raw_inv_def wp)
qed

lemma raw_read_ok:
  assumes "raw_inv name fd good data s"
  shows "returns (raw_read u off n) s (\<lambda>r s'. r = Some (take n (drop off (data (snd s)))) \<and>
    raw_inv name fd good data s' \<and> data (snd s') = data (snd s))"
proof -
  obtain rf w where s: "s = (rf, w)" by (cases s)
  then show ?thesis
    using assms pread_file [of w n off] fd_ok by (auto simp: raw_read_def raw_inv_def wp)
qed

lemma raw_open_ok:
  assumes "raw_inv name fd good data s"
  shows "returns (raw_open u flags) s (\<lambda>r s'. r = fd \<and> s' = s)"
  using assms fd_ok by (cases s) (auto simp: raw_open_def raw_inv_def Let_def wp)

lemma raw_writeLoop_ok:
  assumes "good w"
  shows "returns (raw_writeLoop u fd k off d) (rf, w) (\<lambda>r (rf', w'). good w' \<and>
    (case r of
       None \<Rightarrow> rf' = rf\<lparr>rf_knownSize := False\<rparr>
     | Some rest \<Rightarrow> rf' = rf \<and> (\<exists>n \<le> length d. rest = drop n d \<and>
         data w' = (if n = 0 then data w else put off (take n d) (data w)))))"
  using assms
proof (induction k arbitrary: off d w)
  case 0
  then show ?case by auto
next
  case (Suc k)
  show ?case
  proof (cases "d = []")
    case False
    obtain n w1 where p: "ux_pwrite u fd d off w = (n, w1)" by (cases "ux_pwrite u fd d off w")
    note q = pwrite_file [OF Suc(2) False p]
    let ?m = "nat n"
    show ?thesis
    proof (cases "n < 0")
      case True
      then show ?thesis using False p q by (simp add: wp)
    next
      case nn: False
      have d1: "data w1 = (if ?m = 0 then data w else put off (take ?m d) (data w))"
        using q nn by (cases "n = 0") auto
      have m: "?m \<le> length d" using q nn by linarith
      have "returns (raw_writeLoop u fd k (off + ?m) (drop ?m d)) (rf, w1) (\<lambda>r (rf', w'). good w' \<and>
        (case r of
           None \<Rightarrow> rf' = rf\<lparr>rf_knownSize := False\<rparr>
         | Some rest \<Rightarrow> rf' = rf \<and> (\<exists>n \<le> length d. rest = drop n d \<and>
             data w' = (if n = 0 then data w else put off (take n d) (data w)))))"
      proof (rule returns_mono [OF Suc(1) [of w1 "off + ?m" "drop ?m d"]])
        show "good w1" using q by simp
      next
        fix r s
        assume a: "case s of (rf', w') \<Rightarrow> good w' \<and>
          (case r of
             None \<Rightarrow> rf' = rf\<lparr>rf_knownSize := False\<rparr>
           | Some rest \<Rightarrow> rf' = rf \<and> (\<exists>j \<le> length (drop ?m d). rest = drop j (drop ?m d) \<and>
               data w' = (if j = 0 then data w1 else put (off + ?m) (take j (drop ?m d)) (data w1))))"
        have merge: "(if j = 0 then data w1 else put (off + ?m) (take j (drop ?m d)) (data w1))
            = (if ?m + j = 0 then data w else put off (take (?m + j) d) (data w))" for j
          using put_put [of "take ?m d" ?m off "take j (drop ?m d)" "data w"] m d1
          by (auto simp: take_add)
        obtain rf' w' where s: "s = (rf', w')" by (cases s)
        show "case s of (rf', w') \<Rightarrow> good w' \<and>
          (case r of
             None \<Rightarrow> rf' = rf\<lparr>rf_knownSize := False\<rparr>
           | Some rest \<Rightarrow> rf' = rf \<and> (\<exists>n \<le> length d. rest = drop n d \<and>
               data w' = (if n = 0 then data w else put off (take n d) (data w))))"
        proof (cases r)
          case None
          then show ?thesis using a s by simp
        next
          case (Some rest)
          then obtain j where "j \<le> length d - ?m" "rest = drop (?m + j) d" "good w'" "rf' = rf"
              "data w' = (if ?m + j = 0 then data w else put off (take (?m + j) d) (data w))"
            using a s merge by (auto simp: add.commute)
          then show ?thesis using Some s m by (auto intro!: exI [of _ "?m + j"])
        qed
      qed
      then show ?thesis using False p nn by (simp add: wp)
    qed
  qed (use Suc in auto)
qed

text \<open>A write that returns true has written everything; the remembered size stays right.\<close>

lemma raw_write_ok:
  assumes "raw_inv name fd good data s" and "d \<noteq> []"
  shows "returns (raw_write u off d) s (\<lambda>ok s'. raw_inv name fd good data s' \<and>
    (ok \<longrightarrow> data (snd s') = put off d (data (snd s))))"
proof -
  obtain rf w where s: "s = (rf, w)" by (cases s)
  have i: "good w" "rf_fd rf = fd" "rf_canWrite rf" "rf_name rf = name"
      "rf_knownSize rf \<longrightarrow> rf_fileSize rf = int (length (data w))"
    using assms(1) by (auto simp: raw_inv_def s)
  show ?thesis
    unfolding raw_write_def s
    unfolding returns_sbind returns_sget returns_sres i(2,3) fst_conv eqTrueI [OF fd_ok] rAssert_True
      eqTrueI [OF i(3)] sum.case
  proof (rule returns_mono [OF raw_writeLoop_ok [OF i(1), of 10 off d rf]])
    fix r s'
    assume a: "case s' of (rf', w') \<Rightarrow> good w' \<and>
      (case r of
         None \<Rightarrow> rf' = rf\<lparr>rf_knownSize := False\<rparr>
       | Some rest \<Rightarrow> rf' = rf \<and> (\<exists>n \<le> length d. rest = drop n d \<and>
           data w' = (if n = 0 then data w else put off (take n d) (data w))))"
    obtain rf' w' where s': "s' = (rf', w')" by (cases s')
    show "returns (case r of
        None \<Rightarrow> sret False
      | Some rest \<Rightarrow>
          if rest \<noteq> []
          then sbind (smod (apfst (\<lambda>rf. rf\<lparr>rf_knownSize := False\<rparr>))) (\<lambda>_. sret False)
          else sbind (smod (apfst (\<lambda>rf.
                 let last = int (off + length d) in
                 if rf_knownSize rf \<and> last > rf_fileSize rf then rf\<lparr>rf_fileSize := last\<rparr> else rf))) (\<lambda>_.
               sret True)) s' (\<lambda>ok s'. raw_inv name fd good data s' \<and>
        (ok \<longrightarrow> data (snd s') = put off d (data (snd (rf, w)))))"
    proof (cases r)
      case None
      then show ?thesis using a i by (simp add: s' raw_inv_def)
    next
      case (Some rest)
      then obtain n where n: "good w'" "rf' = rf" "n \<le> length d" "rest = drop n d"
          "data w' = (if n = 0 then data w else put off (take n d) (data w))"
        using a s' by auto
      show ?thesis
      proof (cases "rest = []")
        case True
        then have "data w' = put off d (data w)" using n assms(2) by (cases "n = 0") auto
        then show ?thesis using Some True n(1,2) i
          by (auto simp: s' raw_inv_def wp Let_def max_def)
      next
        case False
        then show ?thesis using Some n(1,2) i by (simp add: s' raw_inv_def wp)
      qed
    qed
  qed
qed

lemma raw_truncate_ok:
  assumes "raw_inv name fd good data s" and "0 < n"
  shows "returns (raw_truncate u n) s (\<lambda>r s'. r = 0 \<and> raw_inv name fd good data s' \<and>
    data (snd s') = resize n (data (snd s)))"
proof -
  obtain rf w where s: "s = (rf, w)" by (cases s)
  have i: "good w" "rf_fd rf = fd" "rf_canWrite rf" "rf_name rf = name"
    using assms(1) by (auto simp: raw_inv_def s)
  obtain r w1 where t: "ux_ftruncate u fd n w = (r, w1)" "0 \<le> r" "good w1" "data w1 = resize n (data w)"
    using ftruncate_file [OF i(1) assms(2)] by blast
  obtain r' w2 where f: "ux_fdatasync u fd w1 = (r', w2)" "good w2" "data w2 = data w1"
    using fdatasync_file [OF t(3)] by blast
  show ?thesis
    using t f i fd_ok by (simp add: raw_truncate_def raw_inv_def wp s)
qed

end

context unix_disk
begin

lemma raw_write_all:
  assumes "raw_inv name fd good data s" and "d \<noteq> []"
  shows "returns (raw_write u off d) s (\<lambda>ok s'. ok \<and> raw_inv name fd good data s' \<and>
    data (snd s') = put off d (data (snd s)))"
proof -
  obtain rf w where s: "s = (rf, w)" by (cases s)
  have i: "good w" "rf_fd rf = fd" "rf_canWrite rf" using assms(1) by (auto simp: raw_inv_def s)
  obtain w' where "ux_pwrite u fd d off w = (int (length d), w')"
    using pwrite_all [OF i(1) assms(2), of off] by (cases "ux_pwrite u fd d off w") simp
  then have "raw_writeLoop u fd 10 off d (rf, w) = (Inr (Some []), (rf, w'))"
    using assms(2) by (simp add: numeral_eq_Suc sbind_def sys_def sret_def)
  then have "fst (raw_write u off d s) = Inr True"
    using i fd_ok by (simp add: raw_write_def s sbind_def sget_def sres_def smod_def sret_def)
  then show ?thesis
    using raw_write_ok [OF assms, of off] by (auto simp: returns_def split: sum.splits prod.splits)
qed

lemma RawFileIO_file:
  "trunc_file (RawFileIO u) (raw_inv name fd good data) (data \<circ> snd) (\<lambda>_ n. 0 < n)"
proof
  show "returns (fio_open (RawFileIO u) flags) s
      (\<lambda>r s'. 0 \<le> r \<and> raw_inv name fd good data s' \<and> (data \<circ> snd) s' = (data \<circ> snd) s)"
    if "raw_inv name fd good data s" for s flags
  proof -
    have "returns (raw_open u flags) s (\<lambda>r s'. 0 \<le> r \<and> raw_inv name fd good data s' \<and> (data \<circ> snd) s' = (data \<circ> snd) s)"
      by (rule returns_mono [OF raw_open_ok [OF that]]) (use that fd_ok in simp)
    then show ?thesis by (simp add: RawFileIO_def)
  qed
  show "fio_isWritable (RawFileIO u) s" if "raw_inv name fd good data s" for s
    using that by (auto simp: RawFileIO_def raw_inv_def)
qed (simp_all add: RawFileIO_def raw_getSize_ok raw_read_ok raw_write_all raw_truncate_ok)

end

subsection \<open>A file system in memory\<close>

text \<open>
  One file, with the error number beside it, on descriptor 3; a write takes at most
  \<open>chunk\<close> bytes.  It shows that the promises can be kept and evaluates the properties.
\<close>

definition mem_unix :: "nat \<Rightarrow> (bytes \<times> int) unix" where
  "mem_unix chunk =
     \<lparr>ux_errno = snd,
      ux_open = (\<lambda>path flags w. (3, w)),
      ux_creat = (\<lambda>path flags mode w. (3, w)),
      ux_close = (\<lambda>fd w. (0, w)),
      ux_lstat = (\<lambda>path w. ((0, \<lparr>st_mode = 0x81b6, st_size = int (length (fst w))\<rparr>), w)),
      ux_chmod = (\<lambda>path mode w. (0, w)),
      ux_pread = (\<lambda>fd n off w. (Some (take n (drop off (fst w))), w)),
      ux_pwrite = (\<lambda>fd d off w.
        let n = min chunk (length d) in
        (int n, (if n = 0 then fst w else put off (take n d) (fst w), snd w))),
      ux_ftruncate = (\<lambda>fd n w. (0, (resize n (fst w), snd w))),
      ux_truncate = (\<lambda>path n w. (0, (resize n (fst w), snd w))),
      ux_fdatasync = (\<lambda>fd w. (0, w)),
      ux_fsync = (\<lambda>fd w. (0, w))\<rparr>"

lemma mem_unix_file: "unix_file (mem_unix chunk) name 3 (\<lambda>_. True) fst"
  by unfold_locales (auto simp: mem_unix_def S_ISREG_def Let_def)

text \<open>The whole file in one block.\<close>

definition mem_disk :: "bytes unix" where
  "mem_disk =
     \<lparr>ux_errno = (\<lambda>_. 0),
      ux_open = (\<lambda>path flags w. (3, w)),
      ux_creat = (\<lambda>path flags mode w. (3, w)),
      ux_close = (\<lambda>fd w. (0, w)),
      ux_lstat = (\<lambda>path w. ((0, \<lparr>st_mode = 0x81b6, st_size = int (length w)\<rparr>), w)),
      ux_chmod = (\<lambda>path mode w. (0, w)),
      ux_pread = (\<lambda>fd n off w. (Some (take n (drop off w)), w)),
      ux_pwrite = (\<lambda>fd d off w. (int (length d), put off d w)),
      ux_ftruncate = (\<lambda>fd n w. (0, resize n w)),
      ux_truncate = (\<lambda>path n w. (0, resize n w)),
      ux_fdatasync = (\<lambda>fd w. (0, w)),
      ux_fsync = (\<lambda>fd w. (0, w))\<rparr>"

interpretation mem_disk: unix_disk mem_disk name 3 "\<lambda>_. True" "\<lambda>w. w" for name
  by unfold_locales (auto simp: mem_disk_def S_ISREG_def)

interpretation raw_mem: trunc_file "RawFileIO mem_disk" "raw_inv name 3 (\<lambda>_. True) (\<lambda>w. w)"
    "(\<lambda>w. w) \<circ> snd" "\<lambda>_ n. 0 < n" for name
  by (rule mem_disk.RawFileIO_file)

subsection \<open>Descriptors\<close>

text \<open>
  What the system promises about descriptors: opening gives a new one or fails, closing
  frees one, and nothing else opens or closes any.
\<close>

locale unix_fds =
  fixes u :: "'o unix" and opened :: "'o \<Rightarrow> int set"
  assumes open_fd: "ux_open u p f w = (n, w') \<Longrightarrow>
      n = -1 \<and> opened w' = opened w \<or> 0 \<le> n \<and> n \<notin> opened w \<and> opened w' = insert n (opened w)"
    and close_fd: "opened (snd (ux_close u n w)) = opened w - {n}"
    and lstat_fd: "opened (snd (ux_lstat u p w)) = opened w"
    and chmod_fd: "opened (snd (ux_chmod u p m w)) = opened w"
    and pread_fd: "opened (snd (ux_pread u n len off w)) = opened w"
    and pwrite_fd: "opened (snd (ux_pwrite u n d off w)) = opened w"
    and ftruncate_fd: "opened (snd (ux_ftruncate u n len w)) = opened w"
    and truncate_fd: "opened (snd (ux_truncate u p len w)) = opened w"
    and fdatasync_fd: "opened (snd (ux_fdatasync u n w)) = opened w"

text \<open>The calls a client can make; a call may also throw.\<close>

inductive raw_step :: "'o unix \<Rightarrow> rawfile \<times> 'o \<Rightarrow> rawfile \<times> 'o \<Rightarrow> bool" for u where
  step_open: "raw_step u s (snd (raw_open u flags s))"
| step_getAttr: "raw_step u s (snd (raw_getAttr u s))"
| step_getSize: "raw_step u s (snd (raw_getSize u s))"
| step_read: "raw_step u s (snd (raw_read u off n s))"
| step_write: "raw_step u s (snd (raw_write u off d s))"
| step_truncate: "raw_step u s (snd (raw_truncate u n s))"
| step_setFileName: "raw_step u s (snd (fio_setFileName (RawFileIO u) name s))"

text \<open>
  The object owns its descriptors, at most two: an older one only beside a writable one,
  so that no further open happens.
\<close>

definition raw_fds :: "rawfile \<Rightarrow> int set" where
  "raw_fds rf = {rf_fd rf, rf_oldfd rf} - {-1}"

definition raw_owns :: "('o \<Rightarrow> int set) \<Rightarrow> int set \<Rightarrow> rawfile \<times> 'o \<Rightarrow> bool" where
  "raw_owns opened Q = (\<lambda>(rf, w).
     -1 \<le> rf_fd rf \<and> -1 \<le> rf_oldfd rf \<and> (rf_fd rf = -1 \<longrightarrow> rf_oldfd rf = -1) \<and>
     (rf_oldfd rf \<noteq> -1 \<longrightarrow> rf_canWrite rf) \<and>
     raw_fds rf \<inter> Q = {} \<and> opened w = Q \<union> raw_fds rf)"

lemma snd_sbind:
  "(\<And>s. P s \<Longrightarrow> P (snd (m s))) \<Longrightarrow> (\<And>x s. P s \<Longrightarrow> P (snd (f x s))) \<Longrightarrow> P s \<Longrightarrow> P (snd (sbind m f s))"
  unfolding sbind_def by (simp split: prod.splits sum.splits) (metis snd_conv)

lemma snd_combinators [simp]:
  "snd (sret x s) = s" "snd (sthrow e s) = s" "snd (sres r s) = s" "snd (sget g s) = s" "snd (smod up s) = up s"
  by (simp_all add: sret_def sthrow_def sres_def sget_def smod_def)

context unix_fds
begin

lemma owns_sys:
  assumes "\<And>w. opened (snd (f w)) = opened w" and "raw_owns opened Q s"
  shows "raw_owns opened Q (snd (sys f s))"
  using assms(2) assms(1) [of "snd s"] by (cases s) (auto simp: raw_owns_def sys_def split: prod.splits)

lemma owns_size: "raw_owns opened Q s \<Longrightarrow> raw_owns opened Q (apfst (\<lambda>rf. rf\<lparr>rf_knownSize := k\<rparr>) s)"
  by (cases s) (simp add: raw_owns_def raw_fds_def)

lemma owns_fileSize:
  "raw_owns opened Q s \<Longrightarrow> raw_owns opened Q (apfst (\<lambda>rf. rf\<lparr>rf_fileSize := n, rf_knownSize := k\<rparr>) s)"
  by (cases s) (simp add: raw_owns_def raw_fds_def)

lemma owns_last:
  "raw_owns opened Q s \<Longrightarrow> raw_owns opened Q (apfst (\<lambda>rf. let last = n in
     if rf_knownSize rf \<and> last > rf_fileSize rf then rf\<lparr>rf_fileSize := last\<rparr> else rf) s)"
  by (cases s) (simp add: raw_owns_def raw_fds_def Let_def)

lemma owns_fields [simp]:
  "raw_owns opened Q (rf\<lparr>rf_knownSize := k\<rparr>, w) = raw_owns opened Q (rf, w)"
  "raw_owns opened Q (rf\<lparr>rf_fileSize := n\<rparr>, w) = raw_owns opened Q (rf, w)"
  by (simp_all add: raw_owns_def raw_fds_def)

lemmas fd_calls = lstat_fd chmod_fd pread_fd pwrite_fd ftruncate_fd truncate_fd fdatasync_fd

lemma owns_writeLoop: "raw_owns opened Q s \<Longrightarrow> raw_owns opened Q (snd (raw_writeLoop u n k off d s))"
proof (induction k arbitrary: off d s)
  case (Suc k)
  show ?case
  proof (cases "d = []")
    case False
    have "raw_owns opened Q (snd (sbind (sys (ux_pwrite u n d off)) (\<lambda>writeSize.
        if writeSize < 0 then sbind (smod (apfst (\<lambda>rf. rf\<lparr>rf_knownSize := False\<rparr>))) (\<lambda>_. sret None)
        else raw_writeLoop u n k (off + nat writeSize) (drop (nat writeSize) d)) s))"
    proof (rule snd_sbind [of "raw_owns opened Q"])
      show "raw_owns opened Q (snd (sys (ux_pwrite u n d off) s))" if "raw_owns opened Q s" for s
        using that by (intro owns_sys fd_calls)
      show "raw_owns opened Q (snd ((if x < 0 then sbind (smod (apfst (\<lambda>rf. rf\<lparr>rf_knownSize := False\<rparr>))) (\<lambda>_. sret None)
          else raw_writeLoop u n k (off + nat x) (drop (nat x) d)) s))" if "raw_owns opened Q s" for x s
        using that Suc(1) by (auto intro!: snd_sbind [of "raw_owns opened Q"] owns_size)
    qed (rule Suc(2))
    then show ?thesis using False by simp
  qed (use Suc in simp)
qed simp

text \<open>Opening: the one call that changes the descriptors.\<close>

lemma owns_new_fd:
  assumes "raw_owns opened Q (rf, w)" and "\<not> (rf_fd rf \<ge> 0 \<and> (rf_canWrite rf \<or> \<not> req))"
    and "0 \<le> n" and "n \<notin> opened w" and "opened w' = insert n (opened w)"
  shows "raw_owns opened Q (rf\<lparr>rf_canWrite := req, rf_oldfd := rf_fd rf, rf_fd := n\<rparr>, w')"
proof -
  have "rf_oldfd rf = -1" "rf_fd rf \<noteq> -1 \<longrightarrow> req" using assms(1,2) by (auto simp: raw_owns_def)
  then show ?thesis using assms by (auto simp: raw_owns_def raw_fds_def)
qed

lemma owns_open:
  assumes "raw_owns opened Q s"
  shows "raw_owns opened Q (snd (raw_open u flags s))"
proof -
  define req where "req \<longleftrightarrow> flags AND O_RDWR \<noteq> 0 \<or> flags AND O_WRONLY \<noteq> 0"
  define fl where "fl = (if req then O_RDWR else O_RDONLY)"
  have eq: "raw_open u flags = sbind (sget fst) (\<lambda>rf.
      if rf_fd rf \<ge> 0 \<and> (rf_canWrite rf \<or> \<not> req) then sret (rf_fd rf)
      else sbind (sys (ux_open u (rf_name rf) fl)) (\<lambda>newFd.
        sbind (sget (ux_errno u \<circ> snd)) (\<lambda>errno.
        sbind (if newFd = -1 \<and> errno = EACCES
               then open_readonly_workaround u (rf_name rf) fl else sret newFd) (\<lambda>newFd.
        if newFd \<ge> 0
        then sbind (smod (apfst (\<lambda>rf. rf\<lparr>rf_canWrite := req, rf_oldfd := rf_fd rf,
                                         rf_fd := newFd\<rparr>))) (\<lambda>_. sret newFd)
        else sbind (sget (ux_errno u \<circ> snd)) (\<lambda>errno. sret (- errno))))))"
    unfolding raw_open_def Let_def req_def fl_def by (rule refl)
  obtain rf w where s: "s = (rf, w)" by (cases s)
  show ?thesis
  proof (cases "rf_fd rf \<ge> 0 \<and> (rf_canWrite rf \<or> \<not> req)")
    case True
    then show ?thesis using assms by (simp add: eq sbind_def sget_def sret_def s)
  next
    case nfd: False
    obtain n w1 where o: "ux_open u (rf_name rf) fl w = (n, w1)" by (cases "ux_open u (rf_name rf) fl w")
    consider (ok) "0 \<le> n" "n \<notin> opened w" "opened w1 = insert n (opened w)"
      | (fail) "n = -1" "opened w1 = opened w" using open_fd [OF o] by auto
    then show ?thesis
    proof cases
      case ok
      then have "n \<noteq> -1" by simp
      then show ?thesis
        using owns_new_fd [OF assms [unfolded s] nfd ok] o ok(1)
        by (simp add: eq if_not_P [OF nfd] sbind_def sget_def sret_def smod_def sys_def s)
    next
      case fail
      have w1: "raw_owns opened Q (rf, w1)" using assms fail(2) by (simp add: raw_owns_def s)
      show ?thesis
      proof (cases "ux_errno u w1 = EACCES")
        case no: False
        then show ?thesis
          using o fail(1) no w1
          by (simp add: eq if_not_P [OF nfd] sbind_def sget_def sret_def sys_def s)
      next
        case eacces: True
        obtain res st w2 where l: "ux_lstat u (rf_name rf) w1 = ((res, st), w2)" by (metis surj_pair)
        have w2: "opened w2 = opened w" using lstat_fd [of "rf_name rf" w1] l fail(2) by simp
        obtain c3 w3 where c3: "ux_chmod u (rf_name rf) (st_mode st OR 0x180) w2 = (c3, w3)" by (metis surj_pair)
        have w3: "opened w3 = opened w" using chmod_fd [of "rf_name rf" "st_mode st OR 0x180" w2] c3 w2 by simp
        obtain n4 w4 where o4: "ux_open u (rf_name rf) fl w3 = (n4, w4)" by (metis surj_pair)
        obtain c5 w5 where c5: "ux_chmod u (rf_name rf) (st_mode st) w4 = (c5, w5)" by (metis surj_pair)
        have w5: "opened w5 = opened w4" using chmod_fd [of "rf_name rf" "st_mode st" w4] c5 by simp
        show ?thesis
        proof (cases "res = -1")
          case True
          have "raw_owns opened Q (rf, w2)" using assms w2 by (simp add: raw_owns_def s)
          then show ?thesis
            using o fail(1) eacces l True
            by (simp add: eq if_not_P [OF nfd] open_readonly_workaround_def
                sbind_def sget_def sret_def sys_def s)
        next
          case stat: False
          consider (ok) "0 \<le> n4" "n4 \<notin> opened w" "opened w5 = insert n4 (opened w)"
            | (fail) "n4 = -1" "opened w5 = opened w" using open_fd [OF o4] w3 w5 by auto
          then show ?thesis
          proof cases
            case ok
            then show ?thesis
              using owns_new_fd [OF assms [unfolded s] nfd ok] o fail(1) eacces l stat c3 o4 c5
              by (simp add: eq if_not_P [OF nfd] open_readonly_workaround_def
                  sbind_def sget_def sret_def smod_def sys_def s)
          next
            case f4: fail
            have "raw_owns opened Q (rf, w5)" using assms f4 by (simp add: raw_owns_def s)
            then show ?thesis
              using o fail(1) eacces l stat c3 o4 c5 f4(1)
              by (simp add: eq if_not_P [OF nfd] open_readonly_workaround_def
                  sbind_def sget_def sret_def sys_def s)
          qed
        qed
      qed
    qed
  qed
qed

lemma owns_step: "raw_step u s s' \<Longrightarrow> raw_owns opened Q s \<Longrightarrow> raw_owns opened Q s'"
proof (induction rule: raw_step.induct)
  case (step_open s flags)
  then show ?case by (rule owns_open)
next
  case (step_getAttr s)
  then show ?case unfolding raw_getAttr_def
    by (auto intro!: snd_sbind [of "raw_owns opened Q"] owns_sys simp: fd_calls)
next
  case (step_getSize s)
  then show ?case unfolding raw_getSize_def
    by (auto intro!: snd_sbind [of "raw_owns opened Q"] owns_sys owns_fileSize simp: fd_calls)
next
  case (step_read s off n)
  then show ?case unfolding raw_read_def
    by (auto intro!: snd_sbind [of "raw_owns opened Q"] owns_sys simp: fd_calls)
next
  case (step_write s off d)
  then show ?case unfolding raw_write_def
    by (auto intro!: snd_sbind [of "raw_owns opened Q"] owns_writeLoop owns_size owns_last simp: Let_def split: option.splits)
next
  case (step_truncate s n)
  then show ?case unfolding raw_truncate_def
    by (auto intro!: snd_sbind [of "raw_owns opened Q"] owns_sys owns_size owns_fileSize simp: fd_calls)
next
  case (step_setFileName s name)
  then show ?case by (cases s) (simp add: RawFileIO_def raw_owns_def raw_fds_def)
qed

lemma owns_run: "(raw_step u)\<^sup>*\<^sup>* s s' \<Longrightarrow> raw_owns opened Q s \<Longrightarrow> raw_owns opened Q s'"
  by (induction rule: rtranclp_induct) (auto intro: owns_step)

lemma destroy_frees:
  assumes "raw_owns opened Q s"
  shows "opened (snd (snd (raw_destroy u s))) = Q"
proof -
  obtain rf w where s: "s = (rf, w)" by (cases s)
  obtain r1 w1 where c1: "ux_close u (rf_oldfd rf) w = (r1, w1)" by (metis surj_pair)
  obtain r2 w2 where c2: "ux_close u (rf_fd rf) w1 = (r2, w2)" by (metis surj_pair)
  obtain r3 w3 where c3: "ux_close u (rf_fd rf) w = (r3, w3)" by (metis surj_pair)
  have "opened w1 = opened w - {rf_oldfd rf}" "opened w2 = opened w1 - {rf_fd rf}" "opened w3 = opened w - {rf_fd rf}"
    using close_fd [of "rf_oldfd rf" w] close_fd [of "rf_fd rf" w1] close_fd [of "rf_fd rf" w] c1 c2 c3 by simp_all
  then show ?thesis
    using assms c1 c2 c3
    by (auto simp: s raw_destroy_def raw_owns_def raw_fds_def sbind_def sget_def sret_def smod_def sys_def)
qed

end

subsection \<open>A table of descriptors\<close>

text \<open>The open descriptors; a new one is larger than all of them.\<close>

definition fd_unix :: "int list unix" where
  "fd_unix =
     \<lparr>ux_errno = (\<lambda>_. 0),
      ux_open = (\<lambda>path flags w. (let n = foldr max w 0 + 1 in (n, n # w))),
      ux_creat = (\<lambda>path flags mode w. (let n = foldr max w 0 + 1 in (n, n # w))),
      ux_close = (\<lambda>fd w. (0, filter (\<lambda>n. n \<noteq> fd) w)),
      ux_lstat = (\<lambda>path w. ((0, \<lparr>st_mode = 0x81b6, st_size = 0\<rparr>), w)),
      ux_chmod = (\<lambda>path mode w. (0, w)),
      ux_pread = (\<lambda>fd n off w. (Some [], w)),
      ux_pwrite = (\<lambda>fd d off w. (int (length d), w)),
      ux_ftruncate = (\<lambda>fd n w. (0, w)),
      ux_truncate = (\<lambda>path n w. (0, w)),
      ux_fdatasync = (\<lambda>fd w. (0, w)),
      ux_fsync = (\<lambda>fd w. (0, w))\<rparr>"

lemma foldr_max_ge: "0 \<le> foldr max w (0 :: int) \<and> (\<forall>x \<in> set w. x \<le> foldr max w 0)"
  by (induction w) auto

interpretation fd_table: unix_fds fd_unix set
proof
  show "n = - 1 \<and> set w' = set w \<or> 0 \<le> n \<and> n \<notin> set w \<and> set w' = insert n (set w)"
    if "ux_open fd_unix p f w = (n, w')" for p f w n w'
    using that foldr_max_ge [of w] by (auto simp: fd_unix_def Let_def)
qed (auto simp: fd_unix_def)

subsection \<open>Properties\<close>

text \<open>
  on a disk that may write less than it was asked to, or fail, a write to an open
  object never throws, and when it reports success all of its bytes are in the file; the
  remembered size of the file is right afterwards in every case.
\<close>
theorem raw_write_truthful:
  assumes "unix_file u name fd good data" and "raw_inv name fd good data s" and "d \<noteq> []"
  shows "returns (fio_write (RawFileIO u) off d) s (\<lambda>ok s'. raw_inv name fd good data s' \<and>
    (ok \<longrightarrow> data (snd s') = put off d (data (snd s))))"
  using unix_file.raw_write_ok [OF assms] by (simp add: RawFileIO_def)

theorem raw_write_truthful_witness:
  "let s = ((RawFileIO_new [])\<lparr>rf_fd := 3, rf_canWrite := True\<rparr>, ([1, 2], 0)) in
   returns (fio_write (RawFileIO (mem_unix 2)) 1 [7, 8, 9]) s (\<lambda>ok s'. raw_inv [] 3 (\<lambda>_. True) fst s' \<and>
     (\<not> ok \<or> fst (snd s') = [1, 7, 8, 9]))"
proof -
  have "raw_inv [] 3 (\<lambda>_. True) fst ((RawFileIO_new [])\<lparr>rf_fd := 3, rf_canWrite := True\<rparr>, ([1, 2], 0))"
    by (simp add: raw_inv_def RawFileIO_new_def)
  from raw_write_truthful [OF mem_unix_file this, of "[7, 8, 9]" 2 1]
  show ?thesis
    unfolding Let_def by (rule returns_mono) (auto simp: put_def)
qed

text \<open>
  C23: whatever calls are made on an object, in whatever order and with whatever outcome, it
  owns at most two descriptors, and when it is destroyed exactly the descriptors that were
  open before it was made are open: none is leaked and no other one is closed.
\<close>
theorem raw_descriptors_freed:
  assumes "unix_fds u opened" and "(raw_step u)\<^sup>*\<^sup>* (RawFileIO_new name, w) (rf, w')"
  shows "card (opened w' - opened w) \<le> 2 \<and> opened (snd (snd (raw_destroy u (rf, w')))) = opened w"
proof -
  have "raw_owns opened (opened w) (RawFileIO_new name, w)"
    by (simp add: raw_owns_def raw_fds_def RawFileIO_new_def)
  then have o: "raw_owns opened (opened w) (rf, w')"
    using unix_fds.owns_run [OF assms] by blast
  then have "opened w' - opened w \<subseteq> {rf_fd rf, rf_oldfd rf}" by (auto simp: raw_owns_def raw_fds_def)
  then have "card (opened w' - opened w) \<le> card {rf_fd rf, rf_oldfd rf}" by (intro card_mono) auto
  also have "\<dots> \<le> 2" by (simp add: card_insert_if)
  finally show ?thesis using unix_fds.destroy_frees [OF assms(1) o] by simp
qed

theorem raw_descriptors_freed_witness:
  "set (snd (snd (raw_destroy fd_unix (snd (raw_open fd_unix O_RDWR
     (snd (raw_open fd_unix O_RDONLY (RawFileIO_new [], [4])))))))) = {4}"
proof -
  obtain rf w where s: "snd (raw_open fd_unix O_RDWR (snd (raw_open fd_unix O_RDONLY (RawFileIO_new [], [4])))) = (rf, w)"
    by (metis surj_pair)
  have "(raw_step fd_unix)\<^sup>*\<^sup>* (RawFileIO_new [], [4]) (rf, w)"
    unfolding s [symmetric]
    by (rule converse_rtranclp_into_rtranclp, rule step_open, rule r_into_rtranclp, rule step_open)
  from raw_descriptors_freed [OF fd_table.unix_fds_axioms this] show ?thesis by (simp add: s)
qed

end
