(* ===== verification/CipherFileIO.thy ===== *)
theory CipherFileIO
  imports BlockFileIO Blocks RawFileIO FSConfig SSL_Cipher NullNameIO
begin

text \<open>
  Encrypted files (\<open>encfs/CipherFileIO.cpp\<close>): an 8 byte header with the IV of the file,
  encrypted under the IV of its path, and data blocks encrypted under the IV of the file
  xor their number.  Over a base file that is a byte string and a lawful cipher, the
  object is again a byte string, the decryption of the stored one.
\<close>

subsection \<open>The object\<close>

text \<open>
  \<open>ci_rand\<close> counts the calls of \<open>randomize\<close>.  The state of the derived class is this
  record and the state of the base file.
\<close>

record cipherio =
  ci_externalIV :: u64
  ci_fileIV :: u64
  ci_lastFlags :: int
  ci_rand :: nat

type_synonym ('s, 'a) cm = "(cipherio \<times> 's, 'a) sm"

definition CipherFileIO_iface :: interface where
  "CipherFileIO_iface = Interface (lit ''FileIO/Cipher'') 2 0 1"

definition HEADER_SIZE :: nat where "HEADER_SIZE = 8"

definition cio_blockSize :: "'k FSConfig \<Rightarrow> nat" where
  "cio_blockSize cfg = nat (c_blockSize (fs_config cfg))"

definition haveHeader :: "'k FSConfig \<Rightarrow> bool" where
  "haveHeader cfg = c_uniqueIV (fs_config cfg)"

text \<open>The constructor only warns about blocks that the cipher cannot code.\<close>

definition checkSize :: "int \<Rightarrow> int \<Rightarrow> bool" where
  "checkSize fsBlockSize cipherBlockSize = (cmod fsBlockSize cipherBlockSize \<noteq> 0)"

definition CipherFileIO_new :: "'k FSConfig \<Rightarrow> (iorequest \<times> cipherio) res" where
  "CipherFileIO_new cfg =
     rbind (BlockFileIO_check (cio_blockSize cfg)) (\<lambda>_.
     Inr (BlockFileIO_cache, \<lparr>ci_externalIV = 0, ci_fileIV = 0, ci_lastFlags = 0, ci_rand = 0\<rparr>))"

subsection \<open>The header\<close>

definition iv_of_bytes :: "bytes \<Rightarrow> u64" where
  "iv_of_bytes buf = fold (\<lambda>x iv. push_bit 8 iv OR ucast x) buf 0"

definition bytes_of_iv :: "u64 \<Rightarrow> bytes" where
  "bytes_of_iv iv = map (\<lambda>i. ucast (drop_bit (8 * (7 - i)) iv)) [0..<8]"

text \<open>The loop that draws the IV of a new file: it ends with an error or a non-zero IV.\<close>

partial_function (option) newFileIV :: "'k cipher \<Rightarrow> nat \<Rightarrow> (bytes res \<times> nat) option" where
  "newFileIV c i =
     (case vt_randomize c 8 False i of (ok, buf) \<Rightarrow>
        if \<not> ok then Some (Inl RandomFailed, i + 1)
        else if iv_of_bytes buf = 0 then newFileIV c (i + 1)
        else Some (Inr buf, i + 1))"

definition initHeader :: "'k FSConfig \<Rightarrow> 's fileio \<Rightarrow> ('s, unit) cm" where
  "initHeader cfg base =
     sbind (onSnd (fio_getSize base)) (\<lambda>rawSize.
     sbind (sget (ci_externalIV \<circ> fst)) (\<lambda>externalIV.
     if rawSize \<ge> int HEADER_SIZE
     then sbind (onSnd (fio_read base 0 8)) (\<lambda>r.
          let buf = overlay 0 (case r of None \<Rightarrow> [] | Some d \<Rightarrow> d) (replicate 8 0) in
          sbind (sres (vt_streamDecode (fs_cipher cfg) buf externalIV (fs_key cfg))) (\<lambda>(ok, buf).
          sbind (smod (apfst (\<lambda>ci. ci\<lparr>ci_fileIV := iv_of_bytes buf\<rparr>))) (\<lambda>_.
          sres (rAssert (iv_of_bytes buf \<noteq> 0)))))
     else sbind (sget (ci_rand \<circ> fst)) (\<lambda>i.
          case newFileIV (fs_cipher cfg) i of
            None \<Rightarrow> sthrow Diverges
          | Some (r, i) \<Rightarrow>
              sbind (smod (apfst (\<lambda>ci. ci\<lparr>ci_rand := i\<rparr>))) (\<lambda>_.
              sbind (sres r) (\<lambda>buf.
              sbind (smod (apfst (\<lambda>ci. ci\<lparr>ci_fileIV := iv_of_bytes buf\<rparr>))) (\<lambda>_.
              sbind (sget (fio_isWritable base \<circ> snd)) (\<lambda>writable.
              if writable
              then sbind (sres (vt_streamEncode (fs_cipher cfg) buf externalIV (fs_key cfg))) (\<lambda>(ok, buf).
                   sbind (onSnd (fio_write base 0 buf)) (\<lambda>_. sret ()))
              else sret ())))))))"

text \<open>The IV of the file is shifted out while it is stored, so it ends as zero.\<close>

definition writeHeader :: "'k FSConfig \<Rightarrow> 's fileio \<Rightarrow> ('s, bool) cm" where
  "writeHeader cfg base =
     sbind (sget (fio_isWritable base \<circ> snd)) (\<lambda>writable.
     sbind (sget (ci_lastFlags \<circ> fst)) (\<lambda>lastFlags.
     sbind (if \<not> writable
            then sbind (onSnd (fio_open base (lastFlags OR O_RDWR))) (\<lambda>res. sret (res \<ge> 0))
            else sret True) (\<lambda>ok.
     if \<not> ok then sret False
     else sbind (sget (ci_fileIV \<circ> fst)) (\<lambda>fileIV.
          sbind (sget (ci_externalIV \<circ> fst)) (\<lambda>externalIV.
          sbind (smod (apfst (\<lambda>ci. ci\<lparr>ci_fileIV := 0\<rparr>))) (\<lambda>_.
          sbind (sres (vt_streamEncode (fs_cipher cfg) (bytes_of_iv fileIV) externalIV (fs_key cfg))) (\<lambda>(ok, buf).
          sbind (onSnd (fio_write base 0 buf)) (\<lambda>_.
          sret True))))))))"

definition cio_open :: "'s fileio \<Rightarrow> int \<Rightarrow> ('s, int) cm" where
  "cio_open base flags =
     sbind (onSnd (fio_open base flags)) (\<lambda>res.
     if res \<ge> 0 then sbind (smod (apfst (\<lambda>ci. ci\<lparr>ci_lastFlags := flags\<rparr>))) (\<lambda>_. sret res)
     else sret res)"

definition cio_setIV :: "'k FSConfig \<Rightarrow> 's fileio \<Rightarrow> u64 \<Rightarrow> ('s, bool) cm" where
  "cio_setIV cfg base iv =
     sbind (sget fst) (\<lambda>ci.
     if ci_externalIV ci = 0
     then sbind (smod (apfst (\<lambda>ci. ci\<lparr>ci_externalIV := iv\<rparr>))) (\<lambda>_. onSnd (fio_setIV base iv))
     else if haveHeader cfg
     then sbind (if ci_fileIV ci = 0
                 then sbind (onSnd (fio_open base (ci_lastFlags ci OR O_RDWR))) (\<lambda>res.
                      if res < 0
                      then (if res = - EISDIR
                            then sbind (smod (apfst (\<lambda>ci. ci\<lparr>ci_externalIV := iv\<rparr>))) (\<lambda>_.
                                 sbind (onSnd (fio_setIV base iv)) (\<lambda>r. sret (Some r)))
                            else sret (Some False))
                      else sbind (initHeader cfg base) (\<lambda>_. sret None))
                 else sret None) (\<lambda>early.
          case early of
            Some r \<Rightarrow> sret r
          | None \<Rightarrow>
              sbind (smod (apfst (\<lambda>ci. ci\<lparr>ci_externalIV := iv\<rparr>))) (\<lambda>_.
              sbind (writeHeader cfg base) (\<lambda>ok.
              if \<not> ok
              then sbind (smod (apfst (\<lambda>c. c\<lparr>ci_externalIV := ci_externalIV ci\<rparr>))) (\<lambda>_. sret False)
              else onSnd (fio_setIV base iv))))
     else onSnd (fio_setIV base iv))"

definition cio_getAttr :: "'k FSConfig \<Rightarrow> 's fileio \<Rightarrow> ('s, int \<times> stat) cm" where
  "cio_getAttr cfg base =
     sbind (onSnd (fio_getAttr base)) (\<lambda>(res, stbuf).
     if res = 0 \<and> haveHeader cfg \<and> S_ISREG (st_mode stbuf) \<and> st_size stbuf > 0
     then sbind (sres (rAssert (st_size stbuf \<ge> int HEADER_SIZE))) (\<lambda>_.
          sret (res, stbuf\<lparr>st_size := st_size stbuf - int HEADER_SIZE\<rparr>))
     else sret (res, stbuf))"

definition cio_getSize :: "'k FSConfig \<Rightarrow> 's fileio \<Rightarrow> ('s, int) cm" where
  "cio_getSize cfg base =
     sbind (onSnd (fio_getSize base)) (\<lambda>sz.
     if haveHeader cfg \<and> sz > 0
     then sbind (sres (rAssert (sz \<ge> int HEADER_SIZE))) (\<lambda>_. sret (sz - int HEADER_SIZE))
     else sret sz)"

subsection \<open>Blocks\<close>

definition blockWrite :: "'k FSConfig \<Rightarrow> bytes \<Rightarrow> u64 \<Rightarrow> (bool \<times> bytes) res" where
  "blockWrite cfg buf iv64 =
     (if \<not> fs_reverseEncryption cfg then vt_blockEncode (fs_cipher cfg) buf iv64 (fs_key cfg)
      else vt_blockDecode (fs_cipher cfg) buf iv64 (fs_key cfg))"

definition streamWrite :: "'k FSConfig \<Rightarrow> bytes \<Rightarrow> u64 \<Rightarrow> (bool \<times> bytes) res" where
  "streamWrite cfg buf iv64 =
     (if \<not> fs_reverseEncryption cfg then vt_streamEncode (fs_cipher cfg) buf iv64 (fs_key cfg)
      else vt_streamDecode (fs_cipher cfg) buf iv64 (fs_key cfg))"

definition blockRead :: "'k FSConfig \<Rightarrow> bytes \<Rightarrow> u64 \<Rightarrow> (bool \<times> bytes) res" where
  "blockRead cfg buf iv64 =
     (if fs_reverseEncryption cfg then vt_blockEncode (fs_cipher cfg) buf iv64 (fs_key cfg)
      else if c_allowHoles (fs_config cfg) \<and> list_all (\<lambda>x. x = 0) buf then Inr (True, buf)
      else vt_blockDecode (fs_cipher cfg) buf iv64 (fs_key cfg))"

definition streamRead :: "'k FSConfig \<Rightarrow> bytes \<Rightarrow> u64 \<Rightarrow> (bool \<times> bytes) res" where
  "streamRead cfg buf iv64 =
     (if fs_reverseEncryption cfg then vt_streamEncode (fs_cipher cfg) buf iv64 (fs_key cfg)
      else vt_streamDecode (fs_cipher cfg) buf iv64 (fs_key cfg))"

definition cio_readOneBlock :: "'k FSConfig \<Rightarrow> 's fileio \<Rightarrow> nat \<Rightarrow> nat \<Rightarrow> ('s, bytes option) cm" where
  "cio_readOneBlock cfg base offset dataLen =
     (let bs = cio_blockSize cfg;
          blockNum = of_nat (offset div bs) :: u64
      in sbind (onSnd (fio_read base (if haveHeader cfg then offset + HEADER_SIZE else offset) dataLen)) (\<lambda>r.
      case r of
        None \<Rightarrow> sret None
      | Some d \<Rightarrow>
          if d = [] then sret (Some [])
          else sbind (sget (ci_fileIV \<circ> fst)) (\<lambda>fileIV.
               sbind (if haveHeader cfg \<and> fileIV = 0 then initHeader cfg base else sret ()) (\<lambda>_.
               sbind (sget (ci_fileIV \<circ> fst)) (\<lambda>fileIV.
               sbind (sres (if length d \<noteq> bs then streamRead cfg d (blockNum XOR fileIV)
                            else blockRead cfg d (blockNum XOR fileIV))) (\<lambda>(ok, d).
               if \<not> ok then sret None else sret (Some d)))))))"

definition cio_writeOneBlock :: "'k FSConfig \<Rightarrow> 's fileio \<Rightarrow> nat \<Rightarrow> bytes \<Rightarrow> ('s, bool) cm" where
  "cio_writeOneBlock cfg base offset dat =
     (let bs = cio_blockSize cfg;
          blockNum = of_nat (offset div bs) :: u64
      in sbind (sget (ci_fileIV \<circ> fst)) (\<lambda>fileIV.
      sbind (if haveHeader cfg \<and> fileIV = 0 then initHeader cfg base else sret ()) (\<lambda>_.
      sbind (sget (ci_fileIV \<circ> fst)) (\<lambda>fileIV.
      sbind (sres (if length dat \<noteq> bs then streamWrite cfg dat (blockNum XOR fileIV)
                   else blockWrite cfg dat (blockNum XOR fileIV))) (\<lambda>(ok, dat).
      if ok then onSnd (fio_write base (if haveHeader cfg then offset + HEADER_SIZE else offset) dat)
      else sret False)))))"

definition cio_block :: "'k FSConfig \<Rightarrow> 's fileio \<Rightarrow> (cipherio \<times> 's) block_file" where
  "cio_block cfg base =
     \<lparr>bf_blockSize = cio_blockSize cfg,
      bf_allowHoles = c_allowHoles (fs_config cfg),
      bf_getSize = cio_getSize cfg base,
      bf_readOneBlock = cio_readOneBlock cfg base,
      bf_writeOneBlock = cio_writeOneBlock cfg base\<rparr>"

definition cio_truncate :: "'k FSConfig \<Rightarrow> 's fileio \<Rightarrow> nat \<Rightarrow> (iorequest \<times> cipherio \<times> 's, int) sm" where
  "cio_truncate cfg base sz =
     (if \<not> haveHeader cfg
      then block_truncate (cio_block cfg base) sz (Some (\<lambda>n. onSnd (fio_truncate base n)))
      else sbind (onSnd (sget fst)) (\<lambda>ci.
           sbind (if ci_fileIV ci = 0
                  then onSnd (sbind (sget (fio_isWritable base \<circ> snd)) (\<lambda>writable.
                       sbind (if \<not> writable
                              then sbind (onSnd (fio_open base (ci_lastFlags ci OR O_RDWR))) (\<lambda>_. sret ())
                              else sret ()) (\<lambda>_.
                       initHeader cfg base)))
                  else sret ()) (\<lambda>_.
           sbind (block_truncate (cio_block cfg base) sz None) (\<lambda>res.
           if res = 0
           then sbind (onSnd (onSnd (fio_truncate base (sz + HEADER_SIZE)))) (\<lambda>_. sret res)
           else sret res))))"

definition CipherFileIO :: "'k FSConfig \<Rightarrow> 's fileio \<Rightarrow> (iorequest \<times> cipherio \<times> 's) fileio" where
  "CipherFileIO cfg base =
     \<lparr>fio_blockSize = cio_blockSize cfg,
      fio_setFileName = (\<lambda>fileName. onSnd (onSnd (fio_setFileName base fileName))),
      fio_getFileName = (\<lambda>(cache, ci, s). fio_getFileName base s),
      fio_setIV = (\<lambda>iv. onSnd (cio_setIV cfg base iv)),
      fio_open = (\<lambda>flags. onSnd (cio_open base flags)),
      fio_getAttr = onSnd (cio_getAttr cfg base),
      fio_getSize = onSnd (cio_getSize cfg base),
      fio_read = block_read (cio_block cfg base),
      fio_write = block_write (cio_block cfg base),
      fio_truncate = cio_truncate cfg base,
      fio_isWritable = (\<lambda>(cache, ci, s). fio_isWritable base s)\<rparr>"

subsection \<open>The values of IVs\<close>

lemma iv_of_bytes_of_iv [simp]: "iv_of_bytes (bytes_of_iv v) = v"
proof -
  have "iv_of_bytes (bytes_of_iv v) =
     fold (\<lambda>x iv. push_bit 8 iv OR ucast x) (map (\<lambda>i. ucast (drop_bit (8 * (7 - i)) v) :: byte) [0, 1, 2, 3, 4, 5, 6, 7]) 0"
    by (simp add: iv_of_bytes_def bytes_of_iv_def upt_rec)
  also have "\<dots> = v"
  proof (rule bit_word_eqI)
    fix n assume "n < LENGTH(64)"
    then show "bit (fold (\<lambda>x iv. push_bit 8 iv OR ucast x)
        (map (\<lambda>i. ucast (drop_bit (8 * (7 - i)) v) :: byte) [0, 1, 2, 3, 4, 5, 6, 7]) 0 :: u64) n = bit v n"
      by (cases "n < 8"; cases "n < 16"; cases "n < 24"; cases "n < 32"; cases "n < 40"; cases "n < 48"; cases "n < 56")
         (auto simp: bit_simps)
  qed
  finally show ?thesis .
qed

lemma length_bytes_of_iv [simp]: "length (bytes_of_iv v) = 8"
  by (simp add: bytes_of_iv_def)

subsection \<open>Drawing a new IV\<close>

text \<open>
  The generator of a lawful cipher works, and does not return zero for ever.
\<close>

locale cipher_random = cipher_laws +
  assumes randomize_works: "fst (vt_randomize c n False i)"
    and randomize_nonzero: "\<exists>j\<ge>i. iv_of_bytes (snd (vt_randomize c 8 False j)) \<noteq> 0"
begin

lemma newFileIV_returns:
  "\<exists>buf j. newFileIV c i = Some (Inr buf, j) \<and> length buf = 8 \<and> iv_of_bytes buf \<noteq> 0"
proof -
  obtain j where j: "i \<le> j" "iv_of_bytes (snd (vt_randomize c 8 False j)) \<noteq> 0"
    using randomize_nonzero by blast
  then show ?thesis
  proof (induction "j - i" arbitrary: i)
    case 0
    then have "i = j" by simp
    then show ?case
      using 0 randomize_works [of 8 j] randomize_length [of 8 False j]
      by (subst newFileIV.simps) (auto split: prod.splits)
  next
    case (Suc d)
    show ?case
    proof (cases "iv_of_bytes (snd (vt_randomize c 8 False i)) = 0")
      case True
      have "\<exists>buf j. newFileIV c (i + 1) = Some (Inr buf, j) \<and> length buf = 8 \<and> iv_of_bytes buf \<noteq> 0"
        using Suc by (intro Suc(1)) auto
      then show ?thesis
        using True randomize_works [of 8 i] by (subst newFileIV.simps) (auto split: prod.splits)
    next
      case False
      then show ?thesis
        using randomize_works [of 8 i] randomize_length [of 8 False i]
        by (subst newFileIV.simps) (auto split: prod.splits)
    qed
  qed
qed

end

text \<open>The null cipher is not such a cipher: the loop never ends.\<close>

lemma iv_of_zeros [simp]: "iv_of_bytes (replicate n 0) = 0"
proof -
  have "fold (\<lambda>x iv. push_bit 8 iv OR ucast x) (replicate n (0 :: byte)) (0 :: u64) = 0"
    by (induction n) simp_all
  then show ?thesis by (simp add: iv_of_bytes_def)
qed

lemma newFileIV_zero:
  assumes "newFileIV c i = Some r" and "\<And>i. vt_randomize c 8 False i = (True, replicate 8 0)"
  shows False
proof -
  have "c' = c \<longrightarrow> False" if "newFileIV c' i = Some r" for c' i r
    by (rule newFileIV.raw_induct [where P = "\<lambda>c' i r. c' = c \<longrightarrow> False", OF _ that])
      (auto simp: assms(2), blast)
  then show False using assms(1) by blast
qed

lemma NullCipher_newFileIV: "newFileIV (NullCipher iface) i = None"
  using newFileIV_zero [of "NullCipher iface" i] by (cases "newFileIV (NullCipher iface) i") (auto simp: NullCipher_def)

subsection \<open>What a stored file says\<close>

definition header_iv :: "'k FSConfig \<Rightarrow> u64 \<Rightarrow> bytes \<Rightarrow> u64" where
  "header_iv cfg externalIV h =
     (case vt_streamDecode (fs_cipher cfg) h externalIV (fs_key cfg) of
        Inl e \<Rightarrow> 0
      | Inr (ok, buf) \<Rightarrow> iv_of_bytes buf)"

definition dec1 :: "'k FSConfig \<Rightarrow> u64 \<Rightarrow> nat \<Rightarrow> bytes \<Rightarrow> bytes" where
  "dec1 cfg fileIV k x =
     (case (if length x \<noteq> cio_blockSize cfg then streamRead cfg x (of_nat k XOR fileIV)
            else blockRead cfg x (of_nat k XOR fileIV)) of
        Inl e \<Rightarrow> []
      | Inr (ok, d) \<Rightarrow> d)"

definition cio_decode :: "'k FSConfig \<Rightarrow> u64 \<Rightarrow> bytes \<Rightarrow> bytes" where
  "cio_decode cfg fileIV raw = mapBlocks (cio_blockSize cfg) (dec1 cfg fileIV) 0 raw"

definition cio_plain :: "'k FSConfig \<Rightarrow> u64 \<Rightarrow> bytes \<Rightarrow> bytes" where
  "cio_plain cfg externalIV raw =
     (if haveHeader cfg
      then cio_decode cfg (header_iv cfg externalIV (take 8 raw)) (drop 8 raw)
      else cio_decode cfg 0 raw)"

definition cio_content :: "'k FSConfig \<Rightarrow> ('s \<Rightarrow> bytes) \<Rightarrow> cipherio \<times> 's \<Rightarrow> bytes" where
  "cio_content cfg bcontent = (\<lambda>(ci, s). cio_plain cfg (ci_externalIV ci) (bcontent s))"

text \<open>
  A file is empty or has a header with an IV other than zero; an IV in memory is that of
  the header.
\<close>

definition cio_inv :: "'k FSConfig \<Rightarrow> ('s \<Rightarrow> bool) \<Rightarrow> ('s \<Rightarrow> bytes) \<Rightarrow> cipherio \<times> 's \<Rightarrow> bool" where
  "cio_inv cfg binv bcontent = (\<lambda>(ci, s).
     binv s \<and>
     (if haveHeader cfg
      then bcontent s = [] \<and> ci_fileIV ci = 0 \<or>
           8 \<le> length (bcontent s) \<and>
           (let iv = header_iv cfg (ci_externalIV ci) (take 8 (bcontent s))
            in iv \<noteq> 0 \<and> (ci_fileIV ci = 0 \<or> ci_fileIV ci = iv))
      else ci_fileIV ci = 0))"

subsection \<open>The object over a lawful base file\<close>

locale cipher_file =
  base: byte_file base binv bcontent + cipher: cipher_random "fs_cipher cfg" key_ok
  for cfg :: "'k FSConfig" and base :: "'s fileio" and binv :: "'s \<Rightarrow> bool"
    and bcontent :: "'s \<Rightarrow> bytes" and key_ok :: "'k \<Rightarrow> bool" +
  assumes key: "key_ok (fs_key cfg)"
    and blockSize: "1 < c_blockSize (fs_config cfg)"
    and blockSize_dvd: "vt_cipherBlockSize (fs_cipher cfg) dvd cio_blockSize cfg"
    and no_holes: "\<not> c_allowHoles (fs_config cfg)"
    and no_reverse: "\<not> fs_reverseEncryption cfg"
begin

abbreviation cbs :: nat where "cbs \<equiv> cio_blockSize cfg"

lemma cbs_gt: "1 < cbs"
  using blockSize by (simp add: cio_blockSize_def)

lemma read_block:
  assumes "x \<noteq> []" and "length x \<le> cbs"
  shows "(if length x \<noteq> cbs then streamRead cfg x (of_nat k XOR iv) else blockRead cfg x (of_nat k XOR iv))
      = Inr (True, dec1 cfg iv k x) \<and> length (dec1 cfg iv k x) = length x"
proof (cases "length x = cbs")
  case True
  then obtain d where "vt_blockDecode (fs_cipher cfg) x (of_nat k XOR iv) (fs_key cfg) = Inr (True, d)" "length d = length x"
    using cipher.block_dec [OF key assms(1), of "of_nat k XOR iv"] blockSize_dvd by auto
  then show ?thesis using True by (simp add: dec1_def blockRead_def no_holes no_reverse)
next
  case False
  then obtain d where "vt_streamDecode (fs_cipher cfg) x (of_nat k XOR iv) (fs_key cfg) = Inr (True, d)" "length d = length x"
    using cipher.stream_dec [OF key assms(1), of "of_nat k XOR iv"] by auto
  then show ?thesis using False by (simp add: dec1_def streamRead_def no_reverse)
qed

lemma write_block:
  assumes "d \<noteq> []" and "length d \<le> cbs"
  shows "\<exists>e. (if length d \<noteq> cbs then streamWrite cfg d (of_nat k XOR iv) else blockWrite cfg d (of_nat k XOR iv))
      = Inr (True, e) \<and> length e = length d \<and> dec1 cfg iv k e = d"
proof (cases "length d = cbs")
  case True
  then obtain e where e: "vt_blockEncode (fs_cipher cfg) d (of_nat k XOR iv) (fs_key cfg) = Inr (True, e)"
      "length e = length d" "vt_blockDecode (fs_cipher cfg) e (of_nat k XOR iv) (fs_key cfg) = Inr (True, d)"
    using cipher.block_enc [OF key assms(1), of "of_nat k XOR iv"] blockSize_dvd by auto
  then show ?thesis using True by (simp add: dec1_def blockWrite_def blockRead_def no_holes no_reverse)
next
  case False
  then obtain e where "vt_streamEncode (fs_cipher cfg) d (of_nat k XOR iv) (fs_key cfg) = Inr (True, e)"
      "length e = length d" "vt_streamDecode (fs_cipher cfg) e (of_nat k XOR iv) (fs_key cfg) = Inr (True, d)"
    using cipher.stream_enc [OF key assms(1), of "of_nat k XOR iv"] by auto
  then show ?thesis using False by (simp add: dec1_def streamWrite_def streamRead_def no_reverse)
qed

lemma coding: "block_coding cbs cbs (dec1 cfg iv) (\<lambda>n. n)"
  using cbs_gt read_block by unfold_locales auto

lemma length_decode [simp]: "length (cio_decode cfg iv raw) = length raw"
  using block_coding.length_map [OF coding, of iv 0 raw] div_mult_mod_eq [of "length raw" cbs]
  by (simp add: cio_decode_def)

lemma decode_block:
  "take cbs (drop (k * cbs) (cio_decode cfg iv raw)) =
     (if k * cbs < length raw then dec1 cfg iv k (take cbs (drop (k * cbs) raw)) else [])"
  using block_coding.block_map [OF coding, of k iv 0 raw] by (simp add: cio_decode_def)

lemma decode_put:
  assumes "k * cbs \<le> length raw" and "e \<noteq> []" and "length e \<le> cbs"
    and "length e = cbs \<or> length raw \<le> k * cbs + length e"
  shows "cio_decode cfg iv (put (k * cbs) e raw) = put (k * cbs) (dec1 cfg iv k e) (cio_decode cfg iv raw)"
  using block_coding.map_put [OF coding assms] by (simp add: cio_decode_def)

lemma decode_Nil [simp]: "cio_decode cfg iv [] = []"
  by (simp add: cio_decode_def)

subsection \<open>The header is found or made\<close>

definition loaded :: "cipherio \<times> 's \<Rightarrow> bool" where
  "loaded = (\<lambda>(ci, s). cio_inv cfg binv bcontent (ci, s) \<and> ci_fileIV ci \<noteq> 0)"

lemma initHeader_ok:
  assumes "cio_inv cfg binv bcontent (ci, s)" and "haveHeader cfg" and "ci_fileIV ci = 0"
  shows "returns (initHeader cfg base) (ci, s) (\<lambda>_ (ci', s'). loaded (ci', s') \<and>
     ci_externalIV ci' = ci_externalIV ci \<and> ci_lastFlags ci' = ci_lastFlags ci \<and>
     (if bcontent s = [] then length (bcontent s') = 8 else bcontent s' = bcontent s))"
proof (cases "bcontent s = []")
  case False
  let ?h = "take 8 (bcontent s)"
  have i: "binv s" "8 \<le> length (bcontent s)" "header_iv cfg (ci_externalIV ci) ?h \<noteq> 0"
    using assms False by (auto simp: cio_inv_def Let_def)
  have h: "?h \<noteq> []" using False by simp
  obtain buf where buf: "vt_streamDecode (fs_cipher cfg) ?h (ci_externalIV ci) (fs_key cfg) = Inr (True, buf)"
    using cipher.stream_dec [OF key h] by blast
  then have iv: "header_iv cfg (ci_externalIV ci) ?h = iv_of_bytes buf" by (simp add: header_iv_def)
  obtain s1 where s1: "fio_getSize base s = (Inr (int (length (bcontent s))), s1)" "binv s1" "bcontent s1 = bcontent s"
    using base.getSize_ok [OF i(1)] by (auto simp: returns_iff)
  obtain s2 where s2: "fio_read base 0 8 s1 = (Inr (Some ?h), s2)" "binv s2" "bcontent s2 = bcontent s"
    using base.read_ok [OF s1(2), of 0 8] s1(3) by (auto simp: returns_iff)
  have "?h @ drop (length ?h) (replicate 8 0) = ?h" using i(2) by simp
  then show ?thesis
    using i s1 s2 buf iv assms False
    by (simp add: initHeader_def returns_iff sbind_def sget_def sres_def smod_def onSnd_def
        HEADER_SIZE_def loaded_def cio_inv_def Let_def)
next
  case True
  have i: "binv s" using assms by (auto simp: cio_inv_def)
  obtain s1 where s1: "fio_getSize base s = (Inr 0, s1)" "binv s1" "bcontent s1 = []"
    using base.getSize_ok [OF i] True by (auto simp: returns_iff)
  obtain buf j where buf: "newFileIV (fs_cipher cfg) (ci_rand ci) = Some (Inr buf, j)" "length buf = 8"
      "iv_of_bytes buf \<noteq> 0"
    using cipher.newFileIV_returns by blast
  then have "buf \<noteq> []" by auto
  then obtain e where e: "vt_streamEncode (fs_cipher cfg) buf (ci_externalIV ci) (fs_key cfg) = Inr (True, e)"
      "length e = length buf" "vt_streamDecode (fs_cipher cfg) e (ci_externalIV ci) (fs_key cfg) = Inr (True, buf)"
    using cipher.stream_enc [OF key] by blast
  then have ne: "e \<noteq> []" using buf(2) by auto
  obtain s2 where s2: "fio_write base 0 e s1 = (Inr True, s2)" "binv s2" "bcontent s2 = e"
    using base.write_ok [OF s1(2) ne, of 0] s1(3) by (auto simp: returns_iff put_def)
  have "header_iv cfg (ci_externalIV ci) e = iv_of_bytes buf" using e by (simp add: header_iv_def)
  then show ?thesis
    using s1 s2 buf e assms True base.writable [OF s1(2)]
    by (simp add: initHeader_def returns_iff sbind_def sget_def sres_def smod_def onSnd_def sret_def
        HEADER_SIZE_def loaded_def cio_inv_def Let_def)
qed

text \<open>The IV that blocks are coded with, loading the header when it is needed.\<close>

definition need_header :: "('s, unit) cm" where
  "need_header = sbind (sget (ci_fileIV \<circ> fst)) (\<lambda>fileIV.
     if haveHeader cfg \<and> fileIV = 0 then initHeader cfg base else sret ())"

definition hoff :: nat where
  "hoff = (if haveHeader cfg then 8 else 0)"

definition file_iv :: "cipherio \<times> 's \<Rightarrow> u64" where
  "file_iv = (\<lambda>(ci, s). if haveHeader cfg then header_iv cfg (ci_externalIV ci) (take 8 (bcontent s)) else 0)"

lemma content_eq: "cio_content cfg bcontent (ci, s) = cio_decode cfg (file_iv (ci, s)) (drop hoff (bcontent s))"
  by (simp add: cio_content_def cio_plain_def file_iv_def hoff_def)

lemma need_header_ok:
  assumes "cio_inv cfg binv bcontent (ci, s)"
  shows "returns need_header (ci, s) (\<lambda>_ (ci', s'). cio_inv cfg binv bcontent (ci', s') \<and>
     ci_fileIV ci' = file_iv (ci', s') \<and> ci_externalIV ci' = ci_externalIV ci \<and>
     hoff \<le> length (bcontent s') \<and> drop hoff (bcontent s') = drop hoff (bcontent s) \<and>
     (bcontent s \<noteq> [] \<or> \<not> haveHeader cfg \<longrightarrow> bcontent s' = bcontent s) \<and>
     cio_content cfg bcontent (ci', s') = cio_content cfg bcontent (ci, s))"
proof (cases "haveHeader cfg \<and> ci_fileIV ci = 0")
  case True
  show ?thesis
    unfolding need_header_def returns_sbind returns_sget comp_apply fst_conv if_P [OF True]
    by (rule returns_mono [OF initHeader_ok [OF assms]])
       (use True in \<open>auto simp: loaded_def cio_inv_def file_iv_def hoff_def content_eq Let_def split: if_splits\<close>)
next
  case False
  then show ?thesis
    using assms by (auto simp: need_header_def wp cio_inv_def file_iv_def hoff_def Let_def)
qed

subsection \<open>The one-block functions\<close>

lemma getSize_block:
  assumes "cio_inv cfg binv bcontent cs"
  shows "returns (cio_getSize cfg base) cs (\<lambda>n cs'. n = int (length (cio_content cfg bcontent cs)) \<and>
     cio_inv cfg binv bcontent cs' \<and> cio_content cfg bcontent cs' = cio_content cfg bcontent cs)"
proof -
  obtain ci s where cs: "cs = (ci, s)" by (cases cs)
  have i: "binv s" using assms by (auto simp: cio_inv_def cs)
  obtain s1 where s1: "fio_getSize base s = (Inr (int (length (bcontent s))), s1)" "binv s1" "bcontent s1 = bcontent s"
    using base.getSize_ok [OF i] by (auto simp: returns_iff)
  have "cio_inv cfg binv bcontent (ci, s1)" using assms s1 by (simp add: cio_inv_def cs)
  moreover have "cio_content cfg bcontent (ci, s1) = cio_content cfg bcontent cs"
    using s1 by (simp add: cio_content_def cs)
  moreover have "haveHeader cfg \<Longrightarrow> bcontent s = [] \<or> 8 \<le> length (bcontent s)"
    using assms by (auto simp: cio_inv_def cs)
  ultimately show ?thesis
    using s1 by (auto simp: cio_getSize_def returns_iff sbind_def onSnd_def sres_def sret_def rAssert_def
        HEADER_SIZE_def cs content_eq hoff_def)
qed

lemma offset_hoff: "(if haveHeader cfg then off + HEADER_SIZE else off) = hoff + off"
  by (simp add: hoff_def HEADER_SIZE_def)

lemma readOne_block:
  assumes "cio_inv cfg binv bcontent cs" and "cbs dvd off"
  shows "returns (cio_readOneBlock cfg base off cbs) cs
     (\<lambda>r cs'. r = Some (take cbs (drop off (cio_content cfg bcontent cs))) \<and>
        cio_inv cfg binv bcontent cs' \<and> cio_content cfg bcontent cs' = cio_content cfg bcontent cs \<and>
        bcontent (snd cs') = bcontent (snd cs))"
proof -
  obtain ci s where cs: "cs = (ci, s)" by (cases cs)
  obtain k where k: "off = k * cbs" using assms(2) by (auto simp: dvd_def mult.commute)
  have kd: "off div cbs = k" using k cbs_gt by simp
  have i: "binv s" using assms by (auto simp: cio_inv_def cs)
  let ?raw = "drop hoff (bcontent s)"
  define rd where "rd = take cbs (drop (k * cbs) ?raw)"
  obtain s1 where s1: "fio_read base (hoff + off) cbs s = (Inr (Some rd), s1)" "binv s1" "bcontent s1 = bcontent s"
    using base.read_ok [OF i, of "hoff + off" cbs] k by (auto simp: returns_iff add.commute rd_def)
  have i1: "cio_inv cfg binv bcontent (ci, s1)" using assms(1) s1 by (simp add: cio_inv_def cs)
  have c1: "cio_content cfg bcontent (ci, s1) = cio_content cfg bcontent cs"
    using s1 by (simp add: cio_content_def cs)
  have blk: "take cbs (drop off (cio_content cfg bcontent cs)) =
      (if rd = [] then [] else dec1 cfg (file_iv (ci, s)) k rd)"
    using decode_block [of k "file_iv (ci, s)" ?raw] k cbs_gt by (auto simp: content_eq cs rd_def)
  let ?rest = "\<lambda>d. sbind need_header (\<lambda>_. sbind (sget (ci_fileIV \<circ> fst)) (\<lambda>fileIV.
        sbind (sres (if length d \<noteq> cbs then streamRead cfg d (of_nat k XOR fileIV)
                     else blockRead cfg d (of_nat k XOR fileIV))) (\<lambda>(ok, d).
        if \<not> ok then sret None else sret (Some d))))"
  have eq: "cio_readOneBlock cfg base off cbs = sbind (onSnd (fio_read base (hoff + off) cbs)) (\<lambda>r.
      case r of None \<Rightarrow> sret None | Some d \<Rightarrow> if d = [] then sret (Some []) else ?rest d)"
    by (simp only: cio_readOneBlock_def Let_def offset_hoff kd need_header_def sbind_assoc)
  have rd1: "onSnd (fio_read base (hoff + off) cbs) (ci, s) = (Inr (Some rd), (ci, s1))"
    using s1(1) by (simp add: onSnd_def)
  show ?thesis
  proof (cases "rd = []")
    case True
    then show ?thesis
      unfolding eq returns_sbind using rd1 i1 c1 blk s1(3) by (simp add: returns_def cs sret_def)
  next
    case False
    then have ne: "bcontent s \<noteq> []" by (auto simp: rd_def)
    have nh: "returns need_header (ci, s1) (\<lambda>_ (ci', s'). cio_inv cfg binv bcontent (ci', s') \<and>
        ci_fileIV ci' = file_iv (ci, s) \<and> cio_content cfg bcontent (ci', s') = cio_content cfg bcontent cs \<and>
        bcontent s' = bcontent s)"
      by (rule returns_mono [OF need_header_ok [OF i1]])
         (use s1(3) ne c1 in \<open>auto simp: file_iv_def\<close>)
    have rb: "(if length rd \<noteq> cbs then streamRead cfg rd (of_nat k XOR iv) else blockRead cfg rd (of_nat k XOR iv))
        = Inr (True, dec1 cfg iv k rd)" for iv
      using read_block [OF False] by (simp add: rd_def)
    have "returns (?rest rd) (ci, s1)
      (\<lambda>r cs'. r = Some (take cbs (drop off (cio_content cfg bcontent cs))) \<and>
        cio_inv cfg binv bcontent cs' \<and> cio_content cfg bcontent cs' = cio_content cfg bcontent cs \<and>
        bcontent (snd cs') = bcontent (snd cs))"
      unfolding returns_sbind rb
      by (rule returns_mono [OF nh]) (use blk False in \<open>auto simp: wp cs\<close>)
    then show ?thesis
      unfolding eq returns_sbind [of "onSnd _"] using rd1 False by (simp add: returns_def cs)
  qed
qed

text \<open>
  The stored bytes after writing a block; the block may also lie inside the file, which
  truncation makes use of.
\<close>

lemma writeOne_raw:
  assumes "cio_inv cfg binv bcontent (ci, s)" and "cbs dvd off" and "d \<noteq> []" and "length d \<le> cbs"
    and "off \<le> length (drop hoff (bcontent s))"
  shows "returns (cio_writeOneBlock cfg base off d) (ci, s) (\<lambda>ok (ci', s'). ok \<and>
     cio_inv cfg binv bcontent (ci', s') \<and> hoff \<le> length (bcontent s') \<and>
     (\<exists>e. length e = length d \<and> dec1 cfg (file_iv (ci', s')) (off div cbs) e = d \<and>
          drop hoff (bcontent s') = put off e (drop hoff (bcontent s))) \<and>
     cio_decode cfg (file_iv (ci', s')) (drop hoff (bcontent s)) = cio_content cfg bcontent (ci, s))"
proof -
  let ?k = "off div cbs"
  have wr: "returns (sbind (sget (ci_fileIV \<circ> fst)) (\<lambda>fileIV.
      sbind (sres (if length d \<noteq> cbs then streamWrite cfg d (of_nat ?k XOR fileIV)
                   else blockWrite cfg d (of_nat ?k XOR fileIV))) (\<lambda>(ok, dat).
      if ok then onSnd (fio_write base (if haveHeader cfg then off + HEADER_SIZE else off) dat)
      else sret False))) (ci1, s1)
    (\<lambda>ok (ci', s'). ok \<and> cio_inv cfg binv bcontent (ci', s') \<and> hoff \<le> length (bcontent s') \<and>
     (\<exists>e. length e = length d \<and> dec1 cfg (file_iv (ci', s')) (off div cbs) e = d \<and>
          drop hoff (bcontent s') = put off e (drop hoff (bcontent s))) \<and>
     cio_decode cfg (file_iv (ci', s')) (drop hoff (bcontent s)) = cio_content cfg bcontent (ci, s))"
    if c: "cio_inv cfg binv bcontent (ci1, s1)" "ci_fileIV ci1 = file_iv (ci1, s1)"
      "hoff \<le> length (bcontent s1)" "drop hoff (bcontent s1) = drop hoff (bcontent s)"
      "cio_content cfg bcontent (ci1, s1) = cio_content cfg bcontent (ci, s)" for ci1 s1
  proof -
    obtain e where e: "(if length d \<noteq> cbs then streamWrite cfg d (of_nat ?k XOR file_iv (ci1, s1))
        else blockWrite cfg d (of_nat ?k XOR file_iv (ci1, s1))) = Inr (True, e)"
        "length e = length d" "dec1 cfg (file_iv (ci1, s1)) ?k e = d"
      using write_block [OF assms(3,4)] by blast
    then have "e \<noteq> []" using assms(3) by auto
    have i1: "binv s1" using c(1) by (auto simp: cio_inv_def)
    obtain s2 where s2: "fio_write base (hoff + off) e s1 = (Inr True, s2)" "binv s2"
        "bcontent s2 = put (hoff + off) e (bcontent s1)"
      using base.write_ok [OF i1 \<open>e \<noteq> []\<close>, of "hoff + off"] by (auto simp: returns_iff)
    have split: "bcontent s1 = take hoff (bcontent s1) @ drop hoff (bcontent s)"
      using append_take_drop_id [of hoff "bcontent s1"] c(4) by simp
    have raw: "bcontent s2 = take hoff (bcontent s1) @ put off e (drop hoff (bcontent s))"
      unfolding s2(3) by (subst split, rule put_append) (use c(3) in simp)
    have th: "take 8 (bcontent s2) = take 8 (bcontent s1)" if "haveHeader cfg"
      using raw c(3) that by (simp add: hoff_def)
    have "file_iv (ci1, s2) = file_iv (ci1, s1)" using th by (simp add: file_iv_def)
    moreover have "cio_inv cfg binv bcontent (ci1, s2)"
      using c(1,3) s2(2) th raw by (auto simp: cio_inv_def hoff_def Let_def)
    moreover have "cio_decode cfg (file_iv (ci1, s1)) (drop hoff (bcontent s)) = cio_content cfg bcontent (ci, s)"
      using c(4,5) by (simp add: content_eq)
    moreover have "drop hoff (bcontent s2) = put off e (drop hoff (bcontent s))" "hoff \<le> length (bcontent s2)"
      using raw c(3) by simp_all
    ultimately show ?thesis
      using e s2 by (auto simp: returns_iff sbind_def sget_def sres_def onSnd_def offset_hoff c(2))
  qed
  have "cio_writeOneBlock cfg base off d = sbind need_header (\<lambda>_. sbind (sget (ci_fileIV \<circ> fst)) (\<lambda>fileIV.
      sbind (sres (if length d \<noteq> cbs then streamWrite cfg d (of_nat ?k XOR fileIV)
                   else blockWrite cfg d (of_nat ?k XOR fileIV))) (\<lambda>(ok, dat).
      if ok then onSnd (fio_write base (if haveHeader cfg then off + HEADER_SIZE else off) dat)
      else sret False)))"
    by (simp only: cio_writeOneBlock_def need_header_def Let_def sbind_assoc)
  then have eq: "returns (cio_writeOneBlock cfg base off d) (ci, s) P = returns need_header (ci, s) (\<lambda>_ s'.
      returns (sbind (sget (ci_fileIV \<circ> fst)) (\<lambda>fileIV.
      sbind (sres (if length d \<noteq> cbs then streamWrite cfg d (of_nat ?k XOR fileIV)
                   else blockWrite cfg d (of_nat ?k XOR fileIV))) (\<lambda>(ok, dat).
      if ok then onSnd (fio_write base (if haveHeader cfg then off + HEADER_SIZE else off) dat)
      else sret False))) s' P)" for P
    by (simp only: returns_sbind [of need_header])
  show ?thesis
    unfolding eq
  proof (rule returns_mono [OF need_header_ok [OF assms(1)]], goal_cases)
    case (1 u cs')
    then show ?case by (cases cs') (simp only: split_conv, rule wr, simp_all)
  qed
qed

lemma writeOne_block:
  assumes "cio_inv cfg binv bcontent cs" and "cbs dvd off" and "off \<le> length (cio_content cfg bcontent cs)"
    and "d \<noteq> []" and "length d \<le> cbs"
    and "length d = cbs \<or> length (cio_content cfg bcontent cs) \<le> off + length d"
  shows "returns (cio_writeOneBlock cfg base off d) cs (\<lambda>ok cs'. ok \<and> cio_inv cfg binv bcontent cs' \<and>
     cio_content cfg bcontent cs' = put off d (cio_content cfg bcontent cs))"
proof -
  obtain ci s where cs: "cs = (ci, s)" by (cases cs)
  have len: "length (cio_content cfg bcontent cs) = length (drop hoff (bcontent s))"
    by (simp add: cs content_eq)
  have off: "off div cbs * cbs = off" using assms(2) by simp
  show ?thesis
    unfolding cs
  proof (rule returns_mono [OF writeOne_raw])
    fix ok cs'
    assume "case cs' of (ci', s') \<Rightarrow> ok \<and>
     cio_inv cfg binv bcontent (ci', s') \<and> hoff \<le> length (bcontent s') \<and>
     (\<exists>e. length e = length d \<and> dec1 cfg (file_iv (ci', s')) (off div cbs) e = d \<and>
          drop hoff (bcontent s') = put off e (drop hoff (bcontent s))) \<and>
     cio_decode cfg (file_iv (ci', s')) (drop hoff (bcontent s)) = cio_content cfg bcontent (ci, s)"
    then obtain ci' s' e where w: "cs' = (ci', s')" "ok" "cio_inv cfg binv bcontent (ci', s')"
        "length e = length d" "dec1 cfg (file_iv (ci', s')) (off div cbs) e = d"
        "drop hoff (bcontent s') = put off e (drop hoff (bcontent s))"
        "cio_decode cfg (file_iv (ci', s')) (drop hoff (bcontent s)) = cio_content cfg bcontent (ci, s)"
      by (cases cs') auto
    have ne: "e \<noteq> []" using w(4) assms(4) by auto
    have "cio_content cfg bcontent cs' = put off d (cio_content cfg bcontent (ci, s))"
      unfolding w(1) content_eq w(6)
      using decode_put [of "off div cbs" "drop hoff (bcontent s)" e "file_iv (ci', s')"] ne
        assms(3,5,6) len w(4,5,7) off by (auto simp: cs content_eq)
    then show "ok \<and> cio_inv cfg binv bcontent cs' \<and>
        cio_content cfg bcontent cs' = put off d (cio_content cfg bcontent (ci, s))"
      using w by simp
  qed (use assms len in \<open>simp_all add: cs\<close>)
qed

lemma readOne_layer:
  assumes "cio_inv cfg binv bcontent cs" and "cbs dvd off"
  shows "returns (cio_readOneBlock cfg base off cbs) cs
     (\<lambda>r cs'. r = Some (take cbs (drop off (cio_content cfg bcontent cs))) \<and>
        cio_inv cfg binv bcontent cs' \<and> cio_content cfg bcontent cs' = cio_content cfg bcontent cs)"
  by (rule returns_mono [OF readOne_block [OF assms]]) simp

lemma cipher_layer: "block_layer (cio_block cfg base) (cio_inv cfg binv bcontent) (cio_content cfg bcontent)"
  by unfold_locales
     (simp_all add: cio_block_def cbs_gt [simplified] no_holes getSize_block readOne_layer writeOne_block)

end

text \<open>The invariant and the contents of the object with its cache.\<close>

definition cipher_inv ::
  "'k FSConfig \<Rightarrow> ('s \<Rightarrow> bool) \<Rightarrow> ('s \<Rightarrow> bytes) \<Rightarrow> iorequest \<times> cipherio \<times> 's \<Rightarrow> bool" where
  "cipher_inv cfg binv bcontent = block_inv (cio_blockSize cfg) (cio_inv cfg binv bcontent) (cio_content cfg bcontent)"

definition cipher_content :: "'k FSConfig \<Rightarrow> ('s \<Rightarrow> bytes) \<Rightarrow> iorequest \<times> cipherio \<times> 's \<Rightarrow> bytes" where
  "cipher_content cfg bcontent = block_content (cio_content cfg bcontent)"

sublocale cipher_file \<subseteq> layer: block_layer "cio_block cfg base" "cio_inv cfg binv bcontent" "cio_content cfg bcontent"
  by (rule cipher_layer)

context cipher_file
begin

lemma cbs_block [simp]: "bf_blockSize (cio_block cfg base) = cbs"
  by (simp add: cio_block_def)

lemma size_file:
  assumes "cipher_inv cfg binv bcontent cs"
  shows "returns (onSnd (cio_getSize cfg base)) cs (\<lambda>n cs'. n = int (length (cipher_content cfg bcontent cs)) \<and>
     cipher_inv cfg binv bcontent cs' \<and> cipher_content cfg bcontent cs' = cipher_content cfg bcontent cs)"
proof -
  obtain c s where cs: "cs = (c, s)" by (cases cs)
  have i: "cio_inv cfg binv bcontent s" "cache_holds cbs c (cio_content cfg bcontent s)"
    using assms by (auto simp: cipher_inv_def block_inv_def cs)
  show ?thesis
    unfolding cs returns_onSnd
    by (rule returns_mono [OF getSize_block [OF i(1)]])
       (use i in \<open>auto simp: cipher_inv_def cipher_content_def block_inv_def block_content_def\<close>)
qed

lemma open_file:
  assumes "cipher_inv cfg binv bcontent cs"
  shows "returns (onSnd (cio_open base flags)) cs (\<lambda>r cs'. 0 \<le> r \<and>
     cipher_inv cfg binv bcontent cs' \<and> cipher_content cfg bcontent cs' = cipher_content cfg bcontent cs)"
proof -
  obtain c ci s where cs: "cs = (c, ci, s)" by (cases cs) auto
  have i: "binv s" using assms by (auto simp: cipher_inv_def block_inv_def cio_inv_def cs)
  show ?thesis
    unfolding cs returns_onSnd cio_open_def returns_sbind
    by (rule returns_mono [OF base.open_ok [OF i]])
       (use assms in \<open>auto simp: wp cs cipher_inv_def cipher_content_def block_inv_def block_content_def
          cio_inv_def cio_content_def\<close>)
qed

text \<open>The object is a byte string for the layer above it.\<close>

lemma cipher_byte_file:
  "byte_file (CipherFileIO cfg base) (cipher_inv cfg binv bcontent) (cipher_content cfg bcontent)"
proof
  note fold_defs = cipher_inv_def [symmetric] cipher_content_def [symmetric]
  show "returns (fio_read (CipherFileIO cfg base) off len) cs
      (\<lambda>r cs'. r = Some (take len (drop off (cipher_content cfg bcontent cs))) \<and>
        cipher_inv cfg binv bcontent cs' \<and> cipher_content cfg bcontent cs' = cipher_content cfg bcontent cs)"
    if "cipher_inv cfg binv bcontent cs" for cs off len
    using layer.read_ok [unfolded cbs_block fold_defs, OF that] by (simp add: CipherFileIO_def)
  show "returns (fio_write (CipherFileIO cfg base) off d) cs
      (\<lambda>ok cs'. ok \<and> cipher_inv cfg binv bcontent cs' \<and>
        cipher_content cfg bcontent cs' = put off d (cipher_content cfg bcontent cs))"
    if "cipher_inv cfg binv bcontent cs" "d \<noteq> []" for cs off d
    using layer.write_ok [unfolded cbs_block fold_defs, OF that] by (simp add: CipherFileIO_def)
  show "fio_isWritable (CipherFileIO cfg base) cs" if "cipher_inv cfg binv bcontent cs" for cs
    using that base.writable by (auto simp: CipherFileIO_def cipher_inv_def block_inv_def cio_inv_def)
qed (simp_all add: CipherFileIO_def size_file open_file)

end

subsection \<open>Truncation and change of the path IV\<close>

locale cipher_trunc = cipher_file +
  fixes bsafe :: "'b \<Rightarrow> nat \<Rightarrow> bool"
  assumes base_truncate: "binv s \<Longrightarrow> bsafe s n \<Longrightarrow> returns (fio_truncate base n) s
      (\<lambda>r s'. r = 0 \<and> binv s' \<and> bcontent s' = resize n (bcontent s))"
    and base_safe: "8 \<le> n \<Longrightarrow> bsafe s n"
    and base_setIV: "binv s \<Longrightarrow> returns (fio_setIV base iv) s
      (\<lambda>ok s'. ok \<and> binv s' \<and> bcontent s' = bcontent s)"
    and header: "haveHeader cfg"
begin

text \<open>A file with a header, and the function that cuts it.\<close>

definition headed :: "cipherio \<times> 'b \<Rightarrow> bool" where
  "headed cs \<longleftrightarrow> cio_inv cfg binv bcontent cs \<and> bcontent (snd cs) \<noteq> []"

abbreviation cutf :: "nat \<Rightarrow> (cipherio \<times> 'b, int) sm" where
  "cutf \<equiv> \<lambda>n. onSnd (fio_truncate base (n + HEADER_SIZE))"

lemma hoff8 [simp]: "hoff = 8"
  by (simp add: hoff_def header)

lemma cut_raw:
  assumes "headed (ci, s)"
  shows "returns (cutf n) (ci, s) (\<lambda>r (ci', s'). r = 0 \<and> ci' = ci \<and> headed (ci, s') \<and>
     file_iv (ci, s') = file_iv (ci, s) \<and> drop 8 (bcontent s') = resize n (drop 8 (bcontent s)))"
proof -
  have i: "binv s" "8 \<le> length (bcontent s)" using assms header by (auto simp: headed_def cio_inv_def)
  have h: "take 8 (resize (n + 8) (bcontent s)) = take 8 (bcontent s)"
    using i(2) by (simp add: resize_def min_def)
  have d: "drop 8 (resize (n + 8) (bcontent s)) = resize n (drop 8 (bcontent s))"
    using i(2) by (simp add: resize_def drop_take)
  have l: "resize (n + 8) (bcontent s) \<noteq> []" by (metis add_is_0 length_resize list.size(3) zero_neq_numeral)
  show ?thesis
    unfolding returns_onSnd
    by (rule returns_mono [OF base_truncate [OF i(1) base_safe]])
       (use assms h d l header in \<open>auto simp: HEADER_SIZE_def headed_def cio_inv_def file_iv_def\<close>)
qed

lemma headed_layer: "block_layer (cio_block cfg base) headed (cio_content cfg bcontent)"
proof
  show "returns (bf_getSize (cio_block cfg base)) cs
      (\<lambda>n cs'. n = int (length (cio_content cfg bcontent cs)) \<and> headed cs' \<and>
        cio_content cfg bcontent cs' = cio_content cfg bcontent cs)" if "headed cs" for cs
  proof -
    obtain ci s where cs: "cs = (ci, s)" by (cases cs)
    have i: "binv s" "8 \<le> length (bcontent s)" using that header by (auto simp: headed_def cio_inv_def cs)
    show ?thesis
      unfolding cs cio_block_def block_file.simps cio_getSize_def returns_sbind returns_onSnd
      by (rule returns_mono [OF base.getSize_ok [OF i(1)]])
         (use that i header in \<open>auto simp: wp HEADER_SIZE_def headed_def cio_inv_def cs content_eq file_iv_def\<close>)
  qed
  show "returns (bf_readOneBlock (cio_block cfg base) off (bf_blockSize (cio_block cfg base))) cs
      (\<lambda>r cs'. r = Some (take (bf_blockSize (cio_block cfg base)) (drop off (cio_content cfg bcontent cs))) \<and>
        headed cs' \<and> cio_content cfg bcontent cs' = cio_content cfg bcontent cs)"
    if "headed cs" "bf_blockSize (cio_block cfg base) dvd off" for cs off
  proof -
    have "returns (cio_readOneBlock cfg base off cbs) cs
      (\<lambda>r cs'. r = Some (take cbs (drop off (cio_content cfg bcontent cs))) \<and>
        headed cs' \<and> cio_content cfg bcontent cs' = cio_content cfg bcontent cs)"
      by (rule returns_mono [OF readOne_block]) (use that in \<open>auto simp: headed_def\<close>)
    then show ?thesis by (simp add: cio_block_def)
  qed
  show "returns (bf_writeOneBlock (cio_block cfg base) off d) cs
      (\<lambda>ok cs'. ok \<and> headed cs' \<and> cio_content cfg bcontent cs' = put off d (cio_content cfg bcontent cs))"
    if "headed cs" "bf_blockSize (cio_block cfg base) dvd off" "off \<le> length (cio_content cfg bcontent cs)"
      "d \<noteq> []" "length d \<le> bf_blockSize (cio_block cfg base)"
      "length d = bf_blockSize (cio_block cfg base) \<or> length (cio_content cfg bcontent cs) \<le> off + length d"
    for cs off d
  proof -
    have i: "cio_inv cfg binv bcontent cs" using that(1) by (simp add: headed_def)
    have "returns (cio_writeOneBlock cfg base off d) cs
      (\<lambda>ok cs'. ok \<and> cio_inv cfg binv bcontent cs' \<and> cio_content cfg bcontent cs' = put off d (cio_content cfg bcontent cs))"
      using that by (intro writeOne_block [OF i]) simp_all
    moreover have "bcontent (snd cs') \<noteq> []"
      if "cio_content cfg bcontent cs' = put off d (cio_content cfg bcontent cs)" for cs'
    proof
      assume "bcontent (snd cs') = []"
      then have "cio_content cfg bcontent cs' = []" by (cases cs') (simp add: content_eq)
      then show False using that \<open>d \<noteq> []\<close> by (metis length_put list.size(3) max_0L max_def add_is_0 length_0_conv)
    qed
    ultimately show ?thesis
      unfolding cio_block_def block_file.simps by (auto simp: headed_def elim: returns_mono)
  qed
qed (use cbs_gt in \<open>simp_all add: cio_block_def no_holes\<close>)

lemma decode_take:
  "k * cbs \<le> length raw \<Longrightarrow> cio_decode cfg iv (take (k * cbs) raw) = take (k * cbs) (cio_decode cfg iv raw)"
  using block_coding.map_take [OF coding] by (simp add: cio_decode_def)

lemma headed_trunc: "block_trunc (cio_block cfg base) headed (cio_content cfg bcontent) cutf"
proof (intro block_trunc.intro block_trunc_axioms.intro headed_layer)
  fix cs assume h: "headed cs"
  obtain ci s where cs: "cs = (ci, s)" by (cases cs)
  show "returns (cutf (length (cio_content cfg bcontent cs))) cs
      (\<lambda>_ cs'. headed cs' \<and> cio_content cfg bcontent cs' = cio_content cfg bcontent cs)"
    unfolding cs
    by (rule returns_mono [OF cut_raw [OF h [unfolded cs]]]) (use h resize_same [of "drop 8 (bcontent s)"] in \<open>auto simp: content_eq cs\<close>)
next
  fix cs off and d :: bytes
  assume h: "headed cs" "bf_blockSize (cio_block cfg base) dvd off" "d \<noteq> []"
    "length d < bf_blockSize (cio_block cfg base)" "off + length d < length (cio_content cfg bcontent cs)"
  obtain ci s where cs: "cs = (ci, s)" by (cases cs)
  have off: "off div cbs * cbs = off" using h(2) by simp
  let ?Y = "drop 8 (bcontent s)"
  have lenY: "off + length d < length ?Y" using h(5) by (simp add: cs content_eq)
  have w: "returns (cio_writeOneBlock cfg base off d) (ci, s) (\<lambda>ok (ci', s'). ok \<and>
     cio_inv cfg binv bcontent (ci', s') \<and> hoff \<le> length (bcontent s') \<and>
     (\<exists>e. length e = length d \<and> dec1 cfg (file_iv (ci', s')) (off div cbs) e = d \<and>
          drop hoff (bcontent s') = put off e (drop hoff (bcontent s))) \<and>
     cio_decode cfg (file_iv (ci', s')) (drop hoff (bcontent s)) = cio_content cfg bcontent (ci, s))"
    using h lenY by (intro writeOne_raw) (auto simp: headed_def cs)
  have fin: "returns (sbind (cutf (off + length d)) (\<lambda>_. sret True)) (ci1, s1)
      (\<lambda>ok cs'. ok \<and> headed cs' \<and> cio_content cfg bcontent cs' = take off (cio_content cfg bcontent (ci, s)) @ d)"
    if a: "cio_inv cfg binv bcontent (ci1, s1)" "8 \<le> length (bcontent s1)" "length e = length d"
      "dec1 cfg (file_iv (ci1, s1)) (off div cbs) e = d" "drop 8 (bcontent s1) = put off e ?Y"
      "cio_decode cfg (file_iv (ci1, s1)) ?Y = cio_content cfg bcontent (ci, s)" for ci1 s1 e
  proof -
    have h1: "headed (ci1, s1)" using a(1,2) by (auto simp: headed_def)
    have ne: "e \<noteq> []" using a(3) h(3) by auto
    have "resize (off + length d) (put off e ?Y) = put off e (take off ?Y)"
      using lenY a(3) by (simp add: resize_def put_def min_absorb1 min_absorb2)
    moreover have "cio_decode cfg (file_iv (ci1, s1)) (put off e (take off ?Y))
        = put off d (take off (cio_content cfg bcontent (ci, s)))"
      using decode_put [of "off div cbs" "take off ?Y" e "file_iv (ci1, s1)"] ne a(3,4,6) h(4) off lenY
        decode_take [of "off div cbs" ?Y "file_iv (ci1, s1)"] by simp
    moreover have "put off d (take off (cio_content cfg bcontent (ci, s))) = take off (cio_content cfg bcontent (ci, s)) @ d"
      using h(5) by (simp add: put_def cs min_absorb2)
    ultimately have "cio_content cfg bcontent (ci1, s') = take off (cio_content cfg bcontent (ci, s)) @ d"
      if "file_iv (ci1, s') = file_iv (ci1, s1)" "drop 8 (bcontent s') = resize (off + length d) (drop 8 (bcontent s1))" for s'
      using that a(5) by (simp add: content_eq)
    then show ?thesis
      unfolding returns_sbind by (intro returns_mono [OF cut_raw [OF h1]]) auto
  qed
  show "returns (sbind (bf_writeOneBlock (cio_block cfg base) off d) (\<lambda>ok. sbind (cutf (off + length d)) (\<lambda>_. sret ok))) cs
      (\<lambda>ok cs'. ok \<and> headed cs' \<and> cio_content cfg bcontent cs' = take off (cio_content cfg bcontent cs) @ d)"
    unfolding cs cio_block_def block_file.simps returns_sbind [of "cio_writeOneBlock cfg base off d"]
  proof (rule returns_mono [OF w], goal_cases)
    case (1 ok cs')
    then show ?case using fin by (cases cs'; cases ok) auto
  qed
qed

text \<open>Truncation of the object: extending it, or cutting it inside a block.\<close>

lemma truncate_file:
  assumes "cipher_inv cfg binv bcontent cs"
    and "length (cipher_content cfg bcontent cs) \<le> n \<or> \<not> cbs dvd n"
  shows "returns (cio_truncate cfg base n) cs (\<lambda>r cs'. r = 0 \<and> cipher_inv cfg binv bcontent cs' \<and>
     cipher_content cfg bcontent cs' = resize n (cipher_content cfg bcontent cs))"
proof -
  obtain c ci s where cs: "cs = (c, ci, s)" by (cases cs) auto
  have i: "cio_inv cfg binv bcontent (ci, s)" "cache_holds cbs c (cio_content cfg bcontent (ci, s))"
    using assms(1) by (auto simp: cipher_inv_def block_inv_def cs)
  have w: "fio_isWritable base s" using i(1) base.writable by (auto simp: cio_inv_def)
  have trunc: "returns (truncate_and_cut (cio_block cfg base) cutf n) (c, ci', s')
      (\<lambda>r cs'. r = 0 \<and> cipher_inv cfg binv bcontent cs' \<and>
        cipher_content cfg bcontent cs' = resize n (cipher_content cfg bcontent cs))"
    if h: "headed (ci', s')" and e: "cio_content cfg bcontent (ci', s') = cio_content cfg bcontent (ci, s)" for ci' s'
    by (rule returns_mono [OF block_trunc.truncate_and_cut_ok [OF headed_trunc]])
       (use assms(2) i(2) h e in \<open>auto simp: block_inv_def block_content_def headed_def cs
          cipher_inv_def cipher_content_def\<close>)
  have init: "returns (if ci_fileIV ci = 0
      then onSnd (sbind (sget (fio_isWritable base \<circ> snd)) (\<lambda>writable.
           sbind (if \<not> writable
                  then sbind (onSnd (fio_open base (ci_lastFlags ci OR O_RDWR))) (\<lambda>_. sret ())
                  else sret ()) (\<lambda>_.
           initHeader cfg base)))
      else sret ()) (c, ci, s)
    (\<lambda>_ cs'. fst cs' = c \<and> headed (snd cs') \<and> cio_content cfg bcontent (snd cs') = cio_content cfg bcontent (ci, s))"
  proof (cases "ci_fileIV ci = 0")
    case True
    have "returns (initHeader cfg base) (ci, s)
        (\<lambda>_ cs'. headed cs' \<and> cio_content cfg bcontent cs' = cio_content cfg bcontent (ci, s))"
    proof (rule returns_mono [OF initHeader_ok [OF i(1) header True]], goal_cases)
      case (1 u cs')
      then show ?case
        by (cases cs'; cases "bcontent s = []") (auto simp: loaded_def headed_def content_eq file_iv_def)
    qed
    then have "returns (initHeader cfg base) (ci, s) (\<lambda>_ s'. fst (c, s') = c \<and> headed (snd (c, s')) \<and>
        cio_content cfg bcontent (snd (c, s')) = cio_content cfg bcontent (ci, s))"
      by simp
    then show ?thesis using True w by (simp add: wp)
  next
    case False
    then show ?thesis using i(1) header by (auto simp: headed_def cio_inv_def)
  qed
  have eq: "cio_truncate cfg base n = sbind (onSnd (sget fst)) (\<lambda>ci.
      sbind (if ci_fileIV ci = 0
             then onSnd (sbind (sget (fio_isWritable base \<circ> snd)) (\<lambda>writable.
                  sbind (if \<not> writable
                         then sbind (onSnd (fio_open base (ci_lastFlags ci OR O_RDWR))) (\<lambda>_. sret ())
                         else sret ()) (\<lambda>_.
                  initHeader cfg base)))
             else sret ()) (\<lambda>_. truncate_and_cut (cio_block cfg base) cutf n))"
    using header by (simp add: cio_truncate_def truncate_and_cut_def)
  show ?thesis
    unfolding eq returns_sbind cs returns_onSnd returns_sget fst_conv
    by (rule returns_mono [OF init]) (use trunc cs in auto)
qed

text \<open>A new path IV: the header is stored again, the contents stay.\<close>

lemma writeHeader_ok:
  assumes "binv s" and "8 \<le> length (bcontent s)" and "ci_fileIV ci \<noteq> 0"
  shows "returns (writeHeader cfg base) (ci, s) (\<lambda>ok (ci', s'). ok \<and> ci' = ci\<lparr>ci_fileIV := 0\<rparr> \<and> binv s' \<and>
     length (bcontent s') = length (bcontent s) \<and> drop 8 (bcontent s') = drop 8 (bcontent s) \<and>
     header_iv cfg (ci_externalIV ci) (take 8 (bcontent s')) = ci_fileIV ci)"
proof -
  let ?h = "bytes_of_iv (ci_fileIV ci)"
  have "?h \<noteq> []" by (metis length_bytes_of_iv list.size(3) zero_neq_numeral)
  then obtain e where e: "vt_streamEncode (fs_cipher cfg) ?h (ci_externalIV ci) (fs_key cfg) = Inr (True, e)"
      "length e = 8" "vt_streamDecode (fs_cipher cfg) e (ci_externalIV ci) (fs_key cfg) = Inr (True, ?h)"
    using cipher.stream_enc [OF key, of ?h "ci_externalIV ci"] by auto
  then have "e \<noteq> []" by auto
  then obtain s1 where s1: "fio_write base 0 e s = (Inr True, s1)" "binv s1" "bcontent s1 = e @ drop 8 (bcontent s)"
    using base.write_ok [OF assms(1), of e 0] e(2) by (auto simp: returns_iff put_def)
  then show ?thesis
    using assms e base.writable [OF assms(1)]
    by (auto simp: writeHeader_def returns_iff sbind_def sget_def sres_def smod_def onSnd_def sret_def header_iv_def)
qed

lemma setIV_file:
  assumes "cipher_inv cfg binv bcontent (c, ci, s)" and "ci_externalIV ci \<noteq> 0"
  shows "returns (onSnd (cio_setIV cfg base iv)) (c, ci, s) (\<lambda>ok (c', ci', s'). ok \<and> ci_externalIV ci' = iv \<and>
     cipher_inv cfg binv bcontent (c', ci', s') \<and>
     cipher_content cfg bcontent (c', ci', s') = cipher_content cfg bcontent (c, ci, s) \<and>
     drop 8 (bcontent s') = drop 8 (bcontent s))"
proof -
  have i: "cio_inv cfg binv bcontent (ci, s)" "cache_holds cbs c (cio_content cfg bcontent (ci, s))"
    using assms(1) by (auto simp: cipher_inv_def block_inv_def)
  let ?post = "\<lambda>(ci', s'). ci_externalIV ci' = iv \<and> cio_inv cfg binv bcontent (ci', s') \<and>
     cio_content cfg bcontent (ci', s') = cio_content cfg bcontent (ci, s) \<and>
     drop 8 (bcontent s') = drop 8 (bcontent s)"
  have wr: "returns (sbind (smod (apfst (\<lambda>ci. ci\<lparr>ci_externalIV := iv\<rparr>))) (\<lambda>_.
      sbind (writeHeader cfg base) (\<lambda>ok.
      if \<not> ok
      then sbind (smod (apfst (\<lambda>c. c\<lparr>ci_externalIV := ci_externalIV ci\<rparr>))) (\<lambda>_. sret False)
      else onSnd (fio_setIV base iv)))) (ci1, s1) (\<lambda>ok cs'. ok \<and> ?post cs')"
    if l: "loaded (ci1, s1)" "ci_externalIV ci1 = ci_externalIV ci" "drop 8 (bcontent s1) = drop 8 (bcontent s)"
      "cio_content cfg bcontent (ci1, s1) = cio_content cfg bcontent (ci, s)" for ci1 s1
  proof -
    let ?ci = "ci1\<lparr>ci_externalIV := iv\<rparr>"
    have b: "binv s1" "8 \<le> length (bcontent s1)" "ci_fileIV ?ci \<noteq> 0" "ci_fileIV ci1 = file_iv (ci1, s1)"
      using l(1) header by (auto simp: loaded_def cio_inv_def file_iv_def Let_def)
    have setiv: "returns (onSnd (fio_setIV base iv)) (?ci\<lparr>ci_fileIV := 0\<rparr>, s2) (\<lambda>ok cs'. ok \<and> ?post cs')"
      if w: "binv s2" "length (bcontent s2) = length (bcontent s1)" "drop 8 (bcontent s2) = drop 8 (bcontent s1)"
        "header_iv cfg iv (take 8 (bcontent s2)) = ci_fileIV ci1" for s2
      unfolding returns_onSnd
      by (rule returns_mono [OF base_setIV [OF w(1)]])
         (use w b l header in \<open>auto simp: cio_inv_def content_eq file_iv_def Let_def\<close>)
    show ?thesis
      unfolding returns_sbind returns_smod apfst_conv
      by (rule returns_mono [OF writeHeader_ok [OF b(1-3)]]) (use setiv in auto)
  qed
  have "returns (cio_setIV cfg base iv) (ci, s) (\<lambda>ok cs'. ok \<and> ?post cs')"
  proof (cases "ci_fileIV ci = 0")
    case False
    then have "loaded (ci, s)" using i(1) by (simp add: loaded_def)
    then show ?thesis
      using wr [of ci s] False assms(2) header by (simp add: cio_setIV_def returns_sbind cong: if_cong)
  next
    case True
    have b: "binv s" using i(1) by (auto simp: cio_inv_def)
    obtain r s1 where s1: "fio_open base (ci_lastFlags ci OR O_RDWR) s = (Inr r, s1)" "0 \<le> r" "binv s1"
        "bcontent s1 = bcontent s"
      using base.open_ok [OF b, of "ci_lastFlags ci OR O_RDWR"] unfolding returns_iff by blast
    have i1: "cio_inv cfg binv bcontent (ci, s1)" using i(1) s1 by (auto simp: cio_inv_def)
    have "returns (sbind (initHeader cfg base) (\<lambda>_. sbind (smod (apfst (\<lambda>ci. ci\<lparr>ci_externalIV := iv\<rparr>))) (\<lambda>_.
      sbind (writeHeader cfg base) (\<lambda>ok.
      if \<not> ok
      then sbind (smod (apfst (\<lambda>c. c\<lparr>ci_externalIV := ci_externalIV ci\<rparr>))) (\<lambda>_. sret False)
      else onSnd (fio_setIV base iv))))) (ci, s1) (\<lambda>ok cs'. ok \<and> ?post cs')"
      unfolding returns_sbind [of "initHeader cfg base"]
    proof (rule returns_mono [OF initHeader_ok [OF i1 header True]], goal_cases)
      case (1 u cs')
      then obtain ci2 s2 where cs': "cs' = (ci2, s2)" and l: "loaded (ci2, s2)" "ci_externalIV ci2 = ci_externalIV ci"
          "if bcontent s = [] then length (bcontent s2) = 8 else bcontent s2 = bcontent s"
        using s1(4) by (cases cs') auto
      have d: "drop 8 (bcontent s2) = drop 8 (bcontent s)" using l(3) by (cases "bcontent s = []") auto
      moreover have "cio_content cfg bcontent (ci2, s2) = cio_content cfg bcontent (ci, s)"
        using l(2,3) by (cases "bcontent s = []") (auto simp: content_eq file_iv_def)
      ultimately show ?case unfolding cs' using l(1,2) by (intro wr) auto
    qed
    moreover note st = returns_step [where m = "fio_open base (ci_lastFlags ci OR O_RDWR)" and s = s, OF s1(1)]
    ultimately show ?thesis
      using s1(1,2) True assms(2) header
      by (simp add: cio_setIV_def returns_sbind returns_onSnd st cong: if_cong)
  qed
  then show ?thesis
    unfolding returns_onSnd
    by (rule returns_mono) (use i(2) in \<open>auto simp: cipher_inv_def cipher_content_def block_inv_def block_content_def\<close>)
qed

text \<open>The cached block survives a cut on a block boundary.\<close>

lemma stale_block:
  assumes "cipher_inv cfg binv bcontent (c, ci, s)" and "ci_fileIV ci \<noteq> 0" and "req_data c \<noteq> []"
    and "cbs dvd req_offset c" and "req_offset c < length (cipher_content cfg bcontent (c, ci, s))"
  shows "returns (sbind (cio_truncate cfg base (req_offset c)) (\<lambda>_. block_read (cio_block cfg base) (req_offset c) cbs))
     (c, ci, s) (\<lambda>r (c', ci', s'). r = Some (req_data c) \<and> length (bcontent s') = req_offset c + 8)"
proof -
  define n where "n = req_offset c"
  have i: "cio_inv cfg binv bcontent (ci, s)" and len: "length (req_data c) \<le> cbs"
    using assms(1,3) by (auto simp: cipher_inv_def block_inv_def cache_holds_def block_of_def)
  have h: "headed (ci, s)" using i assms(2) header by (auto simp: headed_def cio_inv_def)
  have mod: "n mod cbs = 0" using assms(4) by (simp add: n_def)
  have size: "returns (onSnd (cio_getSize cfg base)) (c, ci, s) (\<lambda>m (c', ci', s'). c' = c \<and> ci' = ci \<and>
      headed (ci', s') \<and> int n < m)"
  proof -
    have b: "binv s" "8 \<le> length (bcontent s)" using h header by (auto simp: headed_def cio_inv_def)
    have "n < length (bcontent s) - 8"
      using assms(5) by (simp add: n_def cipher_content_def block_content_def content_eq)
    then show ?thesis
      unfolding cio_getSize_def returns_sbind returns_onSnd
      by (intro returns_mono [OF base.getSize_ok [OF b(1)]])
         (use h b header in \<open>auto simp: wp HEADER_SIZE_def headed_def cio_inv_def\<close>)
  qed
  have fin: "returns (sbind (onSnd (cutf n)) (\<lambda>_. block_read (cio_block cfg base) n cbs)) (c, ci, s')
      (\<lambda>r (c', ci', s'). r = Some (req_data c) \<and> length (bcontent s') = n + 8)" if h': "headed (ci, s')" for s'
  proof -
    have rd: "block_read (cio_block cfg base) n cbs (c, ci, s2) = (Inr (Some (req_data c)), (c, ci, s2))" for s2
      using mod len assms(3) cbs_gt by (simp add: block_read_def sbind_def sres_def cacheReadOneBlock_def n_def)
    have "length (bcontent s2) = n + 8"
      if "headed (ci, s2)" "drop 8 (bcontent s2) = resize n (drop 8 (bcontent s'))" for s2
    proof -
      have "8 \<le> length (bcontent s2)" using that(1) header by (auto simp: headed_def cio_inv_def)
      moreover have "length (drop 8 (bcontent s2)) = n" using that(2) by simp
      ultimately show ?thesis by simp
    qed
    then show ?thesis
      unfolding returns_sbind [of "onSnd (cutf n)"] returns_onSnd [of "cutf n"]
      by (intro returns_mono [OF cut_raw [OF h', of n]]) (auto simp: returns_def rd)
  qed
  have eq: "sbind (cio_truncate cfg base n) (\<lambda>_. block_read (cio_block cfg base) n cbs) =
      sbind (onSnd (sget fst)) (\<lambda>ci.
      sbind (if ci_fileIV ci = 0
             then onSnd (sbind (sget (fio_isWritable base \<circ> snd)) (\<lambda>writable.
                  sbind (if \<not> writable
                         then sbind (onSnd (fio_open base (ci_lastFlags ci OR O_RDWR))) (\<lambda>_. sret ())
                         else sret ()) (\<lambda>_.
                  initHeader cfg base)))
             else sret ()) (\<lambda>_.
      sbind (block_truncate (cio_block cfg base) n None) (\<lambda>res.
      sbind (if res = 0 then sbind (onSnd (cutf n)) (\<lambda>_. sret res) else sret res) (\<lambda>_.
      block_read (cio_block cfg base) n cbs))))"
    using header by (simp add: cio_truncate_def sbind_assoc)
  have bt: "returns (block_truncate (cio_block cfg base) n None) (c, ci, s)
      (\<lambda>res (c', ci', s'). res = 0 \<and> c' = c \<and> ci' = ci \<and> headed (ci, s'))"
    unfolding block_truncate_def Let_def cbs_block mod returns_sbind
    by (rule returns_mono [where P = "\<lambda>m (c', ci', s'). c' = c \<and> ci' = ci \<and> headed (ci', s') \<and> int n < m"])
       (use size in \<open>auto simp: cio_block_def\<close>)
  have "returns (sbind (block_truncate (cio_block cfg base) n None) (\<lambda>res.
      sbind (if res = 0 then sbind (onSnd (cutf n)) (\<lambda>_. sret res) else sret res) (\<lambda>_.
      block_read (cio_block cfg base) n cbs))) (c, ci, s)
    (\<lambda>r (c', ci', s'). r = Some (req_data c) \<and> length (bcontent s') = n + 8)"
    unfolding returns_sbind [of "block_truncate (cio_block cfg base) n None"]
    by (rule returns_mono [OF bt]) (use fin in \<open>auto simp: returns_sbind\<close>)
  then show ?thesis
    unfolding n_def [symmetric] eq by (simp add: returns_sbind returns_onSnd assms(2) cong: if_cong)
qed

lemma cipher_trunc_file:
  "trunc_file (CipherFileIO cfg base) (cipher_inv cfg binv bcontent) (cipher_content cfg bcontent)
     (\<lambda>cs n. length (cipher_content cfg bcontent cs) \<le> n \<or> \<not> cbs dvd n)"
  using cipher_byte_file truncate_file
  by (intro trunc_file.intro trunc_file_axioms.intro) (simp_all add: CipherFileIO_def)

end

sublocale cipher_file \<subseteq> dec: block_coding "cio_blockSize cfg" "cio_blockSize cfg" "dec1 cfg iv" "\<lambda>n. n" for iv
  by (rule coding)

subsection \<open>Over the raw files\<close>

lemma raw_cipher_trunc:
  assumes "unix_disk u name fd good data" and "cipher_random (fs_cipher cfg) key_ok" and "key_ok (fs_key cfg)"
    and "1 < c_blockSize (fs_config cfg)" and "vt_cipherBlockSize (fs_cipher cfg) dvd cio_blockSize cfg"
    and "\<not> c_allowHoles (fs_config cfg)" and "\<not> fs_reverseEncryption cfg" and "haveHeader cfg"
  shows "cipher_trunc cfg (RawFileIO u) (raw_inv name fd good data) (data \<circ> snd) key_ok (\<lambda>_ n. 0 < n)"
proof -
  note raw = unix_disk.RawFileIO_file [OF assms(1)]
  show ?thesis
  proof (intro cipher_trunc.intro cipher_file.intro cipher_file_axioms.intro cipher_trunc_axioms.intro)
    show "returns (fio_setIV (RawFileIO u) iv) s
        (\<lambda>ok s'. ok \<and> raw_inv name fd good data s' \<and> (data \<circ> snd) s' = (data \<circ> snd) s)"
      if "raw_inv name fd good data s" for s iv
      using that by (simp add: RawFileIO_def FileIO_setIV_def)
  qed (use assms trunc_file.axioms(1) [OF raw] trunc_file.truncate_ok [OF raw] in simp_all)
qed

text \<open>The contents of an encrypted file of the volume, opened for writing.\<close>

definition enc_inv :: "'k FSConfig \<Rightarrow> bytes \<Rightarrow> int \<Rightarrow> ('o \<Rightarrow> bool) \<Rightarrow> ('o \<Rightarrow> bytes) \<Rightarrow>
    iorequest \<times> cipherio \<times> rawfile \<times> 'o \<Rightarrow> bool" where
  "enc_inv cfg name fd good data = cipher_inv cfg (raw_inv name fd good data) (data \<circ> snd)"

definition enc_content :: "'k FSConfig \<Rightarrow> ('o \<Rightarrow> bytes) \<Rightarrow> iorequest \<times> cipherio \<times> rawfile \<times> 'o \<Rightarrow> bytes" where
  "enc_content cfg data = cipher_content cfg (data \<circ> snd)"

subsection \<open>A sample volume\<close>

definition sample_cfg :: "sslkey FSConfig" where
  "sample_cfg =
     \<lparr>fs_config = (EncFSConfig_new 128 8)\<lparr>c_uniqueIV := True\<rparr>, fs_opts = EncFS_Opts_new,
      fs_cipher = SSL_Cipher sample_evp sample_sc, fs_key = sample_key 7,
      fs_nameCoding = NullNameIO, fs_forceDecode = False, fs_reverseEncryption = False,
      fs_idleTracking = False\<rparr>"

lemma sample_cipher_block [simp]: "vt_cipherBlockSize (SSL_Cipher sample_evp sample_sc) = 8"
proof -
  have "vt_cipherBlockSize (SSL_Cipher e sc) = evp_block_size e (sc_blockCipher sc)" for e sc
    by (simp add: SSL_Cipher_def)
  then show ?thesis by (simp add: sample_evp_def)
qed

lemma sample_cfg_simps [simp]:
  "fs_cipher sample_cfg = SSL_Cipher sample_evp sample_sc" "fs_key sample_cfg = sample_key 7"
  "c_blockSize (fs_config sample_cfg) = 8" "cio_blockSize sample_cfg = 8" "haveHeader sample_cfg"
  "\<not> c_allowHoles (fs_config sample_cfg)" "\<not> fs_reverseEncryption sample_cfg"
  by (simp_all add: sample_cfg_def EncFSConfig_new_def cio_blockSize_def haveHeader_def)

lemma sample_randomize: "vt_randomize (SSL_Cipher sample_evp sample_sc) n strong i = (True, replicate n (of_nat i))"
proof -
  have "vt_randomize (SSL_Cipher e sc) = ssl_randomize e" for e sc by (simp add: SSL_Cipher_def)
  moreover have "ssl_randomize sample_evp n strong i = (True, replicate n (of_nat i))"
    by (simp add: ssl_randomize_def sample_evp_def)
  ultimately show ?thesis by simp
qed

lemma sample_random: "cipher_random (SSL_Cipher sample_evp sample_sc) (ssl_key_ok sample_sc)"
proof (intro cipher_random.intro cipher_random_axioms.intro SSL_Cipher_laws sample_ok)
  show "\<exists>j\<ge>i. iv_of_bytes (snd (vt_randomize (SSL_Cipher sample_evp sample_sc) 8 False j)) \<noteq> 0" for i
  proof (intro exI conjI)
    show "i \<le> 256 * i + 1" by simp
    have "(256 :: byte) = 0" by simp
    then have "(of_nat (256 * i + 1) :: byte) = 1"
      by (simp only: of_nat_add of_nat_mult of_nat_numeral of_nat_1 mult_zero_left add_0)
    moreover have "iv_of_bytes (replicate 8 1) \<noteq> 0"
    proof -
      have "replicate 8 (1 :: byte) = [1, 1, 1, 1, 1, 1, 1, 1]" by (simp add: eval_nat_numeral)
      then show ?thesis by (simp add: iv_of_bytes_def)
    qed
    ultimately show "iv_of_bytes (snd (vt_randomize (SSL_Cipher sample_evp sample_sc) 8 False (256 * i + 1))) \<noteq> 0"
      by (simp only: sample_randomize snd_conv not_False_eq_True)
  qed
qed (simp add: sample_randomize)

interpretation ssl_sample: cipher_random "SSL_Cipher sample_evp sample_sc" "ssl_key_ok sample_sc"
  by (rule sample_random)

interpretation enc_sample: cipher_trunc sample_cfg "RawFileIO mem_disk" "raw_inv name 3 (\<lambda>_. True) (\<lambda>w. w)"
    "(\<lambda>w. w) \<circ> snd" "ssl_key_ok sample_sc" "\<lambda>_ n. 0 < n" for name
  by (rule raw_cipher_trunc [OF mem_disk.unix_disk_axioms]) (simp_all add: sample_random sample_ok)

text \<open>A new file of the sample volume, opened for writing under the path IV 5.\<close>

definition sample_file :: "iorequest \<times> cipherio \<times> rawfile \<times> bytes" where
  "sample_file = (BlockFileIO_cache,
     \<lparr>ci_externalIV = 5, ci_fileIV = 0, ci_lastFlags = O_RDWR, ci_rand = 1\<rparr>,
     (RawFileIO_new (lit ''/f''))\<lparr>rf_fd := 3, rf_canWrite := True\<rparr>, [])"

lemma sample_file_inv: "enc_inv sample_cfg (lit ''/f'') 3 (\<lambda>_. True) (\<lambda>w. w) sample_file"
  by (simp add: enc_inv_def cipher_inv_def block_inv_def cio_inv_def raw_inv_def sample_file_def
      RawFileIO_new_def cache_holds_def BlockFileIO_cache_def)

lemma sample_file_content: "enc_content sample_cfg (\<lambda>w. w) sample_file = []"
  by (simp add: enc_content_def cipher_content_def block_content_def cio_content_def cio_plain_def
      cio_decode_def sample_file_def)

subsection \<open>Properties\<close>

text \<open>
  an encrypted file with a header, on a disk that works and with a lawful cipher, is a
  string of bytes: a read of any range gives those bytes of the contents, a non-empty write
  anywhere changes exactly the bytes written (filling a gap with zeros) and reports
  success, the size is the length, and extending the file or cutting it inside a block
  gives the contents of that length.  Nothing throws, and the invariant is kept.
\<close>
theorem encrypted_file_refines:
  assumes "unix_disk u name fd good data" and "cipher_random (fs_cipher cfg) key_ok" and "key_ok (fs_key cfg)"
    and "1 < c_blockSize (fs_config cfg)" and "vt_cipherBlockSize (fs_cipher cfg) dvd cio_blockSize cfg"
    and "\<not> c_allowHoles (fs_config cfg)" and "\<not> fs_reverseEncryption cfg" and "haveHeader cfg"
    and "enc_inv cfg name fd good data s"
  defines "f \<equiv> CipherFileIO cfg (RawFileIO u)" and "x \<equiv> enc_content cfg data s"
  shows "returns (fio_read f off n) s (\<lambda>r s'. r = Some (take n (drop off x)) \<and>
           enc_inv cfg name fd good data s' \<and> enc_content cfg data s' = x) \<and>
         (d = [] \<or> returns (fio_write f off d) s (\<lambda>ok s'. ok \<and>
           enc_inv cfg name fd good data s' \<and> enc_content cfg data s' = put off d x)) \<and>
         returns (fio_getSize f) s (\<lambda>r s'. r = int (length x) \<and>
           enc_inv cfg name fd good data s' \<and> enc_content cfg data s' = x) \<and>
         (n < length x \<and> cio_blockSize cfg dvd n \<or>
          returns (fio_truncate f n) s (\<lambda>r s'. r = 0 \<and>
            enc_inv cfg name fd good data s' \<and> enc_content cfg data s' = resize n x))"
proof -
  note t = cipher_trunc.cipher_trunc_file [OF raw_cipher_trunc [OF assms(1-8)], folded enc_inv_def enc_content_def]
  note b = trunc_file.axioms(1) [OF t]
  have "n < length x \<and> cio_blockSize cfg dvd n \<or>
      returns (fio_truncate f n) s (\<lambda>r s'. r = 0 \<and>
        enc_inv cfg name fd good data s' \<and> enc_content cfg data s' = resize n x)"
    using trunc_file.truncate_ok [OF t assms(9), of n] unfolding f_def x_def by (meson not_le)
  then show ?thesis
    using byte_file.read_ok [OF b assms(9)] byte_file.write_ok [OF b assms(9)] byte_file.getSize_ok [OF b assms(9)]
    unfolding f_def x_def by blast
qed

theorem encrypted_file_refines_witness:
  "returns (fio_write (CipherFileIO sample_cfg (RawFileIO mem_disk)) 3 [1, 2]) sample_file
     (\<lambda>ok s'. ok \<and> enc_inv sample_cfg (lit ''/f'') 3 (\<lambda>_. True) (\<lambda>w. w) s' \<and>
        enc_content sample_cfg (\<lambda>w. w) s' = [0, 0, 0, 1, 2])"
  using encrypted_file_refines [OF mem_disk.unix_disk_axioms, where cfg = sample_cfg and s = sample_file
      and d = "[1, 2]" and off = 3 and n = 0 and key_ok = "ssl_key_ok sample_sc" and name = "lit ''/f''"]
  by (simp add: sample_random sample_ok sample_file_inv sample_file_content put_def numeral_3_eq_3)




text \<open>A stored file of 12 bytes whose second block is cached.\<close>

definition sample_header :: bytes where
  "sample_header =
     (case vt_streamEncode (SSL_Cipher sample_evp sample_sc) (bytes_of_iv 1) 5 (sample_key 7) of
        Inr (ok, e) \<Rightarrow> e | Inl e \<Rightarrow> [])"

definition sample_stored :: "cipherio \<times> rawfile \<times> bytes" where
  "sample_stored = (\<lparr>ci_externalIV = 5, ci_fileIV = 1, ci_lastFlags = O_RDWR, ci_rand = 1\<rparr>,
     (RawFileIO_new (lit ''/f''))\<lparr>rf_fd := 3, rf_canWrite := True\<rparr>, sample_header @ replicate 12 0)"

definition sample_cached :: iorequest where
  "sample_cached = \<lparr>req_offset = 8,
     req_data = block_of 8 8 (cio_content sample_cfg ((\<lambda>w. w) \<circ> snd) sample_stored)\<rparr>"

lemma sample_header: "length sample_header = 8" "header_iv sample_cfg 5 sample_header = 1"
proof -
  have "bytes_of_iv 1 \<noteq> []" by (metis length_bytes_of_iv list.size(3) zero_neq_numeral)
  then obtain e where e: "vt_streamEncode (SSL_Cipher sample_evp sample_sc) (bytes_of_iv 1) 5 (sample_key 7) = Inr (True, e)"
      "length e = 8" "vt_streamDecode (SSL_Cipher sample_evp sample_sc) e 5 (sample_key 7) = Inr (True, bytes_of_iv 1)"
    using ssl_sample.stream_enc [OF sample_ok(3), of "bytes_of_iv 1" 5 7] by auto
  then show "length sample_header = 8" "header_iv sample_cfg 5 sample_header = 1"
    by (simp_all add: sample_header_def header_iv_def)
qed

lemma sample_stored:
  "cio_inv sample_cfg (raw_inv (lit ''/f'') 3 (\<lambda>_. True) (\<lambda>w. w)) ((\<lambda>w. w) \<circ> snd) sample_stored"
  "length (cio_content sample_cfg ((\<lambda>w. w) \<circ> snd) sample_stored) = 12"
  using sample_header by (simp_all add: sample_stored_def cio_inv_def raw_inv_def RawFileIO_new_def
      enc_sample.content_eq enc_sample.hoff8)

lemma sample_cached_inv: "enc_inv sample_cfg (lit ''/f'') 3 (\<lambda>_. True) (\<lambda>w. w) (sample_cached, sample_stored)"
  using sample_stored by (simp add: enc_inv_def cipher_inv_def block_inv_def cache_holds_def sample_cached_def)


text \<open>
  with the null cipher, whose generator only returns zeros, a new file of a volume with
  file IVs can never be written: the loop that draws the IV does not end.
\<close>
theorem null_cipher_never_draws_iv:
  assumes "fs_cipher cfg = NullCipher iface" and "haveHeader cfg" and "1 < cio_blockSize cfg"
    and "byte_file base binv bcontent" and "binv s" and "bcontent s = []" and "ci_fileIV ci = 0"
    and "d \<noteq> []"
  shows "fst (cio_writeOneBlock cfg base 0 d (ci, s)) = Inl Diverges"
proof -
  obtain s1 where "fio_getSize base s = (Inr 0, s1)"
    using byte_file.getSize_ok [OF assms(4,5)] assms(6) by (auto simp: returns_iff)
  then show ?thesis
    using assms by (simp add: cio_writeOneBlock_def initHeader_def sbind_def sget_def onSnd_def sthrow_def
        HEADER_SIZE_def NullCipher_newFileIV)
qed

text \<open>A volume of the null cipher with file IVs.\<close>

definition null_cfg :: "unit FSConfig" where
  "null_cfg =
     \<lparr>fs_config = (EncFSConfig_new 0 8)\<lparr>c_uniqueIV := True\<rparr>, fs_opts = EncFS_Opts_new,
      fs_cipher = NullCipher NullInterface, fs_key = (), fs_nameCoding = NullNameIO,
      fs_forceDecode = False, fs_reverseEncryption = False, fs_idleTracking = False\<rparr>"

theorem null_cipher_never_draws_iv_witness:
  "fst (cio_writeOneBlock null_cfg (RawFileIO mem_disk) 0 [1] (snd sample_file)) = Inl Diverges"
proof -
  obtain rf where s: "snd sample_file = (\<lparr>ci_externalIV = 5, ci_fileIV = 0, ci_lastFlags = O_RDWR, ci_rand = 1\<rparr>, rf, [])"
      "raw_inv (lit ''/f'') 3 (\<lambda>_. True) (\<lambda>w. w) (rf, [])"
    by (simp add: sample_file_def raw_inv_def RawFileIO_new_def)
  show ?thesis
    unfolding s(1)
    by (rule null_cipher_never_draws_iv [OF _ _ _ raw_mem.byte_file_axioms s(2), of _ NullInterface])
       (simp_all add: null_cfg_def haveHeader_def cio_blockSize_def EncFSConfig_new_def)
qed

end
