(* ===== verification/MACFileIO.thy ===== *)
theory MACFileIO
  imports CipherFileIO
begin

text \<open>
  Files with block headers (\<open>encfs/MACFileIO.cpp\<close>): every block of the base file starts
  with a checksum and random bytes, which are hidden from the layer above.  Over a base
  file that is a byte string, the object is again a byte string; a block whose checksum
  does not fit is refused.
\<close>

subsection \<open>The object\<close>

text \<open>The derived class keeps no state of its own; \<open>nat\<close> counts the calls of \<open>randomize\<close>.\<close>

type_synonym ('s, 'a) mm = "(nat \<times> 's, 'a) sm"

definition MACFileIO_iface :: interface where
  "MACFileIO_iface = Interface (lit ''FileIO/MAC'') 2 1 0"

definition dataBlockSize :: "'k FSConfig \<Rightarrow> int" where
  "dataBlockSize cfg = c_blockSize (fs_config cfg) - c_blockMACBytes (fs_config cfg)
     - c_blockMACRandBytes (fs_config cfg)"

definition macBytesOf :: "'k FSConfig \<Rightarrow> nat" where
  "macBytesOf cfg = nat (c_blockMACBytes (fs_config cfg))"

definition randBytesOf :: "'k FSConfig \<Rightarrow> nat" where
  "randBytesOf cfg = nat (c_blockMACRandBytes (fs_config cfg))"

definition mac_blockSize :: "'k FSConfig \<Rightarrow> nat" where
  "mac_blockSize cfg = nat (dataBlockSize cfg)"

definition mac_headerSize :: "'k FSConfig \<Rightarrow> nat" where
  "mac_headerSize cfg = macBytesOf cfg + randBytesOf cfg"

definition warnOnly :: "'k FSConfig \<Rightarrow> bool" where
  "warnOnly cfg = o_forceDecode (fs_opts cfg)"

definition MACFileIO_new :: "'k FSConfig \<Rightarrow> (iorequest \<times> nat) res" where
  "MACFileIO_new cfg =
     rbind (BlockFileIO_check (mac_blockSize cfg)) (\<lambda>_.
     rbind (rAssert (0 \<le> c_blockMACBytes (fs_config cfg) \<and> c_blockMACBytes (fs_config cfg) \<le> 8)) (\<lambda>_.
     rbind (rAssert (0 \<le> c_blockMACRandBytes (fs_config cfg))) (\<lambda>_.
     Inr (BlockFileIO_cache, 0))))"

subsection \<open>Locations\<close>

definition roundUpDivide :: "int \<Rightarrow> int \<Rightarrow> int" where
  "roundUpDivide numerator denominator = cdiv (numerator + denominator - 1) denominator"

definition locWithHeader :: "int \<Rightarrow> int \<Rightarrow> int \<Rightarrow> int" where
  "locWithHeader offset blockSize headerSize =
     (let blockNum = roundUpDivide offset (blockSize - headerSize) in offset + blockNum * headerSize)"

definition locWithoutHeader :: "int \<Rightarrow> int \<Rightarrow> int \<Rightarrow> int" where
  "locWithoutHeader offset blockSize headerSize =
     (let blockNum = roundUpDivide offset blockSize in offset - blockNum * headerSize)"

definition mac_getAttr :: "'k FSConfig \<Rightarrow> 's fileio \<Rightarrow> ('s, int \<times> stat) mm" where
  "mac_getAttr cfg base =
     sbind (onSnd (fio_getAttr base)) (\<lambda>(res, stbuf).
     if res = 0 \<and> S_ISREG (st_mode stbuf)
     then (let bs = mac_blockSize cfg + mac_headerSize cfg in
           sret (res, stbuf\<lparr>st_size := locWithoutHeader (st_size stbuf) (int bs) (int (mac_headerSize cfg))\<rparr>))
     else sret (res, stbuf))"

definition mac_getSize :: "'k FSConfig \<Rightarrow> 's fileio \<Rightarrow> ('s, int) mm" where
  "mac_getSize cfg base =
     sbind (onSnd (fio_getSize base)) (\<lambda>sz.
     let bs = mac_blockSize cfg + mac_headerSize cfg in
     sret (if sz > 0 then locWithoutHeader sz (int bs) (int (mac_headerSize cfg)) else sz))"

subsection \<open>Blocks\<close>

text \<open>The stored bytes of a checksum, the lowest first.\<close>

definition mac_bytes :: "nat \<Rightarrow> u64 \<Rightarrow> bytes" where
  "mac_bytes n mac = map (\<lambda>i. ucast (drop_bit (8 * i) mac AND 0xff)) [0..<n]"

definition mac_readOneBlock :: "'k FSConfig \<Rightarrow> 's fileio \<Rightarrow> nat \<Rightarrow> nat \<Rightarrow> ('s, bytes option) mm" where
  "mac_readOneBlock cfg base offset dataLen =
     (let h = mac_headerSize cfg; bs = mac_blockSize cfg + h; m = macBytesOf cfg in
      sbind (onSnd (fio_read base (nat (locWithHeader (int offset) (int bs) (int h))) (h + dataLen))) (\<lambda>r.
      let dat = (case r of None \<Rightarrow> [] | Some d \<Rightarrow> d);
          skipBlock = (if c_allowHoles (fs_config cfg) then list_all (\<lambda>x. x = 0) dat
                       else \<not> (m > 0))
      in if length dat > h
         then sbind (if \<not> skipBlock
                     then sbind (sres (vt_MAC_64 (fs_cipher cfg) (drop m dat) (fs_key cfg) None)) (\<lambda>(mac, iv).
                          if take m dat \<noteq> mac_bytes m mac \<and> \<not> warnOnly cfg then sthrow MacMismatch
                          else sret ())
                     else sret ()) (\<lambda>_.
              sret (Some (drop h dat)))
         else sret (case r of None \<Rightarrow> None | Some d \<Rightarrow> Some [])))"

definition mac_writeOneBlock :: "'k FSConfig \<Rightarrow> 's fileio \<Rightarrow> nat \<Rightarrow> bytes \<Rightarrow> ('s, bool) mm" where
  "mac_writeOneBlock cfg base offset dat =
     (let h = mac_headerSize cfg; bs = mac_blockSize cfg + h; m = macBytesOf cfg;
          loc = nat (locWithHeader (int offset) (int bs) (int h))
      in sbind (if randBytesOf cfg > 0
                then sbind (sget fst) (\<lambda>i.
                     sbind (smod (apfst (\<lambda>i. i + 1))) (\<lambda>_.
                     sret (vt_randomize (fs_cipher cfg) (randBytesOf cfg) False i)))
                else sret (True, [])) (\<lambda>(ok, rnd).
         if \<not> ok then sret False
         else sbind (if m > 0
                     then sbind (sres (vt_MAC_64 (fs_cipher cfg) (rnd @ dat) (fs_key cfg) None)) (\<lambda>(mac, iv).
                          sret (mac_bytes m mac))
                     else sret []) (\<lambda>macb.
              onSnd (fio_write base loc (macb @ rnd @ dat)))))"

definition mac_block :: "'k FSConfig \<Rightarrow> 's fileio \<Rightarrow> (nat \<times> 's) block_file" where
  "mac_block cfg base =
     \<lparr>bf_blockSize = mac_blockSize cfg,
      bf_allowHoles = c_allowHoles (fs_config cfg),
      bf_getSize = mac_getSize cfg base,
      bf_readOneBlock = mac_readOneBlock cfg base,
      bf_writeOneBlock = mac_writeOneBlock cfg base\<rparr>"

definition mac_truncate :: "'k FSConfig \<Rightarrow> 's fileio \<Rightarrow> nat \<Rightarrow> (iorequest \<times> nat \<times> 's, int) sm" where
  "mac_truncate cfg base sz =
     (let h = mac_headerSize cfg; bs = mac_blockSize cfg + h in
      sbind (block_truncate (mac_block cfg base) sz None) (\<lambda>res.
      if res = 0
      then sbind (onSnd (onSnd (fio_truncate base (nat (locWithHeader (int sz) (int bs) (int h)))))) (\<lambda>_. sret res)
      else sret res))"

definition MACFileIO :: "'k FSConfig \<Rightarrow> 's fileio \<Rightarrow> (iorequest \<times> nat \<times> 's) fileio" where
  "MACFileIO cfg base =
     \<lparr>fio_blockSize = mac_blockSize cfg,
      fio_setFileName = (\<lambda>fileName. onSnd (onSnd (fio_setFileName base fileName))),
      fio_getFileName = (\<lambda>(cache, i, s). fio_getFileName base s),
      fio_setIV = (\<lambda>iv. onSnd (onSnd (fio_setIV base iv))),
      fio_open = (\<lambda>flags. onSnd (onSnd (fio_open base flags))),
      fio_getAttr = onSnd (mac_getAttr cfg base),
      fio_getSize = onSnd (mac_getSize cfg base),
      fio_read = block_read (mac_block cfg base),
      fio_write = block_write (mac_block cfg base),
      fio_truncate = mac_truncate cfg base,
      fio_isWritable = (\<lambda>(cache, i, s). fio_isWritable base s)\<rparr>"

subsection \<open>Facts on the locations\<close>

lemma roundUpDivide_nat:
  assumes "0 < d"
  shows "roundUpDivide (int n) (int d) = int (n div d + (if n mod d = 0 then 0 else 1))"
proof -
  have "int n + int d - 1 = int (n + d - 1)" using assms by simp
  then have "roundUpDivide (int n) (int d) = int ((n + d - 1) div d)"
    by (simp only: roundUpDivide_def cdiv_int)
  moreover have "(n + d - 1) div d = n div d + (if n mod d = 0 then 0 else 1)"
  proof -
    have n: "n + d - 1 = (n mod d + d - 1) + n div d * d"
      using assms div_mult_mod_eq [of n d] by linarith
    have "(n mod d + d - 1) div d = (if n mod d = 0 then 0 else 1)"
    proof (cases "n mod d = 0")
      case False
      then have e: "n mod d + d - 1 = (n mod d - 1) + d" by simp
      have "n mod d - 1 < d" using assms by (meson less_imp_diff_less mod_less_divisor)
      then have "((n mod d - 1) + d) div d = 1" using assms by (simp only: div_add_self2 div_less add_0)
      then show ?thesis unfolding e using False by simp
    qed (use assms in simp)
    moreover have "((n mod d + d - 1) + n div d * d) div d = n div d + (n mod d + d - 1) div d"
      using assms by (intro div_mult_self1) simp
    ultimately show ?thesis using n by simp
  qed
  ultimately show ?thesis by simp
qed

lemma locWithHeader_nat:
  assumes "h < B"
  shows "locWithHeader (int n) (int B) (int h)
    = int (n + (n div (B - h) + (if n mod (B - h) = 0 then 0 else 1)) * h)"
proof -
  have "int B - int h = int (B - h)" using assms by simp
  then have "roundUpDivide (int n) (int B - int h) = int (n div (B - h) + (if n mod (B - h) = 0 then 0 else 1))"
    using roundUpDivide_nat [of "B - h" n] assms by simp
  then show ?thesis unfolding locWithHeader_def Let_def by (simp only: of_nat_add of_nat_mult)
qed

lemma locWithHeader_block:
  assumes "h < B" and "r < B - h"
  shows "locWithHeader (int (j * (B - h) + r)) (int B) (int h) = int (j * B + (if r = 0 then 0 else h + r))"
proof -
  have "(j * (B - h) + r) div (B - h) = j" "(j * (B - h) + r) mod (B - h) = r" using assms by simp_all
  moreover have "j * (B - h) + j * h = j * B"
    using assms(1) by (metis add_mult_distrib2 le_add_diff_inverse2 less_imp_le)
  ultimately show ?thesis
    unfolding locWithHeader_nat [OF assms(1)] by (auto simp: add_mult_distrib simp del: of_nat_add of_nat_mult)
qed

lemma locWithoutHeader_block:
  assumes "h < B" and "r < B" and "r = 0 \<or> h < r"
  shows "locWithoutHeader (int (j * B + r)) (int B) (int h) = int (j * (B - h) + (r - h))"
proof -
  have "roundUpDivide (int (j * B + r)) (int B) = int (j + (if r = 0 then 0 else 1))"
    using roundUpDivide_nat [of B "j * B + r"] assms by simp
  moreover have jB: "j * (B - h) + j * h = j * B"
    using assms(1) by (metis add_mult_distrib2 le_add_diff_inverse2 less_imp_le)
  moreover have "int (j * B + r) - int (j + (if r = 0 then 0 else 1)) * int h = int (j * (B - h) + (r - h))"
  proof (cases "r = 0")
    case True
    have "int (j * B) - int (j * h) = int (j * (B - h))" using jB by (metis add_diff_cancel_right' of_nat_add)
    then show ?thesis using True by simp
  next
    case False
    then have "h < r" using assms(3) by simp
    then have "int (r - h) = int r - int h" by simp
    moreover have "int (j * B) - int (j * h) = int (j * (B - h))" using jB by (metis add_diff_cancel_right' of_nat_add)
    ultimately show ?thesis using False by (simp add: distrib_right)
  qed
  ultimately show ?thesis unfolding locWithoutHeader_def Let_def by simp
qed

subsection \<open>What a stored file says\<close>

abbreviation mac_full :: "'k FSConfig \<Rightarrow> nat" where
  "mac_full cfg \<equiv> mac_blockSize cfg + mac_headerSize cfg"

definition mac_ok :: "'k FSConfig \<Rightarrow> bytes \<Rightarrow> bool" where
  "mac_ok cfg x \<longleftrightarrow> macBytesOf cfg = 0 \<or>
     (case vt_MAC_64 (fs_cipher cfg) (drop (macBytesOf cfg) x) (fs_key cfg) None of
        Inl e \<Rightarrow> False
      | Inr (mac, iv) \<Rightarrow> take (macBytesOf cfg) x = mac_bytes (macBytesOf cfg) mac)"

definition mac_plain :: "'k FSConfig \<Rightarrow> bytes \<Rightarrow> bytes" where
  "mac_plain cfg raw = mapBlocks (mac_full cfg) (\<lambda>k x. drop (mac_headerSize cfg) x) 0 raw"

definition mac_wf :: "'k FSConfig \<Rightarrow> bytes \<Rightarrow> bool" where
  "mac_wf cfg raw \<longleftrightarrow>
     (length raw mod mac_full cfg = 0 \<or> mac_headerSize cfg < length raw mod mac_full cfg) \<and>
     allBlocks (mac_full cfg) (\<lambda>k x. mac_ok cfg x) 0 raw"

definition mio_inv :: "'k FSConfig \<Rightarrow> ('s \<Rightarrow> bool) \<Rightarrow> ('s \<Rightarrow> bytes) \<Rightarrow> nat \<times> 's \<Rightarrow> bool" where
  "mio_inv cfg binv bcontent = (\<lambda>(i, s). binv s \<and> mac_wf cfg (bcontent s))"

definition mio_content :: "'k FSConfig \<Rightarrow> ('s \<Rightarrow> bytes) \<Rightarrow> nat \<times> 's \<Rightarrow> bytes" where
  "mio_content cfg bcontent = (\<lambda>(i, s). mac_plain cfg (bcontent s))"

lemma length_mac_bytes [simp]: "length (mac_bytes n m) = n"
  by (simp add: mac_bytes_def)

locale mac_file =
  base: trunc_file base binv bcontent bsafe + cipher: cipher_laws "fs_cipher cfg" key_ok
  for cfg :: "'k FSConfig" and base :: "'s fileio" and binv :: "'s \<Rightarrow> bool"
    and bcontent :: "'s \<Rightarrow> bytes" and bsafe :: "'s \<Rightarrow> nat \<Rightarrow> bool" and key_ok :: "'k \<Rightarrow> bool" +
  assumes key: "key_ok (fs_key cfg)"
    and block_gt: "1 < dataBlockSize cfg"
    and no_holes: "\<not> c_allowHoles (fs_config cfg)"
    and randomize_works: "fst (vt_randomize (fs_cipher cfg) n False i)"
    and base_safe: "binv s \<Longrightarrow> length (bcontent s) \<le> n \<or> \<not> mac_full cfg dvd n \<Longrightarrow> bsafe s n"
begin

abbreviation h :: nat where "h \<equiv> mac_headerSize cfg"
abbreviation b :: nat where "b \<equiv> mac_blockSize cfg"
abbreviation B :: nat where "B \<equiv> mac_full cfg"

lemma b_gt: "1 < b"
  using block_gt by (simp add: mac_blockSize_def)

lemma coding: "block_coding B b (\<lambda>k x. drop h x) (\<lambda>n. n - h)"
  using b_gt by unfold_locales auto

lemma plain_block:
  "take b (drop (j * b) (mac_plain cfg raw)) =
     (if j * B < length raw then drop h (take B (drop (j * B) raw)) else [])"
  using block_coding.block_map [OF coding, of j 0 raw] by (simp only: mac_plain_def)

lemma length_plain: "length (mac_plain cfg raw) = length raw div B * b + (length raw mod B - h)"
  using block_coding.length_map [OF coding, of 0 raw] by (simp only: mac_plain_def)

lemma plain_put:
  assumes "j * B \<le> length raw" and "e \<noteq> []" and "length e \<le> B"
    and "length e = B \<or> length raw \<le> j * B + length e"
  shows "mac_plain cfg (put (j * B) e raw) = put (j * b) (drop h e) (mac_plain cfg raw)"
  using block_coding.map_put [OF coding assms] by (simp only: mac_plain_def)

lemma plain_take:
  "j * B \<le> length raw \<Longrightarrow> mac_plain cfg (take (j * B) raw) = take (j * b) (mac_plain cfg raw)"
  using block_coding.map_take [OF coding] by (simp only: mac_plain_def)

lemma loc_block:
  assumes "r < b"
  shows "nat (locWithHeader (int (j * b + r)) (int B) (int h)) = j * B + (if r = 0 then 0 else h + r)"
proof -
  have e: "B - h = b" and "h < B" using b_gt by simp_all
  then show ?thesis using locWithHeader_block [of h B r j] assms by (simp only: e nat_int)
qed

lemma loc_block0: "nat (locWithHeader (int (j * b)) (int B) (int h)) = j * B"
  using loc_block [of 0 j] b_gt by simp

text \<open>The stored length for a length of the contents.\<close>

lemma wf_length:
  assumes "mac_wf cfg raw"
  shows "locWithoutHeader (int (length raw)) (int B) (int h) = int (length (mac_plain cfg raw))"
    and "nat (locWithHeader (int (length (mac_plain cfg raw))) (int B) (int h)) = length raw"
proof -
  define q where "q = length raw div B"
  define r where "r = length raw mod B"
  have L: "length raw = q * B + r" by (simp only: q_def r_def div_mult_mod_eq)
  have rB: "r < B" using b_gt by (simp add: r_def)
  have r: "r = 0 \<or> h < r" using assms by (simp add: mac_wf_def r_def)
  have lp: "length (mac_plain cfg raw) = q * b + (r - h)" by (simp add: length_plain q_def r_def)
  show "locWithoutHeader (int (length raw)) (int B) (int h) = int (length (mac_plain cfg raw))"
  proof -
    have e: "B - h = b" "h < B" using b_gt by simp_all
    show ?thesis
      unfolding lp L using locWithoutHeader_block [of h B r q] rB r e(2) by (simp only: e(1))
  qed
  have "r - h < b" using rB b_gt by linarith
  then show "nat (locWithHeader (int (length (mac_plain cfg raw))) (int B) (int h)) = length raw"
    unfolding lp L loc_block [OF \<open>r - h < b\<close>] using r by auto
qed

lemma stored_offset:
  assumes "j * b \<le> length (mac_plain cfg raw)"
  shows "j * B \<le> length raw" and "length (mac_plain cfg raw) \<le> j * b + m \<Longrightarrow> m < b \<Longrightarrow> length raw \<le> j * B + (h + m)"
proof -
  define q where "q = length raw div B"
  define r where "r = length raw mod B"
  have L: "length raw = q * B + r" by (simp only: q_def r_def div_mult_mod_eq)
  have rb: "r - h < b"
  proof -
    have "r < b + h" using b_gt by (simp add: r_def)
    then show ?thesis using b_gt by linarith
  qed
  have lp: "length (mac_plain cfg raw) = q * b + (r - h)" by (simp only: length_plain q_def r_def)
  have "j * b < (q + 1) * b" using assms rb by (simp only: lp add_mult_distrib)
  then have "j < q + 1" by (simp only: mult_less_cancel2)
  then have jq: "j \<le> q" by simp
  then have "j * B \<le> q * B" by simp
  then show "j * B \<le> length raw" using L by linarith
  assume a: "length (mac_plain cfg raw) \<le> j * b + m" "m < b"
  have "\<not> j < q"
  proof
    assume "j < q"
    then have "(j + 1) * b \<le> q * b" by (intro mult_le_mono1) simp
    then show False using a by (simp only: lp add_mult_distrib)
  qed
  then have "j = q" using jq by simp
  then show "length raw \<le> j * B + (h + m)" using a(1) L by (simp only: lp)
qed

subsection \<open>The one-block functions\<close>

lemma getSize_block:
  assumes "mio_inv cfg binv bcontent cs"
  shows "returns (mac_getSize cfg base) cs (\<lambda>n cs'. n = int (length (mio_content cfg bcontent cs)) \<and>
     mio_inv cfg binv bcontent cs' \<and> mio_content cfg bcontent cs' = mio_content cfg bcontent cs)"
proof -
  obtain i s where cs: "cs = (i, s)" by (cases cs)
  have i: "binv s" "mac_wf cfg (bcontent s)" using assms by (auto simp: mio_inv_def cs)
  have "mac_plain cfg [] = []" by (simp add: mac_plain_def)
  then show ?thesis
    unfolding mac_getSize_def Let_def cs returns_sbind returns_onSnd
    by (intro returns_mono [OF base.getSize_ok [OF i(1)]])
       (use i wf_length(1) [OF i(2)] in \<open>auto simp: mio_inv_def mio_content_def\<close>)
qed

lemma mac_okE:
  assumes "mac_ok cfg x"
  shows "macBytesOf cfg = 0 \<or> (\<exists>mac iv. vt_MAC_64 (fs_cipher cfg) (drop (macBytesOf cfg) x) (fs_key cfg) None = Inr (mac, iv) \<and>
     take (macBytesOf cfg) x = mac_bytes (macBytesOf cfg) mac)"
  using assms by (auto simp: mac_ok_def split: sum.splits)

lemma readOne_block:
  assumes "mio_inv cfg binv bcontent cs" and "b dvd off"
  shows "returns (mac_readOneBlock cfg base off b) cs
     (\<lambda>r cs'. r = Some (take b (drop off (mio_content cfg bcontent cs))) \<and>
        mio_inv cfg binv bcontent cs' \<and> mio_content cfg bcontent cs' = mio_content cfg bcontent cs)"
proof -
  obtain i s where cs: "cs = (i, s)" by (cases cs)
  obtain j where off: "off = j * b" using assms(2) by (auto simp: dvd_def mult.commute)
  have i: "binv s" "mac_wf cfg (bcontent s)" using assms(1) by (auto simp: mio_inv_def cs)
  define x where "x = take B (drop (j * B) (bcontent s))"
  have blk: "take b (drop off (mio_content cfg bcontent cs)) = (if x = [] then [] else drop h x)"
    using plain_block [of j "bcontent s"] b_gt by (auto simp: mio_content_def cs off x_def)
  have x: "x = [] \<or> h < length x \<and> mac_ok cfg x"
  proof (cases "j * B < length (bcontent s)")
    case True
    have "mac_ok cfg x"
      unfolding x_def using allBlocks_nth [of B _ 0 "bcontent s" j] True i(2) b_gt by (auto simp: mac_wf_def)
    moreover have "h < length x"
    proof (cases "B \<le> length (bcontent s) - j * B")
      case True
      then show ?thesis using b_gt by (simp add: x_def)
    next
      case False
      then have lt: "length (bcontent s) - j * B < B" by simp
      have "length (bcontent s) = (length (bcontent s) - j * B) + j * B" using True by simp
      then have "length (bcontent s) mod B = length (bcontent s) - j * B"
        using lt by (metis mod_less mod_mult_self1)
      then have "h < length (bcontent s) - j * B" using i(2) True by (auto simp: mac_wf_def)
      then show ?thesis using False by (simp add: x_def)
    qed
    ultimately show ?thesis by simp
  qed (simp add: x_def)
  have rd: "returns (onSnd (fio_read base (nat (locWithHeader (int off) (int B) (int h))) (h + b))) (i, s)
      (\<lambda>r cs'. r = Some x \<and> mio_inv cfg binv bcontent cs' \<and> mio_content cfg bcontent cs' = mio_content cfg bcontent cs)"
    unfolding off loc_block0 returns_onSnd
    by (rule returns_mono [OF base.read_ok [OF i(1)]])
       (use i in \<open>auto simp: mio_inv_def mio_content_def cs x_def add.commute\<close>)
  show ?thesis
    unfolding mac_readOneBlock_def Let_def cs
    unfolding returns_sbind [of "onSnd _"]
  proof (rule returns_mono [OF rd], elim conjE)
    fix r cs' assume c: "r = Some x" "mio_inv cfg binv bcontent cs'"
      "mio_content cfg bcontent cs' = mio_content cfg bcontent cs"
    show "returns (if h < length (case r of None \<Rightarrow> [] | Some d \<Rightarrow> d)
        then sbind (if \<not> (if c_allowHoles (fs_config cfg)
              then list_all (\<lambda>x. x = 0) (case r of None \<Rightarrow> [] | Some d \<Rightarrow> d) else \<not> 0 < macBytesOf cfg)
            then sbind (sres (vt_MAC_64 (fs_cipher cfg) (drop (macBytesOf cfg) (case r of None \<Rightarrow> [] | Some d \<Rightarrow> d)) (fs_key cfg) None))
              (\<lambda>(mac, iv). if take (macBytesOf cfg) (case r of None \<Rightarrow> [] | Some d \<Rightarrow> d) \<noteq> mac_bytes (macBytesOf cfg) mac \<and> \<not> warnOnly cfg
                 then sthrow MacMismatch else sret ())
            else sret ()) (\<lambda>_. sret (Some (drop h (case r of None \<Rightarrow> [] | Some d \<Rightarrow> d))))
        else sret (case r of None \<Rightarrow> None | Some d \<Rightarrow> Some [])) cs'
      (\<lambda>r cs'. r = Some (take b (drop off (mio_content cfg bcontent (i, s)))) \<and>
        mio_inv cfg binv bcontent cs' \<and> mio_content cfg bcontent cs' = mio_content cfg bcontent (i, s))"
    proof (cases "x = []")
      case True
      then show ?thesis using c blk by (simp add: cs)
    next
      case False
      then have hx: "h < length x" "mac_ok cfg x" using x by auto
      then show ?thesis using mac_okE [OF hx(2)] c blk False no_holes by (auto simp: wp cs)
    qed
  qed
qed

text \<open>The stored bytes after writing a block, which may also lie inside the file.\<close>

lemma writeOne_raw:
  assumes "binv s" and "b dvd off" and "d \<noteq> []" and "length d \<le> b"
  shows "returns (mac_writeOneBlock cfg base off d) (i, s) (\<lambda>ok (i', s'). ok \<and> binv s' \<and>
     (\<exists>e. length e = h + length d \<and> drop h e = d \<and> mac_ok cfg e \<and>
          bcontent s' = put (off div b * B) e (bcontent s)))"
proof -
  let ?m = "macBytesOf cfg" and ?n = "randBytesOf cfg"
  obtain j where off: "off = j * b" "off div b = j" using assms(2) b_gt by (auto simp: dvd_def mult.commute)
  define F :: "bytes \<Rightarrow> ('s, bool) mm" where "F = (\<lambda>rnd.
      sbind (if ?m > 0
                     then sbind (sres (vt_MAC_64 (fs_cipher cfg) (rnd @ d) (fs_key cfg) None)) (\<lambda>(mac, iv).
                          sret (mac_bytes ?m mac))
                     else sret []) (\<lambda>macb.
              onSnd (fio_write base (nat (locWithHeader (int off) (int B) (int h))) (macb @ rnd @ d))))"
  have eq: "mac_writeOneBlock cfg base off d =
      sbind (if ?n > 0
             then sbind (sget fst) (\<lambda>i. sbind (smod (apfst (\<lambda>i. i + 1))) (\<lambda>_.
                  sret (vt_randomize (fs_cipher cfg) ?n False i)))
             else sret (True, [])) (\<lambda>(ok, rnd). if \<not> ok then sret False else F rnd)"
    by (simp only: mac_writeOneBlock_def Let_def F_def)
  have fin: "returns (F rnd) (i', s)
      (\<lambda>ok (i', s'). ok \<and> binv s' \<and>
     (\<exists>e. length e = h + length d \<and> drop h e = d \<and> mac_ok cfg e \<and>
          bcontent s' = put (off div b * B) e (bcontent s)))"
    if rnd: "length rnd = ?n" for rnd i'
  proof -
    have wr: "returns (fio_write base (j * B) (macb @ rnd @ d)) s (\<lambda>ok s'. ok \<and> binv s' \<and>
       (\<exists>e. length e = h + length d \<and> drop h e = d \<and> mac_ok cfg e \<and> bcontent s' = put (off div b * B) e (bcontent s)))"
      if macb: "length macb = ?m" "mac_ok cfg (macb @ rnd @ d)" for macb
    proof -
      define e where "e = macb @ rnd @ d"
      have ne: "e \<noteq> []" using assms(3) by (simp add: e_def)
      have "length e = h + length d" "drop h e = d" "mac_ok cfg e"
        using macb rnd by (simp_all add: mac_headerSize_def e_def)
      then show ?thesis
        unfolding e_def [symmetric] off(2)
        by (intro returns_mono [OF base.write_ok [OF assms(1) ne]]) blast
    qed
    show ?thesis
    proof (cases "?m > 0")
      case True
      have "rnd @ d \<noteq> []" using assms(3) by simp
      then obtain mac iv where mac: "vt_MAC_64 (fs_cipher cfg) (rnd @ d) (fs_key cfg) None = Inr (mac, iv)"
        using cipher.mac_total [OF key, of "rnd @ d" None] by blast
      then have "mac_ok cfg (mac_bytes ?m mac @ rnd @ d)" by (simp add: mac_ok_def)
      then show ?thesis
        using wr [of "mac_bytes ?m mac"] True mac
        by (simp add: F_def returns_sbind returns_sres returns_onSnd off(1) loc_block0 del: of_nat_add of_nat_mult)
    next
      case False
      then have "mac_ok cfg ([] @ rnd @ d)" by (simp add: mac_ok_def)
      then show ?thesis
        using wr [of "[]"] False
        by (simp add: F_def returns_sbind returns_onSnd off(1) loc_block0 del: of_nat_add of_nat_mult)
    qed
  qed
  show ?thesis
  proof (cases "?n > 0")
    case True
    obtain ok rnd where r: "vt_randomize (fs_cipher cfg) ?n False i = (ok, rnd)" by (cases "vt_randomize (fs_cipher cfg) ?n False i")
    then have "ok" "length rnd = ?n"
      using randomize_works [of ?n i] cipher.randomize_length [of ?n False i] by auto
    then show ?thesis
      unfolding eq using True r fin by (simp add: returns_sbind)
  next
    case False
    then show ?thesis
      unfolding eq using fin [of "[]"] by (simp add: returns_sbind)
  qed
qed

lemma wf_put:
  assumes "mac_wf cfg raw" and "j * b \<le> length (mac_plain cfg raw)" and "length e = h + length d"
    and "drop h e = d" and "mac_ok cfg e" and "d \<noteq> []" and "length d \<le> b"
    and "length d = b \<or> length (mac_plain cfg raw) \<le> j * b + length d"
  shows "mac_wf cfg (put (j * B) e raw)" and "mac_plain cfg (put (j * B) e raw) = put (j * b) d (mac_plain cfg raw)"
proof -
  have ne: "e \<noteq> []" and eB: "length e \<le> B" using assms(3,6,7) by auto
  have jB: "j * B \<le> length raw" using stored_offset(1) [OF assms(2)] .
  have full: "length e = B \<or> length raw \<le> j * B + length e"
  proof (cases "length d = b")
    case False
    then have "length d < b" "length (mac_plain cfg raw) \<le> j * b + length d" using assms(7,8) by auto
    then show ?thesis using stored_offset(2) [OF assms(2)] assms(3) by simp
  qed (use assms(3) in simp)
  have B0: "0 < B" using b_gt by simp
  have "allBlocks B (\<lambda>k x. mac_ok cfg x) 0 (put (j * B) e raw)"
    using assms(1,5) full by (intro allBlocks_put [OF _ B0 jB ne eB]) (auto simp: mac_wf_def)
  moreover have "length (put (j * B) e raw) mod B = 0 \<or> h < length (put (j * B) e raw) mod B"
  proof (cases "length raw \<le> j * B + length e")
    case True
    then have len: "length (put (j * B) e raw) = length e + j * B" by (simp add: max_def)
    have e: "length e = B \<or> h < length e \<and> length e < B" using eB assms(3,6) by auto
    show ?thesis
    proof (cases "length e = B")
      case True
      then show ?thesis unfolding len by simp
    next
      case False
      then have "(length e + j * B) mod B = length e" using e by simp
      then show ?thesis unfolding len using e False by simp
    qed
  next
    case False
    then have "length (put (j * B) e raw) = length raw" by simp
    then show ?thesis using assms(1) by (simp add: mac_wf_def)
  qed
  ultimately show "mac_wf cfg (put (j * B) e raw)" by (simp add: mac_wf_def)
  show "mac_plain cfg (put (j * B) e raw) = put (j * b) d (mac_plain cfg raw)"
    using plain_put [OF jB ne eB full] assms(4) by simp
qed

lemma writeOne_block:
  assumes "mio_inv cfg binv bcontent cs" and "b dvd off" and "off \<le> length (mio_content cfg bcontent cs)"
    and "d \<noteq> []" and "length d \<le> b"
    and "length d = b \<or> length (mio_content cfg bcontent cs) \<le> off + length d"
  shows "returns (mac_writeOneBlock cfg base off d) cs (\<lambda>ok cs'. ok \<and> mio_inv cfg binv bcontent cs' \<and>
     mio_content cfg bcontent cs' = put off d (mio_content cfg bcontent cs))"
proof -
  obtain i s where cs: "cs = (i, s)" by (cases cs)
  have inv: "binv s" "mac_wf cfg (bcontent s)" using assms(1) by (auto simp: mio_inv_def cs)
  define j where "j = off div b"
  have off: "off = j * b" using assms(2) by (simp add: j_def)
  show ?thesis
    unfolding cs
  proof (rule returns_mono [OF writeOne_raw [OF inv(1) assms(2,4,5)]], goal_cases)
    case (1 ok cs')
    then obtain i' s' e where w: "cs' = (i', s')" "ok" "binv s'" "length e = h + length d" "drop h e = d"
        "mac_ok cfg e" "bcontent s' = put (j * B) e (bcontent s)"
      by (cases cs') (auto simp: j_def)
    have lp: "j * b \<le> length (mac_plain cfg (bcontent s))"
        "length d = b \<or> length (mac_plain cfg (bcontent s)) \<le> j * b + length d"
      using assms(3,6) by (simp_all add: mio_content_def cs off)
    note p = wf_put [OF inv(2) lp(1) w(4-6) assms(4,5) lp(2)]
    show ?case using w p by (simp add: mio_inv_def mio_content_def off)
  qed
qed

lemma mac_layer: "block_layer (mac_block cfg base) (mio_inv cfg binv bcontent) (mio_content cfg bcontent)"
  using b_gt by unfold_locales
     (simp_all add: mac_block_def no_holes getSize_block readOne_block writeOne_block)

abbreviation cutf :: "nat \<Rightarrow> (nat \<times> 's, int) sm" where
  "cutf \<equiv> \<lambda>n. onSnd (fio_truncate base (nat (locWithHeader (int n) (int B) (int h))))"

lemma mac_trunc: "block_trunc (mac_block cfg base) (mio_inv cfg binv bcontent) (mio_content cfg bcontent) cutf"
proof (intro block_trunc.intro block_trunc_axioms.intro mac_layer)
  fix cs assume a: "mio_inv cfg binv bcontent cs"
  obtain i s where cs: "cs = (i, s)" by (cases cs)
  have inv: "binv s" "mac_wf cfg (bcontent s)" using a by (auto simp: mio_inv_def cs)
  have loc: "nat (locWithHeader (int (length (mio_content cfg bcontent cs))) (int B) (int h)) = length (bcontent s)"
    using wf_length(2) [OF inv(2)] by (simp add: mio_content_def cs)
  have "returns (fio_truncate base (length (bcontent s))) s (\<lambda>r s'. r = 0 \<and> binv s' \<and> bcontent s' = bcontent s)"
    using base.truncate_ok [OF inv(1) base_safe [OF inv(1)], of "length (bcontent s)"] by simp
  then show "returns (cutf (length (mio_content cfg bcontent cs))) cs
      (\<lambda>_ cs'. mio_inv cfg binv bcontent cs' \<and> mio_content cfg bcontent cs' = mio_content cfg bcontent cs)"
    unfolding loc unfolding cs returns_onSnd
    by (rule returns_mono) (use inv in \<open>auto simp: mio_inv_def mio_content_def\<close>)
next
  fix cs off and d :: bytes
  assume a: "mio_inv cfg binv bcontent cs" "bf_blockSize (mac_block cfg base) dvd off" "d \<noteq> []"
    "length d < bf_blockSize (mac_block cfg base)" "off + length d < length (mio_content cfg bcontent cs)"
  obtain i s where cs: "cs = (i, s)" by (cases cs)
  have inv: "binv s" "mac_wf cfg (bcontent s)" using a(1) by (auto simp: mio_inv_def cs)
  have d: "b dvd off" "length d < b" "length d \<le> b" using a(2,4) by (auto simp: mac_block_def)
  define j where "j = off div b"
  have off: "off = j * b" using d(1) by (simp add: j_def)
  define Y where "Y = take (j * B) (bcontent s)"
  have jb: "j * b \<le> length (mac_plain cfg (bcontent s))"
    using a(5) by (simp add: mio_content_def cs off)
  then have jB: "j * B \<le> length (bcontent s)" by (rule stored_offset(1))
  have Y: "mac_wf cfg Y" "mac_plain cfg Y = take off (mac_plain cfg (bcontent s))" "length Y = j * B"
    using inv(2) allBlocks_take [of B _ 0 "bcontent s" j] jB b_gt plain_take [OF jB]
    by (auto simp: mac_wf_def Y_def off)
  have lenY: "length (mac_plain cfg Y) = j * b" using jb by (simp add: Y(2) off)
  have n: "nat (locWithHeader (int (off + length d)) (int B) (int h)) = j * B + (h + length d)"
    using loc_block [OF d(2), of j] a(3) by (simp only: off length_0_conv if_False)
  have nd: "\<not> B dvd j * B + (h + length d)"
  proof
    assume "B dvd j * B + (h + length d)"
    then have "B dvd h + length d" by (metis dvd_add_right_iff dvd_triv_right)
    then have "B \<le> h + length d" using a(3) by (intro dvd_imp_le) auto
    then show False using d(2) by simp
  qed
  have fin: "returns (sbind (cutf (off + length d)) (\<lambda>_. sret True)) (i1, s1)
      (\<lambda>ok cs'. ok \<and> mio_inv cfg binv bcontent cs' \<and>
         mio_content cfg bcontent cs' = take off (mio_content cfg bcontent cs) @ d)"
    if w: "binv s1" "length e = h + length d" "drop h e = d" "mac_ok cfg e" "bcontent s1 = put (j * B) e (bcontent s)"
    for i1 s1 e
  proof -
    have lp: "j * b \<le> length (mac_plain cfg Y)" "length d = b \<or> length (mac_plain cfg Y) \<le> j * b + length d"
      by (simp_all add: lenY)
    note p = wf_put [OF Y(1) lp(1) w(2-4) a(3) d(3) lp(2)]
    have "resize (j * B + (h + length d)) (put (j * B) e (bcontent s)) = put (j * B) e Y"
      using jB w(2) by (simp add: resize_def put_def Y_def min_absorb1 min_absorb2)
    moreover have "put (j * b) d (mac_plain cfg Y) = take off (mac_plain cfg (bcontent s)) @ d"
      using lenY jb by (simp add: put_def Y(2) off)
    ultimately have "returns (fio_truncate base (j * B + (h + length d))) s1 (\<lambda>r s'. r = 0 \<and> binv s' \<and>
        mac_wf cfg (bcontent s') \<and> mac_plain cfg (bcontent s') = take off (mac_plain cfg (bcontent s)) @ d)"
      by (intro returns_mono [OF base.truncate_ok [OF w(1) base_safe [OF w(1)]]])
         (use nd p w(5) in auto)
    then show ?thesis
      unfolding returns_sbind returns_onSnd n
      by (rule returns_mono) (auto simp: mio_inv_def mio_content_def cs)
  qed
  show "returns (sbind (bf_writeOneBlock (mac_block cfg base) off d) (\<lambda>ok. sbind (cutf (off + length d)) (\<lambda>_. sret ok))) cs
      (\<lambda>ok cs'. ok \<and> mio_inv cfg binv bcontent cs' \<and>
         mio_content cfg bcontent cs' = take off (mio_content cfg bcontent cs) @ d)"
    unfolding cs mac_block_def block_file.simps returns_sbind [of "mac_writeOneBlock cfg base off d"]
  proof (rule returns_mono [OF writeOne_raw [OF inv(1) d(1) a(3) d(3)]], goal_cases)
    case (1 ok cs')
    then obtain i' s' e where "cs' = (i', s')" "ok" "binv s'" "length e = h + length d" "drop h e = d"
        "mac_ok cfg e" "bcontent s' = put (j * B) e (bcontent s)"
      by (cases cs') (auto simp: j_def)
    then show ?case using fin cs by auto
  qed
qed

end

text \<open>The invariant and the contents of the object with its cache.\<close>

definition mac_inv ::
  "'k FSConfig \<Rightarrow> ('s \<Rightarrow> bool) \<Rightarrow> ('s \<Rightarrow> bytes) \<Rightarrow> iorequest \<times> nat \<times> 's \<Rightarrow> bool" where
  "mac_inv cfg binv bcontent = block_inv (mac_blockSize cfg) (mio_inv cfg binv bcontent) (mio_content cfg bcontent)"

definition mac_content :: "'k FSConfig \<Rightarrow> ('s \<Rightarrow> bytes) \<Rightarrow> iorequest \<times> nat \<times> 's \<Rightarrow> bytes" where
  "mac_content cfg bcontent = block_content (mio_content cfg bcontent)"

sublocale mac_file \<subseteq> layer: block_trunc "mac_block cfg base" "mio_inv cfg binv bcontent" "mio_content cfg bcontent"
    "\<lambda>n. onSnd (fio_truncate base (nat (locWithHeader (int n) (int (mac_full cfg)) (int (mac_headerSize cfg)))))"
  by (rule mac_trunc)

sublocale mac_file \<subseteq> dec: block_coding "mac_full cfg" "mac_blockSize cfg" "\<lambda>k x. drop (mac_headerSize cfg) x"
    "\<lambda>n. n - mac_headerSize cfg"
  by (rule coding)

context mac_file
begin

lemma mac_block_bs [simp]: "bf_blockSize (mac_block cfg base) = mac_blockSize cfg"
  by (simp add: mac_block_def)

lemma open_file:
  assumes "mac_inv cfg binv bcontent cs"
  shows "returns (onSnd (onSnd (fio_open base flags))) cs (\<lambda>r cs'. 0 \<le> r \<and>
     mac_inv cfg binv bcontent cs' \<and> mac_content cfg bcontent cs' = mac_content cfg bcontent cs)"
proof -
  obtain c i s where cs: "cs = (c, i, s)" by (cases cs) auto
  have i: "binv s" using assms by (auto simp: mac_inv_def block_inv_def mio_inv_def cs)
  show ?thesis
    unfolding cs returns_onSnd
    by (rule returns_mono [OF base.open_ok [OF i]])
       (use assms in \<open>auto simp: cs mac_inv_def mac_content_def block_inv_def block_content_def
          mio_inv_def mio_content_def\<close>)
qed

text \<open>The object is a byte string for the layer above it.\<close>

lemma mac_trunc_file:
  "trunc_file (MACFileIO cfg base) (mac_inv cfg binv bcontent) (mac_content cfg bcontent)
     (\<lambda>cs n. length (mac_content cfg bcontent cs) \<le> n \<or> \<not> mac_blockSize cfg dvd n)"
proof
  note fold_defs = mac_inv_def [symmetric] mac_content_def [symmetric]
  show "returns (fio_read (MACFileIO cfg base) off len) cs
      (\<lambda>r cs'. r = Some (take len (drop off (mac_content cfg bcontent cs))) \<and>
        mac_inv cfg binv bcontent cs' \<and> mac_content cfg bcontent cs' = mac_content cfg bcontent cs)"
    if "mac_inv cfg binv bcontent cs" for cs off len
    using layer.read_ok [unfolded mac_block_bs fold_defs, OF that] by (simp add: MACFileIO_def)
  show "returns (fio_write (MACFileIO cfg base) off d) cs
      (\<lambda>ok cs'. ok \<and> mac_inv cfg binv bcontent cs' \<and>
        mac_content cfg bcontent cs' = put off d (mac_content cfg bcontent cs))"
    if "mac_inv cfg binv bcontent cs" "d \<noteq> []" for cs off d
    using layer.write_ok [unfolded mac_block_bs fold_defs, OF that] by (simp add: MACFileIO_def)
  show "fio_isWritable (MACFileIO cfg base) cs" if "mac_inv cfg binv bcontent cs" for cs
    using that base.writable by (auto simp: MACFileIO_def mac_inv_def block_inv_def mio_inv_def)
  show "returns (fio_open (MACFileIO cfg base) flags) cs (\<lambda>r cs'. 0 \<le> r \<and>
     mac_inv cfg binv bcontent cs' \<and> mac_content cfg bcontent cs' = mac_content cfg bcontent cs)"
    if "mac_inv cfg binv bcontent cs" for cs flags
    using open_file [OF that] by (simp add: MACFileIO_def)
  show "returns (fio_getSize (MACFileIO cfg base)) cs (\<lambda>n cs'. n = int (length (mac_content cfg bcontent cs)) \<and>
     mac_inv cfg binv bcontent cs' \<and> mac_content cfg bcontent cs' = mac_content cfg bcontent cs)"
    if "mac_inv cfg binv bcontent cs" for cs
    using layer.size_ok [unfolded mac_block_bs fold_defs, OF that] by (simp add: MACFileIO_def mac_block_def)
  show "returns (fio_truncate (MACFileIO cfg base) n) cs (\<lambda>r cs'. r = 0 \<and>
     mac_inv cfg binv bcontent cs' \<and> mac_content cfg bcontent cs' = resize n (mac_content cfg bcontent cs))"
    if "mac_inv cfg binv bcontent cs"
      "length (mac_content cfg bcontent cs) \<le> n \<or> \<not> mac_blockSize cfg dvd n" for cs n
    using layer.truncate_and_cut_ok [unfolded mac_block_bs fold_defs, OF that]
    by (simp add: MACFileIO_def mac_truncate_def truncate_and_cut_def Let_def del: of_nat_add)
qed

end

subsection \<open>The stack of a volume\<close>

text \<open>Block headers over encryption over the disk.\<close>

lemma mac_over_cipher:
  assumes "cipher_trunc cfg base binv bcontent key_ok bsafe" and "1 < dataBlockSize cfg"
    and "0 \<le> c_blockMACBytes (fs_config cfg)" and "0 \<le> c_blockMACRandBytes (fs_config cfg)"
  shows "mac_file cfg (CipherFileIO cfg base) (cipher_inv cfg binv bcontent) (cipher_content cfg bcontent)
    (\<lambda>cs n. length (cipher_content cfg bcontent cs) \<le> n \<or> \<not> cio_blockSize cfg dvd n) key_ok"
proof -
  note f = cipher_trunc.axioms(1) [OF assms(1)]
  note r = cipher_file.axioms(2) [OF f]
  have full: "mac_full cfg = cio_blockSize cfg"
    using assms(2-4) by (simp add: mac_blockSize_def mac_headerSize_def cio_blockSize_def macBytesOf_def
        randBytesOf_def dataBlockSize_def)
  show ?thesis
  proof (intro mac_file.intro mac_file_axioms.intro)
    show "trunc_file (CipherFileIO cfg base) (cipher_inv cfg binv bcontent) (cipher_content cfg bcontent)
        (\<lambda>cs n. length (cipher_content cfg bcontent cs) \<le> n \<or> \<not> cio_blockSize cfg dvd n)"
      by (rule cipher_trunc.cipher_trunc_file [OF assms(1)])
    show "cipher_laws (fs_cipher cfg) key_ok" by (rule cipher_random.axioms(1) [OF r])
    show "key_ok (fs_key cfg)" by (rule cipher_file.key [OF f])
    show "\<not> c_allowHoles (fs_config cfg)" by (rule cipher_file.no_holes [OF f])
    show "fst (vt_randomize (fs_cipher cfg) n False i)" for n i by (rule cipher_random.randomize_works [OF r])
  qed (use assms(2) full in simp_all)
qed

definition vol_inv :: "'k FSConfig \<Rightarrow> bytes \<Rightarrow> int \<Rightarrow> ('o \<Rightarrow> bool) \<Rightarrow> ('o \<Rightarrow> bytes) \<Rightarrow>
    iorequest \<times> nat \<times> iorequest \<times> cipherio \<times> rawfile \<times> 'o \<Rightarrow> bool" where
  "vol_inv cfg name fd good data = mac_inv cfg (enc_inv cfg name fd good data) (enc_content cfg data)"

definition vol_content :: "'k FSConfig \<Rightarrow> ('o \<Rightarrow> bytes) \<Rightarrow>
    iorequest \<times> nat \<times> iorequest \<times> cipherio \<times> rawfile \<times> 'o \<Rightarrow> bytes" where
  "vol_content cfg data = mac_content cfg (enc_content cfg data)"

definition mac_sample_cfg :: "sslkey FSConfig" where
  "mac_sample_cfg = sample_cfg\<lparr>fs_config := (fs_config sample_cfg)\<lparr>c_blockSize := 24, c_blockMACBytes := 8,
     c_blockMACRandBytes := 1\<rparr>\<rparr>"

lemma mac_sample_simps [simp]:
  "fs_cipher mac_sample_cfg = SSL_Cipher sample_evp sample_sc" "fs_key mac_sample_cfg = sample_key 7"
  "c_blockSize (fs_config mac_sample_cfg) = 24" "cio_blockSize mac_sample_cfg = 24" "haveHeader mac_sample_cfg"
  "\<not> c_allowHoles (fs_config mac_sample_cfg)" "\<not> fs_reverseEncryption mac_sample_cfg"
  "c_blockMACBytes (fs_config mac_sample_cfg) = 8" "c_blockMACRandBytes (fs_config mac_sample_cfg) = 1"
  "dataBlockSize mac_sample_cfg = 15" "macBytesOf mac_sample_cfg = 8" "randBytesOf mac_sample_cfg = 1"
  "mac_blockSize mac_sample_cfg = 15" "mac_headerSize mac_sample_cfg = 9" "\<not> warnOnly mac_sample_cfg"
  by (simp_all add: mac_sample_cfg_def sample_cfg_def EncFSConfig_new_def cio_blockSize_def haveHeader_def
      dataBlockSize_def macBytesOf_def randBytesOf_def mac_blockSize_def mac_headerSize_def warnOnly_def
      EncFS_Opts_new_def)

interpretation mac_sample: mac_file mac_sample_cfg "CipherFileIO mac_sample_cfg (RawFileIO mem_disk)"
    "cipher_inv mac_sample_cfg (raw_inv name 3 (\<lambda>_. True) (\<lambda>w. w)) ((\<lambda>w. w) \<circ> snd)"
    "cipher_content mac_sample_cfg ((\<lambda>w. w) \<circ> snd)"
    "\<lambda>cs n. length (cipher_content mac_sample_cfg ((\<lambda>w. w) \<circ> snd) cs) \<le> n \<or> \<not> cio_blockSize mac_sample_cfg dvd n"
    "ssl_key_ok sample_sc" for name
  by (rule mac_over_cipher [OF raw_cipher_trunc [OF mem_disk.unix_disk_axioms]])
     (simp_all add: sample_random sample_ok)

subsection \<open>Properties\<close>


text \<open>A new file with block headers.\<close>

definition mac_sample_file :: "iorequest \<times> nat \<times> iorequest \<times> cipherio \<times> rawfile \<times> bytes" where
  "mac_sample_file = (BlockFileIO_cache, 1, sample_file)"

lemma mac_sample_file:
  "vol_inv mac_sample_cfg (lit ''/f'') 3 (\<lambda>_. True) (\<lambda>w. w) mac_sample_file"
  "vol_content mac_sample_cfg (\<lambda>w. w) mac_sample_file = []"
  by (simp_all add: vol_inv_def mac_inv_def enc_inv_def cipher_inv_def block_inv_def cio_inv_def raw_inv_def
      mac_sample_file_def sample_file_def mio_inv_def mac_wf_def RawFileIO_new_def cache_holds_def
      BlockFileIO_cache_def vol_content_def mac_content_def block_content_def mio_content_def mac_plain_def
      enc_content_def cipher_content_def cio_content_def cio_plain_def cio_decode_def)




text \<open>
  hiding the headers undoes inserting them: every offset of the contents has a stored
  offset, which is not smaller and from which it is computed back; later offsets are
  stored later.
\<close>
theorem mac_locations_roundtrip:
  assumes "0 \<le> off" and "0 \<le> headerSize" and "headerSize < blockSize"
  shows "locWithoutHeader (locWithHeader off blockSize headerSize) blockSize headerSize = off \<and>
         off \<le> locWithHeader off blockSize headerSize"
proof -
  obtain n h B where n: "off = int n" "headerSize = int h" "blockSize = int B"
    using assms by (meson zero_le_imp_eq_int order_trans less_imp_le)
  then have h: "h < B" using assms(3) by simp
  define j where "j = n div (B - h)"
  define r where "r = n mod (B - h)"
  have nj: "n = j * (B - h) + r" by (simp only: j_def r_def div_mult_mod_eq)
  have r: "r < B - h" using h by (simp add: r_def)
  have l: "locWithHeader (int n) (int B) (int h) = int (j * B + (if r = 0 then 0 else h + r))"
    unfolding nj by (rule locWithHeader_block [OF h r])
  have m: "(if r = 0 then 0 else h + r) < B" "(if r = 0 then 0 else h + r) = 0 \<or> h < (if r = 0 then 0 else h + r)"
    using r h by auto
  have u: "locWithoutHeader (int (j * B + (if r = 0 then 0 else h + r))) (int B) (int h) = int n"
    unfolding locWithoutHeader_block [OF h m] nj using r by auto
  have "j * (B - h) \<le> j * B" by simp
  then have "j * (B - h) + r \<le> j * B + (if r = 0 then 0 else h + r)" by (rule add_mono) simp
  then have "n \<le> j * B + (if r = 0 then 0 else h + r)" by (simp only: nj)
  then show ?thesis unfolding n l u by (simp only: of_nat_le_iff simp_thms)
qed

theorem mac_locations_roundtrip_witness:
  "locWithoutHeader (locWithHeader 1015 1024 8) 1024 8 = 1015 \<and> 1015 \<le> locWithHeader 1015 1024 8"
  by (rule mac_locations_roundtrip) simp_all

end
