(* ===== verification/FileUtils.thy ===== *)
theory FileUtils
  imports FileIO
begin

text \<open>
  The helpers on paths of \<open>encfs/FileUtils.cpp\<close>.  The two that look at the disk take its
  \<open>lstat\<close>.
\<close>

definition fileExists :: "(bytes \<Rightarrow> 'o \<Rightarrow> (int \<times> stat) \<times> 'o) \<Rightarrow> bytes \<Rightarrow> 'o \<Rightarrow> bool \<times> 'o" where
  "fileExists lstat fileName w = (case lstat fileName w of ((res, buf), w) \<Rightarrow> (res = 0, w))"

definition isDirectory :: "(bytes \<Rightarrow> 'o \<Rightarrow> (int \<times> stat) \<times> 'o) \<Rightarrow> bytes \<Rightarrow> 'o \<Rightarrow> bool \<times> 'o" where
  "isDirectory lstat fileName w =
     (case lstat fileName w of ((res, buf), w) \<Rightarrow> (res = 0 \<and> S_ISDIR (st_mode buf), w))"

definition isalpha_byte :: "byte \<Rightarrow> bool" where
  "isalpha_byte x \<longleftrightarrow> 65 \<le> x \<and> x \<le> 90 \<or> 97 \<le> x \<and> x \<le> 122"

definition isSlash :: "byte \<Rightarrow> bool" where
  "isSlash x \<longleftrightarrow> x = 92 \<or> x = 47"

text \<open>A drive letter with a colon, or a share.\<close>

fun isAbsolutePath :: "bytes \<Rightarrow> bool" where
  "isAbsolutePath (x # y # r) = (isalpha_byte x \<and> y = 58 \<or> isSlash x \<and> isSlash y)"
| "isAbsolutePath _ = False"

text \<open>The length of a path up to its last slash, if it has one.\<close>

definition find_last_slash :: "bytes \<Rightarrow> nat option" where
  "find_last_slash path =
     (if 47 \<in> set path then Some (length path - 1 - length (takeWhile (\<lambda>x. x \<noteq> 47) (rev path))) else None)"

definition lastPathElement :: "bytes \<Rightarrow> bytes" where
  "lastPathElement name = (case find_last_slash name of None \<Rightarrow> name | Some loc \<Rightarrow> drop (loc + 1) name)"

definition parentDirectory :: "bytes \<Rightarrow> bytes" where
  "parentDirectory path = (case find_last_slash path of None \<Rightarrow> [] | Some loc \<Rightarrow> take loc path)"

lemma find_last_slash_append:
  assumes "47 \<notin> set name"
  shows "find_last_slash (dir @ 47 # name) = Some (length dir)"
proof -
  have "takeWhile (\<lambda>x. x \<noteq> 47) (rev name @ [47] @ rev dir) = rev name"
    using assms takeWhile_append2 [of "rev name" "\<lambda>x. x \<noteq> 47" "[47] @ rev dir"] by fastforce
  then show ?thesis by (simp add: find_last_slash_def)
qed

lemma path_parts:
  assumes "47 \<notin> set name"
  shows "parentDirectory (dir @ 47 # name) = dir" and "lastPathElement (dir @ 47 # name) = name"
    and "lastPathElement name = name" and "parentDirectory name = []"
  using find_last_slash_append [OF assms] assms
  by (simp_all add: parentDirectory_def lastPathElement_def find_last_slash_def)

end
