(* ===== verification/FileNode.thy ===== *)
theory FileNode
  imports MACFileIO FileUtils
begin

text \<open>
  An open file (\<open>encfs/FileNode.cpp\<close>): its two names and its stack of file objects, which is
  encryption over the disk, with block headers on top when the volume has them.
\<close>

subsection \<open>The object\<close>

text \<open>
  \<open>io\<close> is the dynamic type behind \<open>shared_ptr<FileIO>\<close> with the members of the objects of
  the stack, from the top to the bottom.
\<close>

datatype io =
    CipherIO iorequest cipherio rawfile
  | MacIO iorequest nat iorequest cipherio rawfile

fun io_raw :: "io \<Rightarrow> rawfile" where
  "io_raw (CipherIO c ci rf) = rf"
| "io_raw (MacIO m i c ci rf) = rf"

record filenode =
  fn_pname :: bytes
  fn_cname :: bytes
  fn_io :: io

definition hasBlockHeader :: "'k FSConfig \<Rightarrow> bool" where
  "hasBlockHeader cfg = (c_blockMACBytes (fs_config cfg) \<noteq> 0 \<or> c_blockMACRandBytes (fs_config cfg) \<noteq> 0)"

definition FileNode_new :: "'k FSConfig \<Rightarrow> bytes \<Rightarrow> bytes \<Rightarrow> filenode res" where
  "FileNode_new cfg plaintextName cipherName =
     (let rawIO = RawFileIO_new cipherName in
      rbind (CipherFileIO_new cfg) (\<lambda>(cache, ci).
      rbind (if hasBlockHeader cfg
             then rbind (MACFileIO_new cfg) (\<lambda>(mcache, i). Inr (MacIO mcache i cache ci rawIO))
             else Inr (CipherIO cache ci rawIO)) (\<lambda>io.
      Inr \<lparr>fn_pname = plaintextName, fn_cname = cipherName, fn_io = io\<rparr>)))"

text \<open>A virtual call: the method of the one class or of the other.\<close>

type_synonym 'o cipher_stack = "iorequest \<times> cipherio \<times> rawfile \<times> 'o"
type_synonym 'o mac_stack = "iorequest \<times> nat \<times> iorequest \<times> cipherio \<times> rawfile \<times> 'o"

fun virtual_call :: "('o cipher_stack, 'a) sm \<Rightarrow> ('o mac_stack, 'a) sm \<Rightarrow> (io \<times> 'o, 'a) sm" where
  "virtual_call mc mm (CipherIO c ci rf, w) =
     (case mc (c, ci, rf, w) of (r, c, ci, rf, w) \<Rightarrow> (r, CipherIO c ci rf, w))"
| "virtual_call mc mm (MacIO m i c ci rf, w) =
     (case mm (m, i, c, ci, rf, w) of (r, m, i, c, ci, rf, w) \<Rightarrow> (r, MacIO m i c ci rf, w))"

fun virtual_get :: "('o cipher_stack \<Rightarrow> 'a) \<Rightarrow> ('o mac_stack \<Rightarrow> 'a) \<Rightarrow> io \<times> 'o \<Rightarrow> 'a" where
  "virtual_get gc gm (CipherIO c ci rf, w) = gc (c, ci, rf, w)"
| "virtual_get gc gm (MacIO m i c ci rf, w) = gm (m, i, c, ci, rf, w)"

definition NodeIO :: "'k FSConfig \<Rightarrow> 'o unix \<Rightarrow> (io \<times> 'o) fileio" where
  "NodeIO cfg u =
     (let cf = CipherFileIO cfg (RawFileIO u); mf = MACFileIO cfg cf in
      \<lparr>fio_blockSize = (if hasBlockHeader cfg then fio_blockSize mf else fio_blockSize cf),
       fio_setFileName = (\<lambda>name. virtual_call (fio_setFileName cf name) (fio_setFileName mf name)),
       fio_getFileName = virtual_get (fio_getFileName cf) (fio_getFileName mf),
       fio_setIV = (\<lambda>iv. virtual_call (fio_setIV cf iv) (fio_setIV mf iv)),
       fio_open = (\<lambda>flags. virtual_call (fio_open cf flags) (fio_open mf flags)),
       fio_getAttr = virtual_call (fio_getAttr cf) (fio_getAttr mf),
       fio_getSize = virtual_call (fio_getSize cf) (fio_getSize mf),
       fio_read = (\<lambda>off n. virtual_call (fio_read cf off n) (fio_read mf off n)),
       fio_write = (\<lambda>off d. virtual_call (fio_write cf off d) (fio_write mf off d)),
       fio_truncate = (\<lambda>n. virtual_call (fio_truncate cf n) (fio_truncate mf n)),
       fio_isWritable = virtual_get (fio_isWritable cf) (fio_isWritable mf)\<rparr>)"

subsection \<open>The operations\<close>

type_synonym ('o, 'a) fm = "(filenode \<times> 'o, 'a) sm"

definition onIO :: "(io \<times> 'o, 'a) sm \<Rightarrow> ('o, 'a) fm" where
  "onIO m = (\<lambda>(fn, w). case m (fn_io fn, w) of (r, io, w) \<Rightarrow> (r, fn\<lparr>fn_io := io\<rparr>, w))"

definition onOS :: "('o \<Rightarrow> 'a \<times> 'o) \<Rightarrow> ('o, 'a) fm" where
  "onOS f = (\<lambda>(fn, w). case f w of (r, w) \<Rightarrow> (Inr r, fn, w))"

text \<open>The static function \<open>setIV\<close>: directories and the like have no IV.\<close>

definition node_setIV :: "'k FSConfig \<Rightarrow> 'o unix \<Rightarrow> u64 \<Rightarrow> ('o, bool) fm" where
  "node_setIV cfg u iv =
     sbind (onIO (fio_getAttr (NodeIO cfg u))) (\<lambda>(res, stbuf).
     if res < 0 \<or> S_ISREG (st_mode stbuf) then onIO (fio_setIV (NodeIO cfg u) iv) else sret True)"

definition setNames :: "'k FSConfig \<Rightarrow> 'o unix \<Rightarrow> bytes option \<Rightarrow> bytes option \<Rightarrow> ('o, unit) fm" where
  "setNames cfg u plaintextName cipherName =
     sbind (case plaintextName of
              None \<Rightarrow> sret ()
            | Some p \<Rightarrow> smod (apfst (\<lambda>fn. fn\<lparr>fn_pname := p\<rparr>))) (\<lambda>_.
     case cipherName of
       None \<Rightarrow> sret ()
     | Some c \<Rightarrow> sbind (smod (apfst (\<lambda>fn. fn\<lparr>fn_cname := c\<rparr>))) (\<lambda>_.
                 onIO (fio_setFileName (NodeIO cfg u) c)))"

definition setName ::
  "'k FSConfig \<Rightarrow> 'o unix \<Rightarrow> bytes option \<Rightarrow> bytes option \<Rightarrow> u64 \<Rightarrow> bool \<Rightarrow> ('o, bool) fm" where
  "setName cfg u plaintextName cipherName iv setIVFirst =
     (let setIV = (if c_externalIVChaining (fs_config cfg) then node_setIV cfg u iv else sret True) in
      if setIVFirst
      then sbind setIV (\<lambda>ok.
           if \<not> ok then sret False
           else sbind (setNames cfg u plaintextName cipherName) (\<lambda>_. sret True))
      else sbind (sget fst) (\<lambda>old.
           sbind (setNames cfg u plaintextName cipherName) (\<lambda>_.
           sbind setIV (\<lambda>ok.
           if \<not> ok
           then sbind (smod (apfst (\<lambda>fn. fn\<lparr>fn_pname := fn_pname old, fn_cname := fn_cname old\<rparr>))) (\<lambda>_.
                sret False)
           else sret True))))"

definition O_CREAT :: int where "O_CREAT = 0x100"
definition O_EXCL :: int where "O_EXCL = 0x400"

definition node_mknod :: "'o unix \<Rightarrow> u32 \<Rightarrow> ('o, int) fm" where
  "node_mknod u mode =
     sbind (if S_ISREG mode \<or> mode AND 0xf000 = 0
            then sbind (sget fst) (\<lambda>fn.
                 sbind (onOS (ux_creat u (fn_cname fn) (O_CREAT OR O_EXCL OR O_WRONLY) mode)) (\<lambda>res.
                 sbind (if res \<ge> 0 then onOS (ux_close u res) else sret res) (\<lambda>res.
                 sbind (sget (ux_errno u \<circ> snd)) (\<lambda>errno. sret (res, errno)))))
            else sret (-1, ENOSYS)) (\<lambda>(res, errno).
     sret (if res = -1 then - errno else res))"

definition node_open :: "'k FSConfig \<Rightarrow> 'o unix \<Rightarrow> int \<Rightarrow> ('o, int) fm" where
  "node_open cfg u flags = onIO (fio_open (NodeIO cfg u) flags)"

definition node_getAttr :: "'k FSConfig \<Rightarrow> 'o unix \<Rightarrow> ('o, int \<times> stat) fm" where
  "node_getAttr cfg u = onIO (fio_getAttr (NodeIO cfg u))"

definition node_getSize :: "'k FSConfig \<Rightarrow> 'o unix \<Rightarrow> ('o, int) fm" where
  "node_getSize cfg u = onIO (fio_getSize (NodeIO cfg u))"

definition node_read :: "'k FSConfig \<Rightarrow> 'o unix \<Rightarrow> nat \<Rightarrow> nat \<Rightarrow> ('o, bytes option) fm" where
  "node_read cfg u off len = onIO (fio_read (NodeIO cfg u) off len)"

definition node_write :: "'k FSConfig \<Rightarrow> 'o unix \<Rightarrow> nat \<Rightarrow> bytes \<Rightarrow> ('o, bool) fm" where
  "node_write cfg u off d = onIO (fio_write (NodeIO cfg u) off d)"

definition node_truncate :: "'k FSConfig \<Rightarrow> 'o unix \<Rightarrow> nat \<Rightarrow> ('o, int) fm" where
  "node_truncate cfg u sz = onIO (fio_truncate (NodeIO cfg u) sz)"

definition node_sync :: "'k FSConfig \<Rightarrow> 'o unix \<Rightarrow> ('o, int) fm" where
  "node_sync cfg u =
     sbind (onIO (fio_open (NodeIO cfg u) O_RDONLY)) (\<lambda>fh.
     if fh \<ge> 0
     then sbind (onOS (ux_fsync u fh)) (\<lambda>res.
          sbind (sget (ux_errno u \<circ> snd)) (\<lambda>errno.
          sret (if res = -1 then - errno else res)))
     else sret fh)"

text \<open>The destructor; the objects of the stack go with the node.\<close>

definition FileNode_destroy :: "'o unix \<Rightarrow> filenode \<Rightarrow> 'o \<Rightarrow> 'o" where
  "FileNode_destroy u fn w = snd (snd (raw_destroy u (io_raw (fn_io fn), w)))"

definition plaintextParent :: "filenode \<Rightarrow> bytes" where
  "plaintextParent fn = parentDirectory (fn_pname fn)"

subsection \<open>The stack as a byte string\<close>

fun node_inv :: "'k FSConfig \<Rightarrow> bytes \<Rightarrow> int \<Rightarrow> ('o \<Rightarrow> bool) \<Rightarrow> ('o \<Rightarrow> bytes) \<Rightarrow> io \<times> 'o \<Rightarrow> bool" where
  "node_inv cfg name fd good data (CipherIO c ci rf, w) \<longleftrightarrow>
     \<not> hasBlockHeader cfg \<and> enc_inv cfg name fd good data (c, ci, rf, w)"
| "node_inv cfg name fd good data (MacIO m i c ci rf, w) \<longleftrightarrow>
     hasBlockHeader cfg \<and> vol_inv cfg name fd good data (m, i, c, ci, rf, w)"

fun node_content :: "'k FSConfig \<Rightarrow> ('o \<Rightarrow> bytes) \<Rightarrow> io \<times> 'o \<Rightarrow> bytes" where
  "node_content cfg data (CipherIO c ci rf, w) = enc_content cfg data (c, ci, rf, w)"
| "node_content cfg data (MacIO m i c ci rf, w) = vol_content cfg data (m, i, c, ci, rf, w)"

definition node_blockSize :: "'k FSConfig \<Rightarrow> nat" where
  "node_blockSize cfg = (if hasBlockHeader cfg then mac_blockSize cfg else cio_blockSize cfg)"

lemma returns_virtual_cipher:
  "returns (virtual_call mc mm) (CipherIO c ci rf, w) P =
     returns mc (c, ci, rf, w) (\<lambda>x (c, ci, rf, w). P x (CipherIO c ci rf, w))"
  by (auto simp: returns_def split: prod.splits sum.splits)

lemma returns_virtual_mac:
  "returns (virtual_call mc mm) (MacIO m i c ci rf, w) P =
     returns mm (m, i, c, ci, rf, w) (\<lambda>x (m, i, c, ci, rf, w). P x (MacIO m i c ci rf, w))"
  by (auto simp: returns_def split: prod.splits sum.splits)

lemma returns_onIO [wp]:
  "returns (onIO m) (fn, w) P = returns m (fn_io fn, w) (\<lambda>x (io, w). P x (fn\<lparr>fn_io := io\<rparr>, w))"
  by (auto simp: returns_def onIO_def split: prod.splits sum.splits)

text \<open>Both stacks keep the contract, so the virtual call does.\<close>

lemma virtual_ok:
  assumes "\<And>s. \<not> hasBlockHeader cfg \<Longrightarrow> enc_inv cfg name fd good data s \<Longrightarrow>
      returns mc s (\<lambda>x s'. R x (enc_content cfg data s) (enc_content cfg data s') \<and> enc_inv cfg name fd good data s')"
    and "\<And>s. hasBlockHeader cfg \<Longrightarrow> vol_inv cfg name fd good data s \<Longrightarrow>
      returns mm s (\<lambda>x s'. R x (vol_content cfg data s) (vol_content cfg data s') \<and> vol_inv cfg name fd good data s')"
    and "node_inv cfg name fd good data s"
  shows "returns (virtual_call mc mm) s (\<lambda>x s'.
    R x (node_content cfg data s) (node_content cfg data s') \<and> node_inv cfg name fd good data s')"
proof (cases s)
  case (Pair io w)
  show ?thesis
  proof (cases io)
    case (CipherIO c ci rf)
    then have i: "\<not> hasBlockHeader cfg" "enc_inv cfg name fd good data (c, ci, rf, w)"
      using assms(3) Pair by simp_all
    show ?thesis
      unfolding Pair CipherIO returns_virtual_cipher
      by (rule returns_mono [OF assms(1) [OF i]]) (use i in auto)
  next
    case (MacIO m n c ci rf)
    then have i: "hasBlockHeader cfg" "vol_inv cfg name fd good data (m, n, c, ci, rf, w)"
      using assms(3) Pair by simp_all
    show ?thesis
      unfolding Pair MacIO returns_virtual_mac
      by (rule returns_mono [OF assms(2) [OF i]]) (use i in auto)
  qed
qed

lemma node_trunc_file:
  assumes "unix_disk u name fd good data" and "cipher_random (fs_cipher cfg) key_ok" and "key_ok (fs_key cfg)"
    and "1 < dataBlockSize cfg" and "vt_cipherBlockSize (fs_cipher cfg) dvd cio_blockSize cfg"
    and "\<not> c_allowHoles (fs_config cfg)" and "\<not> fs_reverseEncryption cfg" and "haveHeader cfg"
    and "0 \<le> c_blockMACBytes (fs_config cfg)" and "0 \<le> c_blockMACRandBytes (fs_config cfg)"
  shows "trunc_file (NodeIO cfg u) (node_inv cfg name fd good data) (node_content cfg data)
     (\<lambda>s n. length (node_content cfg data s) \<le> n \<or> \<not> node_blockSize cfg dvd n)"
proof -
  have "1 < c_blockSize (fs_config cfg)" using assms(4,9,10) by (simp add: dataBlockSize_def)
  note c = raw_cipher_trunc [OF assms(1-3) this assms(5-8)]
  have e: "trunc_file (CipherFileIO cfg (RawFileIO u)) (enc_inv cfg name fd good data) (enc_content cfg data)
      (\<lambda>cs n. length (enc_content cfg data cs) \<le> n \<or> \<not> cio_blockSize cfg dvd n)"
    using cipher_trunc.cipher_trunc_file [OF c] by (simp add: enc_inv_def enc_content_def)
  have v: "trunc_file (MACFileIO cfg (CipherFileIO cfg (RawFileIO u))) (vol_inv cfg name fd good data)
      (vol_content cfg data) (\<lambda>cs n. length (vol_content cfg data cs) \<le> n \<or> \<not> mac_blockSize cfg dvd n)"
    using mac_file.mac_trunc_file [OF mac_over_cipher [OF c assms(4,9,10)]]
    by (simp add: enc_inv_def enc_content_def vol_inv_def vol_content_def)
  note eb = trunc_file.axioms(1) [OF e] and vb = trunc_file.axioms(1) [OF v]
  let ?I = "node_inv cfg name fd good data" and ?c = "node_content cfg data"
  show ?thesis
  proof
    fix s assume s: "?I s"
    show "returns (fio_getSize (NodeIO cfg u)) s (\<lambda>n s'. n = int (length (?c s)) \<and> ?I s' \<and> ?c s' = ?c s)"
      using virtual_ok [where R = "\<lambda>n x x'. n = int (length x) \<and> x' = x", OF _ _ s]
        byte_file.getSize_ok [OF eb] byte_file.getSize_ok [OF vb]
      by (simp add: NodeIO_def Let_def conj_ac)
    show "returns (fio_read (NodeIO cfg u) off len) s
        (\<lambda>r s'. r = Some (take len (drop off (?c s))) \<and> ?I s' \<and> ?c s' = ?c s)" for off len
      using virtual_ok [where R = "\<lambda>r x x'. r = Some (take len (drop off x)) \<and> x' = x", OF _ _ s]
        byte_file.read_ok [OF eb] byte_file.read_ok [OF vb]
      by (simp add: NodeIO_def Let_def conj_ac)
    show "returns (fio_write (NodeIO cfg u) off d) s (\<lambda>ok s'. ok \<and> ?I s' \<and> ?c s' = put off d (?c s))"
      if "d \<noteq> []" for off d
      using virtual_ok [where R = "\<lambda>ok x x'. ok \<and> x' = put off d x", OF _ _ s]
        byte_file.write_ok [OF eb _ that] byte_file.write_ok [OF vb _ that]
      by (simp add: NodeIO_def Let_def conj_ac)
    show "returns (fio_open (NodeIO cfg u) flags) s (\<lambda>r s'. 0 \<le> r \<and> ?I s' \<and> ?c s' = ?c s)" for flags
    proof -
      have "returns (virtual_call (fio_open (CipherFileIO cfg (RawFileIO u)) flags)
          (fio_open (MACFileIO cfg (CipherFileIO cfg (RawFileIO u))) flags)) s
          (\<lambda>r s'. (0 \<le> r \<and> ?c s' = ?c s) \<and> ?I s')"
        by (rule virtual_ok [where R = "\<lambda>r x x'. 0 \<le> r \<and> x' = x", OF _ _ s])
           (auto elim: returns_mono [OF byte_file.open_ok [OF eb]] returns_mono [OF byte_file.open_ok [OF vb]])
      then show ?thesis by (simp add: NodeIO_def Let_def conj_ac)
    qed
    show "fio_isWritable (NodeIO cfg u) s"
      using s byte_file.writable [OF eb] byte_file.writable [OF vb]
      by (cases s; cases "fst s") (auto simp: NodeIO_def Let_def)
    show "returns (fio_truncate (NodeIO cfg u) n) s (\<lambda>r s'. r = 0 \<and> ?I s' \<and> ?c s' = resize n (?c s))"
      if "length (?c s) \<le> n \<or> \<not> node_blockSize cfg dvd n" for n
    proof (cases s)
      case (Pair io w)
      show ?thesis
      proof (cases io)
        case (CipherIO c ci rf)
        then have i: "enc_inv cfg name fd good data (c, ci, rf, w)"
          "length (enc_content cfg data (c, ci, rf, w)) \<le> n \<or> \<not> cio_blockSize cfg dvd n"
          using s that Pair by (simp_all add: node_blockSize_def)
        have "returns (virtual_call (fio_truncate (CipherFileIO cfg (RawFileIO u)) n) mm) s
            (\<lambda>r s'. r = 0 \<and> ?I s' \<and> ?c s' = resize n (?c s))" for mm
          unfolding Pair CipherIO returns_virtual_cipher
          by (rule returns_mono [OF trunc_file.truncate_ok [OF e i]]) (use s Pair CipherIO in auto)
        then show ?thesis by (simp add: NodeIO_def Let_def)
      next
        case (MacIO m k c ci rf)
        then have i: "vol_inv cfg name fd good data (m, k, c, ci, rf, w)"
          "length (vol_content cfg data (m, k, c, ci, rf, w)) \<le> n \<or> \<not> mac_blockSize cfg dvd n"
          using s that Pair by (simp_all add: node_blockSize_def)
        have "returns (virtual_call mc (fio_truncate (MACFileIO cfg (CipherFileIO cfg (RawFileIO u))) n)) s
            (\<lambda>r s'. r = 0 \<and> ?I s' \<and> ?c s' = resize n (?c s))" for mc
          unfolding Pair MacIO returns_virtual_mac
          by (rule returns_mono [OF trunc_file.truncate_ok [OF v i]]) (use s Pair MacIO in auto)
        then show ?thesis by (simp add: NodeIO_def Let_def)
      qed
    qed
  qed
qed

subsection \<open>What the calls keep\<close>

text \<open>
  A predicate on the operating system that no call on an existing file can break, such as
  which names are on the disk.
\<close>

definition ux_keeps :: "'o unix \<Rightarrow> ('o \<Rightarrow> bool) \<Rightarrow> bool" where
  "ux_keeps u Q \<longleftrightarrow> (\<forall>w. Q w \<longrightarrow>
     (\<forall>p f. Q (snd (ux_open u p f w))) \<and> (\<forall>d. Q (snd (ux_close u d w))) \<and>
     (\<forall>p. Q (snd (ux_lstat u p w))) \<and> (\<forall>p m. Q (snd (ux_chmod u p m w))) \<and>
     (\<forall>d n off. Q (snd (ux_pread u d n off w))) \<and> (\<forall>d x off. Q (snd (ux_pwrite u d x off w))))"

definition keeps :: "('s \<Rightarrow> bool) \<Rightarrow> ('s, 'a) sm \<Rightarrow> bool" where
  "keeps P m \<longleftrightarrow> (\<forall>s. P s \<longrightarrow> P (snd (m s)))"

lemma keepsD: "keeps P m \<Longrightarrow> P s \<Longrightarrow> m s = (r, s') \<Longrightarrow> P s'"
  by (metis keeps_def snd_conv)

named_theorems keep

lemma keeps_basic [keep, simp]: "keeps P (sret x)" "keeps P (sthrow e)" "keeps P (sres r)" "keeps P (sget g)"
  by (simp_all add: keeps_def)

lemma keeps_sbind [keep]: "keeps P m \<Longrightarrow> (\<And>x. keeps P (f x)) \<Longrightarrow> keeps P (sbind m f)"
  unfolding keeps_def by (auto intro: snd_sbind)

lemma keeps_if [keep]: "(b \<Longrightarrow> keeps P m) \<Longrightarrow> (\<not> b \<Longrightarrow> keeps P n) \<Longrightarrow> keeps P (if b then m else n)"
  by simp

lemma keeps_option [keep]:
  "keeps P m \<Longrightarrow> (\<And>y. keeps P (f y)) \<Longrightarrow> keeps P (case x of None \<Rightarrow> m | Some y \<Rightarrow> f y)"
  by (cases x) simp_all

lemma keeps_prod [keep]: "(\<And>a b. keeps P (f a b)) \<Longrightarrow> keeps P (case x of (a, b) \<Rightarrow> f a b)"
  by (cases x) simp

lemma keeps_onSnd [keep]: "keeps P m \<Longrightarrow> keeps (\<lambda>cs. P (snd cs)) (onSnd m)"
  by (simp add: keeps_def onSnd_def split: prod.splits) (metis snd_conv)

lemma keeps_fst [keep]: "keeps (\<lambda>cs. P (snd cs)) (smod (apfst g))"
  by (auto simp: keeps_def smod_def)

text \<open>The name of an object on the disk, and what holds of the system.\<close>

definition named :: "(bytes \<Rightarrow> bool) \<Rightarrow> ('o \<Rightarrow> bool) \<Rightarrow> rawfile \<times> 'o \<Rightarrow> bool" where
  "named N Q = (\<lambda>(rf, w). N (rf_name rf) \<and> Q w)"

lemma keeps_sys: "(\<And>w. Q w \<Longrightarrow> Q (snd (f w))) \<Longrightarrow> keeps (named N Q) (sys f)"
  by (simp add: keeps_def sys_def named_def split: prod.splits) (metis snd_conv)

lemma keeps_raw: "(\<And>rf. rf_name (g rf) = rf_name rf) \<Longrightarrow> keeps (named N Q) (smod (apfst g))"
  by (auto simp: keeps_def smod_def named_def)

lemma keeps_ux:
  assumes "ux_keeps u Q"
  shows "keeps (named N Q) (sys (ux_open u p fl))" "keeps (named N Q) (sys (ux_close u d))"
    "keeps (named N Q) (sys (ux_lstat u p))" "keeps (named N Q) (sys (ux_chmod u p m))"
    "keeps (named N Q) (sys (ux_pread u d n off))" "keeps (named N Q) (sys (ux_pwrite u d x off))"
  using assms by (auto simp: ux_keeps_def intro: keeps_sys)

lemma keeps_writeLoop:
  assumes "ux_keeps u Q"
  shows "keeps (named N Q) (raw_writeLoop u fd k off d)"
  by (induction k arbitrary: off d) (auto intro!: keep keeps_raw keeps_ux [OF assms])

lemma keeps_RawFileIO:
  assumes "ux_keeps u Q"
  shows "keeps (named N Q) (fio_open (RawFileIO u) fl)" "keeps (named N Q) (fio_getSize (RawFileIO u))"
    "keeps (named N Q) (fio_getAttr (RawFileIO u))" "keeps (named N Q) (fio_read (RawFileIO u) off n)"
    "keeps (named N Q) (fio_write (RawFileIO u) off d)" "keeps (named N Q) (fio_setIV (RawFileIO u) iv)"
    "keeps (named N Q) (raw_destroy u)"
  by (auto simp: RawFileIO_def raw_open_def raw_getSize_def raw_getAttr_def raw_read_def raw_write_def
      raw_destroy_def FileIO_setIV_def Let_def open_readonly_workaround_def
      intro!: keep keeps_raw keeps_ux [OF assms] keeps_writeLoop [OF assms])

lemma keeps_initHeader:
  assumes "keeps P (fio_getSize base)" and "\<And>off n. keeps P (fio_read base off n)"
    and "\<And>off d. keeps P (fio_write base off d)"
  shows "keeps (\<lambda>cs. P (snd cs)) (initHeader cfg base)"
  unfolding initHeader_def Let_def by (intro keep assms)

lemma keeps_cio:
  assumes "keeps P (fio_getSize base)" and "\<And>off n. keeps P (fio_read base off n)"
    and "\<And>off d. keeps P (fio_write base off d)" and "\<And>fl. keeps P (fio_open base fl)"
    and "\<And>iv. keeps P (fio_setIV base iv)" and "keeps P (fio_getAttr base)"
  shows "keeps (\<lambda>cs. P (snd (snd cs))) (fio_setIV (CipherFileIO cfg base) iv)"
    and "keeps (\<lambda>cs. P (snd (snd cs))) (fio_getAttr (CipherFileIO cfg base))"
    and "keeps (\<lambda>cs. P (snd (snd cs))) (fio_open (CipherFileIO cfg base) fl)"
  unfolding CipherFileIO_def cio_setIV_def cio_getAttr_def cio_open_def writeHeader_def fileio.simps
  by (intro keep assms keeps_initHeader)+

lemma keeps_mio:
  assumes "\<And>iv. keeps P (fio_setIV base iv)" and "keeps P (fio_getAttr base)" and "\<And>fl. keeps P (fio_open base fl)"
  shows "keeps (\<lambda>cs. P (snd (snd cs))) (fio_setIV (MACFileIO cfg base) iv)"
    and "keeps (\<lambda>cs. P (snd (snd cs))) (fio_getAttr (MACFileIO cfg base))"
    and "keeps (\<lambda>cs. P (snd (snd cs))) (fio_open (MACFileIO cfg base) fl)"
  unfolding MACFileIO_def mac_getAttr_def Let_def fileio.simps by (intro keep assms)+

definition io_named :: "(bytes \<Rightarrow> bool) \<Rightarrow> ('o \<Rightarrow> bool) \<Rightarrow> io \<times> 'o \<Rightarrow> bool" where
  "io_named N Q = (\<lambda>(io, w). named N Q (io_raw io, w))"

definition node_named :: "(bytes \<Rightarrow> bool) \<Rightarrow> ('o \<Rightarrow> bool) \<Rightarrow> filenode \<times> 'o \<Rightarrow> bool" where
  "node_named N Q = (\<lambda>(fn, w). named N Q (io_raw (fn_io fn), w))"

lemma keeps_virtual:
  assumes "keeps (\<lambda>cs. named N Q (snd (snd cs))) mc" and "keeps (\<lambda>cs. named N Q (snd (snd (snd (snd cs))))) mm"
  shows "keeps (io_named N Q) (virtual_call mc mm)"
  unfolding keeps_def
proof (intro allI impI)
  fix s assume s: "io_named N Q s"
  obtain io w where p: "s = (io, w)" by (cases s)
  show "io_named N Q (snd (virtual_call mc mm s))"
  proof (cases io)
    case (CipherIO c ci rf)
    obtain r c' ci' rf' w' where m: "mc (c, ci, rf, w) = (r, c', ci', rf', w')" by (metis surj_pair)
    then show ?thesis
      using s assms(1) [unfolded keeps_def, rule_format, of "(c, ci, rf, w)"] CipherIO by (simp add: io_named_def p)
  next
    case (MacIO q i c ci rf)
    obtain r q' i' c' ci' rf' w' where m: "mm (q, i, c, ci, rf, w) = (r, q', i', c', ci', rf', w')" by (metis surj_pair)
    then show ?thesis
      using s assms(2) [unfolded keeps_def, rule_format, of "(q, i, c, ci, rf, w)"] MacIO by (simp add: io_named_def p)
  qed
qed

lemma keeps_NodeIO:
  assumes "ux_keeps u Q"
  shows "keeps (io_named N Q) (fio_setIV (NodeIO cfg u) iv)" "keeps (io_named N Q) (fio_getAttr (NodeIO cfg u))"
    "keeps (io_named N Q) (fio_open (NodeIO cfg u) fl)"
  unfolding NodeIO_def Let_def fileio.simps
  by (intro keeps_virtual keeps_mio keeps_cio keeps_RawFileIO [OF assms])+

lemma keeps_onIO: "keeps (io_named N Q) m \<Longrightarrow> keeps (node_named N Q) (onIO m)"
  by (auto simp: keeps_def onIO_def node_named_def io_named_def split: prod.splits)

lemma keeps_setIV: "ux_keeps u Q \<Longrightarrow> keeps (node_named N Q) (node_setIV cfg u iv)"
  unfolding node_setIV_def by (intro keep keeps_onIO keeps_NodeIO)

fun io_rename :: "bytes \<Rightarrow> io \<Rightarrow> io" where
  "io_rename c (CipherIO q ci rf) = CipherIO q ci (rf\<lparr>rf_name := c\<rparr>)"
| "io_rename c (MacIO m i q ci rf) = MacIO m i q ci (rf\<lparr>rf_name := c\<rparr>)"

definition renamed :: "bytes option \<Rightarrow> bytes option \<Rightarrow> filenode \<Rightarrow> filenode" where
  "renamed p c fn =
     fn\<lparr>fn_pname := (case p of None \<Rightarrow> fn_pname fn | Some x \<Rightarrow> x),
        fn_cname := (case c of None \<Rightarrow> fn_cname fn | Some x \<Rightarrow> x),
        fn_io := (case c of None \<Rightarrow> fn_io fn | Some x \<Rightarrow> io_rename x (fn_io fn))\<rparr>"

lemma io_raw_rename [simp]: "rf_name (io_raw (io_rename c io)) = c"
  by (cases io) simp_all

lemma setFileName_NodeIO: "fio_setFileName (NodeIO cfg u) c (io, w) = (Inr (), io_rename c io, w)"
  by (cases io) (simp_all add: NodeIO_def Let_def CipherFileIO_def MACFileIO_def RawFileIO_def onSnd_def smod_def)

lemma setNames_eq: "setNames cfg u p c (fn, w) = (Inr (), renamed p c fn, w)"
  by (simp add: setNames_def renamed_def sbind_def sret_def smod_def onIO_def setFileName_NodeIO split: option.splits)

lemma keeps_setNames: "keeps (\<lambda>(fn, w). Q w) (setNames cfg u p c)"
  by (auto simp: keeps_def setNames_eq)

text \<open>The system state is kept by every renaming of a node.\<close>

lemma keeps_setName:
  assumes "ux_keeps u Q"
  shows "keeps (\<lambda>(fn, w). Q w) (setName cfg u p c iv first)"
proof -
  have "node_named (\<lambda>_. True) Q = (\<lambda>(fn, w). Q w)" by (auto simp: node_named_def named_def fun_eq_iff)
  then have iv: "keeps (\<lambda>(fn, w). Q w) (node_setIV cfg u iv)"
    using keeps_setIV [OF assms, of "\<lambda>_. True" cfg iv] by simp
  have "keeps (\<lambda>(fn, w). Q w) (smod (apfst (\<lambda>fn. fn\<lparr>fn_pname := a, fn_cname := b\<rparr>)))" for a b
    by (auto simp: keeps_def smod_def)
  then show ?thesis unfolding setName_def Let_def by (intro keep keeps_setNames iv)
qed

lemma destroy_keeps:
  assumes "ux_keeps u Q" and "Q w"
  shows "Q (FileNode_destroy u fn w)"
  using keeps_RawFileIO(7) [OF assms(1), of "\<lambda>_. True"] assms(2)
  by (simp add: keeps_def FileNode_destroy_def named_def case_prod_unfold)

text \<open>An operation that takes the names as they are keeps them.\<close>

lemma onIO_names:
  "onIO m (fn, w) = (r, fn', w') \<Longrightarrow> fn_pname fn' = fn_pname fn \<and> fn_cname fn' = fn_cname fn"
  by (auto simp: onIO_def split: prod.splits)

lemma keeps_onIO_names: "keeps (\<lambda>(f, w). fn_pname f = p \<and> fn_cname f = c) (onIO m)"
  by (auto simp: keeps_def onIO_def split: prod.splits)

lemma ux_keeps_True: "ux_keeps u (\<lambda>_. True)"
  by (simp add: ux_keeps_def)

lemma setIV_names:
  assumes "node_setIV cfg u iv (fn, w) = (r, fn', w')"
  shows "fn_pname fn' = fn_pname fn \<and> fn_cname fn' = fn_cname fn \<and> rf_name (io_raw (fn_io fn')) = rf_name (io_raw (fn_io fn))"
proof -
  have "keeps (\<lambda>(f, w). fn_pname f = fn_pname fn \<and> fn_cname f = fn_cname fn) (node_setIV cfg u iv)"
    unfolding node_setIV_def by (intro keep keeps_onIO_names)
  moreover have "keeps (node_named (\<lambda>x. x = rf_name (io_raw (fn_io fn))) (\<lambda>_. True)) (node_setIV cfg u iv)"
    by (rule keeps_setIV [OF ux_keeps_True])
  ultimately show ?thesis
    using keepsD [of _ "node_setIV cfg u iv" "(fn, w)" r "(fn', w')"] assms
    by (fastforce simp: node_named_def named_def)
qed

subsection \<open>Properties\<close>


definition sample_node :: filenode where
  "sample_node = \<lparr>fn_pname = [], fn_cname = lit ''/f'', fn_io = (case mac_sample_file of
     (m, i, c, ci, rf, w) \<Rightarrow> MacIO m i c ci rf)\<rparr>"


text \<open>
  when the change of the path IV fails after the names were set (the order used to undo a
  renaming), the node gets its old names back but its file objects keep the new one: the
  node and the file it reads and writes no longer agree.
\<close>
theorem failed_renaming_splits_names:
  assumes "setName cfg u p (Some c) iv False (fn, w) = (Inr False, fn', w')"
  shows "fn_pname fn' = fn_pname fn \<and> fn_cname fn' = fn_cname fn \<and> rf_name (io_raw (fn_io fn')) = c"
proof (cases "c_externalIVChaining (fs_config cfg)")
  case True
  obtain r f1 w1 where iv: "node_setIV cfg u iv (renamed p (Some c) fn, w) = (r, f1, w1)" by (metis surj_pair)
  have "rf_name (io_raw (fn_io f1)) = c"
    using setIV_names [OF iv] by (simp add: renamed_def)
  then show ?thesis
    using assms True iv
    by (auto simp: setName_def Let_def sbind_def sget_def sret_def smod_def setNames_eq split: sum.splits if_splits)
next
  case False
  then show ?thesis
    using assms by (simp add: setName_def Let_def sbind_def sget_def sret_def setNames_eq)
qed

text \<open>A file that has vanished: every call fails.\<close>

definition gone_unix :: "unit unix" where
  "gone_unix =
     \<lparr>ux_errno = (\<lambda>_. 2),
      ux_open = (\<lambda>path flags w. (-1, w)),
      ux_creat = (\<lambda>path flags mode w. (-1, w)),
      ux_close = (\<lambda>fd w. (-1, w)),
      ux_lstat = (\<lambda>path w. ((-1, \<lparr>st_mode = 0, st_size = 0\<rparr>), w)),
      ux_chmod = (\<lambda>path mode w. (-1, w)),
      ux_pread = (\<lambda>fd n off w. (None, w)),
      ux_pwrite = (\<lambda>fd d off w. (-1, w)),
      ux_ftruncate = (\<lambda>fd n w. (-1, w)),
      ux_truncate = (\<lambda>path n w. (-1, w)),
      ux_fdatasync = (\<lambda>fd w. (-1, w)),
      ux_fsync = (\<lambda>fd w. (-1, w))\<rparr>"

definition ext_cfg :: "unit FSConfig" where
  "ext_cfg = null_cfg\<lparr>fs_config := (fs_config null_cfg)\<lparr>c_externalIVChaining := True\<rparr>\<rparr>"

definition gone_node :: filenode where
  "gone_node = \<lparr>fn_pname = lit ''a'', fn_cname = lit ''x'',
     fn_io = CipherIO BlockFileIO_cache \<lparr>ci_externalIV = 5, ci_fileIV = 0, ci_lastFlags = 0, ci_rand = 0\<rparr>
       (RawFileIO_new (lit ''x''))\<rparr>"

lemma gone_setIV: "fst (node_setIV ext_cfg gone_unix 6 (renamed p c gone_node, ())) = Inr False"
proof -
  define rf where "rf = (case c of None \<Rightarrow> RawFileIO_new (lit ''x'') | Some x \<Rightarrow> (RawFileIO_new (lit ''x''))\<lparr>rf_name := x\<rparr>)"
  have rf: "rf_fd rf = -1" by (simp add: rf_def RawFileIO_new_def split: option.splits)
  have io: "fn_io (renamed p c gone_node) = CipherIO BlockFileIO_cache
      \<lparr>ci_externalIV = 5, ci_fileIV = 0, ci_lastFlags = 0, ci_rand = 0\<rparr> rf"
    by (simp add: renamed_def gone_node_def rf_def split: option.splits)
  have h: "haveHeader ext_cfg" by (simp add: ext_cfg_def null_cfg_def haveHeader_def)
  have attr: "fio_getAttr (RawFileIO gone_unix) (rf, ()) = (Inr (-2, \<lparr>st_mode = 0, st_size = 0\<rparr>), rf, ())"
    by (simp add: RawFileIO_def raw_getAttr_def gone_unix_def sbind_def sget_def sret_def sys_def)
  have op: "fio_open (RawFileIO gone_unix) (0 OR O_RDWR) (rf, ()) = (Inr (-2), rf, ())"
    by (simp add: RawFileIO_def raw_open_def gone_unix_def sbind_def sget_def sret_def sys_def rf O_RDWR_def
        EACCES_def Let_def)
  show ?thesis
    using h attr op
    by (simp add: node_setIV_def onIO_def io NodeIO_def Let_def CipherFileIO_def cio_getAttr_def cio_setIV_def
        onSnd_def sbind_def sget_def sret_def EISDIR_def)
qed

theorem failed_renaming_splits_names_witness:
  "let (r, fn', w') = setName ext_cfg gone_unix (Some (lit ''b'')) (Some (lit ''y'')) 6 False (gone_node, ()) in
   r = Inr False \<and> fn_cname fn' = lit ''x'' \<and> rf_name (io_raw (fn_io fn')) = lit ''y''"
proof -
  let ?s = "setName ext_cfg gone_unix (Some (lit ''b'')) (Some (lit ''y'')) 6 False (gone_node, ())"
  have ext: "c_externalIVChaining (fs_config ext_cfg)" by (simp add: ext_cfg_def)
  have "fst ?s = Inr False"
    using gone_setIV [of "Some (lit ''b'')" "Some (lit ''y'')"]
    by (cases "node_setIV ext_cfg gone_unix 6 (renamed (Some (lit ''b'')) (Some (lit ''y'')) gone_node, ())")
       (simp add: setName_def Let_def sbind_def sget_def sret_def smod_def setNames_eq ext split: prod.splits sum.splits)
  then obtain fn' w' where s: "?s = (Inr False, fn', w')" by (metis prod.collapse)
  show ?thesis using failed_renaming_splits_names [OF s] s by (simp add: gone_node_def)
qed

end
