(* ===== verification/Context.thy ===== *)
theory Context
  imports FileIO "HOL-Library.AList"
begin

text \<open>
  The table of open files and the mounted root of \<open>encfs/Context.cpp\<close>.  A handle given to
  FUSE is the address of a \<open>Placeholder\<close>, which shares the node of its file with the other
  handles of that file; \<open>'n\<close> is a shared pointer to a node, \<open>'r\<close> to the root directory.
\<close>

subsection \<open>The object\<close>

text \<open>
  \<open>cx_openFiles\<close> is the map from paths to sets of handles, \<open>cx_holders\<close> the placeholders
  that are allocated, with the node each points to.
\<close>

record ('n, 'r) EncFS_Context =
  cx_openFiles :: "(bytes \<times> nat set) list"
  cx_holders :: "(nat \<times> 'n) list"
  cx_usageCount :: int
  cx_root :: "'r option"
  cx_rootCipherDir :: bytes

definition EncFS_Context_new :: "('n, 'r) EncFS_Context" where
  "EncFS_Context_new =
     \<lparr>cx_openFiles = [], cx_holders = [], cx_usageCount = 0, cx_root = None, cx_rootCipherDir = []\<rparr>"

text \<open>
  \<open>remount\<close> is \<open>remountFS\<close>.  The function returns the root, or the error code of
  the remount; it goes round again as long as the remount succeeds without setting a root.
\<close>

partial_function (option) getRoot ::
  "(('n, 'r) EncFS_Context \<Rightarrow> int \<times> ('n, 'r) EncFS_Context) \<Rightarrow> ('n, 'r) EncFS_Context
     \<Rightarrow> ((int + 'r) \<times> ('n, 'r) EncFS_Context) option" where
  "getRoot remount c =
     (let c' = c\<lparr>cx_usageCount := cx_usageCount c + 1\<rparr> in
      case cx_root c of
        Some r \<Rightarrow> Some (Inr r, c')
      | None \<Rightarrow> (case remount c' of (res, c'') \<Rightarrow>
          if res \<noteq> 0 then Some (Inl res, c'') else getRoot remount c''))"

definition setRoot :: "('r \<Rightarrow> bytes) \<Rightarrow> 'r option \<Rightarrow> ('n, 'r) EncFS_Context \<Rightarrow> ('n, 'r) EncFS_Context" where
  "setRoot rootDirectory r c =
     (case r of
        None \<Rightarrow> c\<lparr>cx_root := None\<rparr>
      | Some d \<Rightarrow> c\<lparr>cx_root := Some d, cx_rootCipherDir := rootDirectory d\<rparr>)"

text \<open>\<open>initFS\<close> of the options of the context: the root, or a null pointer.\<close>

definition remountFS ::
  "(('n, 'r) EncFS_Context \<Rightarrow> 'r option) \<Rightarrow> ('r \<Rightarrow> bytes) \<Rightarrow> ('n, 'r) EncFS_Context
     \<Rightarrow> int \<times> ('n, 'r) EncFS_Context" where
  "remountFS initFS rootDirectory c =
     (case initFS c of
        Some r \<Rightarrow> (0, setRoot rootDirectory (Some r) c)
      | None \<Rightarrow> (- EACCES, c))"

definition isMounted :: "('n, 'r) EncFS_Context \<Rightarrow> bool" where
  "isMounted c = (cx_root c \<noteq> None)"

definition getAndResetUsageCounter :: "('n, 'r) EncFS_Context \<Rightarrow> int \<times> ('n, 'r) EncFS_Context" where
  "getAndResetUsageCounter c = (cx_usageCount c, c\<lparr>cx_usageCount := 0\<rparr>)"

definition openFileCount :: "('n, 'r) EncFS_Context \<Rightarrow> nat" where
  "openFileCount c = length (cx_openFiles c)"

text \<open>The node of a handle; \<open>None\<close> for an address that is no placeholder.\<close>

definition getNode :: "nat \<Rightarrow> ('n, 'r) EncFS_Context \<Rightarrow> 'n option" where
  "getNode pl c = map_of (cx_holders c) pl"

text \<open>A \<open>std::set\<close> of pointers starts with the lowest one.\<close>

definition ctx_lookupNode :: "bytes \<Rightarrow> ('n, 'r) EncFS_Context \<Rightarrow> 'n option" where
  "ctx_lookupNode path c =
     (case map_of (cx_openFiles c) path of
        None \<Rightarrow> None
      | Some phs \<Rightarrow> getNode (Min phs) c)"

definition ctx_renameNode :: "bytes \<Rightarrow> bytes \<Rightarrow> ('n, 'r) EncFS_Context \<Rightarrow> ('n, 'r) EncFS_Context" where
  "ctx_renameNode from to c =
     (case map_of (cx_openFiles c) from of
        None \<Rightarrow> c
      | Some phs \<Rightarrow> c\<lparr>cx_openFiles := AList.update to phs (AList.delete from (cx_openFiles c))\<rparr>)"

text \<open>\<open>pl\<close> is the address of the new placeholder.\<close>

definition putNode :: "bytes \<Rightarrow> 'n \<Rightarrow> nat \<Rightarrow> ('n, 'r) EncFS_Context \<Rightarrow> ('n, 'r) EncFS_Context" where
  "putNode path node pl c =
     (let phs = (case map_of (cx_openFiles c) path of None \<Rightarrow> {} | Some phs \<Rightarrow> phs) in
      c\<lparr>cx_openFiles := AList.update path (insert pl phs) (cx_openFiles c),
        cx_holders := (pl, node) # cx_holders c\<rparr>)"

definition eraseNode :: "bytes \<Rightarrow> nat \<Rightarrow> ('n, 'r) EncFS_Context \<Rightarrow> unit res \<times> ('n, 'r) EncFS_Context" where
  "eraseNode path pl c =
     (case map_of (cx_openFiles c) path of
        None \<Rightarrow> (Inl AssertFailed, c)
      | Some phs \<Rightarrow>
          if pl \<notin> phs then (Inl AssertFailed, c)
          else (let rest = phs - {pl} in
            (Inr (), c\<lparr>cx_openFiles := (if rest = {} then AList.delete path (cx_openFiles c)
                                       else AList.update path rest (cx_openFiles c)),
                      cx_holders := AList.delete pl (cx_holders c)\<rparr>)))"

lemma EncFS_Context_new_simps [simp]:
  "cx_openFiles EncFS_Context_new = []" "cx_holders EncFS_Context_new = []" "cx_root EncFS_Context_new = None"
  by (simp_all add: EncFS_Context_new_def)

subsection \<open>The invariant\<close>

text \<open>
  The comment in \<open>lookupNode\<close>: all handles of a path point to the same node.  Every entry has
  handles, a handle belongs to one path, and it is allocated.
\<close>

definition opened :: "('n, 'r) EncFS_Context \<Rightarrow> bytes \<Rightarrow> nat set" where
  "opened c path = (case map_of (cx_openFiles c) path of None \<Rightarrow> {} | Some phs \<Rightarrow> phs)"

definition ctx_wf :: "('n, 'r) EncFS_Context \<Rightarrow> bool" where
  "ctx_wf c \<longleftrightarrow>
     distinct (map fst (cx_openFiles c)) \<and> distinct (map fst (cx_holders c)) \<and>
     (\<forall>path phs. map_of (cx_openFiles c) path = Some phs \<longrightarrow> finite phs \<and> phs \<noteq> {}) \<and>
     (\<forall>path pl. pl \<in> opened c path \<longrightarrow> getNode pl c \<noteq> None) \<and>
     (\<forall>path path' pl. pl \<in> opened c path \<longrightarrow> pl \<in> opened c path' \<longrightarrow> path = path')"

definition ctx_shared :: "('n, 'r) EncFS_Context \<Rightarrow> bool" where
  "ctx_shared c \<longleftrightarrow>
     (\<forall>path pl pl'. pl \<in> opened c path \<longrightarrow> pl' \<in> opened c path \<longrightarrow> getNode pl c = getNode pl' c)"

lemma map_of_update [simp]: "map_of (AList.update k v xs) k' = (if k' = k then Some v else map_of xs k')"
  by (simp add: update_conv')

lemma map_of_delete [simp]: "map_of (AList.delete k xs) k' = (if k' = k then None else map_of xs k')"
  by (simp add: delete_conv')

lemma map_opened: "map_of (cx_openFiles c) path = Some phs \<Longrightarrow> opened c path = phs"
  by (simp add: opened_def)

lemma opened_None: "ctx_wf c \<Longrightarrow> map_of (cx_openFiles c) path = None \<longleftrightarrow> opened c path = {}"
  by (cases "map_of (cx_openFiles c) path") (auto simp: ctx_wf_def opened_def)

lemma opened_finite: "ctx_wf c \<Longrightarrow> finite (opened c path)"
  by (cases "map_of (cx_openFiles c) path") (auto simp: ctx_wf_def opened_def)

text \<open>What the operations do to the handles of a path.\<close>

lemma opened_put: "opened (putNode path node pl c) p = (if p = path then insert pl (opened c path) else opened c p)"
  by (simp add: putNode_def opened_def Let_def)

lemma opened_rename:
  "opened (ctx_renameNode from to c) p =
     (if map_of (cx_openFiles c) from = None then opened c p
      else if p = to then opened c from else if p = from then {} else opened c p)"
  by (auto simp: ctx_renameNode_def opened_def split: option.splits)

lemma opened_erase:
  "opened (snd (eraseNode path pl c)) p = (if p = path then opened c path - {pl} else opened c p)"
  by (auto simp: eraseNode_def opened_def Let_def split: option.splits)

lemma node_put: "getNode q (putNode path node pl c) = (if q = pl then Some node else getNode q c)"
  by (simp add: putNode_def getNode_def Let_def)

lemma node_rename [simp]: "getNode q (ctx_renameNode from to c) = getNode q c"
  by (simp add: ctx_renameNode_def getNode_def split: option.splits)

lemma node_erase:
  "getNode q (snd (eraseNode path pl c)) = (if q = pl \<and> pl \<in> opened c path then None else getNode q c)"
  by (auto simp: eraseNode_def getNode_def opened_def Let_def split: option.splits)

lemmas ctx_simps = opened_put opened_rename opened_erase node_put node_erase

lemma distinct_keys_update: "distinct (map fst xs) \<Longrightarrow> distinct (map fst (AList.update k v xs))"
  by (rule distinct_update)

lemma distinct_keys_delete: "distinct (map fst xs) \<Longrightarrow> distinct (map fst (AList.delete k xs))"
  by (rule distinct_delete)

lemma wf_putNode:
  assumes "ctx_wf c" and "getNode pl c = None"
  shows "ctx_wf (putNode path node pl c)"
proof -
  have fresh: "pl \<notin> opened c p" for p using assms unfolding ctx_wf_def by blast
  have "pl \<notin> fst ` set (cx_holders c)" using assms(2) by (simp add: getNode_def map_of_eq_None_iff)
  moreover have "finite phs \<and> phs \<noteq> {}" if "map_of (cx_openFiles (putNode path node pl c)) p = Some phs" for p phs
    using that assms(1) by (auto simp: putNode_def ctx_wf_def Let_def split: if_splits option.splits)
  moreover have "distinct (map fst (cx_openFiles (putNode path node pl c)))"
      "distinct (map fst (cx_holders (putNode path node pl c)))"
    using assms(1) \<open>pl \<notin> fst ` set (cx_holders c)\<close>
    by (auto simp: ctx_wf_def putNode_def Let_def distinct_keys_update)
  ultimately show ?thesis
    using assms fresh unfolding ctx_wf_def ctx_simps by (auto split: if_splits)
qed

lemma wf_rename:
  assumes "ctx_wf c"
  shows "ctx_wf (ctx_renameNode from to c)"
proof (cases "map_of (cx_openFiles c) from")
  case None
  then show ?thesis using assms by (simp add: ctx_renameNode_def)
next
  case (Some phs)
  then have "finite qs \<and> qs \<noteq> {}" if "map_of (cx_openFiles (ctx_renameNode from to c)) p = Some qs" for p qs
    using that assms by (auto simp: ctx_renameNode_def ctx_wf_def split: if_splits)
  then show ?thesis
    using assms Some
    unfolding ctx_wf_def ctx_simps node_rename
    by (auto simp: ctx_renameNode_def distinct_keys_update distinct_keys_delete split: if_splits)
qed

lemma wf_erase:
  assumes "ctx_wf c"
  shows "ctx_wf (snd (eraseNode path pl c))"
proof -
  have "finite qs \<and> qs \<noteq> {}" if "map_of (cx_openFiles (snd (eraseNode path pl c))) p = Some qs" for p qs
    using that assms by (auto simp: eraseNode_def ctx_wf_def Let_def split: if_splits option.splits)
  moreover have "distinct (map fst (cx_openFiles (snd (eraseNode path pl c))))"
      "distinct (map fst (cx_holders (snd (eraseNode path pl c))))"
    using assms by (auto simp: ctx_wf_def eraseNode_def Let_def distinct_keys_update distinct_keys_delete split: option.splits)
  ultimately show ?thesis
    using assms unfolding ctx_wf_def ctx_simps by (auto split: if_splits)
qed

lemma lookup_opened:
  assumes "ctx_wf c" and "ctx_shared c" and "pl \<in> opened c path"
  shows "ctx_lookupNode path c = getNode pl c"
proof -
  obtain phs where m: "map_of (cx_openFiles c) path = Some phs"
    using assms(3) by (auto simp: opened_def split: option.splits)
  then have "finite phs" "phs \<noteq> {}" "opened c path = phs"
    using assms(1) by (auto simp: ctx_wf_def opened_def)
  then have "Min phs \<in> opened c path" by simp
  then show ?thesis using assms(2,3) m unfolding ctx_shared_def ctx_lookupNode_def by (metis option.simps(5))
qed

lemma lookup_closed:
  assumes "ctx_wf c"
  shows "ctx_lookupNode path c = None \<longleftrightarrow> opened c path = {}"
proof (cases "map_of (cx_openFiles c) path")
  case (Some phs)
  then have "phs \<noteq> {}" "Min phs \<in> opened c path"
    using assms Min_in [of phs] unfolding ctx_wf_def by (simp_all add: opened_def)
  then show ?thesis using assms Some unfolding ctx_wf_def ctx_lookupNode_def by (metis empty_iff option.simps(5))
qed (simp add: ctx_lookupNode_def opened_def)

subsection \<open>The life of the table\<close>

text \<open>
  The calls of the callbacks, each under the lock of the context.  An open looks for a node,
  makes a new one when there is none, and puts a handle for it, in one step; a release may
  come with any path and address.
\<close>

inductive ctx_step :: "('n, 'r) EncFS_Context \<Rightarrow> ('n, 'r) EncFS_Context \<Rightarrow> bool" where
  step_open: "getNode pl c = None \<Longrightarrow> ctx_step c
     (putNode path (case ctx_lookupNode path c of None \<Rightarrow> node | Some n \<Rightarrow> n) pl c)"
| step_release: "ctx_step c (snd (eraseNode path pl c))"
| step_rename: "ctx_step c (ctx_renameNode from to c)"
| step_root: "ctx_step c (setRoot rootDirectory r c)"
| step_usage: "ctx_step c (snd (getAndResetUsageCounter c))"

lemma files_other [simp]:
  "cx_openFiles (setRoot rd r c) = cx_openFiles c" "cx_holders (setRoot rd r c) = cx_holders c"
  "cx_openFiles (snd (getAndResetUsageCounter c)) = cx_openFiles c"
  "cx_holders (snd (getAndResetUsageCounter c)) = cx_holders c"
  by (cases r; simp add: setRoot_def getAndResetUsageCounter_def)+

lemma opened_other [simp]:
  "opened (setRoot rd r c) = opened c" "opened (snd (getAndResetUsageCounter c)) = opened c"
  "getNode q (setRoot rd r c) = getNode q c" "getNode q (snd (getAndResetUsageCounter c)) = getNode q c"
  by (simp_all add: opened_def getNode_def fun_eq_iff)

lemma wf_other: "ctx_wf (setRoot rd r c) = ctx_wf c" "ctx_wf (snd (getAndResetUsageCounter c)) = ctx_wf c"
  by (simp_all only: ctx_wf_def files_other opened_other)

lemma sharedI:
  "(\<And>path pl pl'. pl \<in> opened c path \<Longrightarrow> pl' \<in> opened c path \<Longrightarrow> getNode pl c = getNode pl' c) \<Longrightarrow> ctx_shared c"
  unfolding ctx_shared_def by blast

lemma sharedD: "ctx_shared c \<Longrightarrow> pl \<in> opened c path \<Longrightarrow> pl' \<in> opened c path \<Longrightarrow> getNode pl c = getNode pl' c"
  unfolding ctx_shared_def by blast

lemma shared_open:
  assumes "ctx_wf c" and "ctx_shared c" and "getNode pl c = None"
  shows "ctx_shared (putNode path (case ctx_lookupNode path c of None \<Rightarrow> node | Some n \<Rightarrow> n) pl c)"
proof -
  have fresh: "pl \<notin> opened c p" for p using assms(1,3) unfolding ctx_wf_def by blast
  have "getNode q c = Some (case ctx_lookupNode path c of None \<Rightarrow> node | Some n \<Rightarrow> n)" if "q \<in> opened c path" for q
    using lookup_opened [OF assms(1,2) that] that assms(1) unfolding ctx_wf_def by (auto split: option.splits)
  note found = this
  show ?thesis
  proof (rule sharedI)
    fix p q q'
    let ?n = "case ctx_lookupNode path c of None \<Rightarrow> node | Some n \<Rightarrow> n"
    assume q: "q \<in> opened (putNode path ?n pl c) p" "q' \<in> opened (putNode path ?n pl c) p"
    show "getNode q (putNode path ?n pl c) = getNode q' (putNode path ?n pl c)"
    proof (cases "p = path")
      case True
      then show ?thesis using q found unfolding ctx_simps by (metis insertE)
    next
      case False
      then have "q \<in> opened c p" "q' \<in> opened c p" using q unfolding ctx_simps by simp_all
      then show ?thesis using sharedD [OF assms(2)] fresh unfolding ctx_simps by metis
    qed
  qed
qed

lemma shared_erase:
  assumes "ctx_wf c" and "ctx_shared c"
  shows "ctx_shared (snd (eraseNode path pl c))"
proof (rule sharedI)
  fix p q q'
  assume q: "q \<in> opened (snd (eraseNode path pl c)) p" "q' \<in> opened (snd (eraseNode path pl c)) p"
  then have "q \<in> opened c p" "q' \<in> opened c p" "q \<noteq> pl \<or> pl \<notin> opened c path" "q' \<noteq> pl \<or> pl \<notin> opened c path"
    using assms(1) unfolding ctx_simps ctx_wf_def by (metis Diff_iff singletonI)+
  then show "getNode q (snd (eraseNode path pl c)) = getNode q' (snd (eraseNode path pl c))"
    using sharedD [OF assms(2)] unfolding ctx_simps by metis
qed

lemma shared_rename: "ctx_shared c \<Longrightarrow> ctx_shared (ctx_renameNode from to c)"
  unfolding ctx_shared_def opened_rename node_rename by (metis empty_iff)

lemma shared_other:
  "ctx_shared (setRoot rd r c) = ctx_shared c" "ctx_shared (snd (getAndResetUsageCounter c)) = ctx_shared c"
  by (simp_all only: ctx_shared_def opened_other)

lemma step_inv: "ctx_step c c' \<Longrightarrow> ctx_wf c \<Longrightarrow> ctx_shared c \<Longrightarrow> ctx_wf c' \<and> ctx_shared c'"
  by (induction rule: ctx_step.induct)
     (simp_all add: wf_putNode wf_erase wf_rename shared_open shared_erase shared_rename wf_other shared_other)

lemma reach_inv: "ctx_step\<^sup>*\<^sup>* EncFS_Context_new c \<Longrightarrow> ctx_wf c \<and> ctx_shared c"
  by (induction rule: rtranclp_induct)
     (auto simp: step_inv, auto simp: ctx_wf_def ctx_shared_def opened_def)

lemma count_paths:
  assumes "ctx_wf c"
  shows "openFileCount c = card {path. opened c path \<noteq> {}}"
proof -
  have "{path. opened c path \<noteq> {}} = set (map fst (cx_openFiles c))"
    using opened_None [OF assms] map_of_eq_None_iff [of "cx_openFiles c"] by auto
  then show ?thesis
    using assms distinct_card [of "map fst (cx_openFiles c)"] by (simp add: ctx_wf_def openFileCount_def)
qed

text \<open>A handle that is in no set is never freed.\<close>

lemma step_orphan:
  "ctx_step c c' \<Longrightarrow> getNode pl c \<noteq> None \<Longrightarrow> (\<forall>path. pl \<notin> opened c path) \<Longrightarrow>
     getNode pl c' = getNode pl c \<and> (\<forall>path. pl \<notin> opened c' path)"
  by (induction rule: ctx_step.induct) (auto simp: ctx_simps split: if_splits)

lemma reach_orphan:
  "ctx_step\<^sup>*\<^sup>* c c' \<Longrightarrow> getNode pl c \<noteq> None \<Longrightarrow> (\<forall>path. pl \<notin> opened c path) \<Longrightarrow>
     getNode pl c' = getNode pl c \<and> (\<forall>path. pl \<notin> opened c' path)"
proof (induction rule: rtranclp_induct)
  case (step c1 c2)
  then show ?case using step_orphan [of c1 c2 pl] by presburger
qed simp

text \<open>
  The steps as the locks allow them: \<open>encfs_open\<close> looks for the node under the lock of the
  root directory, and puts the handle later; the list holds the nodes found in between.
\<close>

inductive open_step ::
  "('n, 'r) EncFS_Context \<times> (bytes \<times> 'n) list \<Rightarrow> ('n, 'r) EncFS_Context \<times> (bytes \<times> 'n) list \<Rightarrow> bool" where
  open_look: "open_step (c, ps) (c, (path, case ctx_lookupNode path c of None \<Rightarrow> node | Some n \<Rightarrow> n) # ps)"
| open_put: "(path, node) \<in> set ps \<Longrightarrow> getNode pl c = None \<Longrightarrow>
     open_step (c, ps) (putNode path node pl c, remove1 (path, node) ps)"
| open_other: "ctx_step c c' \<Longrightarrow> open_step (c, ps) (c', ps)"

subsection \<open>Properties\<close>

text \<open>
  C17: as long as every open looks for the node and puts its handle in one step, any sequence
  of opens, releases (with any arguments) and renames leaves the table in order: all handles
  of a path share one node, which is the one a lookup returns; a lookup fails exactly for
  paths without handles; every handle can be released under its path; the count of open files
  is that of the paths with handles.
\<close>
theorem open_files_shared:
  assumes "ctx_step\<^sup>*\<^sup>* EncFS_Context_new c"
  shows "ctx_wf c \<and> ctx_shared c \<and> openFileCount c = card {path. opened c path \<noteq> {}} \<and>
    (\<forall>path. ctx_lookupNode path c = None \<longleftrightarrow> opened c path = {}) \<and>
    (\<forall>path. \<forall>pl \<in> opened c path. getNode pl c \<noteq> None \<and> ctx_lookupNode path c = getNode pl c \<and>
       fst (eraseNode path pl c) = Inr ())"
proof -
  have w: "ctx_wf c" "ctx_shared c" using reach_inv [OF assms] by simp_all
  have "getNode pl c \<noteq> None \<and> ctx_lookupNode path c = getNode pl c \<and> fst (eraseNode path pl c) = Inr ()"
    if "pl \<in> opened c path" for path pl
  proof -
    have "getNode pl c \<noteq> None" using w(1) that unfolding ctx_wf_def by blast
    moreover have "fst (eraseNode path pl c) = Inr ()"
      using that by (cases "map_of (cx_openFiles c) path") (simp_all add: eraseNode_def opened_def Let_def)
    ultimately show ?thesis using lookup_opened [OF w that] by blast
  qed
  then show ?thesis using w count_paths [OF w(1)] lookup_closed [OF w(1)] by blast
qed

theorem open_files_shared_witness:
  "let c = ctx_renameNode [1] [2] (putNode [1] 10 6 (putNode [1] 10 5 (EncFS_Context_new :: (nat, unit) EncFS_Context))) in
   ctx_lookupNode [2] c = Some 10 \<and> openFileCount c = card {path. opened c path \<noteq> {}} \<and> openFileCount c = 1"
proof -
  let ?c0 = "EncFS_Context_new :: (nat, unit) EncFS_Context"
  let ?c1 = "putNode [1] 10 5 ?c0" and ?c2 = "putNode [1] 10 6 (putNode [1] 10 5 ?c0)"
  have "ctx_step ?c0 ?c1"
    using step_open [of 5 ?c0 "[1]" 10] by (simp add: getNode_def ctx_lookupNode_def)
  moreover have "ctx_step ?c1 ?c2"
    using step_open [of 6 ?c1 "[1]" 11] by (simp add: getNode_def ctx_lookupNode_def putNode_def Let_def)
  moreover have "ctx_step ?c2 (ctx_renameNode [1] [2] ?c2)" by (rule step_rename)
  ultimately have "ctx_step\<^sup>*\<^sup>* ?c0 (ctx_renameNode [1] [2] ?c2)"
    by (rule rtranclp.rtrancl_into_rtrancl [OF rtranclp.rtrancl_into_rtrancl [OF r_into_rtranclp]])
  note p = open_files_shared [OF this]
  have "ctx_lookupNode [2] (ctx_renameNode [1] [2] ?c2) = Some 10" "openFileCount (ctx_renameNode [1] [2] ?c2) = 1"
    by (simp_all add: ctx_lookupNode_def ctx_renameNode_def putNode_def getNode_def openFileCount_def Let_def)
  then show ?thesis using p unfolding Let_def by blast
qed

text \<open>
  the lock of the context is not held from the lookup to the insertion of an open: two
  threads can open the same file at once and end up with two nodes for it, each with its
  own view of the size and the cached block.
\<close>
theorem open_race_two_nodes:
  "\<exists>c :: (nat, unit) EncFS_Context. open_step\<^sup>*\<^sup>* (EncFS_Context_new, []) (c, []) \<and>
     opened c [1] = {1, 2} \<and> getNode 1 c = Some 10 \<and> getNode 2 c = Some 11 \<and> \<not> ctx_shared c"
proof -
  let ?c0 = "EncFS_Context_new :: (nat, unit) EncFS_Context"
  let ?c1 = "putNode [1] 10 1 ?c0" and ?c2 = "putNode [1] 11 2 (putNode [1] 10 1 ?c0)"
  have "open_step (?c0, []) (?c0, [([1], 10)])"
    using open_look [of ?c0 "[]" "[1]" 10] by (simp add: ctx_lookupNode_def)
  moreover have "open_step (?c0, [([1], 10)]) (?c0, [([1], 11), ([1], 10)])"
    using open_look [of ?c0 "[([1], 10)]" "[1]" 11] by (simp add: ctx_lookupNode_def)
  moreover have "open_step (?c0, [([1], 11), ([1], 10)]) (?c1, [([1], 11)])"
    using open_put [of "[1]" 10 "[([1], 11), ([1], 10)]" 1 ?c0] by (simp add: getNode_def)
  moreover have "open_step (?c1, [([1], 11)]) (?c2, [])"
    using open_put [of "[1]" 11 "[([1], 11)]" 2 ?c1] by (simp add: getNode_def putNode_def Let_def)
  ultimately have "open_step\<^sup>*\<^sup>* (?c0, []) (?c2, [])"
    by (rule rtranclp.rtrancl_into_rtrancl [OF rtranclp.rtrancl_into_rtrancl
          [OF rtranclp.rtrancl_into_rtrancl [OF r_into_rtranclp]]])
  moreover have "opened ?c2 [1] = {1, 2}" "getNode 1 ?c2 = Some 10" "getNode 2 ?c2 = Some 11"
    by (auto simp: opened_def getNode_def putNode_def Let_def)
  moreover from this have "\<not> ctx_shared ?c2" using sharedD [of ?c2 1 "[1]" 2] by auto
  ultimately show ?thesis by blast
qed



end
