(* ===== verification/DirNode.thy ===== *)
theory DirNode
  imports FileNode Context
begin

text \<open>
  The operations on paths of \<open>encfs/DirNode.cpp\<close>: names of the volume and of the disk,
  listing of directories, the nodes of files, and renaming, which has to rename everything
  below a directory when the names depend on the path.
\<close>

subsection \<open>The state\<close>

text \<open>
  The calls on directories: \<open>ud_stat\<close> gives the result and the two times that are kept
  when a file is renamed; \<open>ud_opendir\<close> the entries with their names and numbers.
\<close>

record 'o unixdir =
  ud_file :: "'o unix"
  ud_rename :: "bytes \<Rightarrow> bytes \<Rightarrow> 'o \<Rightarrow> int \<times> 'o"
  ud_mkdir :: "bytes \<Rightarrow> u32 \<Rightarrow> 'o \<Rightarrow> int \<times> 'o"
  ud_rmdir :: "bytes \<Rightarrow> 'o \<Rightarrow> int \<times> 'o"
  ud_unlink :: "bytes \<Rightarrow> 'o \<Rightarrow> int \<times> 'o"
  ud_stat :: "bytes \<Rightarrow> 'o \<Rightarrow> (int \<times> int \<times> int) \<times> 'o"
  ud_utime :: "bytes \<Rightarrow> int \<times> int \<Rightarrow> 'o \<Rightarrow> int \<times> 'o"
  ud_opendir :: "bytes \<Rightarrow> 'o \<Rightarrow> (bytes \<times> int) list option \<times> 'o"

text \<open>
  The objects of a mounted volume: the context, the nodes that are alive, which are shared
  by address, and the system.  A \<open>DirNode\<close> itself does not change.
\<close>

record ('o, 'r) volume =
  v_ctx :: "(nat, 'r) EncFS_Context"
  v_nodes :: "(nat \<times> filenode) list"
  v_next :: nat
  v_os :: 'o

type_synonym ('o, 'r, 'a) vm = "(('o, 'r) volume, 'a) sm"

record 'k dirnode =
  dn_ctx :: bool
  dn_rootDir :: bytes
  dn_cfg :: "'k FSConfig"

abbreviation naming :: "'k dirnode \<Rightarrow> nameio" where
  "naming dn \<equiv> fs_nameCoding (dn_cfg dn)"

definition vos :: "('o \<Rightarrow> 'a \<times> 'o) \<Rightarrow> ('o, 'r, 'a) vm" where
  "vos f = (\<lambda>v. case f (v_os v) of (r, w) \<Rightarrow> (Inr r, v\<lparr>v_os := w\<rparr>))"

definition errno :: "'o unixdir \<Rightarrow> ('o, 'r, int) vm" where
  "errno u = sget (\<lambda>v. ux_errno (ud_file u) (v_os v))"

text \<open>A method of the node at an address; an address without a node does not occur.\<close>

definition onNode :: "nat \<Rightarrow> ('o, 'a) fm \<Rightarrow> ('o, 'r, 'a) vm" where
  "onNode i m = (\<lambda>v. case map_of (v_nodes v) i of
       None \<Rightarrow> (Inl AssertFailed, v)
     | Some fn \<Rightarrow> (case m (fn, v_os v) of (r, fn, w) \<Rightarrow>
         (r, v\<lparr>v_nodes := AList.update i fn (v_nodes v), v_os := w\<rparr>)))"

definition newNode :: "filenode \<Rightarrow> ('o, 'r, nat) vm" where
  "newNode fn = (\<lambda>v. (Inr (v_next v), v\<lparr>v_nodes := (v_next v, fn) # v_nodes v, v_next := v_next v + 1\<rparr>))"

text \<open>
  A local \<open>shared_ptr\<close> goes out of scope: the node is destroyed unless a handle shares it.
  The other combinators are \<open>try\<close> with a handler, and code that runs on every exit or
  when an exception leaves the block.  The end of the fuel is no exception.
\<close>

definition dropNode :: "'o unixdir \<Rightarrow> nat \<Rightarrow> ('o, 'r) volume \<Rightarrow> ('o, 'r) volume" where
  "dropNode u i v =
     (if i \<in> snd ` set (cx_holders (v_ctx v)) then v
      else case map_of (v_nodes v) i of
        None \<Rightarrow> v
      | Some fn \<Rightarrow> v\<lparr>v_nodes := AList.delete i (v_nodes v),
                     v_os := FileNode_destroy (ud_file u) fn (v_os v)\<rparr>)"

definition scatch :: "('s, 'a) sm \<Rightarrow> ('s, 'a) sm \<Rightarrow> ('s, 'a) sm" where
  "scatch m h = (\<lambda>s. case m s of
       (Inl e, s') \<Rightarrow> if e = Diverges then (Inl e, s') else h s'
     | (Inr x, s') \<Rightarrow> (Inr x, s'))"

definition sfinally :: "('s, 'a) sm \<Rightarrow> ('s \<Rightarrow> 's) \<Rightarrow> ('s, 'a) sm" where
  "sfinally m f = (\<lambda>s. case m s of (r, s') \<Rightarrow> (r, f s'))"

definition sunwind :: "('s, 'a) sm \<Rightarrow> ('s \<Rightarrow> 's) \<Rightarrow> ('s, 'a) sm" where
  "sunwind m f = (\<lambda>s. case m s of (Inl e, s') \<Rightarrow> (Inl e, f s') | (Inr x, s') \<Rightarrow> (Inr x, s'))"

subsection \<open>Names\<close>

definition DirNode_new :: "bool \<Rightarrow> bytes \<Rightarrow> 'k FSConfig \<Rightarrow> 'k dirnode" where
  "DirNode_new ctx sourceDir config =
     \<lparr>dn_ctx = ctx,
      dn_rootDir = (if sourceDir \<noteq> [] \<and> last sourceDir = 47 then sourceDir else sourceDir @ [47]),
      dn_cfg = config\<rparr>"

definition hasDirectoryNameDependency :: "'k dirnode \<Rightarrow> bool" where
  "hasDirectoryNameDependency dn = ni_chainedNameIV (naming dn)"

definition rootDirectory :: "'k dirnode \<Rightarrow> bytes" where
  "rootDirectory dn = take (length (dn_rootDir dn) - 1) (dn_rootDir dn)"

definition cipherPath :: "'k dirnode \<Rightarrow> bytes \<Rightarrow> bytes res" where
  "cipherPath dn plaintextPath = rbind (encodePath (naming dn) plaintextPath) (\<lambda>c. Inr (dn_rootDir dn @ c))"

definition cipherPathWithoutRoot :: "'k dirnode \<Rightarrow> bytes \<Rightarrow> bytes res" where
  "cipherPathWithoutRoot dn plaintextPath = encodePath (naming dn) plaintextPath"

definition plainPath :: "'k dirnode \<Rightarrow> bytes \<Rightarrow> bytes" where
  "plainPath dn path =
     (case (if take (length (dn_rootDir dn)) path = dn_rootDir dn
            then decodePath (naming dn) (drop (length (dn_rootDir dn)) path)
            else if path \<noteq> [] \<and> hd path = 43
            then rbind (decodeName (naming dn) (tl path)) (\<lambda>n. Inr (47 # n))
            else decodePath (naming dn) path) of
        Inl e \<Rightarrow> []
      | Inr p \<Rightarrow> p)"

definition relativeCipherPath :: "'k dirnode \<Rightarrow> bytes \<Rightarrow> bytes" where
  "relativeCipherPath dn path =
     (case (if path \<noteq> [] \<and> hd path = 47
            then rbind (encodeName (naming dn) (tl path)) (\<lambda>n. Inr (43 # n))
            else encodePath (naming dn) path) of
        Inl e \<Rightarrow> []
      | Inr p \<Rightarrow> p)"

subsection \<open>Listing\<close>

text \<open>The entries that are left; \<open>None\<close> is the object of a directory that could not be opened.\<close>

record traverse =
  dt_dir :: "(bytes \<times> int) list option"
  dt_iv :: u64
  dt_naming :: nameio

definition dt_valid :: "traverse \<Rightarrow> bool" where
  "dt_valid dt = (dt_dir dt \<noteq> None)"

text \<open>The name and the number of the next entry that can be decoded, or the empty name.\<close>

fun nextName :: "nameio \<Rightarrow> u64 \<Rightarrow> (bytes \<times> int) list \<Rightarrow> (bytes \<times> int) \<times> (bytes \<times> int) list" where
  "nextName n iv [] = (([], 0), [])"
| "nextName n iv ((d_name, d_ino) # de) =
     (case decodePath_iv n d_name iv of
        Inr (name, _) \<Rightarrow> ((name, d_ino), de)
      | Inl _ \<Rightarrow> nextName n iv de)"

fun nextBad :: "nameio \<Rightarrow> u64 \<Rightarrow> (bytes \<times> int) list \<Rightarrow> bytes \<times> (bytes \<times> int) list" where
  "nextBad n iv [] = ([], [])"
| "nextBad n iv ((d_name, d_ino) # de) =
     (case decodePath_iv n d_name iv of
        Inr _ \<Rightarrow> nextBad n iv de
      | Inl _ \<Rightarrow> (d_name, de))"

definition nextPlaintextName :: "traverse \<Rightarrow> (bytes \<times> int) \<times> traverse" where
  "nextPlaintextName dt =
     (case nextName (dt_naming dt) (dt_iv dt) (case dt_dir dt of None \<Rightarrow> [] | Some de \<Rightarrow> de) of
        (r, de) \<Rightarrow> (r, dt\<lparr>dt_dir := map_option (\<lambda>_. de) (dt_dir dt)\<rparr>))"

definition nextInvalid :: "traverse \<Rightarrow> bytes \<times> traverse" where
  "nextInvalid dt =
     (case nextBad (dt_naming dt) (dt_iv dt) (case dt_dir dt of None \<Rightarrow> [] | Some de \<Rightarrow> de) of
        (r, de) \<Rightarrow> (r, dt\<lparr>dt_dir := map_option (\<lambda>_. de) (dt_dir dt)\<rparr>))"

definition openDir :: "'k dirnode \<Rightarrow> 'o unixdir \<Rightarrow> bytes \<Rightarrow> ('o, 'r, traverse) vm" where
  "openDir dn u plaintextPath =
     sbind (sres (cipherPath dn plaintextPath)) (\<lambda>cyName.
     sbind (vos (ud_opendir u cyName)) (\<lambda>dir.
     case dir of
       None \<Rightarrow> sret \<lparr>dt_dir = None, dt_iv = 0, dt_naming = naming dn\<rparr>
     | Some de \<Rightarrow>
         sret \<lparr>dt_dir = Some de,
               dt_iv = (if ni_chainedNameIV (naming dn)
                        then (case encodePath_iv (naming dn) plaintextPath 0 of
                                Inr (_, iv) \<Rightarrow> iv
                              | Inl _ \<Rightarrow> 0)
                        else 0),
               dt_naming = naming dn\<rparr>))"

subsection \<open>Nodes\<close>

text \<open>A node and the call that may fail on it: the node goes when an exception passes.\<close>

definition findOrCreate :: "'k dirnode \<Rightarrow> 'o unixdir \<Rightarrow> bytes \<Rightarrow> ('o, 'r, nat) vm" where
  "findOrCreate dn u plainName =
     sbind (sget (\<lambda>v. if dn_ctx dn then ctx_lookupNode plainName (v_ctx v) else None)) (\<lambda>node.
     case node of
       Some i \<Rightarrow> sret i
     | None \<Rightarrow>
         sbind (sres (encodePath_iv (naming dn) plainName 0)) (\<lambda>(cipherName, iv).
         sbind (sres (FileNode_new (dn_cfg dn) plainName (dn_rootDir dn @ cipherName))) (\<lambda>fn.
         sbind (newNode fn) (\<lambda>i.
         if c_externalIVChaining (fs_config (dn_cfg dn))
         then sunwind (sbind (onNode i (setName (dn_cfg dn) (ud_file u) None None iv True)) (\<lambda>_. sret i))
                (dropNode u i)
         else sret i))))"

definition lookupNode :: "'k dirnode \<Rightarrow> 'o unixdir \<Rightarrow> bytes \<Rightarrow> ('o, 'r, nat) vm" where
  "lookupNode dn u plainName = findOrCreate dn u plainName"

definition directLookup :: "'k dirnode \<Rightarrow> bytes \<Rightarrow> ('o, 'r, nat) vm" where
  "directLookup dn path =
     sbind (sres (FileNode_new (dn_cfg dn) (lit ''unknown'') path)) newNode"

text \<open>The node, when it could be opened, and the result of the open.\<close>

definition openNode :: "'k dirnode \<Rightarrow> 'o unixdir \<Rightarrow> bytes \<Rightarrow> int \<Rightarrow> ('o, 'r, nat option \<times> int) vm" where
  "openNode dn u plainName flags =
     sbind (findOrCreate dn u plainName) (\<lambda>i.
     sbind (sunwind (onNode i (node_open (dn_cfg dn) (ud_file u) flags)) (dropNode u i)) (\<lambda>res.
     if res \<ge> 0 then sret (Some i, res)
     else sbind (smod (dropNode u i)) (\<lambda>_. sret (None, res))))"

text \<open>\<open>renameNode\<close>; all its callers drop the pointer it returns.\<close>

definition renameNode :: "'k dirnode \<Rightarrow> 'o unixdir \<Rightarrow> bytes \<Rightarrow> bytes \<Rightarrow> bool \<Rightarrow> ('o, 'r, unit) vm" where
  "renameNode dn u from to forwardMode =
     sbind (findOrCreate dn u from) (\<lambda>i.
     sfinally
       (sbind (sres (encodePath_iv (naming dn) to 0)) (\<lambda>(c, newIV).
        sbind (onNode i (setName (dn_cfg dn) (ud_file u) (Some to) (Some (dn_rootDir dn @ c)) newIV forwardMode)) (\<lambda>ok.
        if ok
        then (if dn_ctx dn then smod (\<lambda>v. v\<lparr>v_ctx := ctx_renameNode from to (v_ctx v)\<rparr>) else sret ())
        else sthrow NameChangeFailed)))
       (dropNode u i))"

subsection \<open>Renaming everything below a directory\<close>

record rename_el =
  ren_oldCName :: bytes
  ren_newCName :: bytes
  ren_oldPName :: bytes
  ren_newPName :: bytes
  ren_isDirectory :: bool

text \<open>
  The loop over the entries of a directory; \<open>recurse\<close> is the function itself.  \<open>None\<close> is
  the result \<open>false\<close>, after which the list is not used.
\<close>

definition dotName :: "bytes \<Rightarrow> bool" where
  "dotName d_name \<longleftrightarrow> d_name = [46] \<or> d_name = [46, 46]"

definition rename_entry ::
  "(bytes \<Rightarrow> bytes \<Rightarrow> rename_el list \<Rightarrow> ('o, 'r, rename_el list option) vm) \<Rightarrow> 'k dirnode \<Rightarrow> 'o unixdir
     \<Rightarrow> bytes \<Rightarrow> bytes \<Rightarrow> u64 \<Rightarrow> bytes \<Rightarrow> bytes \<Rightarrow> bytes \<Rightarrow> rename_el list
     \<Rightarrow> ('o, 'r, rename_el list option) vm" where
  "rename_entry recurse dn u fromP toP toIV sourcePath d_name plainName renameList =
     sbind (sres (encodePath_iv (naming dn) plainName toIV)) (\<lambda>(newName, _).
     let oldFull = sourcePath @ 47 # d_name;
         newFull = sourcePath @ 47 # newName;
         oldP = fromP @ 47 # plainName;
         newP = toP @ 47 # plainName in
     sbind (vos (isDirectory (ux_lstat (ud_file u)) oldFull)) (\<lambda>isDir.
     sbind (if isDir then recurse oldP newP renameList else sret (Some renameList)) (\<lambda>r.
     sret (map_option (\<lambda>l. l @ [\<lparr>ren_oldCName = oldFull, ren_newCName = newFull, ren_oldPName = oldP,
        ren_newPName = newP, ren_isDirectory = isDir\<rparr>]) r))))"

fun renameLoop ::
  "(bytes \<Rightarrow> bytes \<Rightarrow> rename_el list \<Rightarrow> ('o, 'r, rename_el list option) vm) \<Rightarrow> 'k dirnode \<Rightarrow> 'o unixdir
     \<Rightarrow> bytes \<Rightarrow> bytes \<Rightarrow> u64 \<Rightarrow> u64 \<Rightarrow> bytes \<Rightarrow> (bytes \<times> int) list \<Rightarrow> rename_el list
     \<Rightarrow> ('o, 'r, rename_el list option) vm" where
  "renameLoop recurse dn u fromP toP fromIV toIV sourcePath [] renameList = sret (Some renameList)"
| "renameLoop recurse dn u fromP toP fromIV toIV sourcePath ((d_name, d_ino) # de) renameList =
     (let continue = renameLoop recurse dn u fromP toP fromIV toIV sourcePath de in
      if dotName d_name then continue renameList
      else case decodePath_iv (naming dn) d_name fromIV of
        Inl e \<Rightarrow> continue renameList
      | Inr (plainName, _) \<Rightarrow>
          sbind (scatch (rename_entry recurse dn u fromP toP toIV sourcePath d_name plainName renameList)
                   (sret None)) (\<lambda>r.
          case r of
            None \<Rightarrow> sret None
          | Some renameList \<Rightarrow> continue renameList))"

text \<open>The fuel is the depth of directories the recursion may visit.\<close>

fun genRenameList ::
  "nat \<Rightarrow> 'k dirnode \<Rightarrow> 'o unixdir \<Rightarrow> bytes \<Rightarrow> bytes \<Rightarrow> rename_el list \<Rightarrow> ('o, 'r, rename_el list option) vm" where
  "genRenameList 0 dn u fromP toP renameList = sthrow Diverges"
| "genRenameList (Suc depth) dn u fromP toP renameList =
     sbind (sres (encodePath_iv (naming dn) fromP 0)) (\<lambda>(fromCPart, fromIV).
     sbind (sres (encodePath_iv (naming dn) toP 0)) (\<lambda>(toCPart, toIV).
     let sourcePath = dn_rootDir dn @ fromCPart in
     if fromIV = toIV then sret (Some renameList)
     else sbind (vos (ud_opendir u sourcePath)) (\<lambda>dir.
       case dir of
         None \<Rightarrow> sret None
       | Some de \<Rightarrow>
           renameLoop (genRenameList depth dn u) dn u fromP toP fromIV toIV sourcePath de renameList)))"

text \<open>The list, or the null pointer.\<close>

definition newRenameOp ::
  "nat \<Rightarrow> 'k dirnode \<Rightarrow> 'o unixdir \<Rightarrow> bytes \<Rightarrow> bytes \<Rightarrow> ('o, 'r, rename_el list option) vm" where
  "newRenameOp depth dn u fromP toP = genRenameList depth dn u fromP toP []"

text \<open>
  One round of \<open>apply\<close>, and the loop: the result and the number of renamings done, the
  position \<open>last\<close>.
\<close>

definition apply_one :: "'k dirnode \<Rightarrow> 'o unixdir \<Rightarrow> rename_el \<Rightarrow> ('o, 'r, bool) vm" where
  "apply_one dn u el =
     scatch
       (sbind (vos (ud_stat u (ren_oldCName el))) (\<lambda>(st, times).
        sbind (renameNode dn u (ren_oldPName el) (ren_newPName el) True) (\<lambda>_.
        sbind (vos (ud_rename u (ren_oldCName el) (ren_newCName el))) (\<lambda>res.
        if res = -1
        then sbind (renameNode dn u (ren_newPName el) (ren_oldPName el) False) (\<lambda>_. sret False)
        else sbind (if st = 0 then vos (ud_utime u (ren_newCName el) times) else sret 0) (\<lambda>_. sret True)))))
       (sret False)"

fun rename_apply :: "'k dirnode \<Rightarrow> 'o unixdir \<Rightarrow> rename_el list \<Rightarrow> ('o, 'r, bool \<times> nat) vm" where
  "rename_apply dn u [] = sret (True, 0)"
| "rename_apply dn u (el # els) =
     sbind (apply_one dn u el) (\<lambda>ok.
     if ok then sbind (rename_apply dn u els) (\<lambda>(r, n). sret (r, Suc n)) else sret (False, 0))"

text \<open>The renamings done are undone from the last to the first; errors are ignored.\<close>

definition undo_one :: "'k dirnode \<Rightarrow> 'o unixdir \<Rightarrow> rename_el \<Rightarrow> ('o, 'r, unit) vm" where
  "undo_one dn u el =
     sbind (vos (ud_rename u (ren_newCName el) (ren_oldCName el))) (\<lambda>_.
     scatch (renameNode dn u (ren_newPName el) (ren_oldPName el) False) (sret ()))"

fun undo_all :: "'k dirnode \<Rightarrow> 'o unixdir \<Rightarrow> rename_el list \<Rightarrow> ('o, 'r, unit) vm" where
  "undo_all dn u [] = sret ()"
| "undo_all dn u (el # els) = sbind (undo_one dn u el) (\<lambda>_. undo_all dn u els)"

definition rename_undo :: "'k dirnode \<Rightarrow> 'o unixdir \<Rightarrow> rename_el list \<Rightarrow> nat \<Rightarrow> ('o, 'r, unit) vm" where
  "rename_undo dn u els n = undo_all dn u (rev (take n els))"

subsection \<open>The operations on the volume\<close>

definition EPERM :: int where "EPERM = 1"

definition DirNode_mkdir :: "'k dirnode \<Rightarrow> 'o unixdir \<Rightarrow> bytes \<Rightarrow> u32 \<Rightarrow> ('o, 'r, int) vm" where
  "DirNode_mkdir dn u plaintextPath mode =
     sbind (sres (cipherPath dn plaintextPath)) (\<lambda>cyName.
     sbind (sres (rAssert (cyName \<noteq> []))) (\<lambda>_.
     sbind (vos (ud_mkdir u cyName mode)) (\<lambda>res.
     sbind (errno u) (\<lambda>eno. sret (if res = -1 then - eno else 0)))))"

text \<open>
  The list of renamings, when there is one, is applied first; then the directory itself is
  renamed.  The node of the target is held until its name is taken.
\<close>

definition rename_children ::
  "nat \<Rightarrow> 'k dirnode \<Rightarrow> 'o unixdir \<Rightarrow> bytes \<Rightarrow> bytes \<Rightarrow> ('o, 'r, rename_el list option) vm" where
  "rename_children depth dn u fromP toP =
     sbind (newRenameOp depth dn u fromP toP) (\<lambda>renameOp.
     case renameOp of
       None \<Rightarrow> sret None
     | Some els \<Rightarrow>
         sbind (rename_apply dn u els) (\<lambda>(ok, n).
         if ok then sret (Some els) else sbind (rename_undo dn u els n) (\<lambda>_. sret None)))"

definition rename_self ::
  "'k dirnode \<Rightarrow> 'o unixdir \<Rightarrow> bytes \<Rightarrow> bytes \<Rightarrow> bytes \<Rightarrow> bytes \<Rightarrow> nat \<Rightarrow> rename_el list option
     \<Rightarrow> ('o, 'r, int) vm" where
  "rename_self dn u fromP toP fromC toC toNode renameOp =
     sbind (vos (ud_stat u fromC)) (\<lambda>(st, times).
     sbind (renameNode dn u fromP toP True) (\<lambda>_.
     sbind (smod (dropNode u toNode)) (\<lambda>_.
     sbind (vos (ud_rename u fromC toC)) (\<lambda>res.
     if res = -1
     then sbind (errno u) (\<lambda>eno.
          sbind (renameNode dn u toP fromP False) (\<lambda>_.
          sbind (case renameOp of None \<Rightarrow> sret () | Some els \<Rightarrow> rename_undo dn u els (length els)) (\<lambda>_.
          sret (- eno))))
     else sbind (if st = 0 then vos (ud_utime u toC times) else sret 0) (\<lambda>_. sret res)))))"

definition rename_finish ::
  "'k dirnode \<Rightarrow> 'o unixdir \<Rightarrow> bytes \<Rightarrow> bytes \<Rightarrow> bytes \<Rightarrow> bytes \<Rightarrow> nat \<Rightarrow> rename_el list option
     \<Rightarrow> ('o, 'r, int) vm" where
  "rename_finish dn u fromP toP fromC toC toNode renameOp =
     sbind (scatch (rename_self dn u fromP toP fromC toC toNode renameOp) (sret (- EIO))) (\<lambda>res.
     sbind (errno u) (\<lambda>eno. sret (if res \<noteq> 0 then - eno else res)))"

definition rename_both ::
  "nat \<Rightarrow> 'k dirnode \<Rightarrow> 'o unixdir \<Rightarrow> bytes \<Rightarrow> bytes \<Rightarrow> bytes \<Rightarrow> bytes \<Rightarrow> nat \<Rightarrow> ('o, 'r, int) vm" where
  "rename_both depth dn u fromP toP fromC toC toNode =
     sbind (if hasDirectoryNameDependency dn
            then vos (isDirectory (ux_lstat (ud_file u)) fromC) else sret False) (\<lambda>recursive.
     if recursive
     then sbind (rename_children depth dn u fromP toP) (\<lambda>r.
          case r of
            None \<Rightarrow> sret (- EACCES)
          | Some els \<Rightarrow> rename_finish dn u fromP toP fromC toC toNode (Some els))
     else rename_finish dn u fromP toP fromC toC toNode None)"

definition DirNode_rename ::
  "nat \<Rightarrow> 'k dirnode \<Rightarrow> 'o unixdir \<Rightarrow> bytes \<Rightarrow> bytes \<Rightarrow> ('o, 'r, int) vm" where
  "DirNode_rename depth dn u fromPlaintext toPlaintext =
     sbind (sres (cipherPath dn fromPlaintext)) (\<lambda>fromCName.
     sbind (sres (cipherPath dn toPlaintext)) (\<lambda>toCName.
     sbind (sres (rAssert (fromCName \<noteq> []))) (\<lambda>_.
     sbind (sres (rAssert (toCName \<noteq> []))) (\<lambda>_.
     sbind (findOrCreate dn u toPlaintext) (\<lambda>toNode.
     sfinally (rename_both depth dn u fromPlaintext toPlaintext fromCName toCName toNode)
       (dropNode u toNode))))))"

definition DirNode_link :: "'k dirnode \<Rightarrow> bytes \<Rightarrow> bytes \<Rightarrow> ('o, 'r, int) vm" where
  "DirNode_link dn from to =
     sbind (sres (cipherPath dn from)) (\<lambda>fromCName.
     sbind (sres (cipherPath dn to)) (\<lambda>toCName.
     sbind (sres (rAssert (fromCName \<noteq> []))) (\<lambda>_.
     sbind (sres (rAssert (toCName \<noteq> []))) (\<lambda>_.
     sret (if c_externalIVChaining (fs_config (dn_cfg dn)) then - EPERM else - ENOSYS)))))"

definition DirNode_unlink :: "'k dirnode \<Rightarrow> 'o unixdir \<Rightarrow> bytes \<Rightarrow> ('o, 'r, int) vm" where
  "DirNode_unlink dn u plaintextName =
     sbind (sres (cipherPath dn plaintextName)) (\<lambda>fullName.
     sbind (vos (ud_unlink u fullName)) (\<lambda>res.
     sbind (errno u) (\<lambda>eno. sret (if res = -1 then - eno else res))))"

subsection \<open>What the node calls keep\<close>

abbreviation os_holds :: "('o \<Rightarrow> bool) \<Rightarrow> ('o, 'r) volume \<Rightarrow> bool" where
  "os_holds Q \<equiv> \<lambda>v. Q (v_os v)"

lemma keeps_vos: "(\<And>w. Q w \<Longrightarrow> Q (snd (f w))) \<Longrightarrow> keeps (os_holds Q) (vos f)"
  by (simp add: keeps_def vos_def split: prod.splits) (metis snd_conv)

lemma keeps_onNode: "keeps (\<lambda>(fn, w). Q w) m \<Longrightarrow> keeps (os_holds Q) (onNode i m)"
  by (simp add: keeps_def onNode_def split: prod.splits option.splits) (metis snd_conv)

lemma keeps_newNode: "keeps (os_holds Q) (newNode fn)"
  by (simp add: keeps_def newNode_def)

lemma keeps_errno [keep]: "keeps P (errno u)"
  by (simp add: errno_def)

lemma keeps_scatch [keep]:
  assumes "keeps P m" and "keeps P h"
  shows "keeps P (scatch m h)"
  unfolding keeps_def
proof (intro allI impI)
  fix s assume "P s"
  obtain r s' where m: "m s = (r, s')" by (cases "m s")
  then have "P s'" using keepsD [OF assms(1) \<open>P s\<close>] by blast
  then show "P (snd (scatch m h s))" using m assms(2) by (cases r) (simp_all add: scatch_def keeps_def)
qed

lemma keeps_sfinally [keep]: "keeps P m \<Longrightarrow> (\<And>s. P s \<Longrightarrow> P (f s)) \<Longrightarrow> keeps P (sfinally m f)"
  by (simp add: keeps_def sfinally_def split: prod.splits) (metis snd_conv)

lemma keeps_sunwind [keep]: "keeps P m \<Longrightarrow> (\<And>s. P s \<Longrightarrow> P (f s)) \<Longrightarrow> keeps P (sunwind m f)"
  by (simp add: keeps_def sunwind_def split: prod.splits sum.splits) (metis snd_conv)

lemma keeps_smod: "(\<And>s. P s \<Longrightarrow> P (f s)) \<Longrightarrow> keeps P (smod f)"
  by (simp add: keeps_def smod_def)

lemma dropNode_os:
  assumes "ux_keeps (ud_file u) Q" and "Q (v_os v)"
  shows "Q (v_os (dropNode u i v))"
  using assms destroy_keeps [OF assms(1)] by (simp add: dropNode_def split: option.splits)

lemma keeps_findOrCreate:
  assumes "ux_keeps (ud_file u) Q"
  shows "keeps (os_holds Q) (findOrCreate dn u p)"
  unfolding findOrCreate_def
  by (intro keep keeps_newNode keeps_onNode keeps_setName assms dropNode_os [OF assms])

lemma keeps_renameNode:
  assumes "ux_keeps (ud_file u) Q"
  shows "keeps (os_holds Q) (renameNode dn u from to fwd)"
  unfolding renameNode_def
  by (intro keep keeps_findOrCreate keeps_onNode keeps_setName assms dropNode_os [OF assms] keeps_smod) simp

end
