(* ===== verification/Rename.thy ===== *)
theory Rename
  imports DirNode
begin

text \<open>
  What renaming does to the names on the disk (\<open>RenameOp\<close> and \<open>DirNode::rename\<close> of
  \<open>encfs/DirNode.cpp\<close>): everything below a directory is renamed first, in an order that
  keeps the paths valid, and put back when something fails.
\<close>

subsection \<open>The names on the disk\<close>

text \<open>
  \<open>tree\<close> is what the disk says about names, \<open>free\<close> that nothing has a name or is below it.
  Calls on files and the times keep it; a renaming fails without effect or moves a name, and
  then the way back is open as long as nothing was overwritten.
\<close>

text \<open>No renaming of the list overwrites anything.\<close>

fun fresh_list :: "(bytes \<Rightarrow> bytes \<Rightarrow> 't \<Rightarrow> 't) \<Rightarrow> ('t \<Rightarrow> bytes \<Rightarrow> bool) \<Rightarrow> 't \<Rightarrow> rename_el list \<Rightarrow> bool" where
  "fresh_list mv free t [] \<longleftrightarrow> True"
| "fresh_list mv free t (el # els) \<longleftrightarrow>
     free t (ren_newCName el) \<and> fresh_list mv free (mv (ren_oldCName el) (ren_newCName el) t) els"

text \<open>The names after the renamings of a list.\<close>

definition moved :: "(bytes \<Rightarrow> bytes \<Rightarrow> 't \<Rightarrow> 't) \<Rightarrow> rename_el list \<Rightarrow> 't \<Rightarrow> 't" where
  "moved mv els t = fold (\<lambda>el. mv (ren_oldCName el) (ren_newCName el)) els t"

locale unix_names =
  fixes u :: "'o unixdir" and tree :: "'o \<Rightarrow> 't" and mv :: "bytes \<Rightarrow> bytes \<Rightarrow> 't \<Rightarrow> 't"
    and free :: "'t \<Rightarrow> bytes \<Rightarrow> bool"
  assumes file_tree: "ux_keeps (ud_file u) (\<lambda>w. tree w = t)"
    and stat_tree: "tree (snd (ud_stat u p w)) = tree w"
    and utime_tree: "tree (snd (ud_utime u p ts w)) = tree w"
    and opendir_tree: "tree (snd (ud_opendir u p w)) = tree w"
    and rename_tree: "ud_rename u a b w = (r, w') \<Longrightarrow>
      r = -1 \<and> tree w' = tree w \<or> r = 0 \<and> tree w' = mv a b (tree w)"
    and rename_back: "ud_rename u a b w = (0, w') \<Longrightarrow> free (tree w) b \<Longrightarrow> tree w2 = tree w' \<Longrightarrow>
      \<exists>w3. ud_rename u b a w2 = (0, w3) \<and> tree w3 = tree w"
begin

abbreviation tree_is :: "'t \<Rightarrow> ('o, 'r) volume \<Rightarrow> bool" where
  "tree_is t \<equiv> \<lambda>v. tree (v_os v) = t"

lemma keeps_tree_node:
  "keeps (tree_is t) (findOrCreate dn u p)" "keeps (tree_is t) (renameNode dn u a b fwd)"
  by (rule keeps_findOrCreate keeps_renameNode, rule file_tree)+

lemma keeps_tree_sys:
  "keeps (tree_is t) (vos (ud_stat u p))" "keeps (tree_is t) (vos (ud_utime u p ts))"
  "keeps (tree_is t) (vos (ud_opendir u p))"
  by (rule keeps_vos, simp add: stat_tree utime_tree opendir_tree)+

lemma lstat_tree: "tree (snd (ux_lstat (ud_file u) p w)) = tree w"
  using file_tree [of "tree w"] by (simp add: ux_keeps_def)

lemma keeps_tree_isDirectory: "keeps (tree_is t) (vos (isDirectory (ux_lstat (ud_file u)) p))"
proof (rule keeps_vos)
  show "tree (snd (isDirectory (ux_lstat (ud_file u)) p w)) = t" if "tree w = t" for w
    using that lstat_tree [of p w] by (auto simp: isDirectory_def split: prod.splits)
qed

lemma drop_tree: "tree (v_os (dropNode u i v)) = tree (v_os v)"
  by (rule dropNode_os [OF file_tree refl])

text \<open>One renaming, done and undone.\<close>

lemma apply_one_tree:
  assumes "apply_one dn u el v = (Inr ok, v')"
  shows "if ok then (\<exists>w w1. tree w = tree (v_os v) \<and> ud_rename u (ren_oldCName el) (ren_newCName el) w = (0, w1) \<and>
            tree (v_os v') = tree w1)
         else tree (v_os v') = tree (v_os v)"
proof -
  obtain st times w1 where st: "ud_stat u (ren_oldCName el) (v_os v) = ((st, times), w1)" by (metis surj_pair)
  let ?v1 = "v\<lparr>v_os := w1\<rparr>"
  have t1: "tree (v_os ?v1) = tree (v_os v)" using stat_tree [of "ren_oldCName el" "v_os v"] st by simp
  obtain r2 v2 where n2: "renameNode dn u (ren_oldPName el) (ren_newPName el) True ?v1 = (r2, v2)"
    by (metis surj_pair)
  have t2: "tree (v_os v2) = tree (v_os v)"
    using keepsD [OF keeps_tree_node(2) _ n2, of "tree (v_os v)"] t1 by simp
  obtain res w3 where mv: "ud_rename u (ren_oldCName el) (ren_newCName el) (v_os v2) = (res, w3)"
    by (metis surj_pair)
  let ?v3 = "v2\<lparr>v_os := w3\<rparr>"
  obtain r4 v4 where n4: "renameNode dn u (ren_newPName el) (ren_oldPName el) False ?v3 = (r4, v4)"
    by (metis surj_pair)
  have t4: "tree (v_os v4) = tree w3"
    using keepsD [OF keeps_tree_node(2) _ n4, of "tree w3"] by simp
  obtain ur w5 where ut: "ud_utime u (ren_newCName el) times w3 = (ur, w5)" by (metis surj_pair)
  have t5: "tree w5 = tree w3" using utime_tree [of "ren_newCName el" times w3] ut by simp
  show ?thesis
  proof (cases r2)
    case (Inl e)
    then show ?thesis
      using assms st n2 t2
      by (auto simp: apply_one_def scatch_def sbind_def vos_def sret_def split: if_splits)
  next
    case (Inr x)
    show ?thesis
    proof (cases "res = -1")
      case True
      then have "tree w3 = tree (v_os v)" using rename_tree [OF mv] t2 by auto
      then show ?thesis
        using assms st n2 Inr mv True n4 t4
        by (cases r4) (auto simp: apply_one_def scatch_def sbind_def vos_def sret_def split: if_splits)
    next
      case False
      then have "res = 0" using rename_tree [OF mv] by auto
      then show ?thesis
        using assms st n2 Inr mv False ut t2 t5
        by (auto simp: apply_one_def scatch_def sbind_def vos_def sret_def split: if_splits)
    qed
  qed
qed

lemma undo_one_tree:
  assumes "ud_rename u (ren_oldCName el) (ren_newCName el) w = (0, w1)" and "free (tree w) (ren_newCName el)"
    and "tree (v_os v) = tree w1" and "undo_one dn u el v = (Inr x, v')"
  shows "tree (v_os v') = tree w"
proof -
  obtain w3 where b: "ud_rename u (ren_newCName el) (ren_oldCName el) (v_os v) = (0, w3)" "tree w3 = tree w"
    using rename_back [OF assms(1-3)] by blast
  have "keeps (tree_is (tree w)) (scatch (renameNode dn u (ren_newPName el) (ren_oldPName el) False) (sret ()))"
    by (intro keep keeps_tree_node)
  from keepsD [OF this, of "v\<lparr>v_os := w3\<rparr>"] show ?thesis
    using assms(4) b by (simp add: undo_one_def sbind_def vos_def)
qed

lemma undo_all_append: "undo_all dn u (xs @ ys) = sbind (undo_all dn u xs) (\<lambda>_. undo_all dn u ys)"
  by (induction xs) (simp_all add: sbind_assoc, simp add: sbind_def sret_def)

text \<open>Several renamings, done and undone.\<close>

lemma rename_apply_tree:
  assumes "rename_apply dn u els v = (Inr (ok, n), v')"
  shows "tree (v_os v') = moved mv (take n els) (tree (v_os v)) \<and> n \<le> length els \<and> (ok \<longrightarrow> n = length els)"
  using assms
proof (induction els arbitrary: v v' n)
  case Nil
  then show ?case by (simp add: sret_def moved_def)
next
  case (Cons el els)
  obtain ok1 v1 where o: "apply_one dn u el v = (Inr ok1, v1)"
    using Cons(2) by (auto simp: sbind_def split: prod.splits sum.splits)
  show ?case
  proof (cases ok1)
    case True
    then obtain n' where r: "rename_apply dn u els v1 = (Inr (ok, n'), v')" "n = Suc n'"
      using Cons(2) o by (auto simp: sbind_def sret_def split: prod.splits sum.splits)
    obtain w w1 where "tree w = tree (v_os v)" "ud_rename u (ren_oldCName el) (ren_newCName el) w = (0, w1)"
        "tree (v_os v1) = tree w1"
      using apply_one_tree [OF o] True by auto
    then have "tree (v_os v1) = mv (ren_oldCName el) (ren_newCName el) (tree (v_os v))"
      using rename_tree by fastforce
    then show ?thesis using Cons(1) [OF r(1)] r(2) by (simp add: moved_def)
  next
    case False
    then have "ok = False" "n = 0" "v' = v1" using Cons(2) o by (simp_all add: sbind_def sret_def)
    then show ?thesis using apply_one_tree [OF o] False by (simp add: moved_def)
  qed
qed

lemma apply_undo_tree:
  assumes "rename_apply dn u els v = (Inr (ok, n), v1)" and "fresh_list mv free (tree (v_os v)) els"
    and "tree (v_os v2) = tree (v_os v1)" and "rename_undo dn u els n v2 = (Inr (), v3)"
  shows "tree (v_os v3) = tree (v_os v)"
  using assms
proof (induction els arbitrary: v v3 n)
  case Nil
  then show ?case by (simp add: rename_undo_def sret_def)
next
  case (Cons el els)
  obtain ok1 va where o: "apply_one dn u el v = (Inr ok1, va)"
    using Cons(2) by (auto simp: sbind_def split: prod.splits sum.splits)
  show ?case
  proof (cases ok1)
    case True
    then obtain n' where r: "rename_apply dn u els va = (Inr (ok, n'), v1)" "n = Suc n'"
      using Cons(2) o by (auto simp: sbind_def sret_def split: prod.splits sum.splits)
    obtain w w1 where w: "tree w = tree (v_os v)" "ud_rename u (ren_oldCName el) (ren_newCName el) w = (0, w1)"
        "tree (v_os va) = tree w1"
      using apply_one_tree [OF o] True by auto
    then have ta: "tree (v_os va) = mv (ren_oldCName el) (ren_newCName el) (tree (v_os v))"
      using rename_tree by fastforce
    obtain vm where m: "rename_undo dn u els n' v2 = (Inr (), vm)" "undo_one dn u el vm = (Inr (), v3)"
      using Cons(5) r(2) by (auto simp: rename_undo_def undo_all_append sbind_def sret_def split: prod.splits sum.splits)
    have "tree (v_os vm) = tree (v_os va)"
      by (rule Cons(1) [OF r(1) _ Cons(4) m(1)]) (use Cons(3) ta in simp)
    then show ?thesis
      using undo_one_tree [OF w(2) _ _ m(2)] w(1,3) Cons(3) by simp
  next
    case False
    then have "n = 0" "va = v1" using Cons(2) o by (simp_all add: sbind_def sret_def)
    then show ?thesis using apply_one_tree [OF o] False Cons(4,5) by (simp add: rename_undo_def sret_def)
  qed
qed

lemma keeps_renameLoop:
  assumes "\<And>a b l. keeps (tree_is t) (recurse a b l)"
  shows "keeps (tree_is t) (renameLoop recurse dn u fromP toP fromIV toIV src de l)"
proof (induction de arbitrary: l)
  case (Cons e de)
  obtain d_name d_ino where e: "e = (d_name, d_ino)" by (cases e)
  show ?case
    unfolding e renameLoop.simps rename_entry_def Let_def
    by (cases "decodePath_iv (naming dn) d_name fromIV")
       (auto intro!: keep Cons.IH keeps_tree_isDirectory assms)
qed simp

lemma keeps_genRenameList: "keeps (tree_is t) (genRenameList depth dn u a b l)"
proof (induction depth arbitrary: a b l)
  case (Suc depth)
  show ?case
    unfolding genRenameList.simps Let_def
    by (intro keep keeps_renameLoop Suc.IH keeps_tree_sys)
qed simp

lemma undo_throws:
  "undo_all dn u els v = (Inl e, v') \<Longrightarrow> e = Diverges"
proof (induction els arbitrary: v)
  case (Cons el els)
  then show ?case
    by (fastforce simp: undo_one_def sbind_def scatch_def sret_def vos_def split: prod.splits sum.splits if_splits)
qed (simp add: sret_def)

lemma rename_children_tree:
  assumes "rename_children depth dn u a b v = (Inr r, v')"
    and "\<And>els v1. newRenameOp depth dn u a b v = (Inr (Some els), v1) \<Longrightarrow> fresh_list mv free (tree (v_os v)) els"
  shows "case r of
      None \<Rightarrow> tree (v_os v') = tree (v_os v)
    | Some els \<Rightarrow> fresh_list mv free (tree (v_os v)) els \<and> tree (v_os v') = moved mv els (tree (v_os v)) \<and>
        (\<exists>v1. tree (v_os v1) = tree (v_os v) \<and> rename_apply dn u els v1 = (Inr (True, length els), v'))"
proof -
  obtain op v1 where g: "newRenameOp depth dn u a b v = (Inr op, v1)"
    using assms(1) by (auto simp: rename_children_def sbind_def split: prod.splits sum.splits)
  have t1: "tree (v_os v1) = tree (v_os v)"
    using keepsD [OF keeps_genRenameList _ g [unfolded newRenameOp_def], of "tree (v_os v)"] by simp
  show ?thesis
  proof (cases op)
    case None
    then show ?thesis using assms(1) g t1 by (simp add: rename_children_def sbind_def sret_def split: option.splits)
  next
    case (Some els)
    then have f: "fresh_list mv free (tree (v_os v)) els" using assms(2) g by blast
    obtain ok n v2 where ap: "rename_apply dn u els v1 = (Inr (ok, n), v2)"
      using assms(1) g Some by (auto simp: rename_children_def sbind_def split: prod.splits sum.splits)
    show ?thesis
    proof (cases ok)
      case True
      then have "r = Some els" "v' = v2"
        using assms(1) g Some ap by (auto simp: rename_children_def sbind_def sret_def)
      then show ?thesis using rename_apply_tree [OF ap] True f t1 ap by auto
    next
      case False
      then obtain v3 where "rename_undo dn u els n v2 = (Inr (), v3)" "r = None" "v' = v3"
        using assms(1) g Some ap by (auto simp: rename_children_def sbind_def sret_def split: prod.splits sum.splits)
      then show ?thesis using apply_undo_tree [OF ap, of v2 v3] f t1 by simp
    qed
  qed
qed

text \<open>
  The last step: it is done, or everything is undone, or an exception leaves the names as
  they were before this step.
\<close>

lemma rename_self_tree:
  assumes "rename_self dn u fromP toP fromC toC i op v = (r, v')"
    and "case op of None \<Rightarrow> t = tree (v_os v)
       | Some els \<Rightarrow> fresh_list mv free t els \<and>
           (\<exists>v0. tree (v_os v0) = t \<and> rename_apply dn u els v0 = (Inr (True, length els), v))"
  shows "case r of
      Inl e \<Rightarrow> e = Diverges \<or> tree (v_os v') = tree (v_os v)
    | Inr res \<Rightarrow> tree (v_os v') = t \<or> res = 0 \<and> tree (v_os v') = mv fromC toC (tree (v_os v))"
proof -
  obtain st times w1 where st: "ud_stat u fromC (v_os v) = ((st, times), w1)" by (metis surj_pair)
  let ?v1 = "v\<lparr>v_os := w1\<rparr>"
  have t1: "tree (v_os ?v1) = tree (v_os v)" using stat_tree [of fromC "v_os v"] st by simp
  obtain r2 v2 where n2: "renameNode dn u fromP toP True ?v1 = (r2, v2)" by (metis surj_pair)
  have t2: "tree (v_os v2) = tree (v_os v)"
    using keepsD [OF keeps_tree_node(2) _ n2, of "tree (v_os v)"] t1 by simp
  let ?v2 = "dropNode u i v2"
  have d2: "tree (v_os ?v2) = tree (v_os v)" using t2 by (simp add: drop_tree)
  obtain res w3 where mv: "ud_rename u fromC toC (v_os ?v2) = (res, w3)" by (metis surj_pair)
  let ?v3 = "?v2\<lparr>v_os := w3\<rparr>"
  obtain r4 v4 where n4: "renameNode dn u toP fromP False ?v3 = (r4, v4)" by (metis surj_pair)
  have t4: "tree (v_os v4) = tree w3" using keepsD [OF keeps_tree_node(2) _ n4, of "tree w3"] by simp
  obtain ur w5 where ut: "ud_utime u toC times w3 = (ur, w5)" by (metis surj_pair)
  have t5: "tree w5 = tree w3" using utime_tree [of toC times w3] ut by simp
  note defs = rename_self_def sbind_def vos_def sret_def smod_def errno_def sget_def
  show ?thesis
  proof (cases r2)
    case (Inl e)
    then show ?thesis using assms(1) st n2 t2 by (auto simp: defs)
  next
    case (Inr x)
    show ?thesis
    proof (cases "res = -1")
      case False
      then have "res = 0" "tree w3 = mv fromC toC (tree (v_os v))" using rename_tree [OF mv] d2 by auto
      then show ?thesis
        using assms(1) st n2 Inr mv ut t5 by (auto simp: defs split: if_splits)
    next
      case True
      then have w3: "tree w3 = tree (v_os v)" using rename_tree [OF mv] d2 by auto
      show ?thesis
      proof (cases r4)
        case (Inl e)
        then show ?thesis using assms(1) st n2 Inr mv True n4 t4 w3 by (auto simp: defs)
      next
        case r4: (Inr y)
        show ?thesis
        proof (cases op)
          case None
          then show ?thesis using assms st n2 Inr mv True n4 r4 t4 w3 by (auto simp: defs)
        next
          case (Some els)
          obtain r5 v5 where un: "rename_undo dn u els (length els) v4 = (r5, v5)" by (metis surj_pair)
          show ?thesis
          proof (cases r5)
            case (Inl e)
            then show ?thesis
              using assms(1) st n2 Inr mv True n4 r4 Some un undo_throws [OF un [unfolded rename_undo_def Inl]]
              by (auto simp: defs)
          next
            case r5: (Inr z)
            obtain v0 where v0: "tree (v_os v0) = t" "rename_apply dn u els v0 = (Inr (True, length els), v)"
                "fresh_list mv free t els"
              using assms(2) Some by auto
            have "tree (v_os v5) = t"
              using apply_undo_tree [OF v0(2), of v4 v5] v0 t4 w3 un r5 by simp
            then show ?thesis using assms(1) st n2 Inr mv True n4 r4 Some un r5 by (auto simp: defs)
          qed
        qed
      qed
    qed
  qed
qed

lemma rename_finish_tree:
  assumes "rename_finish dn u a b ca cb i op v = (Inr r, v')"
    and "case op of None \<Rightarrow> t = tree (v_os v)
       | Some els \<Rightarrow> fresh_list mv free t els \<and>
           (\<exists>v0. tree (v_os v0) = t \<and> rename_apply dn u els v0 = (Inr (True, length els), v))"
  shows "tree (v_os v') = t \<or> r = 0 \<and> tree (v_os v') = mv ca cb (tree (v_os v)) \<or>
    (\<exists>e. fst (rename_self dn u a b ca cb i op v) = Inl e) \<and> tree (v_os v') = tree (v_os v)"
proof -
  obtain r4 v4 where self: "rename_self dn u a b ca cb i op v = (r4, v4)" by (metis surj_pair)
  note c = rename_self_tree [OF self assms(2)]
  show ?thesis
  proof (cases r4)
    case (Inl e)
    then have "e \<noteq> Diverges" "v' = v4"
      using assms(1) self by (auto simp: rename_finish_def sbind_def scatch_def sret_def errno_def sget_def split: if_splits)
    then show ?thesis using c self Inl by simp
  next
    case (Inr res)
    then have "v' = v4" "res = 0 \<longrightarrow> r = 0"
      using assms(1) self by (auto simp: rename_finish_def sbind_def scatch_def sret_def errno_def sget_def)
    then show ?thesis using c Inr by auto
  qed
qed

text \<open>
  The names after a renaming: as before, all moved, or only what was below moved.  \<open>made\<close>
  are the lists that can be made of these names, and the empty one.
\<close>

abbreviation made :: "'t \<Rightarrow> (('o, 'r, rename_el list option) vm) \<Rightarrow> rename_el list \<Rightarrow> bool" where
  "made t m els \<equiv> els = [] \<or> (\<exists>v1 v2. tree (v_os v1) = t \<and> m v1 = (Inr (Some els), v2))"

lemma rename_both_tree:
  fixes v :: "('o, 'r) volume"
  assumes "rename_both depth dn u a b ca cb i v = (Inr r, v')"
    and "\<And>els. made (tree (v_os v)) (newRenameOp depth dn u a b :: ('o, 'r, rename_el list option) vm) els \<Longrightarrow>
      fresh_list mv free (tree (v_os v)) els"
  shows "tree (v_os v') = tree (v_os v) \<or>
    (\<exists>els. made (tree (v_os v)) (newRenameOp depth dn u a b :: ('o, 'r, rename_el list option) vm) els \<and>
      (r = 0 \<and> tree (v_os v') = mv ca cb (moved mv els (tree (v_os v))) \<or>
       tree (v_os v') = moved mv els (tree (v_os v)) \<and>
         (\<exists>(v1 :: ('o, 'r) volume) e. tree (v_os v1) = moved mv els (tree (v_os v)) \<and>
           fst (rename_self dn u a b ca cb i (Some els) v1) = Inl e)))"
proof -
  obtain isrec v2 where rec: "(if hasDirectoryNameDependency dn
      then vos (isDirectory (ux_lstat (ud_file u)) ca) else sret False) v = (Inr isrec, v2)"
    using assms(1) by (auto simp: rename_both_def sbind_def split: prod.splits sum.splits)
  have "keeps (tree_is t) (if hasDirectoryNameDependency dn
      then vos (isDirectory (ux_lstat (ud_file u)) ca) else sret False)" for t
    by (intro keep keeps_tree_isDirectory)
  from keepsD [OF this refl rec] have t2: "tree (v_os v2) = tree (v_os v)" .
  show ?thesis
  proof (cases isrec)
    case False
    then have fin: "rename_finish dn u a b ca cb i None v2 = (Inr r, v')"
      using assms(1) rec by (simp add: rename_both_def sbind_def)
    show ?thesis
      using rename_finish_tree [OF fin, of "tree (v_os v)"] t2 by (auto simp: moved_def intro: exI [of _ "[]"])
  next
    case True
    then obtain op v3 where ch: "rename_children depth dn u a b v2 = (Inr op, v3)"
      using assms(1) rec by (auto simp: rename_both_def sbind_def split: prod.splits sum.splits)
    have "fresh_list mv free (tree (v_os v2)) els" if "newRenameOp depth dn u a b v2 = (Inr (Some els), v1)" for els v1
      using assms(2) t2 that by metis
    note c = rename_children_tree [OF ch this]
    show ?thesis
    proof (cases op)
      case None
      then have "v' = v3" using assms(1) rec True ch by (simp add: rename_both_def sbind_def sret_def)
      then show ?thesis using c None t2 by simp
    next
      case (Some els)
      then have fin: "rename_finish dn u a b ca cb i (Some els) v3 = (Inr r, v')"
        using assms(1) rec True ch by (simp add: rename_both_def sbind_def)
      have t3: "tree (v_os v3) = moved mv els (tree (v_os v))" using c Some t2 by simp
      obtain v4 where "newRenameOp depth dn u a b v2 = (Inr (Some els), v4)"
        using ch Some by (auto simp: rename_children_def sbind_def sret_def split: prod.splits sum.splits option.splits if_splits)
      then have m: "made (tree (v_os v)) (newRenameOp depth dn u a b :: ('o, 'r, rename_el list option) vm) els"
        using t2 by blast
      have "case Some els of None \<Rightarrow> tree (v_os v) = tree (v_os v3)
         | Some els \<Rightarrow> fresh_list mv free (tree (v_os v)) els \<and>
           (\<exists>v0. tree (v_os v0) = tree (v_os v) \<and> rename_apply dn u els v0 = (Inr (True, length els), v3))"
        using c Some t2 by simp
      from rename_finish_tree [OF fin this] t3 m show ?thesis by (elim disjE) auto
    qed
  qed
qed

lemma rename_tree_cases:
  fixes v :: "('o, 'r) volume"
  assumes "DirNode_rename depth dn u a b v = (Inr r, v')"
    and "cipherPath dn a = Inr ca" and "cipherPath dn b = Inr cb"
    and fresh: "\<And>els. made (tree (v_os v)) (newRenameOp depth dn u a b :: ('o, 'r, rename_el list option) vm) els \<Longrightarrow>
      fresh_list mv free (tree (v_os v)) els"
  shows "tree (v_os v') = tree (v_os v) \<or>
    (\<exists>els. made (tree (v_os v)) (newRenameOp depth dn u a b :: ('o, 'r, rename_el list option) vm) els \<and>
      (r = 0 \<and> tree (v_os v') = mv ca cb (moved mv els (tree (v_os v))) \<or>
       tree (v_os v') = moved mv els (tree (v_os v)) \<and>
         (\<exists>i (v1 :: ('o, 'r) volume) e. tree (v_os v1) = moved mv els (tree (v_os v)) \<and>
           fst (rename_self dn u a b ca cb i (Some els) v1) = Inl e)))"
proof -
  obtain i v1 where i: "findOrCreate dn u b v = (Inr i, v1)"
    using assms(1-3) by (auto simp: DirNode_rename_def sbind_def sres_def rAssert_def split: prod.splits sum.splits if_splits)
  have t1: "tree (v_os v1) = tree (v_os v)" using keepsD [OF keeps_tree_node(1) _ i, of "tree (v_os v)"] by simp
  obtain v4 where b: "rename_both depth dn u a b ca cb i v1 = (Inr r, v4)" "v' = dropNode u i v4"
    using assms(1-3) i
    by (auto simp: DirNode_rename_def sbind_def sres_def rAssert_def sfinally_def split: prod.splits if_splits)
  note c = rename_both_tree [OF b(1), unfolded t1, OF fresh]
  show ?thesis
  proof (cases "tree (v_os v4) = tree (v_os v)")
    case False
    then obtain els where "made (tree (v_os v)) (newRenameOp depth dn u a b :: ('o, 'r, rename_el list option) vm) els"
      "r = 0 \<and> tree (v_os v4) = mv ca cb (moved mv els (tree (v_os v))) \<or>
       tree (v_os v4) = moved mv els (tree (v_os v)) \<and>
         (\<exists>(v1 :: ('o, 'r) volume) e. tree (v_os v1) = moved mv els (tree (v_os v)) \<and>
           fst (rename_self dn u a b ca cb i (Some els) v1) = Inl e)"
      using c by blast
    then show ?thesis unfolding b(2) drop_tree by blast
  qed (simp add: b(2) drop_tree)
qed

end

subsection \<open>A disk of names\<close>

text \<open>
  The paths that exist.  Renaming needs an old name, a new one that is free and not below the
  old one, and moves everything below.
\<close>

definition below :: "bytes \<Rightarrow> bytes \<Rightarrow> bool" where
  "below a p \<longleftrightarrow> take (length a + 1) p = a @ [47]"

definition mv_path :: "bytes \<Rightarrow> bytes \<Rightarrow> bytes \<Rightarrow> bytes" where
  "mv_path a b p = (if p = a \<or> below a p then b @ drop (length a) p else p)"

definition mv_names :: "bytes \<Rightarrow> bytes \<Rightarrow> bytes list \<Rightarrow> bytes list" where
  "mv_names a b w = map (mv_path a b) w"

definition free_name :: "bytes list \<Rightarrow> bytes \<Rightarrow> bool" where
  "free_name w b \<longleftrightarrow> list_all (\<lambda>p. p \<noteq> b \<and> \<not> below b p) w"

definition name_unix :: "bytes list unix" where
  "name_unix =
     \<lparr>ux_errno = (\<lambda>_. 2),
      ux_open = (\<lambda>path flags w. (if path \<in> set w then 3 else -1, w)),
      ux_creat = (\<lambda>path flags mode w. (if path \<in> set w then (-1, w) else (3, path # w))),
      ux_close = (\<lambda>fd w. (0, w)),
      ux_lstat = (\<lambda>path w. ((if path \<in> set w then 0 else -1,
        \<lparr>st_mode = (if list_ex (below path) w then 0x41ff else 0x81b6), st_size = 0\<rparr>), w)),
      ux_chmod = (\<lambda>path mode w. (0, w)),
      ux_pread = (\<lambda>fd n off w. (Some [], w)),
      ux_pwrite = (\<lambda>fd d off w. (int (length d), w)),
      ux_ftruncate = (\<lambda>fd n w. (0, w)),
      ux_truncate = (\<lambda>path n w. (0, w)),
      ux_fdatasync = (\<lambda>fd w. (0, w)),
      ux_fsync = (\<lambda>fd w. (0, w))\<rparr>"

definition name_disk :: "bytes list unixdir" where
  "name_disk =
     \<lparr>ud_file = name_unix,
      ud_rename = (\<lambda>a b w. if a \<in> set w \<and> a \<noteq> b \<and> \<not> below a b \<and> free_name w b
                           then (0, mv_names a b w) else (-1, w)),
      ud_mkdir = (\<lambda>path mode w. (0, path # w)),
      ud_rmdir = (\<lambda>path w. (0, filter (\<lambda>p. p \<noteq> path) w)),
      ud_unlink = (\<lambda>path w. (0, filter (\<lambda>p. p \<noteq> path) w)),
      ud_stat = (\<lambda>path w. ((if path \<in> set w then 0 else -1, 0, 0), w)),
      ud_utime = (\<lambda>path ts w. (0, w)),
      ud_opendir = (\<lambda>path w. (if path \<in> set w
        then Some (map (\<lambda>p. (drop (length path + 1) p, 0))
          (filter (\<lambda>p. below path p \<and> 47 \<notin> set (drop (length path + 1) p)) w))
        else None, w))\<rparr>"

lemma belowE: "below a p \<Longrightarrow> (\<And>r. p = a @ 47 # r \<Longrightarrow> thesis) \<Longrightarrow> thesis"
  unfolding below_def by (metis append.assoc append_Cons append_Nil append_take_drop_id)

lemma below_append [simp]: "below a (a @ 47 # r)"
  by (simp add: below_def)

lemma mv_path_back:
  assumes "p \<noteq> b" and "\<not> below b p"
  shows "mv_path b a (mv_path a b p) = p"
  using assms by (auto simp: mv_path_def elim!: belowE)

lemma mv_free:
  assumes "\<not> below a b" and "a \<noteq> b" and "a \<noteq> b" and "\<not> below b a" and "p \<noteq> b" and "\<not> below b p"
  shows "mv_path a b p \<noteq> a \<and> \<not> below a (mv_path a b p)"
proof -
  have "\<not> below a (b @ 47 # r) \<and> b @ 47 # r \<noteq> a" for r
  proof
    show "b @ 47 # r \<noteq> a" using assms(4) by (metis below_append)
    show "\<not> below a (b @ 47 # r)"
    proof
      assume "below a (b @ 47 # r)"
      then obtain q where q: "b @ 47 # r = a @ 47 # q" by (elim belowE)
      then obtain us where "b = a @ us \<and> us @ 47 # r = 47 # q \<or> b @ us = a \<and> 47 # r = us @ 47 # q"
        by (auto simp: append_eq_append_conv2)
      then show False
        using assms(1,2,4) by (cases us) auto
    qed
  qed
  note n = this
  show ?thesis
  proof (cases "below a p")
    case True
    then obtain r where "mv_path a b p = b @ 47 # r" by (auto simp: mv_path_def elim: belowE)
    then show ?thesis using n by simp
  qed (use assms in \<open>auto simp: mv_path_def\<close>)
qed

interpretation names: unix_names name_disk "\<lambda>w. w" mv_names free_name
proof
  show "ux_keeps (ud_file name_disk) (\<lambda>w. w = t)" for t
    by (simp add: ux_keeps_def name_disk_def name_unix_def)
  show "\<exists>w3. ud_rename name_disk b a w2 = (0, w3) \<and> w3 = w"
    if r: "ud_rename name_disk a b w = (0, w')" and f: "free_name w b" and w2: "w2 = w'" for a b w w' w2
  proof -
    have c: "a \<in> set w" "a \<noteq> b" "\<not> below a b" "w' = mv_names a b w"
      using r by (auto simp: name_disk_def split: if_splits)
    have p: "p \<noteq> b \<and> \<not> below b p" if "p \<in> set w" for p using f that by (simp add: free_name_def list_all_iff)
    then have nb: "\<not> below b a" using c(1) by blast
    have "mv_path a b a = b" by (simp add: mv_path_def)
    then have "b \<in> set w'" using c(1,4) by (metis image_eqI list.set_map mv_names_def)
    moreover have "free_name w' a"
      using mv_free [OF c(3,2,2) nb] p by (auto simp: c(4) free_name_def mv_names_def list_all_iff)
    moreover have "mv_names b a w' = w"
      using p by (auto simp: c(4) mv_names_def mv_path_back intro: map_idI)
    ultimately show ?thesis using c(2) nb by (simp add: name_disk_def w2)
  qed
qed (auto simp: name_disk_def split: if_splits)

subsection \<open>The names in the list\<close>

text \<open>Coded and decoded paths have no NUL.\<close>

lemma cstr_noNul: "0 \<notin> set (cstr b)"
  by (auto simp: cstr_def dest: set_takeWhileD)

text \<open>One round of the loop at a name.\<close>

lemma recode_name:
  assumes "nm \<noteq> []" and "47 \<notin> set nm" and "endsName r"
  shows "recodePath len code (nm @ r) iv out =
      (if hd nm = 46 \<and> last nm = 46 \<and> length nm \<le> 2
       then recodePath len code r iv (out @ replicate (length nm) 46)
       else if len (int (length nm)) \<le> 0 then Inl NameTooSmall
       else case codeComponent (len (int (length nm))) code nm iv of
              Inl e \<Rightarrow> Inl e
            | Inr (coded, iv) \<Rightarrow> recodePath len code r iv (out @ coded))"
proof -
  obtain p ps where p: "nm = p # ps" using assms(1) by (cases nm) auto
  have "p \<noteq> 47" using assms(2) p by auto
  note t = take_name [OF assms(2,3)]
  have "recodePath len code (p # ps @ r) iv out =
      (if p = 46 \<and> last nm = 46 \<and> length nm \<le> 2
       then recodePath len code r iv (out @ replicate (length nm) 46)
       else if len (int (length nm)) \<le> 0 then Inl NameTooSmall
       else case codeComponent (len (int (length nm))) code nm iv of
              Inl e \<Rightarrow> Inl e
            | Inr (coded, iv) \<Rightarrow> recodePath len code r iv (out @ coded))"
    unfolding recodePath.simps(2) [of _ _ p "ps @ r"] Let_def if_not_P [OF \<open>p \<noteq> 47\<close>]
      t [unfolded p append_Cons, THEN conjunct1] t [unfolded p append_Cons, THEN conjunct2] p ..
  then show ?thesis by (simp only: p append_Cons list.sel)
qed

text \<open>
  Induction over the rounds of a successful run: it ends, it passes a slash, or it passes a
  name, in the same way whatever follows the name.
\<close>

lemma recode_rounds [consumes 1, case_names empty slash name]:
  assumes "recodePath len code path iv out = Inr (q, iv')"
    and empty: "\<And>out iv. P [] iv out out iv"
    and slash: "\<And>path iv out q iv'. P path iv (if out \<noteq> [] then out @ [47] else out) q iv' \<Longrightarrow> P (47 # path) iv out q iv'"
    and name: "\<And>nm rest iv out q iv' coded iv1. nm \<noteq> [] \<Longrightarrow> endsName rest \<Longrightarrow>
      coded = replicate (length nm) 46 \<or> codeComponent (len (int (length nm))) code nm iv = Inr (coded, iv1) \<Longrightarrow>
      (\<And>r. endsName r \<Longrightarrow> recodePath len code (nm @ r) iv out = recodePath len code r iv1 (out @ coded)) \<Longrightarrow>
      P rest iv1 (out @ coded) q iv' \<Longrightarrow> P (nm @ rest) iv out q iv'"
  shows "P path iv out q iv'"
  using assms(1)
proof (induction "length path" arbitrary: path iv out rule: less_induct)
  case less
  show ?case
  proof (cases path rule: path_cases)
    case empty
    then show ?thesis using less.prems assms(2) by simp
  next
    case (slash ps)
    then show ?thesis
      using less.prems less.hyps [of ps] assms(3) [of ps iv out q iv'] by (simp only: recode_slash) simp
  next
    case n: (name nm rest)
    have step: "\<exists>coded iv1. (coded = replicate (length nm) 46 \<or>
        codeComponent (len (int (length nm))) code nm iv = Inr (coded, iv1)) \<and>
        (\<forall>r. endsName r \<longrightarrow> recodePath len code (nm @ r) iv out = recodePath len code r iv1 (out @ coded))"
    proof (cases "hd nm = 46 \<and> last nm = 46 \<and> length nm \<le> 2")
      case True
      then show ?thesis using recode_name [OF n(2,3)] by (metis (no_types, lifting))
    next
      case False
      note e = recode_name [OF n(2,3), of _ len code iv out, unfolded if_not_P [OF False]]
      have run: "recodePath len code (nm @ rest) iv out = Inr (q, iv')" using less.prems n(1) by (simp only:)
      have pos: "\<not> len (int (length nm)) \<le> 0"
      proof
        assume "len (int (length nm)) \<le> 0"
        then show False using run unfolding e [OF n(4)] by (simp only: if_True) simp
      qed
      obtain c iv1 where c: "codeComponent (len (int (length nm))) code nm iv = Inr (c, iv1)"
        using run unfolding e [OF n(4)] if_not_P [OF pos]
        by (cases "codeComponent (len (int (length nm))) code nm iv") auto
      have "recodePath len code (nm @ r) iv out = recodePath len code r iv1 (out @ c)" if "endsName r" for r
        unfolding e [OF that] if_not_P [OF pos] c by (simp only: sum.case prod.case)
      then show ?thesis using c by blast
    qed
    then obtain coded iv1 where s: "coded = replicate (length nm) 46 \<or>
        codeComponent (len (int (length nm))) code nm iv = Inr (coded, iv1)"
      "\<And>r. endsName r \<Longrightarrow> recodePath len code (nm @ r) iv out = recodePath len code r iv1 (out @ coded)"
      by blast
    have "length rest < length path" using n(1,2) by simp
    then have "P rest iv1 (out @ coded) q iv'"
      using less.prems s(2) [OF n(4)] n(1,2) by (intro less.hyps) simp_all
    from assms(4) [OF n(2,4) s this] show ?thesis by (simp only: n(1))
  qed
qed

lemma recode_noNul: "recodePath len code path iv out = Inr (q, iv') \<Longrightarrow> 0 \<notin> set out \<Longrightarrow> 0 \<notin> set q"
proof (induction rule: recode_rounds)
  case (name nm rest iv out q iv' coded iv1)
  have "0 \<notin> set coded"
    using name(3) cstr_noNul by (auto simp: codeComponent_def rbind_Inr_iff split: prod.splits)
  then show ?case using name(5,6) by simp
qed (auto split: if_splits)

lemma recode_prefix: "recodePath len code path iv out = Inr (q, iv') \<Longrightarrow> \<exists>s. q = out @ s"
  by (induction rule: recode_rounds) (auto split: if_splits)

lemma recode_append:
  "recodePath len code path iv out = Inr (q, iv') \<Longrightarrow>
     recodePath len code (path @ 47 # sub) iv out = recodePath len code (47 # sub) iv' q"
proof (induction rule: recode_rounds)
  case (name nm rest iv out q iv' coded iv1)
  have "endsName (rest @ 47 # sub)" using name(2) by (cases rest) (auto simp: endsName_def)
  then have "recodePath len code (nm @ rest @ 47 # sub) iv out =
      recodePath len code (rest @ 47 # sub) iv1 (out @ coded)" by (rule name(4))
  then show ?case using name(5) by (simp only: append_assoc)
qed (simp_all only: recode_slash append_Nil append_Cons)

text \<open>The coded path of something below a directory is longer.\<close>

lemma recode_below:
  assumes "recodePath len code p ivo [] = Inr (q, ivq)" and "q \<noteq> []"
    and "recodePath len code (p @ 47 # name) ivo [] = Inr (q', ivq')"
  shows "length q < length q'"
proof -
  have "recodePath len code name ivq (q @ [47]) = Inr (q', ivq')"
    using assms recode_append [OF assms(1), of name] by (simp only: recode_slash) simp
  from recode_prefix [OF this] show ?thesis by auto
qed

lemma encode_below:
  assumes "encodePath_iv n p 0 = Inr (c, iv)" and "c \<noteq> []" and "encodePath_iv n (p @ 47 # name) 0 = Inr (c', iv')"
  shows "length c < length c'"
  using assms unfolding encodePath_iv_def encodePath_raw_def decodePath_raw_def
  by (cases "ni_reverseEncryption n") (auto simp: rbind_Inr_iff intro: recode_below)

lemma decode_noNul: "decodePath_iv n name iv = Inr (plain, iv') \<Longrightarrow> 0 \<notin> set plain"
  unfolding decodePath_iv_def encodePath_raw_def decodePath_raw_def
  by (auto simp: rbind_Inr_iff dest: recode_noNul split: if_splits prod.splits)

text \<open>
  What an element says: the same plain name, coded under the IVs of the old and the new
  directory, in the old directory on the disk.
\<close>

definition recodes :: "'k dirnode \<Rightarrow> rename_el \<Rightarrow> bool" where
  "recodes dn el \<longleftrightarrow>
     (\<exists>p p' plain plain' dir dir' name name' fromIV toIV iv iv'.
       encodePath_iv (naming dn) p 0 = Inr (dir, fromIV) \<and> encodePath_iv (naming dn) p' 0 = Inr (dir', toIV) \<and>
       ren_oldPName el = p @ 47 # plain \<and> ren_newPName el = p' @ 47 # plain \<and>
       ren_oldCName el = dn_rootDir dn @ dir @ 47 # name \<and> ren_newCName el = dn_rootDir dn @ dir @ 47 # name' \<and>
       decodePath_iv (naming dn) name fromIV = Inr (plain, iv) \<and>
       decodePath_iv (naming dn) name' toIV = Inr (plain', iv') \<and> plain' = dropWhile (\<lambda>x. x = 47) plain)"

lemma recodesI:
  assumes "encodePath_iv (naming dn) p 0 = Inr (dir, fromIV)" and "encodePath_iv (naming dn) p' 0 = Inr (dir', toIV)"
    and "decodePath_iv (naming dn) name fromIV = Inr (plain, iv)"
    and "decodePath_iv (naming dn) name' toIV = Inr (dropWhile (\<lambda>x. x = 47) plain, iv')"
  shows "recodes dn \<lparr>ren_oldCName = (dn_rootDir dn @ dir) @ 47 # name, ren_newCName = (dn_rootDir dn @ dir) @ 47 # name',
    ren_oldPName = p @ 47 # plain, ren_newPName = p' @ 47 # plain, ren_isDirectory = d\<rparr>"
  unfolding recodes_def
  by (rule exI [of _ p], rule exI [of _ p'], rule exI [of _ plain], rule exI [of _ "dropWhile (\<lambda>x. x = 47) plain"],
      rule exI [of _ dir], rule exI [of _ dir'], rule exI [of _ name], rule exI [of _ name'], rule exI [of _ fromIV],
      rule exI [of _ toIV], rule exI [of _ iv], rule exI [of _ iv']) (simp add: assms)

lemma sbind_InrE:
  assumes "sbind m f s = (Inr y, s2)"
  obtains x s1 where "m s = (Inr x, s1)" and "f x s1 = (Inr y, s2)"
  using assms by (auto simp: sbind_def split: prod.splits sum.splits)

lemma scatch_noneE:
  assumes "scatch m (sret None) s = (Inr (Some y), s2)"
  shows "m s = (Inr (Some y), s2)"
  using assms by (auto simp: scatch_def sret_def split: prod.splits sum.splits if_splits)

lemma sres_InrE: "sres r s = (Inr x, s1) \<Longrightarrow> r = Inr x \<and> s1 = s"
  by (simp add: sres_def)

lemma sret_InrE: "sret z s = (Inr x, s1) \<Longrightarrow> x = z \<and> s1 = s"
  by (simp add: sret_def)

lemma rename_entryE:
  assumes "rename_entry recurse dn u fromP toP toIV src d_name plain l v = (Inr (Some l1), s2)"
  obtains newName iv2 isDir l2 s s1 where "encodePath_iv (naming dn) plain toIV = Inr (newName, iv2)"
    and "(if isDir then recurse (fromP @ 47 # plain) (toP @ 47 # plain) l else sret (Some l)) s = (Inr (Some l2), s1)"
    and "l1 = l2 @ [\<lparr>ren_oldCName = src @ 47 # d_name, ren_newCName = src @ 47 # newName,
      ren_oldPName = fromP @ 47 # plain, ren_newPName = toP @ 47 # plain, ren_isDirectory = isDir\<rparr>]"
proof -
  obtain newName iv2 where nn: "encodePath_iv (naming dn) plain toIV = Inr (newName, iv2)"
    using assms by (auto simp: rename_entry_def sres_def elim!: sbind_InrE)
  obtain isDir s where "sbind (if isDir then recurse (fromP @ 47 # plain) (toP @ 47 # plain) l else sret (Some l)) (\<lambda>r.
      sret (map_option (\<lambda>l. l @ [\<lparr>ren_oldCName = src @ 47 # d_name, ren_newCName = src @ 47 # newName,
      ren_oldPName = fromP @ 47 # plain, ren_newPName = toP @ 47 # plain, ren_isDirectory = isDir\<rparr>]) r)) s
      = (Inr (Some l1), s2)"
    using assms nn unfolding rename_entry_def Let_def by (auto simp: sres_def elim!: sbind_InrE [where m = "sres _"] sbind_InrE [where m = "vos _"])
  then obtain r s1 where "(if isDir then recurse (fromP @ 47 # plain) (toP @ 47 # plain) l else sret (Some l)) s = (Inr r, s1)"
    "sret (map_option (\<lambda>l. l @ [\<lparr>ren_oldCName = src @ 47 # d_name, ren_newCName = src @ 47 # newName,
      ren_oldPName = fromP @ 47 # plain, ren_newPName = toP @ 47 # plain, ren_isDirectory = isDir\<rparr>]) r) s1
      = (Inr (Some l1), s2)"
    by (rule sbind_InrE)
  then show ?thesis using nn that by (cases r) (simp_all add: sret_def)
qed

lemma renameLoop_all:
  assumes nc: "name_coder (naming dn)" and fwd: "\<not> ni_reverseEncryption (naming dn)"
    and rec: "\<And>a b l v l' v'. recurse a b l v = (Inr (Some l'), v') \<Longrightarrow> list_all (recodes dn) l \<Longrightarrow>
      list_all (recodes dn) l'"
    and enc: "encodePath_iv (naming dn) fromP 0 = Inr (dir, fromIV)" "encodePath_iv (naming dn) toP 0 = Inr (dir', toIV)"
    and run: "renameLoop recurse dn u fromP toP fromIV toIV (dn_rootDir dn @ dir) de l v = (Inr (Some l'), v')"
    and l: "list_all (recodes dn) l"
  shows "list_all (recodes dn) l'"
  using run l
proof (induction de arbitrary: l v)
  case Nil
  then show ?case by (simp add: sret_def)
next
  case (Cons e de)
  obtain d_name d_ino where e: "e = (d_name, d_ino)" by (cases e)
  show ?case
  proof (cases "dotName d_name")
    case True
    then show ?thesis using Cons e by (simp add: Let_def)
  next
    case nodot: False
    show ?thesis
    proof (cases "decodePath_iv (naming dn) d_name fromIV")
      case (Inl x)
      then show ?thesis using Cons e nodot by (simp add: Let_def)
    next
      case (Inr r)
      obtain plain iv where r: "r = (plain, iv)" by (cases r)
      let ?ren = "\<lambda>newName isDir. \<lparr>ren_oldCName = (dn_rootDir dn @ dir) @ 47 # d_name,
          ren_newCName = (dn_rootDir dn @ dir) @ 47 # newName, ren_oldPName = fromP @ 47 # plain,
          ren_newPName = toP @ 47 # plain, ren_isDirectory = isDir\<rparr>"
      obtain l1 s2 where one: "rename_entry recurse dn u fromP toP toIV (dn_rootDir dn @ dir) d_name plain l v = (Inr (Some l1), s2)"
        and rest: "renameLoop recurse dn u fromP toP fromIV toIV (dn_rootDir dn @ dir) de l1 s2 = (Inr (Some l'), v')"
        using Cons.prems(1) nodot Inr unfolding e r
        by (auto simp: Let_def sret_def elim!: sbind_InrE dest!: scatch_noneE split: option.splits)
      from rename_entryE [OF one] obtain newName iv2 isDir l2 s s1 where
          nn: "encodePath_iv (naming dn) plain toIV = Inr (newName, iv2)"
        and l2: "(if isDir then recurse (fromP @ 47 # plain) (toP @ 47 # plain) l else sret (Some l)) s = (Inr (Some l2), s1)"
        and l1: "l1 = l2 @ [?ren newName isDir]"
        by metis
      have "list_all (recodes dn) l2"
        using l2 Cons.prems(2) rec by (auto simp: sret_def split: if_splits)
      have "\<forall>x \<in> set plain. x \<noteq> 0" using decode_noNul [OF Inr [unfolded r]] by auto
      then obtain q ivq where "encodePath_iv (naming dn) plain toIV = Inr (q, ivq)"
        "decodePath_iv (naming dn) q toIV = Inr (dropWhile (\<lambda>x. x = 47) plain, ivq)"
        using name_coder.public_path_roundtrip [OF nc, of plain toIV] fwd by auto
      then have "recodes dn (?ren newName isDir)"
        using enc Inr nn unfolding r by (intro recodesI) simp_all
      then show ?thesis using Cons.IH [OF rest] \<open>list_all (recodes dn) l2\<close> l1 by simp
    qed
  qed
qed

lemma genRenameList_all:
  assumes "name_coder (naming dn)" and "\<not> ni_reverseEncryption (naming dn)"
    and "genRenameList depth dn u fromP toP l v = (Inr (Some l'), v')" and "list_all (recodes dn) l"
  shows "list_all (recodes dn) l'"
  using assms(3,4)
proof (induction depth arbitrary: fromP toP l v l' v')
  case (Suc depth)
  obtain dir fromIV dir' toIV where enc: "encodePath_iv (naming dn) fromP 0 = Inr (dir, fromIV)"
      "encodePath_iv (naming dn) toP 0 = Inr (dir', toIV)"
    using Suc.prems(1) by (auto elim!: sbind_InrE dest!: sres_InrE)
  show ?case
  proof (cases "fromIV = toIV")
    case True
    then show ?thesis using Suc.prems enc by (simp add: sbind_def sres_def sret_def)
  next
    case False
    then obtain de v1 where "renameLoop (genRenameList depth dn u) dn u fromP toP fromIV toIV (dn_rootDir dn @ dir) de l v1
        = (Inr (Some l'), v')"
      using Suc.prems(1) enc
      by (auto simp: Let_def sret_def elim!: sbind_InrE dest!: sres_InrE split: option.splits)
    from renameLoop_all [OF assms(1,2) _ enc this Suc.prems(2)] Suc.IH show ?thesis by blast
  qed
qed (simp add: sthrow_def)

subsection \<open>The recursion ends\<close>

definition returns_or_throws :: "('s, 'a) sm \<Rightarrow> bool" where
  "returns_or_throws m \<longleftrightarrow> (\<forall>s. fst (m s) \<noteq> Inl Diverges)"

lemma vos_eq: "vos f v = (Inr (fst (f (v_os v))), v\<lparr>v_os := snd (f (v_os v))\<rparr>)"
  by (simp add: vos_def split: prod.splits)

lemma rot_basic:
  "returns_or_throws (sret x)" "r \<noteq> Inl Diverges \<Longrightarrow> returns_or_throws (sres r)" "returns_or_throws (vos f)"
  by (simp_all add: returns_or_throws_def sret_def sres_def vos_def split: prod.splits)

lemma rot_sbind: "returns_or_throws m \<Longrightarrow> (\<And>x. returns_or_throws (f x)) \<Longrightarrow> returns_or_throws (sbind m f)"
  by (simp add: returns_or_throws_def sbind_def split: prod.splits sum.splits) (metis fst_conv)

lemma rot_sres:
  "(\<And>x. r = Inr x \<Longrightarrow> returns_or_throws (f x)) \<Longrightarrow> r \<noteq> Inl Diverges \<Longrightarrow> returns_or_throws (sbind (sres r) f)"
  by (cases r) (simp_all add: returns_or_throws_def sbind_def sres_def)

lemma rot_cases:
  "(b \<Longrightarrow> returns_or_throws m) \<Longrightarrow> (\<not> b \<Longrightarrow> returns_or_throws n) \<Longrightarrow> returns_or_throws (if b then m else n)"
  "returns_or_throws m \<Longrightarrow> (\<And>y. returns_or_throws (g y)) \<Longrightarrow> returns_or_throws (case x of None \<Rightarrow> m | Some y \<Rightarrow> g y)"
  "(\<And>a c. returns_or_throws (h a c)) \<Longrightarrow> returns_or_throws (case p of (a, c) \<Rightarrow> h a c)"
  by (auto split: option.splits prod.splits)

lemma rot_scatch: "returns_or_throws m \<Longrightarrow> returns_or_throws h \<Longrightarrow> returns_or_throws (scatch m h)"
  by (simp add: returns_or_throws_def scatch_def split: prod.splits sum.splits) (metis fst_conv)

lemmas rot = rot_basic rot_sbind rot_cases rot_scatch

lemma rot_renameLoop:
  assumes "\<And>path iv. encodePath_iv (naming dn) path iv \<noteq> Inl Diverges"
    and "\<And>plain l. returns_or_throws (recurse (fromP @ 47 # plain) (toP @ 47 # plain) l)"
  shows "returns_or_throws (renameLoop recurse dn u fromP toP fromIV toIV src de l)"
proof (induction de arbitrary: l)
  case Nil
  then show ?case by (simp add: rot_basic)
next
  case (Cons e de)
  obtain d_name d_ino where e: "e = (d_name, d_ino)" by (cases e)
  have one: "returns_or_throws (rename_entry recurse dn u fromP toP toIV src d_name plain l)" for plain
    unfolding rename_entry_def Let_def by (intro rot assms)
  show ?case
    unfolding e renameLoop.simps Let_def
    by (cases "decodePath_iv (naming dn) d_name fromIV") (auto intro!: rot one Cons.IH)
qed

text \<open>
  Paths of more than \<open>N\<close> bytes cannot be opened.  Every level makes the coded path longer,
  so that the recursion ends; this needs a directory whose coded path is not empty.
\<close>

definition short_paths :: "nat \<Rightarrow> 'o unixdir \<Rightarrow> bool" where
  "short_paths N u \<longleftrightarrow> (\<forall>path w. N < length path \<longrightarrow> fst (ud_opendir u path w) = None)"

lemma rot_genRenameList:
  assumes enc: "\<And>path iv. encodePath_iv (naming dn) path iv \<noteq> Inl Diverges"
    and deep: "short_paths N u"
    and "\<And>c iv. encodePath_iv (naming dn) fromP 0 = Inr (c, iv) \<Longrightarrow>
      c \<noteq> [] \<and> N + 2 \<le> length (dn_rootDir dn) + length c + depth"
    and "1 \<le> depth"
  shows "returns_or_throws (genRenameList depth dn u fromP toP l :: ('o, 'r, rename_el list option) vm)"
  using assms(3,4)
proof (induction depth arbitrary: fromP toP l)
  case (Suc depth)
  have "returns_or_throws (sbind (vos (ud_opendir u (dn_rootDir dn @ dir))) (\<lambda>d.
      case d of
        None \<Rightarrow> sret None
      | Some de \<Rightarrow> renameLoop (genRenameList depth dn u) dn u fromP toP fromIV toIV (dn_rootDir dn @ dir) de l)
      :: ('o, 'r, rename_el list option) vm)"
    if d: "encodePath_iv (naming dn) fromP 0 = Inr (dir, fromIV)" for dir fromIV toIV
  proof (cases "N < length (dn_rootDir dn @ dir)")
    case True
    then have "fst (ud_opendir u (dn_rootDir dn @ dir) w) = None" for w
      using deep unfolding short_paths_def by blast
    then show ?thesis by (simp add: returns_or_throws_def sbind_def vos_eq sret_def)
  next
    case False
    have "returns_or_throws (genRenameList depth dn u (fromP @ 47 # plain) (toP @ 47 # plain) l
        :: ('o, 'r, rename_el list option) vm)" for plain l
    proof (rule Suc.IH)
      show "1 \<le> depth" using Suc.prems(1) [OF d] False by simp
      show "c \<noteq> [] \<and> N + 2 \<le> length (dn_rootDir dn) + length c + depth"
        if "encodePath_iv (naming dn) (fromP @ 47 # plain) 0 = Inr (c, iv)" for c iv
        using encode_below [OF d _ that] Suc.prems(1) [OF d] by auto
    qed
    then show ?thesis by (intro rot rot_renameLoop enc)
  qed
  then show ?case
    unfolding genRenameList.simps Let_def
    by (intro rot_sres enc) (auto intro!: rot_sres enc rot_basic(1) split: prod.split)
qed simp

subsection \<open>What the list depends on\<close>

text \<open>Making the list only reads the disk.\<close>

definition os_only :: "('o, 'r, 'a) vm \<Rightarrow> bool" where
  "os_only m \<longleftrightarrow> (\<forall>v1 v2. v_os v1 = v_os v2 \<longrightarrow>
     fst (m v1) = fst (m v2) \<and> v_os (snd (m v1)) = v_os (snd (m v2)))"

lemma oso_basic: "os_only (sret x)" "os_only (sres r)" "os_only (sthrow e)"
  by (simp_all add: os_only_def sret_def sres_def sthrow_def)

lemma oso_vos: "os_only (vos f)"
  by (simp add: os_only_def vos_eq)

lemma osoD: "os_only m \<Longrightarrow> v_os v1 = v_os v2 \<Longrightarrow> m v1 = (r1, w1) \<Longrightarrow> m v2 = (r2, w2) \<Longrightarrow> r1 = r2 \<and> v_os w1 = v_os w2"
  unfolding os_only_def by fastforce

lemma osoI:
  assumes "\<And>v1 v2 r1 w1 r2 w2. v_os v1 = v_os v2 \<Longrightarrow> m v1 = (r1, w1) \<Longrightarrow> m v2 = (r2, w2) \<Longrightarrow>
    r1 = r2 \<and> v_os w1 = v_os w2"
  shows "os_only m"
  unfolding os_only_def
proof (intro allI impI)
  show "fst (m v1) = fst (m v2) \<and> v_os (snd (m v1)) = v_os (snd (m v2))" if "v_os v1 = v_os v2" for v1 v2
    by (rule assms [OF that]) simp_all
qed

lemma oso_sbind:
  assumes "os_only m" and "\<And>x. os_only (f x)"
  shows "os_only (sbind m f)"
proof (rule osoI)
  fix v1 v2 r1 w1 r2 w2
  assume v: "v_os v1 = v_os v2" and b: "sbind m f v1 = (r1, w1)" "sbind m f v2 = (r2, w2)"
  obtain x1 z1 x2 z2 where m: "m v1 = (x1, z1)" "m v2 = (x2, z2)" by (metis surj_pair)
  note o = osoD [OF assms(1) v m]
  show "r1 = r2 \<and> v_os w1 = v_os w2"
  proof (cases x1)
    case (Inl e)
    then show ?thesis using b m o by (auto simp: sbind_def)
  next
    case (Inr x)
    then have "f x z1 = (r1, w1)" "f x z2 = (r2, w2)" using b m o by (auto simp: sbind_def)
    then show ?thesis using osoD [OF assms(2)] o by blast
  qed
qed

lemma oso_scatch:
  assumes "os_only m" and "os_only h"
  shows "os_only (scatch m h)"
proof (rule osoI)
  fix v1 v2 r1 w1 r2 w2
  assume v: "v_os v1 = v_os v2" and b: "scatch m h v1 = (r1, w1)" "scatch m h v2 = (r2, w2)"
  obtain x1 z1 x2 z2 where m: "m v1 = (x1, z1)" "m v2 = (x2, z2)" by (metis surj_pair)
  note o = osoD [OF assms(1) v m]
  show "r1 = r2 \<and> v_os w1 = v_os w2"
  proof (cases x1)
    case (Inr x)
    then have mx: "m v1 = (Inr x, z1)" "m v2 = (Inr x, z2)" using m o by simp_all
    have "(r1, w1) = (Inr x, z1)" "(r2, w2) = (Inr x, z2)"
      unfolding b [symmetric] by (simp_all add: scatch_def mx)
    then show ?thesis using o by simp
  next
    case e: (Inl e)
    then have mx: "m v1 = (Inl e, z1)" "m v2 = (Inl e, z2)" using m o by simp_all
    show ?thesis
    proof (cases "e = Diverges")
      case True
      then have "(r1, w1) = (Inl e, z1)" "(r2, w2) = (Inl e, z2)"
        unfolding b [symmetric] by (simp_all add: scatch_def mx)
      then show ?thesis using o by simp
    next
      case False
      then have "h z1 = (r1, w1)" "h z2 = (r2, w2)" unfolding b [symmetric] by (simp_all add: scatch_def mx)
      then show ?thesis using osoD [OF assms(2)] o by blast
    qed
  qed
qed

lemma oso_cases:
  "(b \<Longrightarrow> os_only m) \<Longrightarrow> (\<not> b \<Longrightarrow> os_only n) \<Longrightarrow> os_only (if b then m else n)"
  "os_only m \<Longrightarrow> (\<And>y. os_only (g y)) \<Longrightarrow> os_only (case x of None \<Rightarrow> m | Some y \<Rightarrow> g y)"
  "(\<And>a c. os_only (h a c)) \<Longrightarrow> os_only (case p of (a, c) \<Rightarrow> h a c)"
  by (auto split: option.splits prod.splits)

lemmas oso = oso_basic oso_vos oso_sbind oso_cases oso_scatch

lemma oso_renameLoop:
  assumes "\<And>a b l. os_only (recurse a b l)"
  shows "os_only (renameLoop recurse dn u fromP toP fromIV toIV src de l)"
proof (induction de arbitrary: l)
  case (Cons e de)
  obtain d_name d_ino where e: "e = (d_name, d_ino)" by (cases e)
  have one: "os_only (rename_entry recurse dn u fromP toP toIV src d_name plain l)" for plain
    unfolding rename_entry_def Let_def by (intro oso assms)
  show ?case
    unfolding e renameLoop.simps Let_def
    by (cases "decodePath_iv (naming dn) d_name fromIV") (auto intro!: oso one Cons.IH)
qed (simp add: oso)

lemma oso_genRenameList: "os_only (genRenameList depth dn u a b l)"
proof (induction depth arbitrary: a b l)
  case (Suc depth)
  then show ?case unfolding genRenameList.simps Let_def by (intro oso oso_renameLoop)
qed (simp add: oso)

lemma oso_newRenameOp: "os_only (newRenameOp depth dn u a b)"
  unfolding newRenameOp_def [abs_def] by (rule oso_genRenameList)

subsection \<open>A volume with chained names\<close>

text \<open>
  A coding for the examples: a letter that depends on the IV stands in front of the name.
\<close>

definition ivLetter :: "u64 option \<Rightarrow> byte" where
  "ivLetter iv = (if (case iv of None \<Rightarrow> 0 | Some v \<Rightarrow> v) AND 1 = 0 then 97 else 98)"

definition nextIV :: "bytes \<Rightarrow> u64 option \<Rightarrow> u64 option" where
  "nextIV name iv = map_option (\<lambda>v. v + fold (\<lambda>x s. s + ucast x) name 0) iv"

definition letterNames :: nameio where
  "letterNames =
     \<lparr>ni_Interface = NullInterface, ni_maxEncodedNameLen = (\<lambda>n. n + 1), ni_maxDecodedNameLen = (\<lambda>n. n),
      ni_encodeName = (\<lambda>name iv buf. Inr (int (length name) + 1, nextIV name iv,
        overlay 0 (ivLetter iv # name) buf)),
      ni_decodeName = (\<lambda>name iv buf. if name \<noteq> [] \<and> hd name = ivLetter iv
        then Inr (int (length name) - 1, nextIV (tl name) iv, overlay 0 (tl name) buf) else Inl ChecksumMismatch),
      ni_chainedNameIV = True, ni_reverseEncryption = False\<rparr>"

definition chained_dir :: "unit dirnode" where
  "chained_dir = DirNode_new True [47, 114] (null_cfg\<lparr>fs_nameCoding := letterNames\<rparr>)"

definition chained_volume :: "(bytes list, unit) volume" where
  "chained_volume = \<lparr>v_ctx = EncFS_Context_new, v_nodes = [], v_next = 0,
     v_os = [[47, 114, 47, 97, 100], [47, 114, 47, 97, 100, 47, 97, 102]]\<rparr>"

lemma letter_components:
  assumes "goodName name"
  shows "codeComponent (int (length name) + 1) (ni_encodeName letterNames) name iv
      = Inr (ivLetter iv # name, nextIV name iv)"
    and "codeComponent (int (length (ivLetter iv # name))) (ni_decodeName letterNames) (ivLetter iv # name) iv
      = Inr (name, nextIV name iv)"
proof -
  have n: "0 \<notin> set name" "ivLetter iv \<noteq> 0" using assms by (auto simp: goodName_def ivLetter_def)
  show "codeComponent (int (length name) + 1) (ni_encodeName letterNames) name iv
      = Inr (ivLetter iv # name, nextIV name iv)"
    by (rule codeComponent_zeros [where m = 1])
       (use n in \<open>auto simp: letterNames_def replicate_append_same [symmetric]\<close>)
  show "codeComponent (int (length (ivLetter iv # name))) (ni_decodeName letterNames) (ivLetter iv # name) iv
      = Inr (name, nextIV name iv)"
    by (rule codeComponent_zeros [where m = 2])
       (use n drop_replicate [of "length name" "Suc (Suc (length name))" "0 :: byte"] in \<open>auto simp: letterNames_def numeral_2_eq_2 nat_add_distrib\<close>)
qed

interpretation letters: name_coder letterNames
proof
  fix name iv
  assume g: "goodName name"
  then have "goodName (ivLetter iv # name)" by (auto simp: goodName_def ivLetter_def)
  then show "\<exists>e iv'. 0 < ni_maxEncodedNameLen letterNames (int (length name)) \<and>
      codeComponent (ni_maxEncodedNameLen letterNames (int (length name))) (ni_encodeName letterNames) name iv
        = Inr (e, iv') \<and> goodName e \<and> (iv' = None) = (iv = None) \<and>
      0 < ni_maxDecodedNameLen letterNames (int (length e)) \<and>
      codeComponent (ni_maxDecodedNameLen letterNames (int (length e))) (ni_decodeName letterNames) e iv
        = Inr (name, iv')"
    using letter_components [OF g, of iv]
    by (intro exI [of _ "ivLetter iv # name"] exI [of _ "nextIV name iv"]) (simp add: letterNames_def nextIV_def)
qed

lemma recode_throws:
  assumes "\<And>m nm iv. codeComponent m code nm iv \<noteq> Inl Diverges"
  shows "recodePath len code path iv out \<noteq> Inl Diverges"
proof (induction "length path" arbitrary: path iv out rule: less_induct)
  case less
  show ?case
  proof (cases path rule: path_cases)
    case (slash ps)
    then show ?thesis using less [of ps] by (simp only: recode_slash) simp
  next
    case n: (name nm rest)
    have "recodePath len code rest iv out \<noteq> Inl Diverges" for iv out using less [of rest] n(1,2) by simp
    then show ?thesis
      unfolding n(1) recode_name [OF n(2-4)] using assms by (auto split: sum.splits)
  qed simp
qed

lemma letters_throw: "encodePath_iv letterNames path iv \<noteq> Inl Diverges"
proof -
  have "codeComponent m (ni_encodeName letterNames) nm iv \<noteq> Inl Diverges" for m nm iv
    by (simp add: codeComponent_def letterNames_def rAssert_def)
  from recode_throws [OF this, of "ni_maxEncodedNameLen letterNames" path "Some iv" "[]"] show ?thesis
    by (cases "recodePath (ni_maxEncodedNameLen letterNames) (ni_encodeName letterNames) path (Some iv) []")
       (auto simp: encodePath_iv_def encodePath_raw_def letterNames_def)
qed

subsection \<open>Properties\<close>


lemma chained_list:
  fixes v1 :: "(bytes list, unit) volume"
  assumes "v_os v1 = v_os chained_volume"
    and "newRenameOp 5 chained_dir name_disk [47, 100] [47, 101] v1 = (Inr (Some els), v2)"
  shows "els = [\<lparr>ren_oldCName = [47, 114, 47, 97, 100, 47, 97, 102], ren_newCName = [47, 114, 47, 97, 100, 47, 98, 102],
    ren_oldPName = [47, 100, 47, 102], ren_newPName = [47, 101, 47, 102], ren_isDirectory = False\<rparr>]"
proof -
  have "fst (newRenameOp 5 chained_dir name_disk [47, 100] [47, 101] chained_volume) =
    Inr (Some [\<lparr>ren_oldCName = [47, 114, 47, 97, 100, 47, 97, 102], ren_newCName = [47, 114, 47, 97, 100, 47, 98, 102],
    ren_oldPName = [47, 100, 47, 102], ren_newPName = [47, 101, 47, 102], ren_isDirectory = False\<rparr>])"
    by code_simp
  then show ?thesis
    using osoD [OF oso_newRenameOp assms(1,2), of "fst (newRenameOp 5 chained_dir name_disk [47, 100] [47, 101] chained_volume)"]
    by (cases "newRenameOp 5 chained_dir name_disk [47, 100] [47, 101] chained_volume") simp
qed

lemma chained_rename:
  "fst (DirNode_rename 5 chained_dir name_disk [47, 100] [47, 101] chained_volume) = Inr 0"
  "v_os (snd (DirNode_rename 5 chained_dir name_disk [47, 100] [47, 101] chained_volume))
     = [[47, 114, 47, 97, 101], [47, 114, 47, 97, 101, 47, 98, 102]]"
  by code_simp+


text \<open>C5: every element of the list of renamings keeps the plain name: the old and the new name on
  the disk, decoded under the IVs of the old and the new directory, are the same plain name,
  and both are names in the directory where the file is now.\<close>
theorem rename_list_recodes:
  assumes "name_coder (naming dn)" and "\<not> ni_reverseEncryption (naming dn)"
    and "newRenameOp depth dn u fromP toP v = (Inr (Some els), v')"
  shows "list_all (recodes dn) els"
  using genRenameList_all [OF assms(1,2) assms(3) [unfolded newRenameOp_def]] by simp

theorem rename_list_recodes_witness:
  "list_all (recodes chained_dir) [\<lparr>ren_oldCName = [47, 114, 47, 97, 100, 47, 97, 102],
    ren_newCName = [47, 114, 47, 97, 100, 47, 98, 102], ren_oldPName = [47, 100, 47, 102],
    ren_newPName = [47, 101, 47, 102], ren_isDirectory = False\<rparr>]"
proof -
  have "name_coder (naming chained_dir)" "\<not> ni_reverseEncryption (naming chained_dir)"
    using letters.name_coder_axioms by (simp_all add: chained_dir_def DirNode_new_def letterNames_def)
  moreover have "fst (newRenameOp 5 chained_dir name_disk [47, 100] [47, 101] chained_volume) =
    Inr (Some [\<lparr>ren_oldCName = [47, 114, 47, 97, 100, 47, 97, 102], ren_newCName = [47, 114, 47, 97, 100, 47, 98, 102],
    ren_oldPName = [47, 100, 47, 102], ren_newPName = [47, 101, 47, 102], ren_isDirectory = False\<rparr>])"
    by code_simp
  ultimately show ?thesis using rename_list_recodes by (metis prod.collapse)
qed

text \<open>C6: making the list of renamings ends when the disk refuses paths beyond some length: with a
  depth that covers the lengths above that of the directory, the function returns a list or
  throws.  The directory must have a coded name, which excludes the root of the volume.\<close>
theorem rename_list_terminates:
  fixes v :: "('o, 'r) volume"
  assumes "\<And>path iv. encodePath_iv (naming dn) path iv \<noteq> Inl Diverges"
    and "short_paths N u"
    and "encodePath_iv (naming dn) fromP 0 = Inr (c, iv)" and "c \<noteq> []"
    and "N + 2 \<le> length (dn_rootDir dn) + length c + depth" and "1 \<le> depth"
  shows "fst (newRenameOp depth dn u fromP toP v) \<noteq> Inl Diverges"
proof -
  have "c' \<noteq> [] \<and> N + 2 \<le> length (dn_rootDir dn) + length c' + depth"
    if "encodePath_iv (naming dn) fromP 0 = Inr (c', iv')" for c' iv'
    using that assms(3-5) by simp
  note d = this
  have "returns_or_throws (genRenameList depth dn u fromP toP [] :: ('o, 'r, rename_el list option) vm)"
    by (rule rot_genRenameList [OF assms(1,2) _ assms(6)]) (rule d)
  then show ?thesis
    unfolding newRenameOp_def returns_or_throws_def by blast
qed

text \<open>The disk of names, with a bound on the lengths.\<close>

definition short_disk :: "bytes list unixdir" where
  "short_disk = name_disk\<lparr>ud_opendir := (\<lambda>path w. if length path \<le> 255 then ud_opendir name_disk path w else (None, w))\<rparr>"

theorem rename_list_terminates_witness:
  "fst (newRenameOp 260 chained_dir short_disk [47, 100] [47, 101] chained_volume) \<noteq> Inl Diverges"
proof (rule rename_list_terminates)
  show "encodePath_iv (naming chained_dir) path iv \<noteq> Inl Diverges" for path iv
    using letters_throw by (simp add: chained_dir_def DirNode_new_def)
  show "short_paths 255 short_disk" by (simp add: short_paths_def short_disk_def)
  show "encodePath_iv (naming chained_dir) [47, 100] 0 = Inr ([97, 100], 100)" by code_simp
qed simp_all

end
