(* ===== verification/WinUtils.thy ===== *)
theory WinUtils
  imports FileIO
begin

text \<open>
  The helpers of FUSE for Windows (\<open>fuse4win/src/utils.cpp\<close>): conversion of strings between
  UTF-8 and UTF-16, of times and of error numbers, and the parts of a path.  A wide string
  is a list of 16-bit units; a C string ends at its first zero.
\<close>

type_synonym wchars = "u16 list"

definition wcstr :: "wchars \<Rightarrow> wchars" where
  "wcstr ws = takeWhile (\<lambda>x. x \<noteq> 0) ws"

subsection \<open>Characters\<close>

text \<open>
  The reading functions return the number of units read and the character, or \<open>None\<close> for a
  negative result.  The table of lengths, row by row, and the masks.
\<close>

definition utf8_length :: "byte \<Rightarrow> nat" where
  "utf8_length b =
     (if b < 0x80 then 1 else if b < 0xc0 then 0 else if b < 0xe0 then 2 else if b < 0xf0 then 3
      else if b < 0xf8 then 4 else if b < 0xfc then 5 else if b < 0xfe then 6 else 0)"

definition utf8_mask :: "nat \<Rightarrow> byte" where
  "utf8_mask l = [0, 0x7f, 0x1f, 0x0f, 0x07, 0x03, 0x01] ! l"

definition get_utf8 :: "bytes \<Rightarrow> (nat \<times> u32) option" where
  "get_utf8 p =
     (let l = utf8_length (hd p) in
      if l = 0 \<or> length p < l then None
      else Some (l, fold (\<lambda>b uc. push_bit 6 uc OR (ucast b AND 0x3f)) (take (l - 1) (tl p))
                      (ucast (hd p AND utf8_mask l))))"

text \<open>
  Writing works backwards in the buffer: \<open>put_utf8_tail\<close> are the bytes it writes, from the last
  one on.  The bytes before them, if any, keep what was in the memory, \<open>mem\<close>.
\<close>

definition put_utf8_len :: "u32 \<Rightarrow> nat option" where
  "put_utf8_len c =
     (if drop_bit 11 c = 0 then Some 2 else if drop_bit 16 c = 0 then Some 3
      else if drop_bit 21 c = 0 then Some 4 else if drop_bit 26 c = 0 then Some 5
      else if drop_bit 31 c \<noteq> 0 then None else Some 6)"

lemma unat_drop_bit_6: "unat (drop_bit 6 (c :: u32)) = unat c div 64"
  by (simp add: drop_bit_eq_div unat_div)

function put_utf8_tail :: "u32 \<Rightarrow> u32 \<Rightarrow> bytes" where
  "put_utf8_tail msk c =
     (let b = 0x80 OR ucast (c AND 0x3f); c = drop_bit 6 c; msk = drop_bit 1 msk in
      if c < 0x40 then [ucast (msk OR c), b] else put_utf8_tail msk c @ [b])"
  by pat_completeness auto
termination by (relation "measure (\<lambda>(msk, c). unat c)") (auto simp: unat_drop_bit_6 word_less_nat_alt)

definition put_utf8 :: "(nat \<Rightarrow> byte) \<Rightarrow> u32 \<Rightarrow> bytes option" where
  "put_utf8 mem c =
     (if drop_bit 7 c = 0 then Some [ucast c]
      else case put_utf8_len c of
             None \<Rightarrow> None
           | Some n \<Rightarrow> (let tail = put_utf8_tail 0xff80 c in
               Some (map mem [0..<n - length tail] @ tail)))"

definition get_utf16 :: "wchars \<Rightarrow> (nat \<times> u32) option" where
  "get_utf16 p =
     (case p of
        [] \<Rightarrow> None
      | [c] \<Rightarrow> Some (1, ucast c)
      | c # c2 # _ \<Rightarrow>
          if c AND 0xfc00 = 0xd800 \<and> c2 AND 0xfc00 = 0xdc00
          then Some (2, push_bit 10 (ucast c) + ucast c2 - (push_bit 10 0xd800 + 0xdc00 - 0x10000))
          else Some (1, ucast c))"

definition put_utf16 :: "u32 \<Rightarrow> wchars option" where
  "put_utf16 c =
     (if c \<ge> 0x110000 then None
      else if c < 0x10000 then Some [ucast c]
      else let c = c - 0x10000 in Some [ucast (0xd800 + drop_bit 10 c), ucast (0xdc00 + (c AND 0x3ff))])"

subsection \<open>Strings\<close>

text \<open>
  The loop of \<open>convert_char\<close> into a destination; \<open>k\<close> is the position in it.  A reading
  function that reads nothing would not get on; the two above always read something.
\<close>

function convert_char ::
  "('a list \<Rightarrow> (nat \<times> u32) option) \<Rightarrow> (nat \<Rightarrow> u32 \<Rightarrow> 'b list option) \<Rightarrow> nat \<Rightarrow> 'a list \<Rightarrow> 'b list option" where
  "convert_char getc putc k src =
     (if src = [] then Some []
      else case getc src of
             None \<Rightarrow> None
           | Some (n, c) \<Rightarrow>
               if n = 0 then None
               else (case putc k c of
                       None \<Rightarrow> None
                     | Some out \<Rightarrow> map_option ((@) out) (convert_char getc putc (k + length out) (drop n src))))"
  by pat_completeness auto
termination by (relation "measure (\<lambda>(g, p, k, src). length src)") (auto simp: not_less)

declare convert_char.simps [simp del] put_utf8_tail.simps [simp del]

text \<open>
  The first pass only counts, and fails as the second would.  \<open>mem\<close> is what \<open>malloc\<close> left in
  the new string.  The result of \<open>utf8_to_wchar_buf\<close> are the units written to the buffer.
\<close>

definition wchar_to_utf8 :: "(nat \<Rightarrow> byte) \<Rightarrow> wchars \<Rightarrow> bytes option" where
  "wchar_to_utf8 mem ws = convert_char get_utf16 (\<lambda>k. put_utf8 (\<lambda>i. mem (k + i))) 0 (wcstr ws @ [0])"

definition utf8_to_wchar_buf :: "bytes \<Rightarrow> nat \<Rightarrow> wchars" where
  "utf8_to_wchar_buf src maxlen =
     (if maxlen = 0 then []
      else case convert_char get_utf8 (\<lambda>_. put_utf16) 0 (cstr src @ [0]) of
             None \<Rightarrow> [0]
           | Some ws \<Rightarrow> if length ws > maxlen then [0] else ws)"

definition wchar_to_utf8_cstr :: "(nat \<Rightarrow> byte) \<Rightarrow> wchars \<Rightarrow> bytes" where
  "wchar_to_utf8_cstr mem ws = (case wchar_to_utf8 mem ws of None \<Rightarrow> [] | Some s \<Rightarrow> cstr s)"

definition unixify :: "bytes \<Rightarrow> bytes" where
  "unixify str =
     (let res = map (\<lambda>ch. if ch = 92 then 47 else ch) str in
      if length res > 1 \<and> last res = 47 then butlast res else res)"

definition extract_file_name :: "bytes \<Rightarrow> bytes" where
  "extract_file_name str =
     (if 47 \<notin> set str then str else rev (takeWhile (\<lambda>x. x \<noteq> 47) (rev str)))"

definition extract_dir_name :: "bytes \<Rightarrow> bytes" where
  "extract_dir_name str = (if 47 \<notin> set str then str else rev (dropWhile (\<lambda>x. x \<noteq> 47) (rev str)))"


subsection \<open>Times\<close>

text \<open>
  A \<open>FILETIME\<close> counts units of 100 ns since 1601 in two halves.  \<open>Int32x32To64\<close> takes the lower
  32 bits of its arguments as signed numbers.
\<close>

record filetime =
  ft_low :: u32
  ft_high :: u32

definition unix_epoch :: u64 where "unix_epoch = 116444736000000000"

definition split_filetime :: "u64 \<Rightarrow> filetime" where
  "split_filetime ll = \<lparr>ft_low = ucast ll, ft_high = ucast (drop_bit 32 ll)\<rparr>"

definition unixTimeToFiletime :: "int \<Rightarrow> filetime" where
  "unixTimeToFiletime t =
     split_filetime (word_of_int (sint (word_of_int t :: u32) * 10000000) + unix_epoch)"

definition is_filetime_set :: "filetime option \<Rightarrow> bool" where
  "is_filetime_set ft = (case ft of None \<Rightarrow> False | Some f \<Rightarrow> \<not> (ft_high f = 0 \<and> ft_low f = 0))"

definition filetimeToUnixTime :: "filetime \<Rightarrow> int" where
  "filetimeToUnixTime ft =
     (if \<not> is_filetime_set (Some ft) then 0
      else let ll = push_bit 32 (ucast (ft_high ft)) + ucast (ft_low ft) :: u64 in
           sint ((ll - unix_epoch) div 10000000))"

subsection \<open>Error numbers\<close>

definition ENOENT :: int where "ENOENT = 2"
definition E2BIG :: int where "E2BIG = 7"
definition ENOEXEC :: int where "ENOEXEC = 8"
definition EBADF :: int where "EBADF = 9"
definition ECHILD :: int where "ECHILD = 10"
definition EAGAIN :: int where "EAGAIN = 11"
definition ENOMEM :: int where "ENOMEM = 12"
definition EBUSY :: int where "EBUSY = 16"
definition EEXIST :: int where "EEXIST = 17"
definition EXDEV :: int where "EXDEV = 18"
definition ENOTDIR :: int where "ENOTDIR = 20"
definition EINVAL :: int where "EINVAL = 22"
definition EMFILE :: int where "EMFILE = 24"
definition ENOSPC :: int where "ENOSPC = 28"
definition EPIPE :: int where "EPIPE = 32"
definition ENOTEMPTY :: int where "ENOTEMPTY = 41"

definition ERROR_FILE_EXISTS :: int where "ERROR_FILE_EXISTS = 80"
definition ERROR_INVALID_FUNCTION :: int where "ERROR_INVALID_FUNCTION = 1"

text \<open>The entry with the comment 124 names \<open>ERROR_INVALID_HANDLE\<close>, which is 6.\<close>

definition errtable :: "(int \<times> int) list" where
  "errtable =
     [(ERROR_INVALID_FUNCTION, EINVAL), (2, ENOENT), (3, ENOENT), (4, EMFILE), (5, EACCES), (6, EBADF),
      (7, ENOMEM), (8, ENOMEM), (9, ENOMEM), (10, E2BIG), (11, ENOEXEC), (12, EINVAL), (13, EINVAL),
      (15, ENOENT), (16, EACCES), (17, EXDEV), (18, ENOENT), (33, EACCES), (53, ENOENT), (65, EACCES),
      (67, ENOENT), (183, EEXIST), (ERROR_FILE_EXISTS, EEXIST), (82, EACCES), (83, EACCES), (87, EINVAL),
      (89, EAGAIN), (108, EACCES), (109, EPIPE), (112, ENOSPC), (114, EBADF), (6, EINVAL), (128, ECHILD),
      (129, ECHILD), (130, EBADF), (131, EINVAL), (132, EACCES), (145, ENOTEMPTY), (158, EACCES),
      (161, ENOENT), (164, EAGAIN), (167, EACCES), (206, ENOENT), (215, EAGAIN), (1816, ENOMEM)]"

definition win32_error_to_errno :: "int \<Rightarrow> int" where
  "win32_error_to_errno win_res =
     (if win_res = 0 then 0
      else case find (\<lambda>(oscode, errnocode). oscode = \<bar>win_res\<bar>) errtable of
             Some (oscode, errnocode) \<Rightarrow> errnocode
           | None \<Rightarrow> EINVAL)"

definition errno_to_win32_error :: "int \<Rightarrow> int" where
  "errno_to_win32_error err =
     (if err = 0 then 0
      else case find (\<lambda>(oscode, errnocode). errnocode = \<bar>err\<bar>) errtable of
             Some (oscode, errnocode) \<Rightarrow> oscode
           | None \<Rightarrow> ERROR_INVALID_FUNCTION)"

subsection \<open>Characters there and back\<close>

text \<open>
  The characters whose first byte is written: the loop of \<open>put_utf8\<close> stops one byte early
  for the others.
\<close>

definition utf8_exact :: "u32 \<Rightarrow> bool" where
  "utf8_exact c \<longleftrightarrow> c < 0x800 \<or> 0x1000 \<le> c \<and> c < 0x10000 \<or> 0x40000 \<le> c \<and> c < 0x110000"

definition cont :: "u32 \<Rightarrow> byte" where
  "cont c = 0x80 OR ucast (c AND 0x3f)"

lemma unat_ucast_byte: "unat (ucast (b :: byte) :: u32) = unat b"
proof -
  have "unat b < 4294967296" using unat_lt_256 [of b] by linarith
  then show ?thesis by (simp add: unsigned_ucast_eq take_bit_eq_mod)
qed

lemma u32_split6: "push_bit 6 (drop_bit 6 c) OR (c AND 0x3f) = (c :: u32)"
proof -
  have m: "(0x3f :: u32) = mask 6" by (simp add: mask_eq_exp_minus_1)
  show ?thesis unfolding m by (rule bit_word_eqI) (auto simp: bit_simps)
qed

lemma conts: "list_all (\<lambda>k. let b = 0x80 OR ucast (word_of_nat k :: u32) :: byte in
    b \<noteq> 0 \<and> ucast b AND 0x3f = (word_of_nat k :: u32)) [0..<64]"
  by code_simp

lemma unat_and_63: "unat (c AND (0x3f :: u32)) < 64"
proof -
  have "c AND 0x3f = take_bit 6 c" by (simp add: take_bit_eq_mask mask_eq_exp_minus_1)
  then show ?thesis by (simp add: take_bit_eq_mod unat_mod)
qed

lemma cont_ok: "cont c \<noteq> 0" "ucast (cont c) AND 0x3f = c AND (0x3f :: u32)"
proof -
  have "unat (c AND 0x3f) \<in> set [0..<64]" "c AND 0x3f = word_of_nat (unat (c AND 0x3f))"
    using unat_and_63 by simp_all
  then show "cont c \<noteq> 0" "ucast (cont c) AND 0x3f = c AND (0x3f :: u32)"
    using conts unfolding cont_def Let_def list_all_iff by metis+
qed

text \<open>The leading bytes, case by case.\<close>

definition lead_ok :: "nat \<Rightarrow> u32 \<Rightarrow> nat \<Rightarrow> bool" where
  "lead_ok l msk n \<longleftrightarrow> list_all (\<lambda>k. let b = ucast (msk OR word_of_nat k) :: byte in
     b \<noteq> 0 \<and> utf8_length b = l \<and> ucast (b AND utf8_mask l) = (word_of_nat k :: u32)) [0..<n]"

lemma leads: "lead_ok 2 0x7fc0 32" "lead_ok 3 0x3fe0 16" "lead_ok 4 0x1ff0 8"
  by code_simp+

lemma leadD:
  assumes "lead_ok l msk n" and "unat d < n"
  shows "(ucast (msk OR d) :: byte) \<noteq> 0" and "utf8_length (ucast (msk OR d)) = l"
    and "ucast (ucast (msk OR d) AND utf8_mask l) = (d :: u32)"
proof -
  have "unat d \<in> set [0..<n]" "d = word_of_nat (unat d)" using assms(2) by simp_all
  then show "(ucast (msk OR d) :: byte) \<noteq> 0" "utf8_length (ucast (msk OR d)) = l"
      "ucast (ucast (msk OR d) AND utf8_mask l) = (d :: u32)"
    using assms(1) unfolding lead_ok_def Let_def list_all_iff by metis+
qed

lemma unat_drop: "unat (drop_bit n (c :: u32)) = unat c div 2 ^ n"
  using unsigned_less [of c, where 'a = nat] by (simp only: unsigned_drop_bit_eq) (simp add: drop_bit_eq_div take_bit_eq_mod)

lemma put_tail2:
  assumes "drop_bit 6 c < (0x40 :: u32)"
  shows "put_utf8_tail msk c = [ucast (drop_bit 1 msk OR drop_bit 6 c), cont c]"
  using assms by (simp add: put_utf8_tail.simps [of msk c] cont_def Let_def)

lemma put_tail_more:
  assumes "\<not> drop_bit 6 c < (0x40 :: u32)"
  shows "put_utf8_tail msk c = put_utf8_tail (drop_bit 1 msk) (drop_bit 6 c) @ [cont c]"
  using assms by (simp add: put_utf8_tail.simps [of msk c] cont_def Let_def)

lemma put_get_2:
  assumes "0x80 \<le> c" and "c < 0x800"
  obtains b where "\<And>mem. put_utf8 mem c = Some [b, cont c]" and "b \<noteq> 0"
    and "\<And>rest. get_utf8 (b # cont c # rest) = Some (2, c)"
proof -
  have c: "128 \<le> unat c" "unat c < 2048" using assms by (simp_all add: word_le_nat_alt word_less_nat_alt)
  have d: "unat (drop_bit 6 c) < 32" using c by (simp add: unat_drop)
  note l = leadD [OF leads(1) d]
  have n: "drop_bit 7 c \<noteq> 0" "drop_bit 11 c = 0" using c by (simp_all add: unat_eq_0 [symmetric] unat_drop del: unat_eq_0)
  have lt: "drop_bit 6 c < 0x40" using d by (simp add: word_less_nat_alt)
  have m: "(drop_bit 1 0xff80 :: u32) = 0x7fc0" by simp
  show ?thesis
  proof (rule that)
    show "put_utf8 mem c = Some [ucast (0x7fc0 OR drop_bit 6 c), cont c]" for mem
      using n by (simp add: put_utf8_def put_utf8_len_def put_tail2 [OF lt] m del: drop_bit_numeral_bit0)
    show "get_utf8 (ucast (0x7fc0 OR drop_bit 6 c) # cont c # rest) = Some (2, c)" for rest
      using l by (simp add: get_utf8_def cont_ok u32_split6)
  qed (rule l(1))
qed

lemma put_get_3:
  assumes "0x1000 \<le> c" and "c < 0x10000"
  obtains b where "\<And>mem. put_utf8 mem c = Some [b, cont (drop_bit 6 c), cont c]" and "b \<noteq> 0"
    and "\<And>rest. get_utf8 (b # cont (drop_bit 6 c) # cont c # rest) = Some (3, c)"
proof -
  have c: "4096 \<le> unat c" "unat c < 65536" using assms by (simp_all add: word_le_nat_alt word_less_nat_alt)
  have dd: "drop_bit 6 (drop_bit 6 c) = drop_bit 12 c" by (simp add: drop_bit_drop_bit)
  have d: "unat (drop_bit 12 c) < 16" using c by (simp add: unat_drop)
  note l = leadD [OF leads(2) d]
  have n: "drop_bit 7 c \<noteq> 0" "drop_bit 11 c \<noteq> 0" "drop_bit 16 c = 0"
    using c by (simp_all add: unat_eq_0 [symmetric] unat_drop del: unat_eq_0)
  have lt: "\<not> drop_bit 6 c < 0x40" "drop_bit 6 (drop_bit 6 c) < 0x40"
    using c d by (simp_all add: word_less_nat_alt unat_drop dd)
  have m: "drop_bit 1 (drop_bit 1 0xff80) = (0x3fe0 :: u32)" by simp
  show ?thesis
  proof (rule that)
    show "put_utf8 mem c = Some [ucast (0x3fe0 OR drop_bit 12 c), cont (drop_bit 6 c), cont c]" for mem
      using n by (simp add: put_utf8_def put_utf8_len_def put_tail_more [OF lt(1)] put_tail2 [OF lt(2)] dd)
    show "get_utf8 (ucast (0x3fe0 OR drop_bit 12 c) # cont (drop_bit 6 c) # cont c # rest) = Some (3, c)" for rest
      using l u32_split6 [of "drop_bit 6 c", unfolded dd] by (simp add: get_utf8_def cont_ok u32_split6)
  qed (rule l(1))
qed

lemma put_get_4:
  assumes "0x40000 \<le> c" and "c < 0x110000"
  obtains b where "\<And>mem. put_utf8 mem c = Some [b, cont (drop_bit 12 c), cont (drop_bit 6 c), cont c]" and "b \<noteq> 0"
    and "\<And>rest. get_utf8 (b # cont (drop_bit 12 c) # cont (drop_bit 6 c) # cont c # rest) = Some (4, c)"
proof -
  have c: "262144 \<le> unat c" "unat c < 1114112" using assms by (simp_all add: word_le_nat_alt word_less_nat_alt)
  have dd: "drop_bit 6 (drop_bit 6 c) = drop_bit 12 c" "drop_bit 6 (drop_bit 12 c) = drop_bit 18 c"
    by (simp_all add: drop_bit_drop_bit)
  have d: "unat (drop_bit 18 c) < 8" using c by (simp add: unat_drop)
  note l = leadD [OF leads(3) d]
  have n: "drop_bit 7 c \<noteq> 0" "drop_bit 11 c \<noteq> 0" "drop_bit 16 c \<noteq> 0" "drop_bit 21 c = 0"
    using c by (simp_all add: unat_eq_0 [symmetric] unat_drop del: unat_eq_0)
  have lt: "\<not> drop_bit 6 c < 0x40" "\<not> drop_bit 6 (drop_bit 6 c) < 0x40" "drop_bit 6 (drop_bit 12 c) < 0x40"
    using c d by (simp_all add: word_less_nat_alt unat_drop dd)
  show ?thesis
  proof (rule that)
    show "put_utf8 mem c = Some [ucast (0x1ff0 OR drop_bit 18 c), cont (drop_bit 12 c), cont (drop_bit 6 c), cont c]" for mem
      using n by (simp add: put_utf8_def put_utf8_len_def put_tail_more [OF lt(1)] put_tail_more [OF lt(2)]
          put_tail2 [OF lt(3)] dd)
    show "get_utf8 (ucast (0x1ff0 OR drop_bit 18 c) # cont (drop_bit 12 c) # cont (drop_bit 6 c) # cont c # rest)
        = Some (4, c)" for rest
      using l u32_split6 [of "drop_bit 6 c", unfolded dd] u32_split6 [of "drop_bit 12 c", unfolded dd]
      by (simp add: get_utf8_def cont_ok u32_split6)
  qed (rule l(1))
qed

lemma put_get_utf8:
  assumes "utf8_exact c" and "c \<noteq> 0"
  obtains bs where "\<And>mem. put_utf8 mem c = Some bs" and "0 \<notin> set bs" and "bs \<noteq> []"
    and "\<And>rest. get_utf8 (bs @ rest) = Some (length bs, c)"
proof -
  consider "c < 0x80" | "0x80 \<le> c" "c < 0x800" | "0x1000 \<le> c" "c < 0x10000" | "0x40000 \<le> c" "c < 0x110000"
    using assms(1) unfolding utf8_exact_def by (meson not_le)
  then show ?thesis
  proof cases
    case 1
    then have c: "unat c < 128" by (simp add: word_less_nat_alt)
    then have d: "drop_bit 7 c = 0" by (simp add: unat_eq_0 [symmetric] unat_drop del: unat_eq_0)
    have k: "unat (ucast c :: byte) = unat c"
      using c by (simp add: unsigned_ucast_eq take_bit_nat_eq_self)
    then have b: "(ucast c :: byte) \<noteq> 0" "(ucast c :: byte) < 0x80"
      using c assms(2) by (metis unat_0 unat_eq_zero, simp add: word_less_nat_alt)
    have "(ucast c :: byte) AND 0x7f = take_bit 7 (ucast c)" by (simp add: take_bit_eq_mask mask_eq_exp_minus_1)
    then have "unat ((ucast c :: byte) AND 0x7f) = unat c"
      using c k by (simp add: unsigned_take_bit_eq take_bit_nat_eq_self)
    then have "ucast ((ucast c :: byte) AND 0x7f) = c"
      by (simp only: word_unat_eq_iff) (simp add: unat_ucast_byte)
    then show ?thesis
      using b d by (intro that [of "[ucast c]"]) (simp_all add: put_utf8_def get_utf8_def utf8_length_def utf8_mask_def)
  next
    case 2
    then show ?thesis by (rule put_get_2) (rule that, auto simp: cont_ok(1) [THEN not_sym])
  next
    case 3
    then show ?thesis by (rule put_get_3) (rule that, auto simp: cont_ok(1) [THEN not_sym])
  next
    case 4
    then show ?thesis by (rule put_get_4) (rule that, auto simp: cont_ok(1) [THEN not_sym])
  qed
qed

text \<open>The surrogates.\<close>

definition high_surrogate :: "u16 \<Rightarrow> bool" where "high_surrogate u \<longleftrightarrow> u AND 0xfc00 = 0xd800"
definition low_surrogate :: "u16 \<Rightarrow> bool" where "low_surrogate u \<longleftrightarrow> u AND 0xfc00 = 0xdc00"

definition pair_code :: "u16 \<Rightarrow> u16 \<Rightarrow> u32" where
  "pair_code c c2 = push_bit 10 (ucast c) + ucast c2 - (push_bit 10 0xd800 + 0xdc00 - 0x10000)"

lemma u16_split10: "unat u = unat (u AND 0xfc00) + unat (u AND (0x3ff :: u16))"
proof -
  have m: "(0x3ff :: u16) = mask 10" "(0xfc00 :: u16) = push_bit 10 (mask 6)" by (simp_all add: mask_eq_exp_minus_1)
  have "u = (u AND 0xfc00) OR (u AND 0x3ff)"
    unfolding m by (rule bit_word_eqI) (auto simp: bit_simps)
  also have "\<dots> = (u AND 0xfc00) + (u AND 0x3ff)"
    unfolding m by (rule disjunctive_add_eq_or [symmetric]) (auto simp: bit_eq_iff bit_simps)
  finally have s: "u = (u AND 0xfc00) + (u AND 0x3ff)" .
  have "unat (u AND 0x3ff) < 1024"
  proof -
    have "u AND 0x3ff = take_bit 10 u" by (simp add: take_bit_eq_mask mask_eq_exp_minus_1)
    then show ?thesis by (simp add: take_bit_eq_mod unat_mod)
  qed
  moreover have "unat (u AND 0xfc00) \<le> 64512"
    using word_and_le1 [of u "0xfc00"] by (simp add: word_le_nat_alt)
  ultimately show ?thesis
    by (subst s) (simp only: unat_word_ariths, simp)
qed

lemma unat_low10: "unat (u AND (0x3ff :: u16)) < 1024"
proof -
  have "u AND 0x3ff = take_bit 10 u" by (simp add: take_bit_eq_mask mask_eq_exp_minus_1)
  then show ?thesis by (simp add: take_bit_eq_mod unat_mod)
qed

lemma unat_surrogate:
  "high_surrogate u \<Longrightarrow> unat u = 0xd800 + unat (u AND 0x3ff)" "low_surrogate u \<Longrightarrow> unat u = 0xdc00 + unat (u AND 0x3ff)"
  using u16_split10 [of u] by (simp_all add: high_surrogate_def low_surrogate_def)

lemma unat_ucast_u16: "unat (ucast (u :: u16) :: u32) = unat u"
proof -
  have "unat u < 65536" using unsigned_less [of u, where 'a = nat] by simp
  then have "unat u < 4294967296" by linarith
  then show ?thesis by (simp add: unsigned_ucast_eq take_bit_eq_mod)
qed

lemma unat_eqI: "unat u = n \<Longrightarrow> ucast u = (word_of_nat n :: u32)"
  by (metis of_nat_unat)

lemma put_pair:
  assumes "high_surrogate c" and "low_surrogate c2"
  shows "put_utf16 (pair_code c c2) = Some [c, c2]"
proof -
  obtain a b where ab: "a < 1024" "b < 1024" "unat c = 0xd800 + a" "unat c2 = 0xdc00 + b"
    using unat_surrogate(1) [OF assms(1)] unat_surrogate(2) [OF assms(2)] unat_low10 by blast
  let ?w = "word_of_nat (1024 * a + b) :: u32"
  have w: "unat ?w = 1024 * a + b" using ab by (simp add: unat_of_nat take_bit_eq_mod del: of_nat_add of_nat_mult)
  have pc: "pair_code c c2 = ?w + 0x10000"
    using unat_eqI [OF ab(3)] unat_eqI [OF ab(4)] by (simp add: pair_code_def push_bit_eq_mult algebra_simps)
  then have p: "unat (pair_code c c2) = 1024 * a + b + 65536"
    using ab w by (simp add: unat_word_ariths del: of_nat_add of_nat_mult)
  have "\<not> 0x110000 \<le> pair_code c c2" "\<not> pair_code c c2 < 0x10000"
    using ab p by (simp_all add: word_le_nat_alt word_less_nat_alt)
  moreover have "pair_code c c2 - 0x10000 = ?w" by (simp add: pc)
  moreover have "drop_bit 10 ?w = word_of_nat a"
    using ab by (simp add: word_unat_eq_iff unat_drop w unat_of_nat del: of_nat_add of_nat_mult)
  moreover have "?w AND 0x3ff = word_of_nat b"
  proof -
    have "?w AND 0x3ff = take_bit 10 ?w" by (simp add: take_bit_eq_mask mask_eq_exp_minus_1)
    also have "\<dots> = word_of_nat b"
      unfolding word_unat_eq_iff unsigned_take_bit_eq w using ab by (simp add: take_bit_eq_mod unat_of_nat)
    finally show ?thesis .
  qed
  moreover have "ucast (0xd800 + word_of_nat a :: u32) = c" "ucast (0xdc00 + word_of_nat b :: u32) = c2"
    using ab by (simp_all add: word_unat_eq_iff unsigned_ucast_eq take_bit_eq_mod unat_word_ariths unat_of_nat)
  ultimately show ?thesis by (simp add: put_utf16_def Let_def)
qed

lemma put_unit: "put_utf16 (ucast u) = Some [u]"
proof -
  have "unat u < 65536" using unsigned_less [of u, where 'a = nat] by simp
  then have "\<not> 0x110000 \<le> (ucast u :: u32)" "(ucast u :: u32) < 0x10000"
    by (simp_all add: word_le_nat_alt word_less_nat_alt unat_ucast_u16)
  moreover have "ucast (ucast u :: u32) = u"
    by (rule bit_word_eqI) (auto simp: bit_simps)
  ultimately show ?thesis by (simp add: put_utf16_def)
qed

subsection \<open>Strings there and back\<close>

fun code_points :: "wchars \<Rightarrow> u32 list" where
  "code_points [] = []"
| "code_points [c] = [ucast c]"
| "code_points (c # c2 # ws) =
     (if high_surrogate c \<and> low_surrogate c2 then pair_code c c2 # code_points ws
      else ucast c # code_points (c2 # ws))"

lemma convert_step:
  assumes "src \<noteq> []" and "getc src = Some (n, c)" and "0 < n" and "putc k c = Some out"
  shows "convert_char getc putc k src = map_option ((@) out) (convert_char getc putc (k + length out) (drop n src))"
  using assms by (simp add: convert_char.simps [of getc putc k src])

lemma convert_Nil [simp]: "convert_char getc putc k [] = Some []"
  by (simp add: convert_char.simps)

abbreviation to8 :: "(nat \<Rightarrow> byte) \<Rightarrow> nat \<Rightarrow> wchars \<Rightarrow> bytes option" where
  "to8 mem \<equiv> convert_char get_utf16 (\<lambda>k. put_utf8 (\<lambda>i. mem (k + i)))"

abbreviation to16 :: "nat \<Rightarrow> bytes \<Rightarrow> wchars option" where
  "to16 \<equiv> convert_char get_utf8 (\<lambda>_. put_utf16)"

lemma end_of_string: "to8 mem k [0] = Some [0]" "to16 k [0] = Some [0]"
proof -
  show "to8 mem k [0] = Some [0]"
    by (subst convert_step [where n = 1 and c = 0 and out = "[0]"]) (simp_all add: get_utf16_def put_utf8_def)
  show "to16 k [0] = Some [0]"
    by (subst convert_step [where n = 1 and c = 0 and out = "[0]"])
       (simp_all add: get_utf8_def utf8_length_def put_utf16_def)
qed

lemma one_character:
  assumes "utf8_exact c" and "c \<noteq> 0" and "n \<noteq> 0" and "get_utf16 (us @ ws @ [0]) = Some (n, c)" and "length us = n"
    and "put_utf16 c = Some us" and "0 \<notin> set bs"
    and "\<And>mem k. to8 mem k (ws @ [0]) = Some (bs @ [0])" and "\<And>k. to16 k (bs @ [0]) = Some (ws @ [0])"
  shows "\<exists>bs. 0 \<notin> set bs \<and> (\<forall>mem k. to8 mem k ((us @ ws) @ [0]) = Some (bs @ [0])) \<and>
    (\<forall>k. to16 k (bs @ [0]) = Some ((us @ ws) @ [0]))"
proof -
  obtain b where b: "\<And>mem. put_utf8 mem c = Some b" "0 \<notin> set b" "b \<noteq> []"
      "\<And>rest. get_utf8 (b @ rest) = Some (length b, c)"
    using put_get_utf8 [OF assms(1,2)] by metis
  have "to8 mem k (us @ ws @ [0]) = Some (b @ bs @ [0])" for mem k
    using assms(3-5,8) b(1) by (subst convert_step [where n = n and c = c and out = b]) auto
  moreover have "to16 k (b @ bs @ [0]) = Some (us @ ws @ [0])" for k
    using assms(6,9) b(3,4) by (subst convert_step [where n = "length b" and c = c and out = us]) auto
  ultimately show ?thesis
    using assms(7) b(2) by (intro exI [of _ "b @ bs"]) simp
qed

lemma get_single: "get_utf16 [c, 0] = Some (1, ucast c)"
  by (simp add: get_utf16_def)

lemma get_pair:
  "get_utf16 (c # c2 # r) = (if high_surrogate c \<and> low_surrogate c2 then Some (2, pair_code c c2) else Some (1, ucast c))"
  by (simp add: get_utf16_def high_surrogate_def low_surrogate_def pair_code_def)

lemma strings_roundtrip:
  assumes "0 \<notin> set ws" and "list_all utf8_exact (code_points ws)"
  shows "\<exists>bs. 0 \<notin> set bs \<and> (\<forall>mem k. to8 mem k (ws @ [0]) = Some (bs @ [0])) \<and>
    (\<forall>k. to16 k (bs @ [0]) = Some (ws @ [0]))"
  using assms
proof (induction ws rule: code_points.induct)
  case 1
  show ?case by (intro exI [of _ "[]"]) (simp add: end_of_string)
next
  case (2 c)
  have "ucast c \<noteq> (0 :: u32)" using 2 unat_ucast_u16 [of c] by (metis list.set_intros(1) unat_0 unat_eq_zero)
  then show ?case
    using 2 one_character [of "ucast c" 1 "[c]" "[]" "[]"]
    by (simp add: put_unit end_of_string get_single)
next
  case (3 c c2 ws)
  show ?case
  proof (cases "high_surrogate c \<and> low_surrogate c2")
    case True
    then obtain bs where bs: "0 \<notin> set bs" "\<And>mem k. to8 mem k (ws @ [0]) = Some (bs @ [0])"
        "\<And>k. to16 k (bs @ [0]) = Some (ws @ [0])"
      using 3 by auto
    have "pair_code c c2 \<noteq> 0" using put_pair [of c c2] True by (auto simp: put_utf16_def)
    then show ?thesis
      using one_character [of "pair_code c c2" 2 "[c, c2]" ws bs] True 3(4) bs put_pair [of c c2]
      by (simp add: get_pair)
  next
    case False
    then obtain bs where bs: "0 \<notin> set bs" "\<And>mem k. to8 mem k ((c2 # ws) @ [0]) = Some (bs @ [0])"
        "\<And>k. to16 k (bs @ [0]) = Some ((c2 # ws) @ [0])"
      using 3 by auto
    have "ucast c \<noteq> (0 :: u32)" using 3(3) unat_ucast_u16 [of c] by (metis list.set_intros(1) unat_0 unat_eq_zero)
    moreover have "utf8_exact (ucast c)" using False 3(4) by auto
    ultimately show ?thesis
      using one_character [of "ucast c" 1 "[c]" "c2 # ws" bs] False 3(4) bs
      by (simp add: put_unit get_pair)
  qed
qed

text \<open>What is missing otherwise.\<close>

lemma put_gap:
  assumes "\<not> utf8_exact c" and "c < 0x110000"
  obtains bs where "\<And>mem. put_utf8 mem c = Some (mem 0 # bs)"
proof -
  have dd: "drop_bit 6 (drop_bit 6 c) = drop_bit 12 c" by (simp add: drop_bit_drop_bit)
  consider "0x800 \<le> c" "c < 0x1000" | "0x10000 \<le> c" "c < 0x40000"
    using assms unfolding utf8_exact_def by (meson not_le)
  then show ?thesis
  proof cases
    case 1
    then have c: "2048 \<le> unat c" "unat c < 4096" by (simp_all add: word_le_nat_alt word_less_nat_alt)
    have n: "drop_bit 7 c \<noteq> 0" "drop_bit 11 c \<noteq> 0" "drop_bit 16 c = 0"
      using c by (simp_all add: unat_eq_0 [symmetric] unat_drop del: unat_eq_0)
    have lt: "drop_bit 6 c < 0x40" using c by (simp add: word_less_nat_alt unat_drop)
    show ?thesis
      by (rule that) (use n in \<open>simp add: put_utf8_def put_utf8_len_def put_tail2 [OF lt]\<close>)
  next
    case 2
    then have c: "65536 \<le> unat c" "unat c < 262144" by (simp_all add: word_le_nat_alt word_less_nat_alt)
    have n: "drop_bit 7 c \<noteq> 0" "drop_bit 11 c \<noteq> 0" "drop_bit 16 c \<noteq> 0" "drop_bit 21 c = 0"
      using c by (simp_all add: unat_eq_0 [symmetric] unat_drop del: unat_eq_0)
    have lt: "\<not> drop_bit 6 c < 0x40" "drop_bit 6 (drop_bit 6 c) < 0x40"
      using c by (simp_all add: word_less_nat_alt unat_drop dd)
    show ?thesis
      by (rule that) (use n in \<open>simp add: put_utf8_def put_utf8_len_def put_tail_more [OF lt(1)] put_tail2 [OF lt(2)]\<close>)
  qed
qed

lemma join_filetime: "push_bit 32 (ucast (ft_high (split_filetime ll))) + ucast (ft_low (split_filetime ll)) = ll"
proof -
  have "push_bit 32 (ucast (ucast (drop_bit 32 ll) :: u32)) + ucast (ucast ll :: u32) =
      push_bit 32 (ucast (ucast (drop_bit 32 ll) :: u32)) OR (ucast (ucast ll :: u32) :: u64)"
    by (rule disjunctive_add_eq_or) (auto simp: bit_eq_iff bit_simps)
  also have "\<dots> = ll" by (rule bit_word_eqI) (auto simp: bit_simps)
  finally show ?thesis by (simp add: split_filetime_def)
qed

lemma filetime_value:
  assumes "- (2 ^ 31) \<le> k" and "k < 2 ^ 31"
  shows "filetimeToUnixTime (split_filetime (word_of_int (k * 10000000) + unix_epoch))
       = (if 0 \<le> k then k else 1844674407370 + k)"
proof -
  define x where "x = k * 10000000"
  have x: "- 21474836480000000 \<le> x" "x < 21474836480000000" "x div 10000000 = k" "0 \<le> x \<longleftrightarrow> 0 \<le> k"
    using assms by (simp_all add: x_def)
  let ?ll = "word_of_int x + unix_epoch :: u64"
  have w: "uint (word_of_int x :: u64) = (if 0 \<le> x then x else 2 ^ 64 + x)"
  proof (cases "0 \<le> x")
    case False
    have "x mod 2 ^ 64 = (2 ^ 64 + x) mod 2 ^ 64" by simp
    also have "\<dots> = 2 ^ 64 + x" using False x by (intro mod_pos_pos_trivial) simp_all
    finally show ?thesis using False by (simp add: uint_word_of_int)
  qed (use x in \<open>simp add: uint_word_of_int\<close>)
  have "uint ?ll = x + 116444736000000000"
  proof -
    have "?ll = word_of_int (x + 116444736000000000)" by (simp add: unix_epoch_def)
    then show ?thesis using x by (simp only: uint_word_of_int) simp
  qed
  then have "?ll \<noteq> 0" using x by auto
  then have s: "is_filetime_set (Some (split_filetime ?ll))"
    using join_filetime [of ?ll] by (auto simp: is_filetime_set_def)
  have q: "uint ((word_of_int x :: u64) div 10000000) = (if 0 \<le> k then k else 1844674407370 + k)"
  proof -
    have "(2 ^ 64 + x) div 10000000 = (9551616 + (1844674407370 + k) * 10000000) div 10000000" by (simp add: x_def)
    also have "\<dots> = 1844674407370 + k" by simp
    finally show ?thesis using x by (simp only: uint_div) (simp add: w)
  qed
  have "sint ((word_of_int x :: u64) div 10000000) = uint ((word_of_int x :: u64) div 10000000)"
    unfolding sint_uint using q assms by (simp add: signed_take_bit_int_eq_self)
  then show ?thesis using s q by (simp add: filetimeToUnixTime_def Let_def join_filetime x_def [symmetric])
qed

subsection \<open>Properties\<close>

text \<open>C34: a wide string converted to UTF-8 and back is the string again, surrogates or not, when its
  characters are outside U+0800 to U+0FFF and U+10000 to U+3FFFF and the buffer is large
  enough.\<close>
theorem utf_roundtrip:
  assumes "0 \<notin> set ws" and "list_all utf8_exact (code_points ws)" and "length ws < maxlen"
  shows "utf8_to_wchar_buf (wchar_to_utf8_cstr mem ws) maxlen = ws @ [0]"
proof -
  obtain bs where bs: "0 \<notin> set bs" "\<And>mem k. to8 mem k (ws @ [0]) = Some (bs @ [0])"
      "\<And>k. to16 k (bs @ [0]) = Some (ws @ [0])"
    using strings_roundtrip [OF assms(1,2)] by blast
  have "wcstr ws = ws" using assms(1) by (auto simp: wcstr_def takeWhile_eq_all_conv)
  then have w: "wchar_to_utf8_cstr mem ws = cstr (bs @ [0])"
    by (simp add: wchar_to_utf8_cstr_def wchar_to_utf8_def bs(2))
  have "x \<noteq> 0" if "x \<in> set bs" for x using bs(1) that by blast
  then have c: "cstr (bs @ [0]) = bs" "cstr bs = bs"
    by (simp_all add: cstr_def takeWhile_append2 takeWhile_eq_all_conv)
  show ?thesis using assms(3) by (simp add: w c utf8_to_wchar_buf_def bs(3))
qed

theorem utf_roundtrip_witness:
  "utf8_to_wchar_buf (wchar_to_utf8_cstr (\<lambda>_. 0x55) [0x41, 0xe9, 0x4e2d, 0xdbff, 0xdc12]) 260
     = [0x41, 0xe9, 0x4e2d, 0xdbff, 0xdc12, 0]"
proof -
  have "list_all utf8_exact (code_points [0x41, 0xe9, 0x4e2d, 0xdbff, 0xdc12])" by code_simp
  then show ?thesis using utf_roundtrip [of "[0x41, 0xe9, 0x4e2d, 0xdbff, 0xdc12]" 260] by simp
qed

text \<open>C37: the bytes \<open>put_utf8\<close> gives for a character depend on what was in the memory exactly for
  U+0800 to U+0FFF (Thai and the Indic scripts) and U+10000 to U+3FFFF: the loop stops before
  the first of the bytes.\<close>
theorem put_utf8_leaves_gap:
  assumes "c < 0x110000"
  shows "utf8_exact c \<longleftrightarrow> (\<forall>mem mem'. put_utf8 mem c = put_utf8 mem' c)"
proof (cases "utf8_exact c")
  case True
  have "put_utf8 mem c = put_utf8 mem' c" for mem mem'
  proof (cases "c = 0")
    case False
    then show ?thesis using put_get_utf8 [OF True] by metis
  qed (simp add: put_utf8_def)
  then show ?thesis using True by simp
next
  case False
  then obtain bs where "\<And>mem. put_utf8 mem c = Some (mem 0 # bs)" using put_gap assms by metis
  then have "put_utf8 (\<lambda>_. 0) c \<noteq> put_utf8 (\<lambda>_. 1) c" by simp
  then show ?thesis using False by blast
qed

theorem put_utf8_leaves_gap_witness:
  "\<not> (\<forall>mem mem'. put_utf8 mem 0xe01 = put_utf8 mem' 0xe01)"
proof -
  have "\<not> utf8_exact 0xe01" by code_simp
  then show ?thesis using put_utf8_leaves_gap [of "0xe01"] by simp
qed

text \<open>C35: times from 1970 to 2038 survive the conversion to a \<open>FILETIME\<close> and back, and no others
  near them do: earlier ones wrap around in unsigned arithmetic, later ones are cut to 32 bits.\<close>
theorem filetime_roundtrip:
  assumes "- (2 ^ 31) \<le> t" and "t < 2 ^ 32"
  shows "filetimeToUnixTime (unixTimeToFiletime t) = t \<longleftrightarrow> 0 \<le> t \<and> t < 2 ^ 31"
proof -
  let ?k = "sint (word_of_int t :: u32)"
  have k: "- (2 ^ 31) \<le> ?k" "?k < 2 ^ 31" using sint_ge [of "word_of_int t :: u32"] sint_lt [of "word_of_int t :: u32"] by simp_all
  have "?k = (if t < 2 ^ 31 then t else t - 2 ^ 32)"
  proof (cases "t < 2 ^ 31")
    case False
    have "(t + 2147483648) mod 4294967296 = (t - 2147483648) mod 4294967296"
      using mod_add_self2 [of "t - 2147483648" 4294967296] by (simp add: add.commute)
    also have "\<dots> = t - 2147483648" using False assms by (intro mod_pos_pos_trivial) simp_all
    finally show ?thesis using False by (simp add: int_word_sint)
  qed (use assms in \<open>simp add: int_word_sint\<close>)
  then show ?thesis
    using filetime_value [OF k] assms by (auto simp: unixTimeToFiletime_def split: if_splits)
qed

theorem filetime_roundtrip_witness:
  "filetimeToUnixTime (unixTimeToFiletime 1700000000) = 1700000000 \<and> filetimeToUnixTime (unixTimeToFiletime 2147483648) \<noteq> 2147483648"
  using filetime_roundtrip [of 1700000000] filetime_roundtrip [of 2147483648] by simp

text \<open>C1: an error number that the table has survives the conversion to a Windows error and back; any
  other becomes \<open>EINVAL\<close>.  The sign is lost.\<close>
theorem errno_roundtrip:
  "win32_error_to_errno (errno_to_win32_error e) =
     (if e = 0 then 0 else if \<bar>e\<bar> \<in> snd ` set errtable then \<bar>e\<bar> else EINVAL)"
proof (cases "find (\<lambda>(oscode, errnocode). errnocode = \<bar>e\<bar>) errtable")
  case None
  have "win32_error_to_errno ERROR_INVALID_FUNCTION = EINVAL" by code_simp
  moreover have "\<bar>e\<bar> \<notin> snd ` set errtable" using None by (auto simp: find_None_iff)
  moreover have "win32_error_to_errno 0 = 0" by (simp add: win32_error_to_errno_def)
  ultimately show ?thesis using None by (simp add: errno_to_win32_error_def)
next
  case (Some oe)
  have "list_all (\<lambda>(oscode, errnocode). win32_error_to_errno (errno_to_win32_error errnocode) = errnocode \<and> 0 < errnocode) errtable"
    by code_simp
  moreover have "oe \<in> set errtable" "snd oe = \<bar>e\<bar>" using Some by (auto simp: find_Some_iff in_set_conv_nth)
  ultimately have "win32_error_to_errno (errno_to_win32_error \<bar>e\<bar>) = \<bar>e\<bar>" "\<bar>e\<bar> \<in> snd ` set errtable" "e \<noteq> 0"
    by (force simp: list_all_iff)+
  then show ?thesis by (simp add: errno_to_win32_error_def)
qed

end
