(* ===== verification/CondVar.thy ===== *)
theory CondVar
  imports Prelude
begin

text \<open>
  The condition variables of \<open>encfs/compatwin.cpp\<close>, built from a critical section and a
  manual-reset event, with generations of waiters.  The code between two calls that may wait
  is one step; the threads that use the variable are a map from thread numbers to positions
  in the code.
\<close>

subsection \<open>The variable\<close>

record cond_t =
  waiters_count :: int
  release_count :: int
  wait_generation_count :: int
  event_set :: bool

definition pthread_cond_init :: cond_t where
  "pthread_cond_init = \<lparr>waiters_count = 0, release_count = 0, wait_generation_count = 0, event_set = False\<rparr>"

text \<open>
  The three critical sections of a wait: the caller is counted and remembers the generation;
  it looks whether it was released; it is counted out, and resets the event when it was the
  last one to be released.
\<close>

definition wait_enter :: "cond_t \<Rightarrow> int \<times> cond_t" where
  "wait_enter cv = (wait_generation_count cv, cv\<lparr>waiters_count := waiters_count cv + 1\<rparr>)"

definition wait_done :: "int \<Rightarrow> cond_t \<Rightarrow> bool" where
  "wait_done my_generation cv \<longleftrightarrow> release_count cv > 0 \<and> wait_generation_count cv \<noteq> my_generation"

definition wait_leave :: "cond_t \<Rightarrow> bool \<times> cond_t" where
  "wait_leave cv =
     (let cv = cv\<lparr>waiters_count := waiters_count cv - 1, release_count := release_count cv - 1\<rparr> in
      (release_count cv = 0, cv))"

definition pthread_cond_signal :: "cond_t \<Rightarrow> cond_t" where
  "pthread_cond_signal cv =
     (if waiters_count cv > release_count cv
      then cv\<lparr>event_set := True, release_count := release_count cv + 1,
              wait_generation_count := wait_generation_count cv + 1\<rparr>
      else cv)"

definition pthread_cond_broadcast :: "cond_t \<Rightarrow> cond_t" where
  "pthread_cond_broadcast cv =
     (if waiters_count cv > 0
      then cv\<lparr>event_set := True, release_count := waiters_count cv,
              wait_generation_count := wait_generation_count cv + 1\<rparr>
      else cv)"

text \<open>
  A timed wait reads the clock, and gives up when more than its timeout has passed by the
  time it looks; the timeout is the time it was called with, in milliseconds.
\<close>

type_synonym timer = "(u32 \<times> u32) option"

definition wait_timer :: "u32 \<Rightarrow> (u64 \<times> u64) option \<Rightarrow> timer" where
  "wait_timer now abstime =
     map_option (\<lambda>(tv_sec, tv_nsec). (now, ucast (tv_sec * 1000 + tv_nsec div 1000000))) abstime"

definition timed_out :: "u32 \<Rightarrow> timer \<Rightarrow> bool" where
  "timed_out now tm \<longleftrightarrow> (case tm of None \<Rightarrow> False | Some (start, timeout) \<Rightarrow> now - start > timeout)"

subsection \<open>The threads\<close>

text \<open>
  Outside of a wait; in \<open>WaitForSingleObject\<close>; woken, before the look; done, before the
  external mutex is entered; before the event is reset.
\<close>

datatype position =
    Outside
  | Blocked int timer
  | Awake int timer
  | Leaving
  | Resetting

record cond_sys =
  cs_cond :: cond_t
  cs_mutex :: "nat option"
  cs_pos :: "nat \<Rightarrow> position"
  cs_now :: u32

definition cond_sys_init :: cond_sys where
  "cond_sys_init = \<lparr>cs_cond = pthread_cond_init, cs_mutex = None, cs_pos = (\<lambda>_. Outside), cs_now = 0\<rparr>"

datatype action =
    Lock nat
  | Unlock nat
  | Wait nat "(u64 \<times> u64) option"
  | Wake nat
  | Look nat
  | Leave nat
  | Reset nat
  | Signal nat
  | Broadcast nat
  | Tick u32

text \<open>A step, when it is enabled.  A wait is called with the external mutex held.\<close>

fun act :: "action \<Rightarrow> cond_sys \<Rightarrow> cond_sys option" where
  "act (Lock t) s =
     (if cs_pos s t = Outside \<and> cs_mutex s = None then Some (s\<lparr>cs_mutex := Some t\<rparr>) else None)"
| "act (Unlock t) s =
     (if cs_pos s t = Outside \<and> cs_mutex s = Some t then Some (s\<lparr>cs_mutex := None\<rparr>) else None)"
| "act (Wait t abstime) s =
     (if cs_pos s t = Outside \<and> cs_mutex s = Some t
      then (case wait_enter (cs_cond s) of (my_generation, cv) \<Rightarrow>
        Some (s\<lparr>cs_cond := cv, cs_mutex := None,
                cs_pos := (cs_pos s)(t := Blocked my_generation (wait_timer (cs_now s) abstime))\<rparr>))
      else None)"
| "act (Wake t) s =
     (case cs_pos s t of
        Blocked g tm \<Rightarrow> if event_set (cs_cond s) then Some (s\<lparr>cs_pos := (cs_pos s)(t := Awake g tm)\<rparr>) else None
      | _ \<Rightarrow> None)"
| "act (Look t) s =
     (case cs_pos s t of
        Awake g tm \<Rightarrow>
          Some (s\<lparr>cs_pos := (cs_pos s)(t := if wait_done g (cs_cond s) \<or> timed_out (cs_now s) tm then Leaving
                                           else Blocked g tm)\<rparr>)
      | _ \<Rightarrow> None)"
| "act (Leave t) s =
     (if cs_pos s t = Leaving \<and> cs_mutex s = None
      then (case wait_leave (cs_cond s) of (last_waiter, cv) \<Rightarrow>
        Some (s\<lparr>cs_cond := cv, cs_mutex := Some t,
                cs_pos := (cs_pos s)(t := if last_waiter then Resetting else Outside)\<rparr>))
      else None)"
| "act (Reset t) s =
     (if cs_pos s t = Resetting
      then Some (s\<lparr>cs_cond := (cs_cond s)\<lparr>event_set := False\<rparr>, cs_pos := (cs_pos s)(t := Outside)\<rparr>)
      else None)"
| "act (Signal t) s =
     (if cs_pos s t = Outside then Some (s\<lparr>cs_cond := pthread_cond_signal (cs_cond s)\<rparr>) else None)"
| "act (Broadcast t) s =
     (if cs_pos s t = Outside then Some (s\<lparr>cs_cond := pthread_cond_broadcast (cs_cond s)\<rparr>) else None)"
| "act (Tick now) s = Some (s\<lparr>cs_now := now\<rparr>)"

fun acts :: "action list \<Rightarrow> cond_sys \<Rightarrow> cond_sys option" where
  "acts [] s = Some s"
| "acts (a # as) s = (case act a s of None \<Rightarrow> None | Some s' \<Rightarrow> acts as s')"

inductive cond_reach :: "(action \<Rightarrow> bool) \<Rightarrow> cond_sys \<Rightarrow> cond_sys \<Rightarrow> bool" for ok s0 where
  reach_start: "cond_reach ok s0 s0"
| reach_act: "cond_reach ok s0 s \<Longrightarrow> ok a \<Longrightarrow> act a s = Some s' \<Longrightarrow> cond_reach ok s0 s'"

lemma acts_reach: "acts as s = Some s' \<Longrightarrow> list_all ok as \<Longrightarrow> cond_reach ok s0 s \<Longrightarrow> cond_reach ok s0 s'"
  by (induction as arbitrary: s) (auto split: option.splits intro: reach_act)

subsection \<open>The number of waiters\<close>

fun waiting :: "position \<Rightarrow> bool" where
  "waiting Outside = False"
| "waiting Resetting = False"
| "waiting _ = True"

definition waiters_of :: "(nat \<Rightarrow> position) \<Rightarrow> nat set" where
  "waiters_of f = {t. waiting (f t)}"

definition counted :: "cond_sys \<Rightarrow> bool" where
  "counted s \<longleftrightarrow> finite (waiters_of (cs_pos s)) \<and> waiters_count (cs_cond s) = int (card (waiters_of (cs_pos s)))"

lemma waiters_upd [simp]:
  "waiters_of (f(t := p)) = (if waiting p then insert t (waiters_of f) else waiters_of f - {t})"
  by (auto simp: waiters_of_def)

lemma waiters_mem [simp]: "t \<in> waiters_of f \<longleftrightarrow> waiting (f t)"
  by (simp add: waiters_of_def)

lemma counted_act:
  assumes "act a s = Some s'" and "counted s"
  shows "counted s'"
proof -
  have fin: "finite (waiters_of (cs_pos s))" and n: "waiters_count (cs_cond s) = int (card (waiters_of (cs_pos s)))"
    using assms(2) by (simp_all add: counted_def)
  show ?thesis
  proof (cases a)
    case (Wait t abstime)
    then show ?thesis
      using assms(1) fin n by (auto simp: counted_def wait_enter_def split: if_splits)
  next
    case (Leave t)
    then have "t \<in> waiters_of (cs_pos s)" using assms(1) by (auto split: if_splits)
    then have c: "int (card (waiters_of (cs_pos s))) - 1 = int (card (waiters_of (cs_pos s) - {t}))"
      using card.remove [OF fin] by fastforce
    define p where "p = (if fst (wait_leave (cs_cond s)) then Resetting else Outside)"
    have "\<not> waiting p" "waiters_count (cs_cond s') = waiters_count (cs_cond s) - 1" "cs_pos s' = (cs_pos s)(t := p)"
      using assms(1) Leave by (auto simp: p_def wait_leave_def Let_def split: if_splits)
    then show ?thesis using fin n c by (simp add: counted_def del: card_Diff_insert)
  next
    case (Wake t)
    then obtain g tm where "cs_pos s t = Blocked g tm" "s' = s\<lparr>cs_pos := (cs_pos s)(t := Awake g tm)\<rparr>"
      using assms(1) by (auto split: position.splits if_splits)
    then show ?thesis using fin n by (simp add: counted_def insert_absorb)
  next
    case (Look t)
    then obtain g tm where p: "cs_pos s t = Awake g tm" using assms(1) by (auto split: position.splits)
    let ?p = "if wait_done g (cs_cond s) \<or> timed_out (cs_now s) tm then Leaving else Blocked g tm"
    have s': "s' = s\<lparr>cs_pos := (cs_pos s)(t := ?p)\<rparr>" using assms(1) Look p by simp
    have "waiting ?p" by simp
    then show ?thesis using fin n p unfolding s' counted_def by (simp add: insert_absorb del: if_split)
  next
    case (Reset t)
    then have "t \<notin> waiters_of (cs_pos s)" using assms(1) by (auto split: if_splits)
    then show ?thesis
      using assms(1) Reset fin n by (auto simp: counted_def split: if_splits)
  next
    case (Signal t)
    then have "s' = s\<lparr>cs_cond := pthread_cond_signal (cs_cond s)\<rparr>" using assms(1) by (simp split: if_splits)
    then show ?thesis using fin n by (simp add: counted_def pthread_cond_signal_def)
  next
    case (Broadcast t)
    then have "s' = s\<lparr>cs_cond := pthread_cond_broadcast (cs_cond s)\<rparr>" using assms(1) by (simp split: if_splits)
    then show ?thesis using fin n by (simp add: counted_def pthread_cond_broadcast_def)
  qed (use assms in \<open>auto simp: counted_def split: if_splits\<close>)
qed

lemma counted_reach: "cond_reach ok s0 s \<Longrightarrow> counted s0 \<Longrightarrow> counted s"
  by (induction rule: cond_reach.induct) (auto intro: counted_act)

subsection \<open>One waiter\<close>

text \<open>Only one thread waits; the others signal.\<close>

fun waits_only :: "nat \<Rightarrow> action \<Rightarrow> bool" where
  "waits_only m (Wait t abstime) = (t = m)"
| "waits_only m _ = True"

definition single_inv :: "nat \<Rightarrow> cond_sys \<Rightarrow> bool" where
  "single_inv m s \<longleftrightarrow>
     (\<forall>t. t \<noteq> m \<longrightarrow> cs_pos s t = Outside) \<and>
     (let cv = cs_cond s in
      case cs_pos s m of
        Outside \<Rightarrow> waiters_count cv = 0 \<and> release_count cv = 0 \<and> \<not> event_set cv
      | Blocked g tm \<Rightarrow> waiters_count cv = 1 \<and>
          (release_count cv = 0 \<and> \<not> event_set cv \<and> wait_generation_count cv = g \<or>
           release_count cv = 1 \<and> event_set cv \<and> wait_generation_count cv > g)
      | Awake g tm \<Rightarrow> waiters_count cv = 1 \<and> release_count cv = 1 \<and> event_set cv \<and> wait_generation_count cv > g
      | Leaving \<Rightarrow> waiters_count cv = 1 \<and> release_count cv = 1 \<and> event_set cv
      | Resetting \<Rightarrow> waiters_count cv = 0 \<and> release_count cv = 0 \<and> event_set cv)"

lemma single_act:
  assumes "act a s = Some s'" and "waits_only m a" and "single_inv m s"
  shows "single_inv m s'"
proof -
  have others: "cs_pos s t = Outside" if "t \<noteq> m" for t using assms(3) that by (simp add: single_inv_def)
  have mine: "t = m" if "cs_pos s t \<noteq> Outside" for t using others that by blast
  show ?thesis
  proof (cases a)
    case (Wait t abstime)
    then show ?thesis using assms by (auto simp: single_inv_def Let_def wait_enter_def split: if_splits)
  next
    case (Wake t)
    then have "t = m" using assms(1) mine [of t] by (auto split: position.splits)
    then show ?thesis using assms Wake by (auto simp: single_inv_def Let_def split: if_splits position.splits)
  next
    case (Look t)
    then have "t = m" using assms(1) mine [of t] by (auto split: position.splits)
    then show ?thesis
      using assms Look by (auto simp: single_inv_def Let_def wait_done_def split: if_splits position.splits)
  next
    case (Leave t)
    then have "t = m" using assms(1) mine [of t] by (auto split: if_splits)
    then show ?thesis using assms Leave by (auto simp: single_inv_def Let_def wait_leave_def split: if_splits)
  next
    case (Reset t)
    then have "t = m" using assms(1) mine [of t] by (auto split: if_splits)
    then show ?thesis using assms Reset by (auto simp: single_inv_def Let_def split: if_splits)
  next
    case (Signal t)
    then show ?thesis
      using assms by (auto simp: single_inv_def Let_def pthread_cond_signal_def split: if_splits position.splits)
  next
    case (Broadcast t)
    then show ?thesis
      using assms by (auto simp: single_inv_def Let_def pthread_cond_broadcast_def split: if_splits position.splits)
  qed (use assms in \<open>auto simp: single_inv_def Let_def split: if_splits position.splits\<close>)
qed

subsection \<open>Lost signals\<close>

text \<open>
  Two threads wait and one signal is sent: both are woken by the event and look before either
  has been counted out, so both leave.  A later waiter, who is then sent a signal, does not
  notice.
\<close>

definition two_leave :: "action list" where
  "two_leave =
     [Lock 1, Wait 1 None, Lock 2, Wait 2 None, Signal 0, Wake 1, Wake 2, Look 1, Look 2,
      Leave 1, Reset 1, Unlock 1, Leave 2, Unlock 2]"

definition lost_signal :: "action list" where
  "lost_signal = two_leave @ [Lock 3, Wait 3 None, Signal 0]"

fun no_signal :: "action \<Rightarrow> bool" where
  "no_signal (Signal t) = False"
| "no_signal (Broadcast t) = False"
| "no_signal _ = True"

definition stuck :: "nat \<Rightarrow> cond_sys \<Rightarrow> bool" where
  "stuck t s \<longleftrightarrow> release_count (cs_cond s) \<le> 0 \<and> (\<exists>g. cs_pos s t = Blocked g None \<or> cs_pos s t = Awake g None)"

lemma stuck_act:
  assumes "act a s = Some s'" and "no_signal a" and "stuck t s"
  shows "stuck t s'"
  using assms
  by (cases a)
     (auto simp: stuck_def wait_enter_def wait_leave_def wait_done_def timed_out_def Let_def split: if_splits position.splits)

lemma stuck_reach: "cond_reach no_signal s s' \<Longrightarrow> stuck t s \<Longrightarrow> stuck t s'"
  by (induction rule: cond_reach.induct) (auto intro: stuck_act)

lemma lost_signal_stuck: "acts lost_signal cond_sys_init = Some s \<Longrightarrow> stuck 3 s"
proof -
  have "(case acts lost_signal cond_sys_init of None \<Rightarrow> False | Some s \<Rightarrow>
      release_count (cs_cond s) = 0 \<and> cs_pos s 3 = Blocked 1 None)"
    by code_simp
  then show "stuck 3 s" if "acts lost_signal cond_sys_init = Some s" using that by (simp add: stuck_def)
qed

subsection \<open>Properties\<close>

text \<open>C33: when only one thread ever waits, its waits and the signals fit: it is woken only when it
  was signalled after it began to wait, whatever its timeout, and a signal sent while it
  waits is kept until it leaves.\<close>
theorem cond_single_waiter:
  assumes "cond_reach (waits_only m) cond_sys_init s"
  shows "single_inv m s"
  using assms
proof (induction rule: cond_reach.induct)
  case reach_start
  show ?case by (simp add: single_inv_def cond_sys_init_def pthread_cond_init_def)
qed (rule single_act)

theorem cond_single_waiter_witness:
  "\<exists>s. acts [Lock 1, Wait 1 None, Signal 0, Signal 0, Wake 1, Look 1] cond_sys_init = Some s \<and>
     single_inv 1 s \<and> cs_pos s 1 = Leaving"
proof -
  obtain s where s: "acts [Lock 1, Wait 1 None, Signal 0, Signal 0, Wake 1, Look 1] cond_sys_init = Some s"
    "cs_pos s 1 = Leaving"
    by (simp add: cond_sys_init_def pthread_cond_init_def wait_enter_def pthread_cond_signal_def wait_done_def)
  have "cond_reach (waits_only 1) cond_sys_init s"
    by (rule acts_reach [OF s(1) _ reach_start]) simp
  then show ?thesis using s cond_single_waiter by blast
qed

text \<open>with several waiters a signal can be lost: after a run in which two waiters leave on one
  signal, a third thread that waits and is signalled stays in its wait as long as no further
  signal is sent.\<close>
theorem cond_signal_lost:
  assumes "acts lost_signal cond_sys_init = Some s" and "cond_reach no_signal s s'"
  shows "\<exists>g. cs_pos s' 3 = Blocked g None \<or> cs_pos s' 3 = Awake g None"
  using stuck_reach [OF assms(2) lost_signal_stuck [OF assms(1)]] by (simp add: stuck_def)

theorem cond_signal_lost_witness:
  "\<exists>s s'. acts lost_signal cond_sys_init = Some s \<and> acts [Wake 3, Look 3] s = Some s' \<and>
     (\<exists>g. cs_pos s' 3 = Blocked g None \<or> cs_pos s' 3 = Awake g None)"
proof -
  have "(case acts (lost_signal @ [Wake 3, Look 3]) cond_sys_init of None \<Rightarrow> False | Some s \<Rightarrow> True)"
    by code_simp
  moreover have "acts (as @ bs) s = (case acts as s of None \<Rightarrow> None | Some s' \<Rightarrow> acts bs s')" for as bs s
    by (induction as arbitrary: s) (auto split: option.splits)
  ultimately obtain s s' where s: "acts lost_signal cond_sys_init = Some s" "acts [Wake 3, Look 3] s = Some s'"
    by (auto split: option.splits)
  have "cond_reach no_signal s s'"
    by (rule acts_reach [OF s(2) _ reach_start]) simp
  then show ?thesis using s cond_signal_lost by blast
qed

end
