(* ===== verification/IdleMonitor.thy ===== *)
theory IdleMonitor
  imports CondVar Context
begin

text \<open>
  The thread of \<open>encfs/main.cpp\<close> that unmounts an idle volume, over the condition variable of
  \<open>CondVar\<close> and the table of \<open>Context\<close>, with the thread that ends the program.  The monitor
  is thread 1, the ending thread 0.
\<close>

subsection \<open>One round of the monitor\<close>

definition ActivityCheckInterval :: int where "ActivityCheckInterval = 10"

definition timeoutCycles :: "int \<Rightarrow> int" where
  "timeoutCycles idleTimeout = cdiv (60 * idleTimeout) ActivityCheckInterval"

text \<open>\<open>unmountFS\<close>: whether \<open>fuse_unmount\<close> was called, and the context.\<close>

definition unmountFS :: "bool \<Rightarrow> ('n, 'r) EncFS_Context \<Rightarrow> bool \<times> ('n, 'r) EncFS_Context" where
  "unmountFS mountOnDemand c = (if mountOnDemand then (False, setRoot (\<lambda>_. []) None c) else (True, c))"

text \<open>
  The counting of one round.  The first result is the result of \<open>unmountFS\<close>, or \<open>None\<close> when
  it was not called.
\<close>

definition idle_round ::
  "int \<Rightarrow> bool \<Rightarrow> int \<Rightarrow> ('n, 'r) EncFS_Context \<Rightarrow> bool option \<times> int \<times> ('n, 'r) EncFS_Context" where
  "idle_round idleTimeout mountOnDemand idleCycles c =
     (case getAndResetUsageCounter c of (usage, c) \<Rightarrow>
      let idleCycles = (if usage = 0 \<and> isMounted c then idleCycles + 1 else 0) in
      if idleCycles \<ge> timeoutCycles idleTimeout \<and> openFileCount c = 0
      then (case unmountFS mountOnDemand c of (ok, c) \<Rightarrow> (Some ok, idleCycles, c))
      else (None, idleCycles, c))"

subsection \<open>The two threads\<close>

text \<open>
  The monitor: before its lock, at the head of the loop, in the body, in the timed wait, in
  the wait after unmounting, before its unlock, ended.  The ending thread: before
  \<open>running = false\<close>, after it, with the lock, after the signal, joining, joined.
\<close>

datatype monitor = MStart | MHead | MBody | MTimed | MFinal | MExit | MEnd

datatype ending = DIdle | DSet | DLocked | DSignalled | DJoining | DJoined

record ('n, 'r) idle_sys =
  im_cond :: cond_sys
  im_ctx :: "('n, 'r) EncFS_Context"
  im_running :: bool
  im_monitor :: monitor
  im_idleCycles :: int
  im_fired :: nat
  im_ending :: ending

definition idle_init :: "('n, 'r) EncFS_Context \<Rightarrow> ('n, 'r) idle_sys" where
  "idle_init c = \<lparr>im_cond = cond_sys_init, im_ctx = c, im_running = True, im_monitor = MStart,
     im_idleCycles = 0, im_fired = 0, im_ending = DIdle\<rparr>"

text \<open>\<open>im_fired\<close> counts the calls of \<open>unmountFS\<close>.\<close>

inductive monitor_step :: "int \<Rightarrow> bool \<Rightarrow> ('n, 'r) idle_sys \<Rightarrow> ('n, 'r) idle_sys \<Rightarrow> bool"
  for idleTimeout mountOnDemand where
  mon_lock: "im_monitor s = MStart \<Longrightarrow> act (Lock 1) (im_cond s) = Some cs \<Longrightarrow>
    monitor_step idleTimeout mountOnDemand s (s\<lparr>im_cond := cs, im_monitor := MHead\<rparr>)"
| mon_head: "im_monitor s = MHead \<Longrightarrow>
    monitor_step idleTimeout mountOnDemand s (s\<lparr>im_monitor := if im_running s then MBody else MExit\<rparr>)"
| mon_timed: "im_monitor s = MBody \<Longrightarrow>
    idle_round idleTimeout mountOnDemand (im_idleCycles s) (im_ctx s) = (fired, k, c) \<Longrightarrow> fired \<noteq> Some True \<Longrightarrow>
    act (Wait 1 (Some wakeupTime)) (im_cond s) = Some cs \<Longrightarrow>
    monitor_step idleTimeout mountOnDemand s (s\<lparr>im_cond := cs, im_ctx := c, im_idleCycles := k, im_monitor := MTimed,
      im_fired := im_fired s + (if fired = None then 0 else 1)\<rparr>)"
| mon_unmount: "im_monitor s = MBody \<Longrightarrow>
    idle_round idleTimeout mountOnDemand (im_idleCycles s) (im_ctx s) = (Some True, k, c) \<Longrightarrow>
    act (Wait 1 None) (im_cond s) = Some cs \<Longrightarrow>
    monitor_step idleTimeout mountOnDemand s (s\<lparr>im_cond := cs, im_ctx := c, im_idleCycles := k, im_monitor := MFinal,
      im_fired := im_fired s + 1\<rparr>)"
| mon_wait: "im_monitor s \<in> {MTimed, MFinal} \<Longrightarrow> a \<in> {Wake 1, Look 1, Leave 1, Reset 1} \<Longrightarrow>
    act a (im_cond s) = Some cs \<Longrightarrow> monitor_step idleTimeout mountOnDemand s (s\<lparr>im_cond := cs\<rparr>)"
| mon_return: "im_monitor s \<in> {MTimed, MFinal} \<Longrightarrow> cs_pos (im_cond s) 1 = Outside \<Longrightarrow>
    monitor_step idleTimeout mountOnDemand s (s\<lparr>im_monitor := if im_monitor s = MTimed then MHead else MExit\<rparr>)"
| mon_unlock: "im_monitor s = MExit \<Longrightarrow> act (Unlock 1) (im_cond s) = Some cs \<Longrightarrow>
    monitor_step idleTimeout mountOnDemand s (s\<lparr>im_cond := cs, im_monitor := MEnd\<rparr>)"

inductive ending_step :: "('n, 'r) idle_sys \<Rightarrow> ('n, 'r) idle_sys \<Rightarrow> bool" where
  end_set: "im_ending s = DIdle \<Longrightarrow> ending_step s (s\<lparr>im_running := False, im_ending := DSet\<rparr>)"
| end_lock: "im_ending s = DSet \<Longrightarrow> act (Lock 0) (im_cond s) = Some cs \<Longrightarrow>
    ending_step s (s\<lparr>im_cond := cs, im_ending := DLocked\<rparr>)"
| end_signal: "im_ending s = DLocked \<Longrightarrow> act (Signal 0) (im_cond s) = Some cs \<Longrightarrow>
    ending_step s (s\<lparr>im_cond := cs, im_ending := DSignalled\<rparr>)"
| end_unlock: "im_ending s = DSignalled \<Longrightarrow> act (Unlock 0) (im_cond s) = Some cs \<Longrightarrow>
    ending_step s (s\<lparr>im_cond := cs, im_ending := DJoining\<rparr>)"
| end_join: "im_ending s = DJoining \<Longrightarrow> im_monitor s = MEnd \<Longrightarrow> ending_step s (s\<lparr>im_ending := DJoined\<rparr>)"

text \<open>The callbacks change the context, and time passes.\<close>

inductive idle_step :: "int \<Rightarrow> bool \<Rightarrow> ('n, 'r) idle_sys \<Rightarrow> ('n, 'r) idle_sys \<Rightarrow> bool"
  for idleTimeout mountOnDemand where
  step_monitor: "monitor_step idleTimeout mountOnDemand s s' \<Longrightarrow> idle_step idleTimeout mountOnDemand s s'"
| step_ending: "ending_step s s' \<Longrightarrow> idle_step idleTimeout mountOnDemand s s'"
| step_callbacks: "idle_step idleTimeout mountOnDemand s (s\<lparr>im_ctx := c\<rparr>)"
| step_time: "idle_step idleTimeout mountOnDemand s (s\<lparr>im_cond := (im_cond s)\<lparr>cs_now := now\<rparr>\<rparr>)"

inductive idle_reach :: "int \<Rightarrow> bool \<Rightarrow> ('n, 'r) idle_sys \<Rightarrow> bool" for idleTimeout mountOnDemand where
  idle_start: "idle_reach idleTimeout mountOnDemand (idle_init c)"
| idle_next: "idle_reach idleTimeout mountOnDemand s \<Longrightarrow> idle_step idleTimeout mountOnDemand s s' \<Longrightarrow>
    idle_reach idleTimeout mountOnDemand s'"

subsection \<open>The invariant\<close>

text \<open>
  Until the signal nobody is released.  The monitor goes through its loop at most once before
  it; after it, \<open>running\<close> is false.
\<close>

fun before_signal :: "ending \<Rightarrow> bool" where
  "before_signal DIdle = True"
| "before_signal DSet = True"
| "before_signal DLocked = True"
| "before_signal _ = False"

fun place_ok :: "monitor \<Rightarrow> position \<Rightarrow> nat option \<Rightarrow> ending \<Rightarrow> int \<Rightarrow> bool" where
  "place_ok MStart p mx d k = (p = Outside \<and> mx \<noteq> Some 1 \<and> k = 0)"
| "place_ok MHead p mx d k = (p = Outside \<and> mx = Some 1 \<and> (before_signal d \<longrightarrow> k = 0))"
| "place_ok MBody p mx d k = (p = Outside \<and> mx = Some 1 \<and> before_signal d \<and> k = 0)"
| "place_ok MTimed p mx d k =
     ((before_signal d \<longrightarrow> (\<exists>g tm. p = Blocked g tm) \<and> k \<le> 1) \<and> (mx = Some 1 \<longleftrightarrow> p = Outside \<or> p = Resetting))"
| "place_ok MFinal p mx d k = False"
| "place_ok MExit p mx d k = (p = Outside \<and> mx = Some 1 \<and> d \<noteq> DIdle)"
| "place_ok MEnd p mx d k = (p = Outside \<and> mx \<noteq> Some 1 \<and> d \<noteq> DIdle)"

definition lock_ok :: "nat option \<Rightarrow> ending \<Rightarrow> bool" where
  "lock_ok mx d \<longleftrightarrow> (mx = Some 0 \<longleftrightarrow> d = DLocked \<or> d = DSignalled) \<and> (mx = None \<or> mx = Some 0 \<or> mx = Some 1)"

definition release_ok :: "position \<Rightarrow> int \<Rightarrow> ending \<Rightarrow> bool" where
  "release_ok p r d \<longleftrightarrow> (if before_signal d then r = 0 else \<forall>g tm. p = Blocked g tm \<longrightarrow> r = 1)"

definition monitor_inv :: "('n, 'r) idle_sys \<Rightarrow> bool" where
  "monitor_inv s \<longleftrightarrow>
     single_inv 1 (im_cond s) \<and> im_fired s = 0 \<and> (im_running s \<longleftrightarrow> im_ending s = DIdle) \<and>
     lock_ok (cs_mutex (im_cond s)) (im_ending s) \<and>
     release_ok (cs_pos (im_cond s) 1) (release_count (cs_cond (im_cond s))) (im_ending s) \<and>
     place_ok (im_monitor s) (cs_pos (im_cond s) 1) (cs_mutex (im_cond s)) (im_ending s) (im_idleCycles s)"

lemma monitor_invD:
  assumes "monitor_inv s"
  shows "single_inv 1 (im_cond s)" "im_fired s = 0" "im_running s \<longleftrightarrow> im_ending s = DIdle"
    "lock_ok (cs_mutex (im_cond s)) (im_ending s)"
    "release_ok (cs_pos (im_cond s) 1) (release_count (cs_cond (im_cond s))) (im_ending s)"
    "place_ok (im_monitor s) (cs_pos (im_cond s) 1) (cs_mutex (im_cond s)) (im_ending s) (im_idleCycles s)"
  using assms unfolding monitor_inv_def by blast+

lemma idle_round_first:
  assumes "0 < idleTimeout" and "idle_round idleTimeout mountOnDemand 0 c = (fired, k, c')"
  shows "fired = None \<and> k \<le> 1"
proof -
  have "timeoutCycles idleTimeout \<ge> 2" using assms(1) by (simp add: timeoutCycles_def ActivityCheckInterval_def cdiv_nonneg)
  then show ?thesis
    using assms(2) by (auto simp: idle_round_def Let_def getAndResetUsageCounter_def split: if_splits prod.splits)
qed

lemma single_cases:
  assumes "single_inv 1 cs"
  shows "cs_pos cs 1 = Blocked g tm \<Longrightarrow> release_count (cs_cond cs) = 0 \<Longrightarrow> \<not> event_set (cs_cond cs)"
    and "cs_pos cs 1 = Blocked g tm \<Longrightarrow> waiters_count (cs_cond cs) = 1"
    and "cs_pos cs 1 = Blocked g tm \<Longrightarrow> release_count (cs_cond cs) = 1 \<Longrightarrow> event_set (cs_cond cs)"
    and "cs_pos cs 1 = Awake g tm \<Longrightarrow> wait_done g (cs_cond cs)"
    and "cs_pos cs 1 = Leaving \<Longrightarrow> release_count (cs_cond cs) = 1"
    and "cs_pos cs 1 = Outside \<Longrightarrow> waiters_count (cs_cond cs) = 0 \<and> release_count (cs_cond cs) = 0"
  using assms by (auto simp: single_inv_def Let_def wait_done_def)

lemma wait_keeps:
  assumes "monitor_inv s" and "im_monitor s = MTimed" and "a \<in> {Wake 1, Look 1, Leave 1, Reset 1}"
    and "act a (im_cond s) = Some cs"
  shows "monitor_inv (s\<lparr>im_cond := cs\<rparr>)"
proof -
  let ?s = "im_cond s"
  note d = monitor_invD [OF assms(1)]
  have w: "waits_only 1 a" using assms(3) by auto
  have i': "single_inv 1 cs" by (rule single_act [OF assms(4) w d(1)])
  have late: "\<not> before_signal (im_ending s)"
  proof
    assume b: "before_signal (im_ending s)"
    then obtain g tm where p: "cs_pos ?s 1 = Blocked g tm" using d(6) assms(2) by auto
    have "release_count (cs_cond ?s) = 0" using d(5) b by (simp add: release_ok_def)
    then show False using assms(3,4) single_cases(1) [OF d(1) p] p by auto
  qed
  have keep: "monitor_inv (s\<lparr>im_cond := cs\<rparr>)"
    if "cs_mutex cs = cs_mutex ?s \<or> cs_mutex cs = Some 1 \<and> cs_mutex ?s = None"
      and "cs_mutex cs = Some 1 \<longleftrightarrow> cs_pos cs 1 = Outside \<or> cs_pos cs 1 = Resetting"
      and "\<And>g tm. cs_pos cs 1 \<noteq> Blocked g tm"
  proof -
    have "lock_ok (cs_mutex cs) (im_ending s)" using that(1) d(4) by (auto simp: lock_ok_def)
    moreover have "release_ok (cs_pos cs 1) (release_count (cs_cond cs)) (im_ending s)"
      using late that(3) by (simp add: release_ok_def)
    moreover have "place_ok MTimed (cs_pos cs 1) (cs_mutex cs) (im_ending s) (im_idleCycles s)"
      using late that(2) by simp
    ultimately show ?thesis using i' d(2,3) assms(2) by (simp add: monitor_inv_def)
  qed
  have m: "cs_mutex ?s = Some 1 \<longleftrightarrow> cs_pos ?s 1 = Outside \<or> cs_pos ?s 1 = Resetting"
    using d(6) assms(2) by simp
  consider "a = Wake 1" | "a = Look 1" | "a = Leave 1" | "a = Reset 1" using assms(3) by blast
  then show ?thesis
  proof cases
    case 1
    then obtain g tm where "cs_pos ?s 1 = Blocked g tm" "cs = ?s\<lparr>cs_pos := (cs_pos ?s)(1 := Awake g tm)\<rparr>"
      using assms(4) by (auto split: position.splits if_splits)
    then show ?thesis using m by (intro keep) simp_all
  next
    case 2
    then obtain g tm where p: "cs_pos ?s 1 = Awake g tm" using assms(4) by (auto split: position.splits)
    then have "cs = ?s\<lparr>cs_pos := (cs_pos ?s)(1 := Leaving)\<rparr>" using assms(4) 2 single_cases(4) [OF d(1) p] by simp
    then show ?thesis using m p by (intro keep) simp_all
  next
    case 3
    then have "cs_mutex ?s = None" "cs_mutex cs = Some 1" "cs_pos cs 1 = Outside \<or> cs_pos cs 1 = Resetting"
      using assms(4) by (auto simp: wait_leave_def Let_def split: if_splits)
    then show ?thesis by (intro keep) auto
  next
    case 4
    then have "cs_pos ?s 1 = Resetting" "cs_mutex cs = cs_mutex ?s" "cs_pos cs 1 = Outside"
      using assms(4) by (auto split: if_splits)
    then show ?thesis using m by (intro keep) auto
  qed
qed

lemma monitor_keeps:
  assumes "monitor_step idleTimeout mountOnDemand s s'" and "0 < idleTimeout" and "monitor_inv s"
  shows "monitor_inv s'"
proof -
  note d = monitor_invD [OF assms(3)]
  note defs = lock_ok_def release_ok_def
  from assms(1) show ?thesis
  proof cases
    case (mon_lock cs)
    have i: "single_inv 1 cs" by (rule single_act [OF mon_lock(3) _ d(1)]) simp
    have "cs = (im_cond s)\<lparr>cs_mutex := Some 1\<rparr>" "cs_mutex (im_cond s) = None" using mon_lock(3) by (simp_all split: if_splits)
    then show ?thesis using mon_lock(1,2) d(2-6) i by (simp add: monitor_inv_def defs)
  next
    case mon_head
    then show ?thesis using d by (auto simp: monitor_inv_def)
  next
    case (mon_timed fired k c wakeupTime cs)
    have f: "fired = None" "k \<le> 1"
      using idle_round_first [OF assms(2), of mountOnDemand "im_ctx s" fired k c] mon_timed(2,3) d(6) by simp_all
    have i: "single_inv 1 cs" by (rule single_act [OF mon_timed(5) _ d(1)]) simp
    have b: "before_signal (im_ending s)" using d(6) mon_timed(2) by simp
    have "cs_mutex cs = None" "\<exists>g tm. cs_pos cs 1 = Blocked g tm" "cs_mutex (im_cond s) = Some 1"
        "release_count (cs_cond cs) = release_count (cs_cond (im_cond s))"
      using mon_timed(5) by (auto simp: wait_enter_def split: if_splits)
    then show ?thesis
      using mon_timed(1) f i b d(2-5) by (auto simp: monitor_inv_def defs)
  next
    case (mon_unmount k c cs)
    then show ?thesis
      using idle_round_first [OF assms(2), of mountOnDemand "im_ctx s" "Some True" k c] d(6) by simp
  next
    case (mon_wait a cs)
    then show ?thesis using wait_keeps [of s a cs] assms(3) d(6) by auto
  next
    case mon_return
    have "im_monitor s = MTimed" using mon_return(2) d(6) by auto
    then show ?thesis using mon_return(1,3) d by (auto simp: monitor_inv_def)
  next
    case (mon_unlock cs)
    have i: "single_inv 1 cs" by (rule single_act [OF mon_unlock(3) _ d(1)]) simp
    have "cs = (im_cond s)\<lparr>cs_mutex := None\<rparr>" "cs_mutex (im_cond s) = Some 1" using mon_unlock(3) by (simp_all split: if_splits)
    then show ?thesis using mon_unlock(1,2) d(2-6) i by (simp add: monitor_inv_def defs)
  qed
qed

lemma place_later:
  "place_ok m p mx d k \<Longrightarrow> (before_signal d' \<longrightarrow> before_signal d) \<Longrightarrow> (m = MBody \<longrightarrow> before_signal d') \<Longrightarrow>
     d' \<noteq> DIdle \<Longrightarrow> (mx = Some 1 \<longleftrightarrow> mx' = Some 1) \<Longrightarrow> place_ok m p mx' d' k"
  by (cases m) auto

lemma ending_keeps:
  assumes "ending_step s s'" and "monitor_inv s"
  shows "monitor_inv s'"
proof -
  note d = monitor_invD [OF assms(2)]
  note defs = lock_ok_def release_ok_def
  show ?thesis using assms(1)
  proof cases
    case end_set
    have "place_ok (im_monitor s) (cs_pos (im_cond s) 1) (cs_mutex (im_cond s)) DSet (im_idleCycles s)"
      by (rule place_later [OF d(6)]) (use end_set in simp_all)
    then show ?thesis using end_set d(1-5) by (auto simp: monitor_inv_def defs)
  next
    case (end_lock cs)
    have i: "single_inv 1 cs" by (rule single_act [OF end_lock(3) _ d(1)]) simp
    have cs: "cs = (im_cond s)\<lparr>cs_mutex := Some 0\<rparr>" "cs_mutex (im_cond s) = None" using end_lock(3) by (simp_all split: if_splits)
    have "place_ok (im_monitor s) (cs_pos (im_cond s) 1) (Some 0) DLocked (im_idleCycles s)"
      by (rule place_later [OF d(6)]) (use end_lock(2) cs in simp_all)
    then show ?thesis using end_lock(1,2) d(2-5) i cs by (simp add: monitor_inv_def defs)
  next
    case (end_signal cs)
    have i: "single_inv 1 cs" by (rule single_act [OF end_signal(3) _ d(1)]) simp
    have cs: "cs = (im_cond s)\<lparr>cs_cond := pthread_cond_signal (cs_cond (im_cond s))\<rparr>"
      using end_signal(3) by (simp split: if_splits)
    have r: "release_count (cs_cond cs) = 1" if "cs_pos (im_cond s) 1 = Blocked g tm" for g tm
      using cs single_cases(2) [OF d(1) that] d(5) end_signal(2) by (simp add: pthread_cond_signal_def release_ok_def)
    have "im_monitor s \<noteq> MBody" using d(4,6) end_signal(2) by (auto simp: lock_ok_def)
    then have "place_ok (im_monitor s) (cs_pos (im_cond s) 1) (cs_mutex (im_cond s)) DSignalled (im_idleCycles s)"
      by (intro place_later [OF d(6)]) simp_all
    then show ?thesis using end_signal(1,2) d(2-5) i cs r by (simp add: monitor_inv_def defs)
  next
    case (end_unlock cs)
    have i: "single_inv 1 cs" by (rule single_act [OF end_unlock(3) _ d(1)]) simp
    have cs: "cs = (im_cond s)\<lparr>cs_mutex := None\<rparr>" "cs_mutex (im_cond s) = Some 0" using end_unlock(3) by (simp_all split: if_splits)
    have "im_monitor s \<noteq> MBody" using d(6) cs by auto
    then have "place_ok (im_monitor s) (cs_pos (im_cond s) 1) None DJoining (im_idleCycles s)"
      by (intro place_later [OF d(6)]) (use cs in simp_all)
    then show ?thesis using end_unlock(1,2) d(2-5) i cs by (simp add: monitor_inv_def defs)
  next
    case end_join
    then show ?thesis using d by (auto simp: monitor_inv_def defs)
  qed
qed

lemma place_reach_inv:
  assumes "idle_reach idleTimeout mountOnDemand s" and "0 < idleTimeout"
  shows "monitor_inv s"
  using assms(1)
proof (induction rule: idle_reach.induct)
  case (idle_start c)
  show ?case
    by (simp add: monitor_inv_def idle_init_def cond_sys_init_def pthread_cond_init_def single_inv_def
        lock_ok_def release_ok_def Let_def)
next
  case (idle_next s s')
  from idle_next(2) show ?case
  proof cases
    case step_monitor
    then show ?thesis using monitor_keeps assms(2) idle_next.IH by blast
  next
    case step_ending
    then show ?thesis using ending_keeps idle_next.IH by blast
  next
    case (step_callbacks c)
    then show ?thesis using idle_next.IH by (simp add: monitor_inv_def)
  next
    case (step_time now)
    then show ?thesis
      using idle_next.IH by (simp add: monitor_inv_def single_inv_def Let_def)
  qed
qed

subsection \<open>The end\<close>

text \<open>The steps the monitor has left once it was signalled.\<close>

fun steps_left :: "monitor \<Rightarrow> position \<Rightarrow> nat" where
  "steps_left MEnd p = 0"
| "steps_left MExit p = 1"
| "steps_left MHead p = 2"
| "steps_left MStart p = 3"
| "steps_left MBody p = 0"
| "steps_left m Outside = 3"
| "steps_left m Resetting = 4"
| "steps_left m Leaving = 5"
| "steps_left m (Awake g tm) = 6"
| "steps_left m (Blocked g tm) = 7"

lemma monitor_advances:
  assumes "monitor_inv s" and "im_ending s = DJoining" and "im_monitor s \<noteq> MEnd"
  shows "\<exists>s'. monitor_step idleTimeout mountOnDemand s s' \<and> im_ending s' = DJoining \<and>
    steps_left (im_monitor s') (cs_pos (im_cond s') 1) < steps_left (im_monitor s) (cs_pos (im_cond s) 1)"
proof -
  let ?s = "im_cond s"
  note d = monitor_invD [OF assms(1)]
  have m: "cs_mutex ?s = None \<or> cs_mutex ?s = Some 1" and stop: "\<not> im_running s" and late: "\<not> before_signal (im_ending s)"
    using d(3,4) assms(2) by (auto simp: lock_ok_def)
  have wait: ?thesis if "im_monitor s = MTimed" "a \<in> {Wake 1, Look 1, Leave 1, Reset 1}" "act a ?s = Some cs"
      "steps_left MTimed (cs_pos cs 1) < steps_left MTimed (cs_pos ?s 1)" for a cs
  proof -
    have "monitor_step idleTimeout mountOnDemand s (s\<lparr>im_cond := cs\<rparr>)" using that by (intro mon_wait) auto
    then show ?thesis using that assms(2) by (intro exI conjI) (assumption, simp_all)
  qed
  show ?thesis
  proof (cases "im_monitor s")
    case MStart
    then have p: "cs_pos ?s 1 = Outside" "cs_mutex ?s = None" using d(6) MStart m by auto
    then have "monitor_step idleTimeout mountOnDemand s (s\<lparr>im_cond := ?s\<lparr>cs_mutex := Some 1\<rparr>, im_monitor := MHead\<rparr>)"
      by (intro mon_lock [OF MStart]) simp
    then show ?thesis using MStart assms(2) by (intro exI conjI) (assumption, simp_all)
  next
    case MHead
    have "monitor_step idleTimeout mountOnDemand s (s\<lparr>im_monitor := if im_running s then MBody else MExit\<rparr>)"
      by (rule mon_head [OF MHead])
    then show ?thesis using MHead assms(2) stop by (intro exI conjI) (assumption, simp_all)
  next
    case MExit
    then have "cs_pos ?s 1 = Outside" "cs_mutex ?s = Some 1" using d(6) MExit by auto
    then have "monitor_step idleTimeout mountOnDemand s (s\<lparr>im_cond := ?s\<lparr>cs_mutex := None\<rparr>, im_monitor := MEnd\<rparr>)"
      by (intro mon_unlock [OF MExit]) simp
    then show ?thesis using MExit assms(2) by (intro exI conjI) (assumption, simp_all)
  next
    case MTimed
    then have mt: "cs_mutex ?s = Some 1 \<longleftrightarrow> cs_pos ?s 1 \<in> {Outside, Resetting}"
      using d(6) MTimed by simp
    show ?thesis
    proof (cases "cs_pos ?s 1")
      case Outside
      have "monitor_step idleTimeout mountOnDemand s (s\<lparr>im_monitor := if im_monitor s = MTimed then MHead else MExit\<rparr>)"
        by (rule mon_return) (use MTimed Outside in simp_all)
      then show ?thesis using MTimed Outside assms(2) by (intro exI conjI) (assumption, simp_all)
    next
      case (Blocked g tm)
      then have "release_count (cs_cond ?s) = 1" using d(5) late by (simp add: release_ok_def)
      then have "event_set (cs_cond ?s)" using single_cases(3) [OF d(1) Blocked] by simp
      then have "act (Wake 1) ?s = Some (?s\<lparr>cs_pos := (cs_pos ?s)(1 := Awake g tm)\<rparr>)" using Blocked by simp
      then show ?thesis by (rule wait [OF MTimed, rotated]) (use Blocked in simp_all)
    next
      case (Awake g tm)
      have "act (Look 1) ?s = Some (?s\<lparr>cs_pos := (cs_pos ?s)(1 := Leaving)\<rparr>)"
        using Awake single_cases(4) [OF d(1) Awake] by simp
      then show ?thesis by (rule wait [OF MTimed, rotated]) (use Awake in simp_all)
    next
      case Leaving
      then have "cs_mutex ?s = None" using mt m by auto
      then obtain cs where "act (Leave 1) ?s = Some cs" "cs_pos cs 1 = Resetting \<or> cs_pos cs 1 = Outside"
        using Leaving by (simp add: wait_leave_def Let_def split: prod.splits)
      then show ?thesis by (intro wait [OF MTimed, of "Leave 1" cs]) (use Leaving in auto)
    next
      case Resetting
      then have "act (Reset 1) ?s = Some (?s\<lparr>cs_cond := (cs_cond ?s)\<lparr>event_set := False\<rparr>, cs_pos := (cs_pos ?s)(1 := Outside)\<rparr>)"
        by simp
      then show ?thesis by (rule wait [OF MTimed, rotated]) (use Resetting in simp_all)
    qed
  qed (use assms(3) d(6) late in simp_all)
qed

subsection \<open>Properties\<close>



text \<open>C32: the end of the program is not held up by the monitor: once \<open>encfs_destroy\<close> has signalled and
  joins, the monitor always has a step to its end, at most seven of them.\<close>
theorem shutdown_ends_monitor:
  assumes "idle_reach idleTimeout mountOnDemand s" and "0 < idleTimeout" and "im_ending s = DJoining"
  shows "\<exists>n \<le> 7. \<exists>s'. (monitor_step idleTimeout mountOnDemand ^^ n) s s' \<and> im_monitor s' = MEnd"
proof -
  have "\<exists>n \<le> steps_left (im_monitor s) (cs_pos (im_cond s) 1).
      \<exists>s'. (monitor_step idleTimeout mountOnDemand ^^ n) s s' \<and> im_monitor s' = MEnd"
    using place_reach_inv [OF assms(1,2)] assms(3)
  proof (induction "steps_left (im_monitor s) (cs_pos (im_cond s) 1)" arbitrary: s rule: less_induct)
    case less
    show ?case
    proof (cases "im_monitor s = MEnd")
      case True
      then show ?thesis by (intro exI [of _ 0]) auto
    next
      case False
      then obtain s1 where s1: "monitor_step idleTimeout mountOnDemand s s1" "im_ending s1 = DJoining"
          "steps_left (im_monitor s1) (cs_pos (im_cond s1) 1) < steps_left (im_monitor s) (cs_pos (im_cond s) 1)"
        using monitor_advances [OF less.prems] by blast
      then obtain n s' where n: "n \<le> steps_left (im_monitor s1) (cs_pos (im_cond s1) 1)"
          "(monitor_step idleTimeout mountOnDemand ^^ n) s1 s'" "im_monitor s' = MEnd"
        using less.hyps [OF s1(3) monitor_keeps [OF s1(1) assms(2) less.prems(1)] s1(2)] by blast
      have "(monitor_step idleTimeout mountOnDemand ^^ Suc n) s s'" by (rule relpowp_Suc_I2 [OF s1(1) n(2)])
      then show ?thesis using n s1(3) by (intro exI [of _ "Suc n"]) auto
    qed
  qed
  moreover have "steps_left m p \<le> 7" for m p by (cases m; cases p) simp_all
  ultimately show ?thesis by (meson le_trans)
qed

theorem shutdown_ends_monitor_witness:
  "\<exists>(s :: (nat, unit) idle_sys) s'. im_ending s = DJoining \<and> (\<exists>n \<le> 7. (monitor_step 1 False ^^ n) s s') \<and> im_monitor s' = MEnd"
proof -
  obtain s1 :: "(nat, unit) idle_sys" where
    s1: "idle_reach 1 False s1" "im_ending s1 = DSet" "im_cond s1 = cond_sys_init"
    by (rule that [OF idle_next [OF idle_start [of 1 False EncFS_Context_new] step_ending [OF end_set]]])
       (simp_all add: idle_init_def)
  obtain s2 :: "(nat, unit) idle_sys" where
    s2: "idle_reach 1 False s2" "im_ending s2 = DLocked" "im_cond s2 = cond_sys_init\<lparr>cs_mutex := Some 0\<rparr>"
    by (rule that [OF idle_next [OF s1(1) step_ending [OF end_lock [OF s1(2)]]]]) (simp_all add: s1 cond_sys_init_def)
  obtain s3 :: "(nat, unit) idle_sys" where
    s3: "idle_reach 1 False s3" "im_ending s3 = DSignalled" "im_cond s3 = cond_sys_init\<lparr>cs_mutex := Some 0\<rparr>"
    by (rule that [OF idle_next [OF s2(1) step_ending [OF end_signal [OF s2(2)]]]])
       (simp_all add: s2 cond_sys_init_def pthread_cond_init_def pthread_cond_signal_def)
  obtain s4 :: "(nat, unit) idle_sys" where s4: "idle_reach 1 False s4" "im_ending s4 = DJoining"
    by (rule that [OF idle_next [OF s3(1) step_ending [OF end_unlock [OF s3(2)]]]]) (simp_all add: s3 cond_sys_init_def)
  have "\<exists>n \<le> 7. \<exists>s'. (monitor_step 1 False ^^ n) s4 s' \<and> im_monitor s' = MEnd"
    by (rule shutdown_ends_monitor [OF s4(1) _ s4(2)]) simp
  then show ?thesis using s4(2) by blast
qed

end
