(* ===== verification/CompatWin.thy ===== *)
theory CompatWin
  imports WinUtils FileNode
begin

text \<open>
  The unix calls of \<open>encfs/compatwin.cpp\<close> on top of Windows.  The functions of Windows and of
  its C library are the record \<open>win32\<close> over the state \<open>'w\<close> of the system; \<open>errno\<close> is kept
  beside it.  The locale \<open>win32_file\<close> states what Windows documents for one open file.
\<close>

subsection \<open>Windows\<close>

text \<open>\<open>None\<close> is \<open>INVALID_HANDLE_VALUE\<close>.\<close>

type_synonym handle = "nat option"

record find_data =
  fd_attributes :: u32
  fd_creation :: filetime
  fd_access :: filetime
  fd_write :: filetime
  fd_sizeHigh :: u32
  fd_sizeLow :: u32
  fd_fileName :: wchars

record 'w winst =
  ws_errno :: int
  ws_sys :: 'w

text \<open>
  A file is opened with the access, the shares and the flags that are asked for, and has to
  exist.  Reads and writes take an offset in two halves; a failing one is \<open>None\<close>.
  \<open>k_SetFilePointer\<close> gives the lower half of the new position.  The functions of the C
  library may set \<open>errno\<close>.
\<close>

record 'w win32 =
  k_GetLastError :: "'w \<Rightarrow> int"
  k_CreateFileW :: "wchars \<Rightarrow> u32 \<Rightarrow> u32 \<Rightarrow> u32 \<Rightarrow> 'w \<Rightarrow> handle \<times> 'w"
  k_CloseHandle :: "handle \<Rightarrow> 'w \<Rightarrow> unit \<times> 'w"
  k_ReadFile :: "handle \<Rightarrow> u32 \<Rightarrow> u32 \<times> u32 \<Rightarrow> 'w \<Rightarrow> bytes option \<times> 'w"
  k_WriteFile :: "handle \<Rightarrow> bytes \<Rightarrow> u32 \<times> u32 \<Rightarrow> 'w \<Rightarrow> u32 option \<times> 'w"
  k_SetFilePointer :: "handle \<Rightarrow> u32 \<times> u32 \<Rightarrow> 'w \<Rightarrow> u32 \<times> 'w"
  k_SetEndOfFile :: "handle \<Rightarrow> 'w \<Rightarrow> bool \<times> 'w"
  k_FlushFileBuffers :: "handle \<Rightarrow> 'w \<Rightarrow> unit \<times> 'w"
  k_SetFileTime :: "handle \<Rightarrow> filetime option \<Rightarrow> filetime option \<Rightarrow> filetime option \<Rightarrow> 'w \<Rightarrow> bool \<times> 'w"
  k_set_sparse :: "handle \<Rightarrow> 'w \<Rightarrow> unit \<times> 'w"
  k_GetDiskFreeSpaceExA :: "bytes \<Rightarrow> 'w \<Rightarrow> (u64 \<times> u64 \<times> u64) option \<times> 'w"
  k_CreateDirectoryW :: "wchars \<Rightarrow> 'w \<Rightarrow> bool \<times> 'w"
  k_MoveFileW :: "wchars \<Rightarrow> wchars \<Rightarrow> 'w \<Rightarrow> bool \<times> 'w"
  k_DeleteFileW :: "wchars \<Rightarrow> 'w \<Rightarrow> bool \<times> 'w"
  k_RemoveDirectoryW :: "wchars \<Rightarrow> 'w \<Rightarrow> bool \<times> 'w"
  k_FindFirstFileW :: "wchars \<Rightarrow> 'w \<Rightarrow> (handle \<times> find_data) \<times> 'w"
  k_FindNextFileW :: "handle \<Rightarrow> 'w \<Rightarrow> find_data option \<times> 'w"
  k_FindClose :: "handle \<Rightarrow> 'w \<Rightarrow> unit \<times> 'w"
  k_getdrive :: "'w \<Rightarrow> int"
  k_get_osfhandle :: "int \<Rightarrow> 'w winst \<Rightarrow> handle \<times> 'w winst"
  k_open_osfhandle :: "handle \<Rightarrow> int \<Rightarrow> 'w winst \<Rightarrow> int \<times> 'w winst"
  k_wopen :: "wchars \<Rightarrow> int \<Rightarrow> u32 \<Rightarrow> 'w winst \<Rightarrow> int \<times> 'w winst"
  k_close :: "int \<Rightarrow> 'w winst \<Rightarrow> int \<times> 'w winst"
  k_wchmod :: "wchars \<Rightarrow> u32 \<Rightarrow> 'w winst \<Rightarrow> int \<times> 'w winst"

text \<open>A state function: a system call, reading and setting \<open>errno\<close>, and the usual failure.\<close>

type_synonym ('w, 'a) wm = "'w winst \<Rightarrow> 'a \<times> 'w winst"

definition ret :: "'a \<Rightarrow> ('w, 'a) wm" where "ret x = (\<lambda>w. (x, w))"

definition sysw :: "('w \<Rightarrow> 'a \<times> 'w) \<Rightarrow> ('w, 'a) wm" where
  "sysw f = (\<lambda>w. case f (ws_sys w) of (x, k) \<Rightarrow> (x, w\<lparr>ws_sys := k\<rparr>))"

definition set_errno :: "int \<Rightarrow> ('w, unit) wm" where "set_errno e = (\<lambda>w. ((), w\<lparr>ws_errno := e\<rparr>))"

definition last_error :: "'w win32 \<Rightarrow> ('w, int) wm" where
  "last_error K = (\<lambda>w. (k_GetLastError K (ws_sys w), w))"

definition fail_with :: "int \<Rightarrow> ('w, int) wm" where
  "fail_with e = (scomp (set_errno e) (\<lambda>_. ret (-1)))"

definition fail_last :: "'w win32 \<Rightarrow> ('w, int) wm" where
  "fail_last K = (scomp (last_error K) (\<lambda>e. fail_with (win32_error_to_errno e)))"

text \<open>Zero when the call worked.\<close>

definition check :: "'w win32 \<Rightarrow> ('w \<Rightarrow> bool \<times> 'w) \<Rightarrow> ('w, int) wm" where
  "check K f = (scomp (sysw f) (\<lambda>ok. if ok then ret 0 else fail_last K))"

definition GENERIC_READ :: u32 where "GENERIC_READ = 0x80000000"
definition GENERIC_WRITE :: u32 where "GENERIC_WRITE = 0x40000000"
definition FILE_WRITE_ATTRIBUTES :: u32 where "FILE_WRITE_ATTRIBUTES = 0x100"
definition FILE_SHARE_READ :: u32 where "FILE_SHARE_READ = 1"
definition FILE_SHARE_WRITE :: u32 where "FILE_SHARE_WRITE = 2"
definition FILE_SHARE_DELETE :: u32 where "FILE_SHARE_DELETE = 4"
definition ERROR_HANDLE_EOF :: int where "ERROR_HANDLE_EOF = 38"
definition ERROR_NO_MORE_FILES :: int where "ERROR_NO_MORE_FILES = 18"
definition FILENAME_MAX :: nat where "FILENAME_MAX = 260"

definition split64 :: "u64 \<Rightarrow> u32 \<times> u32" where
  "split64 x = (ucast x, ucast (drop_bit 32 x))"

subsection \<open>File names\<close>

text \<open>A literal of the code; \<open>tolower\<close> in the C locale.\<close>

definition wlit :: "string \<Rightarrow> wchars" where
  "wlit s = map of_char s"

definition tolower :: "u16 \<Rightarrow> u16" where
  "tolower c = (if 65 \<le> c \<and> c \<le> 90 then c + 32 else c)"

text \<open>The unit at a place of a string with its terminator.\<close>

definition wat :: "wchars \<Rightarrow> nat \<Rightarrow> u16" where
  "wat ws i = (if i < length ws then ws ! i else 0)"

text \<open>
  The prefixes are written in front of the name; the second one overwrites its first
  backslash.  The drive letter is kept in a \<open>char\<close>.
\<close>

definition utf8_to_wfn :: "bytes \<Rightarrow> wchars" where
  "utf8_to_wfn src =
     (let buf = map (\<lambda>c. if c = 47 then 92 else c) (wcstr (utf8_to_wchar_buf src (length src + 1)));
          drive = (ucast (tolower (wat buf 0)) :: byte) in
      if 97 \<le> drive \<and> drive \<le> 122 \<and> wat buf 1 = 58
      then wlit [CHR 0x5C, CHR 0x5C, CHR ''?'', CHR 0x5C] @ buf
      else if wat buf 0 = 92 \<and> wat buf 1 = 92
      then wlit [CHR 0x5C, CHR 0x5C, CHR ''?'', CHR 0x5C, CHR ''U'', CHR ''N'', CHR ''C''] @ tl buf
      else buf)"

subsection \<open>Descriptors\<close>

definition win_fsync :: "'w win32 \<Rightarrow> int \<Rightarrow> ('w, int) wm" where
  "win_fsync K fd = (scomp (k_get_osfhandle K fd) (\<lambda>h. scomp (sysw (k_FlushFileBuffers K h)) (\<lambda>_. ret 0)))"

definition win_fdatasync :: "'w win32 \<Rightarrow> int \<Rightarrow> ('w, int) wm" where
  "win_fdatasync K fd = (scomp (k_get_osfhandle K fd) (\<lambda>h. scomp (sysw (k_FlushFileBuffers K h)) (\<lambda>_. ret 0)))"

text \<open>
  The bytes read, or \<open>None\<close> for a negative result.  Counts are 32 bits wide for Windows,
  and signed as results.
\<close>

definition win_pread :: "'w win32 \<Rightarrow> int \<Rightarrow> nat \<Rightarrow> nat \<Rightarrow> ('w, bytes option) wm" where
  "win_pread K fd count offset =
     (scomp (k_get_osfhandle K fd) (\<lambda>h.
      if h = None then scomp (set_errno EINVAL) (\<lambda>_. ret None)
      else scomp (sysw (k_ReadFile K h (word_of_nat count) (split64 (word_of_nat offset)))) (\<lambda>r.
        case r of
          None \<Rightarrow> scomp (last_error K) (\<lambda>e.
            if e = ERROR_HANDLE_EOF then ret (Some []) else scomp (set_errno EIO) (\<lambda>_. ret None))
        | Some d \<Rightarrow> ret (if length d < 2 ^ 31 then Some d else None))))"

definition win_pwrite :: "'w win32 \<Rightarrow> int \<Rightarrow> bytes \<Rightarrow> nat \<Rightarrow> ('w, int) wm" where
  "win_pwrite K fd buf offset =
     (scomp (k_get_osfhandle K fd) (\<lambda>h.
      if h = None then fail_with EINVAL
      else scomp (sysw (k_WriteFile K h (take (unat (word_of_nat (length buf) :: u32)) buf) (split64 (word_of_nat offset)))) (\<lambda>r.
        case r of None \<Rightarrow> fail_with EIO | Some len \<Rightarrow> ret (sint len))))"

text \<open>The test of the result of \<open>SetFilePointer\<close> takes the position zero for a failure.\<close>

definition truncate_handle :: "'w win32 \<Rightarrow> handle \<Rightarrow> nat \<Rightarrow> ('w, int) wm" where
  "truncate_handle K h len =
     (scomp (sysw (k_SetFilePointer K h (split64 (word_of_nat len)))) (\<lambda>r.
      if r = 0 then fail_last K else check K (k_SetEndOfFile K h)))"

definition win_ftruncate :: "'w win32 \<Rightarrow> int \<Rightarrow> nat \<Rightarrow> ('w, int) wm" where
  "win_ftruncate K fd len = (scomp (k_get_osfhandle K fd) (\<lambda>h. truncate_handle K h len))"

text \<open>A second try to open a file without sharing.\<close>

definition open_or :: "('w \<Rightarrow> handle \<times> 'w) \<Rightarrow> ('w \<Rightarrow> handle \<times> 'w) \<Rightarrow> ('w, handle) wm" where
  "open_or f g = (scomp (sysw f) (\<lambda>h. if h = None then sysw g else ret h))"

definition win_truncate :: "'w win32 \<Rightarrow> bytes \<Rightarrow> nat \<Rightarrow> ('w, int) wm" where
  "win_truncate K path len =
     (let fn = utf8_to_wfn path in
      scomp (open_or (k_CreateFileW K fn (GENERIC_WRITE OR GENERIC_READ) FILE_SHARE_DELETE 0)
        (k_CreateFileW K fn (GENERIC_WRITE OR GENERIC_READ) 0 0)) (\<lambda>h.
      if h = None then fail_last K
      else scomp (truncate_handle K h len) (\<lambda>res. scomp (sysw (k_CloseHandle K h)) (\<lambda>_. ret res))))"

text \<open>
  The first open asks for the shares with deletion, the second without; the error is that of
  the first.  A file that is only read is opened for writing.
\<close>

definition my_open_access :: "int \<Rightarrow> u32" where
  "my_open_access flags = (if flags = O_RDONLY then GENERIC_WRITE else GENERIC_WRITE OR GENERIC_READ)"

definition my_open_found :: "'w win32 \<Rightarrow> int \<Rightarrow> handle \<Rightarrow> ('w, int) wm" where
  "my_open_found K flags f =
     (scomp (sysw (k_set_sparse K f)) (\<lambda>_.
      scomp (k_open_osfhandle K f flags) (\<lambda>fd.
      if fd < 0 then scomp (set_errno ENOENT) (\<lambda>_. scomp (sysw (k_CloseHandle K f)) (\<lambda>_. ret (-1))) else ret fd)))"

definition my_open :: "'w win32 \<Rightarrow> bytes \<Rightarrow> int \<Rightarrow> ('w, int) wm" where
  "my_open K fn_utf8 flags =
     (let fn = utf8_to_wfn fn_utf8; shares = FILE_SHARE_READ OR FILE_SHARE_WRITE in
      scomp (sysw (k_CreateFileW K fn (my_open_access flags) (FILE_SHARE_DELETE OR shares) 0)) (\<lambda>f.
      if f = None
      then scomp (last_error K) (\<lambda>e.
           scomp (sysw (k_CreateFileW K fn (my_open_access flags) shares 0)) (\<lambda>f.
           if f = None then fail_with (win32_error_to_errno e) else my_open_found K flags f))
      else my_open_found K flags f))"

definition win_open :: "'w win32 \<Rightarrow> bytes \<Rightarrow> int \<Rightarrow> u32 \<Rightarrow> ('w, int) wm" where
  "win_open K fn flags mode = k_wopen K (utf8_to_wfn fn) flags (if flags AND O_CREAT \<noteq> 0 then mode else 0)"

subsection \<open>Paths\<close>

definition win_mkdir :: "'w win32 \<Rightarrow> bytes \<Rightarrow> u32 \<Rightarrow> ('w, int) wm" where
  "win_mkdir K fn mode = check K (k_CreateDirectoryW K (utf8_to_wfn fn))"

definition win_rename :: "'w win32 \<Rightarrow> bytes \<Rightarrow> bytes \<Rightarrow> ('w, int) wm" where
  "win_rename K oldpath newpath = check K (k_MoveFileW K (utf8_to_wfn oldpath) (utf8_to_wfn newpath))"

definition win_unlink :: "'w win32 \<Rightarrow> bytes \<Rightarrow> ('w, int) wm" where
  "win_unlink K path = check K (k_DeleteFileW K (utf8_to_wfn path))"

definition win_rmdir :: "'w win32 \<Rightarrow> bytes \<Rightarrow> ('w, int) wm" where
  "win_rmdir K path = check K (k_RemoveDirectoryW K (utf8_to_wfn path))"

definition win_chmod :: "'w win32 \<Rightarrow> bytes \<Rightarrow> u32 \<Rightarrow> ('w, int) wm" where
  "win_chmod K path mode = k_wchmod K (utf8_to_wfn path) mode"

text \<open>The numbers of the file, its device and its times.\<close>

record stati64 = stat +
  st_dev :: int
  st_atime :: int
  st_mtime :: int
  st_ctime :: int

definition mode_of :: "u32 \<Rightarrow> u32" where
  "mode_of attributes =
     (let mode = (if attributes AND 0x10 \<noteq> 0 then 0x4000 OR 0x1FF else 0x8000 OR 0x1B6) in
      if attributes AND 1 \<noteq> 0 then mode AND NOT 0x92 else mode)"

text \<open>The buffer of the caller is not touched when the call fails.\<close>

definition win_stat :: "'w win32 \<Rightarrow> stati64 \<Rightarrow> bytes \<Rightarrow> ('w, int \<times> stati64) wm" where
  "win_stat K buffer path =
     (let fn = utf8_to_wfn path;
          fn = (if fn \<noteq> [] \<and> last fn = 92 then butlast fn else fn);
          p = cstr path in
      if list_ex (\<lambda>c. c = 63 \<or> c = 42) p
      then scomp (fail_with ENOENT) (\<lambda>r. ret (r, buffer))
      else scomp (sysw (k_FindFirstFileW K fn)) (\<lambda>(hff, wfd).
        if hff = None then scomp (fail_last K) (\<lambda>r. ret (r, buffer))
        else scomp (sysw (k_FindClose K hff)) (\<lambda>_. \<lambda>w.
          let drive = (if 1 < length p \<and> p ! 1 = 58 then uint (tolower (ucast (p ! 0))) - 97
                       else k_getdrive K (ws_sys w) - 1) in
          ret (0, \<lparr>st_mode = mode_of (fd_attributes wfd),
                   st_size = sint (push_bit 32 (ucast (fd_sizeHigh wfd)) + ucast (fd_sizeLow wfd) :: u64),
                   st_dev = drive,
                   st_atime = filetimeToUnixTime (fd_access wfd),
                   st_mtime = filetimeToUnixTime (fd_write wfd),
                   st_ctime = filetimeToUnixTime (fd_creation wfd)\<rparr>) w)))"

text \<open>
  Times have seconds and microseconds; the product with ten is computed in 32 bits.  The
  result is \<open>None\<close> when the code follows a null pointer: \<open>utimes\<close> reads the times of its
  caller once the file is open.
\<close>

definition timevalToFiletime :: "int \<times> int \<Rightarrow> filetime" where
  "timevalToFiletime = (\<lambda>(tv_sec, tv_usec).
     split_filetime (word_of_int (sint (word_of_int tv_sec :: u32) * 10000000) + unix_epoch
       + ucast (10 * (word_of_int tv_usec :: u32))))"

definition set_times :: "'w win32 \<Rightarrow> handle \<Rightarrow> (int \<times> int) \<times> (int \<times> int) \<Rightarrow> ('w, int) wm" where
  "set_times K h tv =
     (scomp (sysw (k_SetFileTime K h None (Some (timevalToFiletime (fst tv))) (Some (timevalToFiletime (snd tv))))) (\<lambda>res.
      scomp (last_error K) (\<lambda>win_err.
      scomp (sysw (k_CloseHandle K h)) (\<lambda>_.
      if res then ret 0 else fail_with (win32_error_to_errno win_err)))))"

definition win_utimes ::
  "'w win32 \<Rightarrow> bytes \<Rightarrow> ((int \<times> int) \<times> (int \<times> int)) option \<Rightarrow> 'w winst \<Rightarrow> (int \<times> 'w winst) option" where
  "win_utimes K filename tv w =
     (let fn = utf8_to_wfn filename in
      case open_or (k_CreateFileW K fn FILE_WRITE_ATTRIBUTES (FILE_SHARE_DELETE OR FILE_SHARE_READ OR FILE_SHARE_WRITE) 0)
             (k_CreateFileW K fn FILE_WRITE_ATTRIBUTES 0 0) w of
        (None, w) \<Rightarrow> Some (fail_last K w)
      | (Some h, w) \<Rightarrow> (case tv of None \<Rightarrow> None | Some t \<Rightarrow> Some (set_times K (Some h) t w)))"

definition win_utime :: "'w win32 \<Rightarrow> bytes \<Rightarrow> (int \<times> int) option \<Rightarrow> 'w winst \<Rightarrow> (int \<times> 'w winst) option" where
  "win_utime K filename tv w =
     (case tv of
        None \<Rightarrow> win_utimes K filename None w
      | Some (actime, modtime) \<Rightarrow> win_utimes K filename (Some ((actime, 0), (modtime, 0))) w)"

record statvfs =
  f_bsize :: u32
  f_frsize :: u32
  f_blocks :: u64
  f_bfree :: u64
  f_bavail :: u64
  f_files :: u64
  f_ffree :: u64
  f_favail :: u64
  f_fsid :: u32
  f_flag :: u32
  f_namemax :: u32

definition win_statvfs :: "'w win32 \<Rightarrow> bytes \<Rightarrow> ('w, int \<times> statvfs) wm" where
  "win_statvfs K path =
     (let fs = \<lparr>f_bsize = 4096, f_frsize = 4096, f_blocks = 0, f_bfree = 0, f_bavail = 0,
                f_files = - 1, f_ffree = - 1, f_favail = - 1, f_fsid = 0, f_flag = 0, f_namemax = 255\<rparr> in
      scomp (sysw (k_GetDiskFreeSpaceExA K path)) (\<lambda>r.
        case r of
          None \<Rightarrow> scomp (fail_last K) (\<lambda>r. ret (r, fs))
        | Some (avail, bytes, free_bytes) \<Rightarrow>
            scomp (set_errno 0) (\<lambda>_. ret (0, fs\<lparr>f_bavail := avail div ucast (f_bsize fs),
               f_bfree := free_bytes div ucast (f_bsize fs), f_blocks := bytes div ucast (f_bsize fs)\<rparr>))))"

subsection \<open>Directories\<close>

text \<open>
  The search handle, the entry found last, and whether it was given out.  \<open>mem\<close> is what
  \<open>malloc\<close> leaves in strings; \<open>malloc\<close> itself does not fail here.
\<close>

record dir =
  dir_hff :: handle
  dir_wfd :: find_data
  dir_pos :: int

definition win_opendir :: "'w win32 \<Rightarrow> bytes \<Rightarrow> ('w, dir option) wm" where
  "win_opendir K name =
     (let path = utf8_to_wfn name;
          path = path @ (if path \<noteq> [] \<and> last path = 92 then [42] else [92, 42]) in
      scomp (sysw (k_FindFirstFileW K path)) (\<lambda>(hff, wfd).
      if hff = None then scomp (fail_last K) (\<lambda>_. ret None)
      else ret (Some \<lparr>dir_hff = hff, dir_wfd = wfd, dir_pos = 0\<rparr>)))"

definition win_closedir :: "'w win32 \<Rightarrow> dir option \<Rightarrow> ('w, int) wm" where
  "win_closedir K d =
     (scomp (set_errno 0) (\<lambda>_.
      scomp (case d of
         None \<Rightarrow> ret ()
       | Some d \<Rightarrow> if dir_hff d = None then ret () else sysw (k_FindClose K (dir_hff d))) (\<lambda>_. ret 0)))"

definition entry_name :: "(nat \<Rightarrow> byte) \<Rightarrow> find_data \<Rightarrow> bytes" where
  "entry_name mem wfd = take (FILENAME_MAX - 1) (wchar_to_utf8_cstr mem (fd_fileName wfd))"

text \<open>The next name, if there is one, and the object.\<close>

definition win_readdir :: "'w win32 \<Rightarrow> (nat \<Rightarrow> byte) \<Rightarrow> dir option \<Rightarrow> ('w, bytes option \<times> dir option) wm" where
  "win_readdir K mem dir =
     (case dir of
        None \<Rightarrow> scomp (set_errno EBADF) (\<lambda>_. ret (None, None))
      | Some d \<Rightarrow>
          scomp (set_errno 0) (\<lambda>_.
          if dir_pos d < 0 then ret (None, Some d)
          else if dir_pos d = 0
          then ret (Some (entry_name mem (dir_wfd d)), Some (d\<lparr>dir_pos := dir_pos d + 1\<rparr>))
          else scomp (sysw (k_FindNextFileW K (dir_hff d))) (\<lambda>r.
            case r of
              None \<Rightarrow> scomp (last_error K) (\<lambda>e.
                scomp (set_errno (if e = ERROR_NO_MORE_FILES then 0 else win32_error_to_errno e)) (\<lambda>_.
                ret (None, Some d)))
            | Some wfd \<Rightarrow> ret (Some (entry_name mem wfd), Some (d\<lparr>dir_wfd := wfd\<rparr>)))))"

text \<open>The calls of the file objects.\<close>

definition empty_stat :: stati64 where
  "empty_stat = \<lparr>st_mode = 0, st_size = 0, st_dev = 0, st_atime = 0, st_mtime = 0, st_ctime = 0\<rparr>"

definition CompatUnix :: "'w win32 \<Rightarrow> 'w winst unix" where
  "CompatUnix K =
     \<lparr>ux_errno = ws_errno,
      ux_open = my_open K,
      ux_creat = win_open K,
      ux_close = k_close K,
      ux_lstat = (\<lambda>path. scomp (win_stat K empty_stat path) (\<lambda>(r, st). ret (r, stat.truncate st))),
      ux_chmod = win_chmod K,
      ux_pread = win_pread K,
      ux_pwrite = win_pwrite K,
      ux_ftruncate = win_ftruncate K,
      ux_truncate = win_truncate K,
      ux_fdatasync = win_fdatasync K,
      ux_fsync = win_fsync K\<rparr>"

subsection \<open>What Windows documents for an open file\<close>

text \<open>
  \<open>good\<close> says that the descriptor \<open>fd\<close> belongs to the handle \<open>h\<close> of a file that can be read and
  written; \<open>pos\<close> is the file pointer.  A successful \<open>SetFilePointer\<close> returns the lower half of
  the position.  Nothing is known of the last error after a success.
\<close>

abbreviation W :: "int \<Rightarrow> 'w \<Rightarrow> 'w winst" where
  "W e k \<equiv> \<lparr>ws_errno = e, ws_sys = k\<rparr>"

locale win32_file =
  fixes K :: "'w win32" and h :: nat and fd :: int
    and good :: "'w \<Rightarrow> bool" and data :: "'w \<Rightarrow> bytes" and pos :: "'w \<Rightarrow> nat"
  assumes osfhandle: "good k \<Longrightarrow> k_get_osfhandle K fd (W e k) = (Some h, W e k)"
    and ReadFile: "good k \<Longrightarrow> k_ReadFile K (Some h) n (split64 off) k = (r, k') \<Longrightarrow> good k' \<and> data k' = data k \<and>
      (r = Some (take (unat n) (drop (unat off) (data k))) \<or>
       r = None \<and> length (data k) \<le> unat off \<and> k_GetLastError K k' = ERROR_HANDLE_EOF)"
    and WriteFile: "good k \<Longrightarrow> d \<noteq> [] \<Longrightarrow> k_WriteFile K (Some h) d (split64 off) k = (cnt, k') \<Longrightarrow> good k' \<and>
      (\<forall>c. cnt = Some c \<longrightarrow> unat c \<le> length d \<and>
         data k' = (if c = 0 then data k else put (unat off) (take (unat c) d) (data k)))"
    and SetFilePointer: "good k \<Longrightarrow> \<exists>k'. k_SetFilePointer K (Some h) (split64 len) k = (ucast len, k') \<and> good k' \<and>
      data k' = data k \<and> pos k' = unat len"
    and SetEndOfFile: "good k \<Longrightarrow> \<exists>k'. k_SetEndOfFile K (Some h) k = (True, k') \<and> good k' \<and>
      data k' = resize (pos k) (data k)"
    and FlushFileBuffers: "good k \<Longrightarrow> \<exists>k'. k_FlushFileBuffers K (Some h) k = ((), k') \<and> good k' \<and> data k' = data k"

lemmas wm_defs = ret_def sysw_def set_errno_def last_error_def fail_with_def fail_last_def check_def scomp_apply

context win32_file
begin

lemma pread_windows:
  assumes "good k" and "n < 2 ^ 31" and "off < 2 ^ 64"
  shows "\<exists>k'. win_pread K fd n off (W e k) = (Some (take n (drop off (data k))), W e k') \<and> good k' \<and> data k' = data k"
proof -
  obtain r k' where r: "k_ReadFile K (Some h) (word_of_nat n) (split64 (word_of_nat off)) k = (r, k')"
    by (cases "k_ReadFile K (Some h) (word_of_nat n) (split64 (word_of_nat off)) k")
  have n: "unat (word_of_nat n :: u32) = n" "unat (word_of_nat off :: u64) = off"
    using assms by (simp_all add: unat_of_nat take_bit_nat_eq_self)
  from ReadFile [OF assms(1) r] show ?thesis
    using assms(2) unfolding n by (auto simp: win_pread_def wm_defs osfhandle assms(1) r)
qed

lemma pwrite_windows:
  assumes "good k" and "d \<noteq> []" and "length d < 2 ^ 31" and "off < 2 ^ 64"
    and "win_pwrite K fd d off (W e k) = (cnt, w)"
  shows "good (ws_sys w) \<and> cnt \<le> int (length d) \<and> (cnt = 0 \<longrightarrow> data (ws_sys w) = data k) \<and>
    (0 < cnt \<longrightarrow> data (ws_sys w) = put off (take (nat cnt) d) (data k))"
proof -
  obtain r k' where r: "k_WriteFile K (Some h) d (split64 (word_of_nat off)) k = (r, k')"
    by (cases "k_WriteFile K (Some h) d (split64 (word_of_nat off)) k")
  have n: "unat (word_of_nat (length d) :: u32) = length d" "unat (word_of_nat off :: u64) = off"
    using assms by (simp_all add: unat_of_nat take_bit_nat_eq_self)
  have "sysw (k_WriteFile K (Some h) (take (unat (word_of_nat (length d) :: u32)) d) (split64 (word_of_nat off))) (W e k)
      = (r, W e k')" unfolding n(1) by (simp add: sysw_def r)
  then have eq: "win_pwrite K fd d off (W e k) = (case r of None \<Rightarrow> (-1, W EIO k') | Some c \<Rightarrow> (sint c, W e k'))"
    by (cases r) (simp_all add: win_pwrite_def scomp_apply osfhandle [OF assms(1)] fail_with_def set_errno_def ret_def)
  note q = WriteFile [OF assms(1,2) r]
  show ?thesis
  proof (cases r)
    case None
    then have "(cnt, w) = (-1, W EIO k')" using assms(5) eq by (simp only: option.case)
    then show ?thesis using q by simp
  next
    case (Some c)
    then have c: "unat c \<le> length d" "data k' = (if c = 0 then data k else put off (take (unat c) d) (data k))" "good k'"
      using q unfolding n(2) by simp_all
    have u: "uint c = int (unat c)" by (rule uint_nat)
    have "unat c < 2147483648" using c(1) assms(3) by simp
    then have "uint c < 2147483648" using u by linarith
    then have "signed_take_bit 31 (uint c) = uint c"
      by (intro signed_take_bit_int_eq_self) (simp_all add: order_trans [of _ 0])
    then have "sint c = uint c" by (simp add: sint_uint)
    then have s: "sint c = int (unat c)" unfolding u .
    have w: "cnt = int (unat c)" "ws_sys w = k'"
    proof -
      have "(cnt, w) = (sint c, W e k')" using assms(5) eq Some by (simp only: option.case)
      then show "cnt = int (unat c)" "ws_sys w = k'" unfolding prod.inject s by simp_all
    qed
    show ?thesis
    proof (cases "c = 0")
      case False
      then have "unat c \<noteq> 0" by (simp add: unat_eq_0)
      then have "uint c \<le> int (length d)" "uint c \<noteq> 0" using c(1) u by linarith+
      then show ?thesis unfolding w nat_int using c False by simp
    qed (use c in \<open>simp add: w\<close>)
  qed
qed

lemma ftruncate_windows:
  assumes "good k" and "n < 2 ^ 64"
  shows "\<exists>r e' k'. win_ftruncate K fd n (W e k) = (r, W e' k') \<and> good k' \<and>
    (if n mod 2 ^ 32 = 0 then r = -1 \<and> data k' = data k \<and>
       k_SetFilePointer K (Some h) (split64 (word_of_nat n)) k = (0, k') \<and> e' = win32_error_to_errno (k_GetLastError K k')
     else r = 0 \<and> data k' = resize n (data k))"
proof -
  obtain k1 where p: "k_SetFilePointer K (Some h) (split64 (word_of_nat n)) k = (ucast (word_of_nat n :: u64), k1)"
      "good k1" "data k1 = data k" "pos k1 = unat (word_of_nat n :: u64)"
    using SetFilePointer [OF assms(1)] by blast
  obtain k2 where e: "k_SetEndOfFile K (Some h) k1 = (True, k2)" "good k2" "data k2 = resize (pos k1) (data k1)"
    using SetEndOfFile [OF p(2)] by blast
  have n: "unat (word_of_nat n :: u64) = n" using assms(2) by (simp add: unat_of_nat take_bit_nat_eq_self)
  have z: "(ucast (word_of_nat n :: u64) :: u32) = 0 \<longleftrightarrow> n mod 2 ^ 32 = 0"
    by (simp add: unat_eq_0 [symmetric] unsigned_ucast_eq n take_bit_eq_mod del: unat_eq_0)
  show ?thesis
    using p e n z by (auto simp: win_ftruncate_def truncate_handle_def wm_defs osfhandle assms(1))
qed

lemma fdatasync_windows:
  assumes "good k"
  shows "\<exists>k'. win_fdatasync K fd (W e k) = (0, W e k') \<and> good k' \<and> data k' = data k"
  using FlushFileBuffers [OF assms] by (auto simp: win_fdatasync_def wm_defs osfhandle assms)

text \<open>The length that is not cut is reported with the error of an earlier call.\<close>

lemma raw_truncate_windows:
  assumes "good k" and "n < 2 ^ 64" and "n mod 2 ^ 32 = 0" and "0 \<le> fd" and "rf_fd rf = fd" and "rf_canWrite rf"
  shows "\<exists>k1 s. k_SetFilePointer K (Some h) (split64 (word_of_nat n)) k = (0, k1) \<and>
    raw_truncate (CompatUnix K) n (rf, W e k) = (Inr (- win32_error_to_errno (k_GetLastError K k1)), s) \<and>
    data (ws_sys (snd s)) = data k"
proof -
  obtain r e' k' where t: "win_ftruncate K fd n (W e k) = (r, W e' k')" "good k'" "r = -1" "data k' = data k"
      "k_SetFilePointer K (Some h) (split64 (word_of_nat n)) k = (0, k')" "e' = win32_error_to_errno (k_GetLastError K k')"
    using ftruncate_windows [OF assms(1,2), of e] assms(3) by auto
  obtain k2 where f: "win_fdatasync K fd (W e' k') = (0, W e' k2)" "data k2 = data k'"
    using fdatasync_windows [OF t(2)] by blast
  show ?thesis
    using t f assms(4-6)
    by (simp add: raw_truncate_def CompatUnix_def sbind_def sget_def sys_def smod_def sret_def)
qed

end

subsection \<open>A file of Windows in memory\<close>

text \<open>
  One file, its pointer and the last error, which a successful call leaves alone.  It shows
  that the documented behaviour can be had and evaluates the properties.
\<close>

record mem_file =
  mf_data :: bytes
  mf_pos :: nat
  mf_err :: int

definition join64 :: "u32 \<times> u32 \<Rightarrow> nat" where
  "join64 = (\<lambda>(lo, hi). unat (push_bit 32 (ucast hi) OR ucast lo :: u64))"

lemma join64_split64 [simp]: "join64 (split64 x) = unat x"
proof -
  have "push_bit 32 (ucast (ucast (drop_bit 32 x) :: u32)) OR ucast (ucast x :: u32) = x"
    by (rule bit_word_eqI) (auto simp: bit_simps)
  then show ?thesis by (simp add: join64_def split64_def)
qed

lemma fst_split64 [simp]: "fst (split64 x) = ucast x"
  by (simp add: split64_def)

lemma short_count:
  assumes "length d < 2 ^ 32"
  shows "unat (word_of_nat (length d) :: u32) = length d" and "(word_of_nat (length d) :: u32) = 0 \<longleftrightarrow> d = []"
proof -
  show u: "unat (word_of_nat (length d) :: u32) = length d" using assms by (simp add: unat_of_nat take_bit_nat_eq_self)
  have "(word_of_nat (length d) :: u32) = 0 \<longleftrightarrow> unat (word_of_nat (length d) :: u32) = 0" by (rule unat_eq_0 [symmetric])
  then have "(word_of_nat (length d) :: u32) = 0 \<longleftrightarrow> length d = 0" unfolding u .
  then show "(word_of_nat (length d) :: u32) = 0 \<longleftrightarrow> d = []" by simp
qed

definition mem_read :: "u32 \<Rightarrow> nat \<Rightarrow> mem_file \<Rightarrow> bytes option \<times> mem_file" where
  "mem_read n off m =
     (if length (mf_data m) \<le> off then (None, m\<lparr>mf_err := ERROR_HANDLE_EOF\<rparr>)
      else (Some (take (unat n) (drop off (mf_data m))), m))"

text \<open>At most \<open>2 ^ 32 - 1\<close> bytes are written at once.\<close>

definition mem_write :: "bytes \<Rightarrow> nat \<Rightarrow> mem_file \<Rightarrow> u32 option \<times> mem_file" where
  "mem_write d off m =
     (if length d < 2 ^ 32 then (Some (word_of_nat (length d)), m\<lparr>mf_data := put off d (mf_data m)\<rparr>)
      else (Some 0, m))"

definition mem_win32 :: "mem_file win32" where
  "mem_win32 =
     \<lparr>k_GetLastError = mf_err,
      k_CreateFileW = (\<lambda>fn access shares flags m. (Some 0, m)),
      k_CloseHandle = (\<lambda>h m. ((), m)),
      k_ReadFile = (\<lambda>h n off. mem_read n (join64 off)),
      k_WriteFile = (\<lambda>h d off. mem_write d (join64 off)),
      k_SetFilePointer = (\<lambda>h off m. (fst off, m\<lparr>mf_pos := join64 off\<rparr>)),
      k_SetEndOfFile = (\<lambda>h m. (True, m\<lparr>mf_data := resize (mf_pos m) (mf_data m)\<rparr>)),
      k_FlushFileBuffers = (\<lambda>h m. ((), m)),
      k_SetFileTime = (\<lambda>h c a w m. (True, m)),
      k_set_sparse = (\<lambda>h m. ((), m)),
      k_GetDiskFreeSpaceExA = (\<lambda>p m. (None, m)),
      k_CreateDirectoryW = (\<lambda>p m. (False, m)),
      k_MoveFileW = (\<lambda>p q m. (False, m)),
      k_DeleteFileW = (\<lambda>p m. (False, m)),
      k_RemoveDirectoryW = (\<lambda>p m. (False, m)),
      k_FindFirstFileW = (\<lambda>p m. ((None, \<lparr>fd_attributes = 0, fd_creation = split_filetime 0, fd_access = split_filetime 0,
         fd_write = split_filetime 0, fd_sizeHigh = 0, fd_sizeLow = 0, fd_fileName = []\<rparr>), m)),
      k_FindNextFileW = (\<lambda>h m. (None, m)),
      k_FindClose = (\<lambda>h m. ((), m)),
      k_getdrive = (\<lambda>m. 3),
      k_get_osfhandle = (\<lambda>fd w. (Some 0, w)),
      k_open_osfhandle = (\<lambda>h flags w. (3, w)),
      k_wopen = (\<lambda>fn flags mode w. (3, w)),
      k_close = (\<lambda>fd w. (0, w)),
      k_wchmod = (\<lambda>fn mode w. (0, w))\<rparr>"

interpretation mem: win32_file mem_win32 0 3 "\<lambda>_. True" mf_data mf_pos
  by unfold_locales (auto simp: mem_win32_def mem_read_def mem_write_def short_count split: if_splits)

subsection \<open>Properties\<close>



text \<open>C15: cutting an open file to a length that is a multiple of 4 GiB changes nothing and reports the
  error that an earlier call has left behind, which is success when there was none.\<close>
theorem truncate_to_zero_ignored:
  assumes "win32_file K h fd good data pos" and "good k" and "n < 2 ^ 64" and "n mod 2 ^ 32 = 0"
    and "0 \<le> fd" and "rf_fd rf = fd" and "rf_canWrite rf"
  shows "\<exists>k1 s. k_SetFilePointer K (Some h) (split64 (word_of_nat n)) k = (0, k1) \<and>
    raw_truncate (CompatUnix K) n (rf, W e k) = (Inr (- win32_error_to_errno (k_GetLastError K k1)), s) \<and>
    data (ws_sys (snd s)) = data k"
  by (rule win32_file.raw_truncate_windows [OF assms])

theorem truncate_to_zero_ignored_witness:
  "\<exists>s. raw_truncate (CompatUnix mem_win32) 0
      ((RawFileIO_new [97])\<lparr>rf_fd := 3, rf_canWrite := True\<rparr>, W 0 \<lparr>mf_data = [10, 20, 30], mf_pos = 0, mf_err = 0\<rparr>)
      = (Inr 0, s) \<and> mf_data (ws_sys (snd s)) = [10, 20, 30]"
  using truncate_to_zero_ignored [OF mem.win32_file_axioms, where k = "\<lparr>mf_data = [10, 20, 30], mf_pos = 0, mf_err = 0\<rparr>" and n = 0
      and rf = "(RawFileIO_new [97])\<lparr>rf_fd := 3, rf_canWrite := True\<rparr>" and e = 0]
  by (auto simp: mem_win32_def win32_error_to_errno_def)

end
