(* ===== verification/Callbacks.thy ===== *)
theory Callbacks
  imports Rename CompatWin
begin

text \<open>
  The functions of \<open>encfs/encfs.cpp\<close> that FUSE calls.  Each gets the mounted root from the
  context, works on a path of the disk or on a node, and turns exceptions into error codes.
  A callback is one step here; the objects it creates die with it unless a handle keeps them.
\<close>

subsection \<open>The surroundings\<close>

text \<open>
  What the callbacks use besides the volume: the calls on the disk, how the volume is mounted
  again (\<open>initFS\<close>), and the option \<open>publicFilesystem\<close>.  \<open>e_depth\<close> bounds the depth of
  directories a renaming goes down.  The last five are calls of Windows.
\<close>

record ('o, 'k) surroundings =
  e_disk :: "'o unixdir"
  e_initFS :: "'o \<Rightarrow> (nat, 'k dirnode) EncFS_Context \<Rightarrow> 'k dirnode option"
  e_public :: bool
  e_depth :: nat
  e_dup :: "int \<Rightarrow> 'o \<Rightarrow> int \<times> 'o"
  e_utime :: "bytes \<Rightarrow> int \<times> int \<Rightarrow> 'o \<Rightarrow> int \<times> 'o"
  e_utimes :: "bytes \<Rightarrow> (int \<times> int) \<times> (int \<times> int) \<Rightarrow> 'o \<Rightarrow> int \<times> 'o"
  e_statvfs :: "bytes \<Rightarrow> 'o \<Rightarrow> (int \<times> statvfs) \<times> 'o"
  e_lastError :: "'o \<Rightarrow> int"
  e_getAttributes :: "wchars \<Rightarrow> 'o \<Rightarrow> u32 \<times> 'o"
  e_setAttributes :: "wchars \<Rightarrow> u32 \<Rightarrow> 'o \<Rightarrow> bool \<times> 'o"
  e_openAttributes :: "wchars \<Rightarrow> 'o \<Rightarrow> handle \<times> 'o"
  e_closeHandle :: "handle \<Rightarrow> 'o \<Rightarrow> unit \<times> 'o"
  e_setTimes :: "int + handle \<Rightarrow> filetime option \<times> filetime option \<times> filetime option \<Rightarrow> 'o \<Rightarrow> bool \<times> 'o"

type_synonym ('o, 'k, 'a) cb = "('o, 'k dirnode, 'a) vm"

text \<open>The root, or the error code of mounting it.\<close>

definition cb_root :: "('o, 'k) surroundings \<Rightarrow> ('o, 'k, int + 'k dirnode) cb" where
  "cb_root env = (\<lambda>v.
     case getRoot (remountFS (e_initFS env (v_os v)) rootDirectory) (v_ctx v) of
       None \<Rightarrow> (Inl Diverges, v)
     | Some (r, c) \<Rightarrow> (Inr r, v\<lparr>v_ctx := c\<rparr>))"

text \<open>
  The pattern of the callbacks: without a root the code of \<open>getRoot\<close> is the result, and an
  exception gives \<open>-EIO\<close>.  \<open>err\<close> makes the result of a code.
\<close>

definition with_root ::
  "('o, 'k) surroundings \<Rightarrow> (int \<Rightarrow> 'a) \<Rightarrow> ('k dirnode \<Rightarrow> ('o, 'k, 'a) cb) \<Rightarrow> ('o, 'k, 'a) cb" where
  "with_root env err f = sbind (cb_root env) (\<lambda>r. case r of Inl res \<Rightarrow> sret (err res) | Inr dn \<Rightarrow> f dn)"

definition caught :: "(int \<Rightarrow> 'a) \<Rightarrow> ('o, 'k, 'a) cb \<Rightarrow> ('o, 'k, 'a) cb" where
  "caught err m = scatch m (sret (err (- EIO)))"

definition withCipherPath ::
  "('o, 'k) surroundings \<Rightarrow> bytes \<Rightarrow> (bytes \<Rightarrow> ('o, 'k, int) cb) \<Rightarrow> bool \<Rightarrow> ('o, 'k, int) cb" where
  "withCipherPath env path op passReturnCode =
     with_root env id (\<lambda>dn. caught id
       (sbind (sres (cipherPath dn path)) (\<lambda>cyName.
        sbind (op cyName) (\<lambda>res.
        sbind (errno (e_disk env)) (\<lambda>eno.
        sret (if res = -1 then - eno else if \<not> passReturnCode then 0 else res))))))"

text \<open>The node of a handle; an address that is no handle does not occur (\<open>volume_consistent\<close>).\<close>

definition node_of :: "('o, 'k) surroundings \<Rightarrow> 'k dirnode \<Rightarrow> bytes \<Rightarrow> nat option \<Rightarrow> ('o, 'k, nat) cb" where
  "node_of env dn path fi =
     (case fi of
        Some fh \<Rightarrow> sbind (sget (\<lambda>v. getNode fh (v_ctx v))) (\<lambda>n.
          case n of None \<Rightarrow> sthrow AssertFailed | Some i \<Rightarrow> sret i)
      | None \<Rightarrow> lookupNode dn (e_disk env) path)"

definition withFileNode ::
  "('o, 'k) surroundings \<Rightarrow> (int \<Rightarrow> 'a) \<Rightarrow> bytes \<Rightarrow> nat option \<Rightarrow> ('k FSConfig \<Rightarrow> ('o, 'a) fm) \<Rightarrow> ('o, 'k, 'a) cb" where
  "withFileNode env err path fi op =
     with_root env err (\<lambda>dn. caught err
       (sbind (node_of env dn path fi) (\<lambda>i.
        sfinally (onNode i (op (dn_cfg dn))) (dropNode (e_disk env) i))))"

subsection \<open>Attributes and directories\<close>

definition no_stat :: "int \<Rightarrow> int \<times> stat" where
  "no_stat res = (res, \<lparr>st_mode = 0, st_size = 0\<rparr>)"

definition encfs_getattr :: "('o, 'k) surroundings \<Rightarrow> bytes \<Rightarrow> ('o, 'k, int \<times> stat) cb" where
  "encfs_getattr env path =
     withFileNode env no_stat path None (\<lambda>cfg. node_getAttr cfg (ud_file (e_disk env)))"

definition encfs_fgetattr :: "('o, 'k) surroundings \<Rightarrow> bytes \<Rightarrow> nat \<Rightarrow> ('o, 'k, int \<times> stat) cb" where
  "encfs_fgetattr env path fh =
     withFileNode env no_stat path (Some fh) (\<lambda>cfg. node_getAttr cfg (ud_file (e_disk env)))"

text \<open>
  The entries are given to \<open>filler\<close>, with file type 0, until there are none, a name is empty
  or \<open>filler\<close> stops; \<open>'h\<close> is the buffer of FUSE.
\<close>

lemma nextName_shorter:
  "nextName n iv de = (r, de') \<Longrightarrow> fst r \<noteq> [] \<Longrightarrow> length de' < length de"
  by (induction n iv de rule: nextName.induct) (auto split: sum.splits prod.splits)

type_synonym 'h filler = "bytes \<Rightarrow> int \<Rightarrow> int \<Rightarrow> 'h \<Rightarrow> int \<times> 'h"

function fill_dir :: "'h filler \<Rightarrow> traverse \<Rightarrow> int \<Rightarrow> 'h \<Rightarrow> int \<times> 'h" where
  "fill_dir filler dt res h =
     (case nextPlaintextName dt of ((name, inode), dt') \<Rightarrow>
      if name = [] then (res, h)
      else (case filler name 0 inode h of (res, h) \<Rightarrow>
            if res \<noteq> 0 then (res, h) else fill_dir filler dt' res h))"
  by pat_completeness auto
termination by (relation "measure (\<lambda>(f, dt, r, h). case dt_dir dt of None \<Rightarrow> 0 | Some de \<Rightarrow> length de)")
    (auto simp: nextPlaintextName_def dest: nextName_shorter split: prod.splits option.splits)

declare fill_dir.simps [simp del]

definition encfs_getdir :: "('o, 'k) surroundings \<Rightarrow> bytes \<Rightarrow> 'h \<Rightarrow> 'h filler \<Rightarrow> ('o, 'k, int \<times> 'h) cb" where
  "encfs_getdir env path h filler =
     with_root env (\<lambda>res. (res, h)) (\<lambda>dn. caught (\<lambda>res. (res, h))
       (sbind (openDir dn (e_disk env) path) (\<lambda>dt.
        sret (if dt_valid dt then fill_dir filler dt 0 h else (0, h)))))"

subsection \<open>Making and removing\<close>

text \<open>The owner of the new file is not used on Windows.\<close>

definition mknod_in_group ::
  "('o, 'k) surroundings \<Rightarrow> 'k dirnode \<Rightarrow> nat \<Rightarrow> u32 \<Rightarrow> int \<Rightarrow> ('o, 'k, int) cb" where
  "mknod_in_group env dn i mode res =
     sbind (sget (\<lambda>v. case map_of (v_nodes v) i of None \<Rightarrow> [] | Some fn \<Rightarrow> plaintextParent fn)) (\<lambda>parent.
     sbind (lookupNode dn (e_disk env) parent) (\<lambda>j.
     sfinally
       (sbind (onNode j (node_getAttr (dn_cfg dn) (ud_file (e_disk env)))) (\<lambda>(r, st).
        if r = 0 then onNode i (node_mknod (ud_file (e_disk env)) mode) else sret res))
       (dropNode (e_disk env) j)))"

definition encfs_mknod :: "('o, 'k) surroundings \<Rightarrow> bytes \<Rightarrow> u32 \<Rightarrow> ('o, 'k, int) cb" where
  "encfs_mknod env path mode =
     with_root env id (\<lambda>dn. caught id
       (sbind (lookupNode dn (e_disk env) path) (\<lambda>i.
        sfinally
          (sbind (onNode i (node_mknod (ud_file (e_disk env)) mode)) (\<lambda>res.
           if e_public env \<and> - res = EACCES
           then scatch (mknod_in_group env dn i mode res) (sret res) else sret res))
          (dropNode (e_disk env) i))))"

definition encfs_mkdir :: "('o, 'k) surroundings \<Rightarrow> bytes \<Rightarrow> u32 \<Rightarrow> ('o, 'k, int) cb" where
  "encfs_mkdir env path mode =
     with_root env id (\<lambda>dn. caught id
       (sbind (DirNode_mkdir dn (e_disk env) path mode) (\<lambda>res.
        if e_public env \<and> - res = EACCES
        then scatch
               (sbind (lookupNode dn (e_disk env) (parentDirectory path)) (\<lambda>j.
                sfinally
                  (sbind (onNode j (node_getAttr (dn_cfg dn) (ud_file (e_disk env)))) (\<lambda>(r, st).
                   if r = 0 then DirNode_mkdir dn (e_disk env) path mode else sret res))
                  (dropNode (e_disk env) j)))
               (sret res)
        else sret res)))"

definition encfs_unlink :: "('o, 'k) surroundings \<Rightarrow> bytes \<Rightarrow> ('o, 'k, int) cb" where
  "encfs_unlink env path = with_root env id (\<lambda>dn. caught id (DirNode_unlink dn (e_disk env) path))"

definition encfs_rmdir :: "('o, 'k) surroundings \<Rightarrow> bytes \<Rightarrow> ('o, 'k, int) cb" where
  "encfs_rmdir env path = withCipherPath env path (\<lambda>cy. vos (ud_rmdir (e_disk env) cy)) False"

text \<open>Reading a link is not done on Windows; the buffer is left as it is.\<close>

definition do_readlink :: "bytes \<Rightarrow> ('o, 'k, int) cb" where
  "do_readlink cyName = sret (- EINVAL)"

definition encfs_readlink :: "('o, 'k) surroundings \<Rightarrow> bytes \<Rightarrow> ('o, 'k, int) cb" where
  "encfs_readlink env path = withCipherPath env path do_readlink False"

definition encfs_symlink :: "bytes \<Rightarrow> bytes \<Rightarrow> ('o, 'k, int) cb" where
  "encfs_symlink from to = sret (- EIO)"

definition encfs_link :: "('o, 'k) surroundings \<Rightarrow> bytes \<Rightarrow> bytes \<Rightarrow> ('o, 'k, int) cb" where
  "encfs_link env from to = with_root env id (\<lambda>dn. caught id (DirNode_link dn from to))"

definition encfs_rename :: "('o, 'k) surroundings \<Rightarrow> bytes \<Rightarrow> bytes \<Rightarrow> ('o, 'k, int) cb" where
  "encfs_rename env from to =
     with_root env id (\<lambda>dn. caught id (DirNode_rename (e_depth env) dn (e_disk env) from to))"

definition encfs_chmod :: "('o, 'k) surroundings \<Rightarrow> bytes \<Rightarrow> u32 \<Rightarrow> ('o, 'k, int) cb" where
  "encfs_chmod env path mode =
     withCipherPath env path (\<lambda>cy. vos (ux_chmod (ud_file (e_disk env)) cy mode)) False"

definition encfs_chown :: "('o, 'k) surroundings \<Rightarrow> bytes \<Rightarrow> ('o, 'k, int) cb" where
  "encfs_chown env path = withCipherPath env path (\<lambda>cy. sret 0) False"

text \<open>The codes of these two are \<open>-errno\<close>, which is \<open>-1\<close> for \<open>EPERM\<close> only.\<close>

definition do_utime :: "('o, 'k) surroundings \<Rightarrow> int \<times> int \<Rightarrow> bytes \<Rightarrow> ('o, 'k, int) cb" where
  "do_utime env buf cyName =
     sbind (vos (e_utime env cyName buf)) (\<lambda>res.
     sbind (errno (e_disk env)) (\<lambda>eno. sret (if res = -1 then - eno else 0)))"

definition encfs_utime :: "('o, 'k) surroundings \<Rightarrow> bytes \<Rightarrow> int \<times> int \<Rightarrow> ('o, 'k, int) cb" where
  "encfs_utime env path buf = withCipherPath env path (do_utime env buf) False"

definition do_utimens :: "('o, 'k) surroundings \<Rightarrow> (int \<times> int) \<times> (int \<times> int) \<Rightarrow> bytes \<Rightarrow> ('o, 'k, int) cb" where
  "do_utimens env ts cyName =
     (let tv = (\<lambda>(tv_sec, tv_nsec). (tv_sec, cdiv tv_nsec 1000)) in
      sbind (vos (e_utimes env cyName (tv (fst ts), tv (snd ts)))) (\<lambda>res.
      sbind (errno (e_disk env)) (\<lambda>eno. sret (if res = -1 then - eno else 0))))"

definition encfs_utimens :: "('o, 'k) surroundings \<Rightarrow> bytes \<Rightarrow> (int \<times> int) \<times> (int \<times> int) \<Rightarrow> ('o, 'k, int) cb" where
  "encfs_utimens env path ts = withCipherPath env path (do_utimens env ts) False"

subsection \<open>Files\<close>

definition encfs_truncate :: "('o, 'k) surroundings \<Rightarrow> bytes \<Rightarrow> nat \<Rightarrow> ('o, 'k, int) cb" where
  "encfs_truncate env path sz =
     withFileNode env id path None (\<lambda>cfg. node_truncate cfg (ud_file (e_disk env)) sz)"

definition encfs_ftruncate :: "('o, 'k) surroundings \<Rightarrow> bytes \<Rightarrow> nat \<Rightarrow> nat \<Rightarrow> ('o, 'k, int) cb" where
  "encfs_ftruncate env path sz fh =
     withFileNode env id path (Some fh) (\<lambda>cfg. node_truncate cfg (ud_file (e_disk env)) sz)"

text \<open>A new handle is put for the node; its address is one that was never used.\<close>

definition put_handle :: "bytes \<Rightarrow> nat \<Rightarrow> ('o, 'k, nat) cb" where
  "put_handle path i = (\<lambda>v.
     (Inr (v_next v), v\<lparr>v_ctx := putNode path i (v_next v) (v_ctx v), v_next := v_next v + 1\<rparr>))"

definition encfs_open :: "('o, 'k) surroundings \<Rightarrow> bytes \<Rightarrow> int \<Rightarrow> ('o, 'k, int \<times> nat option) cb" where
  "encfs_open env path flags =
     with_root env (\<lambda>res. (res, None)) (\<lambda>dn. caught (\<lambda>res. (res, None))
       (sbind (openNode dn (e_disk env) path flags) (\<lambda>(node, res).
        case node of
          None \<Rightarrow> sret (res, None)
        | Some i \<Rightarrow>
            if res \<ge> 0 then sbind (put_handle path i) (\<lambda>fh. sret (0, Some fh))
            else sbind (smod (dropNode (e_disk env) i)) (\<lambda>_. sret (res, None)))))"

definition do_flush :: "('o, 'k) surroundings \<Rightarrow> 'k FSConfig \<Rightarrow> ('o, int) fm" where
  "do_flush env cfg =
     sbind (node_open cfg (ud_file (e_disk env)) O_RDONLY) (\<lambda>res.
     if res \<ge> 0
     then sbind (onOS (e_dup env res)) (\<lambda>d.
          sbind (onOS (ux_close (ud_file (e_disk env)) d)) (\<lambda>res.
          sbind (sget (ux_errno (ud_file (e_disk env)) \<circ> snd)) (\<lambda>eno.
          sret (if res = -1 then - eno else res))))
     else sret res)"

definition encfs_flush :: "('o, 'k) surroundings \<Rightarrow> bytes \<Rightarrow> nat \<Rightarrow> ('o, 'k, int) cb" where
  "encfs_flush env path fh = withFileNode env id path (Some fh) (do_flush env)"

text \<open>The node goes with its last handle.\<close>

definition encfs_release :: "('o, 'k) surroundings \<Rightarrow> bytes \<Rightarrow> nat \<Rightarrow> ('o, 'k, int) cb" where
  "encfs_release env path fh = (\<lambda>v.
     case eraseNode path fh (v_ctx v) of
       (Inl e, c) \<Rightarrow> (Inr (- EIO), v\<lparr>v_ctx := c\<rparr>)
     | (Inr _, c) \<Rightarrow>
         (Inr 0, case getNode fh (v_ctx v) of
            None \<Rightarrow> v\<lparr>v_ctx := c\<rparr>
          | Some i \<Rightarrow> dropNode (e_disk env) i (v\<lparr>v_ctx := c\<rparr>)))"

text \<open>A negative count of the file layer is always \<open>-1\<close>.\<close>

definition do_read :: "('o, 'k) surroundings \<Rightarrow> nat \<Rightarrow> nat \<Rightarrow> 'k FSConfig \<Rightarrow> ('o, int \<times> bytes) fm" where
  "do_read env n off cfg =
     sbind (node_read cfg (ud_file (e_disk env)) off n) (\<lambda>r.
     sret (case r of None \<Rightarrow> (-1, []) | Some d \<Rightarrow> (int (length d), d)))"

definition encfs_read :: "('o, 'k) surroundings \<Rightarrow> bytes \<Rightarrow> nat \<Rightarrow> nat \<Rightarrow> nat \<Rightarrow> ('o, 'k, int \<times> bytes) cb" where
  "encfs_read env path n off fh =
     withFileNode env (\<lambda>res. (res, [])) path (Some fh) (do_read env n off)"

definition encfs_fsync :: "('o, 'k) surroundings \<Rightarrow> bytes \<Rightarrow> nat \<Rightarrow> ('o, 'k, int) cb" where
  "encfs_fsync env path fh =
     withFileNode env id path (Some fh) (\<lambda>cfg. node_sync cfg (ud_file (e_disk env)))"

definition do_write :: "('o, 'k) surroundings \<Rightarrow> bytes \<Rightarrow> nat \<Rightarrow> 'k FSConfig \<Rightarrow> ('o, int) fm" where
  "do_write env d off cfg =
     sbind (node_write cfg (ud_file (e_disk env)) off d) (\<lambda>ok.
     sret (if ok then int (length d) else - EIO))"

definition encfs_write :: "('o, 'k) surroundings \<Rightarrow> bytes \<Rightarrow> bytes \<Rightarrow> nat \<Rightarrow> nat \<Rightarrow> ('o, 'k, int) cb" where
  "encfs_write env path d off fh = withFileNode env id path (Some fh) (do_write env d off)"

text \<open>The volume need not be mounted; the longest plain name is approximated.\<close>

definition encfs_statfs :: "('o, 'k) surroundings \<Rightarrow> ('o, 'k, int \<times> statvfs) cb" where
  "encfs_statfs env =
     sbind (sget (cx_rootCipherDir \<circ> v_ctx)) (\<lambda>cyName.
     sbind (vos (e_statvfs env cyName)) (\<lambda>(res, st).
     sbind (errno (e_disk env)) (\<lambda>eno.
     let st = (if res = 0 then st\<lparr>f_namemax := 6 * (f_namemax st - 2) div 8\<rparr> else st) in
     sret (if res = -1 then - eno else res, st))))"

subsection \<open>The callbacks of Windows\<close>

text \<open>The first two have no handler for exceptions, nor has the third for a path.\<close>

definition encfs_win_get_attributes :: "('o, 'k) surroundings \<Rightarrow> bytes \<Rightarrow> ('o, 'k, u32) cb" where
  "encfs_win_get_attributes env fn =
     with_root env word_of_int (\<lambda>dn.
       sbind (sres (cipherPath dn fn)) (\<lambda>c. vos (e_getAttributes env (utf8_to_wfn c))))"

text \<open>Zero, or the error of Windows.\<close>

definition win_code :: "('o, 'k) surroundings \<Rightarrow> bool \<Rightarrow> ('o, 'k, int) cb" where
  "win_code env ok = sget (\<lambda>v. if ok then 0 else - win32_error_to_errno (e_lastError env (v_os v)))"

definition encfs_win_set_attributes :: "('o, 'k) surroundings \<Rightarrow> bytes \<Rightarrow> u32 \<Rightarrow> ('o, 'k, int) cb" where
  "encfs_win_set_attributes env fn attr =
     with_root env id (\<lambda>dn.
       sbind (sres (cipherPath dn fn)) (\<lambda>c.
       sbind (vos (e_setAttributes env (utf8_to_wfn c) attr)) (win_code env)))"

definition do_win_set_times ::
  "('o, 'k) surroundings \<Rightarrow> filetime option \<times> filetime option \<times> filetime option \<Rightarrow> 'k FSConfig \<Rightarrow> ('o, int) fm" where
  "do_win_set_times env t cfg =
     sbind (node_open cfg (ud_file (e_disk env)) O_RDONLY) (\<lambda>res.
     if res \<ge> 0
     then sbind (onOS (e_setTimes env (Inl res) t)) (\<lambda>ok.
          sbind (sget (e_lastError env \<circ> snd)) (\<lambda>e. sret (if ok then 0 else - win32_error_to_errno e)))
     else sret res)"

definition encfs_win_set_times ::
  "('o, 'k) surroundings \<Rightarrow> bytes \<Rightarrow> nat option \<Rightarrow> filetime option \<times> filetime option \<times> filetime option
     \<Rightarrow> ('o, 'k, int) cb" where
  "encfs_win_set_times env path fi t =
     (if fi = None \<or> fi = Some 0
      then with_root env id (\<lambda>dn.
             sbind (sres (cipherPath dn path)) (\<lambda>c.
             sbind (vos (e_openAttributes env (utf8_to_wfn c))) (\<lambda>f.
             if f = None then win_code env False
             else sbind (vos (e_setTimes env (Inr f) t)) (\<lambda>ok.
                  sbind (win_code env ok) (\<lambda>res.
                  sbind (vos (e_closeHandle env f)) (\<lambda>_. sret res))))))
      else withFileNode env id path fi (do_win_set_times env t))"

end
