(* ===== verification/Volume.thy ===== *)
theory Volume
  imports Callbacks
begin

text \<open>
  The state of a mounted volume under the callbacks: which nodes and handles are alive, that
  no exception reaches FUSE, and what the callbacks make of a file.
\<close>

subsection \<open>Results and exceptions\<close>

text \<open>From \<open>P\<close>, a result comes with \<open>Q\<close> and an exception with \<open>E\<close>.\<close>

definition upholds :: "('s \<Rightarrow> bool) \<Rightarrow> ('s, 'a) sm \<Rightarrow> ('a \<Rightarrow> 's \<Rightarrow> bool) \<Rightarrow> ('s \<Rightarrow> bool) \<Rightarrow> bool" where
  "upholds P m Q E \<longleftrightarrow> (\<forall>s. P s \<longrightarrow> (case m s of (Inl e, s') \<Rightarrow> E s' | (Inr x, s') \<Rightarrow> Q x s'))"

named_theorems up

lemma upholdsI:
  "(\<And>s x s'. P s \<Longrightarrow> m s = (Inr x, s') \<Longrightarrow> Q x s') \<Longrightarrow> (\<And>s e s'. P s \<Longrightarrow> m s = (Inl e, s') \<Longrightarrow> E s') \<Longrightarrow>
     upholds P m Q E"
  by (auto simp: upholds_def split: sum.splits prod.splits)

lemma upholdsR: "upholds P m Q E \<Longrightarrow> P s \<Longrightarrow> m s = (Inr x, s') \<Longrightarrow> Q x s'"
  by (auto simp: upholds_def split: sum.splits prod.splits)

lemma upholdsE: "upholds P m Q E \<Longrightarrow> P s \<Longrightarrow> m s = (Inl e, s') \<Longrightarrow> E s'"
  by (auto simp: upholds_def split: sum.splits prod.splits)

lemma upholds_keeps: "keeps P m \<Longrightarrow> upholds P m (\<lambda>_. P) P"
  by (rule upholdsI) (auto dest: keepsD)

lemma keeps_upholds: "upholds P m (\<lambda>_. P) P \<Longrightarrow> keeps P m"
  unfolding keeps_def
proof (intro allI impI)
  fix s assume u: "upholds P m (\<lambda>_. P) P" "P s"
  obtain r s' where m: "m s = (r, s')" by (cases "m s")
  then show "P (snd (m s))" using upholdsR [OF u] upholdsE [OF u] by (cases r) simp_all
qed

lemma upholds_mono:
  "upholds P m Q E \<Longrightarrow> (\<And>s. P' s \<Longrightarrow> P s) \<Longrightarrow> (\<And>x s. Q x s \<Longrightarrow> Q' x s) \<Longrightarrow> (\<And>s. E s \<Longrightarrow> E' s) \<Longrightarrow> upholds P' m Q' E'"
  by (rule upholdsI) (blast dest: upholdsR upholdsE)+

lemma upholds_conj:
  "upholds P m Q E \<Longrightarrow> upholds P' m Q' E' \<Longrightarrow>
     upholds (\<lambda>s. P s \<and> P' s) m (\<lambda>x s. Q x s \<and> Q' x s) (\<lambda>s. E s \<and> E' s)"
  by (rule upholdsI) (blast dest: upholdsR upholdsE)+

lemma upholds_sbind [up]:
  assumes "upholds P m R E" and "\<And>x. upholds (R x) (f x) Q E"
  shows "upholds P (sbind m f) Q E"
proof (rule upholdsI)
  fix s x s'
  assume s: "P s" "sbind m f s = (Inr x, s')"
  obtain y s1 where "m s = (Inr y, s1)" "f y s1 = (Inr x, s')"
    using s(2) by (auto simp: sbind_def split: sum.splits prod.splits)
  then show "Q x s'" using upholdsR [OF assms(2)] upholdsR [OF assms(1) s(1)] by blast
next
  fix s e s'
  assume s: "P s" "sbind m f s = (Inl e, s')"
  then consider "m s = (Inl e, s')" | y s1 where "m s = (Inr y, s1)" "f y s1 = (Inl e, s')"
    by (auto simp: sbind_def split: sum.splits prod.splits)
  then show "E s'"
  proof cases
    case 1
    then show ?thesis by (rule upholdsE [OF assms(1) s(1)])
  next
    case 2
    then show ?thesis using upholdsE [OF assms(2)] upholdsR [OF assms(1) s(1)] by blast
  qed
qed

lemma upholds_sret [up]: "(\<And>s. P s \<Longrightarrow> Q x s) \<Longrightarrow> upholds P (sret x) Q E"
  by (simp add: upholds_def sret_def)

lemma upholds_sres [up]: "(\<And>s x. P s \<Longrightarrow> Q x s) \<Longrightarrow> (\<And>s. P s \<Longrightarrow> E s) \<Longrightarrow> upholds P (sres r) Q E"
  by (simp add: upholds_def sres_def split: sum.splits)

lemma upholds_sthrow [up]: "(\<And>s. P s \<Longrightarrow> E s) \<Longrightarrow> upholds P (sthrow e) Q E"
  by (simp add: upholds_def sthrow_def)

lemma upholds_sfinally [up]:
  "upholds P m (\<lambda>x s. Q x (f s)) (\<lambda>s. E (f s)) \<Longrightarrow> upholds P (sfinally m f) Q E"
  by (fastforce simp: upholds_def sfinally_def split: sum.splits prod.splits)

lemma upholds_sunwind [up]:
  "upholds P m Q (\<lambda>s. E (f s)) \<Longrightarrow> upholds P (sunwind m f) Q E"
  by (fastforce simp: upholds_def sunwind_def split: sum.splits prod.splits)

lemma upholds_scatch [up]:
  assumes "upholds P m Q R" and "upholds R h Q E" and "\<And>s. R s \<Longrightarrow> E s"
  shows "upholds P (scatch m h) Q E"
proof (rule upholdsI)
  fix s x s'
  assume s: "P s" "scatch m h s = (Inr x, s')"
  then consider "m s = (Inr x, s')" | e s1 where "m s = (Inl e, s1)" "h s1 = (Inr x, s')"
    by (auto simp: scatch_def split: sum.splits prod.splits if_splits)
  then show "Q x s'"
    by cases (use upholdsR [OF assms(1) s(1)] upholdsE [OF assms(1) s(1)] upholdsR [OF assms(2)] in blast)+
next
  fix s e s'
  assume s: "P s" "scatch m h s = (Inl e, s')"
  then consider "m s = (Inl e, s')" | e1 s1 where "m s = (Inl e1, s1)" "h s1 = (Inl e, s')"
    by (auto simp: scatch_def split: sum.splits prod.splits if_splits)
  then show "E s'"
    by cases (use upholdsE [OF assms(1) s(1)] upholdsE [OF assms(2)] assms(3) in blast)+
qed

lemma upholds_if [up]:
  "(b \<Longrightarrow> upholds P m Q E) \<Longrightarrow> (\<not> b \<Longrightarrow> upholds P n Q E) \<Longrightarrow> upholds P (if b then m else n) Q E"
  by simp

lemma keeps_disj: "keeps P m \<Longrightarrow> keeps Q m \<Longrightarrow> keeps (\<lambda>s. P s \<or> Q s) m"
  unfolding keeps_def by blast

subsection \<open>What is alive\<close>

text \<open>
  \<open>vinv H L\<close>: the nodes that handles point to are \<open>H\<close>, the nodes alive are these and the local
  ones \<open>L\<close>; no address is used twice, and the table of open files is in order.
\<close>

definition held :: "('o, 'r) volume \<Rightarrow> nat set" where
  "held v = snd ` set (cx_holders (v_ctx v))"

definition alive :: "('o, 'r) volume \<Rightarrow> nat set" where
  "alive v = fst ` set (v_nodes v)"

text \<open>The mounted root looks its nodes up in the context.\<close>

definition root_ok :: "(nat, 'k dirnode) EncFS_Context \<Rightarrow> bool" where
  "root_ok c \<longleftrightarrow> (\<forall>dn. cx_root c = Some dn \<longrightarrow> dn_ctx dn)"

definition vol_base :: "('o, 'k dirnode) volume \<Rightarrow> bool" where
  "vol_base v \<longleftrightarrow>
     ctx_wf (v_ctx v) \<and> ctx_shared (v_ctx v) \<and> root_ok (v_ctx v) \<and> distinct (map fst (v_nodes v)) \<and>
     (\<forall>i \<in> alive v. i < v_next v) \<and> (\<forall>fh \<in> fst ` set (cx_holders (v_ctx v)). fh < v_next v)"

definition vinv :: "nat set \<Rightarrow> nat set \<Rightarrow> ('o, 'k dirnode) volume \<Rightarrow> bool" where
  "vinv H L v \<longleftrightarrow> vol_base v \<and> held v = H \<and> alive v = H \<union> L"

definition vol_ok :: "('o, 'k dirnode) volume \<Rightarrow> bool" where
  "vol_ok v \<longleftrightarrow> vol_base v \<and> alive v = held v"

lemma vol_ok_vinv: "vol_ok v \<longleftrightarrow> vinv (held v) {} v"
  by (simp add: vol_ok_def vinv_def)

lemma vinvI:
  assumes "ctx_wf (v_ctx v)" "ctx_shared (v_ctx v)" "root_ok (v_ctx v)" "distinct (map fst (v_nodes v))" "held v = H"
    and "alive v = H \<union> L" and "\<And>i. i \<in> H \<union> L \<Longrightarrow> i < v_next v" "\<And>fh. fh \<in> fst ` set (cx_holders (v_ctx v)) \<Longrightarrow> fh < v_next v"
  shows "vinv H L v"
  using assms unfolding vinv_def vol_base_def by blast

lemma vinvD:
  assumes "vinv H L v"
  shows "ctx_wf (v_ctx v)" "ctx_shared (v_ctx v)" "root_ok (v_ctx v)" "distinct (map fst (v_nodes v))" "held v = H"
    and "alive v = H \<union> L" and "i \<in> H \<union> L \<Longrightarrow> i < v_next v" "fh \<in> fst ` set (cx_holders (v_ctx v)) \<Longrightarrow> fh < v_next v"
  using assms unfolding vinv_def vol_base_def by blast+

lemma vinv_os [simp]: "vinv H L (v\<lparr>v_os := w\<rparr>) = vinv H L v"
  by (simp add: vinv_def vol_base_def held_def alive_def)

lemma keys_update: "map_of xs k = Some z \<Longrightarrow> map fst (AList.update k y xs) = map fst xs"
  by (metis map_of_eq_None_iff option.distinct(1) set_map update_keys)

lemma vinv_node [simp]:
  assumes "map_of (v_nodes v) i = Some fn"
  shows "vinv H L (v\<lparr>v_nodes := AList.update i fn' (v_nodes v)\<rparr>) = vinv H L v"
proof -
  have k: "map fst (AList.update i fn' (v_nodes v)) = map fst (v_nodes v)" by (rule keys_update [OF assms])
  then have "fst ` set (AList.update i fn' (v_nodes v)) = fst ` set (v_nodes v)" by (metis set_map)
  then show ?thesis by (simp add: vinv_def vol_base_def held_def alive_def k)
qed

subsection \<open>The calls below the callbacks\<close>

lemma vinv_vos: "keeps (vinv H L) (vos f)"
  by (simp add: keeps_def vos_def split: prod.splits)

lemma vinv_onNode: "keeps (vinv H L) (onNode i m)"
  by (auto simp: keeps_def onNode_def split: option.splits prod.splits)

lemma vinv_newNode:
  "upholds (vinv H L) (newNode fn) (\<lambda>i v. vinv H (insert i L) v \<and> i \<notin> H \<union> L) (vinv H L)"
proof (rule upholdsI)
  fix v i v' assume v: "vinv H L v" "newNode fn v = (Inr i, v')"
  have f: "v_ctx v' = v_ctx v" "alive v' = insert i (alive v)" "held v' = held v" "v_next v' = v_next v + 1"
      "map fst (v_nodes v') = i # map fst (v_nodes v)" "i = v_next v"
    using v(2) by (auto simp: newNode_def alive_def held_def)
  note d = vinvD [OF v(1)]
  have i: "i \<notin> H \<union> L" using d(7) [of i] f(6) by blast
  have "i \<notin> set (map fst (v_nodes v))" using i d(6) by (simp add: alive_def)
  then have "vinv H (insert i L) v'"
    by (intro vinvI) (use d f in \<open>auto simp: less_SucI\<close>)
  then show "vinv H (insert i L) v' \<and> i \<notin> H \<union> L" using i by simp
qed (simp add: newNode_def)

text \<open>The node may be gone already.\<close>

lemma vinv_drop:
  assumes "vinv H (insert i L) v \<or> vinv H L v" and "i \<in> H \<or> i \<notin> L"
  shows "vinv H L (dropNode u i v)"
proof (cases "i \<in> H")
  case True
  then have "vinv H (insert i L) v = vinv H L v" by (auto simp: vinv_def)
  moreover have "dropNode u i v = v" using True assms(1) by (auto simp: dropNode_def vinv_def held_def)
  ultimately show ?thesis using assms(1) by simp
next
  case False
  have h: "held v = H" using assms(1) by (auto simp: vinv_def)
  show ?thesis
  proof (cases "map_of (v_nodes v) i")
    case None
    then have "i \<notin> alive v" by (simp add: alive_def map_of_eq_None_iff)
    then have "vinv H L v" using assms False by (auto simp: vinv_def)
    then show ?thesis using None h False by (simp add: dropNode_def held_def)
  next
    case (Some fn)
    then have i: "i \<in> alive v" by (force simp: alive_def dest: map_of_SomeD)
    then have v: "vinv H (insert i L) v" using assms False by (auto simp: vinv_def)
    have e: "dropNode u i v = v\<lparr>v_nodes := AList.delete i (v_nodes v), v_os := FileNode_destroy (ud_file u) fn (v_os v)\<rparr>"
      using Some h False by (simp add: dropNode_def held_def)
    have "alive (dropNode u i v) = alive v - {i}" by (auto simp: e alive_def AList.delete_eq)
    then have "alive (dropNode u i v) = H \<union> L" using vinvD(6) [OF v] False assms(2) by auto
    then show ?thesis
      by (intro vinvI) (use vinvD [OF v] in \<open>auto simp: e held_def distinct_delete\<close>)
  qed
qed

lemma lookup_held: "ctx_lookupNode p (v_ctx v) = Some i \<Longrightarrow> i \<in> held v"
  by (force simp: ctx_lookupNode_def getNode_def held_def dest: map_of_SomeD split: option.splits)

lemma vinv_insert: "i \<in> H \<Longrightarrow> vinv H (insert i L) v = vinv H L v"
  by (auto simp: vinv_def)

lemma vinv_findOrCreate:
  "upholds (vinv H L) (findOrCreate dn u p) (\<lambda>i v. vinv H (insert i L) v \<and> (i \<in> H \<or> i \<notin> L)) (vinv H L)"
proof -
  have look: "upholds (vinv H L) (sget (\<lambda>v. if dn_ctx dn then ctx_lookupNode p (v_ctx v) else None))
      (\<lambda>n v. vinv H L v \<and> (\<forall>i. n = Some i \<longrightarrow> i \<in> H)) (vinv H L)"
    by (rule upholdsI) (auto simp: sget_def vinv_def dest: lookup_held split: if_splits)
  have create: "upholds (\<lambda>v. vinv H L v)
      (sbind (newNode fn) (\<lambda>i.
         if c_externalIVChaining (fs_config (dn_cfg dn))
         then sunwind (sbind (onNode i (setName (dn_cfg dn) (ud_file u) None None iv True)) (\<lambda>_. sret i))
                (dropNode u i)
         else sret i))
      (\<lambda>i v. vinv H (insert i L) v \<and> (i \<in> H \<or> i \<notin> L)) (vinv H L)" for fn iv
  proof (rule upholds_sbind [OF vinv_newNode])
    fix i
    show "upholds (\<lambda>v. vinv H (insert i L) v \<and> i \<notin> H \<union> L)
       (if c_externalIVChaining (fs_config (dn_cfg dn))
        then sunwind (sbind (onNode i (setName (dn_cfg dn) (ud_file u) None None iv True)) (\<lambda>_. sret i))
               (dropNode u i)
        else sret i)
       (\<lambda>i v. vinv H (insert i L) v \<and> (i \<in> H \<or> i \<notin> L)) (vinv H L)"
    proof (cases "i \<in> H \<union> L")
      case False
      show ?thesis
        by (intro up upholds_mono [OF upholds_keeps [OF vinv_onNode [of H "insert i L"]]])
           (use False in \<open>auto intro: vinv_drop\<close>)
    qed (simp add: upholds_def)
  qed
  show ?thesis
    unfolding findOrCreate_def
  proof (rule upholds_sbind [OF look])
    fix n
    show "upholds (\<lambda>v. vinv H L v \<and> (\<forall>i. n = Some i \<longrightarrow> i \<in> H))
      (case n of
         Some i \<Rightarrow> sret i
       | None \<Rightarrow>
           sbind (sres (encodePath_iv (naming dn) p 0)) (\<lambda>(cipherName, iv).
           sbind (sres (FileNode_new (dn_cfg dn) p (dn_rootDir dn @ cipherName))) (\<lambda>fn.
           sbind (newNode fn) (\<lambda>i.
           if c_externalIVChaining (fs_config (dn_cfg dn))
           then sunwind (sbind (onNode i (setName (dn_cfg dn) (ud_file u) None None iv True)) (\<lambda>_. sret i))
                  (dropNode u i)
           else sret i))))
      (\<lambda>i v. vinv H (insert i L) v \<and> (i \<in> H \<or> i \<notin> L)) (vinv H L)"
    proof (cases n)
      case None
      show ?thesis
        unfolding None option.case
        by (rule upholds_sbind [where R = "\<lambda>_. vinv H L"], rule upholds_sres, simp, simp, simp only: split_beta,
            rule upholds_sbind [where R = "\<lambda>_. vinv H L"], rule upholds_sres, simp, simp, rule create)
    next
      case (Some i)
      then show ?thesis by (auto simp: vinv_insert intro: upholds_sret)
    qed
  qed
qed

lemma holders_rename [simp]: "cx_holders (ctx_renameNode a b c) = cx_holders c"
  by (simp add: ctx_renameNode_def split: option.splits)

lemma root_rename [simp]: "root_ok (ctx_renameNode a b c) = root_ok c"
  by (simp add: root_ok_def ctx_renameNode_def split: option.splits)

lemma vinv_smod_rename: "keeps (vinv H L) (smod (\<lambda>v. v\<lparr>v_ctx := ctx_renameNode a b (v_ctx v)\<rparr>))"
proof (unfold keeps_def smod_def snd_conv, intro allI impI)
  fix v assume v: "vinv H L v"
  show "vinv H L (v\<lparr>v_ctx := ctx_renameNode a b (v_ctx v)\<rparr>)"
    by (rule vinvI) (use vinvD [OF v] in \<open>auto simp: wf_rename shared_rename held_def alive_def\<close>)
qed

lemma vinv_renameNode: "keeps (vinv H L) (renameNode dn u a b fwd)"
proof (rule keeps_upholds, unfold renameNode_def, rule upholds_sbind [OF vinv_findOrCreate])
  fix i
  have k: "keeps (vinv H (insert i L))
      (sbind (sres (encodePath_iv (naming dn) b 0)) (\<lambda>(c, newIV).
        sbind (onNode i (setName (dn_cfg dn) (ud_file u) (Some b) (Some (dn_rootDir dn @ c)) newIV fwd)) (\<lambda>ok.
        if ok
        then (if dn_ctx dn then smod (\<lambda>v. v\<lparr>v_ctx := ctx_renameNode a b (v_ctx v)\<rparr>) else sret ())
        else sthrow NameChangeFailed)))"
    by (intro keep vinv_onNode vinv_smod_rename)
  show "upholds (\<lambda>v. vinv H (insert i L) v \<and> (i \<in> H \<or> i \<notin> L))
     (sfinally
       (sbind (sres (encodePath_iv (naming dn) b 0)) (\<lambda>(c, newIV).
        sbind (onNode i (setName (dn_cfg dn) (ud_file u) (Some b) (Some (dn_rootDir dn @ c)) newIV fwd)) (\<lambda>ok.
        if ok
        then (if dn_ctx dn then smod (\<lambda>v. v\<lparr>v_ctx := ctx_renameNode a b (v_ctx v)\<rparr>) else sret ())
        else sthrow NameChangeFailed)))
       (dropNode u i)) (\<lambda>_. vinv H L) (vinv H L)"
  proof (cases "i \<in> H \<or> i \<notin> L")
    case True
    show ?thesis
      by (rule upholds_sfinally, rule upholds_mono [OF upholds_keeps [OF k]]) (use True in \<open>auto intro: vinv_drop\<close>)
  qed (simp add: upholds_def)
qed

text \<open>Renaming keeps whatever calls on the disk and the renaming of one node keep.\<close>

lemma keeps_renameLoop_vos:
  assumes "\<And>a b l. keeps P (recurse a b l)" and "\<And>f :: 'o \<Rightarrow> bool \<times> 'o. keeps P (vos f)"
  shows "keeps P (renameLoop recurse dn u fromP toP fromIV toIV src de l)"
proof (induction de arbitrary: l)
  case (Cons e de)
  obtain d_name d_ino where e: "e = (d_name, d_ino)" by (cases e)
  show ?case
    unfolding e renameLoop.simps rename_entry_def Let_def
    by (cases "decodePath_iv (naming dn) d_name fromIV")
       (auto intro!: keep Cons.IH assms)
qed simp

lemma keeps_genRenameList_vos:
  assumes "\<And>f :: 'o \<Rightarrow> bool \<times> 'o. keeps P (vos f)" and "\<And>f :: 'o \<Rightarrow> (bytes \<times> int) list option \<times> 'o. keeps P (vos f)"
  shows "keeps P (genRenameList depth dn u a b l)"
proof (induction depth arbitrary: a b l)
  case (Suc depth)
  show ?case
    unfolding genRenameList.simps Let_def
    by (intro keep keeps_renameLoop_vos Suc.IH assms)
qed simp

lemma keeps_undo:
  assumes "\<And>f :: 'o \<Rightarrow> int \<times> 'o. keeps P (vos f)" and "\<And>a b fwd. keeps P (renameNode dn u a b fwd)"
  shows "keeps P (rename_undo dn u els n)"
proof -
  have "keeps P (undo_all dn u els)" for els
    by (induction els) (auto simp: undo_one_def intro!: keep assms)
  then show ?thesis by (simp add: rename_undo_def)
qed

lemma keeps_apply:
  assumes "\<And>f :: 'o \<Rightarrow> int \<times> 'o. keeps P (vos f)" and "\<And>f :: 'o \<Rightarrow> (int \<times> int \<times> int) \<times> 'o. keeps P (vos f)"
    and "\<And>a b fwd. keeps P (renameNode dn u a b fwd)"
  shows "keeps P (rename_apply dn u els)"
  by (induction els) (auto simp: apply_one_def intro!: keep assms)

lemma keeps_rename_both:
  assumes v: "\<And>f :: 'o \<Rightarrow> int \<times> 'o. keeps P (vos f)" "\<And>f :: 'o \<Rightarrow> (int \<times> int \<times> int) \<times> 'o. keeps P (vos f)"
      "\<And>f :: 'o \<Rightarrow> bool \<times> 'o. keeps P (vos f)" "\<And>f :: 'o \<Rightarrow> (bytes \<times> int) list option \<times> 'o. keeps P (vos f)"
    and r: "\<And>a b fwd. keeps P (renameNode dn u a b fwd)" and d: "\<And>v. P v \<Longrightarrow> P (dropNode u toNode v)"
  shows "keeps P (rename_both depth dn u a b c e toNode)"
  unfolding rename_both_def rename_children_def newRenameOp_def rename_finish_def rename_self_def
  by (intro keep keeps_genRenameList_vos keeps_undo keeps_apply keeps_smod v r d)

lemma vinv_DirNode_rename: "keeps (vinv H L) (DirNode_rename depth dn u a b)"
proof -
  have t: "upholds (\<lambda>v. vinv H (insert i L) v \<and> (i \<in> H \<or> i \<notin> L))
      (sfinally (rename_both depth dn u a b c e i) (dropNode u i)) (\<lambda>_. vinv H L) (vinv H L)" for c e i
  proof (cases "i \<in> H \<or> i \<notin> L")
    case True
    let ?J = "\<lambda>v. vinv H (insert i L) v \<or> vinv H L v"
    have k: "keeps ?J (rename_both depth dn u a b c e i)"
      by (rule keeps_rename_both) (auto intro!: keeps_disj vinv_vos vinv_renameNode simp: vinv_drop True)
    show ?thesis
      by (rule upholds_sfinally, rule upholds_mono [OF upholds_keeps [OF k]]) (use True in \<open>auto intro: vinv_drop\<close>)
  qed (simp add: upholds_def)
  have "keeps (vinv H L) (sbind (findOrCreate dn u b) (\<lambda>i. sfinally (rename_both depth dn u a b c e i) (dropNode u i)))" for c e
    by (rule keeps_upholds, rule upholds_sbind [OF vinv_findOrCreate t])
  then show ?thesis unfolding DirNode_rename_def by (intro keeps_sbind [OF keeps_basic(3)])
qed

text \<open>A node that is only used and dropped.\<close>

lemma vinv_scoped:
  assumes "\<And>i L. keeps (vinv H L) (f i)"
  shows "keeps (vinv H L) (sbind (findOrCreate dn u p) (\<lambda>i. sfinally (f i) (dropNode u i)))"
proof (rule keeps_upholds, rule upholds_sbind [OF vinv_findOrCreate])
  fix i
  show "upholds (\<lambda>v. vinv H (insert i L) v \<and> (i \<in> H \<or> i \<notin> L)) (sfinally (f i) (dropNode u i)) (\<lambda>_. vinv H L) (vinv H L)"
  proof (cases "i \<in> H \<or> i \<notin> L")
    case True
    show ?thesis
      by (rule upholds_sfinally, rule upholds_mono [OF upholds_keeps [OF assms [of "insert i L"]]])
         (use True in \<open>auto intro: vinv_drop\<close>)
  qed (simp add: upholds_def)
qed

lemmas vinv_keeps = vinv_vos vinv_onNode vinv_renameNode vinv_DirNode_rename vinv_scoped

subsection \<open>The root\<close>

text \<open>
  Mounting sets the root or fails, so that \<open>getRoot\<close> goes round at most twice.
\<close>

lemma getRoot_remountFS:
  "getRoot (remountFS init rd) c =
     (let c' = c\<lparr>cx_usageCount := cx_usageCount c + 1\<rparr> in
      case cx_root c of
        Some r \<Rightarrow> Some (Inr r, c')
      | None \<Rightarrow> (case init c' of
          None \<Rightarrow> Some (Inl (- EACCES), c')
        | Some r \<Rightarrow> Some (Inr r, (setRoot rd (Some r) c')\<lparr>cx_usageCount := cx_usageCount c' + 1\<rparr>)))"
proof (cases "cx_root c")
  case None
  let ?c = "c\<lparr>cx_usageCount := cx_usageCount c + 1\<rparr>"
  show ?thesis
  proof (cases "init ?c")
    case init: None
    then show ?thesis using None by (simp add: getRoot.simps [of _ c] remountFS_def EACCES_def)
  next
    case (Some r)
    have "getRoot (remountFS init rd) (setRoot rd (Some r) ?c)
        = Some (Inr r, (setRoot rd (Some r) ?c)\<lparr>cx_usageCount := cx_usageCount ?c + 1\<rparr>)"
      by (subst getRoot.simps) (simp add: setRoot_def)
    then show ?thesis using None Some by (simp add: getRoot.simps [of _ c] remountFS_def)
  qed
qed (simp add: getRoot.simps [of _ c])

lemma cb_root_code [code]:
  "cb_root env v =
     (let c' = (v_ctx v)\<lparr>cx_usageCount := cx_usageCount (v_ctx v) + 1\<rparr> in
      case cx_root (v_ctx v) of
        Some r \<Rightarrow> (Inr (Inr r), v\<lparr>v_ctx := c'\<rparr>)
      | None \<Rightarrow> (case e_initFS env (v_os v) c' of
          None \<Rightarrow> (Inr (Inl (- EACCES)), v\<lparr>v_ctx := c'\<rparr>)
        | Some r \<Rightarrow> (Inr (Inr r), v\<lparr>v_ctx := (setRoot rootDirectory (Some r) c')\<lparr>cx_usageCount := cx_usageCount c' + 1\<rparr>\<rparr>)))"
  by (simp add: cb_root_def getRoot_remountFS Let_def split: option.splits)

definition mounts_ctx :: "('o, 'k) surroundings \<Rightarrow> bool" where
  "mounts_ctx env \<longleftrightarrow> (\<forall>w c dn. e_initFS env w c = Some dn \<longrightarrow> dn_ctx dn)"

text \<open>\<open>cb_root\<close> always gives a root or a code.\<close>

lemma cb_root_cases:
  obtains r n rt rd where "cb_root env v = (Inr r, v\<lparr>v_ctx := (v_ctx v)\<lparr>cx_usageCount := n, cx_root := rt, cx_rootCipherDir := rd\<rparr>\<rparr>)"
    and "mounts_ctx env \<Longrightarrow> root_ok (v_ctx v) \<Longrightarrow> (\<forall>dn. r = Inr dn \<longrightarrow> dn_ctx dn) \<and> (\<forall>dn. rt = Some dn \<longrightarrow> dn_ctx dn)"
proof (cases "cx_root (v_ctx v)")
  case None
  let ?c = "(v_ctx v)\<lparr>cx_usageCount := cx_usageCount (v_ctx v) + 1\<rparr>"
  show ?thesis
  proof (cases "e_initFS env (v_os v) ?c")
    case init: None
    show ?thesis
      by (rule that [where r = "Inl (- EACCES)" and n = "cx_usageCount ?c" and rt = None and rd = "cx_rootCipherDir (v_ctx v)"])
         (use None init in \<open>simp_all add: cb_root_def getRoot_remountFS Let_def\<close>)
  next
    case (Some dn)
    show ?thesis
      by (rule that [where r = "Inr dn" and n = "cx_usageCount ?c + 1" and rt = "Some dn" and rd = "rootDirectory dn"])
         (use None Some in \<open>auto simp: cb_root_def getRoot_remountFS Let_def setRoot_def mounts_ctx_def\<close>)
  qed
next
  case (Some dn)
  show ?thesis
    by (rule that [where r = "Inr dn" and n = "cx_usageCount (v_ctx v) + 1" and rt = "Some dn" and rd = "cx_rootCipherDir (v_ctx v)"])
       (use Some in \<open>simp_all add: cb_root_def getRoot_remountFS Let_def root_ok_def\<close>)
qed

lemma vinv_root:
  fixes env :: "('o, 'k) surroundings"
  assumes "mounts_ctx env"
  shows "upholds (vinv H L) (cb_root env) (\<lambda>r v. vinv H L v \<and> (\<forall>dn. r = Inr dn \<longrightarrow> dn_ctx dn)) (vinv H L)"
  unfolding upholds_def
proof (intro allI impI)
  fix v :: "('o, 'k dirnode) volume" assume v: "vinv H L v"
  obtain r n rt rd where c: "cb_root env v = (Inr r, v\<lparr>v_ctx := (v_ctx v)\<lparr>cx_usageCount := n, cx_root := rt, cx_rootCipherDir := rd\<rparr>\<rparr>)"
      "(\<forall>dn. r = Inr dn \<longrightarrow> dn_ctx dn) \<and> (\<forall>dn. rt = Some dn \<longrightarrow> dn_ctx dn)"
    using cb_root_cases [of env v] assms vinvD(3) [OF v] by metis
  let ?c = "(v_ctx v)\<lparr>cx_usageCount := n, cx_root := rt, cx_rootCipherDir := rd\<rparr>"
  have "ctx_wf ?c = ctx_wf (v_ctx v)" "ctx_shared ?c = ctx_shared (v_ctx v)"
    by (simp_all add: ctx_wf_def ctx_shared_def opened_def getNode_def)
  then have "vinv H L (v\<lparr>v_ctx := ?c\<rparr>)"
    by (intro vinvI) (use vinvD [OF v] c(2) in \<open>auto simp: root_ok_def held_def alive_def\<close>)
  then show "case cb_root env v of (Inl e, s') \<Rightarrow> vinv H L s' | (Inr r, s') \<Rightarrow> vinv H L s' \<and> (\<forall>dn. r = Inr dn \<longrightarrow> dn_ctx dn)"
    using c by simp
qed

lemma upholds_with_root:
  assumes "mounts_ctx env" and "\<And>dn. dn_ctx dn \<Longrightarrow> upholds (vinv H L) (f dn) Q E"
    and "\<And>r v. vinv H L v \<Longrightarrow> Q (err r) v" and "\<And>v. vinv H L v \<Longrightarrow> E v"
  shows "upholds (vinv H L) (with_root env err f) Q E"
  unfolding with_root_def
proof (rule upholds_sbind)
  show "upholds (vinv H L) (cb_root env) (\<lambda>r v. vinv H L v \<and> (\<forall>dn. r = Inr dn \<longrightarrow> dn_ctx dn)) E"
    by (rule upholds_mono [OF vinv_root [OF assms(1)] _ _ assms(4)]) assumption+
next
  fix r
  show "upholds (\<lambda>v. vinv H L v \<and> (\<forall>dn. r = Inr dn \<longrightarrow> dn_ctx dn))
      (case r of Inl res \<Rightarrow> sret (err res) | Inr dn \<Rightarrow> f dn) Q E"
  proof (cases r)
    case (Inl e)
    then show ?thesis using assms(3) by (auto intro: upholds_sret)
  next
    case (Inr dn)
    show ?thesis
    proof (cases "dn_ctx dn")
      case True
      show ?thesis unfolding Inr sum.case by (rule upholds_mono [OF assms(2) [OF True]]) simp_all
    qed (simp add: Inr upholds_def)
  qed
qed

lemma vinv_with_root:
  assumes "mounts_ctx env" and "\<And>dn. keeps (vinv H L) (f dn)"
  shows "keeps (vinv H L) (with_root env err f)"
  by (rule keeps_upholds, rule upholds_with_root [OF assms(1) upholds_keeps [OF assms(2)]])

lemma keeps_caught [keep]: "keeps P m \<Longrightarrow> keeps P (caught err m)"
  by (simp add: caught_def keeps_scatch)

lemma vinv_node_of:
  "upholds (vinv H L) (node_of env dn path fi) (\<lambda>i v. vinv H (insert i L) v \<and> (i \<in> H \<or> i \<notin> L)) (vinv H L)"
proof (cases fi)
  case None
  show ?thesis unfolding None node_of_def option.case lookupNode_def by (rule vinv_findOrCreate)
next
  case (Some fh)
  have "i \<in> H \<and> vinv H (insert i L) v" if "vinv H L v" "getNode fh (v_ctx v) = Some i" for i v
  proof -
    have "i \<in> held v" using that(2) by (force simp: held_def getNode_def dest: map_of_SomeD)
    then show ?thesis using that(1) vinvD(5) [OF that(1)] by (simp add: vinv_insert)
  qed
  then show ?thesis
    by (auto simp: Some node_of_def upholds_def sbind_def sget_def sthrow_def sret_def split: option.splits)
qed

lemma vinv_withFileNode:
  assumes "mounts_ctx env"
  shows "keeps (vinv H L) (withFileNode env err path fi op)"
  unfolding withFileNode_def
proof (intro vinv_with_root [OF assms] keeps_caught, rule keeps_upholds, rule upholds_sbind [OF vinv_node_of])
  fix dn i
  show "upholds (\<lambda>v. vinv H (insert i L) v \<and> (i \<in> H \<or> i \<notin> L))
      (sfinally (onNode i (op (dn_cfg dn))) (dropNode (e_disk env) i)) (\<lambda>_. vinv H L) (vinv H L)"
  proof (cases "i \<in> H \<or> i \<notin> L")
    case True
    show ?thesis
      by (rule upholds_sfinally, rule upholds_mono [OF upholds_keeps [OF vinv_onNode [of H "insert i L"]]])
         (use True in \<open>auto intro: vinv_drop\<close>)
  qed (simp add: upholds_def)
qed

lemma vinv_withCipherPath:
  assumes "mounts_ctx env" and "\<And>cy. keeps (vinv H L) (op cy)"
  shows "keeps (vinv H L) (withCipherPath env path op pass)"
  unfolding withCipherPath_def by (intro vinv_with_root assms keep)

subsection \<open>The callbacks\<close>

lemma vinv_lookup_scoped:
  assumes "\<And>i L. keeps (vinv H L) (f i)"
  shows "keeps (vinv H L) (sbind (lookupNode dn u p) (\<lambda>i. sfinally (f i) (dropNode u i)))"
  unfolding lookupNode_def by (rule vinv_scoped [OF assms])

lemma vinv_mknod_in_group: "keeps (vinv H L) (mknod_in_group env dn i mode res)"
  unfolding mknod_in_group_def
  by (rule keeps_sbind [OF keeps_basic(4)], rule vinv_lookup_scoped) (intro keep vinv_onNode)

lemma vinv_callbacks:
  assumes "mounts_ctx env"
  shows "keeps (vinv H L) (encfs_getattr env path)"
    and "keeps (vinv H L) (encfs_fgetattr env path fh)"
    and "keeps (vinv H L) (encfs_getdir env path h filler)"
    and "keeps (vinv H L) (encfs_mknod env path mode)"
    and "keeps (vinv H L) (encfs_mkdir env path mode)"
    and "keeps (vinv H L) (encfs_unlink env path)"
    and "keeps (vinv H L) (encfs_rmdir env path)"
    and "keeps (vinv H L) (encfs_readlink env path)"
    and "keeps (vinv H L) (encfs_link env from to)"
    and "keeps (vinv H L) (encfs_rename env from to)"
    and "keeps (vinv H L) (encfs_chmod env path mode)"
    and "keeps (vinv H L) (encfs_chown env path)"
    and "keeps (vinv H L) (encfs_utime env path buf)"
    and "keeps (vinv H L) (encfs_utimens env path ts)"
    and "keeps (vinv H L) (encfs_truncate env path sz)"
    and "keeps (vinv H L) (encfs_ftruncate env path sz fh)"
    and "keeps (vinv H L) (encfs_flush env path fh)"
    and "keeps (vinv H L) (encfs_read env path n off fh)"
    and "keeps (vinv H L) (encfs_fsync env path fh)"
    and "keeps (vinv H L) (encfs_write env path d off fh)"
    and "keeps (vinv H L) (encfs_statfs env)"
    and "keeps (vinv H L) (encfs_win_get_attributes env path)"
    and "keeps (vinv H L) (encfs_win_set_attributes env path attr)"
    and "keeps (vinv H L) (encfs_win_set_times env path fi t)"
proof -
  note root = vinv_with_root [OF assms] and node = vinv_withFileNode [OF assms] and cipher = vinv_withCipherPath [OF assms]
  show "keeps (vinv H L) (encfs_getattr env path)" "keeps (vinv H L) (encfs_fgetattr env path fh)"
    "keeps (vinv H L) (encfs_truncate env path sz)" "keeps (vinv H L) (encfs_ftruncate env path sz fh)"
    "keeps (vinv H L) (encfs_flush env path fh)" "keeps (vinv H L) (encfs_read env path n off fh)"
    "keeps (vinv H L) (encfs_fsync env path fh)" "keeps (vinv H L) (encfs_write env path d off fh)"
    by (simp_all only: encfs_getattr_def encfs_fgetattr_def encfs_truncate_def encfs_ftruncate_def encfs_flush_def
        encfs_read_def encfs_fsync_def encfs_write_def node)
  show "keeps (vinv H L) (encfs_rmdir env path)" "keeps (vinv H L) (encfs_chmod env path mode)"
    unfolding encfs_rmdir_def encfs_chmod_def by (rule cipher vinv_vos)+
  show "keeps (vinv H L) (encfs_readlink env path)" "keeps (vinv H L) (encfs_chown env path)"
    unfolding encfs_readlink_def encfs_chown_def do_readlink_def by (rule cipher keeps_basic)+
  show "keeps (vinv H L) (encfs_utime env path buf)" "keeps (vinv H L) (encfs_utimens env path ts)"
    unfolding encfs_utime_def encfs_utimens_def do_utime_def do_utimens_def Let_def by (intro cipher keep vinv_vos)+
  show "keeps (vinv H L) (encfs_getdir env path h filler)"
    unfolding encfs_getdir_def openDir_def by (intro root keep vinv_vos)
  show "keeps (vinv H L) (encfs_unlink env path)"
    unfolding encfs_unlink_def DirNode_unlink_def by (intro root keep vinv_vos)
  show "keeps (vinv H L) (encfs_link env from to)"
    unfolding encfs_link_def DirNode_link_def by (intro root keep)
  show "keeps (vinv H L) (encfs_rename env from to)"
    unfolding encfs_rename_def by (intro root keeps_caught vinv_DirNode_rename)
  show "keeps (vinv H L) (encfs_statfs env)"
    unfolding encfs_statfs_def Let_def by (intro keep vinv_vos)
  show "keeps (vinv H L) (encfs_win_get_attributes env path)" "keeps (vinv H L) (encfs_win_set_attributes env path attr)"
    unfolding encfs_win_get_attributes_def encfs_win_set_attributes_def win_code_def by (intro root keep vinv_vos)+
  show "keeps (vinv H L) (encfs_win_set_times env path fi t)"
    unfolding encfs_win_set_times_def win_code_def by (intro keeps_if root node keep vinv_vos)
  have mkdir: "keeps (vinv H L') (DirNode_mkdir dn (e_disk env) path mode)" for dn L'
    unfolding DirNode_mkdir_def by (intro keep vinv_vos)
  show "keeps (vinv H L) (encfs_mkdir env path mode)"
    unfolding encfs_mkdir_def
    by (rule root, rule keeps_caught, rule keeps_sbind [OF mkdir], rule keeps_if, rule keeps_scatch, rule vinv_lookup_scoped)
       (intro keep vinv_onNode mkdir)+
  show "keeps (vinv H L) (encfs_mknod env path mode)"
    unfolding encfs_mknod_def
    by (rule root, rule keeps_caught, rule vinv_lookup_scoped) (intro keep vinv_onNode vinv_mknod_in_group)
qed

text \<open>Opening: the node found or made is the one the table has for the path.\<close>

lemma keeps_ctx:
  "keeps (\<lambda>v. v_ctx v = c) (vos f)" "keeps (\<lambda>v. v_ctx v = c) (onNode i m)" "keeps (\<lambda>v. v_ctx v = c) (newNode fn)"
  by (auto simp: keeps_def vos_def onNode_def newNode_def split: prod.splits option.splits)

lemma drop_ctx [simp]: "v_ctx (dropNode u i v) = v_ctx v"
  by (simp add: dropNode_def split: option.splits)

lemma keeps_ctx_drop: "keeps (\<lambda>v. v_ctx v = c) (smod (dropNode u i))"
  by (simp add: keeps_def smod_def)

lemma findOrCreate_node:
  "upholds (\<lambda>v. v_ctx v = c) (findOrCreate dn u p)
     (\<lambda>i v. v_ctx v = c \<and> (dn_ctx dn \<longrightarrow> (\<forall>n. ctx_lookupNode p c = Some n \<longrightarrow> i = n))) (\<lambda>v. v_ctx v = c)"
  unfolding findOrCreate_def
proof (rule upholds_sbind [where R = "\<lambda>n v. v_ctx v = c \<and> n = (if dn_ctx dn then ctx_lookupNode p c else None)"])
  show "upholds (\<lambda>v. v_ctx v = c) (sget (\<lambda>v. if dn_ctx dn then ctx_lookupNode p (v_ctx v) else None))
      (\<lambda>n v. v_ctx v = c \<and> n = (if dn_ctx dn then ctx_lookupNode p c else None)) (\<lambda>v. v_ctx v = c)"
    by (simp add: upholds_def sget_def)
next
  fix n
  let ?make = "sbind (sres (encodePath_iv (naming dn) p 0)) (\<lambda>(cipherName, iv).
         sbind (sres (FileNode_new (dn_cfg dn) p (dn_rootDir dn @ cipherName))) (\<lambda>fn.
         sbind (newNode fn) (\<lambda>i.
         if c_externalIVChaining (fs_config (dn_cfg dn))
         then sunwind (sbind (onNode i (setName (dn_cfg dn) (ud_file u) None None iv True)) (\<lambda>_. sret i))
                (dropNode u i)
         else sret i)))"
  have k: "keeps (\<lambda>v. v_ctx v = c) ?make" by (intro keep keeps_ctx) simp
  show "upholds (\<lambda>v. v_ctx v = c \<and> n = (if dn_ctx dn then ctx_lookupNode p c else None))
      (case n of None \<Rightarrow> ?make | Some i \<Rightarrow> sret i)
      (\<lambda>i v. v_ctx v = c \<and> (dn_ctx dn \<longrightarrow> (\<forall>n. ctx_lookupNode p c = Some n \<longrightarrow> i = n))) (\<lambda>v. v_ctx v = c)"
  proof (cases n)
    case None
    show ?thesis
    proof (cases "dn_ctx dn \<longrightarrow> ctx_lookupNode p c = None")
      case True
      show ?thesis unfolding None option.case
        by (rule upholds_mono [OF upholds_keeps [OF k]]) (use True in auto)
    qed (auto simp: upholds_def None)
  qed (auto simp: upholds_def sret_def)
qed

lemma openNode_node:
  "upholds (\<lambda>v. v_ctx v = c) (openNode dn u p fl)
     (\<lambda>(n, res) v. v_ctx v = c \<and> (\<forall>i. n = Some i \<longrightarrow> 0 \<le> res \<and> (dn_ctx dn \<longrightarrow> (\<forall>m. ctx_lookupNode p c = Some m \<longrightarrow> i = m))))
     (\<lambda>v. v_ctx v = c)"
  unfolding openNode_def
proof (rule upholds_sbind [OF findOrCreate_node])
  fix i
  let ?P = "\<lambda>v. v_ctx v = c \<and> (dn_ctx dn \<longrightarrow> (\<forall>n. ctx_lookupNode p c = Some n \<longrightarrow> i = n))"
  have k: "keeps ?P (sunwind (onNode i (node_open (dn_cfg dn) (ud_file u) fl)) (dropNode u i))"
    by (rule keeps_sunwind) (auto simp: keeps_def onNode_def split: prod.splits option.splits)
  show "upholds ?P
      (sbind (sunwind (onNode i (node_open (dn_cfg dn) (ud_file u) fl)) (dropNode u i)) (\<lambda>res.
       if res \<ge> 0 then sret (Some i, res) else sbind (smod (dropNode u i)) (\<lambda>_. sret (None, res))))
      (\<lambda>(n, res) v. v_ctx v = c \<and> (\<forall>i. n = Some i \<longrightarrow> 0 \<le> res \<and> (dn_ctx dn \<longrightarrow> (\<forall>m. ctx_lookupNode p c = Some m \<longrightarrow> i = m))))
      (\<lambda>v. v_ctx v = c)"
    by (rule upholds_sbind [where R = "\<lambda>_. ?P"], rule upholds_mono [OF upholds_keeps [OF k]])
       (auto simp: upholds_def sret_def sbind_def smod_def)
qed

lemma openNode_alive:
  "upholds (vinv H {}) (openNode dn u p fl)
     (\<lambda>(n, res) v. case n of None \<Rightarrow> vinv H {} v | Some i \<Rightarrow> vinv H {i} v) (vinv H {})"
  unfolding openNode_def
proof (rule upholds_sbind [OF vinv_findOrCreate])
  fix i
  have k: "upholds (\<lambda>v. vinv H {i} v \<and> (i \<in> H \<or> i \<notin> {}))
      (sunwind (onNode i (node_open (dn_cfg dn) (ud_file u) fl)) (dropNode u i)) (\<lambda>_. vinv H {i}) (vinv H {})"
    by (rule upholds_sunwind, rule upholds_mono [OF upholds_keeps [OF vinv_onNode]]) (auto intro: vinv_drop)
  show "upholds (\<lambda>v. vinv H {i} v \<and> (i \<in> H \<or> i \<notin> {}))
      (sbind (sunwind (onNode i (node_open (dn_cfg dn) (ud_file u) fl)) (dropNode u i)) (\<lambda>res.
       if res \<ge> 0 then sret (Some i, res) else sbind (smod (dropNode u i)) (\<lambda>_. sret (None, res))))
      (\<lambda>(n, res) v. case n of None \<Rightarrow> vinv H {} v | Some i \<Rightarrow> vinv H {i} v) (vinv H {})"
    by (rule upholds_sbind [OF k]) (auto simp: upholds_def sret_def sbind_def smod_def intro: vinv_drop)
qed

lemma put_handle_ok:
  assumes "vinv H {i} v" and "\<forall>n. ctx_lookupNode p (v_ctx v) = Some n \<longrightarrow> i = n" and "put_handle p i v = (r, v')"
  shows "vinv (insert i H) {} v'"
proof -
  note d = vinvD [OF assms(1)]
  have n: "getNode (v_next v) (v_ctx v) = None"
    using d(8) [of "v_next v"] by (auto simp: getNode_def map_of_eq_None_iff)
  have v': "v' = v\<lparr>v_ctx := putNode p i (v_next v) (v_ctx v), v_next := v_next v + 1\<rparr>"
    using assms(3) by (simp add: put_handle_def)
  have "putNode p i (v_next v) (v_ctx v)
      = putNode p (case ctx_lookupNode p (v_ctx v) of None \<Rightarrow> i | Some n \<Rightarrow> n) (v_next v) (v_ctx v)"
    using assms(2) by (auto split: option.splits)
  then have s: "ctx_shared (putNode p i (v_next v) (v_ctx v))" using shared_open [OF d(1,2) n, of p i] by simp
  have h: "cx_holders (putNode p i (v_next v) (v_ctx v)) = (v_next v, i) # cx_holders (v_ctx v)"
      "cx_root (putNode p i (v_next v) (v_ctx v)) = cx_root (v_ctx v)"
    by (simp_all add: putNode_def Let_def)
  have e: "held v' = insert i (held v)" "alive v' = alive v" by (simp_all add: v' held_def alive_def h)
  show ?thesis
  proof (rule vinvI)
    show "held v' = insert i H" "alive v' = insert i H \<union> {}" using e d(5,6) by auto
    show "ctx_wf (v_ctx v')" "ctx_shared (v_ctx v')" "root_ok (v_ctx v')" "distinct (map fst (v_nodes v'))"
      using wf_putNode [OF d(1) n] s d(3,4) by (simp_all add: v' root_ok_def h)
    show "j < v_next v'" if "j \<in> insert i H \<union> {}" for j using d(7) [of j] that by (simp add: v' less_SucI)
    show "fh < v_next v'" if "fh \<in> fst ` set (cx_holders (v_ctx v'))" for fh
    proof -
      have "fh = v_next v \<or> fh \<in> fst ` set (cx_holders (v_ctx v))" using that by (auto simp: v' h)
      then have "fh \<le> v_next v" using d(8) [of fh] by (metis less_imp_le order_refl)
      then show ?thesis by (simp add: v')
    qed
  qed
qed

definition node_opened :: "nat set \<Rightarrow> bytes \<Rightarrow> nat option \<times> int \<Rightarrow> ('o, 'k dirnode) volume \<Rightarrow> bool" where
  "node_opened H path r v \<longleftrightarrow>
     (case fst r of
        None \<Rightarrow> vinv H {} v
      | Some i \<Rightarrow> vinv H {i} v \<and> 0 \<le> snd r \<and> (\<forall>n. ctx_lookupNode path (v_ctx v) = Some n \<longrightarrow> i = n))"

lemma upholds_each:
  "(\<And>c. upholds (\<lambda>v. P v \<and> v_ctx v = c) m Q E) \<Longrightarrow> upholds P m Q E"
  by (auto simp: upholds_def)

lemma openNode_opened:
  assumes "dn_ctx dn"
  shows "upholds (vinv H {}) (openNode dn u path fl) (node_opened H path) (vinv H {})"
  by (rule upholds_each, rule upholds_mono [OF upholds_conj [OF openNode_alive openNode_node]])
     (use assms in \<open>auto simp: node_opened_def split: option.splits\<close>)

lemma vinv_ok: "vinv H {} v \<Longrightarrow> vol_ok v"
  by (simp add: vinv_def vol_ok_def)

text \<open>What is done with the node that was opened.\<close>

definition finish_open :: "'o unixdir \<Rightarrow> bytes \<Rightarrow> nat option \<times> int \<Rightarrow> ('o, 'k, int \<times> nat option) cb" where
  "finish_open u path = (\<lambda>(node, res).
     case node of
       None \<Rightarrow> sret (res, None)
     | Some i \<Rightarrow>
         if res \<ge> 0 then sbind (put_handle path i) (\<lambda>fh. sret (0, Some fh))
         else sbind (smod (dropNode u i)) (\<lambda>_. sret (res, None)))"

lemma finish_open_ok: "upholds (node_opened H path r) (finish_open u path r) (\<lambda>_. vol_ok) vol_ok"
proof (cases r)
  case (Pair n res)
  show ?thesis
  proof (cases n)
    case None
    then show ?thesis by (auto simp: Pair finish_open_def node_opened_def upholds_def sret_def intro: vinv_ok)
  next
    case (Some i)
    have "vol_ok (snd (put_handle path i v))" if "node_opened H path r v" for v :: "('a, 'b dirnode) volume"
      using that put_handle_ok [OF _ _ prod.collapse [symmetric], of H i v path]
      by (auto simp: node_opened_def Pair Some intro: vinv_ok)
    then show ?thesis
      by (auto simp: Pair Some finish_open_def upholds_def sbind_def put_handle_def sret_def node_opened_def)
  qed
qed

lemma open_ok:
  fixes env :: "('o, 'k) surroundings"
  assumes "mounts_ctx env"
  shows "upholds (vinv H {}) (encfs_open env path fl) (\<lambda>_. vol_ok) vol_ok"
proof -
  have e: "encfs_open env path fl = with_root env (\<lambda>res. (res, None)) (\<lambda>dn. caught (\<lambda>res. (res, None))
      (sbind (openNode dn (e_disk env) path fl) (finish_open (e_disk env) path)))"
    by (simp add: encfs_open_def finish_open_def)
  show ?thesis unfolding e
  proof (rule upholds_with_root [OF assms])
    fix dn :: "'k dirnode" assume dn: "dn_ctx dn"
    show "upholds (vinv H {}) (caught (\<lambda>res. (res, None))
        (sbind (openNode dn (e_disk env) path fl) (finish_open (e_disk env) path))) (\<lambda>_. vol_ok) vol_ok"
      unfolding caught_def
      by (rule upholds_scatch [where R = vol_ok],
          rule upholds_sbind [OF upholds_mono [OF openNode_opened [OF dn]] finish_open_ok])
         (auto intro: vinv_ok upholds_sret)
  qed (auto intro: vinv_ok)
qed

text \<open>Releasing: the node goes when no handle is left.\<close>

lemma release_ok:
  assumes "vinv H {} v"
  shows "vol_ok (snd (encfs_release env path fh v))"
proof -
  note d = vinvD [OF assms]
  show ?thesis
  proof (cases "fst (eraseNode path fh (v_ctx v))")
    case (Inl e)
    then have "eraseNode path fh (v_ctx v) = (Inl e, v_ctx v)"
      by (auto simp: eraseNode_def Let_def split: option.splits if_splits)
    then show ?thesis using assms by (simp add: encfs_release_def vinv_ok)
  next
    case (Inr x)
    let ?c = "snd (eraseNode path fh (v_ctx v))"
    have o: "fh \<in> opened (v_ctx v) path"
      using Inr by (auto simp: eraseNode_def opened_def Let_def split: option.splits if_splits)
    then obtain i where i: "getNode fh (v_ctx v) = Some i" using d(1) unfolding ctx_wf_def by blast
    have h: "cx_holders ?c = AList.delete fh (cx_holders (v_ctx v))" "cx_root ?c = cx_root (v_ctx v)"
      using Inr by (auto simp: eraseNode_def Let_def split: option.splits if_splits)
    have dist: "distinct (map fst (cx_holders (v_ctx v)))" using d(1) by (simp add: ctx_wf_def)
    let ?H = "snd ` set (AList.delete fh (cx_holders (v_ctx v)))"
    have m: "(fh, i) \<in> set (cx_holders (v_ctx v))" using i by (simp add: getNode_def map_of_SomeD)
    have H: "H = insert i ?H"
    proof -
      have "snd ` set (cx_holders (v_ctx v)) = insert i ?H"
      proof (intro set_eqI iffI)
        fix n assume "n \<in> snd ` set (cx_holders (v_ctx v))"
        then obtain q where q: "(q, n) \<in> set (cx_holders (v_ctx v))" by auto
        show "n \<in> insert i ?H"
        proof (cases "q = fh")
          case True
          then show ?thesis using q m eq_key_imp_eq_value [OF dist] by blast
        next
          case False
          then have "(q, n) \<in> set (AList.delete fh (cx_holders (v_ctx v)))" using q by (auto simp: AList.delete_eq)
          then show ?thesis by force
        qed
      next
        fix n assume "n \<in> insert i ?H"
        then show "n \<in> snd ` set (cx_holders (v_ctx v))" using m by (force simp: AList.delete_eq)
      qed
      then show ?thesis using d(5) by (simp add: held_def)
    qed
    have "vinv ?H {i} (v\<lparr>v_ctx := ?c\<rparr>)"
    proof (rule vinvI)
      show "ctx_wf (v_ctx (v\<lparr>v_ctx := ?c\<rparr>))" "ctx_shared (v_ctx (v\<lparr>v_ctx := ?c\<rparr>))" "root_ok (v_ctx (v\<lparr>v_ctx := ?c\<rparr>))"
        using wf_erase [OF d(1)] shared_erase [OF d(1,2)] d(3) by (simp_all add: root_ok_def h)
      show "held (v\<lparr>v_ctx := ?c\<rparr>) = ?H" by (simp add: held_def h)
      show "alive (v\<lparr>v_ctx := ?c\<rparr>) = ?H \<union> {i}" using d(6) H by (auto simp: alive_def)
      show "j < v_next (v\<lparr>v_ctx := ?c\<rparr>)" if "j \<in> ?H \<union> {i}" for j using d(7) [of j] that H by auto
      show "q < v_next (v\<lparr>v_ctx := ?c\<rparr>)" if "q \<in> fst ` set (cx_holders (v_ctx (v\<lparr>v_ctx := ?c\<rparr>)))" for q
        using d(8) [of q] that by (auto simp: h AList.delete_eq)
    qed (use d(4) in simp)
    then have "vinv ?H {} (dropNode (e_disk env) i (v\<lparr>v_ctx := ?c\<rparr>))" by (intro vinv_drop) auto
    moreover have "snd (encfs_release env path fh v) = dropNode (e_disk env) i (v\<lparr>v_ctx := ?c\<rparr>)"
      using i by (cases "eraseNode path fh (v_ctx v)") (use Inr in \<open>simp add: encfs_release_def\<close>)
    ultimately show ?thesis by (simp add: vinv_ok)
  qed
qed

subsection \<open>Sequences of requests\<close>

text \<open>The requests of FUSE, the idle monitor detaching the volume, and its reading of the counter.\<close>

datatype 'h request =
    Getattr bytes | Fgetattr bytes nat | Getdir bytes 'h "'h filler" | Mknod bytes u32 | Mkdir bytes u32
  | Unlink bytes | Rmdir bytes | Readlink bytes | Symlink bytes bytes | Link bytes bytes | Rename bytes bytes
  | Chmod bytes u32 | Chown bytes | Truncate bytes nat | Ftruncate bytes nat nat | Utime bytes "int \<times> int"
  | Utimens bytes "(int \<times> int) \<times> (int \<times> int)" | Open bytes int | Flush bytes nat | Release bytes nat
  | Read bytes nat nat nat | Fsync bytes nat | Write bytes bytes nat nat | Statfs
  | WinGetAttributes bytes | WinSetAttributes bytes u32
  | WinSetTimes bytes "nat option" "filetime option \<times> filetime option \<times> filetime option"
  | Detach | Usage

fun serve :: "('o, 'k) surroundings \<Rightarrow> 'h request \<Rightarrow> ('o, 'k dirnode) volume \<Rightarrow> ('o, 'k dirnode) volume" where
  "serve env (Getattr path) v = snd (encfs_getattr env path v)"
| "serve env (Fgetattr path fh) v = snd (encfs_fgetattr env path fh v)"
| "serve env (Getdir path h filler) v = snd (encfs_getdir env path h filler v)"
| "serve env (Mknod path mode) v = snd (encfs_mknod env path mode v)"
| "serve env (Mkdir path mode) v = snd (encfs_mkdir env path mode v)"
| "serve env (Unlink path) v = snd (encfs_unlink env path v)"
| "serve env (Rmdir path) v = snd (encfs_rmdir env path v)"
| "serve env (Readlink path) v = snd (encfs_readlink env path v)"
| "serve env (Symlink from to) v = snd (encfs_symlink from to v)"
| "serve env (Link from to) v = snd (encfs_link env from to v)"
| "serve env (Rename from to) v = snd (encfs_rename env from to v)"
| "serve env (Chmod path mode) v = snd (encfs_chmod env path mode v)"
| "serve env (Chown path) v = snd (encfs_chown env path v)"
| "serve env (Truncate path sz) v = snd (encfs_truncate env path sz v)"
| "serve env (Ftruncate path sz fh) v = snd (encfs_ftruncate env path sz fh v)"
| "serve env (Utime path buf) v = snd (encfs_utime env path buf v)"
| "serve env (Utimens path ts) v = snd (encfs_utimens env path ts v)"
| "serve env (Open path flags) v = snd (encfs_open env path flags v)"
| "serve env (Flush path fh) v = snd (encfs_flush env path fh v)"
| "serve env (Release path fh) v = snd (encfs_release env path fh v)"
| "serve env (Read path n off fh) v = snd (encfs_read env path n off fh v)"
| "serve env (Fsync path fh) v = snd (encfs_fsync env path fh v)"
| "serve env (Write path d off fh) v = snd (encfs_write env path d off fh v)"
| "serve env Statfs v = snd (encfs_statfs env v)"
| "serve env (WinGetAttributes path) v = snd (encfs_win_get_attributes env path v)"
| "serve env (WinSetAttributes path attr) v = snd (encfs_win_set_attributes env path attr v)"
| "serve env (WinSetTimes path fi t) v = snd (encfs_win_set_times env path fi t v)"
| "serve env Detach v = v\<lparr>v_ctx := setRoot rootDirectory None (v_ctx v)\<rparr>"
| "serve env Usage v = v\<lparr>v_ctx := snd (getAndResetUsageCounter (v_ctx v))\<rparr>"

definition volume_init :: "'o \<Rightarrow> ('o, 'k dirnode) volume" where
  "volume_init w = \<lparr>v_ctx = EncFS_Context_new, v_nodes = [], v_next = 1, v_os = w\<rparr>"

lemma serve_ok:
  assumes "mounts_ctx env" and "vol_ok v"
  shows "vol_ok (serve env r v)"
proof -
  have i: "vinv (held v) {} v" using assms(2) by (simp add: vol_ok_vinv)
  have step: "vol_ok (snd (m v))" if "keeps (vinv (held v) {}) m" for m :: "('a, 'b, 'z) cb"
    using that i unfolding keeps_def by (blast intro: vinv_ok)
  note cbs = vinv_callbacks [OF assms(1), of "held v" "{}"]
  have op: "vol_ok (snd (encfs_open env path fl v))" for path fl
  proof (cases "encfs_open env path fl v")
    case (Pair r v')
    then show ?thesis
      using upholdsR [OF open_ok [OF assms(1)] i] upholdsE [OF open_ok [OF assms(1)] i] by (cases r) simp_all
  qed
  have other: "vol_ok (v\<lparr>v_ctx := c\<rparr>)"
    if "ctx_wf c" "ctx_shared c" "root_ok c" "cx_holders c = cx_holders (v_ctx v)" for c
  proof (rule vinv_ok, rule vinvI)
    show "held (v\<lparr>v_ctx := c\<rparr>) = held v" using that(4) by (simp add: held_def)
    show "alive (v\<lparr>v_ctx := c\<rparr>) = held v \<union> {}" using vinvD(6) [OF i] by (simp add: alive_def)
    show "j < v_next (v\<lparr>v_ctx := c\<rparr>)" if "j \<in> held v \<union> {}" for j using vinvD(7) [OF i that] by simp
    show "fh < v_next (v\<lparr>v_ctx := c\<rparr>)" if "fh \<in> fst ` set (cx_holders (v_ctx (v\<lparr>v_ctx := c\<rparr>)))" for fh
      using vinvD(8) [OF i, of fh] that \<open>cx_holders c = cx_holders (v_ctx v)\<close> by simp
  qed (use that vinvD(4) [OF i] in simp_all)
  have d: "ctx_wf (v_ctx v)" "ctx_shared (v_ctx v)" "root_ok (v_ctx v)"
    using vinvD(1-3) [OF i] by simp_all
  show ?thesis
  proof (cases r)
    case Detach
    have "root_ok (setRoot rootDirectory None (v_ctx v))" by (simp add: root_ok_def setRoot_def)
    then show ?thesis using Detach other d by (simp add: wf_other shared_other)
  next
    case Usage
    have "root_ok (snd (getAndResetUsageCounter (v_ctx v)))"
      using d(3) by (simp add: root_ok_def getAndResetUsageCounter_def)
    then show ?thesis using Usage other d by (simp add: wf_other shared_other)
  next
    case (Release path fh)
    then show ?thesis using release_ok [OF i] by simp
  qed (simp_all add: op encfs_symlink_def sret_def assms(2) cbs [THEN step])
qed

lemma requests_ok:
  assumes "mounts_ctx env"
  shows "vol_ok (fold (serve env) rs (volume_init w))"
proof -
  have "vol_ok (fold (serve env) rs v)" if "vol_ok v" for v
    using that by (induction rs arbitrary: v) (simp_all add: serve_ok [OF assms])
  moreover have "vol_ok (volume_init w :: ('a, 'b dirnode) volume)"
    by (simp add: vol_ok_def vol_base_def volume_init_def ctx_wf_def ctx_shared_def opened_def root_ok_def alive_def held_def)
  ultimately show ?thesis by blast
qed

subsection \<open>Exceptions\<close>

text \<open>No exception comes out, except the mark for a loop that does not end.\<close>

definition caught_all :: "('s, 'a) sm \<Rightarrow> bool" where
  "caught_all m \<longleftrightarrow> (\<forall>s. case fst (m s) of Inl e \<Rightarrow> e = Diverges | Inr x \<Rightarrow> True)"

lemma caught_all_basic:
  "caught_all (sret x)" "caught_all (vos f)" "caught_all (sget g)" "caught_all (cb_root env)"
  by (auto simp: caught_all_def sret_def vos_def sget_def cb_root_def split: prod.splits option.splits)

lemma caught_all_sbind:
  assumes "caught_all m" and "\<And>x. caught_all (f x)"
  shows "caught_all (sbind m f)"
  unfolding caught_all_def
proof
  fix s
  obtain r s1 where m: "m s = (r, s1)" by (cases "m s")
  show "case fst (sbind m f s) of Inl e \<Rightarrow> e = Diverges | Inr x \<Rightarrow> True"
  proof (cases r)
    case (Inl e)
    then show ?thesis using assms(1) m by (auto simp: caught_all_def sbind_def dest: spec [of _ s])
  next
    case (Inr x)
    then show ?thesis using assms(2) [of x] m by (simp add: caught_all_def sbind_def)
  qed
qed

lemma caught_all_caught: "caught_all (caught err m)"
  by (auto simp: caught_all_def caught_def scatch_def sret_def split: prod.splits sum.splits)

lemma caught_all_root: "(\<And>dn. caught_all (f dn)) \<Longrightarrow> caught_all (with_root env err f)"
  unfolding with_root_def by (rule caught_all_sbind [OF caught_all_basic(4)]) (auto simp: caught_all_basic split: sum.splits)

lemma caught_all_node: "caught_all (withFileNode env err path fi op)"
  unfolding withFileNode_def by (rule caught_all_root, rule caught_all_caught)

lemma caught_all_cipher: "caught_all (withCipherPath env path op pass)"
  unfolding withCipherPath_def by (rule caught_all_root, rule caught_all_caught)

lemmas catches = caught_all_node caught_all_cipher caught_all_root caught_all_caught caught_all_basic

subsection \<open>A handle in use\<close>

definition in_use :: "'k dirnode \<Rightarrow> nat \<Rightarrow> nat \<Rightarrow> filenode \<Rightarrow> ('o, 'k dirnode) volume \<Rightarrow> bool" where
  "in_use dn fh i fn v \<longleftrightarrow>
     cx_root (v_ctx v) = Some dn \<and> getNode fh (v_ctx v) = Some i \<and> map_of (v_nodes v) i = Some fn"

lemma cb_root_mounted:
  "cx_root (v_ctx v) = Some dn \<Longrightarrow>
     cb_root env v = (Inr (Inr dn), v\<lparr>v_ctx := (v_ctx v)\<lparr>cx_usageCount := cx_usageCount (v_ctx v) + 1\<rparr>\<rparr>)"
  by (simp add: cb_root_def getRoot_remountFS Let_def)

text \<open>A callback on a handle is the call on its node, which stays with its handle.\<close>

lemma withFileNode_in_use:
  assumes "in_use dn fh i fn v" and "op (dn_cfg dn) (fn, v_os v) = (Inr x, fn', w')"
  obtains v' where "withFileNode env err path (Some fh) op v = (Inr x, v')" and "in_use dn fh i fn' v'" and "v_os v' = w'"
proof -
  let ?c = "(v_ctx v)\<lparr>cx_usageCount := cx_usageCount (v_ctx v) + 1\<rparr>"
  let ?v = "v\<lparr>v_ctx := ?c, v_nodes := AList.update i fn' (v_nodes v), v_os := w'\<rparr>"
  have a: "cx_root (v_ctx v) = Some dn" "getNode fh (v_ctx v) = Some i" "map_of (v_nodes v) i = Some fn"
    using assms(1) by (simp_all add: in_use_def)
  have "i \<in> snd ` set (cx_holders (v_ctx v))" using a(2) by (force simp: getNode_def dest: map_of_SomeD)
  then have "withFileNode env err path (Some fh) op v = (Inr x, ?v)"
    using a assms(2)
    by (simp add: withFileNode_def with_root_def cb_root_mounted [OF a(1)] caught_def scatch_def sbind_def node_of_def sget_def
        getNode_def sret_def sfinally_def onNode_def dropNode_def)
  moreover have "in_use dn fh i fn' ?v" using a by (simp add: in_use_def getNode_def)
  ultimately show ?thesis using that by simp
qed

text \<open>
  A file of the volume that is open: its node is in order and holds the bytes \<open>x\<close>.  Over a
  working disk, the callbacks read and write it as such.
\<close>

definition file_holds ::
  "'k FSConfig \<Rightarrow> bytes \<Rightarrow> int \<Rightarrow> ('o \<Rightarrow> bool) \<Rightarrow> ('o \<Rightarrow> bytes) \<Rightarrow> 'k dirnode \<Rightarrow> nat \<Rightarrow> nat \<Rightarrow> bytes
     \<Rightarrow> ('o, 'k dirnode) volume \<Rightarrow> bool" where
  "file_holds cfg name fd good data dn fh i x v \<longleftrightarrow>
     (\<exists>fn. in_use dn fh i fn v \<and> node_inv cfg name fd good data (fn_io fn, v_os v) \<and>
       node_content cfg data (fn_io fn, v_os v) = x)"

locale volume_file =
  fixes env :: "('o, 'k) surroundings" and dn :: "'k dirnode" and cfg :: "'k FSConfig" and name :: bytes and fd :: int
    and good :: "'o \<Rightarrow> bool" and data :: "'o \<Rightarrow> bytes" and key_ok :: "'k \<Rightarrow> bool"
  assumes disk: "unix_disk (ud_file (e_disk env)) name fd good data" and random: "cipher_random (fs_cipher cfg) key_ok"
    and key: "key_ok (fs_key cfg)" and big: "1 < dataBlockSize cfg"
    and blocks: "vt_cipherBlockSize (fs_cipher cfg) dvd cio_blockSize cfg"
    and no_holes: "\<not> c_allowHoles (fs_config cfg)" and forward: "\<not> fs_reverseEncryption cfg" and header: "haveHeader cfg"
    and mac_bytes: "0 \<le> c_blockMACBytes (fs_config cfg)" and mac_rand: "0 \<le> c_blockMACRandBytes (fs_config cfg)"
    and config: "dn_cfg dn = cfg"
begin

lemmas node_file =
  trunc_file.axioms(1) [OF node_trunc_file [OF disk random key big blocks no_holes forward header mac_bytes mac_rand]]

lemma node_steps:
  assumes "node_inv cfg name fd good data (fn_io fn, w)"
  shows "d \<noteq> [] \<Longrightarrow> \<exists>fn' w'. node_write cfg (ud_file (e_disk env)) off d (fn, w) = (Inr True, fn', w') \<and>
      node_inv cfg name fd good data (fn_io fn', w') \<and>
      node_content cfg data (fn_io fn', w') = put off d (node_content cfg data (fn_io fn, w))"
    and "\<exists>fn' w'. node_read cfg (ud_file (e_disk env)) off n (fn, w)
        = (Inr (Some (take n (drop off (node_content cfg data (fn_io fn, w))))), fn', w') \<and>
      node_inv cfg name fd good data (fn_io fn', w') \<and>
      node_content cfg data (fn_io fn', w') = node_content cfg data (fn_io fn, w)"
proof -
  have "returns (node_write cfg (ud_file (e_disk env)) off d) (fn, w) (\<lambda>ok (fn', w'). ok \<and>
      node_inv cfg name fd good data (fn_io fn', w') \<and>
      node_content cfg data (fn_io fn', w') = put off d (node_content cfg data (fn_io fn, w)))" if "d \<noteq> []"
    unfolding node_write_def returns_onIO by (rule returns_mono [OF byte_file.write_ok [OF node_file assms that]]) auto
  then show "d \<noteq> [] \<Longrightarrow> \<exists>fn' w'. node_write cfg (ud_file (e_disk env)) off d (fn, w) = (Inr True, fn', w') \<and>
      node_inv cfg name fd good data (fn_io fn', w') \<and>
      node_content cfg data (fn_io fn', w') = put off d (node_content cfg data (fn_io fn, w))"
    by (auto simp: returns_iff)
  have "returns (node_read cfg (ud_file (e_disk env)) off n) (fn, w) (\<lambda>r (fn', w').
      r = Some (take n (drop off (node_content cfg data (fn_io fn, w)))) \<and> node_inv cfg name fd good data (fn_io fn', w') \<and>
      node_content cfg data (fn_io fn', w') = node_content cfg data (fn_io fn, w))"
    unfolding node_read_def returns_onIO by (rule returns_mono [OF byte_file.read_ok [OF node_file assms]]) auto
  then show "\<exists>fn' w'. node_read cfg (ud_file (e_disk env)) off n (fn, w)
        = (Inr (Some (take n (drop off (node_content cfg data (fn_io fn, w))))), fn', w') \<and>
      node_inv cfg name fd good data (fn_io fn', w') \<and>
      node_content cfg data (fn_io fn', w') = node_content cfg data (fn_io fn, w)"
    by (auto simp: returns_iff)
qed

lemma write_ok:
  assumes "file_holds cfg name fd good data dn fh i x v" and "d \<noteq> []"
  shows "\<exists>v'. encfs_write env path d off fh v = (Inr (int (length d)), v') \<and>
    file_holds cfg name fd good data dn fh i (put off d x) v'"
proof -
  obtain fn where u: "in_use dn fh i fn v" and n: "node_inv cfg name fd good data (fn_io fn, v_os v)"
      "node_content cfg data (fn_io fn, v_os v) = x" using assms(1) unfolding file_holds_def by blast
  obtain fn1 w1 where w: "node_write cfg (ud_file (e_disk env)) off d (fn, v_os v) = (Inr True, fn1, w1)"
      "node_inv cfg name fd good data (fn_io fn1, w1)" "node_content cfg data (fn_io fn1, w1) = put off d x"
    using node_steps(1) [OF n(1) assms(2)] n(2) by blast
  have "do_write env d off (dn_cfg dn) (fn, v_os v) = (Inr (int (length d)), fn1, w1)"
    using w(1) by (simp add: config do_write_def sbind_def sret_def)
  then obtain v1 where "encfs_write env path d off fh v = (Inr (int (length d)), v1)" "in_use dn fh i fn1 v1" "v_os v1 = w1"
    unfolding encfs_write_def by (rule withFileNode_in_use [OF u])
  then show ?thesis using w(2,3) unfolding file_holds_def by blast
qed

lemma read_ok:
  assumes "file_holds cfg name fd good data dn fh i x v"
  shows "\<exists>v'. encfs_read env path n off fh v = (Inr (int (length (take n (drop off x))), take n (drop off x)), v') \<and>
    file_holds cfg name fd good data dn fh i x v'"
proof -
  obtain fn where u: "in_use dn fh i fn v" and n: "node_inv cfg name fd good data (fn_io fn, v_os v)"
      "node_content cfg data (fn_io fn, v_os v) = x" using assms(1) unfolding file_holds_def by blast
  obtain fn1 w1 where w: "node_read cfg (ud_file (e_disk env)) off n (fn, v_os v) = (Inr (Some (take n (drop off x))), fn1, w1)"
      "node_inv cfg name fd good data (fn_io fn1, w1)" "node_content cfg data (fn_io fn1, w1) = x"
    using node_steps(2) [OF n(1)] n(2) by blast
  have "do_read env n off (dn_cfg dn) (fn, v_os v) = (Inr (int (length (take n (drop off x))), take n (drop off x)), fn1, w1)"
    using w(1) by (simp add: config do_read_def sbind_def sret_def)
  then obtain v1 where "encfs_read env path n off fh v = (Inr (int (length (take n (drop off x))), take n (drop off x)), v1)"
      "in_use dn fh i fn1 v1" "v_os v1 = w1"
    unfolding encfs_read_def by (rule withFileNode_in_use [OF u])
  then show ?thesis using w(2,3) unfolding file_holds_def by blast
qed

end

subsection \<open>Properties\<close>

text \<open>C12: whatever FUSE asks for, in any order and with any arguments, the volume stays consistent:
  the nodes alive are exactly those that handles point to (no handle dangles and no node is
  leaked, also when calls fail or throw), all handles of a path share a node, addresses are not
  used twice, and every handle can be used.\<close>
theorem volume_consistent:
  fixes env :: "('o, 'k) surroundings" and rs :: "'h request list" and w :: 'o
  assumes "mounts_ctx env"
  defines "v \<equiv> fold (serve env) rs (volume_init w)"
  shows "vol_ok v \<and> (\<forall>fh i. getNode fh (v_ctx v) = Some i \<longrightarrow> map_of (v_nodes v) i \<noteq> None) \<and>
    (\<forall>i fn. map_of (v_nodes v) i = Some fn \<longrightarrow> (\<exists>fh. getNode fh (v_ctx v) = Some i))"
proof -
  have ok: "vol_ok v" unfolding v_def by (rule requests_ok [OF assms(1)])
  then have d: "distinct (map fst (cx_holders (v_ctx v)))" by (simp add: vol_ok_def vol_base_def ctx_wf_def)
  have "map_of (v_nodes v) i \<noteq> None" if "getNode fh (v_ctx v) = Some i" for fh i
  proof -
    have "i \<in> held v" using that by (force simp: held_def getNode_def dest: map_of_SomeD)
    then show ?thesis using ok by (simp add: vol_ok_def alive_def map_of_eq_None_iff)
  qed
  moreover have "\<exists>fh. getNode fh (v_ctx v) = Some i" if "map_of (v_nodes v) i = Some fn" for i fn
  proof -
    have "i \<in> alive v" using that by (force simp: alive_def dest: map_of_SomeD)
    then obtain fh where "(fh, i) \<in> set (cx_holders (v_ctx v))" using ok by (auto simp: vol_ok_def held_def)
    then show ?thesis using d by (auto simp: getNode_def intro: map_of_is_SomeI)
  qed
  ultimately show ?thesis using ok by blast
qed

text \<open>Surroundings for the examples: mounting always succeeds, and nothing else does anything.\<close>

definition sample_env :: "'o unixdir \<Rightarrow> 'k dirnode \<Rightarrow> ('o, 'k) surroundings" where
  "sample_env u dn =
     \<lparr>e_disk = u, e_initFS = (\<lambda>w c. Some dn), e_public = False, e_depth = 5,
      e_dup = (\<lambda>d w. (d, w)), e_utime = (\<lambda>p t w. (-1, w)), e_utimes = (\<lambda>p t w. (-1, w)),
      e_statvfs = (\<lambda>p w. ((0, \<lparr>f_bsize = 4096, f_frsize = 4096, f_blocks = 0, f_bfree = 0, f_bavail = 0,
        f_files = 0, f_ffree = 0, f_favail = 0, f_fsid = 0, f_flag = 0, f_namemax = 255\<rparr>), w)),
      e_lastError = (\<lambda>w. 5), e_getAttributes = (\<lambda>p w. (0x20, w)), e_setAttributes = (\<lambda>p a w. (False, w)),
      e_openAttributes = (\<lambda>p w. (None, w)), e_closeHandle = (\<lambda>h w. ((), w)), e_setTimes = (\<lambda>h t w. (False, w))\<rparr>"

theorem volume_consistent_witness:
  "let v = fold (serve (sample_env name_disk chained_dir))
      ([Open [47, 100] 0, Open [47, 100] 0, Rename [47, 100] [47, 101], Release [47, 101] 2] :: unit request list)
      (volume_init (v_os chained_volume))
   in vol_ok v \<and> getNode 3 (v_ctx v) = Some 1 \<and> map_of (v_nodes v) 1 \<noteq> None"
proof -
  let ?v = "fold (serve (sample_env name_disk chained_dir))
      ([Open [47, 100] 0, Open [47, 100] 0, Rename [47, 100] [47, 101], Release [47, 101] 2] :: unit request list)
      (volume_init (v_os chained_volume))"
  have "mounts_ctx (sample_env name_disk chained_dir)"
    by (simp add: mounts_ctx_def sample_env_def chained_dir_def DirNode_new_def)
  note c = volume_consistent [OF this, of "[Open [47, 100] 0, Open [47, 100] 0, Rename [47, 100] [47, 101],
      Release [47, 101] 2] :: unit request list" "v_os chained_volume"]
  have "getNode 3 (v_ctx ?v) = Some 1" by code_simp
  then show ?thesis using c unfolding Let_def by blast
qed


text \<open>C16: the callbacks for Windows attributes do let exceptions out: a name that cannot be coded ends
  the call with its exception; and when the volume cannot be mounted, the error code is
  returned as a set of attributes, in which nearly every bit is set, that of a directory too.\<close>
theorem win_attributes_escape:
  assumes "cx_root (v_ctx v) = Some dn" and "cipherPath dn path = Inl e"
    and "cx_root (v_ctx u) = None" and "\<forall>c. e_initFS env (v_os u) c = None"
  shows "fst (encfs_win_get_attributes env path v) = Inl e \<and> fst (encfs_win_set_attributes env path attr v) = Inl e \<and>
    fst (encfs_win_get_attributes env path u) = Inr 0xFFFFFFF3"
proof -
  have u: "cb_root env u = (Inr (Inl (- EACCES)), u\<lparr>v_ctx := (v_ctx u)\<lparr>cx_usageCount := cx_usageCount (v_ctx u) + 1\<rparr>\<rparr>)"
    using assms(3,4) by (simp add: cb_root_def getRoot.simps remountFS_def setRoot_def Let_def EACCES_def)
  show ?thesis
    unfolding encfs_win_get_attributes_def encfs_win_set_attributes_def with_root_def
    using assms(2) by (simp add: sbind_def cb_root_mounted [OF assms(1)] u sres_def sret_def EACCES_def)
qed

theorem win_attributes_escape_witness:
  defines "dn \<equiv> DirNode_new True [47, 114] (null_cfg\<lparr>fs_nameCoding := letterNames\<lparr>ni_reverseEncryption := True\<rparr>\<rparr>) :: unit dirnode"
  defines "u \<equiv> volume_init [] :: (bytes list, unit dirnode) volume"
  shows "fst (encfs_win_get_attributes ((sample_env name_disk dn)\<lparr>e_initFS := \<lambda>w c. None\<rparr>) [47, 100]
      (u\<lparr>v_ctx := (v_ctx u)\<lparr>cx_root := Some dn\<rparr>\<rparr>)) = Inl ChecksumMismatch \<and>
    fst (encfs_win_get_attributes ((sample_env name_disk dn)\<lparr>e_initFS := \<lambda>w c. None\<rparr>) [47, 100] u) = Inr 0xFFFFFFF3"
proof -
  let ?env = "(sample_env name_disk dn)\<lparr>e_initFS := \<lambda>w c. None\<rparr>"
  have c: "cipherPath dn [47, 100] = Inl ChecksumMismatch" unfolding dn_def by code_simp
  show ?thesis
    using win_attributes_escape [where env = ?env and v = "u\<lparr>v_ctx := (v_ctx u)\<lparr>cx_root := Some dn\<rparr>\<rparr>" and dn = dn
        and path = "[47, 100]" and u = u and e = ChecksumMismatch] c
    by (simp add: u_def volume_init_def EncFS_Context_new_def)
qed

text \<open>what is written through a handle is what is then read through it: with a working disk the
  two callbacks report all bytes and give them back.\<close>
theorem fuse_write_read:
  assumes "unix_disk (ud_file (e_disk env)) name fd good data" and "cipher_random (fs_cipher cfg) key_ok"
    and "key_ok (fs_key cfg)" and "1 < dataBlockSize cfg" and "vt_cipherBlockSize (fs_cipher cfg) dvd cio_blockSize cfg"
    and "\<not> c_allowHoles (fs_config cfg)" and "\<not> fs_reverseEncryption cfg" and "haveHeader cfg"
    and "0 \<le> c_blockMACBytes (fs_config cfg)" and "0 \<le> c_blockMACRandBytes (fs_config cfg)"
    and "in_use dn fh i fn v" and "dn_cfg dn = cfg" and "node_inv cfg name fd good data (fn_io fn, v_os v)" and "d \<noteq> []"
  shows "\<exists>v1 v2. encfs_write env path d off fh v = (Inr (int (length d)), v1) \<and>
    encfs_read env path' (length d) off fh v1 = (Inr (int (length d), d), v2) \<and> in_use dn fh i (the (map_of (v_nodes v2) i)) v2"
proof -
  have f: "volume_file env dn cfg name fd good data key_ok" by (rule volume_file.intro) (fact assms)+
  have h: "file_holds cfg name fd good data dn fh i (node_content cfg data (fn_io fn, v_os v)) v"
    using assms(11,13) by (auto simp: file_holds_def)
  obtain v1 where v1: "encfs_write env path d off fh v = (Inr (int (length d)), v1)"
      "file_holds cfg name fd good data dn fh i (put off d (node_content cfg data (fn_io fn, v_os v))) v1"
    using volume_file.write_ok [OF f h assms(14)] by blast
  obtain v2 where v2: "encfs_read env path' (length d) off fh v1 = (Inr (int (length d), d), v2)"
      "file_holds cfg name fd good data dn fh i (put off d (node_content cfg data (fn_io fn, v_os v))) v2"
    using volume_file.read_ok [OF f v1(2), of path' "length d" off] by (auto simp: put_def)
  then show ?thesis using v1(1) by (auto simp: file_holds_def in_use_def)
qed

definition mem_dir :: "bytes unixdir" where
  "mem_dir = \<lparr>ud_file = mem_disk, ud_rename = (\<lambda>a b w. (-1, w)), ud_mkdir = (\<lambda>p m w. (-1, w)), ud_rmdir = (\<lambda>p w. (-1, w)),
     ud_unlink = (\<lambda>p w. (-1, w)), ud_stat = (\<lambda>p w. ((-1, 0, 0), w)), ud_utime = (\<lambda>p t w. (-1, w)), ud_opendir = (\<lambda>p w. (None, w))\<rparr>"

interpretation sample_volume: volume_file "sample_env mem_dir (DirNode_new True [47, 114] mac_sample_cfg)"
    "DirNode_new True [47, 114] mac_sample_cfg" mac_sample_cfg "lit ''/f''" 3 "\<lambda>_. True" "\<lambda>w. w" "ssl_key_ok sample_sc"
  by (rule volume_file.intro)
     (simp_all add: sample_env_def mem_dir_def sample_random sample_ok DirNode_new_def mem_disk.unix_disk_axioms)

theorem fuse_write_read_witness:
  defines "dn \<equiv> DirNode_new True [47, 114] mac_sample_cfg"
  defines "v \<equiv> \<lparr>v_ctx = (putNode [47] 1 2 EncFS_Context_new)\<lparr>cx_root := Some dn\<rparr>, v_nodes = [(1, sample_node)], v_next = 3, v_os = []\<rparr>"
  shows "\<exists>v1 v2. encfs_write (sample_env mem_dir dn) [47] [5, 6] 1 2 v = (Inr 2, v1) \<and>
    encfs_read (sample_env mem_dir dn) [47] 2 1 2 v1 = (Inr (2, [5, 6]), v2)"
proof -
  have i: "node_inv mac_sample_cfg (lit ''/f'') 3 (\<lambda>_. True) (\<lambda>w. w) (fn_io sample_node, [])"
    using mac_sample_file by (simp add: sample_node_def mac_sample_file_def sample_file_def hasBlockHeader_def)
  have u: "in_use dn 2 1 sample_node v" by (simp add: in_use_def v_def putNode_def getNode_def EncFS_Context_new_def)
  show ?thesis
    using fuse_write_read [where env = "sample_env mem_dir dn" and dn = dn and v = v and cfg = mac_sample_cfg and fn = sample_node
      and d = "[5, 6]" and off = 1 and fh = 2 and i = 1 and path = "[47]" and path' = "[47]" and key_ok = "ssl_key_ok sample_sc"
      and name = "lit ''/f''" and fd = 3 and good = "\<lambda>_. True" and data = "\<lambda>w. w"] mem_disk.unix_disk_axioms i u
    by (auto simp: sample_env_def mem_dir_def sample_random sample_ok dn_def DirNode_new_def v_def numeral_2_eq_2)
qed

end
