(* ===== verification/FileLocks.thy ===== *)
theory FileLocks
  imports CompatWin
begin

text \<open>
  The table of open files of \<open>fuse4win/src/fusemain.cpp\<close>: share modes and locked ranges
  (\<open>impl_file_locks\<close>, \<open>impl_file_lock\<close>, \<open>impl_file_handle\<close>), with the lemmas that no two
  handles of a file own a common byte.
\<close>

subsection \<open>Rights\<close>

text \<open>
  The masks of \<open>winnt.h\<close>.  \<open>ACCESS_READ\<close> and \<open>ACCESS_WRITE\<close> have the right to read the
  security descriptor and the right to wait in common, which \<open>FILE_GENERIC_READ\<close> and
  \<open>FILE_GENERIC_WRITE\<close> both contain.
\<close>

definition READ_CONTROL :: u32 where "READ_CONTROL = 0x20000"
definition GENERIC_EXECUTE :: u32 where "GENERIC_EXECUTE = 0x20000000"
definition FILE_GENERIC_READ :: u32 where "FILE_GENERIC_READ = 0x120089"
definition FILE_GENERIC_WRITE :: u32 where "FILE_GENERIC_WRITE = 0x120116"
definition FILE_GENERIC_EXECUTE :: u32 where "FILE_GENERIC_EXECUTE = 0x1200A0"
definition FILE_READ_DATA :: u32 where "FILE_READ_DATA = 1"
definition FILE_WRITE_DATA :: u32 where "FILE_WRITE_DATA = 2"
definition FILE_APPEND_DATA :: u32 where "FILE_APPEND_DATA = 4"
definition FILE_READ_EA :: u32 where "FILE_READ_EA = 8"
definition FILE_WRITE_EA :: u32 where "FILE_WRITE_EA = 0x10"
definition FILE_EXECUTE :: u32 where "FILE_EXECUTE = 0x20"
definition FILE_DELETE_CHILD :: u32 where "FILE_DELETE_CHILD = 0x40"
definition DELETE :: u32 where "DELETE = 0x10000"
definition WRITE_DAC :: u32 where "WRITE_DAC = 0x40000"
definition WRITE_OWNER :: u32 where "WRITE_OWNER = 0x80000"

definition ACCESS_READ :: u32 where
  "ACCESS_READ = READ_CONTROL OR GENERIC_READ OR GENERIC_EXECUTE OR FILE_GENERIC_EXECUTE OR FILE_GENERIC_READ
     OR FILE_EXECUTE OR FILE_READ_DATA OR FILE_READ_EA"

definition ACCESS_WRITE :: u32 where
  "ACCESS_WRITE = READ_CONTROL OR GENERIC_WRITE OR FILE_GENERIC_WRITE OR WRITE_DAC OR WRITE_OWNER
     OR FILE_APPEND_DATA OR FILE_WRITE_ATTRIBUTES OR FILE_WRITE_DATA OR FILE_WRITE_EA"

definition required_share :: "u32 \<Rightarrow> u32" where
  "required_share access_mode =
     (if access_mode AND ACCESS_READ \<noteq> 0 then FILE_SHARE_READ else 0)
     OR (if access_mode AND ACCESS_WRITE \<noteq> 0 then FILE_SHARE_WRITE else 0)
     OR (if access_mode AND (DELETE OR FILE_DELETE_CHILD) \<noteq> 0 then FILE_SHARE_DELETE else 0)"

definition convert_flags :: "u32 \<Rightarrow> int" where
  "convert_flags Flags =
     (let read = (Flags AND ACCESS_READ \<noteq> 0); write = (Flags AND ACCESS_WRITE \<noteq> 0) in
      if read \<and> \<not> write then O_RDONLY
      else if \<not> read \<and> write then O_WRONLY
      else O_RDWR)"

subsection \<open>Ranges of one handle\<close>

text \<open>A \<open>std::map\<close> from starts to lengths, as a list in the order of the starts.\<close>

type_synonym ranges = "(int \<times> int) list"

fun ranges_put :: "int \<Rightarrow> int \<Rightarrow> ranges \<Rightarrow> ranges" where
  "ranges_put start n [] = [(start, n)]"
| "ranges_put start n ((k, l) # rs) =
     (if start < k then (start, n) # (k, l) # rs
      else if start = k then (k, n) # rs
      else (k, l) # ranges_put start n rs)"

definition ranges_erase :: "int \<Rightarrow> ranges \<Rightarrow> ranges" where
  "ranges_erase start rs = filter (\<lambda>r. fst r \<noteq> start) rs"

text \<open>
  Does a range clash with one of the map?  The code looks at the first range that does not
  start before it (\<open>lower_bound\<close>) and at the last one that does.
\<close>

definition reaches :: "ranges \<Rightarrow> int \<Rightarrow> bool" where
  "reaches before start = (before \<noteq> [] \<and> start - fst (last before) < snd (last before))"

definition range_clash :: "ranges \<Rightarrow> int \<Rightarrow> int \<Rightarrow> bool" where
  "range_clash rs start n =
     (case dropWhile (\<lambda>r. fst r < start) rs of
        r # _ \<Rightarrow> n > fst r - start \<or> reaches (takeWhile (\<lambda>r. fst r < start) rs) start
      | [] \<Rightarrow> reaches rs start)"

text \<open>Two ranges have a byte in common.\<close>

definition overlap :: "int \<times> int \<Rightarrow> int \<times> int \<Rightarrow> bool" where
  "overlap a b = (fst a < fst b + snd b \<and> fst b < fst a + snd a)"

definition ranges_ok :: "ranges \<Rightarrow> bool" where
  "ranges_ok rs \<longleftrightarrow> sorted_wrt (\<lambda>a b. fst a + snd a \<le> fst b) rs \<and> (\<forall>r \<in> set rs. 0 \<le> fst r \<and> 0 < snd r)"

lemma overlap_sym: "overlap a b \<longleftrightarrow> overlap b a"
  by (auto simp: overlap_def)

lemma ranges_ok_Nil [simp]: "ranges_ok []" by (simp add: ranges_ok_def)

lemma ranges_ok_Cons:
  "ranges_ok (r # rs) \<longleftrightarrow> ranges_ok rs \<and> 0 \<le> fst r \<and> 0 < snd r \<and> (\<forall>x \<in> set rs. fst r + snd r \<le> fst x)"
  by (auto simp: ranges_ok_def)

lemma ranges_ok_append:
  "ranges_ok (xs @ ys) \<longleftrightarrow> ranges_ok xs \<and> ranges_ok ys \<and> (\<forall>x \<in> set xs. \<forall>y \<in> set ys. fst x + snd x \<le> fst y)"
  by (auto simp: ranges_ok_def sorted_wrt_append)

lemma ranges_positive: "ranges_ok rs \<Longrightarrow> r \<in> set rs \<Longrightarrow> 0 \<le> fst r \<and> 0 < snd r"
  by (simp add: ranges_ok_def)

lemma ranges_disjoint:
  "ranges_ok rs \<Longrightarrow> a \<in> set rs \<Longrightarrow> b \<in> set rs \<Longrightarrow> overlap a b \<Longrightarrow> a = b"
proof (induction rs)
  case (Cons r rs)
  have "\<not> overlap r x \<and> \<not> overlap x r" if "x \<in> set rs" for x
    using Cons.prems(1) that by (force simp: ranges_ok_Cons overlap_def)
  moreover have "a = r \<or> a \<in> set rs" "b = r \<or> b \<in> set rs" using Cons.prems(2,3) by simp_all
  moreover have "ranges_ok rs" using Cons.prems(1) by (simp add: ranges_ok_Cons)
  ultimately show ?case using Cons.IH Cons.prems(4) by blast
qed simp

text \<open>In a map without overlaps the two neighbours decide.\<close>

lemma reaches_iff:
  assumes "ranges_ok rs" and "\<forall>r \<in> set rs. fst r < start" and "0 < n"
  shows "reaches rs start \<longleftrightarrow> (\<exists>r \<in> set rs. overlap (start, n) r)"
  using assms(1,2)
proof (induction rs)
  case (Cons r rs)
  show ?case
  proof (cases "rs = []")
    case True
    then show ?thesis using Cons.prems assms(3) by (auto simp: reaches_def overlap_def)
  next
    case False
    then obtain x where "x \<in> set rs" by (metis last_in_set)
    then have "fst r + snd r \<le> start" using Cons.prems by (force simp: ranges_ok_Cons)
    then have "\<not> overlap (start, n) r" by (auto simp: overlap_def)
    then show ?thesis using Cons False by (simp add: ranges_ok_Cons reaches_def)
  qed
qed (simp add: reaches_def)

lemma later_ranges:
  assumes "ranges_ok rs" and "\<forall>r \<in> set rs. start \<le> fst r" and "0 < n"
  shows "(\<exists>r \<in> set rs. overlap (start, n) r) \<longleftrightarrow> (case rs of [] \<Rightarrow> False | r # _ \<Rightarrow> n > fst r - start)"
proof (cases rs)
  case (Cons r rest)
  have l: "0 < snd r" "start \<le> fst r" using assms Cons by (auto simp: ranges_ok_Cons)
  have "fst r < start + n" if "x \<in> set rest" "overlap (start, n) x" for x
    using assms(1) that Cons l by (force simp: ranges_ok_Cons overlap_def)
  then have "(\<exists>x \<in> set rs. overlap (start, n) x) \<longleftrightarrow> fst r < start + n"
    using l assms(3) by (auto simp: Cons overlap_def)
  then show ?thesis by (auto simp: Cons)
qed simp

lemma clash_iff:
  assumes "ranges_ok rs" and "0 < n"
  shows "range_clash rs start n \<longleftrightarrow> (\<exists>r \<in> set rs. overlap (start, n) r)"
proof -
  let ?b = "takeWhile (\<lambda>r. fst r < start) rs" and ?a = "dropWhile (\<lambda>r. fst r < start) rs"
  have rs: "rs = ?b @ ?a" by simp
  have ok: "ranges_ok ?b" "ranges_ok ?a" using assms(1) ranges_ok_append [of ?b ?a] by simp_all
  have b: "\<forall>r \<in> set ?b. fst r < start" by (auto dest: set_takeWhileD)
  have a: "\<forall>r \<in> set ?a. start \<le> fst r"
  proof (cases ?a)
    case (Cons r rest)
    then have "start \<le> fst r" using hd_dropWhile [of "\<lambda>r. fst r < start" rs] by simp
    then show ?thesis using ok(2) unfolding Cons by (force simp: ranges_ok_Cons)
  next
    case Nil
    then show ?thesis unfolding Nil by simp
  qed
  have "(\<exists>r \<in> set rs. overlap (start, n) r) \<longleftrightarrow> reaches ?b start \<or> (case ?a of [] \<Rightarrow> False | r # _ \<Rightarrow> n > fst r - start)"
    unfolding reaches_iff [OF ok(1) b assms(2)] later_ranges [OF ok(2) a assms(2), symmetric]
    by (metis (no_types, lifting) Un_iff rs set_append)
  moreover have "?a = [] \<Longrightarrow> ?b = rs" using rs by (metis append_Nil2)
  ultimately show ?thesis by (cases ?a) (simp_all only: range_clash_def list.case disj_commute simp_thms)
qed

lemma put_set:
  "\<forall>r \<in> set rs. fst r \<noteq> start \<Longrightarrow> set (ranges_put start n rs) = insert (start, n) (set rs)"
  by (induction start n rs rule: ranges_put.induct) auto

lemma starts_differ:
  "ranges_ok rs \<Longrightarrow> 0 < n \<Longrightarrow> \<forall>r \<in> set rs. \<not> overlap (start, n) r \<Longrightarrow> \<forall>r \<in> set rs. fst r \<noteq> start"
  by (force simp: ranges_ok_def overlap_def)

lemma put_ok:
  assumes "ranges_ok rs" and "0 \<le> start" and "0 < n" and "\<forall>r \<in> set rs. \<not> overlap (start, n) r"
  shows "ranges_ok (ranges_put start n rs)"
  using assms(1,4)
proof (induction rs)
  case (Cons r rs)
  obtain k l where r: "r = (k, l)" by (cases r)
  have s: "set (ranges_put start n rs) = insert (start, n) (set rs)"
    using Cons.prems assms(3) by (intro put_set starts_differ) (auto simp: ranges_ok_Cons)
  show ?case
  proof (cases "start < k")
    case True
    then have "start + n \<le> k" using Cons.prems r by (auto simp: ranges_ok_Cons overlap_def)
    then show ?thesis using Cons.prems r True assms(2,3) by (fastforce simp: ranges_ok_Cons)
  next
    case False
    then have "k + l \<le> start" using Cons.prems r assms(3) by (auto simp: ranges_ok_Cons overlap_def)
    moreover have "start \<noteq> k" using calculation Cons.prems r by (auto simp: ranges_ok_Cons)
    ultimately show ?thesis using Cons r False s by (auto simp: ranges_ok_Cons)
  qed
qed (use assms in \<open>simp add: ranges_ok_Cons\<close>)

lemma erase_ok: "ranges_ok rs \<Longrightarrow> ranges_ok (ranges_erase start rs)"
  by (induction rs) (auto simp: ranges_ok_Cons ranges_erase_def)

lemma erase_set: "set (ranges_erase start rs) = {r \<in> set rs. fst r \<noteq> start}"
  by (simp add: ranges_erase_def)

subsection \<open>Handles and locks\<close>

text \<open>
  A handle belongs to a lock object, one per open name; the lock chains its handles, the
  newest first.  Both live on a heap, and \<open>ft_names\<close> is the map \<open>file_locks\<close>.
\<close>

record file_handle =
  fh_is_dir :: bool
  fh_fh :: u64
  fh_shared :: u32
  fh_lock :: nat
  fh_locks :: ranges

record file_lock =
  lk_name :: bytes
  lk_files :: "nat list"

record file_table =
  ft_names :: "bytes \<rightharpoonup> nat"
  ft_locks :: "nat \<rightharpoonup> file_lock"
  ft_handles :: "nat \<rightharpoonup> file_handle"
  ft_next :: nat

definition file_table_new :: file_table where
  "file_table_new = \<lparr>ft_names = Map.empty, ft_locks = Map.empty, ft_handles = Map.empty, ft_next = 1\<rparr>"

definition impl_file_handle :: "bool \<Rightarrow> u32 \<Rightarrow> nat \<Rightarrow> file_handle" where
  "impl_file_handle is_dir shared_mode lock =
     \<lparr>fh_is_dir = is_dir, fh_fh = - 1, fh_shared = shared_mode, fh_lock = lock, fh_locks = []\<rparr>"

text \<open>The lock of a handle and the handles of a lock; a pointer to a freed object finds nothing.\<close>

definition chain :: "file_table \<Rightarrow> nat \<Rightarrow> nat list" where
  "chain t a = (case ft_locks t a of None \<Rightarrow> [] | Some l \<Rightarrow> lk_files l)"

definition handle_ranges :: "file_table \<Rightarrow> nat \<Rightarrow> ranges" where
  "handle_ranges t f = (case ft_handles t f of None \<Rightarrow> [] | Some h \<Rightarrow> fh_locks h)"

definition lock_of :: "file_table \<Rightarrow> nat \<Rightarrow> nat option" where
  "lock_of t f = map_option fh_lock (ft_handles t f)"

definition get_name :: "file_table \<Rightarrow> nat \<Rightarrow> bytes" where
  "get_name t f = (case lock_of t f of None \<Rightarrow> [] | Some a \<Rightarrow>
     (case ft_locks t a of None \<Rightarrow> [] | Some l \<Rightarrow> lk_name l))"

definition set_chain :: "nat \<Rightarrow> nat list \<Rightarrow> file_table \<Rightarrow> file_table" where
  "set_chain a fs t =
     t\<lparr>ft_locks := (case ft_locks t a of None \<Rightarrow> ft_locks t | Some l \<Rightarrow> (ft_locks t)(a \<mapsto> l\<lparr>lk_files := fs\<rparr>))\<rparr>"

definition set_ranges :: "nat \<Rightarrow> ranges \<Rightarrow> file_table \<Rightarrow> file_table" where
  "set_ranges f rs t =
     t\<lparr>ft_handles := (case ft_handles t f of None \<Rightarrow> ft_handles t | Some h \<Rightarrow> (ft_handles t)(f \<mapsto> h\<lparr>fh_locks := rs\<rparr>))\<rparr>"

definition set_finfo :: "nat \<Rightarrow> u64 \<Rightarrow> file_table \<Rightarrow> file_table" where
  "set_finfo f fh t =
     t\<lparr>ft_handles := (case ft_handles t f of None \<Rightarrow> ft_handles t | Some h \<Rightarrow> (ft_handles t)(f \<mapsto> h\<lparr>fh_fh := fh\<rparr>))\<rparr>"

text \<open>
  Removing a handle has two critical sections: it leaves the chain of its lock, and when the
  chain was seen empty, the lock that the name has now is freed if its chain is empty.
\<close>

definition lock_remove_file :: "nat \<Rightarrow> file_table \<Rightarrow> (bytes option) \<times> file_table" where
  "lock_remove_file f t =
     (case lock_of t f of
        None \<Rightarrow> (None, t)
      | Some a \<Rightarrow>
          (let fs = filter (\<lambda>g. g \<noteq> f) (chain t a) in
           (if fs = [] then map_option lk_name (ft_locks t a) else None, set_chain a fs t)))"

definition locks_remove_file :: "bytes \<Rightarrow> file_table \<Rightarrow> file_table" where
  "locks_remove_file name t =
     (case ft_names t name of
        None \<Rightarrow> t
      | Some a \<Rightarrow> if chain t a = []
                   then t\<lparr>ft_names := (ft_names t)(name := None), ft_locks := (ft_locks t)(a := None)\<rparr>
                   else t)"

definition delete_handle :: "nat \<Rightarrow> file_table \<Rightarrow> file_table" where
  "delete_handle f t =
     (case lock_remove_file f t of (gone, t) \<Rightarrow>
      let t = (case gone of None \<Rightarrow> t | Some name \<Rightarrow> locks_remove_file name t) in
      t\<lparr>ft_handles := (ft_handles t)(f := None)\<rparr>)"

text \<open>
  Getting a file has two critical sections as well: finding the lock of the name or making
  one, and for a lock that was there, checking the shares of its handles.  The first gives
  the handle and whether the lock was there.
\<close>

definition get_file_find :: "bytes \<Rightarrow> bool \<Rightarrow> u32 \<Rightarrow> file_table \<Rightarrow> (nat \<times> bool) \<times> file_table" where
  "get_file_find name is_dir shared_mode t =
     (let f = ft_next t in
      case ft_names t name of
        Some a \<Rightarrow> ((f, True), t\<lparr>ft_handles := (ft_handles t)(f \<mapsto> impl_file_handle is_dir shared_mode a), ft_next := f + 1\<rparr>)
      | None \<Rightarrow> ((f, False),
          t\<lparr>ft_names := (ft_names t)(name \<mapsto> f + 1), ft_locks := (ft_locks t)(f + 1 \<mapsto> \<lparr>lk_name = name, lk_files = [f]\<rparr>),
            ft_handles := (ft_handles t)(f \<mapsto> impl_file_handle is_dir shared_mode (f + 1)), ft_next := f + 2\<rparr>))"

definition shared_by :: "file_table \<Rightarrow> nat list \<Rightarrow> u32" where
  "shared_by t fs =
     fold (\<lambda>f share. share AND (case ft_handles t f of None \<Rightarrow> 0 | Some h \<Rightarrow> fh_shared h)) fs
       (FILE_SHARE_READ OR FILE_SHARE_WRITE OR FILE_SHARE_DELETE)"

definition get_file_add :: "nat \<Rightarrow> u32 \<Rightarrow> file_table \<Rightarrow> int \<times> file_table" where
  "get_file_add f access_mode t =
     (case lock_of t f of
        None \<Rightarrow> (0, t)
      | Some a \<Rightarrow>
          (let share = shared_by t (chain t a) in
           if required_share access_mode OR share \<noteq> share then (- EACCES, delete_handle f t)
           else (0, set_chain a (f # chain t a) t)))"

definition get_file :: "bytes \<Rightarrow> bool \<Rightarrow> u32 \<Rightarrow> u32 \<Rightarrow> file_table \<Rightarrow> (int + nat) \<times> file_table" where
  "get_file name is_dir access_mode shared_mode t =
     (case get_file_find name is_dir shared_mode t of ((f, old), t) \<Rightarrow>
      if \<not> old then (Inr f, t)
      else case get_file_add f access_mode t of (res, t) \<Rightarrow> (if res < 0 then Inl res else Inr f, t))"

definition renamed_file :: "bytes \<Rightarrow> bytes \<Rightarrow> file_table \<Rightarrow> file_table" where
  "renamed_file name new_name t =
     (if name = new_name then t
      else case ft_names t name of
             None \<Rightarrow> t
           | Some a \<Rightarrow>
               t\<lparr>ft_locks := (case ft_locks t a of None \<Rightarrow> ft_locks t
                              | Some l \<Rightarrow> (ft_locks t)(a \<mapsto> l\<lparr>lk_name := new_name\<rparr>)),
                 ft_names := (ft_names t)(new_name \<mapsto> a, name := None)\<rparr>)"

subsection \<open>Locking ranges\<close>

definition lock_range :: "nat \<Rightarrow> int \<Rightarrow> int \<Rightarrow> bool \<Rightarrow> file_table \<Rightarrow> int \<times> file_table" where
  "lock_range f start n mark t =
     (if start < 0 \<or> n \<le> 0 then (- EINVAL, t)
      else
        let fs = (case lock_of t f of None \<Rightarrow> [] | Some a \<Rightarrow> chain t a);
            locked = list_ex (\<lambda>i. (mark \<or> i \<noteq> f) \<and> range_clash (handle_ranges t i) start n) fs in
        (if locked then - EACCES else 0,
         if \<not> locked \<and> mark then set_ranges f (ranges_put start n (handle_ranges t f)) t else t))"

definition check_lock :: "nat \<Rightarrow> int \<Rightarrow> int \<Rightarrow> file_table \<Rightarrow> int" where
  "check_lock f start n t = fst (lock_range f start n False t)"

definition unlock_range :: "nat \<Rightarrow> int \<Rightarrow> int \<Rightarrow> file_table \<Rightarrow> int \<times> file_table" where
  "unlock_range f start n t =
     (if n = 0 then (0, t)
      else if start < 0 \<or> n \<le> 0 then (- EINVAL, t)
      else case map_of (handle_ranges t f) start of
             Some l \<Rightarrow> if l = n then (0, set_ranges f (ranges_erase start (handle_ranges t f)) t) else (- EACCES, t)
           | None \<Rightarrow> (- EACCES, t))"

subsection \<open>The table is consistent\<close>

text \<open>
  Handles and locks point to each other, names point to locks with that name and with handles,
  and no two handles of a lock hold overlapping ranges.  A lock that has lost its name by a
  renaming over it may be without handles.
\<close>

definition linked :: "file_table \<Rightarrow> bool" where
  "linked t \<longleftrightarrow>
     (\<forall>f h. ft_handles t f = Some h \<longrightarrow> f \<in> set (chain t (fh_lock h))) \<and>
     (\<forall>a f. f \<in> set (chain t a) \<longrightarrow> lock_of t f = Some a) \<and>
     (\<forall>a. distinct (chain t a)) \<and>
     (\<forall>n a. ft_names t n = Some a \<longrightarrow> (\<exists>l. ft_locks t a = Some l \<and> lk_name l = n \<and> lk_files l \<noteq> []))"

definition exclusive :: "file_table \<Rightarrow> bool" where
  "exclusive t \<longleftrightarrow>
     (\<forall>f. ranges_ok (handle_ranges t f)) \<and>
     (\<forall>f g r s. lock_of t f = lock_of t g \<longrightarrow> r \<in> set (handle_ranges t f) \<longrightarrow> s \<in> set (handle_ranges t g) \<longrightarrow>
        overlap r s \<longrightarrow> f = g \<and> r = s)"

definition fresh_next :: "file_table \<Rightarrow> bool" where
  "fresh_next t \<longleftrightarrow> (\<forall>i \<ge> ft_next t. ft_handles t i = None \<and> ft_locks t i = None)"

definition table_ok :: "file_table \<Rightarrow> bool" where
  "table_ok t \<longleftrightarrow> linked t \<and> exclusive t \<and> fresh_next t"


lemma ranges_of_simps [simp]:
  "chain (t\<lparr>ft_handles := H\<rparr>) a = chain t a" "chain (t\<lparr>ft_names := N\<rparr>) a = chain t a" "chain (t\<lparr>ft_next := n\<rparr>) a = chain t a"
  "handle_ranges (t\<lparr>ft_locks := L\<rparr>) f = handle_ranges t f" "handle_ranges (t\<lparr>ft_names := N\<rparr>) f = handle_ranges t f"
  "handle_ranges (t\<lparr>ft_next := n\<rparr>) f = handle_ranges t f" "lock_of (t\<lparr>ft_locks := L\<rparr>) f = lock_of t f"
  "lock_of (t\<lparr>ft_names := N\<rparr>) f = lock_of t f" "lock_of (t\<lparr>ft_next := n\<rparr>) f = lock_of t f"
  by (simp_all add: chain_def handle_ranges_def lock_of_def)

lemma chain_set_chain:
  "chain (set_chain a fs t) b = (if b = a \<and> ft_locks t a \<noteq> None then fs else chain t b)"
  by (auto simp: chain_def set_chain_def split: option.splits)

lemma set_chain_simps [simp]:
  "ft_handles (set_chain a fs t) = ft_handles t" "ft_names (set_chain a fs t) = ft_names t" "ft_next (set_chain a fs t) = ft_next t"
  "lock_of (set_chain a fs t) f = lock_of t f" "handle_ranges (set_chain a fs t) f = handle_ranges t f"
  by (simp_all add: set_chain_def lock_of_def handle_ranges_def)

lemma set_ranges_simps [simp]:
  "ft_names (set_ranges f rs t) = ft_names t" "ft_locks (set_ranges f rs t) = ft_locks t" "ft_next (set_ranges f rs t) = ft_next t"
  "chain (set_ranges f rs t) a = chain t a" "lock_of (set_ranges f rs t) g = lock_of t g"
  by (auto simp: set_ranges_def chain_def lock_of_def split: option.splits)

lemma handle_set_ranges:
  "handle_ranges (set_ranges f rs t) g = (if g = f \<and> lock_of t f \<noteq> None then rs else handle_ranges t g)"
  by (auto simp: set_ranges_def handle_ranges_def lock_of_def split: option.splits)

lemma lock_handle: "lock_of t f = Some a \<longleftrightarrow> (\<exists>h. ft_handles t f = Some h \<and> fh_lock h = a)"
  by (auto simp: lock_of_def)

lemma no_lock_no_ranges: "lock_of t f = None \<Longrightarrow> handle_ranges t f = []"
  by (simp add: lock_of_def handle_ranges_def)

text \<open>The links in terms of chains.\<close>

lemma linked_iff:
  "linked t \<longleftrightarrow> (\<forall>f a. lock_of t f = Some a \<longleftrightarrow> f \<in> set (chain t a)) \<and> (\<forall>a. distinct (chain t a)) \<and>
     (\<forall>n a. ft_names t n = Some a \<longrightarrow> (\<exists>l. ft_locks t a = Some l \<and> lk_name l = n) \<and> chain t a \<noteq> [])"
  unfolding linked_def lock_handle by (fastforce simp: chain_def split: option.splits)

lemma linked_name: "linked t \<Longrightarrow> ft_names t n = Some a \<Longrightarrow> ft_locks t a = Some l \<Longrightarrow> lk_name l = n"
  unfolding linked_iff by (metis option.inject)

lemma linked_chain: "linked t \<Longrightarrow> f \<in> set (chain t a) \<longleftrightarrow> lock_of t f = Some a"
  by (simp add: linked_iff)

lemma linked_ne: "linked t \<Longrightarrow> ft_names t n = Some a \<Longrightarrow> chain t a \<noteq> [] \<and> ft_locks t a \<noteq> None"
  unfolding linked_iff by (metis option.distinct(1))

lemma exclusive_mono:
  assumes "exclusive t"
    and "\<And>f. handle_ranges t' f = handle_ranges t f \<and> lock_of t' f = lock_of t f \<or> handle_ranges t' f = []"
  shows "exclusive t'"
  using assms unfolding exclusive_def by (metis empty_iff list.set(1) ranges_ok_Nil)

lemma locks_finfo:
  "table_ok t \<Longrightarrow> table_ok (set_finfo f fh t)"
proof -
  assume t: "table_ok t"
  have s: "lock_of (set_finfo f fh t) g = lock_of t g" "handle_ranges (set_finfo f fh t) g = handle_ranges t g"
      "chain (set_finfo f fh t) a = chain t a" "ft_names (set_finfo f fh t) = ft_names t" "ft_locks (set_finfo f fh t) = ft_locks t" for g a
    by (auto simp: set_finfo_def lock_of_def handle_ranges_def chain_def split: option.splits)
  have "linked (set_finfo f fh t)" "exclusive (set_finfo f fh t)"
    using t by (simp_all add: table_ok_def linked_iff exclusive_def s)
  moreover have "fresh_next (set_finfo f fh t)"
    using t by (auto simp: table_ok_def fresh_next_def set_finfo_def split: option.splits)
  ultimately show ?thesis by (simp add: table_ok_def)
qed

subsection \<open>Every operation keeps the table consistent\<close>

lemma locks_remove_simps [simp]:
  "ft_handles (locks_remove_file n t) = ft_handles t" "ft_next (locks_remove_file n t) = ft_next t"
  "lock_of (locks_remove_file n t) f = lock_of t f" "handle_ranges (locks_remove_file n t) f = handle_ranges t f"
  "chain (locks_remove_file n t) a = chain t a"
  by (auto simp: locks_remove_file_def chain_def lock_of_def handle_ranges_def split: option.splits)

lemma names_locks_remove:
  "ft_names (locks_remove_file n t) =
     (case ft_names t n of None \<Rightarrow> ft_names t | Some a \<Rightarrow> if chain t a = [] then (ft_names t)(n := None) else ft_names t)"
  by (simp add: locks_remove_file_def split: option.splits)

lemma delete_eq:
  "lock_of t f = Some a \<Longrightarrow> ft_locks t a = Some l \<Longrightarrow>
     delete_handle f t =
       (let fs = filter (\<lambda>g. g \<noteq> f) (chain t a);
            t' = (if fs = [] then locks_remove_file (lk_name l) (set_chain a fs t) else set_chain a fs t) in
        t'\<lparr>ft_handles := (ft_handles t)(f := None)\<rparr>)"
  by (simp add: delete_handle_def lock_remove_file_def Let_def)

lemma delete_none: "lock_of t f = None \<Longrightarrow> delete_handle f t = t"
  by (simp add: delete_handle_def lock_remove_file_def lock_of_def fun_upd_idem)

text \<open>With the links intact, exactly the handle goes.\<close>

lemma delete_facts:
  assumes "linked t"
  shows "lock_of (delete_handle f t) g = (if g = f then None else lock_of t g)"
    and "handle_ranges (delete_handle f t) g = (if g = f then [] else handle_ranges t g)"
    and "chain (delete_handle f t) c = filter (\<lambda>g. g \<noteq> f) (chain t c)"
    and "ft_next (delete_handle f t) = ft_next t"
    and "ft_names (delete_handle f t) n = (case ft_names t n of None \<Rightarrow> None
           | Some a \<Rightarrow> if filter (\<lambda>g. g \<noteq> f) (chain t a) = [] then None else Some a)"
    and "ft_locks (delete_handle f t) a = Some l \<Longrightarrow> \<exists>k. ft_locks t a = Some k \<and> lk_name k = lk_name l"
proof -
  consider "lock_of t f = None" | b k where "lock_of t f = Some b" "ft_locks t b = Some k"
    using assms by (fastforce simp: linked_iff chain_def split: option.splits)
  note c = this
  have out: "f \<notin> set (chain t x)" if "lock_of t f \<noteq> Some x" for x using assms that by (simp add: linked_iff)
  then have same: "filter (\<lambda>g. g \<noteq> f) (chain t x) = chain t x" if "lock_of t f \<noteq> Some x" for x
    using that by (metis (mono_tags, lifting) filter_True)
  show "lock_of (delete_handle f t) g = (if g = f then None else lock_of t g)"
    by (rule c) (auto simp: delete_none delete_eq Let_def lock_of_def)
  show "handle_ranges (delete_handle f t) g = (if g = f then [] else handle_ranges t g)"
    by (rule c) (auto simp: delete_none delete_eq Let_def handle_ranges_def lock_of_def)
  show "chain (delete_handle f t) c = filter (\<lambda>g. g \<noteq> f) (chain t c)"
    by (rule c) (auto simp: delete_none delete_eq Let_def chain_set_chain same)
  show "ft_next (delete_handle f t) = ft_next t"
    by (rule c) (auto simp: delete_none delete_eq Let_def)
  note ne = linked_ne [OF assms, THEN conjunct1] and nm = linked_name [OF assms]
  show "ft_names (delete_handle f t) n = (case ft_names t n of None \<Rightarrow> None
           | Some a \<Rightarrow> if filter (\<lambda>g. g \<noteq> f) (chain t a) = [] then None else Some a)"
  proof (rule c)
    fix b k
    assume b: "lock_of t f = Some b" "ft_locks t b = Some k"
    have last: "x = b \<and> m = lk_name k" if "ft_names t m = Some x" "filter (\<lambda>g. g \<noteq> f) (chain t x) = []" for m x
    proof -
      have "x = b" using same [of x] ne [OF that(1)] that(2) b(1) by (metis option.inject)
      then show ?thesis using nm [OF that(1)] b(2) by simp
    qed
    show ?thesis
    proof (cases "ft_names t n")
      case None
      then show ?thesis using b by (simp add: delete_eq Let_def names_locks_remove split: option.splits)
    next
      case (Some x)
      show ?thesis
      proof (cases "filter (\<lambda>g. g \<noteq> f) (chain t x) = []")
        case True
        then show ?thesis using last [OF Some True] b Some by (simp add: delete_eq Let_def names_locks_remove chain_set_chain)
      next
        case False
        then have "chain (set_chain b (filter (\<lambda>g. g \<noteq> f) (chain t b)) t) x \<noteq> []"
          using b by (cases "x = b") (auto simp: chain_set_chain)
        then show ?thesis using b Some False
          by (cases "n = lk_name k") (auto simp: delete_eq Let_def names_locks_remove split: option.splits)
      qed
    qed
  qed (auto simp: delete_none same ne split: option.splits)
  show "\<exists>k. ft_locks t a = Some k \<and> lk_name k = lk_name l" if "ft_locks (delete_handle f t) a = Some l"
    by (rule c) (use that in \<open>auto simp: delete_none delete_eq Let_def locks_remove_file_def set_chain_def
      split: option.splits if_splits\<close>)
qed

lemma delete_ok:
  assumes "table_ok t"
  shows "table_ok (delete_handle f t)"
proof -
  have l: "linked t" and e: "exclusive t" and n: "fresh_next t" using assms by (simp_all add: table_ok_def)
  note d = delete_facts [OF l, of f]
  have "linked (delete_handle f t)"
    unfolding linked_iff
  proof (intro conjI allI impI)
    fix m a
    assume a: "ft_names (delete_handle f t) m = Some a"
    then have m: "ft_names t m = Some a" "filter (\<lambda>g. g \<noteq> f) (chain t a) \<noteq> []"
      by (auto simp: d(5) split: option.splits if_splits)
    then show "chain (delete_handle f t) a \<noteq> []" by (simp add: d(3))
    then obtain k where k: "ft_locks (delete_handle f t) a = Some k" by (auto simp: chain_def split: option.splits)
    then obtain k' where "ft_locks t a = Some k'" "lk_name k' = lk_name k" using d(6) by blast
    then show "\<exists>l. ft_locks (delete_handle f t) a = Some l \<and> lk_name l = m"
      using k linked_name [OF l m(1)] by auto
  qed (use l in \<open>auto simp: linked_iff d(1,3)\<close>)
  moreover have "exclusive (delete_handle f t)"
    using e by (rule exclusive_mono) (simp add: d(1,2))
  moreover have "fresh_next (delete_handle f t)"
    unfolding fresh_next_def
  proof (intro allI impI conjI)
    fix i
    assume i: "ft_next (delete_handle f t) \<le> i"
    then have f: "ft_handles t i = None" "ft_locks t i = None" using n by (simp_all add: fresh_next_def d(4))
    show "ft_locks (delete_handle f t) i = None" using f(2) d(6) [of i] by (cases "ft_locks (delete_handle f t) i") auto
    have "lock_of (delete_handle f t) i = None" unfolding d(1) using f(1) by (simp add: lock_of_def)
    then show "ft_handles (delete_handle f t) i = None" by (simp add: lock_of_def)
  qed
  ultimately show ?thesis by (simp add: table_ok_def)
qed

text \<open>A handle that is not in a chain yet.\<close>

lemma find_old:
  assumes "table_ok t" and "ft_names t name = Some a" and "get_file_find name d sh t = ((f, old), t')"
  shows "old \<and> f = ft_next t \<and> lock_of t' = (lock_of t)(f \<mapsto> a) \<and> handle_ranges t' = handle_ranges t \<and>
    (\<forall>c. chain t' c = chain t c) \<and> ft_names t' = ft_names t \<and> ft_locks t' = ft_locks t \<and> ft_next t' = f + 1 \<and>
    f \<notin> set (chain t c)"
proof -
  have "ft_handles t (ft_next t) = None" using assms(1) by (simp add: table_ok_def fresh_next_def)
  moreover have "f \<notin> set (chain t c)" if "f = ft_next t"
    using assms(1) that calculation by (simp add: table_ok_def linked_chain lock_of_def)
  ultimately show ?thesis
    using assms(2,3)
    by (auto simp: get_file_find_def Let_def lock_of_def handle_ranges_def impl_file_handle_def chain_def fun_eq_iff)
qed

lemma find_new:
  assumes "ft_names t name = None" and "get_file_find name d sh t = ((f, old), t')"
  shows "\<not> old \<and> f = ft_next t \<and> lock_of t' = (lock_of t)(f \<mapsto> f + 1) \<and> handle_ranges t' = (handle_ranges t)(f := []) \<and>
    chain t' = (chain t)(f + 1 := [f]) \<and> ft_names t' = (ft_names t)(name \<mapsto> f + 1) \<and>
    ft_locks t' = (ft_locks t)(f + 1 \<mapsto> \<lparr>lk_name = name, lk_files = [f]\<rparr>) \<and> ft_next t' = f + 2 \<and>
    (\<forall>i. i \<ge> f + 2 \<longrightarrow> ft_handles t' i = ft_handles t i)"
  using assms by (auto simp: get_file_find_def Let_def lock_of_def handle_ranges_def impl_file_handle_def chain_def fun_eq_iff)

lemma new_lock_ok:
  assumes "table_ok t" and "ft_names t name = None" and "get_file_find name d sh t = ((f, old), t')"
  shows "table_ok t'"
proof -
  have l: "linked t" and e: "exclusive t" and n: "fresh_next t" using assms(1) by (simp_all add: table_ok_def)
  note w = find_new [OF assms(2,3)]
  have f: "lock_of t i = None" "chain t i = []" "i \<notin> set (chain t a)" if "i \<ge> f" for i a
    using n that w linked_chain [OF l] by (simp_all add: fresh_next_def lock_of_def chain_def)
  have "linked t'"
    unfolding linked_iff
  proof (intro conjI allI impI)
    show "lock_of t' g = Some a \<longleftrightarrow> g \<in> set (chain t' a)" for g a
    proof -
      have "lock_of t g \<noteq> Some (f + 1)" using f(2) [of "f + 1"] linked_chain [OF l, of g "f + 1"] by simp
      then show ?thesis using w f(2,3) [of f] linked_chain [OF l] by auto
    qed
    show "distinct (chain t' a)" for a using w l by (simp add: linked_iff)
    fix m a
    assume "ft_names t' m = Some a"
    then consider "m = name" "a = f + 1" | "m \<noteq> name" "ft_names t m = Some a" using w by (auto split: if_splits)
    then have "(\<exists>l. ft_locks t' a = Some l \<and> lk_name l = m) \<and> chain t' a \<noteq> []"
    proof cases
      case 2
      then have "a \<noteq> f + 1" using f(2) [of "f + 1"] linked_ne [OF l] by fastforce
      then show ?thesis using 2 w linked_ne [OF l 2(2)] linked_name [OF l 2(2)] by auto
    qed (use w in simp)
    then show "\<exists>l. ft_locks t' a = Some l \<and> lk_name l = m" "chain t' a \<noteq> []" by simp_all
  qed
  moreover have "exclusive t'"
    using e by (rule exclusive_mono) (use w in auto)
  moreover have "fresh_next t'" using n w by (simp add: fresh_next_def)
  ultimately show ?thesis by (simp add: table_ok_def)
qed

lemma table_same:
  assumes "table_ok t" and "lock_of t' = lock_of t" and "handle_ranges t' = handle_ranges t" and "chain t' = chain t"
    and "ft_names t' = ft_names t" and "\<And>a. map_option lk_name (ft_locks t' a) = map_option lk_name (ft_locks t a)"
    and "ft_next t \<le> ft_next t'"
  shows "table_ok t'"
proof -
  have l: "linked t" and e: "exclusive t" and n: "fresh_next t" using assms(1) by (simp_all add: table_ok_def)
  have "\<exists>l. ft_locks t' a = Some l \<and> lk_name l = m" if "ft_names t m = Some a" for m a
    using l that assms(6) [of a] by (fastforce simp: linked_iff)
  then have "linked t'" using l by (simp add: linked_iff assms(2,4,5))
  moreover have "exclusive t'" using e by (simp add: exclusive_def assms(2,3))
  moreover have "fresh_next t'"
    unfolding fresh_next_def
  proof (intro allI impI conjI)
    fix i
    assume "ft_next t' \<le> i"
    then have i: "ft_handles t i = None" "ft_locks t i = None" using n assms(7) by (simp_all add: fresh_next_def)
    show "ft_handles t' i = None" using i(1) fun_cong [OF assms(2), of i] by (simp add: lock_of_def)
    show "ft_locks t' i = None" using i(2) assms(6) [of i] by simp
  qed
  ultimately show ?thesis by (simp add: table_ok_def)
qed

lemma lock_of_drop: "lock_of (t\<lparr>ft_handles := (ft_handles u)(f := None)\<rparr>) g = (if g = f then None else lock_of u g)"
  by (simp add: lock_of_def)

text \<open>Joining the chain of a lock that was there, or being refused.\<close>

lemma get_file_old:
  assumes "table_ok t" and "ft_names t name = Some a" and "get_file_find name d sh t = ((f, old), t1)"
    and "get_file_add f access t1 = (res, t2)"
  shows "table_ok t2" and "handle_ranges t2 = handle_ranges t" and "ft_names t2 = ft_names t"
    and "res = (if required_share access OR shared_by t (chain t a) \<noteq> shared_by t (chain t a) then - EACCES else 0)"
    and "lock_of t2 = (if res = 0 then (lock_of t)(f \<mapsto> a) else lock_of t)"
proof -
  have l: "linked t" and e: "exclusive t" and n: "fresh_next t" using assms(1) by (simp_all add: table_ok_def)
  note w = find_old [OF assms(1-3)]
  have f: "lock_of t f = None" "handle_ranges t f = []"
    using n w by (simp_all add: fresh_next_def lock_of_def handle_ranges_def)
  have sh: "shared_by t1 fs = shared_by t fs" if "f \<notin> set fs" for fs
  proof -
    have h: "ft_handles t1 g = ft_handles t g" if "g \<noteq> f" for g
      using assms(2,3) that by (auto simp: get_file_find_def Let_def)
    have "fold (\<lambda>g share. share AND (case ft_handles t1 g of None \<Rightarrow> 0 | Some h \<Rightarrow> fh_shared h)) fs x =
        fold (\<lambda>g share. share AND (case ft_handles t g of None \<Rightarrow> 0 | Some h \<Rightarrow> fh_shared h)) fs x" for x
      using that by (induction fs arbitrary: x) (auto simp: h)
    then show ?thesis by (simp add: shared_by_def)
  qed
  obtain k where k: "ft_locks t a = Some k" using linked_ne [OF l assms(2)] by auto
  have out: "f \<notin> set (chain t c)" for c using f linked_chain [OF l] by simp
  note nf = out [of a]
  have fs: "filter (\<lambda>g. g \<noteq> f) (chain t a) = chain t a" using nf by (metis (mono_tags, lifting) filter_True)
  define refused where "refused \<longleftrightarrow> required_share access OR shared_by t (chain t a) \<noteq> shared_by t (chain t a)"
  have t2: "(res, t2) = (if refused then (- EACCES, (set_chain a (chain t a) t1)\<lparr>ft_handles := (ft_handles t1)(f := None)\<rparr>)
      else (0, set_chain a (f # chain t a) t1))"
    using assms(4) w fs k linked_ne [OF l assms(2)]
    by (simp add: get_file_add_def Let_def sh [OF nf] delete_eq refused_def split: if_splits)
  then show r: "res = (if required_share access OR shared_by t (chain t a) \<noteq> shared_by t (chain t a) then - EACCES else 0)"
    by (simp add: refused_def split: if_splits)
  have lo: "lock_of t2 = (if refused then lock_of t else (lock_of t)(f \<mapsto> a))"
    using t2 w f(1) by (auto simp: lock_of_drop fun_eq_iff split: if_splits)
  then show "lock_of t2 = (if res = 0 then (lock_of t)(f \<mapsto> a) else lock_of t)"
    using r by (simp add: refused_def EACCES_def)
  show hr: "handle_ranges t2 = handle_ranges t"
    using t2 w f by (auto simp: handle_ranges_def fun_eq_iff split: if_splits)
  show nm: "ft_names t2 = ft_names t" using t2 w by (auto split: if_splits)
  have ch: "chain t2 = (if refused then chain t else (chain t)(a := f # chain t a))"
    using t2 w k by (auto simp: chain_set_chain fun_eq_iff split: if_splits)
  have lk: "map_option lk_name (ft_locks t2 c) = map_option lk_name (ft_locks t c)" for c
    using t2 w by (auto simp: set_chain_def split: if_splits option.splits)
  have nx: "ft_next t2 = ft_next t + 1" using t2 w by (auto split: if_splits)
  show "table_ok t2"
  proof (cases refused)
    case True
    then show ?thesis by (intro table_same [OF assms(1)]) (simp_all add: lo hr nm ch lk nx)
  next
    case False
    have "\<exists>l. ft_locks t2 c = Some l \<and> lk_name l = m" if "ft_names t m = Some c" for m c
      using l that lk [of c] by (fastforce simp: linked_iff)
    then have "linked t2"
      unfolding linked_iff nm using False l f out by (simp add: lo ch linked_iff)
    moreover have "exclusive t2"
      using e by (rule exclusive_mono) (simp add: hr lo f(2))
    moreover have "fresh_next t2"
      unfolding fresh_next_def
    proof (intro allI impI conjI)
      fix i
      assume "ft_next t2 \<le> i"
      then have i: "ft_handles t i = None" "ft_locks t i = None" "i \<noteq> f" using n nx w by (simp_all add: fresh_next_def)
      show "ft_handles t2 i = None" using i fun_cong [OF lo, of i] False by (simp add: lock_of_def)
      show "ft_locks t2 i = None" using i(2) lk [of i] by simp
    qed
    ultimately show ?thesis by (simp add: table_ok_def)
  qed
qed

lemma get_file_ok: "table_ok t \<Longrightarrow> table_ok (snd (get_file name d access sh t))"
proof -
  assume t: "table_ok t"
  obtain f old t1 where w: "get_file_find name d sh t = ((f, old), t1)" by (metis surj_pair)
  show ?thesis
  proof (cases "ft_names t name")
    case None
    then show ?thesis using new_lock_ok [OF t None w] find_new [OF None w] by (simp add: get_file_def w)
  next
    case (Some a)
    obtain res t2 where a: "get_file_add f access t1 = (res, t2)" by (metis surj_pair)
    have old using find_old [OF t Some w] by blast
    then show ?thesis using get_file_old(1) [OF t Some w a] by (simp add: get_file_def w a)
  qed
qed

lemma renamed_ok:
  assumes "table_ok t"
  shows "table_ok (renamed_file name new_name t)"
proof (cases "name = new_name \<or> ft_names t name = None")
  case False
  then obtain a where a: "ft_names t name = Some a" and ne: "name \<noteq> new_name" by auto
  have l: "linked t" and e: "exclusive t" and n: "fresh_next t" using assms by (simp_all add: table_ok_def)
  obtain k where "ft_locks t a = Some k" using linked_ne [OF l a] by auto
  then have k: "ft_locks t a = Some k" "lk_name k = name" using linked_name [OF l a] by simp_all
  define u where "u = renamed_file name new_name t"
  have u: "ft_locks u = (ft_locks t)(a \<mapsto> k\<lparr>lk_name := new_name\<rparr>)" "ft_names u = (ft_names t)(new_name \<mapsto> a, name := None)"
      "ft_handles u = ft_handles t" "ft_next u = ft_next t"
    using a ne k by (simp_all add: u_def renamed_file_def)
  have ch: "chain u c = chain t c" for c using k by (simp add: u(1) chain_def)
  have lo: "lock_of u f = lock_of t f" "handle_ranges u f = handle_ranges t f" for f
    by (simp_all add: lock_of_def handle_ranges_def u(3))
  have nm: "(\<exists>l. ft_locks u c = Some l \<and> lk_name l = m) \<and> chain u c \<noteq> []" if "ft_names u m = Some c" for m c
  proof (cases "m = new_name")
    case True
    then have "c = a" using that ne by (simp add: u(2))
    then show ?thesis using True linked_ne [OF l a] by (simp add: u(1) ch)
  next
    case False
    then have m: "ft_names t m = Some c" "m \<noteq> name" using that by (simp_all add: u(2) split: if_splits)
    then have "c \<noteq> a" using linked_name [OF l m(1)] k by blast
    then show ?thesis using linked_ne [OF l m(1)] linked_name [OF l m(1)] by (auto simp: ch u(1))
  qed
  have "distinct (chain u c)" for c using l unfolding ch linked_iff by blast
  then have "linked u" unfolding linked_iff using nm linked_chain [OF l] by (simp only: lo ch simp_thms) blast
  moreover have "exclusive u" by (rule exclusive_mono [OF e]) (simp add: lo)
  moreover have "fresh_next u" using n k by (auto simp: u(1,3,4) fresh_next_def)
  ultimately show ?thesis by (simp add: table_ok_def u_def)
next
  case True
  then have "renamed_file name new_name t = t" by (auto simp: renamed_file_def)
  then show ?thesis using assms by simp
qed

lemma exclusiveD:
  "table_ok t \<Longrightarrow> lock_of t f = lock_of t g \<Longrightarrow> r \<in> set (handle_ranges t f) \<Longrightarrow> s \<in> set (handle_ranges t g) \<Longrightarrow>
     overlap r s \<Longrightarrow> f = g \<and> r = s"
  unfolding table_ok_def exclusive_def by blast

text \<open>What locking does, in terms of the ranges the handles of the file hold.\<close>

definition taken :: "file_table \<Rightarrow> nat \<Rightarrow> bool \<Rightarrow> int \<times> int \<Rightarrow> bool" where
  "taken t f mark x \<longleftrightarrow> (\<exists>g. lock_of t g = lock_of t f \<and> (mark \<or> g \<noteq> f) \<and> (\<exists>r \<in> set (handle_ranges t g). overlap x r))"

lemma lock_result:
  assumes "table_ok t" and "lock_of t f = Some a"
  shows "lock_range f start n mark t =
     (if start < 0 \<or> n \<le> 0 then (- EINVAL, t)
      else if taken t f mark (start, n) then (- EACCES, t)
      else (0, if mark then set_ranges f (ranges_put start n (handle_ranges t f)) t else t))"
proof -
  have l: "linked t" and e: "exclusive t" using assms by (simp_all add: table_ok_def)
  have "list_ex (\<lambda>i. (mark \<or> i \<noteq> f) \<and> range_clash (handle_ranges t i) start n) (chain t a) = taken t f mark (start, n)"
    if "0 < n"
  proof -
    have "range_clash (handle_ranges t i) start n \<longleftrightarrow> (\<exists>r \<in> set (handle_ranges t i). overlap (start, n) r)" for i
      using e that by (simp add: exclusive_def clash_iff)
    then show ?thesis unfolding list_ex_iff taken_def assms(2) Bex_def linked_chain [OF l] by blast
  qed
  then show ?thesis using assms(2) by (auto simp: lock_range_def Let_def)
qed

lemma set_ranges_ok:
  assumes "table_ok t" and "ranges_ok rs"
    and "\<And>g r x. lock_of t g = lock_of t f \<Longrightarrow> g \<noteq> f \<Longrightarrow> r \<in> set rs \<Longrightarrow> x \<in> set (handle_ranges t g) \<Longrightarrow> \<not> overlap r x"
  shows "table_ok (set_ranges f rs t)"
proof -
  have l: "linked t" and e: "exclusive t" and n: "fresh_next t" using assms(1) by (simp_all add: table_ok_def)
  have "linked (set_ranges f rs t)" using l by (simp add: linked_iff)
  moreover have "exclusive (set_ranges f rs t)"
    unfolding exclusive_def
  proof (intro conjI allI impI)
    show "ranges_ok (handle_ranges (set_ranges f rs t) g)" for g
      using e assms(2) by (simp add: handle_set_ranges exclusive_def)
  next
    fix g h r x
    assume a: "lock_of (set_ranges f rs t) g = lock_of (set_ranges f rs t) h" "r \<in> set (handle_ranges (set_ranges f rs t) g)"
      "x \<in> set (handle_ranges (set_ranges f rs t) h)" "overlap r x"
    have lo: "lock_of t g = lock_of t h" using a(1) by simp
    have "g = h \<and> r = x"
    proof (cases "lock_of t f = None")
      case True
      then show ?thesis using a lo exclusiveD [OF assms(1)] by (simp add: handle_set_ranges)
    next
      case False
      consider "g = f" "h = f" | "g = f" "h \<noteq> f" | "g \<noteq> f" "h = f" | "g \<noteq> f" "h \<noteq> f" by blast
      then show ?thesis
      proof cases
        case 1
        then show ?thesis using a ranges_disjoint [OF assms(2)] False by (simp add: handle_set_ranges)
      next
        case 2
        then show ?thesis using a lo False assms(3) [of h r x] by (simp add: handle_set_ranges)
      next
        case 3
        then show ?thesis using a lo False assms(3) [of g x r] overlap_sym [of r x] by (simp add: handle_set_ranges)
      next
        case 4
        then show ?thesis using a lo exclusiveD [OF assms(1) lo] by (simp add: handle_set_ranges)
      qed
    qed
    then show "g = h" "r = x" by simp_all
  qed
  moreover have "fresh_next (set_ranges f rs t)"
    using n by (auto simp: fresh_next_def set_ranges_def split: option.splits)
  ultimately show ?thesis by (simp add: table_ok_def)
qed

lemma lock_ok:
  assumes "table_ok t"
  shows "table_ok (snd (lock_range f start n mark t))"
proof (cases "lock_of t f")
  case None
  have "set_ranges f rs t = t" for rs using None by (simp add: set_ranges_def lock_of_def)
  then show ?thesis using assms None by (simp add: lock_range_def Let_def)
next
  case (Some a)
  show ?thesis
  proof (cases "start < 0 \<or> n \<le> 0 \<or> taken t f mark (start, n) \<or> \<not> mark")
    case True
    then show ?thesis using assms by (auto simp: lock_result [OF assms Some])
  next
    case False
    then have free: "\<not> overlap (start, n) r" if "lock_of t g = lock_of t f" "r \<in> set (handle_ranges t g)" for g r
      using that unfolding taken_def by blast
    have rs: "ranges_ok (handle_ranges t f)" "ranges_ok (handle_ranges t g)" for g
      using assms by (simp_all add: table_ok_def exclusive_def)
    have "table_ok (set_ranges f (ranges_put start n (handle_ranges t f)) t)"
    proof (rule set_ranges_ok [OF assms])
      show "ranges_ok (ranges_put start n (handle_ranges t f))"
        using False free by (intro put_ok rs) auto
      fix g r x
      assume a: "lock_of t g = lock_of t f" "g \<noteq> f" "r \<in> set (ranges_put start n (handle_ranges t f))" "x \<in> set (handle_ranges t g)"
      have "r = (start, n) \<or> r \<in> set (handle_ranges t f)"
        using a(3) free [of f] put_set [OF starts_differ [OF rs(1), of n start]] False by auto
      then show "\<not> overlap r x"
        using a free assms unfolding table_ok_def exclusive_def by metis
    qed
    then show ?thesis using False assms by (auto simp: lock_result [OF assms Some])
  qed
qed

lemma unlock_result:
  assumes "table_ok t" and "0 < n"
  shows "unlock_range f start n t =
     (if (start, n) \<in> set (handle_ranges t f) then (0, set_ranges f (ranges_erase start (handle_ranges t f)) t)
      else (if start < 0 then - EINVAL else - EACCES, t))"
proof -
  have rs: "ranges_ok (handle_ranges t f)" using assms(1) by (simp add: table_ok_def exclusive_def)
  have "distinct (map fst rs)" if "ranges_ok rs" for rs :: ranges
    using that by (induction rs) (force simp: ranges_ok_Cons)+
  then have m: "map_of (handle_ranges t f) start = Some l \<longleftrightarrow> (start, l) \<in> set (handle_ranges t f)" for l
    using rs by (simp add: map_of_eq_Some_iff)
  show ?thesis
  proof (cases "(start, n) \<in> set (handle_ranges t f)")
    case True
    then have "map_of (handle_ranges t f) start = Some n" by (simp add: m)
    then show ?thesis using assms(2) True ranges_positive [OF rs True] by (simp add: unlock_range_def)
  next
    case False
    then have "map_of (handle_ranges t f) start \<noteq> Some n" by (simp add: m)
    then show ?thesis using assms(2) False by (auto simp: unlock_range_def split: option.splits)
  qed
qed

lemma unlock_ok:
  assumes "table_ok t"
  shows "table_ok (snd (unlock_range f start n t))"
proof -
  have "table_ok (set_ranges f (ranges_erase start (handle_ranges t f)) t)"
  proof (rule set_ranges_ok [OF assms])
    show "ranges_ok (ranges_erase start (handle_ranges t f))"
      using assms by (simp add: erase_ok table_ok_def exclusive_def)
    show "\<not> overlap r x" if "lock_of t g = lock_of t f" "g \<noteq> f" "r \<in> set (ranges_erase start (handle_ranges t f))"
        "x \<in> set (handle_ranges t g)" for g r x
      using exclusiveD [OF assms that(1) that(4)] that overlap_sym unfolding erase_set by blast
  qed
  then show ?thesis using assms by (auto simp: unlock_range_def split: option.splits)
qed

subsection \<open>Properties\<close>

datatype table_op =
  GetFile bytes bool u32 u32 | SetFinfo nat u64 | DeleteHandle nat | Renamed bytes bytes
  | LockRange nat int int | UnlockRange nat int int

fun table_step :: "table_op \<Rightarrow> file_table \<Rightarrow> file_table" where
  "table_step (GetFile name d access sh) t = snd (get_file name d access sh t)"
| "table_step (SetFinfo f fh) t = set_finfo f fh t"
| "table_step (DeleteHandle f) t = delete_handle f t"
| "table_step (Renamed name new_name) t = renamed_file name new_name t"
| "table_step (LockRange f start n) t = snd (lock_range f start n True t)"
| "table_step (UnlockRange f start n) t = snd (unlock_range f start n t)"

lemma table_step_ok: "table_ok t \<Longrightarrow> table_ok (table_step x t)"
  by (cases x) (simp_all add: get_file_ok locks_finfo delete_ok renamed_ok lock_ok unlock_ok)

lemma table_new_ok: "table_ok file_table_new"
  by (simp add: table_ok_def linked_def exclusive_def fresh_next_def file_table_new_def chain_def lock_of_def handle_ranges_def)

lemma table_reach_ok: "table_ok (fold table_step xs file_table_new)"
proof -
  have "table_ok (fold table_step xs t)" if "table_ok t" for t
    using that by (induction xs arbitrary: t) (simp_all add: table_step_ok)
  then show ?thesis using table_new_ok by blast
qed



text \<open>The locked ranges of all handles.\<close>

definition held_ranges :: "file_table \<Rightarrow> (nat \<times> int \<times> int) set" where
  "held_ranges t = {(f, r). r \<in> set (handle_ranges t f)}"

lemma taken_held:
  "taken t f mark x \<longleftrightarrow> (\<exists>(g, r) \<in> held_ranges t. lock_of t g = lock_of t f \<and> (mark \<or> g \<noteq> f) \<and> overlap x r)"
  by (auto simp: taken_def held_ranges_def)

text \<open>
  C37: locking a range works exactly if it is proper and free, reading and writing are allowed exactly if
  no other handle has locked a byte of the range, and unlocking exactly if the same range is
  held; the set of held ranges changes accordingly, although only the neighbours in the maps
  are looked at.
\<close>
theorem lock_refines:
  assumes "table_ok t" and "lock_of t f = Some a" and "0 \<le> start" and "0 < n"
    and "lock_range f start n True t = (res, t')" and "unlock_range f start n t = (res', t'')"
  shows "(res, held_ranges t') =
      (if \<exists>(g, r) \<in> held_ranges t. lock_of t g = Some a \<and> overlap (start, n) r then (- EACCES, held_ranges t)
       else (0, insert (f, start, n) (held_ranges t))) \<and>
    check_lock f start n t =
      (if \<exists>(g, r) \<in> held_ranges t. lock_of t g = Some a \<and> g \<noteq> f \<and> overlap (start, n) r then - EACCES else 0) \<and>
    (res', held_ranges t'') =
      (if (f, start, n) \<in> held_ranges t then (0, held_ranges t - {(f, start, n)}) else (- EACCES, held_ranges t))"
proof (intro conjI)
  have rs: "ranges_ok (handle_ranges t f)" using assms(1) by (simp add: table_ok_def exclusive_def)
  have new: "held_ranges (set_ranges f rs t) = {(g, r). if g = f then r \<in> set rs else (g, r) \<in> held_ranges t}" for rs
    using assms(2) by (auto simp: held_ranges_def handle_set_ranges)
  have tk: "taken t f mark x \<longleftrightarrow> (\<exists>(g, r) \<in> held_ranges t. lock_of t g = Some a \<and> (mark \<or> g \<noteq> f) \<and> overlap x r)" for mark x
    unfolding taken_held assms(2) ..
  have "held_ranges (set_ranges f (ranges_put start n (handle_ranges t f)) t) = insert (f, start, n) (held_ranges t)"
    if "\<not> taken t f True (start, n)"
  proof -
    have "\<forall>r \<in> set (handle_ranges t f). \<not> overlap (start, n) r" using that unfolding taken_def by blast
    then have p: "set (ranges_put start n (handle_ranges t f)) = insert (start, n) (set (handle_ranges t f))"
      by (rule put_set [OF starts_differ [OF rs assms(4)]])
    show ?thesis unfolding new p by (auto simp: held_ranges_def)
  qed
  moreover have "(res, t') = (if taken t f True (start, n) then (- EACCES, t)
      else (0, set_ranges f (ranges_put start n (handle_ranges t f)) t))"
    unfolding assms(5) [symmetric] lock_result [OF assms(1,2)] using assms(3,4) by simp
  ultimately have "(res, held_ranges t') = (if taken t f True (start, n) then (- EACCES, held_ranges t)
      else (0, insert (f, start, n) (held_ranges t)))"
    by (cases "taken t f True (start, n)") simp_all
  then show "(res, held_ranges t') =
      (if \<exists>(g, r) \<in> held_ranges t. lock_of t g = Some a \<and> overlap (start, n) r then (- EACCES, held_ranges t)
       else (0, insert (f, start, n) (held_ranges t)))"
    unfolding tk simp_thms .
  show "check_lock f start n t =
      (if \<exists>(g, r) \<in> held_ranges t. lock_of t g = Some a \<and> g \<noteq> f \<and> overlap (start, n) r then - EACCES else 0)"
    using assms(3,4) tk [of False "(start, n)"] unfolding check_lock_def lock_result [OF assms(1,2)] by simp
  have er: "set (ranges_erase start (handle_ranges t f)) = set (handle_ranges t f) - {(start, n)}"
    if "(start, n) \<in> set (handle_ranges t f)" 
  proof -
    have "r = (start, n)" if "r \<in> set (handle_ranges t f)" "fst r = start" for r
      using ranges_disjoint [OF rs that(1) \<open>(start, n) \<in> set (handle_ranges t f)\<close>] that(2) ranges_positive [OF rs that(1)] assms(4)
      by (simp add: overlap_def)
    then show ?thesis
      unfolding erase_set by (intro set_eqI) (metis (mono_tags, lifting) DiffE DiffI fst_conv mem_Collect_eq singletonD singletonI)
  qed
  have "held_ranges (set_ranges f (ranges_erase start (handle_ranges t f)) t) = held_ranges t - {(f, start, n)}"
    if "(start, n) \<in> set (handle_ranges t f)" unfolding new er [OF that] by (auto simp: held_ranges_def)
  then show "(res', held_ranges t'') =
      (if (f, start, n) \<in> held_ranges t then (0, held_ranges t - {(f, start, n)}) else (- EACCES, held_ranges t))"
    using assms(3,6) unfolding unlock_result [OF assms(1,4)] by (simp add: held_ranges_def split: if_splits)
qed

theorem lock_refines_witness:
  defines "t \<equiv> fold table_step [GetFile [97] False FILE_READ_DATA 7, GetFile [97] False FILE_READ_DATA 7, LockRange 1 0 10] file_table_new"
  shows "check_lock 1 5 5 t = 0 \<and> check_lock 3 5 5 t = - EACCES"
proof -
  have l: "lock_of t 1 = Some 2" "lock_of t 3 = Some 2" and h: "handle_ranges t 1 = [(0, 10)]"
    unfolding t_def by code_simp+
  have tok: "table_ok t" unfolding t_def by (rule table_reach_ok)
  have e: "(1, 0, 10) \<in> held_ranges t" using h by (simp add: held_ranges_def)
  have f: "g = 1" if "(g, r) \<in> held_ranges t" "lock_of t g = Some 2" "overlap (5, 5) r" for g r
  proof -
    have "g \<in> set (chain t 2)" using that(2) tok by (simp add: table_ok_def linked_chain)
    moreover have "chain t 2 = [3, 1]" "handle_ranges t 3 = []" unfolding t_def by code_simp+
    ultimately show ?thesis using that(1) by (auto simp: held_ranges_def)
  qed
  note r = lock_refines [where t = t and start = 5 and n = 5, OF tok _ _ _ prod.collapse [symmetric]
      prod.collapse [symmetric]]
  have "check_lock 1 5 5 t = 0" using r [OF l(1)] f by auto
  moreover have "check_lock 3 5 5 t = - EACCES" using r [OF l(2)] e l(1) by (force simp: overlap_def)
  ultimately show ?thesis by simp
qed

text \<open>
  C40: the two critical sections of closing and of opening can interleave so that the new handle belongs
  to a lock that was freed: the last handle leaves, the file is looked up, the lock is freed,
  and the new handle joins it.
\<close>
theorem open_close_race:
  assumes "table_ok t" and "ft_names t name = Some a" and "chain t a = [g]"
    and "lock_remove_file g t = (Some name, t1)" and "get_file_find name d sh t1 = ((f, old), t2)"
    and "get_file_add f access (locks_remove_file name t2) = (res, t3)"
  shows "res = 0 \<and> lock_of t3 f = Some a \<and> ft_locks t3 a = None"
proof -
  have l: "lock_of t g = Some a" using assms(1,3) by (simp add: table_ok_def linked_chain [symmetric])
  obtain k where k: "ft_locks t a = Some k" using assms(1,2) linked_ne by (force simp: table_ok_def)
  have t1: "t1 = set_chain a [] t" using assms(3,4) l k by (simp add: lock_remove_file_def Let_def)
  have f: "f = ft_next t" "ft_handles t2 f = Some (impl_file_handle d sh a)" "chain t2 a = []" "ft_names t2 name = Some a"
    using assms(2,5) k by (auto simp: t1 get_file_find_def Let_def chain_set_chain)
  have "required_share access OR 7 = 7"
    by (simp add: required_share_def FILE_SHARE_READ_def FILE_SHARE_WRITE_def FILE_SHARE_DELETE_def)
  then have "required_share access OR shared_by u [] = shared_by u []" for u
    by (simp add: shared_by_def FILE_SHARE_READ_def FILE_SHARE_WRITE_def FILE_SHARE_DELETE_def)
  moreover have "lock_of (locks_remove_file name t2) f = Some a" by (simp add: lock_of_def f(2) impl_file_handle_def)
  moreover have "ft_locks (locks_remove_file name t2) a = None" using f(3,4) by (simp add: locks_remove_file_def)
  ultimately show ?thesis
    using assms(6) f(3) by (auto simp: get_file_add_def set_chain_def split: option.splits)
qed

theorem open_close_race_witness:
  defines "t \<equiv> table_step (GetFile [97] False FILE_READ_DATA 7) file_table_new"
  defines "t3 \<equiv> snd (get_file_add 3 FILE_READ_DATA (locks_remove_file [97] (snd (get_file_find [97] False 7 (snd (lock_remove_file 1 t))))))"
  shows "lock_of t3 3 = Some 2 \<and> ft_locks t3 2 = None"
proof -
  let ?t1 = "snd (lock_remove_file 1 t)" let ?t2 = "snd (get_file_find [97] False 7 ?t1)"
  have "ft_names t [97] = Some 2" "chain t 2 = [1]" "fst (lock_remove_file 1 t) = Some [97]"
      "fst (get_file_find [97] False 7 ?t1) = (3, True)" unfolding t_def by code_simp+
  moreover have "table_ok t" unfolding t_def by (rule table_step_ok [OF table_new_ok])
  ultimately show ?thesis
    using open_close_race [where t = t and name = "[97]" and a = 2 and g = 1 and d = False and sh = 7 and f = 3 and old = True
        and ?t1.0 = ?t1 and ?t2.0 = ?t2 and access = FILE_READ_DATA]
    by (metis prod.collapse t3_def)
qed

lemmas rights =
  READ_CONTROL_def GENERIC_READ_def GENERIC_WRITE_def GENERIC_EXECUTE_def FILE_GENERIC_READ_def FILE_GENERIC_WRITE_def
  FILE_GENERIC_EXECUTE_def FILE_READ_DATA_def FILE_WRITE_DATA_def FILE_APPEND_DATA_def FILE_READ_EA_def FILE_WRITE_EA_def
  FILE_EXECUTE_def FILE_DELETE_CHILD_def DELETE_def WRITE_DAC_def WRITE_OWNER_def FILE_WRITE_ATTRIBUTES_def
  FILE_SHARE_READ_def FILE_SHARE_WRITE_def FILE_SHARE_DELETE_def

text \<open>
  C39: the shares are checked in one direction and with masks that are too wide.  A file opened for
  reading with \<open>FILE_GENERIC_READ\<close> counts as written, so that a second reader is refused
  when the first one shares reading only, and EncFS is asked for both; but a handle that
  shares nothing is given out although the file is in use.
\<close>
theorem share_modes_one_way:
  assumes "table_ok t" and "ft_names t name = Some a" and "shared_by t (chain t a) AND FILE_SHARE_WRITE = 0"
    and "table_ok u" and "ft_names u name = Some b" and "shared_by u (chain u b) = 7"
  shows "fst (get_file name d FILE_GENERIC_READ sh t) = Inl (- EACCES) \<and> convert_flags FILE_GENERIC_READ = O_RDWR \<and>
    fst (get_file name d access 0 u) = Inr (ft_next u)"
proof (intro conjI)
  obtain f old t1 where w: "get_file_find name d sh t = ((f, old), t1)" by (metis surj_pair)
  obtain res t2 where a: "get_file_add f FILE_GENERIC_READ t1 = (res, t2)" by (metis surj_pair)
  have "required_share FILE_GENERIC_READ = 3"
    by (simp add: required_share_def ACCESS_READ_def ACCESS_WRITE_def rights)
  moreover have "(3 OR s) AND FILE_SHARE_WRITE = 2" for s by (simp add: rights bit.conj_disj_distrib2)
  moreover have "(2::u32) \<noteq> 0" by simp
  ultimately have "required_share FILE_GENERIC_READ OR shared_by t (chain t a) \<noteq> shared_by t (chain t a)"
    using assms(3) by metis
  then have "res = - EACCES" using get_file_old(4) [OF assms(1,2) w a] by simp
  then show "fst (get_file name d FILE_GENERIC_READ sh t) = Inl (- EACCES)"
    using find_old [OF assms(1,2) w] a by (simp add: get_file_def w EACCES_def)
  show "convert_flags FILE_GENERIC_READ = O_RDWR"
    by (simp add: convert_flags_def ACCESS_READ_def ACCESS_WRITE_def rights)
next
  obtain f old t1 where w: "get_file_find name d 0 u = ((f, old), t1)" by (metis surj_pair)
  obtain res t2 where a: "get_file_add f access t1 = (res, t2)" by (metis surj_pair)
  have "required_share access OR 7 = 7" by (simp add: required_share_def rights)
  then have "res = 0" using get_file_old(4) [OF assms(4,5) w a] assms(6) by simp
  then show "fst (get_file name d access 0 u) = Inr (ft_next u)"
    using find_old [OF assms(4,5) w] a by (simp add: get_file_def w)
qed

theorem share_modes_one_way_witness:
  "fst (get_file [97] False FILE_GENERIC_READ FILE_SHARE_READ
      (table_step (GetFile [97] False FILE_GENERIC_READ FILE_SHARE_READ) file_table_new)) = Inl (- EACCES) \<and>
   fst (get_file [97] False FILE_GENERIC_READ 0
      (table_step (GetFile [97] False FILE_GENERIC_WRITE 7) file_table_new)) = Inr 3"
proof -
  let ?t = "table_step (GetFile [97] False FILE_GENERIC_READ FILE_SHARE_READ) file_table_new"
  let ?u = "table_step (GetFile [97] False FILE_GENERIC_WRITE 7) file_table_new"
  have "ft_names ?t [97] = Some 2" "shared_by ?t (chain ?t 2) AND FILE_SHARE_WRITE = 0"
      "ft_names ?u [97] = Some 2" "shared_by ?u (chain ?u 2) = 7" "ft_next ?u = 3" by code_simp+
  moreover have "table_ok ?t" "table_ok ?u" by (rule table_step_ok [OF table_new_ok])+
  ultimately show ?thesis
    using share_modes_one_way [where t = ?t and name = "[97]" and a = 2 and u = ?u and b = 2 and d = False
        and sh = FILE_SHARE_READ and access = FILE_GENERIC_READ] by metis
qed

end
