(* ===== verification/FuseMain.thy ===== *)
theory FuseMain
  imports FileLocks Volume
begin

text \<open>
  The bridge from Windows to FUSE (\<open>impl_fuse_context\<close> in \<open>fuse4win/src/fusemain.cpp\<close> and the
  callbacks of Dokan in \<open>docanfuse.cpp\<close>) over the operations of any FUSE file system, and
  those of EncFS.
\<close>

subsection \<open>Operations of a file system\<close>

record fuse_stat = stati64 +
  st_nlink :: u32

text \<open>
  \<open>struct fuse_operations\<close>: every entry may be missing.  \<open>'w\<close> is the state of the file system;
  \<open>'d\<close> is that of the function which Windows gives to collect the entries of a directory.
  Of \<open>fuse_file_info\<close> the file handle and the flags are used.  A result comes with what is
  written through pointers; the bytes of a read are those before the end it reports.
\<close>

record ('w, 'd) fuse_operations =
  op_getattr :: "(bytes \<Rightarrow> ('w, int \<times> fuse_stat) sm) option"
  op_readlink :: "(bytes \<Rightarrow> nat \<Rightarrow> ('w, int \<times> bytes) sm) option"
  op_getdir :: "(bytes \<Rightarrow> ('w, int \<times> bytes list) sm) option"
  op_mknod :: "(bytes \<Rightarrow> u32 \<Rightarrow> ('w, int) sm) option"
  op_mkdir :: "(bytes \<Rightarrow> u32 \<Rightarrow> ('w, int) sm) option"
  op_unlink :: "(bytes \<Rightarrow> ('w, int) sm) option"
  op_rmdir :: "(bytes \<Rightarrow> ('w, int) sm) option"
  op_rename :: "(bytes \<Rightarrow> bytes \<Rightarrow> ('w, int) sm) option"
  op_truncate :: "(bytes \<Rightarrow> nat \<Rightarrow> ('w, int) sm) option"
  op_utime :: "(bytes \<Rightarrow> int \<times> int \<Rightarrow> ('w, int) sm) option"
  op_open :: "(bytes \<Rightarrow> int \<Rightarrow> ('w, int \<times> u64) sm) option"
  op_read :: "(bytes \<Rightarrow> nat \<Rightarrow> nat \<Rightarrow> u64 \<Rightarrow> ('w, int \<times> bytes) sm) option"
  op_write :: "(bytes \<Rightarrow> bytes \<Rightarrow> nat \<Rightarrow> u64 \<Rightarrow> ('w, int) sm) option"
  op_statfs :: "(bytes \<Rightarrow> ('w, int \<times> statvfs) sm) option"
  op_flush :: "(bytes \<Rightarrow> u64 \<Rightarrow> ('w, int) sm) option"
  op_release :: "(bytes \<Rightarrow> u64 \<Rightarrow> ('w, int) sm) option"
  op_fsync :: "(bytes \<Rightarrow> u64 \<Rightarrow> ('w, int) sm) option"
  op_opendir :: "(bytes \<Rightarrow> ('w, int \<times> u64) sm) option"
  op_readdir :: "(bytes \<Rightarrow> u64 option \<Rightarrow> (bytes \<Rightarrow> fuse_stat option \<Rightarrow> ('d \<times> 'w, int) sm) \<Rightarrow> ('d \<times> 'w, int) sm) option"
  op_releasedir :: "(bytes \<Rightarrow> u64 \<Rightarrow> ('w, int) sm) option"
  op_fsyncdir :: "(bytes \<Rightarrow> u64 \<Rightarrow> ('w, int) sm) option"
  op_destroy :: "('w, unit) sm option"
  op_create :: "(bytes \<Rightarrow> u32 \<Rightarrow> int \<Rightarrow> ('w, int \<times> u64) sm) option"
  op_ftruncate :: "(bytes \<Rightarrow> nat \<Rightarrow> u64 \<Rightarrow> ('w, int) sm) option"
  op_lock :: "(bytes \<Rightarrow> u64 \<Rightarrow> bool \<Rightarrow> int \<Rightarrow> int \<Rightarrow> ('w, int) sm) option"
  op_utimens :: "(bytes \<Rightarrow> (int \<times> int) \<times> (int \<times> int) \<Rightarrow> ('w, int) sm) option"
  op_win_get_attributes :: "(bytes \<Rightarrow> ('w, u32) sm) option"
  op_win_set_attributes :: "(bytes \<Rightarrow> u32 \<Rightarrow> ('w, int) sm) option"
  op_win_set_times :: "(bytes \<Rightarrow> u64 option \<Rightarrow> filetime option \<times> filetime option \<times> filetime option
     \<Rightarrow> ('w, int) sm) option"

text \<open>
  \<open>impl_fuse_context\<close>.  \<open>fc_malloc\<close> is what is left in the memory of a converted string, and
  \<open>fc_ansi\<close> the conversion from the code page of the system.  The state has the table of
  open files and the file system.
\<close>

record ('w, 'd) fuse_context =
  fc_ops :: "('w, 'd) fuse_operations"
  fc_filemask :: u32
  fc_dirmask :: u32
  fc_max_write :: nat
  fc_fsname :: "bytes option"
  fc_volname :: "bytes option"
  fc_malloc :: "nat \<Rightarrow> byte"
  fc_ansi :: "bytes \<Rightarrow> wchars"

record 'w fuse_state =
  fz_table :: file_table
  fz_sys :: 'w

text \<open>\<open>DOKAN_FILE_INFO\<close>: the handle in its field \<open>Context\<close>, and whether it is a directory.\<close>

record dokan_file_info =
  dfi_Context :: "nat option"
  dfi_IsDirectory :: bool

type_synonym ('w, 'a) fz = "('w fuse_state, 'a) sm"

definition onSys :: "('w, 'a) sm \<Rightarrow> ('w, 'a) fz" where
  "onSys m = (\<lambda>z. case m (fz_sys z) of (r, w) \<Rightarrow> (r, z\<lparr>fz_sys := w\<rparr>))"

definition onTable :: "(file_table \<Rightarrow> 'a \<times> file_table) \<Rightarrow> ('w, 'a) fz" where
  "onTable f = (\<lambda>z. case f (fz_table z) of (x, t) \<Rightarrow> (Inr x, z\<lparr>fz_table := t\<rparr>))"

definition drop_handle :: "nat \<Rightarrow> 'w fuse_state \<Rightarrow> 'w fuse_state" where
  "drop_handle f z = z\<lparr>fz_table := delete_handle f (fz_table z)\<rparr>"

text \<open>
  \<open>CHECKED\<close> returns a negative code, as \<open>err\<close> of it; \<open>plain\<close> is for a function with only a
  code, and \<open>needs\<close> returns \<open>-EINVAL\<close> when an operation is missing.
\<close>

definition checked :: "(int \<Rightarrow> 'b) \<Rightarrow> ('s, int \<times> 'a) sm \<Rightarrow> ('a \<Rightarrow> ('s, 'b) sm) \<Rightarrow> ('s, 'b) sm" where
  "checked err m k = sbind m (\<lambda>(res, x). if res < 0 then sret (err res) else k x)"

definition plain :: "('s, int) sm \<Rightarrow> ('s, int \<times> unit) sm" where
  "plain m = sbind m (\<lambda>r. sret (r, ()))"

definition needs :: "'f option \<Rightarrow> (int \<Rightarrow> 'b) \<Rightarrow> ('f \<Rightarrow> ('s, 'b) sm) \<Rightarrow> ('s, 'b) sm" where
  "needs p err k = (case p of None \<Rightarrow> sret (err (- EINVAL)) | Some f \<Rightarrow> k f)"

definition unix_name :: "('w, 'd) fuse_context \<Rightarrow> wchars \<Rightarrow> bytes" where
  "unix_name C FileName = unixify (wchar_to_utf8_cstr (fc_malloc C) FileName)"

definition S_IFDIR :: u32 where "S_IFDIR = 0x4000"

definition S_ISLNK :: "u32 \<Rightarrow> bool" where
  "S_ISLNK mode = (mode AND 0xf000 = 0xa000)"

definition is_directory :: "fuse_stat \<Rightarrow> bool" where
  "is_directory st = (st_mode st AND S_IFDIR = S_IFDIR)"

text \<open>The handle a request comes with: none, a directory or a file, with its name and number.\<close>

definition handle_info :: "nat \<Rightarrow> ('w, bool \<times> bytes \<times> u64) fz" where
  "handle_info f = (\<lambda>z.
     case ft_handles (fz_table z) f of
       None \<Rightarrow> (Inl AssertFailed, z)
     | Some h \<Rightarrow> (Inr (fh_is_dir h, get_name (fz_table z) f, fh_fh h), z))"

definition with_file ::
  "dokan_file_info \<Rightarrow> (int \<Rightarrow> 'b) \<Rightarrow> (nat \<Rightarrow> bytes \<Rightarrow> u64 \<Rightarrow> ('w, 'b) fz) \<Rightarrow> ('w, 'b) fz" where
  "with_file dfi err k =
     (case dfi_Context dfi of
        None \<Rightarrow> sret (err (- EINVAL))
      | Some f \<Rightarrow> sbind (handle_info f) (\<lambda>(dir, name, fh). if dir then sret (err (- EACCES)) else k f name fh))"

subsection \<open>Symbolic links\<close>

definition resolve_symlink ::
  "('w, 'd) fuse_operations \<Rightarrow> bytes \<Rightarrow> ('w, int \<times> bytes) sm" where
  "resolve_symlink ops name =
     needs (op_readlink ops) (\<lambda>r. (r, name)) (\<lambda>readlink.
     checked (\<lambda>r. (r, name)) (readlink name 520) (\<lambda>buf.
     sret (0, if buf \<noteq> [] \<and> hd buf = 47 then buf else extract_dir_name name @ buf)))"

text \<open>The attributes of a name, those of its target when it is a link, and the name of that.\<close>

definition getattr_target ::
  "('w, 'd) fuse_operations \<Rightarrow> (bytes \<Rightarrow> ('w, int \<times> fuse_stat) sm) \<Rightarrow> bytes \<Rightarrow> fuse_stat
     \<Rightarrow> ('w, int \<times> bytes \<times> fuse_stat) sm" where
  "getattr_target ops getattr name st =
     (if S_ISLNK (st_mode st)
      then checked (\<lambda>r. (r, name, st)) (resolve_symlink ops name) (\<lambda>target.
           checked (\<lambda>r. (r, target, st)) (getattr target) (\<lambda>st'. sret (0, target, st')))
      else sret (0, name, st))"

definition check_and_resolve ::
  "('w, 'd) fuse_operations \<Rightarrow> bytes \<Rightarrow> ('w, int \<times> bytes) sm" where
  "check_and_resolve ops name =
     needs (op_getattr ops) (\<lambda>r. (r, name)) (\<lambda>getattr.
     checked (\<lambda>r. (r, name)) (getattr name) (\<lambda>st.
     if S_ISLNK (st_mode st) then resolve_symlink ops name else sret (0, name)))"

subsection \<open>Opening and closing\<close>

text \<open>
  A handle is made for the name, and freed again when the file system does not open the file.
  \<open>keep\<close> tells whether the handle gets the number of the file system.
\<close>

definition open_handle ::
  "bytes \<Rightarrow> bool \<Rightarrow> u32 \<Rightarrow> u32 \<Rightarrow> ('w, int \<times> u64) sm \<Rightarrow> bool \<Rightarrow> ('w, int \<times> nat option) fz" where
  "open_handle name is_dir access share m keep =
     sbind (onTable (get_file name is_dir access share)) (\<lambda>r.
     case r of
       Inl e \<Rightarrow> sret (e, None)
     | Inr f \<Rightarrow>
         sbind (sunwind (onSys m) (drop_handle f)) (\<lambda>(res, fh).
         if res < 0 then sbind (smod (drop_handle f)) (\<lambda>_. sret (res, None))
         else sbind (smod (\<lambda>z. if keep then z\<lparr>fz_table := set_finfo f fh (fz_table z)\<rparr> else z)) (\<lambda>_. sret (0, Some f))))"

definition do_open_dir :: "('w, 'd) fuse_context \<Rightarrow> wchars \<Rightarrow> ('w, int \<times> nat option) fz" where
  "do_open_dir C FileName =
     (case op_opendir (fc_ops C) of
        None \<Rightarrow> sret (0, None)
      | Some opendir \<Rightarrow>
          let fname = unix_name C FileName in
          open_handle fname True 0 (FILE_SHARE_READ OR FILE_SHARE_WRITE OR FILE_SHARE_DELETE) (opendir fname) True)"

definition do_open_file :: "('w, 'd) fuse_context \<Rightarrow> wchars \<Rightarrow> u32 \<Rightarrow> u32 \<Rightarrow> ('w, int \<times> nat option) fz" where
  "do_open_file C FileName share_mode Flags =
     needs (op_open (fc_ops C)) (\<lambda>r. (r, None)) (\<lambda>open.
     checked (\<lambda>r. (r, None)) (onSys (check_and_resolve (fc_ops C) (unix_name C FileName))) (\<lambda>fname.
     open_handle fname False Flags share_mode (open fname (convert_flags Flags)) True))"

definition CREATE_NEW :: u32 where "CREATE_NEW = 1"
definition CREATE_ALWAYS :: u32 where "CREATE_ALWAYS = 2"
definition OPEN_EXISTING :: u32 where "OPEN_EXISTING = 3"
definition OPEN_ALWAYS :: u32 where "OPEN_ALWAYS = 4"
definition TRUNCATE_EXISTING :: u32 where "TRUNCATE_EXISTING = 5"
definition O_EXCL :: int where "O_EXCL = 0x400"

text \<open>With \<open>create\<close> the handle does not get the number of the file system.\<close>

definition do_create_file ::
  "('w, 'd) fuse_context \<Rightarrow> wchars \<Rightarrow> u32 \<Rightarrow> u32 \<Rightarrow> u32 \<Rightarrow> ('w, int \<times> nat option) fz" where
  "do_create_file C FileName Disposition share_mode Flags =
     (let fname = unix_name C FileName; ops = fc_ops C in
      if Disposition \<noteq> CREATE_NEW \<and> Disposition \<noteq> CREATE_ALWAYS \<and> Disposition \<noteq> OPEN_ALWAYS then sret (- ENOENT, None)
      else case op_create ops of
        None \<Rightarrow>
          needs (op_mknod ops) (\<lambda>r. (r, None)) (\<lambda>mknod.
          needs (op_open ops) (\<lambda>r. (r, None)) (\<lambda>_.
          checked (\<lambda>r. (r, None)) (plain (onSys (mknod fname (fc_filemask C)))) (\<lambda>_.
          do_open_file C FileName share_mode Flags)))
      | Some create \<Rightarrow>
          open_handle fname False Flags share_mode (create fname (fc_filemask C) (O_CREAT OR O_EXCL OR convert_flags Flags)) False)"

text \<open>
  The result is an error of Windows here.  \<open>at\<close> puts the handle into \<open>Context\<close>, where it was
  cleared before.
\<close>

definition at_context :: "dokan_file_info \<Rightarrow> ('w, int \<times> nat option) fz \<Rightarrow> ('w, int \<times> dokan_file_info) fz" where
  "at_context dfi m = sbind m (\<lambda>(res, f). sret (errno_to_win32_error res, dfi\<lparr>dfi_Context := f\<rparr>))"

definition create_existing ::
  "('w, 'd) fuse_context \<Rightarrow> wchars \<Rightarrow> u32 \<Rightarrow> u32 \<Rightarrow> u32 \<Rightarrow> bytes \<Rightarrow> dokan_file_info \<Rightarrow> ('w, int \<times> dokan_file_info) fz" where
  "create_existing C file_name access_mode share_mode creation_disposition fname dfi =
     (let ops = fc_ops C; err = (\<lambda>r. (errno_to_win32_error r, dfi)) in
      if creation_disposition = CREATE_ALWAYS
      then needs (op_unlink ops) err (\<lambda>unlink.
           checked err (plain (onSys (unlink fname))) (\<lambda>_.
           at_context dfi (do_create_file C file_name creation_disposition share_mode access_mode)))
      else if creation_disposition = TRUNCATE_EXISTING
      then needs (op_truncate ops) err (\<lambda>truncate.
           checked err (plain (onSys (truncate fname 0))) (\<lambda>_.
           at_context dfi (do_open_file C file_name share_mode access_mode)))
      else if creation_disposition = CREATE_NEW then sret (ERROR_FILE_EXISTS, dfi)
      else at_context dfi (do_open_file C file_name share_mode access_mode))"

definition create_file ::
  "('w, 'd) fuse_context \<Rightarrow> wchars \<Rightarrow> u32 \<Rightarrow> u32 \<Rightarrow> u32 \<Rightarrow> dokan_file_info \<Rightarrow> ('w, int \<times> dokan_file_info) fz" where
  "create_file C file_name access_mode share_mode creation_disposition dfi =
     (let fname = unix_name C file_name; dfi = dfi\<lparr>dfi_Context := None\<rparr>; err = (\<lambda>r. (errno_to_win32_error r, dfi)) in
      needs (op_getattr (fc_ops C)) err (\<lambda>getattr.
      sbind (onSys (getattr fname)) (\<lambda>(res, stbuf).
      if res < 0
      then if dfi_IsDirectory dfi then sret (err (- EINVAL))
           else at_context dfi (do_create_file C file_name creation_disposition share_mode access_mode)
      else checked err (onSys (getattr_target (fc_ops C) getattr fname stbuf)) (\<lambda>(fname, stbuf).
           if is_directory stbuf
           then at_context (dfi\<lparr>dfi_IsDirectory := True\<rparr>) (do_open_dir C file_name)
           else create_existing C file_name access_mode share_mode creation_disposition fname dfi))))"

definition handle_close :: "('w, 'd) fuse_operations \<Rightarrow> nat \<Rightarrow> ('w, int) fz" where
  "handle_close ops f =
     sbind (handle_info f) (\<lambda>(dir, name, fh).
     if dir
     then (case op_releasedir ops of None \<Rightarrow> sret 0 | Some releasedir \<Rightarrow> sbind (onSys (releasedir name fh)) (\<lambda>_. sret 0))
     else sbind (case op_flush ops of None \<Rightarrow> sret 0 | Some flush \<Rightarrow> onSys (flush name fh)) (\<lambda>flush_err.
          sbind (case op_release ops of None \<Rightarrow> sret 0 | Some release \<Rightarrow> onSys (release name fh)) (\<lambda>_.
          sret flush_err)))"

definition close_file :: "('w, 'd) fuse_context \<Rightarrow> dokan_file_info \<Rightarrow> ('w, int \<times> dokan_file_info) fz" where
  "close_file C dfi =
     (case dfi_Context dfi of
        None \<Rightarrow> sret (0, dfi)
      | Some f \<Rightarrow>
          sbind (handle_close (fc_ops C) f) (\<lambda>flush_err.
          sbind (smod (drop_handle f)) (\<lambda>_. sret (flush_err, dfi\<lparr>dfi_Context := None\<rparr>))))"

subsection \<open>Reading and writing\<close>

text \<open>
  The file system is asked for at most \<open>MAX_READ_SIZE\<close> bytes, until it has no more.  One that
  reports more than it was asked for has written past the buffer; the loop ends.
\<close>

definition MAX_READ_SIZE :: nat where "MAX_READ_SIZE = 65536"

function read_loop :: "(nat \<Rightarrow> nat \<Rightarrow> ('w, int \<times> bytes) sm) \<Rightarrow> nat \<Rightarrow> nat \<Rightarrow> bytes \<Rightarrow> ('w, int \<times> bytes) sm" where
  "read_loop rd left off buffer w =
     (if left = 0 then (Inr (0, buffer), w)
      else case rd (min left MAX_READ_SIZE) off w of
        (Inl e, w) \<Rightarrow> (Inl e, w)
      | (Inr (res, d), w) \<Rightarrow>
          if res < 0 then (Inr (res, []), w)
          else if res = 0 then (Inr (0, buffer), w)
          else read_loop rd (left - nat res) (off + nat res) (buffer @ d) w)"
  by pat_completeness auto
termination by (relation "measure (\<lambda>(rd, left, off, buffer, w). left)") auto

declare read_loop.simps [simp del]

definition range_locked :: "nat \<Rightarrow> int \<Rightarrow> int \<Rightarrow> ('w, bool) fz" where
  "range_locked f offset n = sget (\<lambda>z. check_lock f offset n (fz_table z) \<noteq> 0)"

definition read_file :: "('w, 'd) fuse_context \<Rightarrow> nat \<Rightarrow> int \<Rightarrow> dokan_file_info \<Rightarrow> ('w, int \<times> bytes) fz" where
  "read_file C num_bytes_to_read offset dfi =
     needs (op_read (fc_ops C)) (\<lambda>r. (r, [])) (\<lambda>rd.
     with_file dfi (\<lambda>r. (r, [])) (\<lambda>f name fh.
     sbind (range_locked f offset (int num_bytes_to_read)) (\<lambda>locked.
     if locked then sret (- EACCES, [])
     else onSys (read_loop (\<lambda>n off. rd name n off fh) num_bytes_to_read (nat offset) []))))"

text \<open>The bytes written are counted.\<close>

definition write_file :: "('w, 'd) fuse_context \<Rightarrow> bytes \<Rightarrow> int \<Rightarrow> dokan_file_info \<Rightarrow> ('w, int \<times> int) fz" where
  "write_file C buffer offset dfi =
     needs (op_write (fc_ops C)) (\<lambda>r. (r, 0)) (\<lambda>write.
     with_file dfi (\<lambda>r. (r, 0)) (\<lambda>f name fh.
     let buffer = take (fc_max_write C) buffer in
     sbind (range_locked f offset (int (length buffer))) (\<lambda>locked.
     if locked then sret (- EACCES, 0)
     else sbind (onSys (write name buffer (nat offset) fh)) (\<lambda>res.
          sret (if res < 0 then (res, 0) else (0, res))))))"

definition flush_file_buffers :: "('w, 'd) fuse_context \<Rightarrow> dokan_file_info \<Rightarrow> ('w, int) fz" where
  "flush_file_buffers C dfi =
     (case dfi_Context dfi of
        None \<Rightarrow> sret (- EINVAL)
      | Some f \<Rightarrow>
          sbind (handle_info f) (\<lambda>(dir, name, fh).
          if dir then needs (op_fsyncdir (fc_ops C)) id (\<lambda>fsyncdir. onSys (fsyncdir name fh))
          else needs (op_fsync (fc_ops C)) id (\<lambda>fsync. onSys (fsync name fh))))"

text \<open>Locks go to the file system when it has them; a byte range is unlocked with the same call.\<close>

definition lock_file :: "('w, 'd) fuse_context \<Rightarrow> int \<Rightarrow> int \<Rightarrow> dokan_file_info \<Rightarrow> ('w, int) fz" where
  "lock_file C byte_offset len dfi =
     with_file dfi id (\<lambda>f name fh.
     case op_lock (fc_ops C) of
       Some lock \<Rightarrow> onSys (lock name fh True byte_offset len)
     | None \<Rightarrow> onTable (lock_range f byte_offset len True))"

definition unlock_file :: "('w, 'd) fuse_context \<Rightarrow> int \<Rightarrow> int \<Rightarrow> dokan_file_info \<Rightarrow> ('w, int) fz" where
  "unlock_file C byte_offset len dfi =
     with_file dfi id (\<lambda>f name fh.
     case op_lock (fc_ops C) of
       Some lock \<Rightarrow> onSys (lock name fh False byte_offset len)
     | None \<Rightarrow> onTable (unlock_range f byte_offset len))"

definition set_end_of_file :: "('w, 'd) fuse_context \<Rightarrow> wchars \<Rightarrow> nat \<Rightarrow> dokan_file_info \<Rightarrow> ('w, int) fz" where
  "set_end_of_file C file_name off dfi =
     checked id (onSys (check_and_resolve (fc_ops C) (unix_name C file_name))) (\<lambda>fname.
     case (dfi_Context dfi, op_ftruncate (fc_ops C)) of
       (Some f, Some ftruncate) \<Rightarrow> sbind (handle_info f) (\<lambda>(dir, name, fh). onSys (ftruncate name off fh))
     | _ \<Rightarrow> needs (op_truncate (fc_ops C)) id (\<lambda>truncate. onSys (truncate fname off)))"

subsection \<open>Attributes and times\<close>

text \<open>What Windows learns about a file; a time of zero leaves the field as it was.\<close>

definition FILE_ATTRIBUTE_DIRECTORY :: u32 where "FILE_ATTRIBUTE_DIRECTORY = 0x10"
definition FILE_ATTRIBUTE_NORMAL :: u32 where "FILE_ATTRIBUTE_NORMAL = 0x80"
definition FILE_ATTRIBUTE_HIDDEN :: u32 where "FILE_ATTRIBUTE_HIDDEN = 2"

definition convertStatlikeBuf :: "fuse_stat \<Rightarrow> bytes \<Rightarrow> find_data \<Rightarrow> find_data" where
  "convertStatlikeBuf stbuf name fd =
     (let attributes = (if is_directory stbuf then FILE_ATTRIBUTE_DIRECTORY else FILE_ATTRIBUTE_NORMAL);
          low = word_of_int (st_size stbuf); high = word_of_int (st_size stbuf div 2 ^ 32);
          time = (\<lambda>t old. if t \<noteq> 0 then unixTimeToFiletime t else old);
          fname = extract_file_name name in
      fd\<lparr>fd_attributes := (if fname \<noteq> [] \<and> hd fname = 46 then attributes OR FILE_ATTRIBUTE_HIDDEN else attributes),
         fd_creation := time (st_ctime stbuf) (fd_creation fd), fd_access := time (st_atime stbuf) (fd_access fd),
         fd_write := time (st_mtime stbuf) (fd_write fd), fd_sizeHigh := high, fd_sizeLow := low\<rparr>)"

text \<open>The attributes of the file system, when it gives any.\<close>

definition win_attributes :: "('w, 'd) fuse_operations \<Rightarrow> bytes \<Rightarrow> find_data \<Rightarrow> ('w, find_data) sm" where
  "win_attributes ops path fd =
     sbind (case op_win_get_attributes ops of None \<Rightarrow> sret 0xFFFFFFFF | Some get \<Rightarrow> get path) (\<lambda>attrs.
     sret (if attrs \<noteq> 0xFFFFFFFF then fd\<lparr>fd_attributes := attrs\<rparr> else fd))"

definition get_file_information ::
  "('w, 'd) fuse_context \<Rightarrow> wchars \<Rightarrow> find_data \<Rightarrow> dokan_file_info
     \<Rightarrow> ('w, int \<times> (u32 \<times> find_data) \<times> dokan_file_info) fz" where
  "get_file_information C file_name info dfi =
     (let fname = unix_name C file_name; ops = fc_ops C; err = (\<lambda>r. (r, (0, info), dfi)) in
      needs (op_getattr ops) err (\<lambda>getattr.
      checked err (onSys (getattr fname)) (\<lambda>st.
      checked err (onSys (getattr_target ops getattr fname st)) (\<lambda>(_, st).
      sbind (onSys (win_attributes ops fname (convertStatlikeBuf st fname info))) (\<lambda>info.
      sret (0, (st_nlink st, info), if is_directory st then dfi\<lparr>dfi_IsDirectory := True\<rparr> else dfi))))))"

definition set_file_attributes :: "('w, 'd) fuse_context \<Rightarrow> wchars \<Rightarrow> u32 \<Rightarrow> ('w, int) fz" where
  "set_file_attributes C file_name file_attributes =
     (case op_win_set_attributes (fc_ops C) of
        None \<Rightarrow> sret 0
      | Some set_attributes \<Rightarrow>
          checked id (onSys (check_and_resolve (fc_ops C) (unix_name C file_name))) (\<lambda>fname.
          onSys (set_attributes fname file_attributes)))"

definition helper_set_time_struct :: "filetime option \<Rightarrow> int \<Rightarrow> int \<times> int" where
  "helper_set_time_struct filetime backup =
     (if is_filetime_set filetime then (0, case filetime of None \<Rightarrow> 0 | Some ft \<Rightarrow> filetimeToUnixTime ft)
      else if backup \<noteq> 0 then (0, backup)
      else (- EINVAL, 0))"

definition set_file_time ::
  "('w, 'd) fuse_context \<Rightarrow> wchars \<Rightarrow> filetime option \<Rightarrow> filetime option \<Rightarrow> filetime option \<Rightarrow> dokan_file_info
     \<Rightarrow> ('w, int) fz" where
  "set_file_time C file_name creation_time last_access_time last_write_time dfi =
     (let ops = fc_ops C; t = (creation_time, last_access_time, last_write_time);
          resolved = (\<lambda>k. checked id (onSys (check_and_resolve ops (unix_name C file_name))) k) in
      if op_utimens ops = None \<and> op_utime ops = None \<and> op_win_set_times ops = None then sret (- EINVAL)
      else case op_win_set_times ops of
        Some win_times \<Rightarrow>
          resolved (\<lambda>fname.
          if dfi_Context dfi = None then onSys (win_times fname None t)
          else with_file dfi id (\<lambda>f name fh. onSys (win_times fname (Some fh) t)))
      | None \<Rightarrow>
          needs (op_getattr ops) id (\<lambda>getattr.
          resolved (\<lambda>fname.
          checked id (onSys (getattr fname)) (\<lambda>st.
          checked id (sret (helper_set_time_struct last_access_time (st_atime st))) (\<lambda>atime.
          checked id (sret (helper_set_time_struct last_write_time (st_mtime st))) (\<lambda>mtime.
          case op_utimens ops of
            Some utimens \<Rightarrow> onSys (utimens fname ((atime, 0), (mtime, 0)))
          | None \<Rightarrow> needs (op_utime ops) id (\<lambda>utime. onSys (utime fname (atime, mtime)))))))))"

definition get_disk_free_space :: "('w, 'd) fuse_context \<Rightarrow> ('w, int \<times> u64 \<times> u64 \<times> u64) fz" where
  "get_disk_free_space C =
     needs (op_statfs (fc_ops C)) (\<lambda>r. (r, 0, 0, 0)) (\<lambda>statfs.
     checked (\<lambda>r. (r, 0, 0, 0)) (onSys (statfs [])) (\<lambda>vfs.
     sret (0, ucast (f_bsize vfs) * f_bavail vfs, ucast (f_bsize vfs) * f_blocks vfs, ucast (f_bsize vfs) * f_bfree vfs)))"

definition get_volume_information ::
  "('w, 'd) fuse_context \<Rightarrow> nat \<Rightarrow> nat \<Rightarrow> ('w, int \<times> wchars \<times> wchars \<times> u32) fz" where
  "get_volume_information C volume_name_size file_system_name_size =
     (let volname = (case fc_volname C of Some n \<Rightarrow> n | None \<Rightarrow> lit ''DOKAN'');
          fsname = (case fc_fsname C of Some n \<Rightarrow> n | None \<Rightarrow> lit ''Dokan user-level file system'') in
      sret (0, utf8_to_wchar_buf volname volume_name_size, utf8_to_wchar_buf fsname file_system_name_size, 3))"

definition unmount :: "('w, 'd) fuse_context \<Rightarrow> ('w, int) fz" where
  "unmount C =
     sbind (case op_destroy (fc_ops C) of None \<Rightarrow> sret () | Some destroy \<Rightarrow> onSys destroy) (\<lambda>_. sret 0)"

subsection \<open>Directories and names\<close>

definition cleanup :: "('w, int) fz" where
  "cleanup = sret 0"

definition open_directory :: "('w, 'd) fuse_context \<Rightarrow> wchars \<Rightarrow> dokan_file_info \<Rightarrow> ('w, int \<times> dokan_file_info) fz" where
  "open_directory C file_name dfi =
     (let ops = fc_ops C; fname = unix_name C file_name; err = (\<lambda>r. (r, dfi)) in
      if op_opendir ops \<noteq> None
      then sbind (do_open_dir C file_name) (\<lambda>(res, f). sret (res, if res < 0 then dfi else dfi\<lparr>dfi_Context := f\<rparr>))
      else needs (op_getattr ops) err (\<lambda>getattr.
           checked err (onSys (getattr fname)) (\<lambda>st.
           checked err (onSys (getattr_target ops getattr fname st)) (\<lambda>(_, st).
           sret (if is_directory st then (0, dfi\<lparr>dfi_Context := None\<rparr>) else (- ENOTDIR, dfi))))))"

definition create_directory :: "('w, 'd) fuse_context \<Rightarrow> wchars \<Rightarrow> ('w, int) fz" where
  "create_directory C file_name =
     needs (op_mkdir (fc_ops C)) id (\<lambda>mkdir. onSys (mkdir (unix_name C file_name) (fc_dirmask C)))"

definition delete_directory :: "('w, 'd) fuse_context \<Rightarrow> wchars \<Rightarrow> dokan_file_info \<Rightarrow> ('w, int) fz" where
  "delete_directory C file_name dfi =
     (let ops = fc_ops C; fname = unix_name C file_name in
      needs (op_rmdir ops) id (\<lambda>rmdir.
      needs (op_getattr ops) id (\<lambda>getattr.
      if dfi_Context dfi \<noteq> None then sret (- EBUSY)
      else checked id (onSys (getattr fname)) (\<lambda>st.
           case op_unlink ops of
             Some unlink \<Rightarrow> if S_ISLNK (st_mode st) then onSys (unlink fname) else onSys (rmdir fname)
           | None \<Rightarrow> onSys (rmdir fname)))))"

definition delete_file :: "('w, 'd) fuse_context \<Rightarrow> wchars \<Rightarrow> ('w, int) fz" where
  "delete_file C file_name =
     needs (op_unlink (fc_ops C)) id (\<lambda>unlink. onSys (unlink (unix_name C file_name)))"

text \<open>A file at the new name is removed first; whether it is gone is checked again.\<close>

definition move_file :: "('w, 'd) fuse_context \<Rightarrow> wchars \<Rightarrow> wchars \<Rightarrow> bool \<Rightarrow> ('w, int) fz" where
  "move_file C file_name new_file_name replace_existing =
     (let ops = fc_ops C; name = unix_name C file_name; new_name = unix_name C new_file_name in
      needs (op_rename ops) id (\<lambda>rename.
      needs (op_getattr ops) id (\<lambda>getattr.
      let finish =
        sbind (onSys (getattr new_name)) (\<lambda>(res, _).
        if res \<noteq> - ENOENT then sret (- EEXIST)
        else checked id (plain (onSys (rename name new_name))) (\<lambda>_.
             sbind (onTable (\<lambda>t. ((), renamed_file name new_name t))) (\<lambda>_. sret 0))) in
      sbind (onSys (getattr new_name)) (\<lambda>(res, stbuf).
      if res = - ENOENT then finish
      else if \<not> replace_existing then sret (- EEXIST)
      else if res \<ge> 0 \<and> st_mode stbuf AND S_IFDIR \<noteq> 0 then sret (- EISDIR)
      else needs (op_unlink ops) id (\<lambda>unlink. checked id (plain (onSys (unlink new_name))) (\<lambda>_. finish))))))"

subsection \<open>Listing directories\<close>

text \<open>
  One entry is passed on.  A name that is no UTF-8 is taken to be in the code page of the
  system, and the file is renamed to what it means there.
\<close>

definition utf8_to_wchar_buf_old :: "(bytes \<Rightarrow> wchars) \<Rightarrow> bytes \<Rightarrow> nat \<Rightarrow> wchars" where
  "utf8_to_wchar_buf_old ansi src maxlen = (if length (ansi src) + 1 \<ge> maxlen then [] else ansi src)"

definition MAX_PATH :: nat where "MAX_PATH = 260"

definition fix_name :: "('w, 'd) fuse_context \<Rightarrow> bytes \<Rightarrow> ('w, wchars) sm" where
  "fix_name C name =
     (let w = wcstr (utf8_to_wchar_buf name MAX_PATH) in
      if w \<noteq> [] then sret w
      else let w = utf8_to_wchar_buf_old (fc_ansi C) name MAX_PATH; new_name = wchar_to_utf8_cstr (fc_malloc C) w in
           case (op_getattr (fc_ops C), op_rename (fc_ops C)) of
             (Some getattr, Some rename) \<Rightarrow>
               if new_name = [] then sret w
               else sbind (getattr new_name) (\<lambda>(res, _).
                    if res = - ENOENT then sbind (rename name new_name) (\<lambda>_. sret w) else sret w)
           | _ \<Rightarrow> sret w)"

definition empty_fuse_stat :: fuse_stat where
  "empty_fuse_stat = \<lparr>st_mode = 0, st_size = 0, st_dev = 0, st_atime = 0, st_mtime = 0, st_ctime = 0, st_nlink = 0\<rparr>"

definition empty_find_data :: find_data where
  "empty_find_data = \<lparr>fd_attributes = 0, fd_creation = split_filetime 0, fd_access = split_filetime 0,
     fd_write = split_filetime 0, fd_sizeHigh = 0, fd_sizeLow = 0, fd_fileName = []\<rparr>"

definition walk_stat ::
  "('w, 'd) fuse_operations \<Rightarrow> bytes \<Rightarrow> bytes \<Rightarrow> fuse_stat option \<Rightarrow> ('w, int \<times> fuse_stat) sm" where
  "walk_stat ops dirname name stbuf =
     (case stbuf of
        Some st \<Rightarrow> sret (0, st)
      | None \<Rightarrow>
          if name = lit ''.'' \<or> name = lit ''..'' then sret (0, empty_fuse_stat\<lparr>st_mode := S_IFDIR\<rparr>)
          else needs (op_getattr ops) (\<lambda>r. (r, empty_fuse_stat)) (\<lambda>getattr. getattr (dirname @ name)))"

type_synonym 'd fill_find_data = "find_data \<Rightarrow> 'd \<Rightarrow> int \<times> 'd"

definition walk_directory ::
  "('w, 'd) fuse_context \<Rightarrow> 'd fill_find_data \<Rightarrow> bytes \<Rightarrow> bytes \<Rightarrow> fuse_stat option \<Rightarrow> ('d \<times> 'w, int) sm" where
  "walk_directory C fill dirname name stbuf =
     (let ops = fc_ops C; path = dirname @ name in
      sbind (onSnd (fix_name C name)) (\<lambda>w.
      checked id (onSnd (walk_stat ops dirname name stbuf)) (\<lambda>st.
      checked id (onSnd (needs (op_getattr ops) (\<lambda>r. (r, path, st)) (\<lambda>getattr. getattr_target ops getattr path st))) (\<lambda>(_, st).
      sbind (onSnd (win_attributes ops path (convertStatlikeBuf st name (empty_find_data\<lparr>fd_fileName := w\<rparr>)))) (\<lambda>fd.
      (\<lambda>(d, s). case fill fd d of (r, d) \<Rightarrow> (Inr r, (d, s))))))))"

fun walk_entries :: "(bytes \<Rightarrow> ('s, int) sm) \<Rightarrow> bytes list \<Rightarrow> ('s, int) sm" where
  "walk_entries walk [] = sret 0"
| "walk_entries walk (f # fs) = checked id (plain (walk f)) (\<lambda>_. walk_entries walk fs)"

definition onSys2 :: "('d \<times> 'w, 'a) sm \<Rightarrow> ('d \<times> 'w fuse_state, 'a) sm" where
  "onSys2 m = (\<lambda>(d, z). case m (d, fz_sys z) of (r, (d, w)) \<Rightarrow> (r, (d, z\<lparr>fz_sys := w\<rparr>)))"

definition find_files ::
  "('w, 'd) fuse_context \<Rightarrow> wchars \<Rightarrow> 'd fill_find_data \<Rightarrow> dokan_file_info \<Rightarrow> ('d \<times> 'w fuse_state, int) sm" where
  "find_files C file_name fill dfi =
     (let ops = fc_ops C in
      if (op_readdir ops = None \<and> op_getdir ops = None) \<or> op_getattr ops = None then sret (- EINVAL)
      else checked id (onSnd (onSys (check_and_resolve ops (unix_name C file_name)))) (\<lambda>fname.
        let dirname = (if fname \<noteq> [] \<and> last fname = 47 then fname else fname @ [47]) in
        case op_readdir ops of
          Some readdir \<Rightarrow>
            (case dfi_Context dfi of
               None \<Rightarrow> onSys2 (readdir fname None (walk_directory C fill dirname))
             | Some f \<Rightarrow> sbind (onSnd (handle_info f)) (\<lambda>(_, _, fh).
                 onSys2 (readdir fname (Some fh) (walk_directory C fill dirname))))
        | None \<Rightarrow>
            needs (op_getdir ops) id (\<lambda>getdir.
            checked id (onSnd (onSys (getdir fname))) (\<lambda>names.
            onSys2 (walk_entries (\<lambda>name. walk_directory C fill dirname name None) names)))))"

end
