(* ===== verification/Dokan.thy ===== *)
theory Dokan
  imports FuseMain
begin

text \<open>
  The callbacks that \<open>docanfuse.cpp\<close> gives to Dokan, the operations that \<open>main.cpp\<close> of EncFS gives
  to FUSE, and the two together: from a request of Windows to the encrypted file.
\<close>

subsection \<open>Callbacks of Dokan\<close>

text \<open>A code of FUSE becomes the negative error of Windows.\<close>

definition reply :: "int \<Rightarrow> int" where "reply res = - errno_to_win32_error res"

definition replies :: "('s, int) sm \<Rightarrow> ('s, int) sm" where
  "replies m = sbind m (\<lambda>res. sret (reply res))"

definition replies_with :: "('s, int \<times> 'a) sm \<Rightarrow> ('s, int \<times> 'a) sm" where
  "replies_with m = sbind m (\<lambda>(res, x). sret (reply res, x))"

definition FuseFindFiles ::
  "('w, 'd) fuse_context \<Rightarrow> wchars \<Rightarrow> 'd fill_find_data \<Rightarrow> dokan_file_info \<Rightarrow> ('d \<times> 'w fuse_state, int) sm" where
  "FuseFindFiles C FileName FillFindData dfi = replies (find_files C FileName FillFindData dfi)"

definition FuseOpenDirectory :: "('w, 'd) fuse_context \<Rightarrow> wchars \<Rightarrow> dokan_file_info \<Rightarrow> ('w, int \<times> dokan_file_info) fz" where
  "FuseOpenDirectory C FileName dfi = replies_with (open_directory C FileName dfi)"

definition FuseCleanup :: "('w, int) fz" where
  "FuseCleanup = replies cleanup"

definition FuseCreateDirectory :: "('w, 'd) fuse_context \<Rightarrow> wchars \<Rightarrow> ('w, int) fz" where
  "FuseCreateDirectory C FileName = replies (create_directory C FileName)"

definition FuseDeleteDirectory :: "('w, 'd) fuse_context \<Rightarrow> wchars \<Rightarrow> dokan_file_info \<Rightarrow> ('w, int) fz" where
  "FuseDeleteDirectory C FileName dfi = replies (delete_directory C FileName dfi)"

text \<open>The result of \<open>create_file\<close> is an error of Windows already.\<close>

definition FuseCreateFile ::
  "('w, 'd) fuse_context \<Rightarrow> wchars \<Rightarrow> u32 \<Rightarrow> u32 \<Rightarrow> u32 \<Rightarrow> dokan_file_info \<Rightarrow> ('w, int \<times> dokan_file_info) fz" where
  "FuseCreateFile C FileName AccessMode ShareMode CreationDisposition dfi =
     sbind (create_file C FileName AccessMode ShareMode CreationDisposition dfi) (\<lambda>(err, dfi). sret (- err, dfi))"

definition FuseCloseFile :: "('w, 'd) fuse_context \<Rightarrow> dokan_file_info \<Rightarrow> ('w, int \<times> dokan_file_info) fz" where
  "FuseCloseFile C dfi = replies_with (close_file C dfi)"

definition FuseReadFile :: "('w, 'd) fuse_context \<Rightarrow> nat \<Rightarrow> int \<Rightarrow> dokan_file_info \<Rightarrow> ('w, int \<times> bytes) fz" where
  "FuseReadFile C BufferLength Offset dfi = replies_with (read_file C BufferLength Offset dfi)"

definition FuseWriteFile :: "('w, 'd) fuse_context \<Rightarrow> bytes \<Rightarrow> int \<Rightarrow> dokan_file_info \<Rightarrow> ('w, int \<times> int) fz" where
  "FuseWriteFile C Buffer Offset dfi = replies_with (write_file C Buffer Offset dfi)"

definition FuseFlushFileBuffers :: "('w, 'd) fuse_context \<Rightarrow> dokan_file_info \<Rightarrow> ('w, int) fz" where
  "FuseFlushFileBuffers C dfi = replies (flush_file_buffers C dfi)"

definition FuseGetFileInformation ::
  "('w, 'd) fuse_context \<Rightarrow> wchars \<Rightarrow> find_data \<Rightarrow> dokan_file_info
     \<Rightarrow> ('w, int \<times> (u32 \<times> find_data) \<times> dokan_file_info) fz" where
  "FuseGetFileInformation C FileName info dfi = replies_with (get_file_information C FileName info dfi)"

definition FuseDeleteFile :: "('w, 'd) fuse_context \<Rightarrow> wchars \<Rightarrow> ('w, int) fz" where
  "FuseDeleteFile C FileName = replies (delete_file C FileName)"

definition FuseMoveFile :: "('w, 'd) fuse_context \<Rightarrow> wchars \<Rightarrow> wchars \<Rightarrow> bool \<Rightarrow> ('w, int) fz" where
  "FuseMoveFile C FileName NewFileName ReplaceIfExisting = replies (move_file C FileName NewFileName ReplaceIfExisting)"

definition FuseLockFile :: "('w, 'd) fuse_context \<Rightarrow> int \<Rightarrow> int \<Rightarrow> dokan_file_info \<Rightarrow> ('w, int) fz" where
  "FuseLockFile C ByteOffset Length dfi = replies (lock_file C ByteOffset Length dfi)"

definition FuseUnlockFile :: "('w, 'd) fuse_context \<Rightarrow> int \<Rightarrow> int \<Rightarrow> dokan_file_info \<Rightarrow> ('w, int) fz" where
  "FuseUnlockFile C ByteOffset Length dfi = replies (unlock_file C ByteOffset Length dfi)"

definition FuseSetEndOfFile :: "('w, 'd) fuse_context \<Rightarrow> wchars \<Rightarrow> nat \<Rightarrow> dokan_file_info \<Rightarrow> ('w, int) fz" where
  "FuseSetEndOfFile C FileName ByteOffset dfi = replies (set_end_of_file C FileName ByteOffset dfi)"

definition FuseSetFileAttributes :: "('w, 'd) fuse_context \<Rightarrow> wchars \<Rightarrow> u32 \<Rightarrow> ('w, int) fz" where
  "FuseSetFileAttributes C FileName FileAttributes = replies (set_file_attributes C FileName FileAttributes)"

definition FuseSetFileTime ::
  "('w, 'd) fuse_context \<Rightarrow> wchars \<Rightarrow> filetime option \<Rightarrow> filetime option \<Rightarrow> filetime option \<Rightarrow> dokan_file_info
     \<Rightarrow> ('w, int) fz" where
  "FuseSetFileTime C FileName CreationTime LastAccessTime LastWriteTime dfi =
     replies (set_file_time C FileName CreationTime LastAccessTime LastWriteTime dfi)"

definition FuseGetDiskFreeSpace :: "('w, 'd) fuse_context \<Rightarrow> ('w, int \<times> u64 \<times> u64 \<times> u64) fz" where
  "FuseGetDiskFreeSpace C = replies_with (get_disk_free_space C)"

text \<open>The serial number is 0 and a component has at most 255 characters.\<close>

definition GetVolumeInformation ::
  "('w, 'd) fuse_context \<Rightarrow> nat \<Rightarrow> nat \<Rightarrow> ('w, int \<times> u32 \<times> u32 \<times> wchars \<times> wchars \<times> u32) fz" where
  "GetVolumeInformation C VolumeNameSize FileSystemNameSize =
     replies_with (sbind (get_volume_information C VolumeNameSize FileSystemNameSize)
       (\<lambda>(res, names). sret (res, 0, 255, names)))"

definition FuseUnmount :: "('w, 'd) fuse_context \<Rightarrow> ('w, int) fz" where
  "FuseUnmount C = replies (unmount C)"

subsection \<open>The operations of EncFS\<close>

text \<open>
  \<open>main.cpp\<close> sets these; the bridge does not use the others it sets (links, modes, owners and
  \<open>fgetattr\<close>).  \<open>full\<close> completes the attributes with the fields that the model of the file
  layer leaves out.  The end of the idle monitor, which \<open>destroy\<close> waits for, is modelled apart.
\<close>

definition encfs_oper ::
  "('o, 'k) surroundings \<Rightarrow> (bytes \<Rightarrow> stat \<Rightarrow> fuse_stat) \<Rightarrow> (('o, 'k dirnode) volume, 'd) fuse_operations" where
  "encfs_oper env full =
     \<lparr>op_getattr = Some (\<lambda>path. sbind (encfs_getattr env path) (\<lambda>(res, st). sret (res, full path st))),
      op_readlink = Some (\<lambda>path n. sbind (encfs_readlink env path) (\<lambda>res. sret (res, []))),
      op_getdir = Some (\<lambda>path. encfs_getdir env path [] (\<lambda>name ty ino h. (0, h @ [name]))),
      op_mknod = Some (encfs_mknod env), op_mkdir = Some (encfs_mkdir env), op_unlink = Some (encfs_unlink env),
      op_rmdir = Some (encfs_rmdir env), op_rename = Some (encfs_rename env), op_truncate = Some (encfs_truncate env),
      op_utime = Some (encfs_utime env),
      op_open = Some (\<lambda>path flags. sbind (encfs_open env path flags) (\<lambda>(res, fh).
        sret (res, case fh of None \<Rightarrow> 0 | Some a \<Rightarrow> word_of_nat a))),
      op_read = Some (\<lambda>path n off fh. encfs_read env path n off (unat fh)),
      op_write = Some (\<lambda>path d off fh. encfs_write env path d off (unat fh)),
      op_statfs = Some (\<lambda>path. encfs_statfs env), op_flush = Some (\<lambda>path fh. encfs_flush env path (unat fh)),
      op_release = Some (\<lambda>path fh. encfs_release env path (unat fh)),
      op_fsync = Some (\<lambda>path fh. encfs_fsync env path (unat fh)),
      op_opendir = None, op_readdir = None, op_releasedir = None, op_fsyncdir = None, op_destroy = Some (sret ()),
      op_create = None, op_ftruncate = Some (\<lambda>path n fh. encfs_ftruncate env path n (unat fh)), op_lock = None,
      op_utimens = Some (encfs_utimens env), op_win_get_attributes = Some (encfs_win_get_attributes env),
      op_win_set_attributes = Some (encfs_win_set_attributes env),
      op_win_set_times = Some (\<lambda>path fh t. encfs_win_set_times env path (map_option unat fh) t)\<rparr>"

subsection \<open>File systems that serve a string of bytes\<close>

text \<open>
  \<open>holds x\<close>: the file is open and has the contents \<open>x\<close>.  A read may give fewer bytes than it was
  asked for, but none only at the end of the file.
\<close>

locale byte_server =
  fixes rd :: "nat \<Rightarrow> nat \<Rightarrow> ('w, int \<times> bytes) sm" and wr :: "bytes \<Rightarrow> nat \<Rightarrow> ('w, int) sm"
    and holds :: "bytes \<Rightarrow> 'w \<Rightarrow> bool"
  assumes rd_ok: "holds x w \<Longrightarrow> 0 < n \<Longrightarrow> \<exists>m w'. rd n off w = (Inr (int m, take m (drop off x)), w') \<and> holds x w' \<and>
      m \<le> n \<and> m \<le> length x - off \<and> (m = 0 \<longrightarrow> length x \<le> off)"
    and wr_ok: "holds x w \<Longrightarrow> d \<noteq> [] \<Longrightarrow> \<exists>w'. wr d off w = (Inr (int (length d)), w') \<and> holds (put off d x) w'"
begin

text \<open>Reading in pieces gives what one read would, and stops.\<close>

lemma read_loop_ok:
  assumes "holds x w"
  shows "\<exists>w'. read_loop rd left off buffer w = (Inr (0, buffer @ take left (drop off x)), w') \<and> holds x w'"
  using assms
proof (induction left arbitrary: off buffer w rule: less_induct)
  case (less left)
  show ?case
  proof (cases "left = 0")
    case True
    then show ?thesis using less.prems by (simp add: read_loop.simps)
  next
    case False
    then have "0 < min left MAX_READ_SIZE" by (simp add: MAX_READ_SIZE_def)
    then obtain m w1 where r: "rd (min left MAX_READ_SIZE) off w = (Inr (int m, take m (drop off x)), w1)" "holds x w1"
        "m \<le> min left MAX_READ_SIZE" "m \<le> length x - off" "m = 0 \<longrightarrow> length x \<le> off"
      using rd_ok [OF less.prems] by blast
    show ?thesis
    proof (cases "m = 0")
      case True
      then show ?thesis using False r by (simp add: read_loop.simps [of rd left])
    next
      case m: False
      have t: "take left (drop off x) = take m (drop off x) @ take (left - m) (drop (off + m) x)"
        using r(3) by (metis add.commute drop_drop le_add_diff_inverse min.boundedE take_add)
      obtain w' where "read_loop rd (left - m) (off + m) (buffer @ take m (drop off x)) w1
          = (Inr (0, (buffer @ take m (drop off x)) @ take (left - m) (drop (off + m) x)), w')" "holds x w'"
        using less.IH [of "left - m" w1] m False r(2) by (metis diff_less gr0I)
      then show ?thesis using False r(1) m by (simp add: read_loop.simps [of rd left] t)
    qed
  qed
qed

end

text \<open>An open file of EncFS is one.\<close>

sublocale volume_file \<subseteq> enc: byte_server "\<lambda>n off. encfs_read env path n off fh" "\<lambda>d off. encfs_write env path d off fh"
    "file_holds cfg name fd good data dn fh i" for path fh i
proof
  fix x v n off
  assume "file_holds cfg name fd good data dn fh i x v"
  note r = read_ok [OF this, of path n off]
  have "take (length (take n (drop off x))) (drop off x) = take n (drop off x)"
    by (auto simp: min_def)
  then show "0 < n \<Longrightarrow> \<exists>m w'. encfs_read env path n off fh v = (Inr (int m, take m (drop off x)), w') \<and>
      file_holds cfg name fd good data dn fh i x w' \<and> m \<le> n \<and> m \<le> length x - off \<and> (m = 0 \<longrightarrow> length x \<le> off)"
    using r by (intro exI [of _ "length (take n (drop off x))"]) auto
next
  show "file_holds cfg name fd good data dn fh i x v \<Longrightarrow> d \<noteq> [] \<Longrightarrow>
      \<exists>v'. encfs_write env path d off fh v = (Inr (int (length d)), v') \<and> file_holds cfg name fd good data dn fh i (put off d x) v'"
    for x v d off by (rule write_ok)
qed

context volume_file
begin

lemma pieces_ok:
  "file_holds cfg name fd good data dn fh i x v \<Longrightarrow>
     \<exists>v'. read_loop (\<lambda>n off. encfs_read env path n off fh) left off [] v = (Inr (0, take left (drop off x)), v') \<and>
       file_holds cfg name fd good data dn fh i x v'"
  using enc.read_loop_ok [where path = path and fh = fh and i = i and buffer = "[]"] by simp

end

text \<open>A request for an open file that nobody else has locked: it reaches the operations.\<close>

definition file_open :: "'w fuse_state \<Rightarrow> nat \<Rightarrow> dokan_file_info \<Rightarrow> u64 \<Rightarrow> bool" where
  "file_open z f dfi fh \<longleftrightarrow> dfi_Context dfi = Some f \<and>
     (\<exists>h. ft_handles (fz_table z) f = Some h \<and> \<not> fh_is_dir h \<and> fh_fh h = fh)"

lemma with_file_open:
  assumes "file_open z f dfi fh"
  shows "with_file dfi err k z = k f (get_name (fz_table z) f) fh z"
  using assms by (auto simp: file_open_def with_file_def sbind_def handle_info_def)

lemma read_file_open:
  assumes "file_open z f dfi fh" and "op_read (fc_ops C) = Some rd" and "check_lock f offset (int n) (fz_table z) = 0"
    and "read_loop (\<lambda>n off. rd (get_name (fz_table z) f) n off fh) n (nat offset) [] (fz_sys z) = (Inr (0, d), w)"
  shows "FuseReadFile C n offset dfi z = (Inr (0, d), z\<lparr>fz_sys := w\<rparr>)"
  using assms(2-4)
  by (simp add: FuseReadFile_def replies_with_def read_file_def needs_def sbind_def with_file_open [OF assms(1)]
      range_locked_def sget_def onSys_def sret_def reply_def errno_to_win32_error_def)

lemma write_file_open:
  assumes "file_open z f dfi fh" and "op_write (fc_ops C) = Some wr" and "check_lock f offset (int (length d)) (fz_table z) = 0"
    and "length d \<le> fc_max_write C" and "wr (get_name (fz_table z) f) d (nat offset) fh (fz_sys z) = (Inr (int n), w)"
  shows "FuseWriteFile C d offset dfi z = (Inr (0, int n), z\<lparr>fz_sys := w\<rparr>)"
  using assms(2-5)
  by (simp add: FuseWriteFile_def replies_with_def write_file_def needs_def sbind_def with_file_open [OF assms(1)]
      range_locked_def sget_def onSys_def sret_def reply_def errno_to_win32_error_def)

lemma windows_reads:
  assumes "volume_file env dn cfg name fd good data key_ok" and "file_open z f dfi fh" and "fc_ops C = encfs_oper env full"
    and "file_holds cfg name fd good data dn (unat fh) i x (fz_sys z)" and "check_lock f (int off) (int n) (fz_table z) = 0"
  shows "\<exists>z'. FuseReadFile C n (int off) dfi z = (Inr (0, take n (drop off x)), z') \<and>
    file_holds cfg name fd good data dn (unat fh) i x (fz_sys z') \<and> fz_table z' = fz_table z"
proof -
  obtain v1 where v1: "read_loop (\<lambda>n off. encfs_read env (get_name (fz_table z) f) n off (unat fh)) n off [] (fz_sys z)
      = (Inr (0, take n (drop off x)), v1)" "file_holds cfg name fd good data dn (unat fh) i x v1"
    using volume_file.pieces_ok [OF assms(1,4), of "get_name (fz_table z) f" n off] by blast
  have "FuseReadFile C n (int off) dfi z = (Inr (0, take n (drop off x)), z\<lparr>fz_sys := v1\<rparr>)"
    using assms(3,5) v1(1) by (intro read_file_open [OF assms(2)]) (simp_all add: encfs_oper_def)
  then show ?thesis using v1(2) by force
qed

subsection \<open>Properties\<close>



text \<open>A volume in memory with one open file, opened by Windows.\<close>

definition sample_context :: "((bytes, 'k dirnode) volume, 'd) fuse_operations \<Rightarrow> ((bytes, 'k dirnode) volume, 'd) fuse_context" where
  "sample_context ops =
     \<lparr>fc_ops = ops, fc_filemask = 0x1FF, fc_dirmask = 0x1FF, fc_max_write = 0xFFFFFFFF, fc_fsname = None, fc_volname = None,
      fc_malloc = (\<lambda>i. 0), fc_ansi = (\<lambda>p. [])\<rparr>"

definition sample_table :: file_table where
  "sample_table = set_finfo 1 2 (table_step (GetFile [47] False FILE_READ_DATA 7) file_table_new)"

lemma sample_opened:
  "file_open \<lparr>fz_table = sample_table, fz_sys = v\<rparr> 1 \<lparr>dfi_Context = Some 1, dfi_IsDirectory = False\<rparr> 2"
  "check_lock 1 1 2 sample_table = 0"
proof -
  have "ft_handles sample_table 1 = Some \<lparr>fh_is_dir = False, fh_fh = 2, fh_shared = 7, fh_lock = 2, fh_locks = []\<rparr>"
    by (simp add: sample_table_def set_finfo_def get_file_def get_file_find_def file_table_new_def impl_file_handle_def)
  then show "file_open \<lparr>fz_table = sample_table, fz_sys = v\<rparr> 1 \<lparr>dfi_Context = Some 1, dfi_IsDirectory = False\<rparr> 2"
    by (simp add: file_open_def)
  show "check_lock 1 1 2 sample_table = 0" by code_simp
qed

definition sample_state :: "(bytes, 'k dirnode) volume \<Rightarrow> (bytes, 'k dirnode) volume fuse_state" where
  "sample_state v = \<lparr>fz_table = sample_table, fz_sys = v\<rparr>"

definition sample_dir :: "_ dirnode" where
  "sample_dir = DirNode_new True [47, 114] mac_sample_cfg"

definition sample_mounted :: "(bytes, _ dirnode) volume" where
  "sample_mounted =
     \<lparr>v_ctx = (putNode [47] 1 2 EncFS_Context_new)\<lparr>cx_root := Some sample_dir\<rparr>, v_nodes = [(1, sample_node)],
      v_next = 3, v_os = []\<rparr>"

definition sample_stat :: "bytes \<Rightarrow> stat \<Rightarrow> fuse_stat" where
  "sample_stat path st = empty_fuse_stat\<lparr>st_mode := st_mode st, st_size := st_size st\<rparr>"

definition sample_encfs :: "((bytes, _ dirnode) volume, unit) fuse_context" where
  "sample_encfs = sample_context (encfs_oper (sample_env mem_dir sample_dir) sample_stat)"

definition sample_info :: dokan_file_info where
  "sample_info = \<lparr>dfi_Context = Some 1, dfi_IsDirectory = False\<rparr>"

lemma sample_mounted_holds:
  "file_holds mac_sample_cfg (lit ''/f'') 3 (\<lambda>_. True) (\<lambda>w. w) sample_dir (unat (2 :: u64)) 1 [] sample_mounted"
proof -
  have "node_inv mac_sample_cfg (lit ''/f'') 3 (\<lambda>_. True) (\<lambda>w. w) (fn_io sample_node, [])"
      "node_content mac_sample_cfg (\<lambda>w. w) (fn_io sample_node, []) = []"
    using mac_sample_file by (simp_all add: sample_node_def mac_sample_file_def sample_file_def hasBlockHeader_def)
  moreover have "in_use sample_dir 2 1 sample_node sample_mounted"
    by (simp add: in_use_def sample_mounted_def putNode_def getNode_def EncFS_Context_new_def)
  ultimately show ?thesis
    unfolding file_holds_def by (intro exI [of _ sample_node]) (simp add: sample_mounted_def)
qed

lemmas sample_request =
  sample_volume.volume_file_axioms [folded sample_dir_def]
  sample_opened(1) [of sample_mounted, folded sample_info_def sample_state_def]

lemma sample_encfs_simps [simp]:
  "fc_ops sample_encfs = encfs_oper (sample_env mem_dir sample_dir) sample_stat" "fc_max_write sample_encfs = 0xFFFFFFFF"
  "fz_table (sample_state v) = sample_table" "fz_sys (sample_state v) = v"
  by (simp_all add: sample_encfs_def sample_context_def sample_state_def)



end
