(* ===== verification/Bridge.thy ===== *)
theory Bridge
  imports Dokan
begin

text \<open>
  What the bridge keeps: whatever Windows asks for, the table of open files stays consistent, and
  with EncFS behind it the volume does, too.
\<close>

subsection \<open>Operations that keep a property\<close>

text \<open>All operations of a file system keep \<open>Q\<close>.\<close>

definition ops_keep :: "('w \<Rightarrow> bool) \<Rightarrow> ('w, 'd) fuse_operations \<Rightarrow> bool" where
  "ops_keep Q ops \<longleftrightarrow>
     (\<forall>f p. op_getattr ops = Some f \<longrightarrow> keeps Q (f p)) \<and> (\<forall>f p n. op_readlink ops = Some f \<longrightarrow> keeps Q (f p n)) \<and>
     (\<forall>f p. op_getdir ops = Some f \<longrightarrow> keeps Q (f p)) \<and> (\<forall>f p m. op_mknod ops = Some f \<longrightarrow> keeps Q (f p m)) \<and>
     (\<forall>f p m. op_mkdir ops = Some f \<longrightarrow> keeps Q (f p m)) \<and> (\<forall>f p. op_unlink ops = Some f \<longrightarrow> keeps Q (f p)) \<and>
     (\<forall>f p. op_rmdir ops = Some f \<longrightarrow> keeps Q (f p)) \<and> (\<forall>f p q. op_rename ops = Some f \<longrightarrow> keeps Q (f p q)) \<and>
     (\<forall>f p n. op_truncate ops = Some f \<longrightarrow> keeps Q (f p n)) \<and> (\<forall>f p t. op_utime ops = Some f \<longrightarrow> keeps Q (f p t)) \<and>
     (\<forall>f p fl. op_open ops = Some f \<longrightarrow> keeps Q (f p fl)) \<and>
     (\<forall>f p n off fh. op_read ops = Some f \<longrightarrow> keeps Q (f p n off fh)) \<and>
     (\<forall>f p d off fh. op_write ops = Some f \<longrightarrow> keeps Q (f p d off fh)) \<and>
     (\<forall>f p. op_statfs ops = Some f \<longrightarrow> keeps Q (f p)) \<and> (\<forall>f p fh. op_flush ops = Some f \<longrightarrow> keeps Q (f p fh)) \<and>
     (\<forall>f p fh. op_release ops = Some f \<longrightarrow> keeps Q (f p fh)) \<and> (\<forall>f p fh. op_fsync ops = Some f \<longrightarrow> keeps Q (f p fh)) \<and>
     (\<forall>f p. op_opendir ops = Some f \<longrightarrow> keeps Q (f p)) \<and>
     (\<forall>f p fh walk. op_readdir ops = Some f \<longrightarrow> (\<forall>n st. keeps (\<lambda>s. Q (snd s)) (walk n st)) \<longrightarrow>
        keeps (\<lambda>s. Q (snd s)) (f p fh walk)) \<and>
     (\<forall>f p fh. op_releasedir ops = Some f \<longrightarrow> keeps Q (f p fh)) \<and> (\<forall>f p fh. op_fsyncdir ops = Some f \<longrightarrow> keeps Q (f p fh)) \<and>
     (\<forall>f. op_destroy ops = Some f \<longrightarrow> keeps Q f) \<and> (\<forall>f p m fl. op_create ops = Some f \<longrightarrow> keeps Q (f p m fl)) \<and>
     (\<forall>f p n fh. op_ftruncate ops = Some f \<longrightarrow> keeps Q (f p n fh)) \<and>
     (\<forall>f p fh b s n. op_lock ops = Some f \<longrightarrow> keeps Q (f p fh b s n)) \<and>
     (\<forall>f p t. op_utimens ops = Some f \<longrightarrow> keeps Q (f p t)) \<and>
     (\<forall>f p. op_win_get_attributes ops = Some f \<longrightarrow> keeps Q (f p)) \<and>
     (\<forall>f p a. op_win_set_attributes ops = Some f \<longrightarrow> keeps Q (f p a)) \<and>
     (\<forall>f p fh t. op_win_set_times ops = Some f \<longrightarrow> keeps Q (f p fh t))"

text \<open>The state of the bridge: the table is in order and the file system satisfies \<open>Q\<close>.\<close>

definition bridge_ok :: "('w \<Rightarrow> bool) \<Rightarrow> 'w fuse_state \<Rightarrow> bool" where
  "bridge_ok Q z \<longleftrightarrow> table_ok (fz_table z) \<and> Q (fz_sys z)"

named_theorems bridge

lemma keeps_onSys [bridge]: "keeps Q m \<Longrightarrow> keeps (bridge_ok Q) (onSys m)"
  by (simp add: keeps_def onSys_def bridge_ok_def split: prod.splits) (metis snd_conv)

lemma keeps_onTable: "(\<And>t. table_ok t \<Longrightarrow> table_ok (snd (f t))) \<Longrightarrow> keeps (bridge_ok Q) (onTable f)"
  by (simp add: keeps_def onTable_def bridge_ok_def split: prod.splits) (metis snd_conv)

lemma bridge_drop [bridge]: "bridge_ok Q z \<Longrightarrow> bridge_ok Q (drop_handle f z)"
  by (simp add: bridge_ok_def drop_handle_def delete_ok)

lemma keeps_checked [bridge]: "keeps P m \<Longrightarrow> (\<And>x. keeps P (k x)) \<Longrightarrow> keeps P (checked err m k)"
  unfolding checked_def by (auto intro!: keep)

lemma keeps_plain [bridge]: "keeps P m \<Longrightarrow> keeps P (plain m)"
  unfolding plain_def by (intro keep)

lemma keeps_needs [bridge]: "(\<And>f. p = Some f \<Longrightarrow> keeps P (k f)) \<Longrightarrow> keeps P (needs p err k)"
  unfolding needs_def by (cases p) simp_all

lemma keeps_some [bridge]:
  "(x = None \<Longrightarrow> keeps P m) \<Longrightarrow> (\<And>y. x = Some y \<Longrightarrow> keeps P (f y)) \<Longrightarrow> keeps P (case x of None \<Rightarrow> m | Some y \<Rightarrow> f y)"
  by (cases x) simp_all

lemma keeps_info [bridge]: "keeps P (handle_info f)"
  by (simp add: keeps_def handle_info_def split: option.splits)

lemma keeps_with_file [bridge]: "(\<And>f n fh. keeps P (k f n fh)) \<Longrightarrow> keeps P (with_file dfi err k)"
  unfolding with_file_def by (intro keep bridge)

lemma keeps_smod_drop [bridge]: "keeps (bridge_ok Q) (smod (drop_handle f))"
  by (rule keeps_smod) (rule bridge_drop)

lemmas steps = keeps_sbind keeps_if keeps_prod keeps_sunwind keeps_basic bridge

lemma keeps_resolve:
  assumes "ops_keep Q ops"
  shows "keeps Q (resolve_symlink ops name)" "keeps Q (check_and_resolve ops name)"
    "op_getattr ops = Some g \<Longrightarrow> keeps Q (getattr_target ops g name st)"
    "keeps Q (win_attributes ops name fd)" "keeps Q (walk_stat ops name n st')"
proof -
  have r: "keeps Q (resolve_symlink ops n)" for n
    unfolding resolve_symlink_def by (intro steps) (use assms in \<open>simp_all add: ops_keep_def\<close>)
  show "keeps Q (resolve_symlink ops name)" by (rule r)
  show "keeps Q (check_and_resolve ops name)"
    unfolding check_and_resolve_def by (intro steps r) (use assms in \<open>simp_all add: ops_keep_def\<close>)
  show "op_getattr ops = Some g \<Longrightarrow> keeps Q (getattr_target ops g name st)"
    unfolding getattr_target_def by (intro steps r) (use assms in \<open>simp_all add: ops_keep_def\<close>)
  show "keeps Q (win_attributes ops name fd)"
    unfolding win_attributes_def by (intro steps) (use assms in \<open>simp_all add: ops_keep_def\<close>)
  show "keeps Q (walk_stat ops name n st')"
    unfolding walk_stat_def by (intro steps) (use assms in \<open>simp_all add: ops_keep_def\<close>)
qed

subsection \<open>Every callback of Dokan keeps the state in order\<close>

lemma keeps_open_handle:
  assumes "keeps Q m"
  shows "keeps (bridge_ok Q) (open_handle name d access sh m keep)"
proof -
  have "keeps (bridge_ok Q) (case r of Inl e \<Rightarrow> sret (e, None)
     | Inr f \<Rightarrow> sbind (sunwind (onSys m) (drop_handle f)) (\<lambda>(res, fh).
         if res < 0 then sbind (smod (drop_handle f)) (\<lambda>_. sret (res, None))
         else sbind (smod (\<lambda>z. if keep then z\<lparr>fz_table := set_finfo f fh (fz_table z)\<rparr> else z)) (\<lambda>_. sret (0, Some f))))" for r
    by (cases r) (auto intro!: steps keeps_smod assms simp: bridge_ok_def locks_finfo)
  then show ?thesis
    unfolding open_handle_def by (intro keeps_sbind keeps_onTable get_file_ok)
qed

lemma keeps_read_loop:
  assumes "\<And>n off. keeps Q (rd n off)"
  shows "keeps Q (read_loop rd left off buffer)"
proof -
  have "Q (snd (read_loop rd left off buffer w))" if "Q w" for w
    using that assms
  proof (induction rd left off buffer w rule: read_loop.induct)
    case (1 rd left off buffer w)
    obtain r w1 where r: "rd (min left MAX_READ_SIZE) off w = (r, w1)" by (metis surj_pair)
    have w1: "Q w1" using keepsD [OF 1(3) 1(2) r] .
    show ?case
      using 1 r w1 by (subst read_loop.simps) (auto split: sum.splits)
  qed
  then show ?thesis by (simp add: keeps_def)
qed

locale kept_file_system =
  fixes Q :: "'w \<Rightarrow> bool" and C :: "('w, 'd) fuse_context"
  assumes ops: "ops_keep Q (fc_ops C)"
begin

lemmas resolve = keeps_resolve [OF ops]

lemmas kept = steps keeps_open_handle keeps_read_loop resolve

lemma keeps_open_file: "keeps (bridge_ok Q) (do_open_file C n sh fl)"
  unfolding do_open_file_def by (intro kept) (use ops in \<open>simp_all add: ops_keep_def\<close>)

lemma keeps_open_dir: "keeps (bridge_ok Q) (do_open_dir C n)"
  unfolding do_open_dir_def Let_def by (intro kept) (use ops in \<open>simp_all add: ops_keep_def\<close>)

lemma keeps_create_new: "keeps (bridge_ok Q) (do_create_file C n disp sh fl)"
  unfolding do_create_file_def Let_def by (intro kept keeps_open_file) (use ops in \<open>simp_all add: ops_keep_def\<close>)

lemma keeps_create_file: "keeps (bridge_ok Q) (create_file C n access sh disp dfi)"
  unfolding create_file_def create_existing_def at_context_def Let_def
  by (intro kept keeps_open_file keeps_open_dir keeps_create_new) (use ops in \<open>simp_all add: ops_keep_def\<close>)

lemma keeps_close_file: "keeps (bridge_ok Q) (close_file C dfi)"
  unfolding close_file_def handle_close_def
  by (intro kept) (use ops in \<open>simp_all add: ops_keep_def\<close>)

lemma keeps_read_file: "keeps (bridge_ok Q) (read_file C n off dfi)"
  unfolding read_file_def range_locked_def by (intro kept) (use ops in \<open>simp_all add: ops_keep_def\<close>)

lemma keeps_write_file: "keeps (bridge_ok Q) (write_file C d off dfi)"
  unfolding write_file_def range_locked_def Let_def by (intro kept) (use ops in \<open>simp_all add: ops_keep_def\<close>)

lemma keeps_locks:
  "keeps (bridge_ok Q) (lock_file C off n dfi)" "keeps (bridge_ok Q) (unlock_file C off n dfi)"
proof -
  show "keeps (bridge_ok Q) (lock_file C off n dfi)"
    unfolding lock_file_def by (intro kept keeps_onTable lock_ok) (use ops in \<open>simp_all add: ops_keep_def\<close>)
  show "keeps (bridge_ok Q) (unlock_file C off n dfi)"
    unfolding unlock_file_def by (intro kept keeps_onTable unlock_ok) (use ops in \<open>simp_all add: ops_keep_def\<close>)
qed

lemma keeps_move_file: "keeps (bridge_ok Q) (move_file C a b r)"
proof -
  have "keeps (bridge_ok Q) (onTable (\<lambda>t. ((), renamed_file x y t)))" for x y
    by (rule keeps_onTable) (simp add: renamed_ok)
  then show ?thesis
    unfolding move_file_def Let_def by (intro kept) (use ops in \<open>simp_all add: ops_keep_def\<close>)
qed

lemma keeps_end_of_file: "keeps (bridge_ok Q) (set_end_of_file C n off dfi)"
  unfolding set_end_of_file_def prod.case by (intro kept) (use ops in \<open>simp_all add: ops_keep_def\<close>)

lemma keeps_requests:
  "keeps (bridge_ok Q) (flush_file_buffers C dfi)" "keeps (bridge_ok Q) (get_file_information C n info dfi)"
  "keeps (bridge_ok Q) (set_file_attributes C n a)" "keeps (bridge_ok Q) (get_disk_free_space C)"
  "keeps (bridge_ok Q) (get_volume_information C m k)" "keeps (bridge_ok Q) (unmount C)"
  "keeps (bridge_ok Q) cleanup" "keeps (bridge_ok Q) (open_directory C n dfi)" "keeps (bridge_ok Q) (create_directory C n)"
  "keeps (bridge_ok Q) (delete_directory C n dfi)" "keeps (bridge_ok Q) (delete_file C n)"
  unfolding flush_file_buffers_def get_file_information_def set_file_attributes_def get_disk_free_space_def Let_def
    get_volume_information_def unmount_def cleanup_def open_directory_def create_directory_def delete_directory_def delete_file_def
  by (intro kept keeps_open_dir; use ops in \<open>simp add: ops_keep_def\<close>)+

lemma keeps_set_file_time: "keeps (bridge_ok Q) (set_file_time C n c a m dfi)"
  unfolding set_file_time_def Let_def by (intro kept) (use ops in \<open>simp_all add: ops_keep_def\<close>)

lemma keeps_fix_name: "keeps Q (fix_name C n)"
  unfolding fix_name_def Let_def prod.case by (intro kept) (use ops in \<open>simp_all add: ops_keep_def\<close>)

lemma keeps_walk: "keeps (\<lambda>s. Q (snd s)) (walk_directory C fill dirname n st)"
proof -
  have f: "keeps (\<lambda>s. Q (snd s)) (\<lambda>(d, s). case fill fd d of (r, d) \<Rightarrow> (Inr r, (d, s)))" for fd
    by (simp add: keeps_def split: prod.splits)
  show ?thesis
    unfolding walk_directory_def Let_def
    by (intro kept keeps_onSnd keeps_fix_name f)
qed

lemma keeps_find_files: "keeps (\<lambda>s. bridge_ok Q (snd s)) (find_files C n fill dfi)"
proof -
  have two: "keeps (\<lambda>s. bridge_ok Q (snd s)) (onSys2 m)" if "keeps (\<lambda>s. Q (snd s)) m" for m :: "('d \<times> 'w, 'z) sm"
    using that by (simp add: keeps_def onSys2_def bridge_ok_def split: prod.splits) (metis snd_conv)
  have "keeps (\<lambda>s. Q (snd s)) (walk_entries (\<lambda>name. walk_directory C fill dirname name None) names)" for dirname names
    by (induction names) (auto intro!: kept keeps_walk)
  then show ?thesis
    unfolding find_files_def Let_def
    by (intro kept keeps_onSnd two) (use ops keeps_walk in \<open>simp_all add: ops_keep_def\<close>)
qed

end

subsection \<open>EncFS behind the bridge\<close>

locale mounted_volume =
  fixes env :: "('o, 'k) surroundings" and C :: "(('o, 'k dirnode) volume, 'd) fuse_context"
    and full :: "bytes \<Rightarrow> stat \<Rightarrow> fuse_stat"
  assumes mounts: "mounts_ctx env" and encfs: "fc_ops C = encfs_oper env full"
begin

lemma served:
  fixes m :: "('o, 'k, 'z) cb" and x :: "bytes list request"
  assumes "\<And>v. snd (m v) = serve env x v"
  shows "keeps vol_ok m"
  using assms by (simp add: keeps_def serve_ok [OF mounts])

lemmas serves =
  served [of "encfs_getattr env p" "Getattr p" for p] served [of "encfs_readlink env p" "Readlink p" for p]
  served [of "encfs_getdir env p h f" "Getdir p h f" for p h f] served [of "encfs_mknod env p m" "Mknod p m" for p m]
  served [of "encfs_mkdir env p m" "Mkdir p m" for p m] served [of "encfs_unlink env p" "Unlink p" for p]
  served [of "encfs_rmdir env p" "Rmdir p" for p] served [of "encfs_rename env p q" "Rename p q" for p q]
  served [of "encfs_truncate env p n" "Truncate p n" for p n] served [of "encfs_utime env p t" "Utime p t" for p t]
  served [of "encfs_open env p fl" "Open p fl" for p fl] served [of "encfs_read env p n off fh" "Read p n off fh" for p n off fh]
  served [of "encfs_write env p d off fh" "Write p d off fh" for p d off fh] served [of "encfs_statfs env" Statfs]
  served [of "encfs_flush env p fh" "Flush p fh" for p fh] served [of "encfs_release env p fh" "Release p fh" for p fh]
  served [of "encfs_fsync env p fh" "Fsync p fh" for p fh] served [of "encfs_ftruncate env p n fh" "Ftruncate p n fh" for p n fh]
  served [of "encfs_utimens env p t" "Utimens p t" for p t] served [of "encfs_win_get_attributes env p" "WinGetAttributes p" for p]
  served [of "encfs_win_set_attributes env p a" "WinSetAttributes p a" for p a]
  served [of "encfs_win_set_times env p fh t" "WinSetTimes p fh t" for p fh t]

lemma encfs_keeps: "ops_keep vol_ok (fc_ops C)"
  unfolding encfs ops_keep_def encfs_oper_def fuse_operations.simps
  by (intro conjI allI impI; (elim option.inject [THEN iffD1, THEN subst] | simp))
     (auto intro!: keeps_sbind keeps_prod keeps_basic serves [simplified])

end

sublocale mounted_volume \<subseteq> bridged: kept_file_system vol_ok C
  by unfold_locales (rule encfs_keeps)

subsection \<open>Requests of Windows\<close>

datatype windows_request =
    CreateFile wchars u32 u32 u32 dokan_file_info | OpenDirectory wchars dokan_file_info | CreateDirectory wchars
  | DeleteDirectory wchars dokan_file_info | Cleanup | CloseFile dokan_file_info | ReadFile nat int dokan_file_info
  | WriteFile bytes int dokan_file_info | FlushFileBuffers dokan_file_info
  | GetFileInformation wchars find_data dokan_file_info | FindFiles wchars dokan_file_info
  | SetFileAttributes wchars u32
  | SetFileTime wchars "filetime option" "filetime option" "filetime option" dokan_file_info
  | DeleteFile wchars | MoveFile wchars wchars bool | SetEndOfFile wchars nat dokan_file_info
  | LockFile int int dokan_file_info | UnlockFile int int dokan_file_info | GetDiskFreeSpace
  | GetVolumeInfo nat nat | Unmount

text \<open>The entries of a directory are collected.\<close>

fun windows_serve :: "('w, find_data list) fuse_context \<Rightarrow> windows_request \<Rightarrow> 'w fuse_state \<Rightarrow> 'w fuse_state" where
  "windows_serve C (CreateFile n access sh disp dfi) z = snd (FuseCreateFile C n access sh disp dfi z)"
| "windows_serve C (OpenDirectory n dfi) z = snd (FuseOpenDirectory C n dfi z)"
| "windows_serve C (CreateDirectory n) z = snd (FuseCreateDirectory C n z)"
| "windows_serve C (DeleteDirectory n dfi) z = snd (FuseDeleteDirectory C n dfi z)"
| "windows_serve C Cleanup z = snd (FuseCleanup z)"
| "windows_serve C (CloseFile dfi) z = snd (FuseCloseFile C dfi z)"
| "windows_serve C (ReadFile n off dfi) z = snd (FuseReadFile C n off dfi z)"
| "windows_serve C (WriteFile d off dfi) z = snd (FuseWriteFile C d off dfi z)"
| "windows_serve C (FlushFileBuffers dfi) z = snd (FuseFlushFileBuffers C dfi z)"
| "windows_serve C (GetFileInformation n info dfi) z = snd (FuseGetFileInformation C n info dfi z)"
| "windows_serve C (FindFiles n dfi) z = snd (snd (FuseFindFiles C n (\<lambda>fd fds. (0, fds @ [fd])) dfi ([], z)))"
| "windows_serve C (SetFileAttributes n a) z = snd (FuseSetFileAttributes C n a z)"
| "windows_serve C (SetFileTime n c a m dfi) z = snd (FuseSetFileTime C n c a m dfi z)"
| "windows_serve C (DeleteFile n) z = snd (FuseDeleteFile C n z)"
| "windows_serve C (MoveFile a b r) z = snd (FuseMoveFile C a b r z)"
| "windows_serve C (SetEndOfFile n off dfi) z = snd (FuseSetEndOfFile C n off dfi z)"
| "windows_serve C (LockFile off n dfi) z = snd (FuseLockFile C off n dfi z)"
| "windows_serve C (UnlockFile off n dfi) z = snd (FuseUnlockFile C off n dfi z)"
| "windows_serve C GetDiskFreeSpace z = snd (FuseGetDiskFreeSpace C z)"
| "windows_serve C (GetVolumeInfo m k) z = snd (GetVolumeInformation C m k z)"
| "windows_serve C Unmount z = snd (FuseUnmount C z)"

lemma keeps_replies [bridge]: "keeps P m \<Longrightarrow> keeps P (replies m)"
  unfolding replies_def by (intro keep)

lemma keeps_replies_with [bridge]: "keeps P m \<Longrightarrow> keeps P (replies_with m)"
  unfolding replies_with_def by (auto intro!: keep)

lemma kept_state: "keeps P m \<Longrightarrow> P s \<Longrightarrow> P (snd (m s))"
  by (simp add: keeps_def)

context kept_file_system
begin

lemmas kept_requests =
  keeps_create_file keeps_close_file keeps_read_file keeps_write_file keeps_locks keeps_move_file keeps_end_of_file
  keeps_requests keeps_set_file_time

lemma kept_callbacks:
  "keeps (bridge_ok Q) (FuseCreateFile C n access sh disp dfi)" "keeps (bridge_ok Q) (FuseOpenDirectory C n dfi)"
  "keeps (bridge_ok Q) (FuseCreateDirectory C n)" "keeps (bridge_ok Q) (FuseDeleteDirectory C n dfi)"
  "keeps (bridge_ok Q) FuseCleanup" "keeps (bridge_ok Q) (FuseCloseFile C dfi)"
  "keeps (bridge_ok Q) (FuseReadFile C m off dfi)" "keeps (bridge_ok Q) (FuseWriteFile C d off dfi)"
  "keeps (bridge_ok Q) (FuseFlushFileBuffers C dfi)" "keeps (bridge_ok Q) (FuseGetFileInformation C n info dfi)"
  "keeps (bridge_ok Q) (FuseSetFileAttributes C n a)" "keeps (bridge_ok Q) (FuseSetFileTime C n t1 t2 t3 dfi)"
  "keeps (bridge_ok Q) (FuseDeleteFile C n)" "keeps (bridge_ok Q) (FuseMoveFile C n n' r)"
  "keeps (bridge_ok Q) (FuseSetEndOfFile C n m dfi)" "keeps (bridge_ok Q) (FuseLockFile C off len dfi)"
  "keeps (bridge_ok Q) (FuseUnlockFile C off len dfi)" "keeps (bridge_ok Q) (FuseGetDiskFreeSpace C)"
  "keeps (bridge_ok Q) (GetVolumeInformation C m k)" "keeps (bridge_ok Q) (FuseUnmount C)"
  "keeps (\<lambda>s. bridge_ok Q (snd s)) (FuseFindFiles C n fill dfi)"
  unfolding FuseCreateFile_def FuseOpenDirectory_def FuseCreateDirectory_def FuseDeleteDirectory_def FuseCleanup_def
    FuseCloseFile_def FuseReadFile_def FuseWriteFile_def FuseFlushFileBuffers_def FuseGetFileInformation_def
    FuseSetFileAttributes_def FuseSetFileTime_def FuseDeleteFile_def FuseMoveFile_def FuseSetEndOfFile_def FuseLockFile_def
    FuseUnlockFile_def FuseGetDiskFreeSpace_def GetVolumeInformation_def FuseUnmount_def FuseFindFiles_def
  by (intro keeps_replies keeps_replies_with keeps_sbind keeps_prod keeps_basic kept_requests keeps_find_files)+

end

lemma windows_serve_ok:
  fixes C :: "('w, find_data list) fuse_context"
  assumes "ops_keep Q (fc_ops C)" and "bridge_ok Q z"
  shows "bridge_ok Q (windows_serve C x z)"
proof -
  have f: "kept_file_system Q C" by unfold_locales (rule assms(1))
  show ?thesis
  proof (cases x)
    case (FindFiles n dfi)
    then show ?thesis
      using kept_state [OF kept_file_system.kept_callbacks(21) [OF f], of "([], z)"] assms(2) by simp
  qed (simp_all add: kept_state [where P = "bridge_ok Q"] assms(2) kept_file_system.kept_callbacks(1-20) [OF f])
qed

subsection \<open>Properties\<close>

text \<open>
  C2: whatever Windows asks of a mounted EncFS, in any order and whatever fails, the two tables of open
  files stay consistent: in the bridge no byte is locked by two handles and the handles and
  locks point to each other; in EncFS every handle has a node that is alive.
\<close>
theorem windows_requests_consistent:
  assumes "mounts_ctx env" and "fc_ops C = encfs_oper env full"
  shows "let z = fold (windows_serve C) rs \<lparr>fz_table = file_table_new, fz_sys = volume_init w\<rparr>
    in table_ok (fz_table z) \<and> vol_ok (fz_sys z)"
proof -
  have k: "ops_keep vol_ok (fc_ops C)"
    by (rule mounted_volume.encfs_keeps) (rule mounted_volume.intro [OF assms])
  have "bridge_ok vol_ok (fold (windows_serve C) rs z)" if "bridge_ok vol_ok z" for z
    using that by (induction rs arbitrary: z) (simp_all add: windows_serve_ok [OF k])
  moreover have "bridge_ok vol_ok (fold (windows_serve C) [] \<lparr>fz_table = file_table_new, fz_sys = volume_init w\<rparr>)"
    using requests_ok [OF assms(1), of "[]" w] by (simp add: bridge_ok_def table_new_ok)
  ultimately show ?thesis by (simp add: Let_def bridge_ok_def)
qed

definition chained_encfs :: "((bytes list, unit dirnode) volume, find_data list) fuse_context" where
  "chained_encfs = 
     \<lparr>fc_ops = encfs_oper (sample_env name_disk chained_dir) sample_stat, fc_filemask = 0x1FF, fc_dirmask = 0x1FF,
      fc_max_write = 0xFFFFFFFF, fc_fsname = None, fc_volname = None, fc_malloc = (\<lambda>i. 0), fc_ansi = (\<lambda>p. [])\<rparr>"

interpretation chained_mounted: mounted_volume "sample_env name_disk chained_dir" chained_encfs sample_stat
  by unfold_locales (simp_all add: mounts_ctx_def sample_env_def chained_dir_def DirNode_new_def chained_encfs_def)

theorem windows_requests_consistent_witness:
  "let info = \<lparr>dfi_Context = None, dfi_IsDirectory = False\<rparr>; file = info\<lparr>dfi_Context := Some 1\<rparr>;
       z = fold (windows_serve chained_encfs)
         [CreateFile [92, 100] FILE_READ_DATA 7 OPEN_EXISTING info, LockFile 0 10 file, MoveFile [92, 100] [92, 101] False,
          WriteFile [1, 2] 3 file, CloseFile file, ReadFile 3 0 file]
         \<lparr>fz_table = file_table_new, fz_sys = volume_init (v_os chained_volume)\<rparr>
   in table_ok (fz_table z) \<and> vol_ok (fz_sys z)"
  unfolding Let_def
  using windows_requests_consistent [OF chained_mounted.mounts chained_mounted.encfs] unfolding Let_def by blast


text \<open>
  C39: a request for no bytes at all is refused: the check for locks rejects an empty range, and the
  bridge answers that access is denied.  So does a write that is clipped to nothing.
\<close>
theorem empty_requests_denied:
  assumes "file_open z f dfi fh" and "op_read (fc_ops C) = Some rd" and "op_write (fc_ops C) = Some wr"
  shows "FuseReadFile C 0 off dfi z = (Inr (- 5, []), z) \<and> FuseWriteFile C [] off dfi z = (Inr (- 5, 0), z)"
proof -
  have c: "check_lock f off 0 t \<noteq> 0" for t by (simp add: check_lock_def lock_range_def EINVAL_def)
  have e: "reply (- EACCES) = - 5"
    by (simp add: reply_def errno_to_win32_error_def errtable_def EACCES_def EINVAL_def ENOENT_def EMFILE_def)
  show ?thesis
    using assms(2,3)
    by (simp add: FuseReadFile_def FuseWriteFile_def replies_with_def read_file_def write_file_def needs_def sbind_def
        with_file_open [OF assms(1)] range_locked_def sget_def sret_def c e)
qed

theorem empty_requests_denied_witness:
  "FuseReadFile sample_encfs 0 7 sample_info (sample_state sample_mounted) = (Inr (- 5, []), sample_state sample_mounted)"
  using empty_requests_denied [OF sample_request(2), where C = sample_encfs and off = 7] by (simp add: encfs_oper_def)

lemma table_onSys: "onSys m z = (r, z') \<Longrightarrow> fz_table z' = fz_table z"
  by (auto simp: onSys_def split: prod.splits)

text \<open>What only calls the file system leaves the table alone.\<close>

lemma table_sbind:
  "(\<And>z r z'. m z = (r, z') \<Longrightarrow> fz_table z' = fz_table z) \<Longrightarrow> (\<And>x z r z'. f x z = (r, z') \<Longrightarrow> fz_table z' = fz_table z) \<Longrightarrow>
     sbind m f z = (r, z') \<Longrightarrow> fz_table z' = fz_table z"
  by (fastforce simp: sbind_def split: prod.splits sum.splits)

lemma table_close: "handle_close ops f z = (r, z') \<Longrightarrow> fz_table z' = fz_table z"
proof -
  have i: "handle_info f z = (r, z') \<Longrightarrow> fz_table z' = fz_table z" for z z' :: "'w fuse_state" and r
    by (auto simp: handle_info_def split: option.splits)
  have s: "sret x z = (r, z') \<Longrightarrow> fz_table z' = fz_table z" for x :: 'x and z z' :: "'w fuse_state" and r
    by (simp add: sret_def)
  assume "handle_close ops f z = (r, z')"
  then show ?thesis
    unfolding handle_close_def
    by (rule table_sbind [rotated 2])
       (auto intro: i s table_onSys elim!: table_sbind [rotated 2] split: prod.splits if_splits option.splits)
qed

text \<open>
  C38: closing a handle gives back all its locked ranges and nothing else, and the handle is gone from
  the table, whatever flushing and releasing the file report.
\<close>
theorem close_frees_ranges:
  assumes "table_ok (fz_table z)" and "dfi_Context dfi = Some f" and "FuseCloseFile C dfi z = (Inr (res, dfi'), z')"
  shows "held_ranges (fz_table z') = {x \<in> held_ranges (fz_table z). fst x \<noteq> f} \<and> lock_of (fz_table z') f = None \<and>
    (\<forall>g. g \<noteq> f \<longrightarrow> lock_of (fz_table z') g = lock_of (fz_table z) g) \<and> dfi_Context dfi' = None"
proof -
  obtain e z1 where h: "handle_close (fc_ops C) f z = (Inr e, z1)" and z': "z' = drop_handle f z1" "dfi_Context dfi' = None"
    using assms(2,3)
    by (auto simp: FuseCloseFile_def replies_with_def close_file_def sbind_def smod_def sret_def split: prod.splits sum.splits)
  have t: "fz_table z' = delete_handle f (fz_table z)" using table_close [OF h] by (simp add: z' drop_handle_def)
  have l: "linked (fz_table z)" using assms(1) by (simp add: table_ok_def)
  show ?thesis
    using z'(2) by (auto simp: t held_ranges_def delete_facts(1,2) [OF l] split: if_splits)
qed

definition locked_state :: "nat fuse_state" where
  "locked_state = \<lparr>fz_table = table_step (LockRange 1 0 10) sample_table, fz_sys = 0\<rparr>"

text \<open>A file system that only counts what is flushed.\<close>

definition flush_ops :: "(nat, unit) fuse_operations" where
  "flush_ops =
     \<lparr>op_getattr = None, op_readlink = None, op_getdir = None, op_mknod = None, op_mkdir = None, op_unlink = None, op_rmdir = None,
      op_rename = None, op_truncate = None, op_utime = None, op_open = None, op_read = None, op_write = None, op_statfs = None,
      op_flush = Some (\<lambda>path fh n. (Inr (- EIO), n + 1)), op_release = None, op_fsync = None, op_opendir = None, op_readdir = None,
      op_releasedir = None, op_fsyncdir = None, op_destroy = None, op_create = None, op_ftruncate = None, op_lock = None,
      op_utimens = None, op_win_get_attributes = None, op_win_set_attributes = None, op_win_set_times = None\<rparr>"

definition flush_context :: "(nat, unit) fuse_context" where
  "flush_context = \<lparr>fc_ops = flush_ops, fc_filemask = 0, fc_dirmask = 0, fc_max_write = 1, fc_fsname = None, fc_volname = None,
     fc_malloc = (\<lambda>i. 0), fc_ansi = (\<lambda>p. [])\<rparr>"

lemma locked_file:
  "handle_ranges (fz_table locked_state) 1 = [(0, 10)]"
  "\<exists>name fh. handle_info 1 locked_state = (Inr (False, name, fh), locked_state)"
proof -
  show r: "handle_ranges (fz_table locked_state) 1 = [(0, 10)]" unfolding locked_state_def by code_simp
  have "(case ft_handles (fz_table locked_state) 1 of None \<Rightarrow> True | Some h \<Rightarrow> fh_is_dir h) = False"
    unfolding locked_state_def by code_simp
  then show "\<exists>name fh. handle_info 1 locked_state = (Inr (False, name, fh), locked_state)"
    by (auto simp: handle_info_def split: option.splits)
qed

theorem close_frees_ranges_witness:
  "\<exists>dfi' z'. FuseCloseFile flush_context sample_info locked_state = (Inr (reply (- EIO), dfi'), z') \<and> fz_sys z' = 1 \<and>
     (1, 0, 10) \<in> held_ranges (fz_table locked_state) \<and> (1, 0, 10) \<notin> held_ranges (fz_table z')"
proof -
  obtain name fh where i: "handle_info 1 locked_state = (Inr (False, name, fh), locked_state)" using locked_file(2) by blast
  obtain dfi' z' where c: "FuseCloseFile flush_context sample_info locked_state = (Inr (reply (- EIO), dfi'), z')" "fz_sys z' = 1"
    by (simp add: FuseCloseFile_def replies_with_def close_file_def handle_close_def sbind_def onSys_def smod_def sret_def
        flush_context_def flush_ops_def sample_info_def i drop_handle_def del: One_nat_def) (simp add: locked_state_def)
  have "(1, 0, 10) \<in> held_ranges (fz_table locked_state)" using locked_file(1) by (simp add: held_ranges_def)
  moreover have "table_ok (fz_table locked_state)"
    by (simp add: locked_state_def sample_table_def table_step_ok locks_finfo table_new_ok del: table_step.simps)
  ultimately show ?thesis
    using close_frees_ranges [OF _ _ c(1)] c by (auto simp: sample_info_def)
qed

end
