(* ===== verification/ConfigFiles.thy ===== *)
theory ConfigFiles
  imports ConfigReader FSConfig FileUtils DirNode
begin

text \<open>
  The configuration files of a volume (\<open>encfs/FileUtils.cpp\<close>): the formats 4 and 5, which are
  the variables of a \<open>ConfigReader\<close>, and format 6, an XML archive of Boost, and the search for
  the file of a volume.
\<close>

subsection \<open>The host\<close>

text \<open>
  What the set-up of a volume uses of the system, as functions on its state: the environment,
  the disk, the two ways of asking the user, the number of random buffers drawn so far, and the
  archives of Boost.  \<open>h_overwrite\<close> writes from the start of a file without cutting it, as
  \<open>ConfigReader::save\<close> does; \<open>h_write\<close> replaces the file.  \<open>h_fgets\<close> has the size of the
  buffer.  An archive is the version of the class and the named values in order.
\<close>

datatype nv =
    NvInt int
  | NvBool bool
  | NvString bytes
  | NvBinary bytes
  | NvInterface bytes int int

record 'o host =
  h_getenv :: "bytes \<Rightarrow> bytes option"
  h_lstat :: "bytes \<Rightarrow> 'o \<Rightarrow> (int \<times> stat) \<times> 'o"
  h_mkdir :: "bytes \<Rightarrow> u32 \<Rightarrow> 'o \<Rightarrow> int \<times> 'o"
  h_read :: "bytes \<Rightarrow> 'o \<Rightarrow> bytes option \<times> 'o"
  h_write :: "bytes \<Rightarrow> bytes \<Rightarrow> 'o \<Rightarrow> bool \<times> 'o"
  h_overwrite :: "bytes \<Rightarrow> bytes \<Rightarrow> 'o \<Rightarrow> bool \<times> 'o"
  h_fgets :: "nat \<Rightarrow> 'o \<Rightarrow> bytes option \<times> 'o"
  h_readpassphrase :: "nat \<Rightarrow> 'o \<Rightarrow> bytes option \<times> 'o"
  h_drawn :: "'o \<Rightarrow> nat \<times> 'o"
  h_xml_write :: "int \<Rightarrow> (string \<times> nv) list \<Rightarrow> bytes"
  h_xml_read :: "bytes \<Rightarrow> (int \<times> (string \<times> nv) list) option"

definition asks :: "('o \<Rightarrow> 'a \<times> 'o) \<Rightarrow> ('o, 'a) sm" where
  "asks f = (\<lambda>w. case f w of (x, w) \<Rightarrow> (Inr x, w))"

type_synonym 'k ciphers = "(interface \<Rightarrow> int \<Rightarrow> 'k cipher res) cipher_map"

definition getCipher :: "'k ciphers \<Rightarrow> EncFSConfig \<Rightarrow> 'k cipher option res" where
  "getCipher cm cfg = Cipher_New_iface cm (c_cipherIface cfg) (c_keySize cfg)"

subsection \<open>Formats 4 and 5\<close>

text \<open>
  Reading a variable of the reader into a field.  The state is the map of variables and the
  configuration; an exception leaves the fields that were read before.
\<close>

type_synonym 'a fields = "(cfg_vars \<times> EncFSConfig, 'a) sm"

definition field :: "string \<Rightarrow> (config_var \<Rightarrow> 'a res \<times> config_var) \<Rightarrow> ('a \<Rightarrow> EncFSConfig \<Rightarrow> EncFSConfig) \<Rightarrow> unit fields" where
  "field k get store = (\<lambda>(vars, cfg).
     case vars_index (lit k) vars of (v, vars) \<Rightarrow>
     case get v of
       (Inl e, v) \<Rightarrow> (Inl e, (vars_put (lit k) v vars, cfg))
     | (Inr x, v) \<Rightarrow> (Inr (), (vars_put (lit k) v vars, store x cfg)))"

definition getIntDefault :: "int \<Rightarrow> config_var \<Rightarrow> int res \<times> config_var" where
  "getIntDefault d v = (case readIntDefault (word_of_int d) v of (r, v) \<Rightarrow> (rbind r (\<lambda>x. Inr (sint x)), v))"

definition read_common :: "unit fields" where
  "read_common =
     sbind (field ''keySize'' getInt (\<lambda>x. c_keySize_update (\<lambda>_. x))) (\<lambda>_.
     sbind (field ''blockSize'' getInt (\<lambda>x. c_blockSize_update (\<lambda>_. x))) (\<lambda>_.
     field ''keyData'' getString (\<lambda>x. c_keyData_update (\<lambda>_. x))))"

text \<open>The body of the handler: the result is that of \<open>readV5Config\<close>.\<close>

definition read_v5 :: "int \<Rightarrow> int \<Rightarrow> bool fields" where
  "read_v5 currentSubVersion defaultSubVersion =
     sbind (field ''subVersion'' (getIntDefault defaultSubVersion) (\<lambda>x. c_subVersion_update (\<lambda>_. x))) (\<lambda>_.
     sbind (sget (\<lambda>(_, cfg). c_subVersion cfg)) (\<lambda>sv.
     if sv > currentSubVersion then sret False
     else if sv < 20040813 then sret False
     else
       sbind (field ''creator'' getString (\<lambda>x. c_creator_update (\<lambda>_. x))) (\<lambda>_.
       sbind (field ''cipher'' getInterface (\<lambda>x. c_cipherIface_update (\<lambda>_. x))) (\<lambda>_.
       sbind (field ''naming'' getInterface (\<lambda>x. c_nameIface_update (\<lambda>_. x))) (\<lambda>_.
       sbind read_common (\<lambda>_.
       sbind (field ''uniqueIV'' (readBool False) (\<lambda>x. c_uniqueIV_update (\<lambda>_. x))) (\<lambda>_.
       sbind (field ''chainedIV'' (readBool False) (\<lambda>x. c_chainedNameIV_update (\<lambda>_. x))) (\<lambda>_.
       sbind (field ''externalIV'' (readBool False) (\<lambda>x. c_externalIVChaining_update (\<lambda>_. x))) (\<lambda>_.
       sbind (field ''blockMACBytes'' (getIntDefault 0) (\<lambda>x. c_blockMACBytes_update (\<lambda>_. x))) (\<lambda>_.
       sbind (field ''blockMACRandBytes'' (getIntDefault 0) (\<lambda>x. c_blockMACRandBytes_update (\<lambda>_. x))) (\<lambda>_.
       sret True)))))))))))"

definition read_v4 :: "int \<Rightarrow> bool fields" where
  "read_v4 defaultSubVersion =
     sbind (field ''cipher'' getInterface (\<lambda>x. c_cipherIface_update (\<lambda>_. x))) (\<lambda>_.
     sbind read_common (\<lambda>_.
     sbind (smod (\<lambda>(vars, cfg). (vars, cfg\<lparr>c_nameIface := Interface (lit ''nameio/stream'') 1 0 0,
       c_creator := lit ''EncFS 1.0.x'', c_subVersion := defaultSubVersion, c_blockMACBytes := 0,
       c_blockMACRandBytes := 0, c_uniqueIV := False, c_externalIVChaining := False, c_chainedNameIV := False\<rparr>))) (\<lambda>_.
     sret True)))"

text \<open>
  The reader loads the file outside of the handler; an exception while the fields are read
  gives False.
\<close>

definition read_vars :: "bool fields \<Rightarrow> bytes option \<Rightarrow> EncFSConfig \<Rightarrow> bool res \<times> EncFSConfig" where
  "read_vars body contents cfg =
     (case cfg_load contents [] of
        (Inl e, _) \<Rightarrow> (Inl e, cfg)
      | (Inr ok, vars) \<Rightarrow>
          if \<not> ok then (Inr False, cfg)
          else (case scatch body (sret False) (vars, cfg) of (r, (_, cfg)) \<Rightarrow> (r, cfg)))"

definition readV5Config :: "int \<Rightarrow> int \<Rightarrow> bytes option \<Rightarrow> EncFSConfig \<Rightarrow> bool res \<times> EncFSConfig" where
  "readV5Config cur def = read_vars (read_v5 cur def)"

definition readV4Config :: "int \<Rightarrow> bytes option \<Rightarrow> EncFSConfig \<Rightarrow> bool res \<times> EncFSConfig" where
  "readV4Config def = read_vars (read_v4 def)"

text \<open>Writing: the variables in the order of the assignments.\<close>

definition set_var :: "string \<Rightarrow> (config_var \<Rightarrow> config_var res) \<Rightarrow> cfg_vars \<Rightarrow> cfg_vars res" where
  "set_var k write vars =
     (case vars_index (lit k) vars of (v, vars) \<Rightarrow> rbind (write v) (\<lambda>v. Inr (vars_put (lit k) v vars)))"

fun set_vars :: "(string \<times> (config_var \<Rightarrow> config_var res)) list \<Rightarrow> cfg_vars \<Rightarrow> cfg_vars res" where
  "set_vars [] vars = Inr vars"
| "set_vars ((k, write) # xs) vars = rbind (set_var k write vars) (set_vars xs)"

definition writeV5Config :: "EncFSConfig \<Rightarrow> bytes res" where
  "writeV5Config cfg =
     rbind (set_vars
       [(''creator'', putString (c_creator cfg)), (''subVersion'', putInt (c_subVersion cfg)),
        (''cipher'', putInterface (c_cipherIface cfg)), (''naming'', putInterface (c_nameIface cfg)),
        (''keySize'', putInt (c_keySize cfg)), (''blockSize'', putInt (c_blockSize cfg)),
        (''keyData'', putString (c_keyData cfg)), (''blockMACBytes'', putInt (c_blockMACBytes cfg)),
        (''blockMACRandBytes'', putInt (c_blockMACRandBytes cfg)), (''uniqueIV'', putBool (c_uniqueIV cfg)),
        (''chainedIV'', putBool (c_chainedNameIV cfg)), (''externalIV'', putBool (c_externalIVChaining cfg))] [])
       cfg_save"

definition writeV4Config :: "EncFSConfig \<Rightarrow> bytes res" where
  "writeV4Config cfg =
     rbind (set_vars
       [(''cipher'', putInterface (c_cipherIface cfg)), (''keySize'', putInt (c_keySize cfg)),
        (''blockSize'', putInt (c_blockSize cfg)), (''keyData'', putString (c_keyData cfg))] [])
       cfg_save"

subsection \<open>Format 6\<close>

definition V5SubVersion :: int where "V5SubVersion = 20040813"
definition V6SubVersion :: int where "V6SubVersion = 20100713"
definition NormalKDFDuration :: int where "NormalKDFDuration = 500"

text \<open>
  What is written (\<open>save\<close>): the age of an interface is not, and a subversion of zero becomes
  the current one.
\<close>

fun nv_interface :: "interface \<Rightarrow> nv" where
  "nv_interface (Interface name major minor age) = NvInterface name major minor"

definition save_v6 :: "EncFSConfig \<Rightarrow> (string \<times> nv) list" where
  "save_v6 cfg =
     [(''version'', NvInt (if c_subVersion cfg = 0 then V6SubVersion else c_subVersion cfg)),
      (''creator'', NvString (c_creator cfg)),
      (''cipherAlg'', nv_interface (c_cipherIface cfg)),
      (''nameAlg'', nv_interface (c_nameIface cfg)),
      (''keySize'', NvInt (c_keySize cfg)),
      (''blockSize'', NvInt (c_blockSize cfg)),
      (''uniqueIV'', NvBool (c_uniqueIV cfg)),
      (''chainedNameIV'', NvBool (c_chainedNameIV cfg)),
      (''externalIVChaining'', NvBool (c_externalIVChaining cfg)),
      (''blockMACBytes'', NvInt (c_blockMACBytes cfg)),
      (''blockMACRandBytes'', NvInt (c_blockMACRandBytes cfg)),
      (''allowHoles'', NvBool (c_allowHoles cfg)),
      (''encodedKeySize'', NvInt (int (length (c_keyData cfg)))),
      (''encodedKeyData'', NvBinary (c_keyData cfg)),
      (''saltLen'', NvInt (int (length (c_salt cfg)))),
      (''saltData'', NvBinary (c_salt cfg)),
      (''kdfIterations'', NvInt (c_kdfIterations cfg)),
      (''desiredKDFDuration'', NvInt (c_desiredKDFDuration cfg))]"

text \<open>
  Reading takes the named values in order; another name or type is an exception of the
  archive.  The state is the rest of the archive and the configuration.
\<close>

type_synonym 'a archive = "((string \<times> nv) list \<times> EncFSConfig, 'a) sm"

definition nvp :: "string \<Rightarrow> (nv \<Rightarrow> 'a option) \<Rightarrow> 'a archive" where
  "nvp name get = (\<lambda>(ar, cfg).
     case ar of
       [] \<Rightarrow> (Inl ArchiveError, (ar, cfg))
     | (k, x) # rest \<Rightarrow>
         (case (if k = name then get x else None) of
            None \<Rightarrow> (Inl ArchiveError, (ar, cfg))
          | Some y \<Rightarrow> (Inr y, (rest, cfg))))"

definition load_nvp :: "string \<Rightarrow> (nv \<Rightarrow> 'a option) \<Rightarrow> ('a \<Rightarrow> EncFSConfig \<Rightarrow> EncFSConfig) \<Rightarrow> unit archive" where
  "load_nvp name get store = sbind (nvp name get) (\<lambda>x. smod (\<lambda>(ar, cfg). (ar, store x cfg)))"

fun as_int :: "nv \<Rightarrow> int option" where
  "as_int (NvInt i) = Some i"
| "as_int _ = None"

fun as_bool :: "nv \<Rightarrow> bool option" where
  "as_bool (NvBool b) = Some b"
| "as_bool _ = None"

fun as_string :: "nv \<Rightarrow> bytes option" where
  "as_string (NvString x) = Some x"
| "as_string _ = None"

fun as_binary :: "int \<Rightarrow> nv \<Rightarrow> bytes option" where
  "as_binary n (NvBinary x) = (if int (length x) = n then Some x else None)"
| "as_binary n _ = None"

text \<open>The interface keeps its age.\<close>

fun as_interface :: "nv \<Rightarrow> (interface \<Rightarrow> interface) option" where
  "as_interface (NvInterface name major minor) = Some (\<lambda>i. Interface name major minor (iface_age i))"
| "as_interface _ = None"

definition load_version :: "int \<Rightarrow> unit archive" where
  "load_version version =
     (if version = 20 \<or> version \<ge> 20100713 then load_nvp ''version'' as_int (\<lambda>x. c_subVersion_update (\<lambda>_. x))
      else if version = 26800 then smod (\<lambda>(ar, cfg). (ar, cfg\<lparr>c_subVersion := 20080816\<rparr>))
      else if version = 26797 then smod (\<lambda>(ar, cfg). (ar, cfg\<lparr>c_subVersion := 20080813\<rparr>))
      else if version < V5SubVersion then sret ()
      else smod (\<lambda>(ar, cfg). (ar, cfg\<lparr>c_subVersion := version\<rparr>)))"

text \<open>The size of the stored key must be that of the cipher, which must exist.\<close>

definition load_key :: "'k ciphers \<Rightarrow> unit archive" where
  "load_key cm =
     sbind (nvp ''encodedKeySize'' as_int) (\<lambda>encodedSize.
     sbind (sget (\<lambda>(_, cfg). getCipher cm cfg)) (\<lambda>r.
     sbind (sres r) (\<lambda>cipher.
     case cipher of
       None \<Rightarrow> sthrow Diverges
     | Some c \<Rightarrow>
         sbind (sres (rAssert (encodedSize = int (vt_encodedKeySize c)))) (\<lambda>_.
         load_nvp ''encodedKeyData'' (as_binary encodedSize) (\<lambda>x. c_keyData_update (\<lambda>_. x))))))"

definition load_salt :: "unit archive" where
  "load_salt =
     sbind (sget (\<lambda>(_, cfg). c_subVersion cfg)) (\<lambda>sv.
     if sv \<ge> 20080816 then
       sbind (nvp ''saltLen'' as_int) (\<lambda>saltLen.
       sbind (load_nvp ''saltData'' (as_binary saltLen) (\<lambda>x. c_salt_update (\<lambda>_. x))) (\<lambda>_.
       sbind (load_nvp ''kdfIterations'' as_int (\<lambda>x. c_kdfIterations_update (\<lambda>_. x))) (\<lambda>_.
       load_nvp ''desiredKDFDuration'' as_int (\<lambda>x. c_desiredKDFDuration_update (\<lambda>_. x)))))
     else smod (\<lambda>(ar, cfg). (ar, cfg\<lparr>c_salt := [], c_kdfIterations := 16, c_desiredKDFDuration := NormalKDFDuration\<rparr>)))"

definition load_v6 :: "'k ciphers \<Rightarrow> int \<Rightarrow> unit archive" where
  "load_v6 cm version =
     sbind (load_version version) (\<lambda>_.
     sbind (load_nvp ''creator'' as_string (\<lambda>x. c_creator_update (\<lambda>_. x))) (\<lambda>_.
     sbind (load_nvp ''cipherAlg'' as_interface c_cipherIface_update) (\<lambda>_.
     sbind (load_nvp ''nameAlg'' as_interface c_nameIface_update) (\<lambda>_.
     sbind (load_nvp ''keySize'' as_int (\<lambda>x. c_keySize_update (\<lambda>_. x))) (\<lambda>_.
     sbind (load_nvp ''blockSize'' as_int (\<lambda>x. c_blockSize_update (\<lambda>_. x))) (\<lambda>_.
     sbind (load_nvp ''uniqueIV'' as_bool (\<lambda>x. c_uniqueIV_update (\<lambda>_. x))) (\<lambda>_.
     sbind (load_nvp ''chainedNameIV'' as_bool (\<lambda>x. c_chainedNameIV_update (\<lambda>_. x))) (\<lambda>_.
     sbind (load_nvp ''externalIVChaining'' as_bool (\<lambda>x. c_externalIVChaining_update (\<lambda>_. x))) (\<lambda>_.
     sbind (load_nvp ''blockMACBytes'' as_int (\<lambda>x. c_blockMACBytes_update (\<lambda>_. x))) (\<lambda>_.
     sbind (load_nvp ''blockMACRandBytes'' as_int (\<lambda>x. c_blockMACRandBytes_update (\<lambda>_. x))) (\<lambda>_.
     sbind (load_nvp ''allowHoles'' as_bool (\<lambda>x. c_allowHoles_update (\<lambda>_. x))) (\<lambda>_.
     sbind (load_key cm) (\<lambda>_. load_salt)))))))))))))"

text \<open>Exceptions of the archive are caught here, those of \<open>rAssert\<close> are not.\<close>

definition readV6Config :: "'o host \<Rightarrow> 'k ciphers \<Rightarrow> bytes option \<Rightarrow> EncFSConfig \<Rightarrow> bool res \<times> EncFSConfig" where
  "readV6Config H cm contents cfg =
     (case contents of
        None \<Rightarrow> (Inr False, cfg)
      | Some file \<Rightarrow>
          (case h_xml_read H file of
             None \<Rightarrow> (Inr False, cfg)
           | Some (version, items) \<Rightarrow>
               (case load_v6 cm version (items, cfg) of
                  (Inl e, (_, cfg)) \<Rightarrow> (if e = ArchiveError then Inr False else Inl e, cfg)
                | (Inr _, (_, cfg)) \<Rightarrow> (Inr True, cfg))))"

text \<open>The version of the class is that of \<open>boost-versioning.h\<close>.\<close>

definition writeV6Config :: "'o host \<Rightarrow> EncFSConfig \<Rightarrow> bytes" where
  "writeV6Config H cfg = h_xml_write H 20 (save_v6 cfg)"

subsection \<open>The file of a volume\<close>

datatype config_format = FormatV6 | FormatV5 | FormatV4

record config_info =
  ci_fileName :: bytes
  ci_type :: ConfigType
  ci_environmentOverride :: "bytes option"
  ci_format :: "config_format option"
  ci_currentSubVersion :: int
  ci_defaultSubVersion :: int

definition ConfigFileMapping :: "config_info list" where
  "ConfigFileMapping =
     [\<lparr>ci_fileName = lit ''.encfs6.xml'', ci_type = Config_V6, ci_environmentOverride = Some (lit ''ENCFS6_CONFIG''),
       ci_format = Some FormatV6, ci_currentSubVersion = V6SubVersion, ci_defaultSubVersion = 0\<rparr>,
      \<lparr>ci_fileName = lit ''.encfs5'', ci_type = Config_V5, ci_environmentOverride = Some (lit ''ENCFS5_CONFIG''),
       ci_format = Some FormatV5, ci_currentSubVersion = V5SubVersion, ci_defaultSubVersion = 0\<rparr>,
      \<lparr>ci_fileName = lit ''.encfs4'', ci_type = Config_V4, ci_environmentOverride = None,
       ci_format = Some FormatV4, ci_currentSubVersion = 0, ci_defaultSubVersion = 0\<rparr>,
      \<lparr>ci_fileName = lit ''.encfs3'', ci_type = Config_V3, ci_environmentOverride = None,
       ci_format = None, ci_currentSubVersion = 0, ci_defaultSubVersion = 0\<rparr>,
      \<lparr>ci_fileName = lit ''.encfs2'', ci_type = Config_Prehistoric, ci_environmentOverride = None,
       ci_format = None, ci_currentSubVersion = 0, ci_defaultSubVersion = 0\<rparr>,
      \<lparr>ci_fileName = lit ''.encfs'', ci_type = Config_Prehistoric, ci_environmentOverride = None,
       ci_format = None, ci_currentSubVersion = 0, ci_defaultSubVersion = 0\<rparr>]"

definition loadFunc ::
  "'o host \<Rightarrow> 'k ciphers \<Rightarrow> config_info \<Rightarrow> config_format \<Rightarrow> bytes option \<Rightarrow> EncFSConfig \<Rightarrow> bool res \<times> EncFSConfig" where
  "loadFunc H cm nm fmt =
     (case fmt of
        FormatV6 \<Rightarrow> readV6Config H cm
      | FormatV5 \<Rightarrow> readV5Config (ci_currentSubVersion nm) (ci_defaultSubVersion nm)
      | FormatV4 \<Rightarrow> readV4Config (ci_defaultSubVersion nm))"

text \<open>A file that cannot be loaded counts as none.\<close>

definition readConfig_load ::
  "'o host \<Rightarrow> 'k ciphers \<Rightarrow> config_info \<Rightarrow> bytes \<Rightarrow> EncFSConfig \<Rightarrow> ('o, ConfigType \<times> EncFSConfig) sm" where
  "readConfig_load H cm nm path cfg =
     (case ci_format nm of
        None \<Rightarrow> sret (ci_type nm, cfg\<lparr>c_cfgType := ci_type nm\<rparr>)
      | Some fmt \<Rightarrow>
          sbind (asks (h_read H path)) (\<lambda>contents.
          case loadFunc H cm nm fmt contents cfg of
            (Inr ok, cfg) \<Rightarrow> if ok then sret (ci_type nm, cfg\<lparr>c_cfgType := ci_type nm\<rparr>) else sret (Config_None, cfg)
          | (Inl e, cfg) \<Rightarrow> if e = Diverges then sthrow e else sret (Config_None, cfg)))"

fun readConfig_loop ::
  "'o host \<Rightarrow> 'k ciphers \<Rightarrow> bytes \<Rightarrow> config_info list \<Rightarrow> EncFSConfig \<Rightarrow> ('o, ConfigType \<times> EncFSConfig) sm" where
  "readConfig_loop H cm rootDir [] cfg = sret (Config_None, cfg)"
| "readConfig_loop H cm rootDir (nm # rest) cfg =
     (case Option.bind (ci_environmentOverride nm) (h_getenv H) of
        Some envFile \<Rightarrow> readConfig_load H cm nm envFile cfg
      | None \<Rightarrow>
          let path = rootDir @ ci_fileName nm in
          sbind (asks (fileExists (h_lstat H) path)) (\<lambda>exists.
          if exists then readConfig_load H cm nm path cfg
          else readConfig_loop H cm rootDir rest cfg))"

definition readConfig :: "'o host \<Rightarrow> 'k ciphers \<Rightarrow> bytes \<Rightarrow> EncFSConfig \<Rightarrow> ('o, ConfigType \<times> EncFSConfig) sm" where
  "readConfig H cm rootDir cfg = readConfig_loop H cm rootDir ConfigFileMapping cfg"

definition saveFunc :: "'o host \<Rightarrow> config_format \<Rightarrow> bytes \<Rightarrow> EncFSConfig \<Rightarrow> ('o, bool) sm" where
  "saveFunc H fmt path cfg =
     (case fmt of
        FormatV6 \<Rightarrow> asks (h_write H path (writeV6Config H cfg))
      | FormatV5 \<Rightarrow> sbind (sres (writeV5Config cfg)) (\<lambda>file. asks (h_overwrite H path file))
      | FormatV4 \<Rightarrow> sbind (sres (writeV4Config cfg)) (\<lambda>file. asks (h_overwrite H path file)))"

fun saveConfig_loop :: "'o host \<Rightarrow> ConfigType \<Rightarrow> bytes \<Rightarrow> config_info list \<Rightarrow> EncFSConfig \<Rightarrow> ('o, bool) sm" where
  "saveConfig_loop H type rootDir [] cfg = sret False"
| "saveConfig_loop H type rootDir (nm # rest) cfg =
     (case (if ci_type nm = type then ci_format nm else None) of
        Some fmt \<Rightarrow>
          let path = (case Option.bind (ci_environmentOverride nm) (h_getenv H) of
                        Some envFile \<Rightarrow> envFile | None \<Rightarrow> rootDir @ ci_fileName nm)
          in scatch (saveFunc H fmt path cfg) (sret False)
      | None \<Rightarrow> saveConfig_loop H type rootDir rest cfg)"

definition saveConfig :: "'o host \<Rightarrow> ConfigType \<Rightarrow> bytes \<Rightarrow> EncFSConfig \<Rightarrow> ('o, bool) sm" where
  "saveConfig H type rootDir cfg = saveConfig_loop H type rootDir ConfigFileMapping cfg"

subsection \<open>Format 6 is read as it was written\<close>

text \<open>What remains of a configuration: all but its type and the ages of its interfaces.\<close>

definition reloaded :: "EncFSConfig \<Rightarrow> EncFSConfig \<Rightarrow> EncFSConfig" where
  "reloaded cfg0 cfg =
     cfg\<lparr>c_cfgType := c_cfgType cfg0,
         c_subVersion := (if c_subVersion cfg = 0 then V6SubVersion else c_subVersion cfg),
         c_cipherIface := Interface (iface_name (c_cipherIface cfg)) (iface_current (c_cipherIface cfg))
           (iface_revision (c_cipherIface cfg)) (iface_age (c_cipherIface cfg0)),
         c_nameIface := Interface (iface_name (c_nameIface cfg)) (iface_current (c_nameIface cfg))
           (iface_revision (c_nameIface cfg)) (iface_age (c_nameIface cfg0))\<rparr>"

lemma nvp_step:
  "nvp name get ((name, x) # rest, cfg) = (case get x of None \<Rightarrow> (Inl ArchiveError, ((name, x) # rest, cfg)) | Some y \<Rightarrow> (Inr y, (rest, cfg)))"
  by (simp add: nvp_def)

lemma load_nvp_step:
  "get x = Some y \<Longrightarrow> load_nvp name get store ((name, x) # rest, cfg) = (Inr (), (rest, store y cfg))"
  by (simp add: load_nvp_def sbind_def nvp_step smod_def)

lemma load_save_v6:
  assumes "c_subVersion cfg = 0 \<or> c_subVersion cfg \<ge> 20080816"
    and "getCipher cm (reloaded cfg0 cfg) = Inr (Some c)" and "vt_encodedKeySize c = length (c_keyData cfg)"
  shows "load_v6 cm 20 (save_v6 cfg, cfg0) = (Inr (), ([], reloaded cfg0 cfg))"
proof -
  obtain cn cc cr ca where ci: "c_cipherIface cfg = Interface cn cc cr ca" by (cases "c_cipherIface cfg")
  obtain nn nc nr na where ni: "c_nameIface cfg = Interface nn nc nr na" by (cases "c_nameIface cfg")
  have sv: "(if c_subVersion cfg = 0 then V6SubVersion else c_subVersion cfg) \<ge> 20080816"
    using assms(1) by (auto simp: V6SubVersion_def)
  have k: "Cipher_New_iface cm (Interface cn cc cr (iface_age (c_cipherIface cfg0))) (c_keySize cfg) = Inr (Some c)"
    using assms(2) by (simp add: getCipher_def reloaded_def ci)
  show ?thesis
    unfolding load_v6_def save_v6_def load_version_def load_key_def load_salt_def
    using sv
    by (simp add: sbind_def load_nvp_step nvp_step sget_def sres_def getCipher_def k assms(3) reloaded_def ci ni rAssert_def
        del: split_paired_All)
qed

subsection \<open>Format 5 is read as it was written\<close>

lemma set_var_at:
  assumes "wr (cv_at [] []) = Inr (cv_at b [])" and "map_of vars (lit k) = None" and "vars_ok vars"
  shows "\<exists>vars'. set_var k wr vars = Inr vars' \<and> vars_ok vars' \<and> map_of vars' = (map_of vars)(lit k \<mapsto> cv_at b [])"
proof -
  let ?v = "vars_insert (lit k) (cv_at [] []) vars"
  have ok: "vars_ok ?v" using assms(3) by (rule vars_insert_ok)
  have "set_var k wr vars = Inr (vars_put (lit k) (cv_at b []) ?v)"
    using assms(1,2) by (simp add: set_var_def vars_index_def vars_get_def ConfigVar_new_at)
  moreover have "map_of (vars_put (lit k) (cv_at b []) ?v) = (map_of vars)(lit k \<mapsto> cv_at b [])"
    using vars_get_put [OF ok] vars_get_insert [OF assms(3)] by (simp add: fun_eq_iff)
  ultimately show ?thesis using vars_put_ok [OF ok] by blast
qed

text \<open>The written variables: names, what writes them and the bytes.\<close>

lemma set_vars_at:
  assumes "\<forall>(k, wr, b) \<in> set ts. wr (cv_at [] []) = Inr (cv_at b [])"
    and "distinct (map (\<lambda>t. lit (fst t)) ts)" and "\<forall>t \<in> set ts. map_of vars (lit (fst t)) = None" and "vars_ok vars"
  shows "\<exists>vars'. set_vars (map (\<lambda>(k, wr, b). (k, wr)) ts) vars = Inr vars' \<and> vars_ok vars' \<and>
    map_of vars' = map_of vars ++ map_of (map (\<lambda>(k, wr, b). (lit k, cv_at b [])) ts)"
  using assms
proof (induction ts arbitrary: vars)
  case (Cons t ts)
  obtain k wr b where t: "t = (k, wr, b)" by (cases t)
  obtain v where v: "set_var k wr vars = Inr v" "vars_ok v" "map_of v = (map_of vars)(lit k \<mapsto> cv_at b [])"
    using set_var_at [of wr b vars k] Cons(2,4,5) by (auto simp: t)
  have "\<forall>t \<in> set ts. map_of v (lit (fst t)) = None" using Cons(3,4) by (auto simp: t v(3) image_iff)
  then obtain vars' where "set_vars (map (\<lambda>(k, wr, b). (k, wr)) ts) v = Inr vars'" "vars_ok vars'"
      "map_of vars' = map_of v ++ map_of (map (\<lambda>(k, wr, b). (lit k, cv_at b [])) ts)"
    using Cons.IH [of v] Cons(2,3) v(2) by auto
  moreover have "map_of (map (\<lambda>(k, wr, b). (lit k, cv_at b [])) ts) (lit k) = None"
    using Cons(3) by (force simp: t map_of_eq_None_iff image_iff)
  ultimately show ?case
    by (auto simp: t v(1,3) fun_eq_iff map_add_def split: option.splits)
qed simp

lemma vars_ok_rewound: "vars_ok vars \<Longrightarrow> vars_ok (rewound vars)"
  by (simp add: vars_ok_def rewound_def comp_def case_prod_unfold)

lemma map_of_rewound: "map_of (rewound vars) k = map_option resetOffset (map_of vars k)"
  by (induction vars) (auto simp: rewound_def)

text \<open>The variables still to be read.\<close>

definition reads :: "cfg_vars \<Rightarrow> (string \<times> bytes) list \<Rightarrow> bool" where
  "reads vars ps \<longleftrightarrow> vars_ok vars \<and> distinct (map (\<lambda>p. lit (fst p)) ps) \<and>
     (\<forall>(k, b) \<in> set ps. map_of vars (lit k) = Some (cv_at [] b))"

lemma field_reads:
  assumes "reads vars ((k, b) # ps)" and "get (cv_at [] b) = (Inr x, v)"
    and "\<And>vars. reads vars ps \<Longrightarrow> P () (vars, store x cfg)"
  shows "returns (field k get store) (vars, cfg) P"
proof -
  let ?v = "vars_insert (lit k) ConfigVar_new vars"
  have ok: "vars_ok ?v" using assms(1) by (simp add: reads_def vars_insert_ok)
  have "field k get store (vars, cfg) = (Inr (), (vars_put (lit k) v ?v, store x cfg))"
    using assms(1,2) by (simp add: field_def vars_index_def vars_get_def reads_def)
  moreover have "reads (vars_put (lit k) v ?v) ps"
    using assms(1) vars_put_ok [OF ok] by (force simp: reads_def vars_get_put [OF ok] vars_get_insert)
  ultimately show ?thesis using assms(3) by (simp add: returns_def)
qed

text \<open>The fields of format 5, which the others keep.\<close>

definition v5_part :: "EncFSConfig \<Rightarrow> EncFSConfig \<Rightarrow> EncFSConfig" where
  "v5_part cfg0 cfg =
     cfg\<lparr>c_cfgType := c_cfgType cfg0, c_salt := c_salt cfg0, c_kdfIterations := c_kdfIterations cfg0,
         c_desiredKDFDuration := c_desiredKDFDuration cfg0, c_allowHoles := c_allowHoles cfg0\<rparr>"

definition config_ok :: "EncFSConfig \<Rightarrow> bool" where
  "config_ok cfg \<longleftrightarrow>
     ifaceOk (c_cipherIface cfg) \<and> ifaceOk (c_nameIface cfg) \<and> length (c_creator cfg) < 2 ^ 30 \<and> length (c_keyData cfg) < 2 ^ 30 \<and>
     length (iface_name (c_cipherIface cfg)) < 2 ^ 30 \<and> length (iface_name (c_nameIface cfg)) < 2 ^ 30 \<and>
     (\<forall>x \<in> {c_subVersion cfg, c_keySize cfg, c_blockSize cfg, c_blockMACBytes cfg, c_blockMACRandBytes cfg}. 0 \<le> x \<and> x < 2 ^ 31)"

abbreviation enc_int :: "int \<Rightarrow> bytes" where "enc_int i \<equiv> encodeInt (word_of_int i)"
abbreviation enc_bool :: "bool \<Rightarrow> bytes" where "enc_bool b \<equiv> encodeInt (if b then 1 else 0)"
abbreviation enc_string :: "bytes \<Rightarrow> bytes" where "enc_string x \<equiv> encodeInt (of_nat (length x)) @ x"

definition v5_list :: "EncFSConfig \<Rightarrow> (string \<times> (config_var \<Rightarrow> config_var res) \<times> bytes) list" where
  "v5_list cfg =
     [(''creator'', putString (c_creator cfg), enc_string (c_creator cfg)),
      (''subVersion'', putInt (c_subVersion cfg), enc_int (c_subVersion cfg)),
      (''cipher'', putInterface (c_cipherIface cfg), encodeInterface (c_cipherIface cfg)),
      (''naming'', putInterface (c_nameIface cfg), encodeInterface (c_nameIface cfg)),
      (''keySize'', putInt (c_keySize cfg), enc_int (c_keySize cfg)),
      (''blockSize'', putInt (c_blockSize cfg), enc_int (c_blockSize cfg)),
      (''keyData'', putString (c_keyData cfg), enc_string (c_keyData cfg)),
      (''blockMACBytes'', putInt (c_blockMACBytes cfg), enc_int (c_blockMACBytes cfg)),
      (''blockMACRandBytes'', putInt (c_blockMACRandBytes cfg), enc_int (c_blockMACRandBytes cfg)),
      (''uniqueIV'', putBool (c_uniqueIV cfg), enc_bool (c_uniqueIV cfg)),
      (''chainedIV'', putBool (c_chainedNameIV cfg), enc_bool (c_chainedNameIV cfg)),
      (''externalIV'', putBool (c_externalIVChaining cfg), enc_bool (c_externalIVChaining cfg))]"

lemma v5_list_ok:
  "\<forall>(k, wr, b) \<in> set (v5_list cfg). wr (cv_at [] []) = Inr (cv_at b [])"
  by (simp add: v5_list_def putString_def putInt_def putBool_def cv_simps)

lemma v5_names: "distinct (map (\<lambda>t. lit (fst t)) (v5_list cfg))"
proof -
  have "map (\<lambda>t. lit (fst t)) (v5_list cfg) = map lit [''creator'', ''subVersion'', ''cipher'', ''naming'', ''keySize'',
      ''blockSize'', ''keyData'', ''blockMACBytes'', ''blockMACRandBytes'', ''uniqueIV'', ''chainedIV'', ''externalIV'']"
    by (simp add: v5_list_def)
  also have "distinct \<dots>" by code_simp
  finally show ?thesis .
qed

lemma v5_entries:
  assumes "config_ok cfg" and "(k, wr, b) \<in> set (v5_list cfg)"
  shows "lit k \<noteq> [] \<and> length (lit k) < 2 ^ 31 \<and> length b < 2 ^ 31"
proof -
  have e: "length (encodeInt x) \<le> 5" for x using length_encodeInt(2) .
  have "k \<in> {''creator'', ''subVersion'', ''cipher'', ''naming'', ''keySize'',
      ''blockSize'', ''keyData'', ''blockMACBytes'', ''blockMACRandBytes'', ''uniqueIV'', ''chainedIV'', ''externalIV''}"
    using assms(2) by (auto simp: v5_list_def)
  then have "lit k \<noteq> [] \<and> length (lit k) < 2 ^ 31" by (auto simp: lit_def)
  moreover have "length b < 2 ^ 31"
    using assms e [of "word_of_int (iface_current (c_cipherIface cfg))"] e [of "word_of_int (iface_revision (c_cipherIface cfg))"]
      e [of "word_of_int (iface_age (c_cipherIface cfg))"] e [of "word_of_int (iface_current (c_nameIface cfg))"]
      e [of "word_of_int (iface_revision (c_nameIface cfg))"] e [of "word_of_int (iface_age (c_nameIface cfg))"]
      e [of "of_nat (length (iface_name (c_cipherIface cfg)))"] e [of "of_nat (length (iface_name (c_nameIface cfg)))"]
      e [of "of_nat (length (c_creator cfg))"] e [of "of_nat (length (c_keyData cfg))"]
      e [of "word_of_int (c_subVersion cfg)"] e [of "word_of_int (c_keySize cfg)"] e [of "word_of_int (c_blockSize cfg)"]
      e [of "word_of_int (c_blockMACBytes cfg)"] e [of "word_of_int (c_blockMACRandBytes cfg)"] e [of 0] e [of 1]
    by (auto simp: v5_list_def config_ok_def encodeInterface_def)
  ultimately show ?thesis by blast
qed

lemma v5_written:
  assumes "config_ok cfg"
  shows "\<exists>file vars. writeV5Config cfg = Inr file \<and> (\<forall>rest. cfg_load (Some (file @ rest)) [] = (Inr True, rewound vars)) \<and>
    vars_ok vars \<and> map_of vars = map_of (map (\<lambda>(k, wr, b). (lit k, cv_at b [])) (v5_list cfg))"
proof -
  obtain vars where v: "set_vars (map (\<lambda>(k, wr, b). (k, wr)) (v5_list cfg)) [] = Inr vars" "vars_ok vars"
      "map_of vars = map_of (map (\<lambda>(k, wr, b). (lit k, cv_at b [])) (v5_list cfg))"
    using set_vars_at [OF v5_list_ok [of cfg] v5_names, of "[]"] by (auto simp: vars_ok_def)
  have d: "distinct (map fst vars)" using v(2) by (simp add: vars_ok_def strict_sorted_iff)
  have s: "\<exists>k' wr b. (k', wr, b) \<in> set (v5_list cfg) \<and> k = lit k' \<and> x = cv_at b []" if "(k, x) \<in> set vars" for k x
  proof -
    have "map_of vars k = Some x" using d that by (rule map_of_is_SomeI)
    then have "(k, x) \<in> set (map (\<lambda>(k, wr, b). (lit k, cv_at b [])) (v5_list cfg))" unfolding v(3) by (rule map_of_SomeD)
    then show ?thesis by auto
  qed
  have "fst ` set vars \<subseteq> (\<lambda>t. lit (fst t)) ` set (v5_list cfg)"
  proof
    fix k assume "k \<in> fst ` set vars"
    then show "k \<in> (\<lambda>t. lit (fst t)) ` set (v5_list cfg)" using s by force
  qed
  then have "card (fst ` set vars) \<le> card ((\<lambda>t. lit (fst t)) ` set (v5_list cfg))" by (intro card_mono) auto
  then have "length vars \<le> length (v5_list cfg)"
    using d card_image_le [of "set (v5_list cfg)" "\<lambda>t. lit (fst t)"] card_length [of "v5_list cfg"] distinct_card [OF d]
    by simp
  then have n: "length vars < 2 ^ 31" by (simp add: v5_list_def)
  have "\<forall>kv \<in> set vars. entryOk kv"
    using s v5_entries [OF assms] by (force simp: entryOk_def cv_simps)
  then obtain fl where f: "cfg_save vars = Inr fl" "\<And>rest. cfg_load (Some (fl @ rest)) [] = (Inr True, rewound vars)"
    using saved_loads [OF v(2) _ n] by blast
  have "writeV5Config cfg = Inr fl" using v(1) by (simp add: writeV5Config_def v5_list_def f(1))
  then show ?thesis using f(2) v(2,3) by blast
qed

text \<open>The values read back.\<close>

lemma get_values:
  shows "0 \<le> i \<Longrightarrow> i < 2 ^ 31 \<Longrightarrow> getInt (cv_at [] (enc_int i)) = (Inr i, cv_at (enc_int i) [])"
    and "0 \<le> i \<Longrightarrow> i < 2 ^ 31 \<Longrightarrow> getIntDefault d (cv_at [] (enc_int i)) = (Inr i, cv_at (enc_int i) [])"
    and "readBool d' (cv_at [] (enc_bool b)) = (Inr b, cv_at (enc_bool b) [])"
    and "length x < 2 ^ 31 \<Longrightarrow> getString (cv_at [] (enc_string x)) = (Inr x, cv_at (enc_string x) [])"
    and "ifaceOk iface \<Longrightarrow> getInterface (cv_at [] (encodeInterface iface)) = (Inr iface, cv_at (encodeInterface iface) [])"
proof -
  have d: "readIntDefault e (cv_at [] (encodeInt v)) = readInt (cv_at [] (encodeInt v))" for e v
    using length_encodeInt(1) [of v] by (simp add: readIntDefault_def cv_at_def cv_size_def)
  show "0 \<le> i \<Longrightarrow> i < 2 ^ 31 \<Longrightarrow> getInt (cv_at [] (enc_int i)) = (Inr i, cv_at (enc_int i) [])"
    using getInt_at [of i "[]" "[]"] by simp
  show "0 \<le> i \<Longrightarrow> i < 2 ^ 31 \<Longrightarrow> getIntDefault d (cv_at [] (enc_int i)) = (Inr i, cv_at (enc_int i) [])"
    using readInt_at [of "[]" "word_of_int i" "[]"] sint_of_int_small [of i] by (simp add: getIntDefault_def d)
  show "readBool d' (cv_at [] (enc_bool b)) = (Inr b, cv_at (enc_bool b) [])"
    using readInt_at [of "[]" "if b then 1 else 0" "[]"] by (cases b) (simp_all add: readBool_def d)
  show "length x < 2 ^ 31 \<Longrightarrow> getString (cv_at [] (enc_string x)) = (Inr x, cv_at (enc_string x) [])"
    using getString_at [of x "[]" "[]"] by simp
  show "ifaceOk iface \<Longrightarrow> getInterface (cv_at [] (encodeInterface iface)) = (Inr iface, cv_at (encodeInterface iface) [])"
    using getInterface_at [of iface "[]" "[]"] by simp
qed

definition v5_order :: "EncFSConfig \<Rightarrow> (string \<times> bytes) list" where
  "v5_order cfg =
     [(''subVersion'', enc_int (c_subVersion cfg)), (''creator'', enc_string (c_creator cfg)),
      (''cipher'', encodeInterface (c_cipherIface cfg)), (''naming'', encodeInterface (c_nameIface cfg)),
      (''keySize'', enc_int (c_keySize cfg)), (''blockSize'', enc_int (c_blockSize cfg)),
      (''keyData'', enc_string (c_keyData cfg)), (''uniqueIV'', enc_bool (c_uniqueIV cfg)),
      (''chainedIV'', enc_bool (c_chainedNameIV cfg)), (''externalIV'', enc_bool (c_externalIVChaining cfg)),
      (''blockMACBytes'', enc_int (c_blockMACBytes cfg)), (''blockMACRandBytes'', enc_int (c_blockMACRandBytes cfg))]"

lemma v5_reads:
  assumes "vars_ok vars" and "map_of vars = map_of (map (\<lambda>(k, wr, b). (lit k, cv_at b [])) (v5_list cfg))"
  shows "reads (rewound vars) (v5_order cfg)"
proof -
  have names: "map (\<lambda>p. lit (fst p)) (v5_order cfg) = map lit [''subVersion'', ''creator'', ''cipher'', ''naming'', ''keySize'',
      ''blockSize'', ''keyData'', ''uniqueIV'', ''chainedIV'', ''externalIV'', ''blockMACBytes'', ''blockMACRandBytes'']"
    by (simp add: v5_order_def)
  have "distinct (map lit [''subVersion'', ''creator'', ''cipher'', ''naming'', ''keySize'',
      ''blockSize'', ''keyData'', ''uniqueIV'', ''chainedIV'', ''externalIV'', ''blockMACBytes'', ''blockMACRandBytes''])"
    by code_simp
  then have dis: "distinct (map (\<lambda>p. lit (fst p)) (v5_order cfg))" unfolding names .
  have v: "distinct (map fst (map (\<lambda>(k, wr, b). (lit k, cv_at b [])) (v5_list cfg)))"
    using v5_names [of cfg] by (simp add: comp_def case_prod_unfold)
  have "map_of (rewound vars) (lit k) = Some (cv_at [] b)" if "(k, b) \<in> set (v5_order cfg)" for k b
  proof -
    have "set (v5_order cfg) \<subseteq> set (map (\<lambda>(k, wr, b). (k, b)) (v5_list cfg))" by (simp add: v5_order_def v5_list_def)
    then have "(k, b) \<in> set (map (\<lambda>(k, wr, b). (k, b)) (v5_list cfg))" using that by (rule subsetD)
    then obtain wr where "(k, wr, b) \<in> set (v5_list cfg)" by auto
    then have "(lit k, cv_at b []) \<in> set (map (\<lambda>(k, wr, b). (lit k, cv_at b [])) (v5_list cfg))" by force
    then have "map_of vars (lit k) = Some (cv_at b [])" unfolding assms(2) by (rule map_of_is_SomeI [OF v])
    then show ?thesis by (simp add: map_of_rewound cv_simps)
  qed
  then show ?thesis using dis vars_ok_rewound [OF assms(1)] by (auto simp: reads_def)
qed

text \<open>
  C27: a configuration written in format 5 is read back, all its fields as they were, also when it
  was written over a longer file, whose end stays; the fields that the format does not have
  keep what they were.
\<close>
theorem v5_config_roundtrip:
  assumes "config_ok cfg" and "20040813 \<le> c_subVersion cfg" and "c_subVersion cfg \<le> cur"
  shows "\<exists>file. writeV5Config cfg = Inr file \<and>
    (\<forall>rest. readV5Config cur def (Some (file @ rest)) cfg0 = (Inr True, v5_part cfg0 cfg))"
proof -
  obtain fl vars where f: "writeV5Config cfg = Inr fl" "\<And>rest. cfg_load (Some (fl @ rest)) [] = (Inr True, rewound vars)"
      and v: "vars_ok vars" "map_of vars = map_of (map (\<lambda>(k, wr, b). (lit k, cv_at b [])) (v5_list cfg))"
    using v5_written [OF assms(1)] by blast
  have i: "0 \<le> c_subVersion cfg" "c_subVersion cfg < 2 ^ 31" "0 \<le> c_keySize cfg" "c_keySize cfg < 2 ^ 31" "0 \<le> c_blockSize cfg"
      "c_blockSize cfg < 2 ^ 31" "0 \<le> c_blockMACBytes cfg" "c_blockMACBytes cfg < 2 ^ 31" "0 \<le> c_blockMACRandBytes cfg"
      "c_blockMACRandBytes cfg < 2 ^ 31" "length (c_creator cfg) < 2 ^ 31" "length (c_keyData cfg) < 2 ^ 31"
      "ifaceOk (c_cipherIface cfg)" "ifaceOk (c_nameIface cfg)"
    using assms(1) by (simp_all add: config_ok_def)
  note got = get_values(1) [OF i(3,4)] get_values(1) [OF i(5,6)] get_values(2) [OF i(7,8)] get_values(2) [OF i(9,10)]
    get_values(2) [OF i(1,2)] get_values(4) [OF i(11)] get_values(4) [OF i(12)] get_values(5) [OF i(13)] get_values(5) [OF i(14)]
    get_values(3)
  have r: "reads (rewound vars) (v5_order cfg)" by (rule v5_reads [OF v])
  have "returns (read_v5 cur def) (rewound vars, cfg0) (\<lambda>ok (vars, c). ok \<and> c = v5_part cfg0 cfg)"
    unfolding read_v5_def read_common_def sbind_assoc returns_sbind
    apply (rule field_reads, rule r [unfolded v5_order_def], rule got)
    using assms(2,3) apply (simp add: not_less [symmetric] del: returns_sret)
    by (simp only: sbind_assoc returns_sbind, (rule field_reads, assumption, rule got)+, simp add: v5_part_def)
  then have "fst (read_v5 cur def (rewound vars, cfg0)) = Inr True \<and> snd (snd (read_v5 cur def (rewound vars, cfg0))) = v5_part cfg0 cfg"
    unfolding returns_iff by auto
  then show ?thesis
    using f by (cases "read_v5 cur def (rewound vars, cfg0)") (auto simp: readV5Config_def read_vars_def scatch_def)
qed

text \<open>A configuration as \<open>encfs\<close> 1.1 made them.\<close>

definition sample_v5 :: EncFSConfig where
  "sample_v5 =
     (EncFSConfig_new 160 512)\<lparr>c_cfgType := Config_V5, c_creator := lit ''EncFS 1.1.11'', c_subVersion := 20040813,
        c_cipherIface := Interface (lit ''ssl/blowfish'') 2 1 1, c_nameIface := Interface (lit ''nameio/block'') 3 0 1,
        c_keyData := [7, 8, 9], c_uniqueIV := True, c_chainedNameIV := True, c_externalIVChaining := True,
        c_blockMACBytes := 8\<rparr>"

theorem v5_config_roundtrip_witness:
  "config_ok sample_v5 \<and> v5_part (EncFSConfig_new 0 0) sample_v5 \<noteq> EncFSConfig_new 0 0 \<and>
     (\<exists>file. writeV5Config sample_v5 = Inr file \<and>
       (\<forall>rest. readV5Config V5SubVersion 0 (Some (file @ rest)) (EncFSConfig_new 0 0) =
         (Inr True, v5_part (EncFSConfig_new 0 0) sample_v5)))"
proof -
  have ok: "config_ok sample_v5"
    by (simp add: config_ok_def sample_v5_def EncFSConfig_new_def ifaceOk_def lit_def)
  have "v5_part (EncFSConfig_new 0 0) sample_v5 \<noteq> EncFSConfig_new 0 0"
    by (simp add: v5_part_def sample_v5_def EncFSConfig_new_def)
  moreover have "20040813 \<le> c_subVersion sample_v5" "c_subVersion sample_v5 \<le> V5SubVersion"
    by (simp_all add: sample_v5_def V5SubVersion_def)
  ultimately show ?thesis using ok v5_config_roundtrip [OF ok] by blast
qed

end
