(* ===== verification/Setup.thy ===== *)
theory Setup
  imports ConfigFiles SSL_Cipher BlockNameIO StreamNameIO NullNameIO
begin

text \<open>
  Creating and opening a volume (\<open>encfs/FileUtils.cpp\<close>): the questions of the set-up, the
  keys from passwords, \<open>createV6Config\<close> and \<open>initFS\<close>.  What is printed is left out.
\<close>

subsection \<open>Asking\<close>

text \<open>\<open>atoi\<close>, for numbers in the range of \<open>int\<close>.\<close>

fun digits_value :: "int \<Rightarrow> bytes \<Rightarrow> int" where
  "digits_value n [] = n"
| "digits_value n (x # xs) = (if 48 \<le> x \<and> x \<le> 57 then digits_value (10 * n + uint (x - 48)) xs else n)"

definition atoi :: "bytes \<Rightarrow> int" where
  "atoi s =
     (case dropWhile (\<lambda>x. x = 32 \<or> 9 \<le> x \<and> x \<le> 13) s of
        [] \<Rightarrow> 0
      | x # xs \<Rightarrow> if x = 45 then - digits_value 0 xs else if x = 43 then digits_value 0 xs
                  else digits_value 0 (x # xs))"

text \<open>An answer of at most nine characters, and its first one in lower case; \<open>NULL\<close> is \<open>None\<close>.\<close>

definition tolower :: "byte \<Rightarrow> byte" where
  "tolower x = (if 65 \<le> x \<and> x \<le> 90 then x + 32 else x)"

definition answer :: "'o host \<Rightarrow> ('o, bytes option) sm" where
  "answer H = asks (h_fgets H 10)"

definition answer_number :: "bytes option \<Rightarrow> int" where
  "answer_number res = (case res of None \<Rightarrow> 0 | Some l \<Rightarrow> atoi l)"

definition starts_with :: "byte \<Rightarrow> bytes option \<Rightarrow> bool" where
  "starts_with x res = (case res of None \<Rightarrow> False | Some l \<Rightarrow> l \<noteq> [] \<and> tolower (hd l) = x)"

definition boolDefaultNo :: "'o host \<Rightarrow> ('o, bool) sm" where
  "boolDefaultNo H = sbind (answer H) (\<lambda>res. sret (starts_with 121 res))"

definition boolDefaultYes :: "'o host \<Rightarrow> ('o, bool) sm" where
  "boolDefaultYes H = sbind (answer H) (\<lambda>res. sret (\<not> starts_with 110 res))"

definition userAllowMkdir :: "'o host \<Rightarrow> bytes \<Rightarrow> u32 \<Rightarrow> ('o, bool) sm" where
  "userAllowMkdir H path mode =
     sbind (answer H) (\<lambda>res.
     if starts_with 121 res then sbind (asks (h_mkdir H path mode)) (\<lambda>result. sret (\<not> result < 0))
     else sret False)"

text \<open>
  A loop that asks until the answer is the number of an entry; it does not end when there is
  no more input.
\<close>

partial_function (option) select_number :: "('o \<Rightarrow> bytes option \<times> 'o) \<Rightarrow> nat \<Rightarrow> 'o \<Rightarrow> (nat \<times> 'o) option" where
  "select_number fgets n w =
     (case fgets w of (res, w) \<Rightarrow>
      let num = answer_number res in
      if num < 1 \<or> num > int n then select_number fgets n w else Some (nat num, w))"

definition loops :: "('o \<Rightarrow> ('a \<times> 'o) option) \<Rightarrow> ('o, 'a) sm" where
  "loops f = (\<lambda>w. case f w of None \<Rightarrow> (Inl Diverges, w) | Some (x, w) \<Rightarrow> (Inr x, w))"

definition selectCipherAlgorithm :: "'o host \<Rightarrow> 'f cipher_map \<Rightarrow> ('o, cipher_algorithm) sm" where
  "selectCipherAlgorithm H cm =
     (let algorithms = Cipher_GetAlgorithmList cm False in
      sbind (loops (select_number (h_fgets H 10) (length algorithms))) (\<lambda>cipherNum.
      sret (algorithms ! (cipherNum - 1))))"

definition selectNameCoding :: "'o host \<Rightarrow> 'f nameio_map \<Rightarrow> ('o, interface) sm" where
  "selectNameCoding H nm =
     (let algorithms = NameIO_GetAlgorithmList nm False in
      sbind (loops (select_number (h_fgets H 10) (length algorithms))) (\<lambda>algNum.
      case algorithms ! (algNum - 1) of (name, description, iface) \<Rightarrow> sret iface))"

text \<open>The search for the nearest allowed value may not end.\<close>

definition closest :: "range \<Rightarrow> int \<Rightarrow> ('o, int) sm" where
  "closest r v = (case range_closest r v of None \<Rightarrow> sthrow Diverges | Some x \<Rightarrow> sret x)"

definition selectKeySize :: "'o host \<Rightarrow> cipher_algorithm \<Rightarrow> ('o, int) sm" where
  "selectKeySize H alg =
     (let r = alg_keyLength alg in
      if minVal r = maxVal r then sret (minVal r)
      else sbind (answer H) (\<lambda>res. closest r (answer_number res)))"

definition DefaultBlockSize :: int where "DefaultBlockSize = 1024"

definition selectBlockSize :: "'o host \<Rightarrow> cipher_algorithm \<Rightarrow> ('o, int) sm" where
  "selectBlockSize H alg =
     (let r = alg_blockSize alg in
      if minVal r = maxVal r then sret (minVal r)
      else sbind (answer H) (\<lambda>res.
           closest r (if res \<noteq> None \<and> answer_number res \<ge> minVal r then answer_number res else DefaultBlockSize)))"

definition selectBlockMAC :: "'o host \<Rightarrow> ('o, int \<times> int) sm" where
  "selectBlockMAC H =
     sbind (boolDefaultNo H) (\<lambda>addMAC.
     sbind (answer H) (\<lambda>res.
     let randSize = answer_number res;
         randSize = (if randSize < 0 then 0 else randSize);
         randSize = (if randSize > 8 then 8 else randSize) in
     sret (if addMAC then 8 else 0, randSize)))"

subsection \<open>Keys from passwords\<close>

text \<open>
  A password makes a key; a configuration of format 6 without salt and iterations gets a new
  salt.  Counting the random buffers is \<open>h_drawn\<close>.
\<close>

definition makeKey :: "'o host \<Rightarrow> 'k ciphers \<Rightarrow> bytes \<Rightarrow> EncFSConfig \<Rightarrow> ('o, 'k option \<times> EncFSConfig) sm" where
  "makeKey H cm password cfg =
     sbind (sres (getCipher cm cfg)) (\<lambda>cipher.
     case cipher of
       None \<Rightarrow> sthrow Diverges
     | Some c \<Rightarrow>
         let cfg = (if c_salt cfg = [] \<and> c_kdfIterations cfg = 0 \<and> c_cfgType cfg = Config_V6
                    then cfg\<lparr>c_salt := replicate 20 0\<rparr> else cfg) in
         if c_salt cfg = [] then sbind (sres (vt_newKey_old c password)) (\<lambda>k. sret (k, cfg))
         else
           sbind (if c_kdfIterations cfg = 0
                  then sbind (asks (h_drawn H)) (\<lambda>i. sret (vt_randomize c (length (c_salt cfg)) True i))
                  else sret (True, c_salt cfg)) (\<lambda>(ok, salt).
           let cfg = cfg\<lparr>c_salt := salt\<rparr> in
           if \<not> ok then sret (None, cfg)
           else
             sbind (sres (vt_newKey c password (c_kdfIterations cfg) (c_desiredKDFDuration cfg) (c_salt cfg))) (\<lambda>(k, iterations).
             sret (k, cfg\<lparr>c_kdfIterations := iterations\<rparr>))))"

definition MaxPassBuf :: nat where "MaxPassBuf = 512"

text \<open>What \<open>fgets\<close> read, without the newline at its end.\<close>

definition password_of :: "bytes \<Rightarrow> bytes" where
  "password_of line = (let p = cstr line in if p \<noteq> [] \<and> last p = 10 then butlast p else p)"

definition getUserKey :: "'o host \<Rightarrow> 'k ciphers \<Rightarrow> bool \<Rightarrow> EncFSConfig \<Rightarrow> ('o, 'k option \<times> EncFSConfig) sm" where
  "getUserKey H cm useStdin cfg =
     sbind (if useStdin then sbind (asks (h_fgets H MaxPassBuf)) (\<lambda>res. sret (map_option password_of res))
            else sbind (asks (h_readpassphrase H MaxPassBuf)) (\<lambda>res. sret (map_option cstr res))) (\<lambda>res.
     case res of
       None \<Rightarrow> sret (None, cfg)
     | Some password \<Rightarrow> makeKey H cm password cfg)"

text \<open>Asks until two passwords agree and give a key; without input it asks for ever.\<close>

partial_function (option) getNewUserKey ::
  "'o host \<Rightarrow> 'k ciphers \<Rightarrow> EncFSConfig \<Rightarrow> 'o \<Rightarrow> (('k \<times> EncFSConfig) res \<times> 'o) option" where
  "getNewUserKey H cm cfg w =
     (case h_readpassphrase H (MaxPassBuf - 1) w of (res1, w) \<Rightarrow>
      case h_readpassphrase H (MaxPassBuf - 1) w of (res2, w) \<Rightarrow>
      if res1 \<noteq> None \<and> res2 \<noteq> None \<and> map_option cstr res1 = map_option cstr res2
      then (case makeKey H cm (cstr (the res1)) cfg w of
              (Inl e, w) \<Rightarrow> Some (Inl e, w)
            | (Inr (Some k, cfg), w) \<Rightarrow> Some (Inr (k, cfg), w)
            | (Inr (None, cfg), w) \<Rightarrow> getNewUserKey H cm cfg w)
      else getNewUserKey H cm cfg w)"

subsection \<open>Creating a volume\<close>

record 'k EncFS_Root =
  er_cipher :: "'k cipher"
  er_volumeKey :: 'k
  er_root :: "'k dirnode"

type_synonym 'k codings = "(interface \<Rightarrow> 'k cipher \<Rightarrow> 'k \<Rightarrow> nameio res) nameio_map"

definition ParanoiaKDFDuration :: int where "ParanoiaKDFDuration = 3000"

definition findCipherAlgorithm :: "'f cipher_map \<Rightarrow> bytes \<Rightarrow> int \<Rightarrow> cipher_algorithm" where
  "findCipherAlgorithm cm name keySize =
     (case find (\<lambda>alg. alg_name alg = name \<and> range_allowed (alg_keyLength alg) keySize) (Cipher_GetAlgorithmList cm False) of
        Some alg \<Rightarrow> alg
      | None \<Rightarrow> \<lparr>alg_name = [], alg_description = [], alg_iface = Interface [] 0 0 0,
                 alg_keyLength = Range_default, alg_blockSize = Range_default\<rparr>)"

text \<open>The settings that \<open>createV6Config\<close> chooses before it makes the configuration.\<close>

record settings =
  s_alg :: cipher_algorithm
  s_keySize :: int
  s_blockSize :: int
  s_nameIOIface :: interface
  s_blockMACBytes :: int
  s_blockMACRandBytes :: int
  s_uniqueIV :: bool
  s_chainedIV :: bool
  s_externalIV :: bool
  s_allowHoles :: bool
  s_desiredKDFDuration :: int

definition paranoia_settings :: "'f cipher_map \<Rightarrow> settings" where
  "paranoia_settings cm =
     \<lparr>s_alg = findCipherAlgorithm cm (lit ''AES'') 256, s_keySize = 256, s_blockSize = DefaultBlockSize,
      s_nameIOIface = BlockNameIO_CurrentInterface, s_blockMACBytes = 8, s_blockMACRandBytes = 0,
      s_uniqueIV = True, s_chainedIV = True, s_externalIV = True, s_allowHoles = True,
      s_desiredKDFDuration = ParanoiaKDFDuration\<rparr>"

definition standard_settings :: "'f cipher_map \<Rightarrow> bool \<Rightarrow> settings" where
  "standard_settings cm reverseEncryption =
     \<lparr>s_alg = findCipherAlgorithm cm (lit ''AES'') 192, s_keySize = 192, s_blockSize = DefaultBlockSize,
      s_nameIOIface = BlockNameIO_CurrentInterface, s_blockMACBytes = 0, s_blockMACRandBytes = 0,
      s_uniqueIV = (\<not> reverseEncryption), s_chainedIV = (\<not> reverseEncryption), s_externalIV = False, s_allowHoles = True,
      s_desiredKDFDuration = NormalKDFDuration\<rparr>"

text \<open>The settings before the choice, which the manual mode starts from.\<close>

definition initial_settings :: settings where
  "initial_settings =
     \<lparr>s_alg = \<lparr>alg_name = [], alg_description = [], alg_iface = Interface [] 0 0 0,
                alg_keyLength = Range_default, alg_blockSize = Range_default\<rparr>,
      s_keySize = 0, s_blockSize = 0, s_nameIOIface = Interface [] 0 0 0, s_blockMACBytes = 0, s_blockMACRandBytes = 0,
      s_uniqueIV = False, s_chainedIV = False, s_externalIV = False, s_allowHoles = True,
      s_desiredKDFDuration = NormalKDFDuration\<rparr>"

definition manual_settings :: "'o host \<Rightarrow> 'f cipher_map \<Rightarrow> 'g nameio_map \<Rightarrow> bool \<Rightarrow> settings \<Rightarrow> ('o, settings) sm" where
  "manual_settings H cm nm reverseEncryption st =
     sbind (selectCipherAlgorithm H cm) (\<lambda>alg.
     sbind (selectKeySize H alg) (\<lambda>keySize.
     sbind (selectBlockSize H alg) (\<lambda>blockSize.
     sbind (selectNameCoding H nm) (\<lambda>nameIOIface.
     let st = st\<lparr>s_alg := alg, s_keySize := keySize, s_blockSize := blockSize, s_nameIOIface := nameIOIface\<rparr> in
     if reverseEncryption then sret st
     else
       sbind (boolDefaultYes H) (\<lambda>chainedIV.
       sbind (boolDefaultYes H) (\<lambda>uniqueIV.
       sbind (if chainedIV \<and> uniqueIV then boolDefaultNo H else sret False) (\<lambda>externalIV.
       sbind (selectBlockMAC H) (\<lambda>(blockMACBytes, blockMACRandBytes).
       sbind (boolDefaultYes H) (\<lambda>allowHoles.
       sret (st\<lparr>s_chainedIV := chainedIV, s_uniqueIV := uniqueIV, s_externalIV := externalIV,
         s_blockMACBytes := blockMACBytes, s_blockMACRandBytes := blockMACRandBytes, s_allowHoles := allowHoles\<rparr>))))))))))"

text \<open>\<open>None\<close> is the return without a volume.  The first character of the answer decides.\<close>

definition choose_settings ::
  "'o host \<Rightarrow> 'f cipher_map \<Rightarrow> 'g nameio_map \<Rightarrow> ConfigMode \<Rightarrow> bool \<Rightarrow> ('o, settings option) sm" where
  "choose_settings H cm nm configMode reverseEncryption =
     sbind (if configMode = Config_Prompt
            then sbind (answer H) (\<lambda>res. sret (case res of None \<Rightarrow> 0 | Some l \<Rightarrow> if l = [] then 0 else hd l))
            else sret 0) (\<lambda>c.
     if configMode = Config_Paranoia \<or> c = 112 then
       if reverseEncryption then sret None
       else if alg_name (s_alg (paranoia_settings cm)) = []
            then sbind (manual_settings H cm nm reverseEncryption (paranoia_settings cm)) (\<lambda>st. sret (Some st))
            else sret (Some (paranoia_settings cm))
     else
       let st = (if configMode = Config_Standard \<or> c \<noteq> 120 then standard_settings cm reverseEncryption
                 else initial_settings) in
       if c = 120 \<or> alg_name (s_alg st) = []
       then sbind (manual_settings H cm nm reverseEncryption st) (\<lambda>st. sret (Some st))
       else sret (Some st))"

text \<open>The configuration of the settings; \<open>VERSION\<close> is that of \<open>msvc/config.h\<close>.\<close>

definition new_config :: "interface \<Rightarrow> settings \<Rightarrow> EncFSConfig" where
  "new_config cipherIface st =
     (EncFSConfig_new (s_keySize st) (s_blockSize st))\<lparr>
        c_cfgType := Config_V6, c_cipherIface := cipherIface, c_nameIface := s_nameIOIface st,
        c_creator := lit ''EncFS 1.7.4'', c_subVersion := V6SubVersion, c_blockMACBytes := s_blockMACBytes st,
        c_blockMACRandBytes := s_blockMACRandBytes st, c_uniqueIV := s_uniqueIV st, c_chainedNameIV := s_chainedIV st,
        c_externalIVChaining := s_externalIV st, c_allowHoles := s_allowHoles st, c_salt := [], c_kdfIterations := 0,
        c_desiredKDFDuration := s_desiredKDFDuration st\<rparr>"

text \<open>
  The end of \<open>createV6Config\<close> and of \<open>initFS\<close>: the name coding and the root.  \<open>idle\<close> is the
  field \<open>idleTracking\<close>, which \<open>initFS\<close> does not set.
\<close>

definition make_root ::
  "'k codings \<Rightarrow> EncFS_Opts \<Rightarrow> bool \<Rightarrow> EncFSConfig \<Rightarrow> 'k cipher \<Rightarrow> 'k \<Rightarrow> ('o, 'k EncFS_Root option) sm" where
  "make_root nm opts idle cfg cipher volumeKey =
     sbind (sres (NameIO_New_iface nm (c_nameIface cfg) cipher volumeKey)) (\<lambda>nameCoder.
     case nameCoder of
       None \<Rightarrow> sret None
     | Some n \<Rightarrow>
         let n = setReverseEncryption (o_reverseEncryption opts) (setChainedNameIV (c_chainedNameIV cfg) n);
             fsConfig = \<lparr>fs_config = cfg, fs_opts = opts, fs_cipher = cipher, fs_key = volumeKey, fs_nameCoding = n,
               fs_forceDecode = o_forceDecode opts, fs_reverseEncryption = o_reverseEncryption opts, fs_idleTracking = idle\<rparr> in
         sret (Some \<lparr>er_cipher = cipher, er_volumeKey = volumeKey, er_root = DirNode_new True (o_rootDir opts) fsConfig\<rparr>))"

text \<open>
  The volume key is drawn with two random buffers.  A null key is followed when it is written.
  The buffer for the encoded key is written completely.
\<close>

definition new_user_key :: "'o host \<Rightarrow> 'k ciphers \<Rightarrow> bool \<Rightarrow> EncFSConfig \<Rightarrow> ('o, 'k option \<times> EncFSConfig) sm" where
  "new_user_key H cm useStdin cfg =
     (if useStdin then getUserKey H cm useStdin cfg
      else sbind (loops (getNewUserKey H cm cfg)) (\<lambda>r. sbind (sres r) (\<lambda>(k, cfg). sret (Some k, cfg))))"

definition createV6Config :: "'o host \<Rightarrow> 'k ciphers \<Rightarrow> 'k codings \<Rightarrow> EncFS_Opts \<Rightarrow> ('o, 'k EncFS_Root option) sm" where
  "createV6Config H cm nm opts =
     sbind (choose_settings H cm nm (o_configMode opts) (o_reverseEncryption opts)) (\<lambda>st.
     case st of
       None \<Rightarrow> sret None
     | Some st \<Rightarrow>
     sbind (sres (Cipher_New_name cm (alg_name (s_alg st)) (s_keySize st))) (\<lambda>cipher.
     case cipher of
       None \<Rightarrow> sret None
     | Some cipher \<Rightarrow>
     sbind (asks (h_drawn H)) (\<lambda>i.
     sbind (asks (h_drawn H)) (\<lambda>_.
     sbind (sres (vt_newRandomKey cipher i)) (\<lambda>volumeKey.
     sbind (new_user_key H cm (o_useStdin opts) (new_config (vt_Interface cipher) st)) (\<lambda>(userKey, cfg).
     case (volumeKey, userKey) of
       (Some volumeKey, Some userKey) \<Rightarrow>
         sbind (sres (vt_writeKey cipher volumeKey (replicate (vt_encodedKeySize cipher) 0) userKey)) (\<lambda>encodedKey.
         let cfg = cfg\<lparr>c_keyData := take (vt_encodedKeySize cipher) encodedKey\<rparr> in
         sbind (saveConfig H Config_V6 (o_rootDir opts) cfg) (\<lambda>ok.
         if \<not> ok then sret None
         else make_root nm opts (o_idleTracking opts) cfg cipher volumeKey))
     | _ \<Rightarrow> sthrow Diverges))))))"

subsection \<open>Opening a volume\<close>

definition has_headers :: "EncFSConfig \<Rightarrow> bool" where
  "has_headers cfg \<longleftrightarrow>
     c_blockMACBytes cfg \<noteq> 0 \<or> c_blockMACRandBytes cfg \<noteq> 0 \<or> c_uniqueIV cfg \<or> c_externalIVChaining cfg \<or> c_chainedNameIV cfg"

text \<open>
  \<open>keySize\<close>, \<open>blockSize\<close> and \<open>idle\<close> are what the memory of a new configuration holds, which its
  constructor leaves as it is.
\<close>

definition open_volume :: "'o host \<Rightarrow> 'k ciphers \<Rightarrow> 'k codings \<Rightarrow> EncFS_Opts \<Rightarrow> bool \<Rightarrow> EncFSConfig \<Rightarrow> ('o, 'k EncFS_Root option) sm" where
  "open_volume H cm nm opts idle cfg =
     (if o_reverseEncryption opts \<and> has_headers cfg then sret None
      else
        sbind (sres (getCipher cm cfg)) (\<lambda>cipher.
        case cipher of
          None \<Rightarrow> sret None
        | Some cipher \<Rightarrow>
        sbind (getUserKey H cm (o_useStdin opts) cfg) (\<lambda>(userKey, cfg).
        case userKey of
          None \<Rightarrow> sret None
        | Some userKey \<Rightarrow>
        sbind (sres (vt_readKey cipher (c_keyData cfg) userKey (o_checkKey opts))) (\<lambda>volumeKey.
        case volumeKey of
          None \<Rightarrow> sret None
        | Some volumeKey \<Rightarrow> make_root nm opts idle cfg cipher volumeKey))))"

definition initFS ::
  "'o host \<Rightarrow> 'k ciphers \<Rightarrow> 'k codings \<Rightarrow> int \<times> int \<times> bool \<Rightarrow> EncFS_Opts \<Rightarrow> ('o, 'k EncFS_Root option) sm" where
  "initFS H cm nm = (\<lambda>(keySize, blockSize, idle) opts.
     sbind (readConfig H cm (o_rootDir opts) (EncFSConfig_new keySize blockSize)) (\<lambda>(type, cfg).
     if type \<noteq> Config_None then open_volume H cm nm opts idle cfg
     else if o_createIfNotFound opts then createV6Config H cm nm opts
     else sret None))"

subsection \<open>The registered algorithms\<close>

text \<open>
  The ciphers over OpenSSL and the name codings, registered before the program starts.  The
  null cipher, whose keys are of another class, is registered as hidden.
\<close>

definition ssl_ciphers :: "evp \<Rightarrow> sslkey ciphers" where
  "ssl_ciphers e =
     Cipher_Register (lit ''AES'') (lit ''16 byte block cipher'') AESInterface AESKeyRange AESBlockRange
       (\<lambda>i n. rbind (NewAESCipher e i n) (\<lambda>sc. Inr (SSL_Cipher e sc))) False
    (Cipher_Register (lit ''Blowfish'') (lit ''8 byte block cipher'') BlowfishInterface BFKeyRange BFBlockRange
       (\<lambda>i n. rbind (NewBFCipher e i n) (\<lambda>sc. Inr (SSL_Cipher e sc))) False [])"

definition name_codings :: "'k codings" where
  "name_codings =
     NameIO_Register (lit ''Null'') (lit ''No encryption of filenames'') NNIOIface NewNNIO False
    (NameIO_Register (lit ''Stream'') (lit ''Stream encoding, keeps filenames as short as possible'')
       StreamNameIO_CurrentInterface NewStreamNameIO False
    (NameIO_Register (lit ''Block'') (lit ''Block encoding, hides file name size somewhat'')
       BlockNameIO_CurrentInterface NewBlockNameIO False []))"

end
