(* ===== verification/NewVolume.thy ===== *)
theory NewVolume
  imports Setup "HOL-Library.Countable"
begin

text \<open>
  What holds of the set-up of a volume (\<open>Setup\<close>): a volume that was created is opened again with
  the same password, \<open>--reverse\<close> excludes headers, and a damaged configuration is replaced.
\<close>

subsection \<open>The ciphers of a volume\<close>

lemma sbind_Inr: "sbind m f w = (Inr y, w') \<longleftrightarrow> (\<exists>x v. m w = (Inr x, v) \<and> f x v = (Inr y, w'))"
  by (auto simp: sbind_def split: sum.splits prod.splits)

lemma basic_Inr:
  "sret x w = (Inr y, w') \<longleftrightarrow> y = x \<and> w' = w"
  "sres r w = (Inr y, w') \<longleftrightarrow> r = Inr y \<and> w' = w"
  "asks f w = (Inr y, w') \<longleftrightarrow> f w = (y, w')"
  "sthrow e w \<noteq> (Inr y, w')"
  "loops g w = (Inr y, w') \<longleftrightarrow> g w = Some (y, w')"
  by (auto simp: sret_def sres_def asks_def sthrow_def loops_def split: sum.splits prod.splits option.splits)

lemmas Inr_simps = sbind_Inr basic_Inr

lemma sbind_at: "m w = (Inr x, v) \<Longrightarrow> sbind m f w = f x v"
  by (simp add: sbind_def)

text \<open>The 192 or 256 bit AES cipher, with any age of the interface.\<close>

definition aes_cipher :: "evp \<Rightarrow> int \<Rightarrow> int \<Rightarrow> sslcipher" where
  "aes_cipher e age keyLen =
     \<lparr>sc_iface = Interface (lit ''ssl/aes'') 3 0 age, sc_realIface = AESInterface,
      sc_blockCipher = (if keyLen = 192 then EVP_aes_192_cbc else EVP_aes_256_cbc),
      sc_streamCipher = (if keyLen = 192 then EVP_aes_192_cfb else EVP_aes_256_cfb),
      sc_keySize = nat (cdiv keyLen 8), sc_ivLength = evp_iv_length e (if keyLen = 192 then EVP_aes_192_cbc else EVP_aes_256_cbc)\<rparr>"

lemma new_aes:
  assumes "evp_ok e" and "keyLen \<in> {192, 256}"
  shows "NewAESCipher e (Interface (lit ''ssl/aes'') 3 0 age) keyLen = Inr (aes_cipher e age keyLen)"
proof -
  have iv: "evp_iv_length e c = 8 \<or> evp_iv_length e c = 16" for c
    using assms(1) by (simp add: evp_ok_def)
  have "range_closest AESKeyRange keyLen = Some keyLen"
    using assms(2) by (subst range_closest.simps) (auto simp: range_allowed_def AESKeyRange_def Range_new_def cmod_def cdiv_def)
  then show ?thesis
    using assms(2) iv [of EVP_aes_192_cbc] iv [of EVP_aes_256_cbc]
    by (auto simp: NewAESCipher_def Let_def SSL_Cipher_new_def aes_cipher_def)
qed

lemma aes_ok:
  assumes "evp_ok e" and "keyLen \<in> {192, 256}"
  shows "ssl_ok e (aes_cipher e age keyLen)" and "0 < sc_keySize (aes_cipher e age keyLen)"
proof -
  have iv: "evp_iv_length e c = 8 \<or> evp_iv_length e c = 16" for c using assms(1) by (simp add: evp_ok_def)
  have "evp_iv_length e c \<le> 16" for c using iv [of c] by auto
  then show "ssl_ok e (aes_cipher e age keyLen)" by (simp add: ssl_ok_def aes_cipher_def evp_stream_def)
  show "0 < sc_keySize (aes_cipher e age keyLen)" using assms(2) by (auto simp: aes_cipher_def cdiv_def)
qed

lemma aes_fields:
  "iface_current (sc_iface (aes_cipher e age keyLen)) = 3" "sc_realIface (aes_cipher e age keyLen) = AESInterface"
  "sc_blockCipher (aes_cipher e age keyLen) = (if keyLen = 192 then EVP_aes_192_cbc else EVP_aes_256_cbc)"
  "sc_streamCipher (aes_cipher e age keyLen) = (if keyLen = 192 then EVP_aes_192_cfb else EVP_aes_256_cfb)"
  "sc_keySize (aes_cipher e age keyLen) = nat (cdiv keyLen 8)"
  "sc_ivLength (aes_cipher e age keyLen) = evp_iv_length e (if keyLen = 192 then EVP_aes_192_cbc else EVP_aes_256_cbc)"
  by (simp_all add: aes_cipher_def)

text \<open>The age makes no difference for the cipher.\<close>

lemma aes_age: "SSL_Cipher e (aes_cipher e age keyLen) = SSL_Cipher e (aes_cipher e 2 keyLen)"
proof -
  have iv: "setIVec e (aes_cipher e age keyLen) = setIVec e (aes_cipher e 2 keyLen)"
    by (rule ext)+ (simp only: setIVec_def setIVec_old_def aes_fields)
  have chk: "ssl_checkKey (aes_cipher e age keyLen) = ssl_checkKey (aes_cipher e 2 keyLen)"
    by (rule ext)+ (simp only: ssl_checkKey_def aes_fields)
  have coding: "ssl_streamEncode e (aes_cipher e age keyLen) = ssl_streamEncode e (aes_cipher e 2 keyLen)"
      "ssl_streamDecode e (aes_cipher e age keyLen) = ssl_streamDecode e (aes_cipher e 2 keyLen)"
      "ssl_blockEncode e (aes_cipher e age keyLen) = ssl_blockEncode e (aes_cipher e 2 keyLen)"
      "ssl_blockDecode e (aes_cipher e age keyLen) = ssl_blockDecode e (aes_cipher e 2 keyLen)"
    by ((rule ext)+, simp only: ssl_streamEncode_def ssl_streamDecode_def ssl_blockEncode_def ssl_blockDecode_def iv chk aes_fields)+
  have new: "ssl_newKey e (aes_cipher e age keyLen) = ssl_newKey e (aes_cipher e 2 keyLen)"
      "ssl_newKey_old e (aes_cipher e age keyLen) = ssl_newKey_old e (aes_cipher e 2 keyLen)"
      "ssl_newRandomKey e (aes_cipher e age keyLen) = ssl_newRandomKey e (aes_cipher e 2 keyLen)"
    by ((rule ext)+, simp only: ssl_newKey_def ssl_newKey_old_def ssl_newRandomKey_def aes_fields)+
  have keys: "ssl_readKey e (aes_cipher e age keyLen) = ssl_readKey e (aes_cipher e 2 keyLen)"
      "ssl_writeKey e (aes_cipher e age keyLen) = ssl_writeKey e (aes_cipher e 2 keyLen)"
      "ssl_compareKey (aes_cipher e age keyLen) = ssl_compareKey (aes_cipher e 2 keyLen)"
    by ((rule ext)+, simp only: ssl_readKey_def ssl_writeKey_def ssl_compareKey_def coding chk aes_fields)+
  show ?thesis unfolding SSL_Cipher_def new coding keys aes_fields ..
qed

lemma ssl_registered:
  "ssl_ciphers e =
     [(lit ''AES'', \<lparr>ca_hidden = False, ca_constructor = (\<lambda>i n. rbind (NewAESCipher e i n) (\<lambda>sc. Inr (SSL_Cipher e sc))),
         ca_description = lit ''16 byte block cipher'', ca_iface = AESInterface, ca_keyLength = AESKeyRange,
         ca_blockSize = AESBlockRange\<rparr>),
      (lit ''Blowfish'', \<lparr>ca_hidden = False, ca_constructor = (\<lambda>i n. rbind (NewBFCipher e i n) (\<lambda>sc. Inr (SSL_Cipher e sc))),
         ca_description = lit ''8 byte block cipher'', ca_iface = BlowfishInterface, ca_keyLength = BFKeyRange,
         ca_blockSize = BFBlockRange\<rparr>)]"
proof -
  have "lit ''AES'' < lit ''Blowfish''" by code_simp
  then show ?thesis by (simp add: ssl_ciphers_def Cipher_Register_def)
qed

lemma aes_by_name:
  assumes "evp_ok e" and "keyLen \<in> {192, 256}"
  shows "Cipher_New_name (ssl_ciphers e) (lit ''AES'') keyLen = Inr (Some (SSL_Cipher e (aes_cipher e 2 keyLen)))"
proof -
  have "mm_find (lit ''AES'') (ssl_ciphers e) = Some (snd (hd (ssl_ciphers e)))"
    by (simp add: mm_find_def ssl_registered)
  then show ?thesis
    using new_aes [OF assms, of 2] by (simp add: Cipher_New_name_def ssl_registered AESInterface_def)
qed

lemma aes_by_iface:
  assumes "evp_ok e" and "keyLen \<in> {192, 256}"
  shows "Cipher_New_iface (ssl_ciphers e) (Interface (lit ''ssl/aes'') 3 0 age) keyLen =
    Inr (Some (SSL_Cipher e (aes_cipher e 2 keyLen)))"
proof -
  have "iface_implements AESInterface (Interface (lit ''ssl/aes'') 3 0 age)"
    by (simp add: iface_implements_def AESInterface_def)
  then show ?thesis
    using new_aes [OF assms, of age] aes_age [of e age keyLen] by (simp add: Cipher_New_iface_def ssl_registered)
qed

lemma aes_found:
  assumes "keyLen \<in> {192, 256}"
  shows "alg_name (findCipherAlgorithm (ssl_ciphers e) (lit ''AES'') keyLen) = lit ''AES''"
proof -
  have "range_allowed AESKeyRange keyLen"
    using assms by (auto simp: range_allowed_def AESKeyRange_def Range_new_def cmod_def cdiv_def)
  then show ?thesis by (simp add: findCipherAlgorithm_def Cipher_GetAlgorithmList_def ssl_registered)
qed

text \<open>The coding of the file names is that of the cipher and the key.\<close>

lemma block_coding_age:
  "NameIO_New_iface name_codings (Interface (lit ''nameio/block'') 3 0 age) cipher key =
     rbind (BlockNameIO BlockNameIO_CurrentInterface cipher key (vt_cipherBlockSize cipher)) (\<lambda>n. Inr (Some n))"
proof -
  have le: "lit ''Block'' < lit ''Stream''" "lit ''Block'' < lit ''Null''" "lit ''Null'' < lit ''Stream''" by code_simp+
  have "iface_implements BlockNameIO_CurrentInterface (Interface (lit ''nameio/block'') 3 0 age)"
    by (simp add: implements_range BlockNameIO_CurrentInterface_def)
  then show ?thesis
    using le by (auto simp: NameIO_New_iface_def name_codings_def NameIO_Register_def NewBlockNameIO_def BlockNameIO_def
        BlockNameIO_CurrentInterface_def)
qed

subsection \<open>The key of a password\<close>

lemma TimedPBKDF2_result:
  assumes "TimedPBKDF2_loop e pass salt keylen t n i = Some (Some (it, k))"
  shows "evp_pbkdf2 e pass salt it keylen = Some k"
proof -
  have "case Some (it, k) of None \<Rightarrow> True | Some (it, k) \<Rightarrow> evp_pbkdf2 e pass salt it keylen = Some k"
    by (rule TimedPBKDF2_loop.raw_induct [where P = "\<lambda>e pass salt keylen t n i r.
      case r of None \<Rightarrow> True | Some (it, k) \<Rightarrow> evp_pbkdf2 e pass salt it keylen = Some k", OF _ assms])
      (force simp: Let_def split: option.splits if_splits)
  then show ?thesis by simp
qed

definition no_salt :: "EncFSConfig \<Rightarrow> EncFSConfig" where
  "no_salt cfg = cfg\<lparr>c_salt := [], c_kdfIterations := 0\<rparr>"

text \<open>The configuration records how the key was made: the next time the same comes out.\<close>

definition key_of :: "'k cipher \<Rightarrow> bytes \<Rightarrow> EncFSConfig \<Rightarrow> 'k \<Rightarrow> bool" where
  "key_of c password cfg k \<longleftrightarrow> c_salt cfg \<noteq> [] \<and> c_kdfIterations cfg \<noteq> 0 \<and>
     vt_newKey c password (c_kdfIterations cfg) (c_desiredKDFDuration cfg) (c_salt cfg) = Inr (Some k, c_kdfIterations cfg)"

lemma makeKey_again:
  assumes "key_of c password cfg k" and "getCipher cm cfg = Inr (Some c)"
  shows "makeKey H cm password cfg w = (Inr (Some k, cfg), w)"
  using assms by (simp add: key_of_def makeKey_def sbind_def sres_def sret_def)

lemma ssl_newKey_again:
  assumes "evp_ok e" and "ssl_newKey e sc password 0 d salt = Inr (Some k, n)"
  shows "n \<noteq> 0 \<and> ssl_newKey e sc password n d salt = Inr (Some k, n) \<and> ssl_key_ok sc k"
proof -
  obtain key where t: "TimedPBKDF2 e password salt (sc_keySize sc + sc_ivLength sc) (1000 * d) = Some (Some (n, key))" "0 < n"
      "k = initKey (SSLKey_new (sc_keySize sc) (sc_ivLength sc)\<lparr>sk_buffer := key\<rparr>) (sc_blockCipher sc) (sc_streamCipher sc) (sc_keySize sc)"
    using assms(2) by (auto simp: ssl_newKey_def Let_def split: option.splits if_splits)
  have p: "evp_pbkdf2 e password salt n (sc_keySize sc + sc_ivLength sc) = Some key"
    using t(1) unfolding TimedPBKDF2_def by (rule TimedPBKDF2_result)
  then have "length key = sc_keySize sc + sc_ivLength sc" using assms(1) by (auto simp: evp_ok_def)
  then show ?thesis using t(2,3) p by (auto simp: ssl_newKey_def Let_def intro: initKey_ok)
qed

lemma makeKey_new:
  assumes "evp_ok e" and "getCipher cm cfg = Inr (Some (SSL_Cipher e sc))" and "c_cfgType cfg = Config_V6" and "c_kdfIterations cfg = 0"
    and "makeKey H cm password cfg w = (Inr (ko, cfg'), w')"
  shows "no_salt cfg' = no_salt cfg \<and>
    (case ko of None \<Rightarrow> c_kdfIterations cfg' = 0 | Some k \<Rightarrow> key_of (SSL_Cipher e sc) password cfg' k \<and> ssl_key_ok sc k)"
proof -
  define n where "n = (if c_salt cfg = [] then 20 else length (c_salt cfg))"
  obtain i v where i: "h_drawn H w = (i, v)" by (cases "h_drawn H w")
  obtain ok salt where r: "ssl_randomize e n True i = (ok, salt)" by (cases "ssl_randomize e n True i")
  have "length (snd (evp_rand e True n i)) = n" using assms(1) by (simp add: evp_ok_def)
  then have "length salt = n" using r by (auto simp: ssl_randomize_def split: prod.splits)
  then have salt: "salt \<noteq> []" by (auto simp: n_def split: if_splits)
  have body: "makeKey H cm password cfg w =
      (if \<not> ok then sret (None, cfg\<lparr>c_salt := salt\<rparr>)
       else sbind (sres (ssl_newKey e sc password 0 (c_desiredKDFDuration cfg) salt)) (\<lambda>(k, iterations).
         sret (k, cfg\<lparr>c_salt := salt, c_kdfIterations := iterations\<rparr>))) v"
    using assms(2-4) i r
    by (auto simp: makeKey_def n_def sbind_def sres_def asks_def sret_def Let_def SSL_Cipher_def split: sum.splits)
  show ?thesis
  proof (cases ok)
    case False
    then show ?thesis using assms(4,5) by (auto simp: body Inr_simps no_salt_def)
  next
    case True
    then obtain iterations where new: "ssl_newKey e sc password 0 (c_desiredKDFDuration cfg) salt = Inr (ko, iterations)"
        and cfg': "cfg' = cfg\<lparr>c_salt := salt, c_kdfIterations := iterations\<rparr>"
      using assms(5) by (auto simp: body Inr_simps)
    have same: "no_salt cfg' = no_salt cfg" by (simp add: cfg' no_salt_def)
    show ?thesis
    proof (cases ko)
      case None
      then have "iterations = 0" using new by (auto simp: ssl_newKey_def Let_def split: option.splits if_splits)
      then show ?thesis using None same by (simp add: cfg')
    next
      case (Some k)
      have "iterations \<noteq> 0 \<and> ssl_newKey e sc password iterations (c_desiredKDFDuration cfg) salt = Inr (Some k, iterations) \<and>
          ssl_key_ok sc k"
        using ssl_newKey_again [OF assms(1)] new Some by blast
      then show ?thesis using Some same salt by (simp add: cfg' key_of_def SSL_Cipher_def)
    qed
  qed
qed

lemma no_salt_fields:
  assumes "no_salt cfg' = no_salt cfg"
  shows "c_cfgType cfg' = c_cfgType cfg" and "c_cipherIface cfg' = c_cipherIface cfg" and "c_nameIface cfg' = c_nameIface cfg"
    and "c_keySize cfg' = c_keySize cfg" and "c_subVersion cfg' = c_subVersion cfg" and "c_chainedNameIV cfg' = c_chainedNameIV cfg"
    and "c_desiredKDFDuration cfg' = c_desiredKDFDuration cfg" and "has_headers cfg' = has_headers cfg"
    and "getCipher cm cfg' = getCipher cm cfg"
proof -
  have same: "f (no_salt cfg') = f (no_salt cfg)" for f :: "EncFSConfig \<Rightarrow> 'a" by (simp only: assms)
  show "c_cfgType cfg' = c_cfgType cfg" "c_cipherIface cfg' = c_cipherIface cfg" "c_nameIface cfg' = c_nameIface cfg"
      "c_keySize cfg' = c_keySize cfg" "c_subVersion cfg' = c_subVersion cfg" "c_chainedNameIV cfg' = c_chainedNameIV cfg"
      "c_desiredKDFDuration cfg' = c_desiredKDFDuration cfg" "has_headers cfg' = has_headers cfg" "getCipher cm cfg' = getCipher cm cfg"
    using arg_cong [OF assms, of c_cfgType] arg_cong [OF assms, of c_cipherIface] arg_cong [OF assms, of c_nameIface]
      arg_cong [OF assms, of c_keySize] arg_cong [OF assms, of c_subVersion] arg_cong [OF assms, of c_chainedNameIV]
      arg_cong [OF assms, of c_desiredKDFDuration] arg_cong [OF assms, of has_headers] arg_cong [OF assms, of "getCipher cm"]
    by (simp_all add: no_salt_def has_headers_def getCipher_def)
qed

subsection \<open>A disk and a keyboard\<close>

text \<open>
  A system on which writing works: the files, what is left of the input, and the number of random
  buffers that were drawn.  At the prompt for a password the same text is always typed.
\<close>

record disk =
  d_files :: "bytes \<Rightarrow> bytes option"
  d_input :: bytes
  d_drawn :: nat

fun read_line :: "nat \<Rightarrow> bytes \<Rightarrow> bytes \<times> bytes" where
  "read_line 0 input = ([], input)"
| "read_line (Suc n) [] = ([], [])"
| "read_line (Suc n) (x # input) = (if x = 10 then ([x], input) else case read_line n input of (line, rest) \<Rightarrow> (x # line, rest))"

definition disk_host ::
  "(bytes \<Rightarrow> bytes option) \<Rightarrow> bytes \<Rightarrow> (int \<Rightarrow> (string \<times> nv) list \<Rightarrow> bytes) \<Rightarrow> (bytes \<Rightarrow> (int \<times> (string \<times> nv) list) option) \<Rightarrow> disk host" where
  "disk_host env typed xml_write xml_read =
     \<lparr>h_getenv = env,
      h_lstat = (\<lambda>path w. ((if d_files w path = None then -1 else 0, \<lparr>st_mode = 0x8000, st_size = 0\<rparr>), w)),
      h_mkdir = (\<lambda>path mode w. (0, w)),
      h_read = (\<lambda>path w. (d_files w path, w)),
      h_write = (\<lambda>path b w. (True, w\<lparr>d_files := (d_files w)(path \<mapsto> b)\<rparr>)),
      h_overwrite = (\<lambda>path b w. (True, w\<lparr>d_files := (d_files w)(path \<mapsto>
        b @ (case d_files w path of None \<Rightarrow> [] | Some old \<Rightarrow> drop (length b) old))\<rparr>)),
      h_fgets = (\<lambda>n w. if d_input w = [] then (None, w)
        else case read_line (n - 1) (d_input w) of (line, rest) \<Rightarrow> (Some line, w\<lparr>d_input := rest\<rparr>)),
      h_readpassphrase = (\<lambda>n w. (Some (take (n - 1) typed), w)),
      h_drawn = (\<lambda>w. (d_drawn w, w\<lparr>d_drawn := Suc (d_drawn w)\<rparr>)),
      h_xml_write = xml_write,
      h_xml_read = xml_read\<rparr>"

lemma makeKey_files:
  assumes "makeKey (disk_host env typed xw xr) cm password cfg w = (r, w')"
  shows "d_files w' = d_files w"
  using assms
  by (auto simp: makeKey_def sbind_def sres_def asks_def sret_def sthrow_def Let_def disk_host_def split: sum.splits prod.splits option.splits if_splits)

text \<open>A new key and the key of the volume when it is opened come from the same password.\<close>

lemma getNewUserKey_password:
  assumes "evp_ok e"
    and "getNewUserKey (disk_host env typed xw xr) cm cfg w = Some (Inr (k, cfg'), w')"
    and "getCipher cm cfg = Inr (Some (SSL_Cipher e sc))" and "c_cfgType cfg = Config_V6" and "c_kdfIterations cfg = 0"
  shows "no_salt cfg' = no_salt cfg \<and> key_of (SSL_Cipher e sc) (cstr (take (MaxPassBuf - 2) typed)) cfg' k \<and> ssl_key_ok sc k \<and>
    d_files w' = d_files w"
proof -
  let ?H = "disk_host env typed xw xr"
  let ?p = "cstr (take (MaxPassBuf - 2) typed)"
  let ?ok = "\<lambda>cfg. getCipher cm cfg = Inr (Some (SSL_Cipher e sc)) \<and> c_cfgType cfg = Config_V6 \<and> c_kdfIterations cfg = 0"
  let ?Q = "\<lambda>cfg (w :: disk) (r :: (sslkey \<times> EncFSConfig) res) (w' :: disk). case r of Inl e \<Rightarrow> True | Inr (k, cfg') \<Rightarrow>
      no_salt cfg' = no_salt cfg \<and> key_of (SSL_Cipher e sc) ?p cfg' k \<and> ssl_key_ok sc k \<and> d_files w' = d_files w"
  have "?H = ?H \<longrightarrow> cm = cm \<longrightarrow> ?ok cfg \<longrightarrow> ?Q cfg w (fst (Inr (k, cfg'), w')) (snd (Inr (k, cfg') :: (sslkey \<times> EncFSConfig) res, w'))"
  proof (rule getNewUserKey.raw_induct [where P = "\<lambda>H' cm' cfg w r. H' = ?H \<longrightarrow> cm' = cm \<longrightarrow> ?ok cfg \<longrightarrow>
        ?Q cfg w (fst r) (snd r)", OF _ assms(2)])
    fix rec :: "disk host \<Rightarrow> sslkey ciphers \<Rightarrow> EncFSConfig \<Rightarrow> disk \<Rightarrow> ((sslkey \<times> EncFSConfig) res \<times> disk) option"
    fix H' cm' cfg w r
    assume IH: "\<And>H' cm' cfg w r. rec H' cm' cfg w = Some r \<Longrightarrow> H' = ?H \<longrightarrow> cm' = cm \<longrightarrow> ?ok cfg \<longrightarrow> ?Q cfg w (fst r) (snd r)"
      and body: "(case h_readpassphrase H' (MaxPassBuf - 1) w of (res1, w) \<Rightarrow>
          case h_readpassphrase H' (MaxPassBuf - 1) w of (res2, w) \<Rightarrow>
          if res1 \<noteq> None \<and> res2 \<noteq> None \<and> map_option cstr res1 = map_option cstr res2
          then case makeKey H' cm' (cstr (the res1)) cfg w of
                 (Inl e, w) \<Rightarrow> Some (Inl e, w)
               | (Inr (Some k, cfg), w) \<Rightarrow> Some (Inr (k, cfg), w)
               | (Inr (None, cfg), w) \<Rightarrow> rec H' cm' cfg w
          else rec H' cm' cfg w) = Some r"
    show "H' = ?H \<longrightarrow> cm' = cm \<longrightarrow> ?ok cfg \<longrightarrow> ?Q cfg w (fst r) (snd r)"
    proof (intro impI)
      assume [simp]: "H' = ?H" "cm' = cm" and ok: "?ok cfg"
      obtain m v where m: "makeKey ?H cm ?p cfg w = (m, v)" by (cases "makeKey ?H cm ?p cfg w")
      have files: "d_files v = d_files w" using makeKey_files [OF m] .
      have step: "(case m of Inl e \<Rightarrow> Some (Inl e, v) | Inr (Some k, cfg) \<Rightarrow> Some (Inr (k, cfg), v) | Inr (None, cfg) \<Rightarrow> rec ?H cm cfg v) = Some r"
        using body m by (auto simp: disk_host_def MaxPassBuf_def split: sum.splits option.splits prod.splits)
      show "?Q cfg w (fst r) (snd r)"
      proof (cases m)
        case (Inl e)
        then show ?thesis using step by auto
      next
        case (Inr kc)
        obtain ko c where kc: "kc = (ko, c)" by (cases kc)
        note new = makeKey_new [OF assms(1) conjunct1 [OF ok] conjunct1 [OF conjunct2 [OF ok]] conjunct2 [OF conjunct2 [OF ok]]
            m [unfolded Inr kc]]
        show ?thesis
        proof (cases ko)
          case None
          then have "rec ?H cm c v = Some r" using step Inr kc by simp
          then have "?Q c v (fst r) (snd r)"
            using IH [of ?H cm c v r] new None ok by (simp add: no_salt_fields(1,9) [of c cfg])
          then show ?thesis using new files by (auto split: sum.splits)
        next
          case (Some k)
          then show ?thesis using step new files Inr kc by auto
        qed
      qed
    qed
  qed
  then show ?thesis using assms(3-5) by simp
qed

lemma disk_simps:
  "h_getenv (disk_host env typed xw xr) = env"
  "h_lstat (disk_host env typed xw xr) path w = ((if d_files w path = None then -1 else 0, \<lparr>st_mode = 0x8000, st_size = 0\<rparr>), w)"
  "h_read (disk_host env typed xw xr) path w = (d_files w path, w)"
  "h_write (disk_host env typed xw xr) path b w = (True, w\<lparr>d_files := (d_files w)(path \<mapsto> b)\<rparr>)"
  "h_drawn (disk_host env typed xw xr) w = (d_drawn w, w\<lparr>d_drawn := Suc (d_drawn w)\<rparr>)"
  "h_xml_write (disk_host env typed xw xr) = xw" "h_xml_read (disk_host env typed xw xr) = xr"
  by (simp_all add: disk_host_def)

lemma new_user_key_password:
  assumes "evp_ok e" and "length typed < MaxPassBuf - 1"
    and "new_user_key (disk_host env typed xw xr) cm useStdin cfg w = (Inr (Some k, cfg'), w')"
    and "getCipher cm cfg = Inr (Some (SSL_Cipher e sc))" and "c_cfgType cfg = Config_V6" and "c_kdfIterations cfg = 0"
  shows "\<exists>password. no_salt cfg' = no_salt cfg \<and> key_of (SSL_Cipher e sc) password cfg' k \<and> ssl_key_ok sc k \<and> d_files w' = d_files w \<and>
    (\<forall>v cfg0. d_input v = d_input w \<longrightarrow> (\<exists>v'. d_files v' = d_files v \<and>
       getUserKey (disk_host env typed xw xr) cm useStdin cfg0 v = makeKey (disk_host env typed xw xr) cm password cfg0 v'))"
proof (cases useStdin)
  case True
  obtain line rest where line: "read_line 511 (d_input w) = (line, rest)" by (cases "read_line 511 (d_input w)")
  let ?w = "w\<lparr>d_input := rest\<rparr>"
  have mk: "d_input w \<noteq> []" "makeKey (disk_host env typed xw xr) cm (password_of line) cfg ?w = (Inr (Some k, cfg'), w')"
    using assms(3) True line
    by (auto simp: new_user_key_def getUserKey_def Inr_simps disk_host_def MaxPassBuf_def split: if_splits)
  have "getUserKey (disk_host env typed xw xr) cm useStdin cfg0 v =
      makeKey (disk_host env typed xw xr) cm (password_of line) cfg0 (v\<lparr>d_input := rest\<rparr>)" if "d_input v = d_input w" for v cfg0
    using True line mk(1) that by (simp add: getUserKey_def sbind_def asks_def sret_def disk_host_def MaxPassBuf_def)
  then have "\<forall>v cfg0. d_input v = d_input w \<longrightarrow> (\<exists>v'. d_files v' = d_files v \<and>
       getUserKey (disk_host env typed xw xr) cm useStdin cfg0 v = makeKey (disk_host env typed xw xr) cm (password_of line) cfg0 v')"
    by (metis disk.select_convs(1) disk.surjective disk.update_convs(2))
  then show ?thesis
    using makeKey_new [OF assms(1,4,5,6) mk(2)] makeKey_files [OF mk(2)] by auto
next
  case False
  have "getNewUserKey (disk_host env typed xw xr) cm cfg w = Some (Inr (k, cfg'), w')"
    using assms(3) False by (auto simp: new_user_key_def Inr_simps)
  note new = getNewUserKey_password [OF assms(1) this assms(4-6)]
  have t: "take (MaxPassBuf - 2) typed = typed" "take (MaxPassBuf - 1) typed = typed" using assms(2) by simp_all
  have "getUserKey (disk_host env typed xw xr) cm useStdin cfg0 v = makeKey (disk_host env typed xw xr) cm (cstr typed) cfg0 v" for v cfg0
    using False t by (simp add: getUserKey_def sbind_def asks_def sret_def disk_host_def)
  then show ?thesis using new t by metis
qed

subsection \<open>The standard and the paranoia mode\<close>

definition predefined :: "bool \<Rightarrow> settings \<Rightarrow> bool" where
  "predefined reverse st \<longleftrightarrow> alg_name (s_alg st) = lit ''AES'' \<and> s_keySize st \<in> {192, 256} \<and>
     s_nameIOIface st = BlockNameIO_CurrentInterface \<and>
     (reverse \<longrightarrow> s_blockMACBytes st = 0 \<and> s_blockMACRandBytes st = 0 \<and> \<not> s_uniqueIV st \<and> \<not> s_externalIV st \<and> \<not> s_chainedIV st)"

lemma choose_predefined:
  assumes "configMode \<noteq> Config_Prompt" and "choose_settings H (ssl_ciphers e) nm configMode reverse w = (Inr (Some st), w')"
  shows "w' = w \<and> predefined reverse st"
proof -
  have ne: "lit ''AES'' \<noteq> []" by (simp add: lit_def)
  have names: "alg_name (s_alg (paranoia_settings (ssl_ciphers e))) = lit ''AES''"
      "alg_name (s_alg (standard_settings (ssl_ciphers e) reverse)) = lit ''AES''"
    by (simp_all add: paranoia_settings_def standard_settings_def aes_found)
  have "configMode = Config_Paranoia \<or> configMode = Config_Standard" using assms(1) by (cases configMode) auto
  then show ?thesis
  proof
    assume p: "configMode = Config_Paranoia"
    then have "w' = w \<and> st = paranoia_settings (ssl_ciphers e) \<and> \<not> reverse"
      using assms(2) ne by (auto simp: choose_settings_def names sbind_def sret_def Let_def split: if_splits)
    then show ?thesis using names(1) by (simp add: predefined_def) (simp add: paranoia_settings_def)
  next
    assume p: "configMode = Config_Standard"
    then have "w' = w \<and> st = standard_settings (ssl_ciphers e) reverse"
      using assms(2) ne by (auto simp: choose_settings_def names sbind_def sret_def Let_def split: if_splits)
    then show ?thesis using names(2) by (simp add: predefined_def) (simp add: standard_settings_def)
  qed
qed

lemma random_key_ok:
  assumes "evp_ok e" and "ssl_newRandomKey e sc i = Inr (Some k)"
  shows "ssl_key_ok sc k \<and>
    initKey ((SSLKey_new (sc_keySize sc) (sc_ivLength sc))\<lparr>sk_buffer := sk_buffer k\<rparr>) (sc_blockCipher sc) (sc_streamCipher sc) (sc_keySize sc) = k"
proof -
  obtain p s buf where "evp_pbkdf2 e p s 1000 (sc_keySize sc + sc_ivLength sc) = Some buf"
      and k: "k = initKey ((SSLKey_new (sc_keySize sc) (sc_ivLength sc))\<lparr>sk_buffer := buf\<rparr>) (sc_blockCipher sc) (sc_streamCipher sc) (sc_keySize sc)"
    using assms(2) by (auto simp: ssl_newRandomKey_def split: prod.splits if_splits option.splits)
  then have "length buf = sc_keySize sc + sc_ivLength sc" using assms(1) by (auto simp: evp_ok_def)
  moreover have "sk_buffer k = buf" by (simp add: k initKey_def)
  ultimately show ?thesis using initKey_ok [of buf sc] by (simp add: k)
qed

text \<open>The configuration file, which an environment variable can name.\<close>

definition config_path :: "(bytes \<Rightarrow> bytes option) \<Rightarrow> bytes \<Rightarrow> bytes" where
  "config_path env rootDir =
     (case env (lit ''ENCFS6_CONFIG'') of Some f \<Rightarrow> f | None \<Rightarrow> rootDir @ lit ''.encfs6.xml'')"

lemma saveConfig_disk:
  "saveConfig (disk_host env typed xw xr) Config_V6 rootDir cfg w =
     (Inr True, w\<lparr>d_files := (d_files w)(config_path env rootDir \<mapsto> xw 20 (save_v6 cfg))\<rparr>)"
  by (simp add: saveConfig_def ConfigFileMapping_def saveFunc_def scatch_def asks_def writeV6Config_def disk_simps config_path_def
      split: option.splits)

lemma readConfig_disk:
  assumes "d_files w (config_path env rootDir) = Some contents"
  shows "readConfig (disk_host env typed xw xr) cm rootDir cfg w =
    (case readV6Config (disk_host env typed xw xr) cm (Some contents) cfg of
       (Inr True, cfg) \<Rightarrow> (Inr (Config_V6, cfg\<lparr>c_cfgType := Config_V6\<rparr>), w)
     | (Inr False, cfg) \<Rightarrow> (Inr (Config_None, cfg), w)
     | (Inl e, cfg) \<Rightarrow> if e = Diverges then (Inl e, w) else (Inr (Config_None, cfg), w))"
  using assms
  by (auto simp: readConfig_def ConfigFileMapping_def readConfig_load_def loadFunc_def sbind_def asks_def sret_def sthrow_def fileExists_def
      Let_def disk_simps config_path_def split: option.splits sum.splits prod.splits bool.splits)

lemma case_Inr:
  "(case x of None \<Rightarrow> sthrow e | Some y \<Rightarrow> f y) w = (Inr r, w') \<longleftrightarrow> (\<exists>y. x = Some y \<and> f y w = (Inr r, w'))"
  "(case x of None \<Rightarrow> sret None | Some y \<Rightarrow> g y) w = (Inr (Some r'), w') \<longleftrightarrow> (\<exists>y. x = Some y \<and> g y w = (Inr (Some r'), w'))"
  by (auto simp: basic_Inr split: option.splits)

lemma make_root_state: "make_root nm opts idle cfg c k w = (Inr r, w') \<Longrightarrow> w' = w"
  by (auto simp: make_root_def Inr_simps Let_def split: option.splits)

text \<open>What a successful creation leaves: the volume key, the two configurations and the file.\<close>

lemma created:
  assumes e: "evp_ok e" and "o_configMode opts \<noteq> Config_Prompt" and len: "length typed < MaxPassBuf - 1"
    and "createV6Config (disk_host env typed xw xr) (ssl_ciphers e) name_codings opts w = (Inr (Some root), w')"
  shows "\<exists>keyLen vk uk cfg password. keyLen \<in> {192, 256} \<and>
    make_root name_codings opts (o_idleTracking opts) cfg (SSL_Cipher e (aes_cipher e 2 keyLen)) vk w' = (Inr (Some root), w') \<and>
    d_files w' = (d_files w)(config_path env (o_rootDir opts) \<mapsto> xw 20 (save_v6 cfg)) \<and>
    c_cipherIface cfg = AESInterface \<and> c_nameIface cfg = BlockNameIO_CurrentInterface \<and> c_keySize cfg = keyLen \<and>
    c_subVersion cfg = V6SubVersion \<and> c_cfgType cfg = Config_V6 \<and> (o_reverseEncryption opts \<longrightarrow> \<not> has_headers cfg) \<and>
    key_of (SSL_Cipher e (aes_cipher e 2 keyLen)) password cfg uk \<and>
    length (c_keyData cfg) = vt_encodedKeySize (SSL_Cipher e (aes_cipher e 2 keyLen)) \<and>
    ssl_readKey e (aes_cipher e 2 keyLen) (c_keyData cfg) uk (o_checkKey opts) = Inr (Some vk) \<and>
    (\<forall>v cfg0. d_input v = d_input w \<longrightarrow> (\<exists>v'. d_files v' = d_files v \<and>
       getUserKey (disk_host env typed xw xr) (ssl_ciphers e) (o_useStdin opts) cfg0 v =
       makeKey (disk_host env typed xw xr) (ssl_ciphers e) password cfg0 v'))"
proof -
  let ?H = "disk_host env typed xw xr"
  obtain so v where so: "choose_settings ?H (ssl_ciphers e) (name_codings :: sslkey codings) (o_configMode opts) (o_reverseEncryption opts) w = (Inr so, v)"
    using assms(4) unfolding createV6Config_def sbind_Inr by fast
  obtain st where "so = Some st"
    using assms(4) by (cases so) (simp_all add: createV6Config_def sbind_def so sret_def)
  with so have "choose_settings ?H (ssl_ciphers e) (name_codings :: sslkey codings) (o_configMode opts) (o_reverseEncryption opts) w = (Inr (Some st), v)"
    by simp
  with choose_predefined [OF assms(2) this]
  have st: "choose_settings ?H (ssl_ciphers e) (name_codings :: sslkey codings) (o_configMode opts) (o_reverseEncryption opts) w = (Inr (Some st), w)"
      and pre: "predefined (o_reverseEncryption opts) st" by simp_all
  let ?sc = "aes_cipher e 2 (s_keySize st)"
  let ?c = "SSL_Cipher e ?sc"
  have kl: "s_keySize st \<in> {192, 256}" and alg: "alg_name (s_alg st) = lit ''AES''" using pre by (simp_all add: predefined_def)
  have iface: "vt_Interface ?c = AESInterface" by (simp add: SSL_Cipher_def aes_fields)
  let ?cfg = "new_config AESInterface st"
  let ?w1 = "w\<lparr>d_drawn := Suc (Suc (d_drawn w))\<rparr>"
  have vt: "vt_newRandomKey ?c = ssl_newRandomKey e ?sc" "vt_writeKey ?c = ssl_writeKey e ?sc"
    by (simp_all add: SSL_Cipher_def)
  obtain vk uk cfg1 key w2 where vk: "ssl_newRandomKey e ?sc (d_drawn w) = Inr (Some vk)"
      and uk: "new_user_key ?H (ssl_ciphers e) (o_useStdin opts) ?cfg ?w1 = (Inr (Some uk, cfg1), w2)"
      and key: "ssl_writeKey e ?sc vk (replicate (vt_encodedKeySize ?c) 0) uk = Inr key"
      and root0: "make_root name_codings opts (o_idleTracking opts) (cfg1\<lparr>c_keyData := take (vt_encodedKeySize ?c) key\<rparr>) ?c vk
        (w2\<lparr>d_files := (d_files w2)(config_path env (o_rootDir opts) \<mapsto> xw 20 (save_v6 (cfg1\<lparr>c_keyData := take (vt_encodedKeySize ?c) key\<rparr>)))\<rparr>) =
        (Inr (Some root), w')"
    using assms(4)
    by (auto simp: createV6Config_def Inr_simps st alg aes_by_name [OF e kl] disk_simps iface vt saveConfig_disk Let_def case_Inr)
  have cc: "getCipher (ssl_ciphers e) ?cfg = Inr (Some ?c)" "c_cfgType ?cfg = Config_V6" "c_kdfIterations ?cfg = 0"
    by (simp_all add: getCipher_def new_config_def EncFSConfig_new_def AESInterface_def aes_by_iface [OF e kl])
  obtain password where pw: "no_salt cfg1 = no_salt ?cfg" "key_of ?c password cfg1 uk" "ssl_key_ok ?sc uk" "d_files w2 = d_files w"
      and again: "\<And>v cfg0. d_input v = d_input w \<Longrightarrow> \<exists>v'. d_files v' = d_files v \<and>
        getUserKey ?H (ssl_ciphers e) (o_useStdin opts) cfg0 v = makeKey ?H (ssl_ciphers e) password cfg0 v'"
    using new_user_key_password [OF e len uk cc] by auto
  obtain key' where "ssl_writeKey e ?sc vk (replicate (vt_encodedKeySize ?c) 0) uk = Inr key'"
      and stored: "length key' = vt_encodedKeySize ?c" "ssl_readKey e ?sc key' uk (o_checkKey opts) = Inr (Some vk)"
    using ssl_key_stored [OF e aes_ok(1) [OF e kl] conjunct1 [OF random_key_ok [OF e vk]] pw(3) aes_ok(2) [OF e kl], of "replicate (vt_encodedKeySize ?c) 0"
        "o_checkKey opts"] random_key_ok [OF e vk] by auto
  then have key': "key' = key" using key by simp
  let ?cfg2 = "cfg1\<lparr>c_keyData := take (vt_encodedKeySize ?c) key\<rparr>"
  have w': "w' = w2\<lparr>d_files := (d_files w2)(config_path env (o_rootDir opts) \<mapsto> xw 20 (save_v6 ?cfg2))\<rparr>"
    using make_root_state [OF root0] .
  have "make_root name_codings opts (o_idleTracking opts) ?cfg2 ?c vk w' = (Inr (Some root), w')"
    using root0 unfolding w' by simp
  moreover have "d_files w' = (d_files w)(config_path env (o_rootDir opts) \<mapsto> xw 20 (save_v6 ?cfg2))"
    by (simp add: w' pw(4))
  moreover have "c_cipherIface ?cfg2 = AESInterface" "c_nameIface ?cfg2 = BlockNameIO_CurrentInterface" "c_keySize ?cfg2 = s_keySize st"
      "c_subVersion ?cfg2 = V6SubVersion" "c_cfgType ?cfg2 = Config_V6"
    using no_salt_fields(1-5) [OF pw(1)] pre by (simp_all add: new_config_def EncFSConfig_new_def predefined_def)
  moreover have "o_reverseEncryption opts \<Longrightarrow> \<not> has_headers ?cfg2"
    using no_salt_fields(8) [OF pw(1)] pre by (simp add: has_headers_def new_config_def predefined_def)
  moreover have "key_of ?c password ?cfg2 uk" using pw(2) by (simp add: key_of_def)
  moreover have "length (c_keyData ?cfg2) = vt_encodedKeySize ?c" "ssl_readKey e ?sc (c_keyData ?cfg2) uk (o_checkKey opts) = Inr (Some vk)"
    using stored by (simp_all add: key')
  ultimately show ?thesis using kl again by blast
qed

lemma getCipher_aes:
  assumes "evp_ok e" and "c_keySize cfg \<in> {192, 256}" and "iface_name (c_cipherIface cfg) = lit ''ssl/aes''"
    and "iface_current (c_cipherIface cfg) = 3" and "iface_revision (c_cipherIface cfg) = 0"
  shows "getCipher (ssl_ciphers e) cfg = Inr (Some (SSL_Cipher e (aes_cipher e 2 (c_keySize cfg))))"
proof (cases "c_cipherIface cfg")
  case (Interface n c r a)
  then show ?thesis using assms aes_by_iface [OF assms(1,2)] by (simp add: getCipher_def)
qed

text \<open>The root differs in the configuration and in the flag for idle tracking only.\<close>

lemma make_root_again:
  assumes "make_root name_codings opts idle0 cfg c vk w = (Inr (Some root), w)"
    and "c_nameIface cfg = BlockNameIO_CurrentInterface" and "c_chainedNameIV cfg' = c_chainedNameIV cfg"
    and "c_nameIface cfg' = Interface (lit ''nameio/block'') 3 0 age"
  shows "make_root name_codings opts idle cfg' c vk v = (Inr (Some (root\<lparr>er_root := (er_root root)\<lparr>dn_cfg :=
    (dn_cfg (er_root root))\<lparr>fs_config := cfg', fs_idleTracking := idle\<rparr>\<rparr>\<rparr>)), v)"
proof -
  have n: "NameIO_New_iface name_codings (c_nameIface cfg') c vk = NameIO_New_iface name_codings (c_nameIface cfg) c vk"
    unfolding assms(2,4) BlockNameIO_CurrentInterface_def block_coding_age ..
  obtain nc where nc: "NameIO_New_iface name_codings (c_nameIface cfg) c vk = Inr (Some nc)"
    using assms(1) by (auto simp: make_root_def Inr_simps case_Inr)
  then show ?thesis
    using assms(1) unfolding make_root_def n nc
    by (auto simp: sbind_def sres_def sret_def assms(3) Let_def DirNode_new_def)
qed

text \<open>
  C3: a volume that was created in the standard or the paranoia mode is opened again with the same
  password, typed at the prompt or sent to the standard input: the cipher, the volume key, the
  coding of names and the root directory are those of the creation, and so is the configuration,
  but for the ages of the two interfaces.
\<close>
theorem created_volume_opens:
  assumes "evp_ok e" and "\<And>version items. xr (xw version items) = Some (version, items)"
    and "o_configMode opts \<noteq> Config_Prompt" and "length typed < MaxPassBuf - 1"
    and "createV6Config (disk_host env typed xw xr) (ssl_ciphers e) name_codings opts w = (Inr (Some root), w')"
    and "d_files v = d_files w'" and "d_input v = d_input w"
  shows "\<exists>v'. initFS (disk_host env typed xw xr) (ssl_ciphers e) name_codings (ks, bs, idle) opts v =
    (Inr (Some (root\<lparr>er_root := (er_root root)\<lparr>dn_cfg := (dn_cfg (er_root root))\<lparr>
       fs_config := (reloaded (EncFSConfig_new ks bs) (fs_config (dn_cfg (er_root root))))\<lparr>c_cfgType := Config_V6\<rparr>,
       fs_idleTracking := idle\<rparr>\<rparr>\<rparr>)), v')"
proof -
  let ?H = "disk_host env typed xw xr"
  obtain keyLen vk uk cfg password where kl: "keyLen \<in> {192, 256}"
      and root: "make_root name_codings opts (o_idleTracking opts) cfg (SSL_Cipher e (aes_cipher e 2 keyLen)) vk w' = (Inr (Some root), w')"
      and files: "d_files w' = (d_files w)(config_path env (o_rootDir opts) \<mapsto> xw 20 (save_v6 cfg))"
      and cfg: "c_cipherIface cfg = AESInterface" "c_nameIface cfg = BlockNameIO_CurrentInterface" "c_keySize cfg = keyLen"
        "c_subVersion cfg = V6SubVersion" "c_cfgType cfg = Config_V6"
      and rev: "o_reverseEncryption opts \<longrightarrow> \<not> has_headers cfg"
      and key: "key_of (SSL_Cipher e (aes_cipher e 2 keyLen)) password cfg uk"
        "length (c_keyData cfg) = vt_encodedKeySize (SSL_Cipher e (aes_cipher e 2 keyLen))"
        "ssl_readKey e (aes_cipher e 2 keyLen) (c_keyData cfg) uk (o_checkKey opts) = Inr (Some vk)"
      and again: "\<And>v cfg0. d_input v = d_input w \<Longrightarrow> \<exists>v'. d_files v' = d_files v \<and>
        getUserKey ?H (ssl_ciphers e) (o_useStdin opts) cfg0 v = makeKey ?H (ssl_ciphers e) password cfg0 v'"
    using created [OF assms(1,3,4,5)] by blast
  let ?c = "SSL_Cipher e (aes_cipher e 2 keyLen)"
  let ?r = "reloaded (EncFSConfig_new ks bs) cfg"
  let ?cfg = "?r\<lparr>c_cfgType := Config_V6\<rparr>"
  have fs: "fs_config (dn_cfg (er_root root)) = cfg"
    using root by (auto simp: make_root_def Inr_simps case_Inr Let_def DirNode_new_def)
  have c: "getCipher (ssl_ciphers e) ?r = Inr (Some ?c)" "getCipher (ssl_ciphers e) ?cfg = Inr (Some ?c)"
    using getCipher_aes [OF assms(1), of ?r] getCipher_aes [OF assms(1), of ?cfg] kl cfg
    by (simp_all add: reloaded_def AESInterface_def)
  have "readV6Config ?H (ssl_ciphers e) (Some (xw 20 (save_v6 cfg))) (EncFSConfig_new ks bs) = (Inr True, ?r)"
    using load_save_v6 [OF _ c(1)] key(2) cfg(4) by (simp add: readV6Config_def disk_simps assms(2) V6SubVersion_def)
  then have read: "readConfig ?H (ssl_ciphers e) (o_rootDir opts) (EncFSConfig_new ks bs) v = (Inr (Config_V6, ?cfg), v)"
    using assms(6) files by (simp add: readConfig_disk [where contents = "xw 20 (save_v6 cfg)"])
  have headers: "\<not> (o_reverseEncryption opts \<and> has_headers ?cfg)"
    using rev by (simp add: has_headers_def reloaded_def)
  have "key_of ?c password ?cfg uk" using key(1) by (simp add: key_of_def reloaded_def)
  then obtain v' where user: "getUserKey ?H (ssl_ciphers e) (o_useStdin opts) ?cfg v = (Inr (Some uk, ?cfg), v')"
    using again [OF assms(7), of ?cfg] makeKey_again [OF _ c(2)] by fastforce
  have vk: "vt_readKey ?c (c_keyData ?r) uk (o_checkKey opts) = Inr (Some vk)"
    using key(3) by (simp add: SSL_Cipher_def reloaded_def)
  have iface: "c_chainedNameIV ?cfg = c_chainedNameIV cfg"
      "c_nameIface ?cfg = Interface (lit ''nameio/block'') 3 0 (iface_age (c_nameIface (EncFSConfig_new ks bs)))"
    using cfg(2) by (simp_all add: reloaded_def BlockNameIO_CurrentInterface_def)
  have "open_volume ?H (ssl_ciphers e) name_codings opts idle ?cfg v =
      (Inr (Some (root\<lparr>er_root := (er_root root)\<lparr>dn_cfg := (dn_cfg (er_root root))\<lparr>fs_config := ?cfg, fs_idleTracking := idle\<rparr>\<rparr>\<rparr>)), v')"
    unfolding open_volume_def if_not_P [OF headers]
    by (simp add: sbind_def sres_def c(2) user vk make_root_again [OF root cfg(2) iface])
  then show ?thesis unfolding fs by (simp add: initFS_def sbind_def read)
qed

subsection \<open>What else holds of opening a volume\<close>

text \<open>
  C19: a configuration file that exists and cannot be read counts as none: with the option to create
  a volume, a new one is made, and its configuration replaces the file, which held the key of the
  old one.
\<close>
theorem damaged_config_replaced:
  assumes "evp_ok e" and "\<And>version items. xr (xw version items) = Some (version, items)"
    and "o_configMode opts \<noteq> Config_Prompt" and "length typed < MaxPassBuf - 1" and "o_createIfNotFound opts"
    and "d_files w (config_path env (o_rootDir opts)) = Some damaged" and "xr damaged = None"
    and "createV6Config (disk_host env typed xw xr) (ssl_ciphers e) name_codings opts w = (Inr (Some root), w')"
  shows "initFS (disk_host env typed xw xr) (ssl_ciphers e) name_codings (ks, bs, idle) opts w = (Inr (Some root), w') \<and>
    d_files w' (config_path env (o_rootDir opts)) \<noteq> Some damaged"
proof -
  have "readConfig (disk_host env typed xw xr) (ssl_ciphers e) (o_rootDir opts) (EncFSConfig_new ks bs) w =
      (Inr (Config_None, EncFSConfig_new ks bs), w)"
    using assms(6,7) by (simp add: readConfig_disk [where contents = damaged] readV6Config_def disk_simps)
  then have init: "initFS (disk_host env typed xw xr) (ssl_ciphers e) name_codings (ks, bs, idle) opts w = (Inr (Some root), w')"
    using assms(5,8) by (simp add: initFS_def sbind_def)
  obtain cfg where "d_files w' (config_path env (o_rootDir opts)) = Some (xw 20 (save_v6 cfg))"
    using created [OF assms(1,3,4,8)] by auto
  moreover have "xw 20 (save_v6 cfg) \<noteq> damaged" using assms(2) [of 20 "save_v6 cfg"] assms(7) by auto
  ultimately show ?thesis using init by simp
qed

text \<open>Keys change the salt and the iterations only.\<close>

lemma no_salt_updates [simp]:
  "no_salt (cfg\<lparr>c_salt := salt\<rparr>) = no_salt cfg" "no_salt (cfg\<lparr>c_kdfIterations := n\<rparr>) = no_salt cfg"
  "no_salt (cfg\<lparr>c_salt := salt, c_kdfIterations := n\<rparr>) = no_salt cfg"
  by (simp_all add: no_salt_def)

lemma makeKey_config:
  assumes "makeKey H cm password cfg w = (Inr (k, cfg'), w')"
  shows "no_salt cfg' = no_salt cfg"
proof -
  let ?cfg = "if c_salt cfg = [] \<and> c_kdfIterations cfg = 0 \<and> c_cfgType cfg = Config_V6
    then cfg\<lparr>c_salt := replicate 20 0\<rparr> else cfg"
  have "no_salt ?cfg = no_salt cfg" by simp
  moreover have "no_salt cfg' = no_salt ?cfg"
    using assms unfolding makeKey_def sbind_Inr case_Inr Let_def
    by (auto simp: Inr_simps simp del: split_paired_Ex split: if_split_asm)
  ultimately show ?thesis by simp
qed

lemma getUserKey_config:
  "getUserKey H cm useStdin cfg w = (Inr (k, cfg'), w') \<Longrightarrow> no_salt cfg' = no_salt cfg"
  by (auto simp: getUserKey_def Inr_simps split: option.split_asm if_split_asm dest: makeKey_config)

lemma getNewUserKey_config:
  assumes "getNewUserKey H cm cfg w = Some (Inr (k, cfg'), w')"
  shows "no_salt cfg' = no_salt cfg"
proof -
  have "case fst (Inr (k, cfg') :: ('a \<times> EncFSConfig) res, w') of Inl e \<Rightarrow> True | Inr (k, cfg') \<Rightarrow> no_salt cfg' = no_salt cfg"
    by (rule getNewUserKey.raw_induct [where P = "\<lambda>H cm cfg w r. case fst r of Inl e \<Rightarrow> True | Inr (k, cfg') \<Rightarrow> no_salt cfg' = no_salt cfg",
          OF _ assms])
      (fastforce split: prod.split_asm if_split_asm sum.split_asm option.split_asm sum.split dest: makeKey_config)
  then show ?thesis by simp
qed

lemma new_user_key_config:
  "new_user_key H cm useStdin cfg w = (Inr (k, cfg'), w') \<Longrightarrow> no_salt cfg' = no_salt cfg"
  by (auto simp: new_user_key_def Inr_simps split: if_split_asm dest: getUserKey_config getNewUserKey_config)

definition plain_settings :: "settings \<Rightarrow> bool" where
  "plain_settings st \<longleftrightarrow> s_blockMACBytes st = 0 \<and> s_blockMACRandBytes st = 0 \<and> \<not> s_uniqueIV st \<and> \<not> s_externalIV st \<and> \<not> s_chainedIV st"

lemma manual_plain:
  "manual_settings H cm nm True st w = (Inr st', w') \<Longrightarrow> plain_settings st \<Longrightarrow> plain_settings st'"
  by (auto simp: manual_settings_def Inr_simps plain_settings_def)

lemma choose_plain:
  assumes "choose_settings H cm nm configMode True w = (Inr (Some st), w')"
  shows "plain_settings st"
  using assms
  by (auto simp: choose_settings_def Inr_simps Let_def split: if_split_asm option.split_asm dest!: manual_plain)
     (auto simp: plain_settings_def standard_settings_def initial_settings_def)

lemma make_root_config: "make_root nm opts idle cfg c k w = (Inr (Some root), w') \<Longrightarrow> fs_config (dn_cfg (er_root root)) = cfg"
  by (auto simp: make_root_def Inr_simps case_Inr Let_def DirNode_new_def)

text \<open>
  C18: with \<open>--reverse\<close> a volume never has headers in its files nor chained IVs of names, whether it
  is opened or created, in whatever mode and whatever the answers.
\<close>
theorem reverse_without_headers:
  assumes "o_reverseEncryption opts" and "initFS H cm nm mem opts w = (Inr (Some root), w')"
  shows "\<not> has_headers (fs_config (dn_cfg (er_root root)))"
proof -
  obtain ks bs idle where mem: "mem = (ks, bs, idle)" by (cases mem)
  obtain type cfg v where read: "readConfig H cm (o_rootDir opts) (EncFSConfig_new ks bs) w = (Inr (type, cfg), v)"
    using assms(2) by (auto simp: initFS_def mem Inr_simps)
  show ?thesis
  proof (cases "type = Config_None")
    case False
    then have "open_volume H cm nm opts idle cfg v = (Inr (Some root), w')"
      using assms(2) by (simp add: initFS_def mem sbind_def read)
    then show ?thesis
      using assms(1) by (auto simp: open_volume_def Inr_simps case_Inr split: if_split_asm
          dest!: make_root_config getUserKey_config no_salt_fields(8))
  next
    case True
    then have "createV6Config H cm nm opts v = (Inr (Some root), w')"
      using assms(2) by (auto simp: initFS_def mem sbind_def read sret_def split: if_split_asm)
    then show ?thesis
      using assms(1)
      by (auto simp: createV6Config_def Inr_simps case_Inr Let_def split: if_split_asm
          dest!: choose_plain make_root_config new_user_key_config no_salt_fields(8))
        (auto simp: has_headers_def new_config_def plain_settings_def)
  qed
qed

subsection \<open>A volume on which the properties are evaluated\<close>

text \<open>An archive is a row of zeros, whose length is the number of what it holds.\<close>

instance nv :: countable
  by countable_datatype

definition sample_write :: "int \<Rightarrow> (string \<times> nv) list \<Rightarrow> bytes" where
  "sample_write version items = replicate (to_nat (version, items)) 0"

definition sample_read :: "bytes \<Rightarrow> (int \<times> (string \<times> nv) list) option" where
  "sample_read b = (if set b \<subseteq> {0} then Some (from_nat (length b)) else None)"

lemma sample_codec: "sample_read (sample_write version items) = Some (version, items)"
  by (auto simp: sample_read_def sample_write_def)

definition timed_evp :: evp where
  "timed_evp = sample_evp\<lparr>evp_time := \<lambda>i. (int i, 0)\<rparr>"

lemma timed_ok: "evp_ok timed_evp"
  using sample_ok(1) by (simp add: evp_ok_def timed_evp_def)

definition sample_opts :: "bool \<Rightarrow> EncFS_Opts" where
  "sample_opts reverse = EncFS_Opts_new\<lparr>o_rootDir := lit ''/v/'', o_useStdin := True, o_configMode := Config_Standard,
     o_reverseEncryption := reverse\<rparr>"

definition sample_disk :: "(bytes \<Rightarrow> bytes option) \<Rightarrow> disk" where
  "sample_disk files = \<lparr>d_files = files, d_input = [112, 119, 10], d_drawn = 0\<rparr>"

abbreviation sample_host :: "disk host" where
  "sample_host \<equiv> disk_host (\<lambda>_. None) [] sample_write sample_read"

lemma timed_simps:
  "evp_pbkdf2 timed_evp p salt i n = Some (replicate n (sum_list (p @ salt)))" "evp_time timed_evp j = (int j, 0)"
  "evp_rand timed_evp strong n j = (1, replicate n (of_nat j))" "evp_block_size timed_evp c = 8"
  by (simp_all add: timed_evp_def sample_evp_def)

lemma timed_key: "\<exists>k. ssl_newKey timed_evp sc password 0 500 salt = Inr (Some k, 1000)"
proof -
  have "TimedPBKDF2_loop timed_evp password salt n 500000 0 1000 = Some (Some (1000, replicate n (sum_list (password @ salt))))" for n
    by (subst TimedPBKDF2_loop.simps) (simp add: timed_simps time_diff_def cdiv_def)
  then show ?thesis by (simp add: ssl_newKey_def Let_def TimedPBKDF2_def)
qed

definition sample_config :: "bool \<Rightarrow> EncFSConfig" where
  "sample_config reverse = new_config AESInterface (standard_settings (ssl_ciphers timed_evp) reverse)"

lemma sample_config_cipher:
  "getCipher (ssl_ciphers timed_evp) (sample_config reverse) = Inr (Some (SSL_Cipher timed_evp (aes_cipher timed_evp 2 192)))"
  using getCipher_aes [OF timed_ok, of "sample_config reverse"]
  by (simp add: sample_config_def new_config_def EncFSConfig_new_def AESInterface_def standard_settings_def)

lemma sample_user_key:
  "\<exists>uk cfg' w'. new_user_key sample_host (ssl_ciphers timed_evp) True (sample_config reverse)
     (w\<lparr>d_input := [112, 119, 10]\<rparr>) = (Inr (Some uk, cfg'), w')"
proof -
  have cfg: "c_salt (sample_config reverse) = []" "c_kdfIterations (sample_config reverse) = 0" "c_cfgType (sample_config reverse) = Config_V6"
      "c_desiredKDFDuration (sample_config reverse) = 500"
    by (simp_all add: sample_config_def new_config_def EncFSConfig_new_def standard_settings_def NormalKDFDuration_def)
  have "\<exists>k cfg' v'. makeKey sample_host (ssl_ciphers timed_evp) password (sample_config reverse) v = (Inr (Some k, cfg'), v')" for password v
    using timed_key [of "aes_cipher timed_evp 2 192" password "replicate 20 (of_nat (d_drawn v))"]
    by (auto simp: makeKey_def sample_config_cipher cfg sbind_def sres_def asks_def sret_def disk_simps Let_def SSL_Cipher_def ssl_randomize_def timed_simps)
  then show ?thesis
    by (simp add: new_user_key_def getUserKey_def sbind_def asks_def sret_def disk_host_def MaxPassBuf_def eval_nat_numeral split: prod.splits)
qed

lemma sample_created:
  "\<exists>root w'. createV6Config sample_host (ssl_ciphers timed_evp) name_codings (sample_opts reverse) (sample_disk files) = (Inr (Some root), w')"
proof -
  let ?sc = "aes_cipher timed_evp 2 192"
  let ?c = "SSL_Cipher timed_evp ?sc"
  have kl: "192 \<in> {192, 256 :: int}" by simp
  obtain vk where vk: "ssl_newRandomKey timed_evp ?sc 0 = Inr (Some vk)"
    by (auto simp: ssl_newRandomKey_def ssl_randomize_def timed_simps)
  have "(sample_disk files)\<lparr>d_drawn := Suc (Suc 0), d_input := [112, 119, 10]\<rparr> = (sample_disk files)\<lparr>d_drawn := Suc (Suc 0)\<rparr>"
    by (simp add: sample_disk_def)
  then obtain uk cfg w2 where uk: "new_user_key sample_host (ssl_ciphers timed_evp) True (sample_config reverse)
      ((sample_disk files)\<lparr>d_drawn := Suc (Suc 0)\<rparr>) = (Inr (Some uk, cfg), w2)"
    using sample_user_key [of reverse "(sample_disk files)\<lparr>d_drawn := Suc (Suc 0)\<rparr>"] by (simp only:) blast
  have uk': "ssl_key_ok ?sc uk"
    using new_user_key_password [OF timed_ok _ uk sample_config_cipher]
    by (auto simp: sample_config_def new_config_def EncFSConfig_new_def MaxPassBuf_def)
  obtain key where key: "ssl_writeKey timed_evp ?sc vk (replicate (vt_encodedKeySize ?c) 0) uk = Inr key"
    using ssl_key_stored [OF timed_ok aes_ok(1) [OF timed_ok kl] conjunct1 [OF random_key_ok [OF timed_ok vk]] uk' aes_ok(2) [OF timed_ok kl]]
    by (metis length_replicate)
  have name: "c_nameIface (cfg\<lparr>c_keyData := d\<rparr>) = Interface (lit ''nameio/block'') 3 0 1" for d
    using no_salt_fields(3) [OF new_user_key_config [OF uk]]
    by (simp add: sample_config_def new_config_def standard_settings_def BlockNameIO_CurrentInterface_def)
  let ?cfg = "cfg\<lparr>c_keyData := take (vt_encodedKeySize ?c) key\<rparr>"
  have "\<exists>root. \<forall>v :: disk. make_root name_codings (sample_opts reverse) False ?cfg ?c vk v = (Inr (Some root), v)"
    unfolding make_root_def name block_coding_age
    by (simp add: BlockNameIO_def SSL_Cipher_def timed_simps rAssert_def sbind_def sres_def sret_def Let_def)
  then obtain root where root: "make_root name_codings (sample_opts reverse) False ?cfg ?c vk v = (Inr (Some root), v)" for v :: disk
    by blast
  have aes: "alg_name (s_alg (standard_settings (ssl_ciphers timed_evp) reverse)) = lit ''AES''" "s_keySize (standard_settings (ssl_ciphers timed_evp) reverse) = 192"
    by (simp_all add: standard_settings_def aes_found)
  have ch: "choose_settings sample_host (ssl_ciphers timed_evp) (name_codings :: sslkey codings) Config_Standard reverse w =
      (Inr (Some (standard_settings (ssl_ciphers timed_evp) reverse)), w)" for w
    by (simp add: choose_settings_def sbind_def sret_def Let_def aes lit_def)
  have opts: "o_configMode (sample_opts reverse) = Config_Standard" "o_reverseEncryption (sample_opts reverse) = reverse"
      "o_useStdin (sample_opts reverse) = True" "o_idleTracking (sample_opts reverse) = False"
    by (simp_all add: sample_opts_def EncFS_Opts_new_def)
  have d: "d_drawn (sample_disk files) = 0" by (simp add: sample_disk_def)
  have c: "vt_Interface ?c = AESInterface" "vt_newRandomKey ?c = ssl_newRandomKey timed_evp ?sc" "vt_writeKey ?c = ssl_writeKey timed_evp ?sc"
    by (simp_all add: SSL_Cipher_def aes_fields)
  show ?thesis
    by (simp add: createV6Config_def sbind_def opts ch aes aes_by_name [OF timed_ok kl] sres_def asks_def disk_simps d c vk
        uk [unfolded sample_config_def] key saveConfig_disk root Let_def)
qed

theorem created_volume_opens_witness:
  "\<exists>root root' w' v'. createV6Config sample_host (ssl_ciphers timed_evp) name_codings (sample_opts False) (sample_disk (\<lambda>_. None)) =
       (Inr (Some root), w') \<and>
     initFS sample_host (ssl_ciphers timed_evp) name_codings (7, 7, True) (sample_opts False) (w'\<lparr>d_input := [112, 119, 10]\<rparr>) =
       (Inr (Some root'), v') \<and> er_volumeKey root' = er_volumeKey root \<and> c_uniqueIV (fs_config (dn_cfg (er_root root')))
       = c_uniqueIV (fs_config (dn_cfg (er_root root)))"
proof -
  obtain root w' where c: "createV6Config sample_host (ssl_ciphers timed_evp) name_codings (sample_opts False) (sample_disk (\<lambda>_. None)) =
      (Inr (Some root), w')"
    using sample_created by blast
  then show ?thesis
    using created_volume_opens [OF timed_ok sample_codec _ _ c, of "w'\<lparr>d_input := [112, 119, 10]\<rparr>" 7 7 True]
    by (auto simp: sample_opts_def sample_disk_def MaxPassBuf_def reloaded_def)
qed

theorem damaged_config_replaced_witness:
  "\<exists>root w'. initFS sample_host (ssl_ciphers timed_evp) name_codings (7, 7, True) (sample_opts False)
       (sample_disk [lit ''/v/.encfs6.xml'' \<mapsto> [1]]) = (Inr (Some root), w') \<and>
     d_files w' (lit ''/v/.encfs6.xml'') \<noteq> Some [1]"
proof -
  obtain root w' where c: "createV6Config sample_host (ssl_ciphers timed_evp) name_codings (sample_opts False)
      (sample_disk [lit ''/v/.encfs6.xml'' \<mapsto> [1]]) = (Inr (Some root), w')"
    using sample_created by blast
  have "config_path (\<lambda>_. None) (lit ''/v/'') = lit ''/v/.encfs6.xml''" by (simp add: config_path_def lit_def)
  then show ?thesis
    using damaged_config_replaced [OF timed_ok sample_codec _ _ _ _ _ c, of "[1]" 7 7 True]
    by (auto simp: sample_opts_def EncFS_Opts_new_def sample_disk_def MaxPassBuf_def sample_read_def)
qed

theorem reverse_without_headers_witness:
  "\<exists>root w'. initFS sample_host (ssl_ciphers timed_evp) name_codings (7, 7, True) (sample_opts True)
       (sample_disk (\<lambda>_. None)) = (Inr (Some root), w') \<and> \<not> has_headers (fs_config (dn_cfg (er_root root)))"
proof -
  obtain root w' where c: "createV6Config sample_host (ssl_ciphers timed_evp) name_codings (sample_opts True) (sample_disk (\<lambda>_. None)) =
      (Inr (Some root), w')"
    using sample_created by blast
  have "readConfig sample_host (ssl_ciphers timed_evp) root cfg (sample_disk (\<lambda>_. None)) = (Inr (Config_None, cfg), sample_disk (\<lambda>_. None))" for root cfg
    by (simp add: readConfig_def ConfigFileMapping_def sbind_def asks_def sret_def fileExists_def Let_def disk_simps sample_disk_def)
  then have init: "initFS sample_host (ssl_ciphers timed_evp) name_codings (7, 7, True) (sample_opts True) (sample_disk (\<lambda>_. None)) = (Inr (Some root), w')"
    using c by (simp add: initFS_def sbind_def sample_opts_def EncFS_Opts_new_def)
  have "o_reverseEncryption (sample_opts True)" by (simp add: sample_opts_def)
  from init reverse_without_headers [OF this init] show ?thesis by blast
qed

end
