(* ===== verification/FuseOpt.thy ===== *)
theory FuseOpt
  imports Prelude
begin

text \<open>
  The option parser of FUSE for Windows (\<open>fuse_opt.c\<close>).  Arguments are C strings, the bytes
  before the NUL.  The data that options write to is of any type; an entry of the table names
  the field it writes.  Memory is not exhausted.
\<close>

subsection \<open>Tables\<close>

text \<open>
  The field at an offset is an \<open>int\<close> or a string; \<open>None\<close> is the offset \<open>-1\<close> of an entry that is
  passed to the processing function.
\<close>

datatype 'd slot =
    IntSlot "int \<Rightarrow> 'd \<Rightarrow> 'd"
  | StrSlot "bytes \<Rightarrow> 'd \<Rightarrow> 'd"

record 'd fuse_opt =
  templ :: bytes
  offset :: "'d slot option"
  opt_value :: int

definition FUSE_OPT :: "string \<Rightarrow> 'd slot option \<Rightarrow> int \<Rightarrow> 'd fuse_opt" where
  "FUSE_OPT t slot value = \<lparr>templ = lit t, offset = slot, opt_value = value\<rparr>"

definition FUSE_OPT_KEY :: "string \<Rightarrow> int \<Rightarrow> 'd fuse_opt" where
  "FUSE_OPT_KEY t key = FUSE_OPT t None key"

definition FUSE_OPT_KEY_OPT :: int where "FUSE_OPT_KEY_OPT = -1"
definition FUSE_OPT_KEY_NONOPT :: int where "FUSE_OPT_KEY_NONOPT = -2"
definition FUSE_OPT_KEY_KEEP :: int where "FUSE_OPT_KEY_KEEP = -3"
definition FUSE_OPT_KEY_DISCARD :: int where "FUSE_OPT_KEY_DISCARD = -4"

text \<open>
  The context of a run: the arguments that are still to come stand for \<open>argctr\<close>.  The processing
  function returns a code, the data and the new arguments.
\<close>

type_synonym 'd opt_proc = "'d \<Rightarrow> bytes \<Rightarrow> int \<Rightarrow> bytes list \<Rightarrow> int \<times> 'd \<times> bytes list"

record 'd opt_context =
  oc_data :: 'd
  oc_rest :: "bytes list"
  oc_outargs :: "bytes list"
  oc_opts :: "bytes option"
  oc_nonopt :: nat

definition fuse_opt_add_arg :: "bytes list \<Rightarrow> bytes \<Rightarrow> bytes list" where
  "fuse_opt_add_arg args arg = args @ [arg]"

definition fuse_opt_insert_arg :: "bytes list \<Rightarrow> nat \<Rightarrow> bytes \<Rightarrow> bytes list" where
  "fuse_opt_insert_arg args pos arg = take pos args @ arg # drop pos args"

definition fuse_opt_add_opt :: "bytes option \<Rightarrow> bytes \<Rightarrow> bytes option" where
  "fuse_opt_add_opt opts opt = (case opts of None \<Rightarrow> Some opt | Some o1 \<Rightarrow> Some (o1 @ 44 # opt))"

definition keep_arg :: "bytes \<Rightarrow> bool \<Rightarrow> 'd opt_context \<Rightarrow> 'd opt_context" where
  "keep_arg arg iso_o c =
     (if iso_o then c\<lparr>oc_opts := fuse_opt_add_opt (oc_opts c) arg\<rparr> else c\<lparr>oc_outargs := fuse_opt_add_arg (oc_outargs c) arg\<rparr>)"

definition call_proc :: "'d opt_proc option \<Rightarrow> bytes \<Rightarrow> int \<Rightarrow> bool \<Rightarrow> 'd opt_context \<Rightarrow> int \<times> 'd opt_context" where
  "call_proc proc arg key iso_o c =
     (if key = FUSE_OPT_KEY_DISCARD then (0, c)
      else
        case (if key \<noteq> FUSE_OPT_KEY_KEEP then proc else None) of
          None \<Rightarrow> (0, keep_arg arg iso_o c)
        | Some p \<Rightarrow>
            (case p (oc_data c) arg key (oc_outargs c) of
               (res, d, out) \<Rightarrow>
                 let c = c\<lparr>oc_data := d, oc_outargs := out\<rparr> in
                 if res = -1 \<or> res = 0 then (res, c) else (0, keep_arg arg iso_o c)))"

subsection \<open>Templates\<close>

definition strchr :: "bytes \<Rightarrow> byte \<Rightarrow> nat option" where
  "strchr s x = (if x \<in> set s then Some (length (takeWhile (\<lambda>y. y \<noteq> x) s)) else None)"

text \<open>The separator of a template that matches: 0 for the whole template.\<close>

definition match_template :: "bytes \<Rightarrow> bytes \<Rightarrow> nat option" where
  "match_template t arg =
     (let sep = (case strchr t 61 of Some i \<Rightarrow> Some i | None \<Rightarrow> strchr t 32);
          whole = (if t = arg then Some 0 else None) in
      case sep of
        None \<Rightarrow> whole
      | Some i \<Rightarrow>
          if Suc i = length t \<or> t ! Suc i = 37 then
            let tlen = (if t ! i = 61 then Suc i else i) in
            if tlen \<le> length arg \<and> take tlen arg = take tlen t then Some i else whole
          else whole)"

fun find_opt :: "'d fuse_opt list \<Rightarrow> bytes \<Rightarrow> ('d fuse_opt \<times> nat) option" where
  "find_opt [] arg = None"
| "find_opt (opt # opts) arg =
     (case match_template (templ opt) arg of Some sep \<Rightarrow> Some (opt, sep) | None \<Rightarrow> find_opt opts arg)"

definition fuse_opt_match :: "'d fuse_opt list \<Rightarrow> bytes \<Rightarrow> int" where
  "fuse_opt_match opts opt = (if find_opt opts opt \<noteq> None then 1 else 0)"

subsection \<open>Values\<close>

text \<open>\<open>sscanf\<close> with the formats for one number, of which the program uses \<open>%o\<close>; others are not read.\<close>

definition format_base :: "bytes \<Rightarrow> int option" where
  "format_base format =
     (if format = lit ''%o'' then Some 8 else if format = lit ''%u'' \<or> format = lit ''%d'' then Some 10 else None)"

definition digit_ok :: "int \<Rightarrow> byte \<Rightarrow> bool" where
  "digit_ok base x \<longleftrightarrow> 48 \<le> x \<and> uint x - 48 < base \<and> x \<le> 57"

definition scan_number :: "int \<Rightarrow> bytes \<Rightarrow> int option" where
  "scan_number base s =
     (let s = dropWhile (\<lambda>x. x = 32 \<or> 9 \<le> x \<and> x \<le> 13) s;
          neg = (s \<noteq> [] \<and> hd s = 45);
          s = (if s \<noteq> [] \<and> (hd s = 45 \<or> hd s = 43) then tl s else s);
          ds = takeWhile (digit_ok base) s in
      if ds = [] then None
      else
        let n = foldl (\<lambda>n x. base * n + (uint x - 48)) 0 ds in
        Some (if neg then - n else n))"

definition sscanf :: "bytes \<Rightarrow> bytes \<Rightarrow> int option" where
  "sscanf param format = Option.bind (format_base format) (\<lambda>base. scan_number base param)"

text \<open>A format \<open>%s\<close> stores a copy of the string; writing the other kind of field is left out.\<close>

definition process_opt_param :: "'d slot \<Rightarrow> bytes \<Rightarrow> bytes \<Rightarrow> 'd opt_context \<Rightarrow> int \<times> 'd opt_context" where
  "process_opt_param var format param c =
     (if 2 \<le> length format \<and> format ! 1 = 115
      then (case var of StrSlot put \<Rightarrow> (0, c\<lparr>oc_data := put param (oc_data c)\<rparr>) | IntSlot _ \<Rightarrow> (0, c))
      else
        (case sscanf param format of
           None \<Rightarrow> (-1, c)
         | Some n \<Rightarrow> (case var of IntSlot put \<Rightarrow> (0, c\<lparr>oc_data := put n (oc_data c)\<rparr>) | StrSlot _ \<Rightarrow> (0, c))))"

definition process_opt ::
  "'d opt_proc option \<Rightarrow> 'd fuse_opt \<Rightarrow> nat \<Rightarrow> bytes \<Rightarrow> bool \<Rightarrow> 'd opt_context \<Rightarrow> int \<times> 'd opt_context" where
  "process_opt proc opt sep arg iso_o c =
     (case offset opt of
        None \<Rightarrow> (case call_proc proc arg (opt_value opt) iso_o c of (res, c) \<Rightarrow> (if res = -1 then -1 else 0, c))
      | Some var \<Rightarrow>
          if sep \<noteq> 0 \<and> Suc sep < length (templ opt) then
            process_opt_param var (drop (Suc sep) (templ opt))
              (drop (if templ opt ! sep = 61 then Suc sep else sep) arg) c
          else
            (case var of IntSlot put \<Rightarrow> (0, c\<lparr>oc_data := put (opt_value opt) (oc_data c)\<rparr>) | StrSlot _ \<Rightarrow> (0, c)))"

text \<open>The next argument, if there is one.\<close>

definition next_arg :: "'d opt_context \<Rightarrow> (bytes \<times> 'd opt_context) option" where
  "next_arg c = (case oc_rest c of [] \<Rightarrow> None | x # xs \<Rightarrow> Some (x, c\<lparr>oc_rest := xs\<rparr>))"

definition process_opt_sep_arg ::
  "'d opt_proc option \<Rightarrow> 'd fuse_opt \<Rightarrow> nat \<Rightarrow> bytes \<Rightarrow> bool \<Rightarrow> 'd opt_context \<Rightarrow> int \<times> 'd opt_context" where
  "process_opt_sep_arg proc opt sep arg iso_o c =
     (case next_arg c of
        None \<Rightarrow> (-1, c)
      | Some (param, c) \<Rightarrow> process_opt proc opt sep (take sep arg @ param) iso_o c)"

subsection \<open>Arguments\<close>

text \<open>One entry that matches, and then every one, in the order of the table.\<close>

definition process_match ::
  "'d opt_proc option \<Rightarrow> 'd fuse_opt \<Rightarrow> nat \<Rightarrow> bytes \<Rightarrow> bool \<Rightarrow> 'd opt_context \<Rightarrow> int \<times> 'd opt_context" where
  "process_match proc opt sep arg iso_o c =
     (if sep \<noteq> 0 \<and> templ opt ! sep = 32 \<and> length arg = sep then process_opt_sep_arg proc opt sep arg iso_o c
      else process_opt proc opt sep arg iso_o c)"

fun process_matches ::
  "'d opt_proc option \<Rightarrow> 'd fuse_opt list \<Rightarrow> bytes \<Rightarrow> bool \<Rightarrow> 'd opt_context \<Rightarrow> int \<times> 'd opt_context" where
  "process_matches proc [] arg iso_o c = (0, c)"
| "process_matches proc (opt # opts) arg iso_o c =
     (case match_template (templ opt) arg of
        None \<Rightarrow> process_matches proc opts arg iso_o c
      | Some sep \<Rightarrow>
          (case process_match proc opt sep arg iso_o c of (res, c) \<Rightarrow> if res = -1 then (-1, c) else process_matches proc opts arg iso_o c))"

definition process_gopt ::
  "'d opt_proc option \<Rightarrow> 'd fuse_opt list \<Rightarrow> bytes \<Rightarrow> bool \<Rightarrow> 'd opt_context \<Rightarrow> int \<times> 'd opt_context" where
  "process_gopt proc opts arg iso_o c =
     (if find_opt opts arg \<noteq> None then process_matches proc opts arg iso_o c
      else call_proc proc arg FUSE_OPT_KEY_OPT iso_o c)"

text \<open>The pieces between the commas, one at least.\<close>

fun split_commas :: "bytes \<Rightarrow> bytes list" where
  "split_commas [] = [[]]"
| "split_commas (x # xs) =
     (if x = 44 then [] # split_commas xs
      else case split_commas xs of [] \<Rightarrow> [[x]] | p # ps \<Rightarrow> (x # p) # ps)"

fun process_pieces ::
  "'d opt_proc option \<Rightarrow> 'd fuse_opt list \<Rightarrow> bytes list \<Rightarrow> 'd opt_context \<Rightarrow> int \<times> 'd opt_context" where
  "process_pieces proc opts [] c = (0, c)"
| "process_pieces proc opts (p # ps) c =
     (case process_gopt proc opts p True c of (res, c) \<Rightarrow> if res = -1 then (-1, c) else process_pieces proc opts ps c)"

definition process_option_group ::
  "'d opt_proc option \<Rightarrow> 'd fuse_opt list \<Rightarrow> bytes \<Rightarrow> 'd opt_context \<Rightarrow> int \<times> 'd opt_context" where
  "process_option_group proc opts os c =
     (if 44 \<notin> set os then process_gopt proc opts os True c
      else process_pieces proc opts (split_commas os) c)"

definition process_one ::
  "'d opt_proc option \<Rightarrow> 'd fuse_opt list \<Rightarrow> bytes \<Rightarrow> 'd opt_context \<Rightarrow> int \<times> 'd opt_context" where
  "process_one proc opts arg c =
     (if oc_nonopt c \<noteq> 0 \<or> arg = [] \<or> hd arg \<noteq> 45 then call_proc proc arg FUSE_OPT_KEY_NONOPT False c
      else if 2 \<le> length arg \<and> arg ! 1 = 111 then
        (if 3 \<le> length arg then process_option_group proc opts (drop 2 arg) c
         else (case next_arg c of None \<Rightarrow> (-1, c) | Some (x, c) \<Rightarrow> process_option_group proc opts x c))
      else if arg = [45, 45] then
        let c = c\<lparr>oc_outargs := fuse_opt_add_arg (oc_outargs c) arg\<rparr> in
        (0, c\<lparr>oc_nonopt := length (oc_outargs c)\<rparr>)
      else process_gopt proc opts arg False c)"

text \<open>No step puts arguments back.\<close>

lemma call_proc_rest [simp]: "oc_rest (snd (call_proc proc arg key iso_o c)) = oc_rest c"
  by (simp add: call_proc_def keep_arg_def Let_def split: prod.split option.split)

lemma process_opt_rest [simp]: "oc_rest (snd (process_opt proc opt sep arg iso_o c)) = oc_rest c"
proof (cases "offset opt")
  case None
  obtain res c' where r: "call_proc proc arg (opt_value opt) iso_o c = (res, c')" by fastforce
  then show ?thesis using None call_proc_rest [of proc arg "opt_value opt" iso_o c, unfolded r] by (simp add: process_opt_def)
next
  case (Some var)
  then show ?thesis by (simp add: process_opt_def process_opt_param_def split: option.split slot.split)
qed

lemma process_match_rest: "length (oc_rest (snd (process_match proc opt sep arg iso_o c))) \<le> length (oc_rest c)"
  by (simp add: process_match_def process_opt_sep_arg_def next_arg_def split: list.split)

lemma process_matches_rest: "length (oc_rest (snd (process_matches proc opts arg iso_o c))) \<le> length (oc_rest c)"
proof (induction opts arbitrary: c)
  case (Cons opt opts)
  show ?case
  proof (cases "match_template (templ opt) arg")
    case (Some sep)
    obtain res c' where r: "process_match proc opt sep arg iso_o c = (res, c')" by fastforce
    show ?thesis using process_match_rest [of proc opt sep arg iso_o c] Cons [of c'] by (simp add: Some r)
  qed (simp add: Cons)
qed simp

lemma process_gopt_rest: "length (oc_rest (snd (process_gopt proc opts arg iso_o c))) \<le> length (oc_rest c)"
  by (simp add: process_gopt_def process_matches_rest)

lemma process_pieces_rest: "length (oc_rest (snd (process_pieces proc opts ps c))) \<le> length (oc_rest c)"
proof (induction ps arbitrary: c)
  case (Cons p ps)
  obtain res c' where r: "process_gopt proc opts p True c = (res, c')" by fastforce
  show ?case using process_gopt_rest [of proc opts p True c] Cons [of c'] by (simp add: r)
qed simp

lemma process_one_rest: "length (oc_rest (snd (process_one proc opts arg c))) \<le> length (oc_rest c)"
proof -
  have "length (oc_rest (snd (process_option_group proc opts x c))) \<le> length (oc_rest c)" for x c
    by (simp add: process_option_group_def process_gopt_rest process_pieces_rest)
  from this [of _ c] this [of "hd (oc_rest c)" "c\<lparr>oc_rest := tl (oc_rest c)\<rparr>"] show ?thesis
    by (auto simp: process_one_def process_gopt_rest next_arg_def split: list.split)
qed

function opt_loop :: "'d opt_proc option \<Rightarrow> 'd fuse_opt list \<Rightarrow> 'd opt_context \<Rightarrow> int \<times> 'd opt_context" where
  "opt_loop proc opts c =
     (case oc_rest c of
        [] \<Rightarrow> (0, c)
      | arg # rest \<Rightarrow>
          (case process_one proc opts arg (c\<lparr>oc_rest := rest\<rparr>) of
             (res, c) \<Rightarrow> if res = -1 then (-1, c) else opt_loop proc opts c))"
  by pat_completeness auto
termination
proof (relation "measure (\<lambda>(proc, opts, c). length (oc_rest c))")
  fix proc :: "'d opt_proc option" and opts :: "'d fuse_opt list" and c c' :: "'d opt_context" and arg rest res
  assume c: "oc_rest c = arg # rest" and x: "(res, c') = process_one proc opts arg (c\<lparr>oc_rest := rest\<rparr>)" and "res \<noteq> -1"
  have "length (oc_rest c') \<le> length rest"
    using process_one_rest [of proc opts arg "c\<lparr>oc_rest := rest\<rparr>"] by (simp add: x [symmetric])
  then show "((proc, opts, c'), proc, opts, c) \<in> measure (\<lambda>(proc, opts, c). length (oc_rest c))"
    using c by simp
qed simp

declare opt_loop.simps [simp del]

text \<open>A \<open>--\<close> at the end is dropped.\<close>

definition opt_parse :: "'d opt_proc option \<Rightarrow> 'd fuse_opt list \<Rightarrow> bytes \<Rightarrow> 'd opt_context \<Rightarrow> int \<times> 'd opt_context" where
  "opt_parse proc opts arg0 c =
     (case opt_loop proc opts (c\<lparr>oc_outargs := fuse_opt_add_arg (oc_outargs c) arg0\<rparr>) of
        (res, c) \<Rightarrow>
          if res = -1 then (-1, c)
          else
            let out = oc_outargs c;
                out = (case oc_opts c of None \<Rightarrow> out
                       | Some os \<Rightarrow> fuse_opt_insert_arg (fuse_opt_insert_arg out 1 (lit ''-o'')) 2 os);
                out = (if oc_nonopt c \<noteq> 0 \<and> oc_nonopt c = length out then butlast out else out) in
            (0, c\<lparr>oc_outargs := out\<rparr>))"

text \<open>The code, the arguments and the data afterwards; the arguments change on success only.\<close>

definition fuse_opt_parse ::
  "bytes list \<Rightarrow> 'd \<Rightarrow> 'd fuse_opt list \<Rightarrow> 'd opt_proc option \<Rightarrow> int \<times> bytes list \<times> 'd" where
  "fuse_opt_parse args d opts proc =
     (case args of
        [] \<Rightarrow> (0, args, d)
      | arg0 # rest \<Rightarrow>
          (case opt_parse proc opts arg0
              \<lparr>oc_data = d, oc_rest = rest, oc_outargs = [], oc_opts = None, oc_nonopt = 0\<rparr> of
             (res, c) \<Rightarrow> (res, if res \<noteq> -1 then oc_outargs c else args, oc_data c)))"

end
