(* ===== verification/FuseStart.thy ===== *)
theory FuseStart
  imports FuseOpt
begin

text \<open>
  How FUSE for Windows starts: its options (\<open>fuse_helpers.c\<close> and \<open>docanfuse.cpp\<close>), the channel
  to Dokan and \<open>fuse_main_real\<close>.  The library of Dokan is a parameter.
\<close>

subsection \<open>The options of the program\<close>

definition KEY_HELP :: int where "KEY_HELP = 0"
definition KEY_HELP_NOHEADER :: int where "KEY_HELP_NOHEADER = 1"
definition KEY_VERSION :: int where "KEY_VERSION = 2"

record helper_opts =
  ho_singlethread :: int
  ho_foreground :: int
  ho_fsname :: int
  ho_mountpoint :: "bytes option"

definition fuse_helper_opts :: "helper_opts fuse_opt list" where
  "fuse_helper_opts =
     (let foreground = Some (IntSlot (\<lambda>v. ho_foreground_update (\<lambda>_. v))) in
     [FUSE_OPT ''-d'' foreground 1, FUSE_OPT ''debug'' foreground 1, FUSE_OPT ''-f'' foreground 1,
      FUSE_OPT ''-s'' (Some (IntSlot (\<lambda>v. ho_singlethread_update (\<lambda>_. v)))) 1,
      FUSE_OPT ''fsname='' (Some (IntSlot (\<lambda>v. ho_fsname_update (\<lambda>_. v)))) 1,
      FUSE_OPT_KEY ''-h'' KEY_HELP, FUSE_OPT_KEY ''--help'' KEY_HELP, FUSE_OPT_KEY ''-ho'' KEY_HELP_NOHEADER,
      FUSE_OPT_KEY ''-V'' KEY_VERSION, FUSE_OPT_KEY ''--version'' KEY_VERSION,
      FUSE_OPT_KEY ''-d'' FUSE_OPT_KEY_KEEP, FUSE_OPT_KEY ''debug'' FUSE_OPT_KEY_KEEP,
      FUSE_OPT_KEY ''fsname='' FUSE_OPT_KEY_KEEP])"

text \<open>
  The mount point is the first argument that is no option.  It is copied through a buffer of
  \<open>MAX_PATH\<close> bytes, whose overflow is not modelled.
\<close>

definition fuse_helper_opt_proc :: "helper_opts opt_proc" where
  "fuse_helper_opt_proc hopts arg key outargs =
     (if key = KEY_HELP \<or> key = KEY_HELP_NOHEADER then (0, hopts, fuse_opt_add_arg outargs (lit ''-h''))
      else if key = KEY_VERSION then (1, hopts, outargs)
      else if key = FUSE_OPT_KEY_NONOPT then
        (case ho_mountpoint hopts of
           None \<Rightarrow> (0, hopts\<lparr>ho_mountpoint := fuse_opt_add_opt None arg\<rparr>, outargs)
         | Some _ \<Rightarrow> (-1, hopts, outargs))
      else (1, hopts, outargs))"

definition add_default_fsname :: "bytes \<Rightarrow> bytes list \<Rightarrow> bytes list" where
  "add_default_fsname progname args =
     (let after = rev (takeWhile (\<lambda>x. x \<noteq> 47) (rev progname));
          basename = (if 47 \<notin> set progname then progname else if after = [] then [47] else after) in
      fuse_opt_add_arg args (lit ''-ofsname='' @ basename))"

text \<open>The arguments, the mount point, whether several threads serve and whether in the foreground.\<close>

definition fuse_parse_cmdline :: "bytes list \<Rightarrow> (bytes list \<times> bytes option \<times> bool \<times> bool) option" where
  "fuse_parse_cmdline args =
     (case fuse_opt_parse args \<lparr>ho_singlethread = 0, ho_foreground = 0, ho_fsname = 0, ho_mountpoint = None\<rparr>
         fuse_helper_opts (Some fuse_helper_opt_proc) of
        (res, args, hopts) \<Rightarrow>
          if res = -1 then None
          else Some (if ho_fsname hopts = 0 then add_default_fsname (hd args) args else args,
                 ho_mountpoint hopts, ho_singlethread hopts = 0, ho_foreground hopts \<noteq> 0))"

subsection \<open>The options of the library\<close>

text \<open>
  The field \<open>setsignals\<close> is an \<open>int\<close> that a pointer to the string is written to; it is only compared
  with zero.
\<close>

record fuse_config =
  cf_umask :: int
  cf_fileumask :: int
  cf_dirumask :: int
  cf_fsname :: "bytes option"
  cf_volname :: "bytes option"
  cf_help :: int
  cf_debug :: int
  cf_setsignals :: "bytes option"

definition fuse_config_new :: fuse_config where
  "fuse_config_new =
     \<lparr>cf_umask = 0, cf_fileumask = 0, cf_dirumask = 0, cf_fsname = None, cf_volname = None, cf_help = 0,
      cf_debug = 0, cf_setsignals = None\<rparr>"

definition fuse_lib_opts :: "fuse_config fuse_opt list" where
  "fuse_lib_opts =
     (let debug = Some (IntSlot (\<lambda>v. cf_debug_update (\<lambda>_. v))) in
     [FUSE_OPT_KEY ''-h'' KEY_HELP, FUSE_OPT_KEY ''--help'' KEY_HELP,
      FUSE_OPT_KEY ''debug'' FUSE_OPT_KEY_KEEP, FUSE_OPT_KEY ''-d'' FUSE_OPT_KEY_KEEP,
      FUSE_OPT ''debug'' debug 1, FUSE_OPT ''-d'' debug 1,
      FUSE_OPT ''umask=%o'' (Some (IntSlot (\<lambda>v. cf_umask_update (\<lambda>_. v)))) 0,
      FUSE_OPT ''fileumask=%o'' (Some (IntSlot (\<lambda>v. cf_fileumask_update (\<lambda>_. v)))) 0,
      FUSE_OPT ''dirumask=%o'' (Some (IntSlot (\<lambda>v. cf_dirumask_update (\<lambda>_. v)))) 0,
      FUSE_OPT ''fsname=%s'' (Some (StrSlot (\<lambda>v. cf_fsname_update (\<lambda>_. Some v)))) 0,
      FUSE_OPT ''volname=%s'' (Some (StrSlot (\<lambda>v. cf_volname_update (\<lambda>_. Some v)))) 0,
      FUSE_OPT ''setsignals=%s'' (Some (StrSlot (\<lambda>v. cf_setsignals_update (\<lambda>_. Some v)))) 0])"

definition fuse_lib_opt_proc :: "fuse_config opt_proc" where
  "fuse_lib_opt_proc conf arg key outargs = (1, if key = KEY_HELP then conf\<lparr>cf_help := 1\<rparr> else conf, outargs)"

definition fuse_is_lib_option :: "bytes \<Rightarrow> int" where
  "fuse_is_lib_option opt = fuse_opt_match fuse_lib_opts opt"

subsection \<open>The channel to Dokan\<close>

text \<open>
  What the loop asks of Dokan: its options, the masks and names of the bridge.  A call of the
  library is an event; the pointers to its functions are there once the channel is initialised.
\<close>

record dokan_options =
  do_Version :: nat
  do_ThreadCount :: nat
  do_Options :: nat
  do_MountPoint :: bytes
  do_filemask :: int
  do_dirmask :: int
  do_fsname :: "bytes option"
  do_volname :: "bytes option"

datatype dokan_event =
    DokanMain dokan_options
  | DokanRemoveMountPoint bytes
  | DokanUnmount byte

record dokan_dll =
  dd_version :: "nat option"
  dd_main :: "(dokan_options \<Rightarrow> int) option"
  dd_unmount :: bool
  dd_removeMountPoint :: bool

record fuse_chan =
  ch_mountpoint :: bytes
  ch_main :: "(dokan_options \<Rightarrow> int) option"
  ch_unmount :: bool
  ch_removeMountPoint :: bool

record 'u fuse =
  fu_ch :: "fuse_chan option"
  fu_conf :: fuse_config
  fu_user_data :: 'u

definition DOKAN_VERSION :: nat where "DOKAN_VERSION = 600"
definition FUSE_THREAD_COUNT :: nat where "FUSE_THREAD_COUNT = 10"

definition fuse_chan_new :: "bytes \<Rightarrow> fuse_chan" where
  "fuse_chan_new mountpoint = \<lparr>ch_mountpoint = mountpoint, ch_main = None, ch_unmount = False, ch_removeMountPoint = False\<rparr>"

text \<open>\<open>None\<close> is a library that cannot be loaded.\<close>

definition fuse_chan_init :: "dokan_dll option \<Rightarrow> fuse_chan \<Rightarrow> bool \<times> fuse_chan" where
  "fuse_chan_init dll ch =
     (case dll of
        None \<Rightarrow> (False, ch)
      | Some d \<Rightarrow>
          if dd_version d = None \<or> the (dd_version d) < DOKAN_VERSION then (False, ch)
          else
            let ch = ch\<lparr>ch_main := dd_main d, ch_unmount := dd_unmount d, ch_removeMountPoint := dd_removeMountPoint d\<rparr> in
            (dd_main d \<noteq> None \<and> dd_unmount d \<and> dd_removeMountPoint d, ch))"

definition fuse_mount :: "bytes option \<Rightarrow> fuse_chan option" where
  "fuse_mount mountpoint = (case mountpoint of None \<Rightarrow> None | Some m \<Rightarrow> if m = [] then None else Some (fuse_chan_new m))"

definition fuse_unmount :: "bytes option \<Rightarrow> fuse_chan option \<Rightarrow> dokan_event list" where
  "fuse_unmount mountpoint ch =
     (case (ch, mountpoint) of
        (Some c, Some m) \<Rightarrow>
          if m = [] then []
          else if ch_removeMountPoint c then [DokanRemoveMountPoint m]
          else if ch_unmount c then [DokanUnmount (hd m)] else []
      | _ \<Rightarrow> [])"

text \<open>The options of Dokan: keep alive and removable, with debug the messages and their place.\<close>

definition loop_options :: "'u fuse \<Rightarrow> fuse_chan \<Rightarrow> bool \<Rightarrow> dokan_options" where
  "loop_options fs ch mt =
     (let umask = (if cf_umask (fu_conf fs) = 0 then 0x1FF else cf_umask (fu_conf fs));
          dirumask = (if cf_dirumask (fu_conf fs) = 0 then umask else cf_dirumask (fu_conf fs));
          fileumask = (if cf_fileumask (fu_conf fs) = 0 then umask else cf_fileumask (fu_conf fs)) in
      \<lparr>do_Version = DOKAN_VERSION, do_ThreadCount = (if mt then FUSE_THREAD_COUNT else 1),
       do_Options = 8 + 32 + (if cf_debug (fu_conf fs) \<noteq> 0 then 1 + 2 else 0), do_MountPoint = ch_mountpoint ch,
       do_filemask = fileumask, do_dirmask = dirumask, do_fsname = cf_fsname (fu_conf fs), do_volname = cf_volname (fu_conf fs)\<rparr>)"

definition do_fuse_loop :: "dokan_dll option \<Rightarrow> 'u fuse \<Rightarrow> bool \<Rightarrow> int \<times> 'u fuse \<times> dokan_event list" where
  "do_fuse_loop dll fs mt =
     (case fu_ch fs of
        None \<Rightarrow> (-1, fs, [])
      | Some ch \<Rightarrow>
          if ch_mountpoint ch = [] then (-1, fs, [])
          else
            (case fuse_chan_init dll ch of
               (ok, ch) \<Rightarrow>
                 let fs = fs\<lparr>fu_ch := Some ch\<rparr> in
                 case (if ok then ch_main ch else None) of
                   None \<Rightarrow> (-1, fs, [])
                 | Some main \<Rightarrow> let opts = loop_options fs ch mt in (main opts, fs, [DokanMain opts])))"

subsection \<open>Starting and ending\<close>

definition fuse_new :: "fuse_chan option \<Rightarrow> bytes list \<Rightarrow> 'u \<Rightarrow> bytes list \<times> 'u fuse option" where
  "fuse_new ch args user_data =
     (case fuse_opt_parse args fuse_config_new fuse_lib_opts (Some fuse_lib_opt_proc) of
        (res, args, conf) \<Rightarrow>
          (args, if res = -1 then None else Some \<lparr>fu_ch = ch, fu_conf = conf, fu_user_data = user_data\<rparr>))"

text \<open>
  When \<open>fuse_new\<close> fails, it has freed the channel, which \<open>fuse_setup\<close> then unmounts; nothing is
  called then, as a new channel has no functions yet.  On Windows there is no daemon, and signals
  are not handled.
\<close>

definition fuse_setup :: "bytes list \<Rightarrow> 'u \<Rightarrow> ('u fuse \<times> bytes option \<times> bool) option" where
  "fuse_setup argv user_data =
     (case fuse_parse_cmdline argv of
        None \<Rightarrow> None
      | Some (args, mountpoint, multithreaded, foreground) \<Rightarrow>
          let ch = fuse_mount mountpoint in
          case fuse_new ch args user_data of
            (args, fuse) \<Rightarrow>
              if fuse = None \<or> ch = None then None else Some (the fuse, mountpoint, multithreaded))"

definition fuse_teardown :: "'u fuse \<Rightarrow> bytes option \<Rightarrow> dokan_event list" where
  "fuse_teardown fuse mountpoint = fuse_unmount mountpoint (fu_ch fuse)"

definition fuse_main_real :: "dokan_dll option \<Rightarrow> bytes list \<Rightarrow> 'u \<Rightarrow> int \<times> dokan_event list" where
  "fuse_main_real dll argv user_data =
     (case fuse_setup argv user_data of
        None \<Rightarrow> (1, [])
      | Some (fuse, mountpoint, multithreaded) \<Rightarrow>
          (case do_fuse_loop dll fuse multithreaded of
             (res, fuse, evs) \<Rightarrow> (if res < 0 then 1 else 0, evs @ fuse_teardown fuse mountpoint)))"

end
