(* ===== verification/Arguments.thy ===== *)
theory Arguments
  imports FuseStart NewVolume
begin

text \<open>
  The arguments of \<open>encfs\<close> (\<open>encfs/main.cpp\<close>).  \<open>getopt_long\<close>, a library function, is a parameter:
  the list of the options that it returns with their arguments, and the arguments that remain.
\<close>

subsection \<open>The arguments for the program and for FUSE\<close>

definition MaxFuseArgs :: nat where "MaxFuseArgs = 32"

text \<open>The second argument for FUSE is null until the mount point is filled in.\<close>

record EncFS_Args =
  ea_mountPoint :: bytes
  ea_isDaemon :: bool
  ea_isThreaded :: bool
  ea_isVerbose :: bool
  ea_idleTimeout :: int
  ea_fuseArgv :: "bytes list"
  ea_opts :: EncFS_Opts

text \<open>Of an empty string the character before the first is read; it is taken for no slash.\<close>

definition slashTerminate :: "bytes \<Rightarrow> bytes" where
  "slashTerminate src = (if src \<noteq> [] \<and> last src = 47 then src else src @ [47])"

definition unslashTerminate :: "bytes \<Rightarrow> bytes" where
  "unslashTerminate src = (if 1 < length src \<and> (last src = 92 \<or> last src = 47) then butlast src else src)"

definition PUSHARG :: "bytes \<Rightarrow> EncFS_Args \<Rightarrow> EncFS_Args res" where
  "PUSHARG arg out =
     rbind (rAssert (length (ea_fuseArgv out) < MaxFuseArgs)) (\<lambda>_. Inr (out\<lparr>ea_fuseArgv := ea_fuseArgv out @ [arg]\<rparr>))"

fun push_args :: "bytes list \<Rightarrow> EncFS_Args \<Rightarrow> EncFS_Args res" where
  "push_args [] out = Inr out"
| "push_args (x # xs) out = rbind (PUSHARG x out) (push_args xs)"

text \<open>The last field of the data is \<open>useDefaultFlags\<close>; \<open>None\<close> ends the program.\<close>

definition upd_opts :: "(EncFS_Opts \<Rightarrow> EncFS_Opts) \<Rightarrow> EncFS_Args \<Rightarrow> EncFS_Args" where
  "upd_opts f out = out\<lparr>ea_opts := f (ea_opts out)\<rparr>"

definition process_flag :: "char \<Rightarrow> bytes \<Rightarrow> EncFS_Args \<times> bool \<Rightarrow> (EncFS_Args \<times> bool) option res" where
  "process_flag res optarg = (\<lambda>(out, useDefaultFlags).
     let ret = (\<lambda>out. Inr (Some (out, useDefaultFlags)));
         push = (\<lambda>xs out. rbind (push_args xs out) ret) in
     if res = CHR ''1'' then ret (upd_opts (o_configMode_update (\<lambda>_. Config_Standard)) out)
     else if res = CHR ''2'' then ret (upd_opts (o_configMode_update (\<lambda>_. Config_Paranoia)) out)
     else if res = CHR ''s'' then ret (out\<lparr>ea_isThreaded := False\<rparr>)
     else if res = CHR ''S'' then ret (upd_opts (o_useStdin_update (\<lambda>_. True)) out)
     else if res = CHR ''f'' then push [lit ''-f''] (out\<lparr>ea_isDaemon := False\<rparr>)
     else if res = CHR ''v'' then ret (out\<lparr>ea_isVerbose := True\<rparr>)
     else if res = CHR ''d'' then push [lit ''-d''] out
     else if res = CHR ''i'' then
       ret (upd_opts (o_idleTracking_update (\<lambda>_. True)) (out\<lparr>ea_idleTimeout := atoi optarg\<rparr>))
     else if res = CHR ''k'' then ret (upd_opts (o_checkKey_update (\<lambda>_. False)) out)
     else if res = CHR ''D'' then ret (upd_opts (o_forceDecode_update (\<lambda>_. True)) out)
     else if res = CHR ''r'' then ret (upd_opts (o_reverseEncryption_update (\<lambda>_. True)) out)
     else if res = CHR ''m'' then ret (upd_opts (o_mountOnDemand_update (\<lambda>_. True)) out)
     else if res = CHR ''N'' then Inr (Some (out, False))
     else if res = CHR ''o'' then push [lit ''-o'', optarg] out
     else if res = CHR ''V'' \<or> res = CHR ''H'' then Inr None
     else ret out)"

fun process_flags :: "(char \<times> bytes) list \<Rightarrow> EncFS_Args \<times> bool \<Rightarrow> (EncFS_Args \<times> bool) option res" where
  "process_flags [] s = Inr (Some s)"
| "process_flags ((res, optarg) # flags) s =
     rbind (process_flag res optarg s) (\<lambda>r. case r of None \<Rightarrow> Inr None | Some s \<Rightarrow> process_flags flags s)"

subsection \<open>Checking them\<close>

datatype processed = Exits | Refused | Accepted EncFS_Args

definition initial_args :: "bytes \<Rightarrow> EncFS_Args" where
  "initial_args argv0 =
     \<lparr>ea_mountPoint = [], ea_isDaemon = True, ea_isThreaded = True, ea_isVerbose = False, ea_idleTimeout = 0,
      ea_fuseArgv = [lastPathElement argv0, []],
      ea_opts = EncFS_Opts_new\<lparr>o_idleTracking := False, o_checkKey := True, o_forceDecode := False, o_ownerCreate := False,
        o_useStdin := False, o_reverseEncryption := False\<rparr>\<rparr>"

definition default_flags :: "bytes list" where
  "default_flags = [lit ''-o'', lit ''use_ino'', lit ''-o'', lit ''default_permissions'']"

definition args_consistent :: "EncFS_Args \<Rightarrow> bool" where
  "args_consistent out \<longleftrightarrow>
     \<not> (ea_isDaemon out \<and> (\<not> isAbsolutePath (ea_mountPoint out) \<or> \<not> isAbsolutePath (o_rootDir (ea_opts out)))) \<and>
     (let testMountPoint = slashTerminate (ea_mountPoint out) in
      testMountPoint \<noteq> take (length testMountPoint) (o_rootDir (ea_opts out))) \<and>
     \<not> (o_mountOnDemand (ea_opts out) \<and> o_passwordProgram (ea_opts out) = [])"

definition dir_or_made :: "'o host \<Rightarrow> bytes \<Rightarrow> ('o, bool) sm" where
  "dir_or_made H path =
     sbind (asks (isDirectory (h_lstat H) path)) (\<lambda>dir. if dir then sret True else userAllowMkdir H path 0x1C0)"

definition check_dirs :: "'o host \<Rightarrow> EncFS_Args \<Rightarrow> ('o, bool) sm" where
  "check_dirs H out =
     sbind (dir_or_made H (o_rootDir (ea_opts out))) (\<lambda>ok.
     if \<not> ok then sret False
     else if 2 < length (ea_mountPoint out) then dir_or_made H (ea_mountPoint out) else sret True)"

text \<open>The flags that follow from the options, the two directories, and what remains for FUSE.\<close>

definition complete_args :: "EncFS_Args \<times> bool \<Rightarrow> bytes list \<Rightarrow> EncFS_Args option res" where
  "complete_args = (\<lambda>(out, useDefaultFlags) rest.
     rbind (if ea_isThreaded out then Inr out else PUSHARG (lit ''-s'') out) (\<lambda>out.
     rbind (if useDefaultFlags then push_args default_flags out else Inr out) (\<lambda>out.
     case rest of
       root # mount # rest \<Rightarrow>
         rbind (push_args rest (upd_opts (o_rootDir_update (\<lambda>_. slashTerminate (unslashTerminate root)))
           (out\<lparr>ea_mountPoint := unslashTerminate mount\<rparr>))) (\<lambda>out. Inr (Some out))
     | _ \<Rightarrow> Inr None)))"

definition processArgs :: "'o host \<Rightarrow> bytes \<Rightarrow> (char \<times> bytes) list \<Rightarrow> bytes list \<Rightarrow> ('o, processed) sm" where
  "processArgs H argv0 flags rest =
     sbind (sres (process_flags flags (initial_args argv0, True))) (\<lambda>r.
     case r of
       None \<Rightarrow> sret Exits
     | Some s \<Rightarrow>
     sbind (sres (complete_args s rest)) (\<lambda>r.
     case r of
       None \<Rightarrow> sret Refused
     | Some out \<Rightarrow>
     if \<not> args_consistent out then sret Refused
     else
       sbind (check_dirs H out) (\<lambda>ok.
       sret (if ok then Accepted (out\<lparr>ea_fuseArgv := (ea_fuseArgv out)[1 := ea_mountPoint out]\<rparr>) else Refused))))"

subsection \<open>What FUSE makes of them\<close>

text \<open>Options of the program keep the mount point and only switch flags on.\<close>

definition grows :: "helper_opts \<Rightarrow> helper_opts \<Rightarrow> bool" where
  "grows d d' \<longleftrightarrow> ho_mountpoint d' = ho_mountpoint d \<and> (ho_singlethread d \<noteq> 0 \<longrightarrow> ho_singlethread d' \<noteq> 0) \<and>
     (ho_foreground d \<noteq> 0 \<longrightarrow> ho_foreground d' \<noteq> 0)"

lemma grows_refl [simp]: "grows d d"
  and grows_trans: "grows d1 d2 \<Longrightarrow> grows d2 d3 \<Longrightarrow> grows d1 d3"
  by (auto simp: grows_def)

definition kept :: "helper_opts opt_context \<Rightarrow> int \<times> helper_opts opt_context \<Rightarrow> bool" where
  "kept c r \<longleftrightarrow> fst r = 0 \<and> oc_rest (snd r) = oc_rest c \<and> oc_nonopt (snd r) = oc_nonopt c \<and> grows (oc_data c) (oc_data (snd r))"

abbreviation helper :: "helper_opts opt_proc option" where "helper \<equiv> Some fuse_helper_opt_proc"

lemma helper_call: "key \<noteq> FUSE_OPT_KEY_NONOPT \<Longrightarrow> kept c (call_proc helper arg key iso_o c)"
  by (auto simp: kept_def call_proc_def fuse_helper_opt_proc_def keep_arg_def Let_def)

definition plain_entry :: "helper_opts fuse_opt \<Rightarrow> bool" where
  "plain_entry opt \<longleftrightarrow> (\<forall>i. strchr (templ opt) 61 = Some i \<longrightarrow> Suc i = length (templ opt)) \<and> strchr (templ opt) 32 = None \<and>
     (case offset opt of None \<Rightarrow> opt_value opt \<noteq> FUSE_OPT_KEY_NONOPT
      | Some (IntSlot store) \<Rightarrow> (\<forall>d. grows d (store (opt_value opt) d)) | Some (StrSlot _) \<Rightarrow> False)"

lemma strchr_nth: "strchr s x = Some i \<Longrightarrow> i < length s \<and> s ! i = x"
  by (induction s arbitrary: i) (auto simp: strchr_def split: if_splits)

lemma plain_match:
  assumes "plain_entry opt" and "match_template (templ opt) arg = Some sep"
  shows "kept c (process_match helper opt sep arg iso_o c)"
proof -
  have sep: "sep = 0 \<or> Suc sep = length (templ opt) \<and> templ opt ! sep = 61"
    using assms strchr_nth [of "templ opt" 61]
    by (auto simp: plain_entry_def match_template_def Let_def split: option.splits if_splits)
  show ?thesis
  proof (cases "offset opt")
    case None
    then have "kept c (call_proc helper arg (opt_value opt) iso_o c)" using assms(1) by (intro helper_call) (simp add: plain_entry_def)
    then show ?thesis using sep None by (auto simp: process_match_def process_opt_def kept_def simp del: call_proc_rest split: prod.splits)
  next
    case (Some var)
    then show ?thesis using sep assms(1)
      by (auto simp: process_match_def process_opt_def kept_def plain_entry_def split: slot.splits)
  qed
qed

lemma kept_trans: "kept c r \<Longrightarrow> kept (snd r) r' \<Longrightarrow> kept c r'"
  using grows_trans by (auto simp: kept_def)

lemma plain_matches: "\<forall>opt \<in> set opts. plain_entry opt \<Longrightarrow> kept c (process_matches helper opts arg iso_o c)"
proof (induction opts arbitrary: c)
  case Nil
  then show ?case by (simp add: kept_def)
next
  case (Cons opt opts)
  show ?case
  proof (cases "match_template (templ opt) arg")
    case (Some sep)
    have k: "kept c (process_match helper opt sep arg iso_o c)" using plain_match Cons(2) Some by simp
    then obtain c' where c': "process_match helper opt sep arg iso_o c = (0, c')"
      by (cases "process_match helper opt sep arg iso_o c") (simp add: kept_def)
    have "kept c (process_matches helper opts arg iso_o c')"
      using kept_trans [OF k] Cons.IH [of c'] Cons(2) by (simp add: c')
    then show ?thesis by (simp add: Some c')
  qed (simp add: Cons)
qed

lemma helper_plain: "\<forall>opt \<in> set fuse_helper_opts. plain_entry opt"
  by (simp add: fuse_helper_opts_def Let_def FUSE_OPT_KEY_def FUSE_OPT_def plain_entry_def strchr_def lit_def grows_def
      KEY_HELP_def KEY_HELP_NOHEADER_def KEY_VERSION_def FUSE_OPT_KEY_NONOPT_def FUSE_OPT_KEY_KEEP_def)

lemma helper_gopt: "kept c (process_gopt helper fuse_helper_opts arg iso_o c)"
  by (simp add: process_gopt_def plain_matches [OF helper_plain] helper_call FUSE_OPT_KEY_OPT_def FUSE_OPT_KEY_NONOPT_def)

lemma helper_pieces: "kept c (process_pieces helper fuse_helper_opts ps c)"
proof (induction ps arbitrary: c)
  case (Cons p ps)
  obtain c' where c': "process_gopt helper fuse_helper_opts p True c = (0, c')"
    using helper_gopt [of c p True] by (auto simp: kept_def prod_eq_iff)
  show ?case using kept_trans [OF helper_gopt [of c p True]] Cons [of c'] by (simp add: c')
qed (simp add: kept_def)

lemma helper_group: "kept c (process_option_group helper fuse_helper_opts os c)"
  by (simp add: process_option_group_def helper_gopt helper_pieces)

text \<open>The flags that are passed on: single ones, and pairs with \<open>-o\<close>.\<close>

definition flag_piece :: "bytes list \<Rightarrow> bool" where
  "flag_piece p \<longleftrightarrow> p \<in> {[lit ''-f''], [lit ''-d''], [lit ''-s'']} \<or> (\<exists>x. p = [lit ''-o'', x])"

definition switched :: "bytes list list \<Rightarrow> helper_opts \<Rightarrow> bool" where
  "switched ps d \<longleftrightarrow> ([lit ''-s''] \<in> set ps \<longrightarrow> ho_singlethread d \<noteq> 0) \<and> ([lit ''-f''] \<in> set ps \<longrightarrow> ho_foreground d \<noteq> 0)"

lemma single_switches:
  "ho_singlethread (oc_data (snd (process_gopt helper fuse_helper_opts (lit ''-s'') False c))) \<noteq> 0"
  "ho_foreground (oc_data (snd (process_gopt helper fuse_helper_opts (lit ''-f'') False c))) \<noteq> 0"
  by (simp_all add: process_gopt_def fuse_helper_opts_def Let_def FUSE_OPT_KEY_def FUSE_OPT_def match_template_def strchr_def lit_def
      process_match_def process_opt_def)

lemma loop_step:
  assumes "process_one helper fuse_helper_opts x (c\<lparr>oc_rest := xs\<rparr>) = (0, c')" and "oc_rest c' = rest"
  shows "opt_loop helper fuse_helper_opts (c\<lparr>oc_rest := x # xs\<rparr>) = opt_loop helper fuse_helper_opts (c'\<lparr>oc_rest := rest\<rparr>)"
proof -
  have "c'\<lparr>oc_rest := rest\<rparr> = c'" using assms(2) by (cases c') simp
  then show ?thesis using assms(1) by (subst opt_loop.simps) simp
qed

lemma loop_piece:
  assumes "flag_piece p" and "oc_nonopt c = 0"
  shows "\<exists>c'. opt_loop helper fuse_helper_opts (c\<lparr>oc_rest := p @ rest\<rparr>) = opt_loop helper fuse_helper_opts (c'\<lparr>oc_rest := rest\<rparr>) \<and>
    oc_nonopt c' = 0 \<and> grows (oc_data c) (oc_data c') \<and> switched [p] (oc_data c')"
proof (cases "\<exists>x. p = [lit ''-o'', x]")
  case True
  then obtain x where p: "p = [lit ''-o'', x]" by blast
  let ?r = "process_option_group helper fuse_helper_opts x (c\<lparr>oc_rest := rest\<rparr>)"
  have k: "kept (c\<lparr>oc_rest := rest\<rparr>) ?r" by (rule helper_group)
  then obtain c' where c': "?r = (0, c')" "oc_rest c' = rest" "oc_nonopt c' = 0" "grows (oc_data c) (oc_data c')"
    using assms(2) by (cases ?r) (simp add: kept_def)
  have "process_one helper fuse_helper_opts (lit ''-o'') (c\<lparr>oc_rest := x # rest\<rparr>) = (0, c')"
    using assms(2) c'(1) by (simp add: process_one_def next_arg_def lit_def)
  from loop_step [OF this c'(2)] show ?thesis
    using c'(3,4) by (auto simp: p switched_def)
next
  case False
  then obtain x where p: "p = [x]" "x \<in> {lit ''-f'', lit ''-d'', lit ''-s''}" using assms(1) by (auto simp: flag_piece_def)
  let ?r = "process_gopt helper fuse_helper_opts x False (c\<lparr>oc_rest := rest\<rparr>)"
  have k: "kept (c\<lparr>oc_rest := rest\<rparr>) ?r" by (rule helper_gopt)
  then obtain c' where c': "?r = (0, c')" "oc_rest c' = rest" "oc_nonopt c' = 0" "grows (oc_data c) (oc_data c')"
    using assms(2) by (cases ?r) (simp add: kept_def)
  have one: "process_one helper fuse_helper_opts x (c\<lparr>oc_rest := rest\<rparr>) = (0, c')"
    using assms(2) c'(1) p(2) by (auto simp: process_one_def lit_def)
  have "switched [[x]] (oc_data c')"
    using single_switches [of "c\<lparr>oc_rest := rest\<rparr>"] c'(1) by (auto simp: switched_def)
  with loop_step [OF one c'(2)] show ?thesis using c'(3,4) by (auto simp: p(1))
qed

lemma loop_pieces:
  assumes "\<forall>p \<in> set ps. flag_piece p" and "oc_nonopt c = 0" and "switched qs (oc_data c)"
  shows "\<exists>c'. opt_loop helper fuse_helper_opts (c\<lparr>oc_rest := concat ps\<rparr>) = (0, c') \<and> oc_nonopt c' = 0 \<and>
    ho_mountpoint (oc_data c') = ho_mountpoint (oc_data c) \<and> switched (qs @ ps) (oc_data c')"
  using assms
proof (induction ps arbitrary: c qs)
  case Nil
  then show ?case by (subst opt_loop.simps) simp
next
  case (Cons p ps)
  obtain c' where c': "opt_loop helper fuse_helper_opts (c\<lparr>oc_rest := p @ concat ps\<rparr>) = opt_loop helper fuse_helper_opts (c'\<lparr>oc_rest := concat ps\<rparr>)"
      "oc_nonopt c' = 0" "grows (oc_data c) (oc_data c')" "switched [p] (oc_data c')"
    using loop_piece [of p c "concat ps"] Cons(2,3) by auto
  have "switched (qs @ [p]) (oc_data c')" using Cons(4) c'(3,4) by (auto simp: switched_def grows_def)
  with Cons.IH [of c' "qs @ [p]"] Cons(2) c' show ?case by (auto simp: grows_def)
qed

text \<open>The arguments for FUSE are the name, the place of the mount point, and flags.\<close>

definition fuse_args_ok :: "EncFS_Args \<Rightarrow> bool" where
  "fuse_args_ok out \<longleftrightarrow> (\<exists>a0 ps. ea_fuseArgv out = [a0, []] @ concat ps \<and> (\<forall>p \<in> set ps. flag_piece p) \<and>
     (\<not> ea_isDaemon out \<longrightarrow> [lit ''-f''] \<in> set ps))"

lemma push_args_Inr: "push_args xs out = Inr out' \<Longrightarrow> out' = out\<lparr>ea_fuseArgv := ea_fuseArgv out @ xs\<rparr>"
proof (induction xs arbitrary: out)
  case (Cons x xs)
  then have "push_args xs (out\<lparr>ea_fuseArgv := ea_fuseArgv out @ [x]\<rparr>) = Inr out'"
    by (auto simp: PUSHARG_def rAssert_def split: if_split_asm)
  from Cons.IH [OF this] show ?case by simp
qed simp

lemma rbind_Inr: "rbind r f = Inr y \<longleftrightarrow> (\<exists>x. r = Inr x \<and> f x = Inr y)"
  by (cases r) auto

lemma fuse_args_add:
  assumes "fuse_args_ok out" and "\<forall>p \<in> set ps. flag_piece p" and "ea_fuseArgv out' = ea_fuseArgv out @ concat ps"
    and "ea_isDaemon out \<and> \<not> ea_isDaemon out' \<Longrightarrow> [lit ''-f''] \<in> set ps" and "\<not> ea_isDaemon out \<Longrightarrow> \<not> ea_isDaemon out'"
  shows "fuse_args_ok out'"
proof -
  obtain a0 qs where "ea_fuseArgv out = [a0, []] @ concat qs" "\<forall>p \<in> set qs. flag_piece p" "\<not> ea_isDaemon out \<longrightarrow> [lit ''-f''] \<in> set qs"
    using assms(1) by (auto simp: fuse_args_ok_def)
  then have "ea_fuseArgv out' = [a0, []] @ concat (qs @ ps)" "\<forall>p \<in> set (qs @ ps). flag_piece p"
      "\<not> ea_isDaemon out' \<longrightarrow> [lit ''-f''] \<in> set (qs @ ps)"
    using assms(2-5) by auto
  then show ?thesis unfolding fuse_args_ok_def by blast
qed

lemma process_flag_ok:
  assumes "process_flag res optarg (out, def) = Inr (Some (out', def'))" and "fuse_args_ok out"
  shows "fuse_args_ok out'"
proof -
  have same: "fuse_args_ok o2" if "ea_fuseArgv o2 = ea_fuseArgv out" "ea_isDaemon o2 = ea_isDaemon out" for o2
    using fuse_args_add [of out "[]" o2] assms(2) that by simp
  have pushed: "fuse_args_ok o2"
    if "push_args p (out\<lparr>ea_isDaemon := d\<rparr>) = Inr o2" "flag_piece p" "d = ea_isDaemon out \<or> \<not> d \<and> p = [lit ''-f'']" for p d o2
    using fuse_args_add [of out "[p]" o2] assms(2) push_args_Inr [OF that(1)] that(2,3) by auto
  have daemon: "out\<lparr>ea_isDaemon := ea_isDaemon out\<rparr> = out" by simp
  show ?thesis
    using assms(1) pushed [of "[lit ''-f'']" False out'] pushed [of "[lit ''-d'']" "ea_isDaemon out" out']
      pushed [of "[lit ''-o'', optarg]" "ea_isDaemon out" out'] same [of out']
    unfolding daemon process_flag_def Let_def
    by (simp add: flag_piece_def split: if_split_asm) (auto simp: upd_opts_def rbind_Inr)
qed

lemma process_flags_ok:
  "process_flags flags (out, def) = Inr (Some (out', def')) \<Longrightarrow> fuse_args_ok out \<Longrightarrow> fuse_args_ok out'"
proof (induction flags arbitrary: out "def")
  case (Cons f flags)
  obtain res optarg where f: "f = (res, optarg)" by (cases f)
  obtain o2 d2 where "process_flag res optarg (out, def) = Inr (Some (o2, d2))" "process_flags flags (o2, d2) = Inr (Some (out', def'))"
    using Cons(2) by (auto simp: f rbind_Inr split: option.split_asm)
  then show ?case using Cons.IH Cons(3) process_flag_ok by blast
qed simp

lemma complete_args_ok:
  assumes "complete_args (out, def) [root, mount] = Inr (Some out')" and "fuse_args_ok out"
  shows "\<exists>a0 ps. ea_fuseArgv out' = [a0, []] @ concat ps \<and> (\<forall>p \<in> set ps. flag_piece p) \<and> (\<not> ea_isDaemon out' \<longrightarrow> [lit ''-f''] \<in> set ps) \<and>
    (\<not> ea_isThreaded out' \<longrightarrow> [lit ''-s''] \<in> set ps) \<and> ea_mountPoint out' = unslashTerminate mount"
proof -
  obtain a0 qs where q: "ea_fuseArgv out = [a0, []] @ concat qs" "\<forall>p \<in> set qs. flag_piece p" "\<not> ea_isDaemon out \<longrightarrow> [lit ''-f''] \<in> set qs"
    using assms(2) by (auto simp: fuse_args_ok_def)
  let ?s = "if ea_isThreaded out then [] else [[lit ''-s'']]"
  let ?d = "if def then [[lit ''-o'', lit ''use_ino''], [lit ''-o'', lit ''default_permissions'']] else []"
  obtain o1 where o1: "(if ea_isThreaded out then Inr out else PUSHARG (lit ''-s'') out) = Inr o1"
      and "rbind (if def then push_args default_flags o1 else Inr o1) (\<lambda>out. Inr (Some (upd_opts (o_rootDir_update (\<lambda>_. slashTerminate (unslashTerminate root)))
           (out\<lparr>ea_mountPoint := unslashTerminate mount\<rparr>)))) = Inr (Some out')"
    using assms(1) by (auto simp: complete_args_def rbind_Inr)
  then obtain o2 where o2: "(if def then push_args default_flags o1 else Inr o1) = Inr o2"
      and out': "out' = upd_opts (o_rootDir_update (\<lambda>_. slashTerminate (unslashTerminate root))) (o2\<lparr>ea_mountPoint := unslashTerminate mount\<rparr>)"
    by (auto simp: rbind_Inr)
  have "PUSHARG x a = push_args [x] a" for x a by (cases "PUSHARG x a") simp_all
  then have o1': "o1 = out\<lparr>ea_fuseArgv := ea_fuseArgv out @ concat ?s\<rparr>"
    using o1 push_args_Inr [of "[lit ''-s'']" out o1] by (auto split: if_split_asm)
  have o2': "o2 = o1\<lparr>ea_fuseArgv := ea_fuseArgv o1 @ concat ?d\<rparr>"
    using o2 push_args_Inr [of default_flags o1 o2] by (auto simp: default_flags_def split: if_split_asm)
  have "ea_fuseArgv out' = [a0, []] @ concat (qs @ ?s @ ?d)" by (simp add: out' o1' o2' q(1) upd_opts_def)
  moreover have "\<forall>p \<in> set (qs @ ?s @ ?d). flag_piece p" using q(2) by (auto simp: flag_piece_def)
  moreover have "\<not> ea_isDaemon out' \<longrightarrow> [lit ''-f''] \<in> set (qs @ ?s @ ?d)" using q(3) by (simp add: out' o1' o2' upd_opts_def)
  moreover have "\<not> ea_isThreaded out' \<longrightarrow> [lit ''-s''] \<in> set (qs @ ?s @ ?d)" by (simp add: out' o1' o2' upd_opts_def)
  moreover have "ea_mountPoint out' = unslashTerminate mount" by (simp add: out' upd_opts_def)
  ultimately show ?thesis by blast
qed



end
