(* ===== verification/Spec2Isabelle.thy ===== *)
theory Spec2Isabelle
  imports Prelude Base64 ConfigVar ConfigReader Interface Range MemoryPool Cipher SSL_Cipher
    NameIO BlockNameIO StreamNameIO NullNameIO FSConfig FileIO Blocks BlockFileIO RawFileIO
    CipherFileIO MACFileIO FileUtils FileNode Context DirNode Rename
    WinUtils CondVar IdleMonitor CompatWin Callbacks Volume FileLocks FuseMain Dokan Bridge
    ConfigFiles Setup NewVolume FuseOpt FuseStart Arguments
begin

text \<open>
  A model of encfs4win, the encrypting file system EncFS on Windows, with the properties
  that make its components correct.  The sources are under \<open>src/encfs/encfs/\<close>; those of FUSE for
  Windows, which are part of the program, under \<open>src/fuse4win-070d3a2e43de/src/\<close>.

  \<^bold>\<open>The program.\<close>  A volume stores every file of a directory tree under an encrypted name
  and with encrypted contents.  A configuration (\<open>FSConfig\<close>) chooses a cipher, a coding of
  names and the options of the file layer.  A file is a stack of objects: the disk
  (\<open>RawFileIO\<close>), the encryption of blocks with a header that holds the IV of the file
  (\<open>CipherFileIO\<close>), and optionally blocks with a checksum and random bytes (\<open>MACFileIO\<close>);
  the last two inherit the handling of ranges, caching, padding and truncation from
  \<open>BlockFileIO\<close>.  Names are coded component by component, with an IV chained along the
  path (\<open>NameIO\<close> and its implementations).  A node (\<open>FileNode\<close>) is a file with its two names; the
  nodes of a volume are made by \<open>DirNode\<close> and shared through the table of \<open>Context\<close>.  The callbacks
  of \<open>encfs.cpp\<close> serve FUSE; on Windows they are called by the bridge to Dokan, which keeps the
  handles, share modes and range locks of Windows; the functions of Unix they need are those
  of \<open>compatwin.cpp\<close>.  \<open>FileUtils.cpp\<close> creates volumes and opens them.

  \<^bold>\<open>Theories and sources.\<close>
  \<^item> \<open>Prelude\<close>: bytes and words, the result type \<open>res\<close> with one error per exception of the
    code, the division of C, buffers.
  \<^item> \<open>Base64\<close>: \<open>base64.cpp\<close>.  \<open>ConfigVar\<close>: \<open>ConfigVar.cpp\<close>, a buffer with an offset.
    \<open>ConfigReader\<close>: \<open>ConfigReader.cpp\<close>, a map of such buffers.  \<open>Interface\<close>:
    \<open>Interface.cpp\<close>.  \<open>Range\<close>: \<open>Range.h\<close>.  \<open>MemoryPool\<close>: \<open>MemoryPool.cpp\<close>, a step
    relation over the free list and the blocks its clients hold.
  \<^item> \<open>Cipher\<close>: \<open>Cipher.cpp\<close>, the virtual functions as the record \<open>cipher\<close>, their contract as
    the locale \<open>cipher_laws\<close>, the registry, \<open>NullCipher.cpp\<close>.  \<open>SSL_Cipher\<close>:
    \<open>SSL_Cipher.cpp\<close> over the OpenSSL functions, which are the record \<open>evp\<close> with the
    documented behaviour \<open>evp_ok\<close>.
  \<^item> \<open>NameIO\<close>, \<open>BlockNameIO\<close>, \<open>StreamNameIO\<close>, \<open>NullNameIO\<close>: the sources of the same names;
    the contract of a coding is the locale \<open>name_coder\<close>.
  \<^item> \<open>FSConfig\<close>: the records of \<open>FSConfig.h\<close> and the options of \<open>FileUtils.h\<close>.
  \<^item> \<open>FileIO\<close>: \<open>FileIO.h\<close>, the virtual functions as the record \<open>fileio\<close> over an explicit
    state (a method returns a result and a state also when it throws), and the contract of
    a file as a string of bytes, the locales \<open>byte_file\<close> and \<open>trunc_file\<close>.
  \<^item> \<open>Blocks\<close>: byte strings coded block by block (locale \<open>block_coding\<close>), which encryption
    and checksums share.
  \<^item> \<open>BlockFileIO\<close>: \<open>BlockFileIO.cpp\<close>; what it needs of a derived class is the locale
    \<open>block_layer\<close> (with truncation, \<open>block_trunc\<close>).
  \<^item> \<open>RawFileIO\<close>: \<open>RawFileIO.cpp\<close> over the functions of \<open>unix::\<close>, the record \<open>unix\<close> with the
    promises \<open>unix_file\<close>, \<open>unix_disk\<close> (writes succeed) and \<open>unix_fds\<close> (descriptors).
  \<^item> \<open>CipherFileIO\<close>, \<open>MACFileIO\<close>: the sources of the same names; locales \<open>cipher_file\<close>,
    \<open>cipher_trunc\<close> and \<open>mac_file\<close> fix the base file and the cipher and assume their
    contracts; they give a \<open>block_layer\<close>, hence a \<open>trunc_file\<close> again, so that the stack is
    put together by instantiation.
  \<^item> \<open>FileUtils\<close>: the path and file helpers of \<open>FileUtils.cpp\<close>.  \<open>ConfigFiles\<close>: its three formats of
    the configuration file and the search for the file.  \<open>Setup\<close>: its questions, the keys from
    passwords, \<open>createV6Config\<close> and \<open>initFS\<close>.  \<open>NewVolume\<close>: what holds of both.  \<open>Arguments\<close>: the
    arguments of \<open>encfs\<close> (\<open>main.cpp\<close>).
  \<^item> \<open>FileNode\<close>, \<open>DirNode\<close>: the sources of the same names; \<open>Rename\<close>: the recursive renaming of
    \<open>DirNode.cpp\<close> (\<open>genRenameList\<close>, \<open>RenameOp\<close>).  \<open>Context\<close>: \<open>Context.cpp\<close>, the table of open files.
  \<^item> \<open>Callbacks\<close>: the callbacks of \<open>encfs.cpp\<close>.  \<open>Volume\<close>: the state of a mounted volume under any
    sequence of them.
  \<^item> \<open>CondVar\<close>, \<open>IdleMonitor\<close>, \<open>CompatWin\<close>: the condition variables of \<open>compatwin.cpp\<close> and
    \<open>pthread.h\<close> as a step relation of threads, the idle monitor of \<open>main.cpp\<close> over them, and the
    file functions of \<open>compatwin.cpp\<close> over the Win32 calls (a record of parameters).
  \<^item> \<open>WinUtils\<close>: \<open>utils.cpp\<close> of the bridge.  \<open>FileLocks\<close>: the table of open files, share modes and
    ranges of \<open>fusemain.cpp\<close>.  \<open>FuseMain\<close>: \<open>impl_fuse_context\<close> over any operations of a file
    system.  \<open>Dokan\<close>: the callbacks of \<open>docanfuse.cpp\<close> and the operations that \<open>main.cpp\<close> gives
    FUSE.  \<open>Bridge\<close>: any sequence of requests of Windows to a mounted volume.  \<open>FuseOpt\<close>: the
    option parser \<open>fuse_opt.c\<close>.  \<open>FuseStart\<close>: the options of \<open>fuse_helpers.c\<close> and \<open>docanfuse.cpp\<close>,
    the channel to Dokan and the main function of FUSE.

  \<^bold>\<open>State.\<close>  An object of the file layer is a tuple: its cache, its members, and the state
  of the object below; \<open>onSnd\<close> applies a method of the lower object.  A volume is a record of the
  disk, the nodes and the context; the bridge adds its table of
  handles, numbered, with the locks of names.  Random bytes come from a generator that is
  called with a counter, which is part of the state.

  \<^bold>\<open>What the lemmas show.\<close>  Round trips of every coding (base 64, names, keys,
  configurations of formats 5 and 6, file blocks, UTF-8 and UTF-16, times); that a wrong checksum
  is refused (keys, names, blocks); that the file stack refines a string of bytes and never
  throws on a working disk, that a node does, and that a write through Windows is read back
  through Windows; that a new path IV keeps the contents; that renaming a directory is done
  completely or undone, and ends; that volume, bridge and locks stay consistent under all
  sequences of requests; that a new volume is opened with its password; that the
  mount point given to \<open>encfs\<close> is the one FUSE uses; ownership of
  descriptors, pooled buffers and nodes; which loops end; and the places where the code does not do
  what it means to (\<open>Range.closest\<close>, comparison of interfaces, the cached block after
  truncation, truncation to zero on Windows, the idle monitor, the checks of share modes, the
  damaged configuration).

  \<^bold>\<open>Bounds.\<close>  Sizes and offsets of files are natural numbers or integers, without the limit of
  64 bits, except where the Windows calls cut them (\<open>split64\<close>, the 32-bit lengths of requests);
  block numbers are cut to 64 bits where the code computes IVs with them.  A loop that may
  not end is \<open>partial_function (option)\<close> or ends with the error \<open>Diverges\<close>.  The recursion through the
  directories of a disk (\<open>genRenameList\<close>) has a depth as fuel: \<open>rename_list_terminates\<close> shows that
  a depth that covers the longest path of the disk is enough, and with less the result is
  \<open>Diverges\<close>, never a wrong list.

  \<^bold>\<open>Not modelled.\<close>  Mutexes of single methods (every method runs under the lock of its object and
  is a single step here; where calls of several threads interleave, as in the condition
  variables or between opening and closing a file, the steps are explicit), logging and what is
  printed, the terminal (\<open>readpassphrase\<close> is a parameter), \<open>getopt_long\<close> (a parameter), \<open>main\<close> of \<open>encfs\<close>,
  the administration program \<open>encfsctl.cpp\<close>, the archives of Boost (a parameter with its
  contract), OpenSSL, the Win32 API and Dokan (parameters), exhaustion of memory, the test
  program and the localisation library.
\<close>

end
